(* ===== verification/Prelude.thy ===== *)
theory Prelude
  imports Main "HOL-Library.Word"
begin

text \<open>
  Shared vocabulary of the development: the machine integers of the C sources, the
  error codes its functions return, the parameters that stand for the vendored
  pstop protocol library (its sources are not part of the repository), the list
  functions that histories of stop-switch reads are described with, and the
  fact collections the component proofs are driven by.
\<close>

unbundle bit_operations_syntax

section \<open>Fact collections\<close>

named_theorems const_simps \<open>values of the source's constants\<close>
named_theorems session_simps \<open>what each session operation does, field by field\<close>
named_theorems frame_simps \<open>fields an operation does not write\<close>

section \<open>Machine integers and error codes\<close>

type_synonym u8 = "8 word"
type_synonym u16 = "16 word"
type_synonym u32 = "32 word"
type_synonym u64 = "64 word"

type_synonym bytes = "u8 list"

text \<open>Error returns are negated errno values, success is 0, as in the sources.\<close>

definition ENOENT :: int where [const_simps]: "ENOENT = 2"
definition EIO :: int where [const_simps]: "EIO = 5"
definition EPIPE :: int where [const_simps]: "EPIPE = 32"
definition E2BIG :: int where [const_simps]: "E2BIG = 7"
definition ENOMEM :: int where [const_simps]: "ENOMEM = 12"
definition ENODEV :: int where [const_simps]: "ENODEV = 19"
definition EINVAL :: int where [const_simps]: "EINVAL = 22"
definition ENOSPC :: int where [const_simps]: "ENOSPC = 28"
definition EHOSTUNREACH :: int where [const_simps]: "EHOSTUNREACH = 118"
definition EMSGSIZE :: int where [const_simps]: "EMSGSIZE = 122"
definition ENOTSUP :: int where [const_simps]: "ENOTSUP = 134"

section \<open>Words as bytes\<close>

text \<open>Bytes of a word, least significant first, and back.\<close>

definition le16 :: "u16 \<Rightarrow> bytes" where
  "le16 w = [ucast w, ucast (drop_bit 8 w)]"

definition le32 :: "u32 \<Rightarrow> bytes" where
  "le32 w = [ucast w, ucast (drop_bit 8 w), ucast (drop_bit 16 w), ucast (drop_bit 24 w)]"

definition get_le16 :: "bytes \<Rightarrow> u16" where
  "get_le16 b = ucast (b ! 0) OR push_bit 8 (ucast (b ! 1))"

definition get_le32 :: "bytes \<Rightarrow> u32" where
  "get_le32 b = ucast (b ! 0) OR push_bit 8 (ucast (b ! 1)) OR
     push_bit 16 (ucast (b ! 2)) OR push_bit 24 (ucast (b ! 3))"

lemma join_bytes32:
  fixes w :: u32
  shows "ucast (ucast w :: u8) OR push_bit 8 (ucast (ucast (drop_bit 8 w) :: u8)) OR
     push_bit 16 (ucast (ucast (drop_bit 16 w) :: u8)) OR
     push_bit 24 (ucast (ucast (drop_bit 24 w) :: u8)) = w" (is "?L = w")
proof (rule bit_word_eqI)
  fix n :: nat
  assume "n < LENGTH(32)"
  then consider "n < 8" | "8 \<le> n" "n < 16" | "16 \<le> n" "n < 24" | "24 \<le> n" "n < 32"
    by fastforce
  then show "bit ?L n = bit w n"
    by cases (auto simp: bit_simps)
qed

lemma join_bytes16:
  fixes w :: u16
  shows "ucast (ucast w :: u8) OR push_bit 8 (ucast (ucast (drop_bit 8 w) :: u8)) = w"
  by (rule bit_word_eqI) (auto simp: bit_simps)

lemma split_bytes32:
  fixes a b c d :: u8
  defines "w \<equiv> (ucast a OR push_bit 8 (ucast b) OR push_bit 16 (ucast c) OR
    push_bit 24 (ucast d) :: u32)"
  shows "ucast w = a" "ucast (drop_bit 8 w) = b" "ucast (drop_bit 16 w) = c"
    "ucast (drop_bit 24 w) = d"
  unfolding w_def by (rule bit_word_eqI; auto simp: bit_simps dest: bit_imp_le_length)+

lemma get_le32_le32 [simp]: "get_le32 (le32 w) = w"
  by (simp add: get_le32_def le32_def join_bytes32)

lemma get_le16_le16 [simp]: "get_le16 (le16 w) = w"
  by (simp add: get_le16_def le16_def join_bytes16)

lemma length_le32 [simp]: "length (le32 w) = 4"
  by (simp add: le32_def)

lemma length_le16 [simp]: "length (le16 w) = 2"
  by (simp add: le16_def)

lemma unat_ucast_u32_u64: "unat (ucast (w :: u32) :: u64) = unat w"
  by (simp add: unsigned_ucast_eq take_bit_nat_eq_self_iff
      less_le_trans [OF unsigned_less [of w, where 'a = nat]])

section \<open>Decimal text\<close>

text \<open>\<open>%u\<close> of \<open>snprintf\<close>.\<close>

definition digit_of :: "nat \<Rightarrow> char" where
  "digit_of n = char_of (48 + n)"

fun dec_text :: "nat \<Rightarrow> string" where
  "dec_text n = (if n < 10 then [digit_of n] else dec_text (n div 10) @ [digit_of (n mod 10)])"

declare dec_text.simps [simp del]

section \<open>The pstop protocol library as a parameter\<close>

text \<open>
  The message codes, the 48-byte codec and the per-peer protocol data come from the
  vendored \<open>pstop_c\<close> library. A value of \<open>pstop_lib\<close> packs the functions and constants
  the sources use of it; every definition that depends on the library takes it as an
  argument. The message type itself stays abstract: only the fields the sources read
  are given, as selectors.
\<close>

datatype aux_role = PSTOP_AUX_ROLE_STOP_ONLY | PSTOP_AUX_ROLE_OPERATOR

record protocol_data =
  remote_id :: u32
  msg_counter :: u32
  last_received_stamp :: u64
  last_received_counter :: u32

record 'm pstop_lib =
  MSG_OK :: u8
  MSG_STOP :: u8
  MSG_BOND :: u8
  MSG_UNBOND :: u8
  MSG_UNKNOWN :: u8
  protocol_data_init :: "protocol_data \<Rightarrow> protocol_data"
  device_id_set :: "u32 \<Rightarrow> u32"
  create_bond_message :: "u64 \<Rightarrow> u32 \<Rightarrow> u32 \<Rightarrow> u32 \<Rightarrow> 'm"
  create_generic_message :: "u8 \<Rightarrow> u64 \<Rightarrow> u64 \<Rightarrow> u32 \<Rightarrow> u32 \<Rightarrow> u32 \<Rightarrow> u32 \<Rightarrow> 'm"
  aux_encode_role :: "'m \<Rightarrow> aux_role \<Rightarrow> 'm"
  message_encode :: "'m \<Rightarrow> bytes"
  message_decode :: "bytes \<Rightarrow> 'm"
  msg_message :: "'m \<Rightarrow> u8"
  msg_count :: "'m \<Rightarrow> u32"
  msg_stamp :: "'m \<Rightarrow> u64"
  msg_heartbeat_timeout :: "'m \<Rightarrow> u32"
  msg_checksum :: "'m \<Rightarrow> u16"
  msg_calculated_checksum :: "'m \<Rightarrow> u16"

text \<open>
  What the library documents of itself and the safety argument relies on: the five
  codes differ, a created message carries the type and the counter it was created with,
  announcing the role changes neither, and decoding an encoded frame gives back its type
  and its counter.
\<close>

definition lib_codes_distinct :: "'m pstop_lib \<Rightarrow> bool" where
  "lib_codes_distinct L \<longleftrightarrow>
     distinct [MSG_OK L, MSG_STOP L, MSG_BOND L, MSG_UNBOND L, MSG_UNKNOWN L]"

definition lib_codec_faithful :: "'m pstop_lib \<Rightarrow> bool" where
  "lib_codec_faithful L \<longleftrightarrow>
     (\<forall>t me it c. msg_message L (create_bond_message L t me it c) = MSG_BOND L
        \<and> msg_count L (create_bond_message L t me it c) = c) \<and>
     (\<forall>ty t rt me it c rc. msg_message L (create_generic_message L ty t rt me it c rc) = ty
        \<and> msg_count L (create_generic_message L ty t rt me it c rc) = c) \<and>
     (\<forall>m r. msg_message L (aux_encode_role L m r) = msg_message L m
        \<and> msg_count L (aux_encode_role L m r) = msg_count L m) \<and>
     (\<forall>m. msg_message L (message_decode L (message_encode L m)) = msg_message L m
        \<and> msg_count L (message_decode L (message_encode L m)) = msg_count L m)"

text \<open>An encoded frame fills the 48-byte buffer the sources give it.\<close>

definition lib_frame_sized :: "'m pstop_lib \<Rightarrow> bool" where
  "lib_frame_sized L \<longleftrightarrow> (\<forall>m. length (message_encode L m) = 48)"

section \<open>Histories\<close>

text \<open>Length of the longest suffix of a history all of whose entries satisfy a predicate.\<close>

definition trailing :: "('a \<Rightarrow> bool) \<Rightarrow> 'a list \<Rightarrow> nat" where
  "trailing P xs = length (takeWhile P (rev xs))"

lemma trailing_Nil [simp]: "trailing P [] = 0"
  by (simp add: trailing_def)

lemma trailing_snoc [simp]:
  "trailing P (xs @ [x]) = (if P x then Suc (trailing P xs) else 0)"
  by (simp add: trailing_def)

lemma trailing_le_length: "trailing P xs \<le> length xs"
  unfolding trailing_def by (metis length_rev length_takeWhile_le)

lemma trailing_iff_suffix:
  "n \<le> trailing P xs \<longleftrightarrow> n \<le> length xs \<and> (\<forall>x \<in> set (drop (length xs - n) xs). P x)"
proof (induction xs arbitrary: n rule: rev_induct)
  case Nil
  show ?case by simp
next
  case (snoc x xs)
  show ?case
  proof (cases n)
    case 0
    then show ?thesis by simp
  next
    case (Suc m)
    then show ?thesis using snoc.IH [of m] by auto
  qed
qed

lemma le_Suc_min: "(n::nat) \<le> cap \<Longrightarrow> n \<le> Suc (min cap t) \<longleftrightarrow> n \<le> Suc t"
  by auto

lemma ex_prefix_snoc:
  "(\<exists>n \<le> Suc (length xs). Q (take n (xs @ [x]))) \<longleftrightarrow>
     (\<exists>n \<le> length xs. Q (take n xs)) \<or> Q (xs @ [x])" (is "?L \<longleftrightarrow> ?R")
proof
  assume ?L
  then obtain n where n: "n \<le> Suc (length xs)" "Q (take n (xs @ [x]))" by blast
  show ?R
  proof (cases "n \<le> length xs")
    case True
    with n show ?thesis by auto
  next
    case False
    with n show ?thesis by simp
  qed
next
  assume ?R
  then show ?L
  proof
    assume "\<exists>n \<le> length xs. Q (take n xs)"
    then obtain n where "n \<le> length xs" "Q (take n (xs @ [x]))" by auto
    then show ?thesis using le_SucI by blast
  next
    assume "Q (xs @ [x])"
    then have "Q (take (Suc (length xs)) (xs @ [x]))" by simp
    then show ?thesis by blast
  qed
qed

section \<open>Loops over an index range\<close>

text \<open>
  \<open>for (i = 0; i < n; i++)\<close> over an array held as a function of the index: a body that
  writes only its own entry, computed from that entry, updates each index below \<open>n\<close>
  once.
\<close>

lemma fold_upd_pointwise:
  "fold (\<lambda>i f. f(i := g i (f i))) [0..<n] f = (\<lambda>i. if i < n then g i (f i) else f i)"
  by (induction n) auto

lemma fold_invariant_upt:
  assumes "P s" and "\<And>i s. i < n \<Longrightarrow> P s \<Longrightarrow> P (body i s)"
  shows "P (fold body [0..<n] s)"
proof -
  have "fold body xs s \<in> Collect P" if "P s" "set xs \<subseteq> {0..<n}" for xs s
    using that by (induction xs arbitrary: s) (auto simp: assms(2))
  from this [OF assms(1), of "[0..<n]"] show ?thesis by simp
qed

lemma fold_keeps: "(\<And>i s. f (body i s) = f s) \<Longrightarrow> f (fold body xs s) = f s"
  by (induction xs arbitrary: s) simp_all

section \<open>Machines with outputs\<close>

text \<open>
  A component driven by events, each step giving a list of outputs and the next state:
  its run over a list of events, and a condition on every step of a run.
\<close>

fun mealy_run :: "('e \<Rightarrow> 's \<Rightarrow> 'o list \<times> 's) \<Rightarrow> 'e list \<Rightarrow> 's \<Rightarrow> 'o list \<times> 's" where
  "mealy_run step [] s = ([], s)"
| "mealy_run step (e # es) s =
     (fst (step e s) @ fst (mealy_run step es (snd (step e s))),
      snd (mealy_run step es (snd (step e s))))"

fun mealy_all :: "('e \<Rightarrow> 's \<Rightarrow> 'o list \<times> 's) \<Rightarrow> ('e \<Rightarrow> 's \<Rightarrow> bool) \<Rightarrow> 'e list \<Rightarrow> 's \<Rightarrow> bool" where
  "mealy_all step P [] s = True"
| "mealy_all step P (e # es) s = (P e s \<and> mealy_all step P es (snd (step e s)))"

lemma mealy_run_append:
  "mealy_run step (es @ fs) s =
     (fst (mealy_run step es s) @ fst (mealy_run step fs (snd (mealy_run step es s))),
      snd (mealy_run step fs (snd (mealy_run step es s))))"
  by (induction es arbitrary: s) simp_all

lemma mealy_invariant:
  assumes "P s" and "\<And>e s. P s \<Longrightarrow> P (snd (step e s))"
  shows "P (snd (mealy_run step es s))"
  using assms(1) by (induction es arbitrary: s) (auto intro: assms(2))

text \<open>
  A sender whose outputs are numbered: between two resets each output carries the next
  number. \<open>lawful\<close> stands for what is assumed of the encoding of the number.
\<close>

locale counted_sender =
  fixes step :: "'e \<Rightarrow> 's \<Rightarrow> 'o list \<times> 's"
    and counter :: "'s \<Rightarrow> 'w::len word"
    and number :: "'o \<Rightarrow> 'w word"
    and resets :: "'e \<Rightarrow> 's \<Rightarrow> bool"
    and lawful :: bool
  assumes quiet_or_next:
    "lawful \<Longrightarrow> \<not> resets e s \<Longrightarrow>
       (fst (step e s) = [] \<and> counter (snd (step e s)) = counter s) \<or>
       (\<exists>x. fst (step e s) = [x] \<and> number x = counter s + 1
            \<and> counter (snd (step e s)) = counter s + 1)"
begin

lemma run_contiguous:
  assumes lawful and "mealy_all step (\<lambda>e s. \<not> resets e s) es s"
  shows "map number (fst (mealy_run step es s)) =
           map (\<lambda>i. counter s + of_nat (Suc i)) [0..<length (fst (mealy_run step es s))] \<and>
         counter (snd (mealy_run step es s)) =
           counter s + of_nat (length (fst (mealy_run step es s)))"
  using assms(2)
proof (induction es arbitrary: s)
  case Nil
  show ?case by simp
next
  case (Cons e es)
  let ?t = "snd (step e s)" and ?n = "length (fst (mealy_run step es (snd (step e s))))"
  from Cons.prems have rest: "mealy_all step (\<lambda>e s. \<not> resets e s) es ?t"
    and free: "\<not> resets e s" by simp_all
  note IH = Cons.IH [OF rest]
  from quiet_or_next [OF assms(1) free] show ?case
  proof
    assume "fst (step e s) = [] \<and> counter ?t = counter s"
    with IH show ?thesis by simp
  next
    assume "\<exists>x. fst (step e s) = [x] \<and> number x = counter s + 1 \<and> counter ?t = counter s + 1"
    then obtain x where x: "fst (step e s) = [x]" "number x = counter s + 1"
      "counter ?t = counter s + 1" by blast
    have "map (\<lambda>i. counter s + of_nat (Suc i)) [0..<Suc ?n] =
        (counter s + 1) # map (\<lambda>i. counter s + 1 + of_nat (Suc i)) [0..<?n]"
      by (simp add: upt_conv_Cons map_Suc_upt [symmetric] ac_simps del: upt_Suc)
    with IH x show ?thesis by (simp add: ac_simps del: upt_Suc)
  qed
qed

end

text \<open>A machine with a parked state that is silent and left by no event but a release.\<close>

locale parking =
  fixes step :: "'e \<Rightarrow> 's \<Rightarrow> 'o list \<times> 's"
    and parked :: "'s \<Rightarrow> bool"
    and releases :: "'e \<Rightarrow> bool"
  assumes parked_silent: "parked s \<Longrightarrow> \<not> releases e \<Longrightarrow> fst (step e s) = []"
    and parked_stays: "parked s \<Longrightarrow> \<not> releases e \<Longrightarrow> parked (snd (step e s))"
begin

lemma parked_run:
  assumes "parked s" and "\<forall>e \<in> set es. \<not> releases e"
  shows "fst (mealy_run step es s) = [] \<and> parked (snd (mealy_run step es s))"
  using assms by (induction es arbitrary: s) (auto simp: parked_silent parked_stays)

end

section \<open>Searching\<close>

lemma find_None_iff_all: "find P xs = None \<longleftrightarrow> (\<forall>x \<in> set xs. \<not> P x)"
  by (auto simp: find_None_iff)

lemma find_Some_member: "find P xs = Some x \<Longrightarrow> x \<in> set xs \<and> P x"
  by (metis find_Some_iff nth_mem)

end
