(* ===== verification/Http_Util.thy ===== *)
theory Http_Util
  imports Prelude "HOL-Library.Sublist"
begin

text \<open>
  Request parsing for the control plane (\<open>common/http_util/http_util.c\<close>): query strings,
  dotted-quad addresses, 32-bit numbers and HTTP Basic credentials. C strings are HOL
  strings without their terminator, NULL is \<open>None\<close>; a function that returns a negative
  errno or fills an output returns a sum. The base64 decoder belongs to Zephyr and is a
  parameter. The accumulators cannot pass their bound before the check that follows every
  digit, so they are natural numbers.
\<close>

section \<open>Query strings\<close>

function query_scan :: "string \<Rightarrow> nat \<Rightarrow> string \<Rightarrow> int + string" where
  "query_scan key out_len p =
     (if p = [] then Inl (- ENOENT)
      else
        (let pair = takeWhile (\<lambda>c. c \<noteq> CHR ''&'') p;
             rest = dropWhile (\<lambda>c. c \<noteq> CHR ''&'') p
         in if length pair > length key \<and> take (length key) p = key \<and> p ! length key = CHR ''=''
            then (let val = drop (length key + 1) pair
                  in if length val \<ge> out_len then Inl (- ENOSPC) else Inr val)
            else if rest = [] then Inl (- ENOENT)
            else query_scan key out_len (tl rest)))"
  by pat_completeness auto
termination
proof (relation "measure (\<lambda>(key, out_len, p). length p)")
  fix key :: string and out_len :: nat and p :: string and pair rest :: string
  assume "rest = dropWhile (\<lambda>c. c \<noteq> CHR ''&'') p" and "rest \<noteq> []" and "p \<noteq> []"
  then have "length (tl rest) < length rest" "length rest \<le> length p"
    by (simp_all add: length_dropWhile_le)
  then show "((key, out_len, tl rest), key, out_len, p) \<in> measure (\<lambda>(key, out_len, p). length p)"
    by simp
qed simp

declare query_scan.simps [simp del]

definition http_query_get :: "string option \<Rightarrow> string \<Rightarrow> nat \<Rightarrow> int + string" where
  "http_query_get url key out_len =
     (case url of None \<Rightarrow> Inl (- EINVAL)
      | Some u \<Rightarrow>
         if out_len = 0 then Inl (- EINVAL)
         else (case dropWhile (\<lambda>c. c \<noteq> CHR ''?'') u of
                 [] \<Rightarrow> Inl (- ENOENT)
               | _ # p \<Rightarrow> query_scan key out_len p))"

definition http_query_flag :: "string option \<Rightarrow> string \<Rightarrow> bool" where
  "http_query_flag url key \<longleftrightarrow> http_query_get url key 4 = Inr ''1''"

section \<open>Addresses and numbers\<close>

definition decimal_char :: "char \<Rightarrow> bool" where
  "decimal_char c \<longleftrightarrow> 48 \<le> (of_char c :: nat) \<and> (of_char c :: nat) \<le> 57"

definition decimal_value :: "char \<Rightarrow> nat" where
  "decimal_value c = of_char c - 48"

text \<open>The digit loop of one octet: the value, the digit count and what follows, or a refusal.\<close>

fun octet_loop :: "nat \<Rightarrow> nat \<Rightarrow> string \<Rightarrow> (nat \<times> nat \<times> string) option" where
  "octet_loop v digits [] = Some (v, digits, [])"
| "octet_loop v digits (c # s) =
     (if decimal_char c
      then (let v = v * 10 + decimal_value c
            in if v > 255 \<or> digits + 1 > 3 then None else octet_loop v (digits + 1) s)
      else Some (v, digits, c # s))"

function ipv4_loop :: "nat \<Rightarrow> u32 \<Rightarrow> string \<Rightarrow> (u32 \<times> string) option" where
  "ipv4_loop octet ip s =
     (if octet \<ge> 4 then Some (ip, s)
      else case octet_loop 0 0 s of
        None \<Rightarrow> None
      | Some (v, digits, s) \<Rightarrow>
          if digits = 0 then None
          else (let ip = push_bit 8 ip OR of_nat v
                in if octet < 3
                   then (case s of [] \<Rightarrow> None
                         | c # s \<Rightarrow> if c \<noteq> CHR ''.'' then None else ipv4_loop (octet + 1) ip s)
                   else ipv4_loop (octet + 1) ip s))"
  by pat_completeness auto
termination by (relation "measure (\<lambda>(octet, ip, s). 4 - octet)") auto

declare ipv4_loop.simps [simp del]

definition http_parse_ipv4 :: "string option \<Rightarrow> int + u32" where
  "http_parse_ipv4 s =
     (case s of None \<Rightarrow> Inl (- EINVAL)
      | Some s \<Rightarrow> (case ipv4_loop 0 0 s of
          Some (ip, []) \<Rightarrow> Inr ip
        | _ \<Rightarrow> Inl (- EINVAL)))"

definition hex_digit :: "char \<Rightarrow> int" where
  "hex_digit c = (let n = of_char c :: int in
     if 48 \<le> n \<and> n \<le> 57 then n - 48
     else if 97 \<le> n \<and> n \<le> 102 then n - 97 + 10
     else if 65 \<le> n \<and> n \<le> 70 then n - 65 + 10
     else -1)"

fun u32_loop :: "nat \<Rightarrow> nat \<Rightarrow> string \<Rightarrow> nat option" where
  "u32_loop base v [] = Some v"
| "u32_loop base v (c # s) =
     (let d = hex_digit c in
      if d < 0 \<or> d \<ge> int base then None
      else (let v = v * base + nat d
            in if v > 4294967295 then None else u32_loop base v s))"

definition http_parse_u32 :: "string option \<Rightarrow> int + u32" where
  "http_parse_u32 s =
     (case s of None \<Rightarrow> Inl (- EINVAL)
      | Some s \<Rightarrow>
         if s = [] then Inl (- EINVAL)
         else
          (let (base, s') = (if s ! 0 = CHR ''0'' \<and> 1 < length s \<and> (s ! 1 = CHR ''x'' \<or> s ! 1 = CHR ''X'')
                             then (16, drop 2 s) else (10, s))
           in if s' = [] then Inl (- EINVAL)
              else case u32_loop base 0 s' of
                None \<Rightarrow> Inl (- EINVAL)
              | Some v \<Rightarrow> Inr (of_nat v)))"

section \<open>Credentials\<close>

definition char_byte :: "char \<Rightarrow> u8" where
  "char_byte c = of_nat (of_char c)"

text \<open>
  \<open>b64 cap s\<close> is the return code of Zephyr's decoder for a buffer of \<open>cap\<close> bytes, with the
  bytes it decoded.
\<close>

definition http_basic_auth_ok ::
  "(nat \<Rightarrow> string \<Rightarrow> int \<times> bytes) \<Rightarrow> string option \<Rightarrow> string option \<Rightarrow> string option \<Rightarrow> bool" where
  "http_basic_auth_ok b64 header user password =
     (case (header, user, password) of
        (Some header, Some user, Some password) \<Rightarrow>
          if password = [] then False
          else if take 6 header \<noteq> ''Basic '' then False
          else (case b64 127 (drop 6 header) of (ret, decoded) \<Rightarrow>
            if ret \<noteq> 0 then False
            else if length decoded \<noteq> length user + 1 + length password
                    \<or> take (length user) decoded \<noteq> map char_byte user
                    \<or> decoded ! length user \<noteq> 0x3A then False
            else fold (\<lambda>i diff. diff OR (decoded ! (length user + 1 + i) XOR char_byte (password ! i)))
                   [0..<length password] 0 = 0)
      | _ \<Rightarrow> False)"

section \<open>What a query yields\<close>

definition clean_pair :: "string \<times> string \<Rightarrow> bool" where
  "clean_pair kv \<longleftrightarrow> CHR ''&'' \<notin> set (fst kv) \<and> CHR ''='' \<notin> set (fst kv) \<and> CHR ''&'' \<notin> set (snd kv)"

fun render_query :: "(string \<times> string) list \<Rightarrow> string" where
  "render_query [] = []"
| "render_query [(k, v)] = k @ ''='' @ v"
| "render_query ((k, v) # kvs) = k @ ''='' @ v @ ''&'' @ render_query kvs"

lemma split_at:
  "\<forall>c \<in> set xs. c \<noteq> a \<Longrightarrow>
     takeWhile (\<lambda>c. c \<noteq> a) (xs @ a # ys) = xs \<and> dropWhile (\<lambda>c. c \<noteq> a) (xs @ a # ys) = a # ys"
  by (induction xs) simp_all

lemma key_match:
  assumes "CHR ''='' \<notin> set key" and "CHR ''='' \<notin> set k"
  shows "length (k @ CHR ''='' # v) > length key \<and> take (length key) ((k @ CHR ''='' # v) @ rest) = key \<and>
      ((k @ CHR ''='' # v) @ rest) ! length key = CHR ''='' \<longleftrightarrow> k = key" (is "?L \<longleftrightarrow> ?R")
proof
  assume L: ?L
  define kv where "kv = k @ CHR ''='' # v"
  from L have kv: "length key < length kv" "take (length key) (kv @ rest) = key"
    "(kv @ rest) ! length key = CHR ''=''" by (simp_all only: kv_def)
  then have "take (length key) kv = key" "kv ! length key = CHR ''=''"
    by (simp_all add: nth_append)
  then have pre: "take (length key) (k @ CHR ''='' # v) = key"
    and eq: "(k @ CHR ''='' # v) ! length key = CHR ''=''" by (simp_all only: kv_def)
  have "length key \<le> length k"
  proof (rule ccontr)
    assume "\<not> length key \<le> length k"
    then obtain d where "length key = length k + Suc d"
      by (metis add_Suc_right less_iff_Suc_add not_le)
    with pre have "key = k @ CHR ''='' # take d v" by simp
    then have "CHR ''='' \<in> set key" by (metis in_set_conv_decomp)
    with assms(1) show False by simp
  qed
  moreover have "\<not> length key < length k"
  proof
    assume "length key < length k"
    with eq have "CHR ''='' \<in> set k" by (auto simp: nth_append dest: nth_mem)
    with assms(2) show False by simp
  qed
  ultimately show ?R using pre by simp
qed auto

lemma scan_step:
  assumes "CHR ''='' \<notin> set key" and "CHR ''='' \<notin> set k"
    and pair: "pair = k @ CHR ''='' # v" and p: "p = pair @ rest"
    and tw: "takeWhile (\<lambda>c. c \<noteq> CHR ''&'') p = pair" and dw: "dropWhile (\<lambda>c. c \<noteq> CHR ''&'') p = rest"
  shows "query_scan key n p = (if k = key then (if n \<le> length v then Inl (- ENOSPC) else Inr v)
    else if rest = [] then Inl (- ENOENT) else query_scan key n (tl rest))"
proof -
  have cond: "(length key < length pair \<and> take (length key) p = key \<and> p ! length key = CHR ''='') = (k = key)"
    using key_match [OF assms(1,2), of v rest] unfolding pair p .
  have "p \<noteq> []" by (simp add: p pair)
  moreover have "k = key \<Longrightarrow> drop (Suc (length key)) pair = v" by (simp add: pair)
  ultimately show ?thesis
    by (simp add: query_scan.simps [of key n p] tw dw cond Let_def)
qed

lemma scan_rendered:
  assumes "\<forall>kv \<in> set kvs. clean_pair kv" and "CHR ''='' \<notin> set key"
  shows "query_scan key n (render_query kvs) = (case map_of kvs key of None \<Rightarrow> Inl (- ENOENT)
     | Some v \<Rightarrow> if n \<le> length v then Inl (- ENOSPC) else Inr v)"
  using assms(1)
proof (induction kvs rule: render_query.induct)
  case 1
  then show ?case by (simp add: query_scan.simps [of key n "[]"])
next
  case (2 k v)
  then have clean: "CHR ''&'' \<notin> set k" "CHR ''='' \<notin> set k" "CHR ''&'' \<notin> set v"
    by (simp_all add: clean_pair_def)
  let ?p = "k @ CHR ''='' # v"
  have "\<forall>c \<in> set ?p. c \<noteq> CHR ''&''" using clean by auto
  then have "takeWhile (\<lambda>c. c \<noteq> CHR ''&'') ?p = ?p" "dropWhile (\<lambda>c. c \<noteq> CHR ''&'') ?p = []"
    by (simp_all only: takeWhile_eq_all_conv dropWhile_eq_Nil_conv)
  from scan_step [OF assms(2) clean(2) refl _ this, of n] show ?case by simp
next
  case (3 k v kv kvs)
  then have clean: "CHR ''&'' \<notin> set k" "CHR ''='' \<notin> set k" "CHR ''&'' \<notin> set v"
    by (simp_all add: clean_pair_def)
  let ?pair = "k @ CHR ''='' # v" and ?rest = "render_query (kv # kvs)"
  let ?p = "?pair @ CHR ''&'' # ?rest"
  have ren: "render_query ((k, v) # kv # kvs) = ?p" by simp
  have all: "\<forall>c \<in> set ?pair. c \<noteq> CHR ''&''" using clean by auto
  note tw = conjunct1 [OF split_at [OF all, of ?rest]] and dw = conjunct2 [OF split_at [OF all, of ?rest]]
  have IH: "query_scan key n ?rest = (case map_of (kv # kvs) key of None \<Rightarrow> Inl (- ENOENT)
     | Some v \<Rightarrow> if n \<le> length v then Inl (- ENOSPC) else Inr v)"
    using 3 by simp
  have scan: "query_scan key n ?p = (if k = key then (if n \<le> length v then Inl (- ENOSPC) else Inr v)
      else query_scan key n ?rest)"
    using scan_step [OF assms(2) clean(2) refl refl tw dw, of n] by (simp only: list.simps list.sel if_False)
  show ?case unfolding ren scan IH by simp
qed

text \<open>
  Query parameters are found exactly: in any URL made of a path and clean
  \<open>key=value\<close> pairs, looking a key up yields the value of its first pair, reports its
  absence, or refuses a value that does not fit; a value is never cut, and a key that only
  starts or ends like another is not taken for it.
\<close>

lemma http_query_get_first:
  assumes "CHR ''?'' \<notin> set path" and "\<forall>kv \<in> set kvs. clean_pair kv"
    and "CHR ''='' \<notin> set key" and "0 < n"
  shows "http_query_get (Some (path @ ''?'' @ render_query kvs)) key n =
    (case map_of kvs key of None \<Rightarrow> Inl (- ENOENT)
     | Some v \<Rightarrow> if n \<le> length v then Inl (- ENOSPC) else Inr v)"
proof -
  have "\<forall>c \<in> set path. c \<noteq> CHR ''?''" using assms(1) by auto
  then have "dropWhile (\<lambda>c. c \<noteq> CHR ''?'') (path @ ''?'' @ render_query kvs) = ''?'' @ render_query kvs"
    by (subst dropWhile_append2) auto
  with scan_rendered [OF assms(2,3), of n] assms(4) show ?thesis
    by (simp add: http_query_get_def)
qed

lemma http_query_get_first_instance:
  "http_query_get (Some (''/api/pstop_peers'' @ ''?'' @ render_query [(''slots'', ''9''), (''slot'', ''2'')])) ''slot'' 8 =
     Inr ''2''"
  using http_query_get_first [of "''/api/pstop_peers''" "[(''slots'', ''9''), (''slot'', ''2'')]" "''slot''" 8]
  by (simp add: clean_pair_def)

section \<open>What an address parses to\<close>

definition decimal_from :: "nat \<Rightarrow> string \<Rightarrow> nat" where
  "decimal_from v s = foldl (\<lambda>v c. v * 10 + decimal_value c) v s"

lemma decimal_from_simps [simp]:
  "decimal_from v [] = v"
  "decimal_from v (c # s) = decimal_from (v * 10 + decimal_value c) s"
  "decimal_from v (s @ t) = decimal_from (decimal_from v s) t"
  by (simp_all add: decimal_from_def)

lemma decimal_from_grows: "v \<le> decimal_from v s"
proof (induction s arbitrary: v)
  case (Cons c s)
  have "v \<le> v * 10 + decimal_value c" by simp
  also have "\<dots> \<le> decimal_from (v * 10 + decimal_value c) s" by (rule Cons.IH)
  finally show ?case by simp
qed simp

lemma octet_loop_eq:
  "v \<le> 255 \<Longrightarrow> n \<le> 3 \<Longrightarrow> octet_loop v n s =
     (let ds = takeWhile decimal_char s
      in if n + length ds > 3 \<or> decimal_from v ds > 255 then None
         else Some (decimal_from v ds, n + length ds, dropWhile decimal_char s))"
proof (induction s arbitrary: v n)
  case (Cons c s)
  show ?case
  proof (cases "decimal_char c \<and> v * 10 + decimal_value c \<le> 255 \<and> n < 3")
    case True
    with Cons.IH [of "v * 10 + decimal_value c" "n + 1"] show ?thesis by (simp add: Let_def)
  next
    case False
    have "v * 10 + decimal_value c \<le> decimal_from (v * 10 + decimal_value c) (takeWhile decimal_char s)"
      by (rule decimal_from_grows)
    with False Cons.prems show ?thesis by (auto simp: Let_def not_le)
  qed
qed simp

definition octet_text :: "string \<Rightarrow> bool" where
  "octet_text s \<longleftrightarrow> s \<noteq> [] \<and> length s \<le> 3 \<and> (\<forall>c \<in> set s. decimal_char c) \<and> decimal_from 0 s \<le> 255"

lemma octet_loop_Some:
  "octet_loop 0 0 s = Some (v, n, r) \<and> n \<noteq> 0 \<longleftrightarrow>
     (\<exists>t. s = t @ r \<and> octet_text t \<and> v = decimal_from 0 t \<and> n = length t \<and>
          (r = [] \<or> \<not> decimal_char (hd r)))" (is "?L \<longleftrightarrow> ?R")
proof
  assume ?L
  then have "r = dropWhile decimal_char s" "v = decimal_from 0 (takeWhile decimal_char s)"
    "n = length (takeWhile decimal_char s)" "length (takeWhile decimal_char s) \<le> 3"
    "decimal_from 0 (takeWhile decimal_char s) \<le> 255" "takeWhile decimal_char s \<noteq> []"
    by (auto simp: octet_loop_eq Let_def split: if_splits)
  moreover have "\<forall>c \<in> set (takeWhile decimal_char s). decimal_char c" by (auto dest: set_takeWhileD)
  moreover have "r = [] \<or> \<not> decimal_char (hd r)"
    using hd_dropWhile [of decimal_char s] calculation(1) by auto
  ultimately show ?R by (intro exI [of _ "takeWhile decimal_char s"]) (simp add: octet_text_def)
next
  assume ?R
  then obtain t where t: "s = t @ r" "octet_text t" "v = decimal_from 0 t" "n = length t"
    "r = [] \<or> \<not> decimal_char (hd r)" by blast
  then have "\<forall>c \<in> set t. decimal_char c" by (simp add: octet_text_def)
  then have "takeWhile decimal_char s = t @ takeWhile decimal_char r"
    "dropWhile decimal_char s = dropWhile decimal_char r" using t(1)
    by (simp_all add: takeWhile_append dropWhile_append)
  moreover have "takeWhile decimal_char r = []" "dropWhile decimal_char r = r"
    using t(5) by (cases r; simp)+
  ultimately show ?L using t by (auto simp: octet_loop_eq octet_text_def)
qed

lemma dot_not_decimal: "\<not> decimal_char (CHR ''.'')"
  by (simp add: decimal_char_def)

lemma ipv4_loop_step:
  "n < 3 \<Longrightarrow> ipv4_loop n ip s = Some (ip', s') \<longleftrightarrow>
     (\<exists>t r. s = t @ CHR ''.'' # r \<and> octet_text t \<and>
        ipv4_loop (Suc n) (push_bit 8 ip OR of_nat (decimal_from 0 t)) r = Some (ip', s'))"
proof -
  assume n: "n < 3"
  have "ipv4_loop n ip s = Some (ip', s') \<longleftrightarrow>
      (\<exists>v d r. (octet_loop 0 0 s = Some (v, d, CHR ''.'' # r) \<and> d \<noteq> 0) \<and>
         ipv4_loop (Suc n) (push_bit 8 ip OR of_nat v) r = Some (ip', s'))"
    using n by (subst ipv4_loop.simps) (auto simp: Let_def split: option.splits list.splits if_splits)
  then show ?thesis
    unfolding octet_loop_Some using dot_not_decimal by auto
qed

lemma ipv4_loop_last:
  "ipv4_loop 3 ip s = Some (ip', []) \<longleftrightarrow> octet_text s \<and> ip' = push_bit 8 ip OR of_nat (decimal_from 0 s)"
proof -
  have "ipv4_loop 3 ip s = Some (ip', []) \<longleftrightarrow>
      (\<exists>v d. (octet_loop 0 0 s = Some (v, d, []) \<and> d \<noteq> 0) \<and> ip' = push_bit 8 ip OR of_nat v)"
    by (subst ipv4_loop.simps) (auto simp: Let_def ipv4_loop.simps [of 4] split: option.splits)
  then show ?thesis unfolding octet_loop_Some by auto
qed

definition ipv4_of :: "nat \<Rightarrow> nat \<Rightarrow> nat \<Rightarrow> nat \<Rightarrow> u32" where
  "ipv4_of a b c d = push_bit 8 (push_bit 8 (push_bit 8 (of_nat a) OR of_nat b) OR of_nat c) OR of_nat d"

lemma parse_ipv4_Inr:
  "http_parse_ipv4 (Some s) = Inr ip \<longleftrightarrow> ipv4_loop 0 0 s = Some (ip, [])"
  by (auto simp: http_parse_ipv4_def split: option.split list.split)

lemma parse_ipv4_iff:
  "http_parse_ipv4 (Some s) = Inr ip \<longleftrightarrow>
     (\<exists>a b c d. s = a @ ''.'' @ b @ ''.'' @ c @ ''.'' @ d \<and>
        octet_text a \<and> octet_text b \<and> octet_text c \<and> octet_text d \<and>
        ip = ipv4_of (decimal_from 0 a) (decimal_from 0 b) (decimal_from 0 c) (decimal_from 0 d))"
proof -
  have three: "Suc (Suc (Suc 0)) = 3" by simp
  have "ipv4_loop 0 0 s = Some (ip, []) \<longleftrightarrow>
     (\<exists>a r. s = a @ CHR ''.'' # r \<and> octet_text a \<and>
       (\<exists>b q. r = b @ CHR ''.'' # q \<and> octet_text b \<and>
         (\<exists>c d. q = c @ CHR ''.'' # d \<and> octet_text c \<and> octet_text d \<and>
            ip = ipv4_of (decimal_from 0 a) (decimal_from 0 b) (decimal_from 0 c) (decimal_from 0 d))))"
    using ipv4_loop_step [of 0 0 s ip "[]"]
    by (simp add: ipv4_loop_step [of "Suc 0"] ipv4_loop_step [of "Suc (Suc 0)"] three ipv4_loop_last ipv4_of_def)
  also have "\<dots> \<longleftrightarrow> (\<exists>a b c d. s = a @ ''.'' @ b @ ''.'' @ c @ ''.'' @ d \<and>
        octet_text a \<and> octet_text b \<and> octet_text c \<and> octet_text d \<and>
        ip = ipv4_of (decimal_from 0 a) (decimal_from 0 b) (decimal_from 0 c) (decimal_from 0 d))"
    unfolding append.simps by blast
  finally show ?thesis unfolding parse_ipv4_Inr .
qed

text \<open>
  An address is accepted exactly when it is four groups of one to three decimal digits,
  each at most 255, separated by single dots with nothing before or after, and then yields
  those octets, most significant first. Everything else is refused.
\<close>

lemma http_parse_ipv4_exact:
  "http_parse_ipv4 (Some s) = Inr ip \<longleftrightarrow>
     (\<exists>a b c d. s = a @ ''.'' @ b @ ''.'' @ c @ ''.'' @ d \<and>
        octet_text a \<and> octet_text b \<and> octet_text c \<and> octet_text d \<and>
        ip = ipv4_of (decimal_from 0 a) (decimal_from 0 b) (decimal_from 0 c) (decimal_from 0 d))"
  by (rule parse_ipv4_iff)

section \<open>Printed and read back\<close>

text \<open>The dotted form the API echoes an address in (\<open>"%u.%u.%u.%u"\<close>).\<close>

definition show_ipv4 :: "u32 \<Rightarrow> string" where
  "show_ipv4 ip = dec_text (unat (drop_bit 24 ip AND 0xFF)) @ ''.'' @
     dec_text (unat (drop_bit 16 ip AND 0xFF)) @ ''.'' @
     dec_text (unat (drop_bit 8 ip AND 0xFF)) @ ''.'' @ dec_text (unat (ip AND 0xFF))"

lemma digit_of_decimal: "n < 10 \<Longrightarrow> decimal_char (digit_of n) \<and> decimal_value (digit_of n) = n"
  by (simp add: digit_of_def decimal_char_def decimal_value_def)

lemma dec_text_value: "(\<forall>c \<in> set (dec_text n). decimal_char c) \<and> decimal_from 0 (dec_text n) = n"
proof (induction n rule: dec_text.induct)
  case (1 n)
  show ?case
  proof (cases "n < 10")
    case True
    then show ?thesis using digit_of_decimal [of n] by (simp add: dec_text.simps [of n])
  next
    case False
    have "decimal_char (digit_of (n mod 10)) \<and> decimal_value (digit_of (n mod 10)) = n mod 10"
      by (rule digit_of_decimal) simp
    with 1 [OF False] False show ?thesis
      by (auto simp: dec_text.simps [of n])
  qed
qed

lemma dec_text_length: "n < 10 ^ k \<Longrightarrow> 0 < k \<Longrightarrow> length (dec_text n) \<le> k \<and> dec_text n \<noteq> []"
proof (induction n arbitrary: k rule: dec_text.induct)
  case (1 n)
  show ?case
  proof (cases "n < 10")
    case True
    with "1.prems" show ?thesis by (simp add: dec_text.simps [of n] Suc_le_eq)
  next
    case False
    with "1.prems"(1) have "k \<noteq> 1" by auto
    with "1.prems"(2) obtain j where k: "k = Suc j" "0 < j" by (cases k) auto
    have "n div 10 < 10 ^ j" using "1.prems" k by (simp add: less_mult_imp_div_less mult.commute)
    from "1.IH" [OF False this k(2)] k False show ?thesis
      by (simp add: dec_text.simps [of n])
  qed
qed

lemma octet_text_dec: "n \<le> 255 \<Longrightarrow> octet_text (dec_text n)"
  using dec_text_value [of n] dec_text_length [of n 3] by (simp add: octet_text_def)

lemma octet_bounds: "unat (w AND 0xFF :: u32) \<le> 255"
  using word_and_le1 [of w "0xFF"] by (simp add: word_le_nat_alt)

lemma ipv4_of_octets:
  "ipv4_of (unat (drop_bit 24 ip AND 0xFF)) (unat (drop_bit 16 ip AND 0xFF))
     (unat (drop_bit 8 ip AND 0xFF)) (unat (ip AND 0xFF)) = ip"
proof -
  have "push_bit 8 (push_bit 8 (push_bit 8 (drop_bit 24 ip AND 0xFF) OR (drop_bit 16 ip AND 0xFF)) OR
      (drop_bit 8 ip AND 0xFF)) OR (ip AND 0xFF) = ip" (is "?l = _")
  proof (rule bit_word_eqI)
    fix n :: nat
    have ff: "(0xFF :: u32) = mask 8" by (simp add: mask_eq_exp_minus_1)
    assume "n < LENGTH(32)"
    then consider "n < 8" | "8 \<le> n" "n < 16" | "16 \<le> n" "n < 24" | "24 \<le> n" "n < 32" by fastforce
    then show "bit ?l n = bit ip n"
      unfolding ff by cases (auto simp: bit_simps)
  qed
  then show ?thesis by (simp add: ipv4_of_def)
qed

text \<open>
  An address the API prints is one it accepts: parsing the dotted form of any 32-bit
  address gives the address back.
\<close>

lemma http_ipv4_roundtrip: "http_parse_ipv4 (Some (show_ipv4 ip)) = Inr ip"
proof -
  let ?a = "unat (drop_bit 24 ip AND 0xFF)" and ?b = "unat (drop_bit 16 ip AND 0xFF)"
  let ?c = "unat (drop_bit 8 ip AND 0xFF)" and ?d = "unat (ip AND 0xFF)"
  have "octet_text (dec_text n) \<and> decimal_from 0 (dec_text n) = n" if "n \<le> 255" for n
    using octet_text_dec [OF that] dec_text_value [of n] by simp
  then have "octet_text (dec_text ?a) \<and> decimal_from 0 (dec_text ?a) = ?a"
    "octet_text (dec_text ?b) \<and> decimal_from 0 (dec_text ?b) = ?b"
    "octet_text (dec_text ?c) \<and> decimal_from 0 (dec_text ?c) = ?c"
    "octet_text (dec_text ?d) \<and> decimal_from 0 (dec_text ?d) = ?d"
    using octet_bounds by blast+
  then show ?thesis
    unfolding parse_ipv4_iff
    by (intro exI [of _ "dec_text ?a"] exI [of _ "dec_text ?b"] exI [of _ "dec_text ?c"]
        exI [of _ "dec_text ?d"]) (simp only: show_ipv4_def ipv4_of_octets simp_thms)
qed

section \<open>What a number parses to\<close>

definition based_from :: "nat \<Rightarrow> nat \<Rightarrow> string \<Rightarrow> nat" where
  "based_from base v s = foldl (\<lambda>v c. v * base + nat (hex_digit c)) v s"

lemma based_from_simps [simp]:
  "based_from base v [] = v"
  "based_from base v (c # s) = based_from base (v * base + nat (hex_digit c)) s"
  by (simp_all add: based_from_def)

lemma based_from_grows: "0 < base \<Longrightarrow> v \<le> based_from base v s"
proof (induction s arbitrary: v)
  case (Cons c s)
  have "v \<le> v * base + nat (hex_digit c)" using Cons.prems by (simp add: trans_le_add1)
  also have "\<dots> \<le> based_from base (v * base + nat (hex_digit c)) s" by (rule Cons.IH [OF Cons.prems])
  finally show ?case by simp
qed simp

definition based_text :: "nat \<Rightarrow> string \<Rightarrow> bool" where
  "based_text base s \<longleftrightarrow> (\<forall>c \<in> set s. 0 \<le> hex_digit c \<and> hex_digit c < int base)"

lemma u32_loop_eq:
  "0 < base \<Longrightarrow> v \<le> 4294967295 \<Longrightarrow> u32_loop base v s =
     (if based_text base s \<and> based_from base v s \<le> 4294967295 then Some (based_from base v s) else None)"
proof (induction s arbitrary: v)
  case Nil
  then show ?case by (simp add: based_text_def)
next
  case (Cons c s)
  have "v * base + nat (hex_digit c) \<le> based_from base (v * base + nat (hex_digit c)) s"
    by (rule based_from_grows [OF Cons.prems(1)])
  with Cons show ?case by (auto simp: based_text_def Let_def not_less)
qed

text \<open>
  A number is accepted exactly when it is a non-empty run of decimal digits, or
  \<open>0x\<close>/\<open>0X\<close> and a non-empty run of hexadecimal digits, whose value fits 32 bits; it then
  yields that value. No accepted number wraps.
\<close>

lemma http_parse_u32_exact:
  "http_parse_u32 (Some s) = Inr w \<longleftrightarrow>
     (s \<noteq> [] \<and> based_text 10 s \<and> unat w = based_from 10 0 s) \<or>
     (\<exists>x ds. s = CHR ''0'' # x # ds \<and> (x = CHR ''x'' \<or> x = CHR ''X'') \<and> ds \<noteq> [] \<and>
        based_text 16 ds \<and> unat w = based_from 16 0 ds)"
proof -
  have bound: "unat w \<le> 4294967295" for w :: u32
    using unsigned_less [of w, where 'a = nat] by simp
  have conv: "n \<le> 4294967295 \<and> (of_nat n :: u32) = w \<longleftrightarrow> n = unat w" for n
    using bound [of w] by (auto simp: unat_of_nat)
  have run: "(case u32_loop base 0 t of None \<Rightarrow> Inl (- EINVAL) | Some v \<Rightarrow> Inr (of_nat v)) = Inr w \<longleftrightarrow>
      based_text base t \<and> unat w = based_from base 0 t" if "0 < base" for base t
    using u32_loop_eq [OF that, of 0 t] conv [of "based_from base 0 t"] by auto
  have not_digit: "\<not> based_text 10 (c # x # ds)" if "x = CHR ''x'' \<or> x = CHR ''X''" for c x ds
    using that by (auto simp: based_text_def hex_digit_def Let_def)
  show ?thesis
  proof (cases "\<exists>x ds. s = CHR ''0'' # x # ds \<and> (x = CHR ''x'' \<or> x = CHR ''X'')")
    case True
    then obtain x ds where s: "s = CHR ''0'' # x # ds" and x: "x = CHR ''x'' \<or> x = CHR ''X''" by blast
    have "http_parse_u32 (Some s) = Inr w \<longleftrightarrow> ds \<noteq> [] \<and> based_text 16 ds \<and> unat w = based_from 16 0 ds"
      using x run [of 16 ds] by (simp add: http_parse_u32_def s)
    with not_digit [OF x, of "CHR ''0''" ds] x show ?thesis by (auto simp: s)
  next
    case False
    then have c: "\<not> (s ! 0 = CHR ''0'' \<and> 1 < length s \<and> (s ! 1 = CHR ''x'' \<or> s ! 1 = CHR ''X''))"
      by (cases s; cases "tl s") auto
    have "http_parse_u32 (Some s) = Inr w \<longleftrightarrow> s \<noteq> [] \<and> based_text 10 s \<and> unat w = based_from 10 0 s"
      using run [of 10 s] unfolding http_parse_u32_def option.case if_not_P [OF c] Let_def prod.case
      by simp
    with False show ?thesis by blast
  qed
qed

section \<open>Who is let in\<close>

lemma xor_zero: "(a :: u8) XOR b = 0 \<longleftrightarrow> a = b"
  by (metis xor.assoc xor.left_neutral xor.right_neutral xor_self_eq)

lemma diff_loop:
  "fold (\<lambda>i diff. diff OR (f i XOR g i)) [0..<n] 0 = (0 :: u8) \<longleftrightarrow> (\<forall>i < n. f i = g i)"
  by (induction n) (auto simp: or_eq_0_iff less_Suc_eq xor_zero)

text \<open>
  The admin gate: a header is accepted exactly when it is the scheme \<open>Basic\<close> followed by
  a text that decodes, within 127 bytes, to the user name, a colon and the password, and the
  configured password is not empty. The comparison that visits every byte accepts nothing
  else.
\<close>

lemma http_basic_auth_exact:
  "http_basic_auth_ok b64 (Some header) (Some user) (Some password) \<longleftrightarrow>
     password \<noteq> [] \<and> (\<exists>enc. header = ''Basic '' @ enc \<and>
       b64 127 enc = (0, map char_byte (user @ '':'' @ password)))"
proof -
  let ?want = "map char_byte user @ [0x3A] @ map char_byte password"
  have want: "map char_byte (user @ '':'' @ password) = ?want"
    by (simp add: char_byte_def)
  have same: "d = ?want \<longleftrightarrow> length d = length user + 1 + length password \<and>
      take (length user) d = map char_byte user \<and> d ! length user = 0x3A \<and>
      (\<forall>i < length password. d ! (length user + 1 + i) = char_byte (password ! i))" (is "_ \<longleftrightarrow> ?R") for d
  proof
    assume ?R
    show "d = ?want"
    proof (rule nth_equalityI)
      show "length d = length ?want" using \<open>?R\<close> by simp
      fix i
      assume "i < length d"
      then consider "i < length user" | "i = length user" | j where "i = length user + 1 + j" "j < length password"
        using that(3) [of "i - length user - 1"] \<open>?R\<close> by (cases "i \<le> length user") (auto simp: le_less)
      then show "d ! i = ?want ! i"
      proof cases
        case 1
        then have "d ! i = take (length user) d ! i" by simp
        with 1 \<open>?R\<close> show ?thesis by (simp add: nth_append)
      qed (use \<open>?R\<close> in \<open>simp_all add: nth_append\<close>)
    qed
  qed (auto simp: nth_append)
  have header: "(\<exists>enc. header = ''Basic '' @ enc \<and> Q enc) \<longleftrightarrow> take 6 header = ''Basic '' \<and> Q (drop 6 header)" for Q
  proof
    assume "take 6 header = ''Basic '' \<and> Q (drop 6 header)"
    then show "\<exists>enc. header = ''Basic '' @ enc \<and> Q enc" by (metis append_take_drop_id)
  qed auto
  show ?thesis
  proof (cases "b64 127 (drop 6 header)")
    case (Pair ret d)
    define G where "G \<longleftrightarrow> length d = length user + 1 + length password"
    define T where "T \<longleftrightarrow> take (length user) d = map char_byte user"
    define C where "C \<longleftrightarrow> d ! length user = 0x3A"
    define Z where "Z \<longleftrightarrow> (\<forall>i < length password. d ! (length user + 1 + i) = char_byte (password ! i))"
    have lhs: "http_basic_auth_ok b64 (Some header) (Some user) (Some password) \<longleftrightarrow>
        password \<noteq> [] \<and> take 6 header = ''Basic '' \<and> ret = 0 \<and> G \<and> T \<and> C \<and> Z"
      unfolding http_basic_auth_ok_def prod.case option.case Pair diff_loop
        G_def [symmetric] T_def [symmetric] C_def [symmetric] Z_def [symmetric]
      by (cases T; cases G; cases C; cases Z) simp_all
    have rhs: "b64 127 (drop 6 header) = (0, ?want) \<longleftrightarrow> ret = 0 \<and> G \<and> T \<and> C \<and> Z"
      unfolding Pair prod.inject same G_def T_def C_def Z_def by (rule refl)
    show ?thesis unfolding header want lhs rhs by (rule refl)
  qed
qed

end
