(* ===== verification/Http_Reply.thy ===== *)
theory Http_Reply
  imports Http_Util
begin

text \<open>
  How the control plane writes a response body (the first part of
  \<open>protective_stop/src/api.c\<close>, and \<open>struct pstop_api_response\<close> of \<open>api.h\<close>): a bounded
  appender over the buffer the server hands in, and the two ways a handler ends with it. A
  format string and its arguments are modelled by the text they produce; what
  \<open>vsnprintf\<close> leaves in the buffer behind an append that did not fit is never sent and is not
  kept. A handler's answer is the body's text with the response record.
\<close>

section \<open>Formatting\<close>

definition fmt_u :: "'a::len word \<Rightarrow> string" where
  "fmt_u w = dec_text (unat w)"

definition fmt_d :: "int \<Rightarrow> string" where
  "fmt_d i = (if i < 0 then CHR ''-'' # dec_text (nat (- i)) else dec_text (nat i))"

definition fmt_bool :: "bool \<Rightarrow> string" where
  "fmt_bool b = (if b then ''true'' else ''false'')"

definition flag :: "bool \<Rightarrow> int" where
  "flag b = (if b then 1 else 0)"

lemma fmt_d_flag: "fmt_d (flag b) = (if b then ''1'' else ''0'')"
  by (simp add: fmt_d_def flag_def dec_text.simps digit_of_def char_of_def bit_0)

lemma dec_text_bound: "n < 10 ^ k \<Longrightarrow> 0 < k \<Longrightarrow> length (dec_text n) \<le> k"
  using dec_text_length [of n k] by simp

lemma fmt_u_lengths:
  "length (fmt_u (a :: u8)) \<le> 3" "length (fmt_u (b :: u16)) \<le> 5"
  "length (fmt_u (c :: u32)) \<le> 10" "length (fmt_u (d :: u64)) \<le> 20"
  using unsigned_less [of a, where 'a = nat] unsigned_less [of b, where 'a = nat]
    unsigned_less [of c, where 'a = nat] unsigned_less [of d, where 'a = nat]
  unfolding fmt_u_def by (intro dec_text_bound; simp)+

lemma fmt_d_length: "- (2 ^ 31) \<le> i \<Longrightarrow> i < 2 ^ 31 \<Longrightarrow> length (fmt_d i) \<le> 11"
  using dec_text_bound [of "nat (- i)" 10] dec_text_bound [of "nat i" 10]
  by (cases "i < 0") (auto simp: fmt_d_def nat_less_iff)

section \<open>The appender\<close>

record out =
  o_cap :: nat
  o_text :: string
  o_overflow :: bool

record pstop_api_response =
  rsp_status :: int
  rsp_len :: nat
  rsp_auth_challenge :: bool
  rsp_restart :: bool

type_synonym api_reply = "string \<times> pstop_api_response"

definition init_rsp :: pstop_api_response where
  "init_rsp = \<lparr>rsp_status = 0, rsp_len = 0, rsp_auth_challenge = False, rsp_restart = False\<rparr>"

definition out_new :: "nat \<Rightarrow> out" where
  "out_new cap = \<lparr>o_cap = cap, o_text = [], o_overflow = False\<rparr>"

definition out_printf :: "string \<Rightarrow> out \<Rightarrow> out" where
  "out_printf s out =
     (if o_overflow out then out
      else if length s \<ge> o_cap out - length (o_text out) then out\<lparr>o_overflow := True\<rparr>
      else out\<lparr>o_text := o_text out @ s\<rparr>)"

definition finish :: "out \<Rightarrow> int \<Rightarrow> pstop_api_response \<Rightarrow> api_reply" where
  "finish out status rsp =
     (let (out, status) =
        (if o_overflow out
         then (out_printf ''{\"ok\":false,\"error\":\"response too large\"}''
                 (out\<lparr>o_text := [], o_overflow := False\<rparr>), 500)
         else (out, status))
      in (o_text out, rsp\<lparr>rsp_status := status, rsp_len := length (o_text out)\<rparr>))"

definition reply :: "nat \<Rightarrow> pstop_api_response \<Rightarrow> int \<Rightarrow> string \<Rightarrow> api_reply" where
  "reply cap rsp status s =
     (let out = (if length s \<ge> cap then (out_new cap)\<lparr>o_overflow := True\<rparr>
                 else (out_new cap)\<lparr>o_text := s\<rparr>)
      in finish out status rsp)"

definition out_all :: "string list \<Rightarrow> out \<Rightarrow> out" where
  "out_all parts out = fold out_printf parts out"

section \<open>A body is complete or an error\<close>

definition too_large :: string where
  "too_large = ''{\"ok\":false,\"error\":\"response too large\"}''"

text \<open>What is sent when \<open>s\<close> was to be sent with \<open>status\<close>.\<close>

definition whole_or_error :: "nat \<Rightarrow> pstop_api_response \<Rightarrow> int \<Rightarrow> string \<Rightarrow> api_reply" where
  "whole_or_error cap rsp status s =
     (let (s, status) = (if length s < cap then (s, status)
                         else if length too_large < cap then (too_large, 500) else ([], 500))
      in (s, rsp\<lparr>rsp_status := status, rsp_len := length s\<rparr>))"

lemma out_printf_overflowed [simp]: "o_overflow out \<Longrightarrow> out_printf s out = out"
  by (simp add: out_printf_def)

lemma out_all_overflowed: "o_overflow out \<Longrightarrow> fold out_printf parts out = out"
  by (induction parts) simp_all

lemma out_all_text:
  assumes "\<not> o_overflow out" and "length (o_text out) < o_cap out \<or> (o_text out = [] \<and> o_cap out = 0 \<and> parts \<noteq> [])"
  shows "if length (o_text out @ concat parts) < o_cap out
         then fold out_printf parts out = out\<lparr>o_text := o_text out @ concat parts\<rparr>
         else o_overflow (fold out_printf parts out) \<and> o_cap (fold out_printf parts out) = o_cap out"
  using assms
proof (induction parts arbitrary: out)
  case Nil
  then show ?case by (cases out) simp
next
  case (Cons s parts)
  show ?case
  proof (cases "length (o_text out) + length s < o_cap out")
    case True
    define out' where "out' = out\<lparr>o_text := o_text out @ s\<rparr>"
    have step: "out_printf s out = out'" using True Cons.prems by (simp add: out_printf_def out'_def)
    have "\<not> o_overflow out'" "length (o_text out') < o_cap out'"
      using True Cons.prems by (simp_all add: out'_def)
    from Cons.IH [OF this(1)] this(2) show ?thesis
      unfolding fold_simps step by (simp add: out'_def split: if_splits)
  next
    case False
    then have "out_printf s out = out\<lparr>o_overflow := True\<rparr>"
      using Cons.prems by (auto simp: out_printf_def)
    with False show ?thesis by (simp add: out_all_overflowed)
  qed
qed

lemma finish_overflowed:
  "o_overflow out \<Longrightarrow> finish out status rsp =
     (let s = (if length too_large < o_cap out then too_large else []) in
      (s, rsp\<lparr>rsp_status := 500, rsp_len := length s\<rparr>))"
  by (simp add: finish_def out_printf_def too_large_def Let_def)

lemma finish_out_all:
  assumes "parts \<noteq> []"
  shows "finish (out_all parts (out_new cap)) status rsp = whole_or_error cap rsp status (concat parts)"
proof -
  have "\<not> o_overflow (out_new cap)"
    and "length (o_text (out_new cap)) < o_cap (out_new cap) \<or>
      (o_text (out_new cap) = [] \<and> o_cap (out_new cap) = 0 \<and> parts \<noteq> [])"
    using assms by (auto simp: out_new_def)
  from out_all_text [OF this] show ?thesis
  proof (cases "length (concat parts) < cap")
    case True
    with out_all_text [of "out_new cap" parts] assms
    have "fold out_printf parts (out_new cap) = (out_new cap)\<lparr>o_text := concat parts\<rparr>"
      by (auto simp: out_new_def split: if_splits)
    with True show ?thesis by (simp add: out_all_def finish_def whole_or_error_def Let_def out_new_def)
  next
    case False
    with out_all_text [of "out_new cap" parts] assms
    have "o_overflow (fold out_printf parts (out_new cap))"
      "o_cap (fold out_printf parts (out_new cap)) = cap"
      by (auto simp: out_new_def split: if_splits)
    with False show ?thesis
      by (simp add: out_all_def finish_overflowed whole_or_error_def Let_def)
  qed
qed

lemma reply_whole: "reply cap rsp status s = whole_or_error cap rsp status s"
proof (cases "length s < cap")
  case True
  then show ?thesis by (simp add: reply_def finish_def whole_or_error_def out_new_def Let_def)
next
  case False
  then have "reply cap rsp status s = finish ((out_new cap)\<lparr>o_overflow := True\<rparr>) status rsp"
    by (simp add: reply_def)
  with False show ?thesis
    by (simp add: finish_overflowed whole_or_error_def out_new_def Let_def)
qed

lemma whole_or_error_fits:
  "length s < cap \<Longrightarrow> whole_or_error cap rsp status s = (s, rsp\<lparr>rsp_status := status, rsp_len := length s\<rparr>)"
  by (simp add: whole_or_error_def)

end
