(* ===== verification/Health_Logic.thy ===== *)
theory Health_Logic
  imports Prelude
begin

text \<open>
  The pure logic behind the lifetime health counters
  (\<open>protective_stop/src/health_logic.c\<close> and \<open>health_logic.h\<close>): the persisted blob codec,
  the press and mismatch edge detector, the wear levels, the flush policy and the warning
  board. Fixed-size C strings are HOL strings without their terminator; the board is an
  array with a fill count, and its contract towards \<open>health.c\<close> is the locale
  \<open>keyed_board\<close>.
\<close>

section \<open>Counters and their blob\<close>

record health_counters =
  hc_presses :: u32
  hc_mismatch_events :: u32
  hc_uptime_s :: u32
  hc_boots :: u32
  hc_flashes :: u32
  hc_otas :: u32
  hc_fw_sha :: bytes
  hc_button_swaps :: u8

definition counters_zero :: health_counters where
  "counters_zero = \<lparr>hc_presses = 0, hc_mismatch_events = 0, hc_uptime_s = 0, hc_boots = 0,
     hc_flashes = 0, hc_otas = 0, hc_fw_sha = replicate 8 0, hc_button_swaps = 0\<rparr>"

definition HEALTH_BLOB_VER :: u8 where [const_simps]: "HEALTH_BLOB_VER = 1"
definition HEALTH_BLOB_LEN :: nat where [const_simps]: "HEALTH_BLOB_LEN = 34"

definition put_u32 :: "u32 \<Rightarrow> bytes" where
  "put_u32 v = [ucast (drop_bit 24 v), ucast (drop_bit 16 v), ucast (drop_bit 8 v), ucast v]"

definition get_u32 :: "bytes \<Rightarrow> u32" where
  "get_u32 p = push_bit 24 (ucast (p ! 0)) OR push_bit 16 (ucast (p ! 1)) OR
     push_bit 8 (ucast (p ! 2)) OR ucast (p ! 3)"

definition health_encode :: "health_counters \<Rightarrow> bytes" where
  "health_encode c = [HEALTH_BLOB_VER] @ put_u32 (hc_presses c) @ put_u32 (hc_mismatch_events c) @
     put_u32 (hc_uptime_s c) @ put_u32 (hc_boots c) @ put_u32 (hc_flashes c) @
     put_u32 (hc_otas c) @ hc_fw_sha c @ [hc_button_swaps c]"

text \<open>A NULL blob is \<open>None\<close>; a refused blob leaves the output unwritten.\<close>

definition health_decode :: "bytes option \<Rightarrow> nat \<Rightarrow> health_counters option" where
  "health_decode blob len =
     (case blob of None \<Rightarrow> None
      | Some b \<Rightarrow>
         if len \<noteq> HEALTH_BLOB_LEN \<or> b ! 0 \<noteq> HEALTH_BLOB_VER then None
         else Some \<lparr>hc_presses = get_u32 (drop 1 b), hc_mismatch_events = get_u32 (drop 5 b),
                    hc_uptime_s = get_u32 (drop 9 b), hc_boots = get_u32 (drop 13 b),
                    hc_flashes = get_u32 (drop 17 b), hc_otas = get_u32 (drop 21 b),
                    hc_fw_sha = take 8 (drop 25 b), hc_button_swaps = b ! 33\<rparr>)"

section \<open>The edge detector\<close>

record health_edge =
  he_seen :: u8
  he_primed :: bool
  he_stop_both :: bool
  he_mismatch :: bool
  he_tick :: "nat \<Rightarrow> u32"
  he_verdict :: "nat \<Rightarrow> u8"

record health_edge_out =
  press :: bool
  mismatch :: bool

definition edge_zero :: health_edge where
  "edge_zero = \<lparr>he_seen = 0, he_primed = False, he_stop_both = False, he_mismatch = False,
     he_tick = (\<lambda>_. 0), he_verdict = (\<lambda>_. 0)\<rparr>"

definition health_edge_step ::
  "health_edge \<Rightarrow> int \<Rightarrow> u32 \<Rightarrow> u8 \<Rightarrow> u8 \<Rightarrow> health_edge_out \<times> health_edge" where
  "health_edge_step st channel tick verdict stop_code =
     (let out = \<lparr>press = False, mismatch = False\<rparr> in
      if channel < 0 \<or> channel > 1 then (out, st)
      else
       (let st = st\<lparr>he_tick := (he_tick st)(nat channel := tick),
                    he_verdict := (he_verdict st)(nat channel := verdict),
                    he_seen := he_seen st OR (if channel = 0 then 1 else 2)\<rparr>
        in if he_seen st \<noteq> 3 \<or> he_tick st 0 \<noteq> he_tick st 1 then (out, st)
           else
            (let s0 = (he_verdict st 0 = stop_code);
                 s1 = (he_verdict st 1 = stop_code);
                 stop_both = (s0 \<and> s1);
                 differ = (s0 \<noteq> s1);
                 out = (if he_primed st
                        then \<lparr>press = stop_both \<and> \<not> he_stop_both st,
                              mismatch = differ \<and> \<not> he_mismatch st\<rparr>
                        else out)
             in (out, st\<lparr>he_primed := True, he_stop_both := stop_both, he_mismatch := differ\<rparr>))))"

section \<open>Levels and the flush policy\<close>

definition HEALTH_OK :: int where [const_simps]: "HEALTH_OK = 0"
definition HEALTH_WARN :: int where [const_simps]: "HEALTH_WARN = 1"
definition HEALTH_CRIT :: int where [const_simps]: "HEALTH_CRIT = 2"

text \<open>The level, and the percentage written through \<open>pct_out\<close>.\<close>

definition health_button_level :: "u32 \<Rightarrow> u32 \<Rightarrow> u32 \<Rightarrow> int \<times> u32" where
  "health_button_level presses rated_ops warn_pct =
     (let pct = (if rated_ops > 0
                 then (let p = (ucast presses * 100 :: u64) div ucast rated_ops
                       in if p > 999 then 999 else ucast p)
                 else 0)
      in (if rated_ops = 0 then HEALTH_OK
          else if pct \<ge> 100 then HEALTH_CRIT
          else if warn_pct > 0 \<and> pct \<ge> warn_pct then HEALTH_WARN
          else HEALTH_OK, pct))"

definition health_mismatch_level :: "u32 \<Rightarrow> u32 \<Rightarrow> u32 \<Rightarrow> u32 \<Rightarrow> int" where
  "health_mismatch_level mismatch_events presses min_events per_1000 =
     (if per_1000 = 0 \<or> mismatch_events < min_events then HEALTH_OK
      else (let basis = (if presses < 1000 then 1000 else ucast presses :: u64);
                allowed = (basis * ucast per_1000) div 1000
            in if ucast mismatch_events > allowed then HEALTH_WARN else HEALTH_OK))"

definition health_flush_due :: "bool \<Rightarrow> u32 \<Rightarrow> u32 \<Rightarrow> u32 \<Rightarrow> bool" where
  "health_flush_due dirty since min_interval_s max_interval_s =
     (let max_interval_s = (if max_interval_s < min_interval_s then min_interval_s
                            else max_interval_s)
      in if since \<ge> max_interval_s then True else dirty \<and> since \<ge> min_interval_s)"

section \<open>The warning board\<close>

definition HEALTH_MAX_WARNINGS :: nat where [const_simps]: "HEALTH_MAX_WARNINGS = 8"
definition HEALTH_SRC_LEN :: nat where [const_simps]: "HEALTH_SRC_LEN = 16"
definition HEALTH_MSG_LEN :: nat where [const_simps]: "HEALTH_MSG_LEN = 64"

record health_warning =
  hw_src :: string
  hw_msg :: string
  hw_level :: int
  hw_count :: u32
  hw_first_ms :: u64
  hw_last_ms :: u64

record health_board =
  hb_n :: nat
  hb_dropped :: u32
  hb_w :: "nat \<Rightarrow> health_warning"

definition warning_zero :: health_warning where
  "warning_zero = \<lparr>hw_src = [], hw_msg = [], hw_level = 0, hw_count = 0, hw_first_ms = 0,
     hw_last_ms = 0\<rparr>"

definition board_zero :: health_board where
  "board_zero = \<lparr>hb_n = 0, hb_dropped = 0, hb_w = (\<lambda>_. warning_zero)\<rparr>"

text \<open>\<open>strncmp(a, b, HEALTH_SRC_LEN) == 0\<close> on strings without their terminators.\<close>

definition src_eq :: "string \<Rightarrow> string \<Rightarrow> bool" where
  "src_eq a b \<longleftrightarrow> take HEALTH_SRC_LEN a = take HEALTH_SRC_LEN b"

definition board_find :: "health_board \<Rightarrow> string \<Rightarrow> nat option" where
  "board_find b src = find (\<lambda>i. src_eq (hw_src (hb_w b i)) src) [0..<hb_n b]"

definition copy_str :: "string \<Rightarrow> nat \<Rightarrow> string" where
  "copy_str src cap = take (cap - 1) src"

definition health_board_clear :: "health_board \<Rightarrow> string \<Rightarrow> health_board" where
  "health_board_clear b src =
     (case board_find b src of None \<Rightarrow> b
      | Some i \<Rightarrow>
         (let b = fold (\<lambda>j b. b\<lparr>hb_w := (hb_w b)(j := hb_w b (j + 1))\<rparr>) [i..<hb_n b - 1] b
          in b\<lparr>hb_n := hb_n b - 1\<rparr>))"

definition board_fill :: "health_board \<Rightarrow> nat \<Rightarrow> int \<Rightarrow> string \<Rightarrow> u64 \<Rightarrow> health_board" where
  "board_fill b i level msg now_ms =
     b\<lparr>hb_w := (hb_w b)(i := (hb_w b i)\<lparr>hw_msg := copy_str msg HEALTH_MSG_LEN, hw_level := level,
        hw_count := hw_count (hb_w b i) + 1, hw_last_ms := now_ms\<rparr>)\<rparr>"

definition health_board_publish ::
  "health_board \<Rightarrow> string \<Rightarrow> int \<Rightarrow> string \<Rightarrow> u64 \<Rightarrow> int \<times> health_board" where
  "health_board_publish b src level msg now_ms =
     (if level = HEALTH_OK then (0, health_board_clear b src)
      else case board_find b src of
        Some i \<Rightarrow> (0, board_fill b i level msg now_ms)
      | None \<Rightarrow>
          if hb_n b \<ge> HEALTH_MAX_WARNINGS then (- ENOMEM, b\<lparr>hb_dropped := hb_dropped b + 1\<rparr>)
          else (let i = hb_n b;
                    b = b\<lparr>hb_n := i + 1, hb_w := (hb_w b)(i := warning_zero
                          \<lparr>hw_src := copy_str src HEALTH_SRC_LEN, hw_first_ms := now_ms\<rparr>)\<rparr>
                in (0, board_fill b i level msg now_ms)))"

definition health_board_level :: "health_board \<Rightarrow> int" where
  "health_board_level b =
     fold (\<lambda>i worst. if hw_level (hb_w b i) > worst then hw_level (hb_w b i) else worst)
       [0..<hb_n b] HEALTH_OK"

section \<open>The blob\<close>

lemma put_get_u32: "get_u32 (put_u32 v @ rest) = v"
  using join_bytes32 [of v] by (simp add: get_u32_def put_u32_def ac_simps)

lemma get_put_u32: "put_u32 (get_u32 (a # b # c # d # rest)) = [a, b, c, d]"
  using split_bytes32 [of d c b a] by (simp add: get_u32_def put_u32_def ac_simps)

lemma length_put_u32 [simp]: "length (put_u32 v) = 4"
  by (simp add: put_u32_def)

lemma encode_length: "length (hc_fw_sha c) = 8 \<Longrightarrow> length (health_encode c) = 34"
  by (simp add: health_encode_def)

lemma decode_encode:
  assumes "length (hc_fw_sha c) = 8"
  shows "health_decode (Some (health_encode c)) 34 = Some c"
proof -
  have drops: "drop (Suc 0) (health_encode c) = put_u32 (hc_presses c) @ drop 5 (health_encode c)"
    "drop 5 (health_encode c) = put_u32 (hc_mismatch_events c) @ drop 9 (health_encode c)"
    "drop 9 (health_encode c) = put_u32 (hc_uptime_s c) @ drop 13 (health_encode c)"
    "drop 13 (health_encode c) = put_u32 (hc_boots c) @ drop 17 (health_encode c)"
    "drop 17 (health_encode c) = put_u32 (hc_flashes c) @ drop 21 (health_encode c)"
    "drop 21 (health_encode c) = put_u32 (hc_otas c) @ drop 25 (health_encode c)"
    "drop 25 (health_encode c) = hc_fw_sha c @ [hc_button_swaps c]"
    "health_encode c ! 0 = HEALTH_BLOB_VER" "health_encode c ! 33 = hc_button_swaps c"
    using assms by (simp_all add: health_encode_def nth_append)
  show ?thesis
    unfolding health_decode_def
    using assms by (simp add: HEALTH_BLOB_LEN_def drops(8,9)) (simp add: drops(1-7) put_get_u32)
qed

lemma list_34:
  fixes b :: bytes
  assumes "length b = 34"
  obtains b0 b1 b2 b3 b4 b5 b6 b7 b8 b9 b10 b11 b12 b13 b14 b15 b16 b17 b18 b19 b20 b21 b22 b23 b24 r
  where "b = b0 # b1 # b2 # b3 # b4 # b5 # b6 # b7 # b8 # b9 # b10 # b11 # b12 # b13 # b14 # b15 #
    b16 # b17 # b18 # b19 # b20 # b21 # b22 # b23 # b24 # r" and "length r = 9"
  using assms that by (auto simp: length_Suc_conv eval_nat_numeral)

lemma encode_decode:
  assumes "length b = 34" and "health_decode (Some b) 34 = Some c"
  shows "health_encode c = b \<and> length (hc_fw_sha c) = 8"
  using assms(1)
proof (rule list_34)
  fix b0 b1 b2 b3 b4 b5 b6 b7 b8 b9 b10 b11 b12 b13 b14 b15 b16 b17 b18 b19 b20 b21 b22 b23 b24 :: u8
  fix r :: bytes
  assume b: "b = b0 # b1 # b2 # b3 # b4 # b5 # b6 # b7 # b8 # b9 # b10 # b11 # b12 # b13 # b14 # b15 #
    b16 # b17 # b18 # b19 # b20 # b21 # b22 # b23 # b24 # r" and r: "length r = 9"
  from r have "take 8 r @ [r ! 8] = r" by (simp add: take_Suc_conv_app_nth [symmetric])
  with b r assms(2) show ?thesis
    by (auto simp: health_decode_def health_encode_def HEALTH_BLOB_LEN_def get_put_u32 split: if_splits)
qed

text \<open>
  The counter blob: every accepted 34-byte blob decodes to counters that encode back to
  exactly that blob, and every counter record survives being stored and loaded; a blob of
  another length is refused.
\<close>

lemma health_blob_roundtrip:
  "(\<forall>c. length (hc_fw_sha c) = 8 \<longrightarrow> length (health_encode c) = 34 \<and>
      health_decode (Some (health_encode c)) 34 = Some c) \<and>
   (\<forall>b c. length b = 34 \<longrightarrow> health_decode (Some b) 34 = Some c \<longrightarrow>
      health_encode c = b \<and> length (hc_fw_sha c) = 8) \<and>
   (\<forall>b len. len \<noteq> 34 \<longrightarrow> health_decode (Some b) len = None)"
  using decode_encode encode_decode encode_length
  by (auto simp: health_decode_def [of _ "_ :: nat"] HEALTH_BLOB_LEN_def)

lemma health_blob_roundtrip_instance:
  "health_decode (Some (health_encode (counters_zero\<lparr>hc_presses := 70000\<rparr>))) 34 =
     Some (counters_zero\<lparr>hc_presses := 70000\<rparr>)"
  using conjunct1 [OF health_blob_roundtrip] by (simp add: counters_zero_def)

section \<open>Levels\<close>

lemma div_ucast_u64:
  "unat ((ucast (p :: u32) * 100 :: u64) div ucast (r :: u32)) = unat p * 100 div unat r"
proof -
  have "unat p < 2 ^ 32" using unsigned_less [of p, where 'a = nat] by simp
  then have "unat (ucast p * 100 :: u64) = unat p * 100"
    by (simp add: unat_word_ariths unat_ucast_u32_u64)
  then show ?thesis by (simp add: unat_div_distrib unat_ucast_u32_u64)
qed

lemma button_pct_unat:
  assumes "rated > 0"
  shows "unat (snd (health_button_level presses rated warn)) = min 999 (unat presses * 100 div unat rated)"
proof -
  let ?p = "(ucast presses * 100 :: u64) div ucast rated"
  have "unat (ucast ?p :: u32) = unat ?p" if "\<not> ?p > 999"
  proof -
    from that have "unat ?p \<le> 999" by (simp add: not_less word_le_nat_alt)
    then show ?thesis by (simp add: unsigned_ucast_eq take_bit_nat_eq_self_iff)
  qed
  with assms show ?thesis
    by (auto simp: health_button_level_def Let_def word_less_nat_alt div_ucast_u64)
qed

text \<open>
  Button wear, without overflow for any 32-bit counts: a rated switch is critical from
  the first press that reaches the rating, warns from the configured share of it on, and
  the percentage reported is the exact quotient clamped at 999; an unrated switch is never
  flagged.
\<close>

lemma health_button_level_exact:
  assumes "warn_pct \<le> 100"
  shows "fst (health_button_level presses rated warn_pct) =
      (if rated = 0 then HEALTH_OK
       else if unat rated \<le> unat presses then HEALTH_CRIT
       else if 0 < warn_pct \<and> unat warn_pct * unat rated \<le> unat presses * 100 then HEALTH_WARN
       else HEALTH_OK) \<and>
    unat (snd (health_button_level presses rated warn_pct)) =
      (if rated = 0 then 0 else min 999 (unat presses * 100 div unat rated))"
proof (cases "rated = 0")
  case True
  then show ?thesis by (simp add: health_button_level_def)
next
  case False
  let ?pct = "snd (health_button_level presses rated warn_pct)"
  from False have pos: "0 < rated" "0 < unat rated"
    by (simp_all add: word_less_nat_alt unat_eq_zero zero_less_iff_neq_zero)
  note pct = button_pct_unat [OF pos(1), of presses warn_pct]
  have w: "unat warn_pct \<le> 100" using assms by (simp add: word_le_nat_alt)
  have crit: "100 \<le> ?pct \<longleftrightarrow> unat rated \<le> unat presses"
    using pos by (simp add: word_le_nat_alt pct min.bounded_iff less_eq_div_iff_mult_less_eq mult.commute)
  have warn: "warn_pct \<le> ?pct \<longleftrightarrow> unat warn_pct * unat rated \<le> unat presses * 100"
    using pos w by (simp add: word_le_nat_alt pct less_eq_div_iff_mult_less_eq)
  have "fst (health_button_level presses rated warn_pct) =
      (if 100 \<le> ?pct then HEALTH_CRIT else if 0 < warn_pct \<and> warn_pct \<le> ?pct then HEALTH_WARN
       else HEALTH_OK)"
    using False by (simp add: health_button_level_def Let_def)
  with crit warn False pct show ?thesis by simp
qed

lemma health_button_level_exact_instance:
  "fst (health_button_level 80000 100000 80) = HEALTH_WARN"
  using health_button_level_exact [of 80 80000 100000] by (simp add: word_less_nat_alt)

lemma mult_ucast_u64: "unat (ucast (a :: u32) * ucast (b :: u32) :: u64) = unat a * unat b"
proof -
  have "unat a < 2 ^ 32" "unat b < 2 ^ 32"
    using unsigned_less [of a, where 'a = nat] unsigned_less [of b, where 'a = nat] by simp_all
  then have "unat a * unat b < 2 ^ 32 * 2 ^ 32" by (intro mult_strict_mono) auto
  then show ?thesis by (simp add: unat_word_ariths unat_ucast_u32_u64)
qed

text \<open>
  The mismatch warning, without overflow for any 32-bit counts: it is raised exactly
  when it is enabled, at least the minimum of events was seen, and the events exceed the
  allowed number per thousand presses, presses counting as at least one thousand.
\<close>

lemma health_mismatch_level_exact:
  "health_mismatch_level events presses min_events per_1000 =
     (if per_1000 \<noteq> 0 \<and> unat min_events \<le> unat events \<and>
         max 1000 (unat presses) * unat per_1000 div 1000 < unat events
      then HEALTH_WARN else HEALTH_OK)"
proof -
  let ?basis = "if presses < 1000 then 1000 else ucast presses :: u64"
  have "?basis = ucast (if presses < 1000 then 1000 else presses)" by simp
  then have "unat (?basis * ucast per_1000) = unat (if presses < 1000 then 1000 else presses) * unat per_1000"
    by (simp only: mult_ucast_u64)
  then have allowed: "unat ((?basis * ucast per_1000) div 1000) = max 1000 (unat presses) * unat per_1000 div 1000"
    by (simp add: unat_div_distrib word_less_nat_alt max_def)
  show ?thesis
    unfolding health_mismatch_level_def Let_def
    using allowed by (auto simp: word_less_nat_alt unat_ucast_u32_u64 not_less)
qed

section \<open>The edge detector, tick by tick\<close>

text \<open>Both channels' reports of one tick: the first waits for its partner, the second compares.\<close>

definition edge_ready :: "health_edge \<Rightarrow> u32 \<Rightarrow> bool" where
  "edge_ready st tick \<longleftrightarrow> (he_seen st = 0 \<and> \<not> he_primed st) \<or> (he_seen st = 3 \<and> he_tick st 1 \<noteq> tick)"

lemma edge_pair:
  fixes v0 v1 stop :: u8
  assumes "edge_ready st tick"
  defines "st1 \<equiv> snd (health_edge_step st 0 tick v0 stop)"
  defines "r \<equiv> health_edge_step st1 1 tick v1 stop"
  shows "fst (health_edge_step st 0 tick v0 stop) = \<lparr>press = False, mismatch = False\<rparr>"
    and "fst r = \<lparr>press = he_primed st \<and> v0 = stop \<and> v1 = stop \<and> \<not> he_stop_both st,
                  mismatch = he_primed st \<and> ((v0 = stop) \<noteq> (v1 = stop)) \<and> \<not> he_mismatch st\<rparr>"
    and "he_primed (snd r)" and "he_stop_both (snd r) = (v0 = stop \<and> v1 = stop)"
    and "he_mismatch (snd r) = ((v0 = stop) \<noteq> (v1 = stop))"
    and "he_seen (snd r) = 3" and "he_tick (snd r) 1 = tick"
proof -
  have "he_seen st = 0 \<or> he_seen st = 3" using assms(1) by (auto simp: edge_ready_def)
  then have "fst (health_edge_step st 0 tick v0 stop) = \<lparr>press = False, mismatch = False\<rparr> \<and>
    fst r = \<lparr>press = he_primed st \<and> v0 = stop \<and> v1 = stop \<and> \<not> he_stop_both st,
                  mismatch = he_primed st \<and> ((v0 = stop) \<noteq> (v1 = stop)) \<and> \<not> he_mismatch st\<rparr> \<and>
    he_primed (snd r) \<and> he_stop_both (snd r) = (v0 = stop \<and> v1 = stop) \<and>
    he_mismatch (snd r) = ((v0 = stop) \<noteq> (v1 = stop)) \<and> he_seen (snd r) = 3 \<and> he_tick (snd r) 1 = tick"
    using assms(1) unfolding r_def st1_def
    by (elim disjE) (auto simp: health_edge_step_def edge_ready_def Let_def)
  then show "fst (health_edge_step st 0 tick v0 stop) = \<lparr>press = False, mismatch = False\<rparr>"
    "fst r = \<lparr>press = he_primed st \<and> v0 = stop \<and> v1 = stop \<and> \<not> he_stop_both st,
                  mismatch = he_primed st \<and> ((v0 = stop) \<noteq> (v1 = stop)) \<and> \<not> he_mismatch st\<rparr>"
    "he_primed (snd r)" "he_stop_both (snd r) = (v0 = stop \<and> v1 = stop)"
    "he_mismatch (snd r) = ((v0 = stop) \<noteq> (v1 = stop))" "he_seen (snd r) = 3"
    "he_tick (snd r) 1 = tick"
    by simp_all
qed

section \<open>The board\<close>

text \<open>
  The board as a list of warnings, the list-level operations, and the invariant: at most
  eight entries, distinct sources that fit their buffer, every level raised.
\<close>

definition board_list :: "health_board \<Rightarrow> health_warning list" where
  "board_list b = map (hb_w b) [0..<hb_n b]"

definition board_ok :: "health_board \<Rightarrow> bool" where
  "board_ok b \<longleftrightarrow> hb_n b \<le> 8 \<and> distinct (map hw_src (board_list b)) \<and>
     (\<forall>w \<in> set (board_list b). length (hw_src w) < 16 \<and> length (hw_msg w) < 64 \<and> hw_level w \<noteq> 0)"

definition update_warning :: "int \<Rightarrow> string \<Rightarrow> u64 \<Rightarrow> health_warning \<Rightarrow> health_warning" where
  "update_warning level msg now w = w\<lparr>hw_msg := take 63 msg, hw_level := level,
     hw_count := hw_count w + 1, hw_last_ms := now\<rparr>"

definition spec_publish ::
  "health_warning list \<Rightarrow> string \<Rightarrow> int \<Rightarrow> string \<Rightarrow> u64 \<Rightarrow> int \<times> health_warning list" where
  "spec_publish ws src level msg now =
     (if level = 0 then (0, filter (\<lambda>w. hw_src w \<noteq> src) ws)
      else if src \<in> hw_src ` set ws
      then (0, map (\<lambda>w. if hw_src w = src then update_warning level msg now w else w) ws)
      else if 8 \<le> length ws then (- ENOMEM, ws)
      else (0, ws @ [update_warning level msg now
                       (warning_zero\<lparr>hw_src := src, hw_first_ms := now\<rparr>)]))"

lemma remove_nth_filter:
  "distinct (map k xs) \<Longrightarrow> i < length xs \<Longrightarrow>
     take i xs @ drop (Suc i) xs = filter (\<lambda>x. k x \<noteq> k (xs ! i)) xs"
proof (induction xs arbitrary: i)
  case (Cons x xs)
  show ?case
  proof (cases i)
    case 0
    with Cons.prems have "\<forall>y \<in> set xs. k y \<noteq> k x" by (simp add: image_iff) metis
    with 0 show ?thesis by (simp add: filter_id_conv)
  next
    case (Suc j)
    with Cons.prems have "k x \<noteq> k (xs ! j)" by auto
    with Suc Cons show ?thesis by simp
  qed
qed simp

lemma update_nth_map:
  "distinct (map k xs) \<Longrightarrow> i < length xs \<Longrightarrow>
     xs[i := f (xs ! i)] = map (\<lambda>x. if k x = k (xs ! i) then f x else x) xs"
  by (rule nth_equalityI) (auto simp: nth_list_update distinct_conv_nth)

lemma shift_loop:
  "fold (\<lambda>j b. b\<lparr>hb_w := (hb_w b)(j := hb_w b (j + 1))\<rparr>) [i..<i + d] b =
     b\<lparr>hb_w := (\<lambda>j. if i \<le> j \<and> j < i + d then hb_w b (j + 1) else hb_w b j)\<rparr>"
  by (induction d) (auto simp: fun_eq_iff less_Suc_eq intro!: health_board.equality)

lemma board_list_upd:
  assumes "i < hb_n b"
  shows "board_list (b\<lparr>hb_w := (hb_w b)(i := w)\<rparr>) = (board_list b)[i := w]"
  using assms by (intro nth_equalityI) (auto simp: board_list_def nth_list_update)

lemma board_list_shift:
  assumes "i < hb_n b"
  shows "board_list (b\<lparr>hb_w := (\<lambda>j. if i \<le> j \<and> j < hb_n b - 1 then hb_w b (j + 1) else hb_w b j),
      hb_n := hb_n b - 1\<rparr>) = take i (board_list b) @ drop (Suc i) (board_list b)"
  using assms by (intro nth_equalityI) (auto simp: board_list_def nth_append)

lemma board_find_None:
  assumes "board_ok b" and "length src < 16"
  shows "board_find b src = None \<longleftrightarrow> src \<notin> hw_src ` set (board_list b)"
  using assms
  by (auto simp: board_find_def find_None_iff_all src_eq_def HEALTH_SRC_LEN_def board_ok_def
      board_list_def image_iff)

lemma board_find_Some:
  assumes "board_ok b" and "length src < 16" and "board_find b src = Some i"
  shows "i < length (board_list b) \<and> hw_src (board_list b ! i) = src"
  using find_Some_member [OF assms(3) [unfolded board_find_def]] assms(1,2)
  by (auto simp: src_eq_def HEALTH_SRC_LEN_def board_ok_def board_list_def)

lemma clear_refines:
  assumes "board_ok b" and "length src < 16"
  shows "board_list (health_board_clear b src) = filter (\<lambda>w. hw_src w \<noteq> src) (board_list b)"
proof (cases "board_find b src")
  case None
  with board_find_None [OF assms] show ?thesis
    by (simp add: health_board_clear_def) (rule sym, simp add: filter_id_conv image_iff, metis)
next
  case (Some i)
  note i = board_find_Some [OF assms Some]
  then have n: "i < hb_n b" by (simp add: board_list_def)
  then have "hb_n b - 1 = i + (hb_n b - 1 - i)" by simp
  then have "health_board_clear b src =
      b\<lparr>hb_w := (\<lambda>j. if i \<le> j \<and> j < hb_n b - 1 then hb_w b (j + 1) else hb_w b j), hb_n := hb_n b - 1\<rparr>"
    using shift_loop [of i "hb_n b - 1 - i" b] by (simp add: health_board_clear_def Some Let_def)
  with board_list_shift [OF n] remove_nth_filter [of hw_src "board_list b" i] i assms(1) show ?thesis
    by (simp add: board_ok_def)
qed

lemma fill_refines:
  assumes "board_ok b" and "i < length (board_list b)"
  shows "board_list (board_fill b i level msg now) =
    map (\<lambda>w. if hw_src w = hw_src (board_list b ! i) then update_warning level msg now w else w) (board_list b)"
proof -
  have i: "i < hb_n b" using assms(2) by (simp add: board_list_def)
  then have "board_list (board_fill b i level msg now) =
      (board_list b)[i := update_warning level msg now (board_list b ! i)]"
    using board_list_upd [OF i]
    by (simp add: board_fill_def update_warning_def copy_str_def HEALTH_MSG_LEN_def board_list_def)
  with update_nth_map [of hw_src "board_list b" i] assms show ?thesis by (simp add: board_ok_def)
qed

lemma append_refines:
  assumes "length src < 16"
  shows "board_list (board_fill (b\<lparr>hb_n := hb_n b + 1, hb_w := (hb_w b)(hb_n b := warning_zero
        \<lparr>hw_src := copy_str src HEALTH_SRC_LEN, hw_first_ms := now\<rparr>)\<rparr>) (hb_n b) level msg now) =
    board_list b @ [update_warning level msg now (warning_zero\<lparr>hw_src := src, hw_first_ms := now\<rparr>)]"
  using assms
  by (simp add: board_list_def board_fill_def update_warning_def copy_str_def const_simps)

lemma publish_refines:
  assumes "board_ok b" and "length src < 16"
  shows "fst (health_board_publish b src level msg now) = fst (spec_publish (board_list b) src level msg now)"
    and "board_list (snd (health_board_publish b src level msg now)) =
      snd (spec_publish (board_list b) src level msg now)"
proof -
  note none = board_find_None [OF assms] and some = board_find_Some [OF assms]
  have len: "length (board_list b) = hb_n b" by (simp add: board_list_def)
  have dropped: "board_list (b\<lparr>hb_dropped := d\<rparr>) = board_list b" for d
    by (simp add: board_list_def)
  have "fst (health_board_publish b src level msg now) = fst (spec_publish (board_list b) src level msg now)
    \<and> board_list (snd (health_board_publish b src level msg now)) =
      snd (spec_publish (board_list b) src level msg now)"
  proof (cases "board_find b src")
    case None
    with none have "src \<notin> hw_src ` set (board_list b)" by simp
    then show ?thesis
      using None append_refines [OF assms(2), of b now level msg] clear_refines [OF assms]
      by (simp add: health_board_publish_def spec_publish_def const_simps len dropped Let_def)
  next
    case (Some i)
    with none have "src \<in> hw_src ` set (board_list b)" by fastforce
    then show ?thesis
      using Some some [OF Some] fill_refines [OF assms(1), of i level msg now] clear_refines [OF assms]
      by (simp add: health_board_publish_def spec_publish_def HEALTH_OK_def)
  qed
  then show "fst (health_board_publish b src level msg now) = fst (spec_publish (board_list b) src level msg now)"
    "board_list (snd (health_board_publish b src level msg now)) =
      snd (spec_publish (board_list b) src level msg now)" by simp_all
qed

lemma spec_publish_keys:
  "map hw_src (snd (spec_publish ws src level msg now)) =
     (if level = 0 then filter (\<lambda>s. s \<noteq> src) (map hw_src ws)
      else if src \<in> hw_src ` set ws \<or> 8 \<le> length ws then map hw_src ws
      else map hw_src ws @ [src])"
  by (auto simp: spec_publish_def update_warning_def warning_zero_def filter_map comp_def)

lemma publish_keeps_ok:
  assumes "board_ok b" and "length src < 16"
  shows "board_ok (snd (health_board_publish b src level msg now))"
proof -
  let ?ws = "board_list b" and ?ws' = "snd (spec_publish (board_list b) src level msg now)"
  have old: "length ?ws \<le> 8" "distinct (map hw_src ?ws)"
    "\<forall>w \<in> set ?ws. length (hw_src w) < 16 \<and> length (hw_msg w) < 64 \<and> hw_level w \<noteq> 0"
    using assms(1) by (simp_all add: board_ok_def) (simp add: board_list_def)
  have "length ?ws' \<le> 8"
    using old(1) le_trans [OF length_filter_le old(1)] by (simp add: spec_publish_def)
  moreover have "distinct (map hw_src ?ws')"
    unfolding spec_publish_keys using old(2) by auto
  moreover have "\<forall>w \<in> set ?ws'. length (hw_src w) < 16 \<and> length (hw_msg w) < 64 \<and> hw_level w \<noteq> 0"
    using old(3) assms(2) by (auto simp: spec_publish_def update_warning_def warning_zero_def)
  moreover have "hb_n (snd (health_board_publish b src level msg now)) = length ?ws'"
    using publish_refines(2) [OF assms, of level msg now] by (metis board_list_def diff_zero length_map length_upt)
  ultimately show ?thesis
    using publish_refines(2) [OF assms, of level msg now] by (simp add: board_ok_def)
qed

lemma spec_clear_is_publish: "snd (spec_publish ws src 0 msg now) = filter (\<lambda>w. hw_src w \<noteq> src) ws"
  by (simp add: spec_publish_def)

text \<open>The level a source is listed with, HEALTH_OK when it is not listed.\<close>

definition level_in :: "health_warning list \<Rightarrow> string \<Rightarrow> int" where
  "level_in ws src = (case find (\<lambda>w. hw_src w = src) ws of None \<Rightarrow> 0 | Some w \<Rightarrow> hw_level w)"

lemma level_in_simps [simp]:
  "level_in [] src = 0"
  "level_in (w # ws) src = (if hw_src w = src then hw_level w else level_in ws src)"
  by (simp_all add: level_in_def)

lemma level_in_append:
  "src \<notin> hw_src ` set ws \<Longrightarrow> level_in (ws @ vs) src = level_in vs src"
  by (induction ws) auto

lemma level_in_append_other:
  "src \<notin> hw_src ` set vs \<Longrightarrow> level_in (ws @ vs) src = level_in ws src"
proof (induction ws)
  case Nil
  then show ?case by (induction vs) auto
qed auto

lemma level_in_filter:
  "level_in (filter (\<lambda>w. hw_src w \<noteq> src) ws) s = (if s = src then 0 else level_in ws s)"
  by (induction ws) auto

lemma level_in_update:
  "src \<in> hw_src ` set ws \<Longrightarrow>
     level_in (map (\<lambda>w. if hw_src w = src then update_warning level msg now w else w) ws) s =
       (if s = src then level else level_in ws s)"
proof (induction ws)
  case (Cons w ws)
  have "level_in (map (\<lambda>w. if hw_src w = src then update_warning level msg now w else w) ws) s =
      level_in ws s" if "s \<noteq> src" for ws
    using that by (induction ws) (auto simp: update_warning_def)
  with Cons show ?case by (auto simp: update_warning_def)
qed simp

text \<open>
  The contract \<open>health.c\<close> relies on: publishing sets the level of one source, leaves the
  others' levels alone, and uses at most one more entry. Two built-in warnings published in
  a row are then both on the board.
\<close>

locale keyed_board =
  fixes publish :: "'b \<Rightarrow> 'k \<Rightarrow> 'l \<Rightarrow> 'i \<Rightarrow> 'b"
    and level_of :: "'b \<Rightarrow> 'k \<Rightarrow> 'l"
    and entries :: "'b \<Rightarrow> nat"
    and ok :: "'b \<Rightarrow> bool"
    and key_ok :: "'k \<Rightarrow> bool"
    and none :: 'l
    and cap :: nat
  assumes keeps_ok: "ok b \<Longrightarrow> key_ok k \<Longrightarrow> ok (publish b k l i)"
    and sets: "ok b \<Longrightarrow> key_ok k \<Longrightarrow> l = none \<or> level_of b k \<noteq> none \<or> entries b < cap \<Longrightarrow>
      level_of (publish b k l i) k = l"
    and others: "ok b \<Longrightarrow> key_ok k \<Longrightarrow> j \<noteq> k \<Longrightarrow> level_of (publish b k l i) j = level_of b j"
    and grows: "ok b \<Longrightarrow> key_ok k \<Longrightarrow> entries (publish b k l i) \<le> Suc (entries b)"
begin

lemma publish_pair:
  assumes "ok b" and "key_ok k" and "key_ok j" and "j \<noteq> k" and "Suc (entries b) < cap"
  shows "level_of (publish (publish b k l i) j m i') k = l"
    and "level_of (publish (publish b k l i) j m i') j = m"
    and "ok (publish (publish b k l i) j m i')"
    and "s \<noteq> k \<Longrightarrow> s \<noteq> j \<Longrightarrow> level_of (publish (publish b k l i) j m i') s = level_of b s"
proof -
  have ok': "ok (publish b k l i)" and less: "entries (publish b k l i) < cap"
    using keeps_ok [OF assms(1,2)] grows [OF assms(1,2), of l i] assms(5) by simp_all
  show "level_of (publish (publish b k l i) j m i') k = l"
    using others [OF ok' assms(3), of k m i'] sets [OF assms(1,2), of l i] assms(4,5) by simp
  show "level_of (publish (publish b k l i) j m i') j = m"
    using sets [OF ok' assms(3)] less by blast
  show "ok (publish (publish b k l i) j m i')" using keeps_ok [OF ok' assms(3)] .
  show "level_of (publish (publish b k l i) j m i') s = level_of b s" if "s \<noteq> k" "s \<noteq> j"
    using others [OF ok' assms(3)] others [OF assms(1,2)] that by simp
qed

end

interpretation board: keyed_board
  "\<lambda>b src level (msg, now). snd (health_board_publish b src level msg now)"
  "\<lambda>b. level_in (board_list b)" hb_n board_ok "\<lambda>src. length src < 16" 0 8
proof
  fix b :: health_board and k j :: string and l :: int and i :: "string \<times> u64"
  assume ok: "board_ok b" and k: "length k < 16"
  obtain msg now where i: "i = (msg, now)" by fastforce
  note refines = publish_refines(2) [OF ok k, of l msg now]
  have len: "length (board_list b) = hb_n b" by (simp add: board_list_def)
  show "board_ok (case i of (msg, now) \<Rightarrow> snd (health_board_publish b k l msg now))"
    using publish_keeps_ok [OF ok k] by (simp add: i)
  have listed: "level_in (board_list b) k \<noteq> 0 \<Longrightarrow> k \<in> hw_src ` set (board_list b)"
    using level_in_append [of k "board_list b" "[]"] by fastforce
  show "level_in (board_list (case i of (msg, now) \<Rightarrow> snd (health_board_publish b k l msg now))) k = l"
    if "l = 0 \<or> level_in (board_list b) k \<noteq> 0 \<or> hb_n b < 8"
    using that listed refines
    by (auto simp: i spec_publish_def level_in_filter level_in_update level_in_append len
        update_warning_def warning_zero_def)
  show "level_in (board_list (case i of (msg, now) \<Rightarrow> snd (health_board_publish b k l msg now))) j =
      level_in (board_list b) j" if "j \<noteq> k"
    using that refines
    by (simp add: i spec_publish_def level_in_filter level_in_update level_in_append_other
        update_warning_def warning_zero_def)
  have "length (board_list (snd (health_board_publish b k l msg now))) \<le> Suc (length (board_list b))"
    using le_SucI [OF length_filter_le] unfolding refines spec_publish_def by auto
  then show "hb_n (case i of (msg, now) \<Rightarrow> snd (health_board_publish b k l msg now)) \<le> Suc (hb_n b)"
    by (simp add: i board_list_def)
qed

text \<open>
  C15. The warning board refines an upserted list with one entry per source. On a board whose
  sources are distinct and fit their buffer, publishing under a name of fewer than 16
  characters returns the code and leaves the list the specification gives, in order (an
  update in place, an entry at the end, a removal, or a refusal when eight entries are
  taken), and the board keeps its invariant.
\<close>

theorem health_board_refines_list:
  assumes "board_ok b" and "length src < 16"
  shows "(case health_board_publish b src level msg now of (ret, b') \<Rightarrow>
      (ret, board_list b') = spec_publish (board_list b) src level msg now \<and> board_ok b')"
  using publish_refines [OF assms, of level msg now] publish_keeps_ok [OF assms, of level msg now]
  by (simp add: case_prod_unfold prod_eq_iff)

theorem health_board_refines_list_witness:
  "board_list (snd (health_board_publish board_zero ''wifi'' 1 ''down'' 5)) =
     [update_warning 1 ''down'' 5 (warning_zero\<lparr>hw_src := ''wifi'', hw_first_ms := 5\<rparr>)]"
proof -
  have ok: "board_ok board_zero" by (simp add: board_ok_def board_list_def board_zero_def)
  have empty: "board_list board_zero = []" by (simp add: board_list_def board_zero_def)
  from ok health_board_refines_list [OF ok, of "''wifi''" 1 "''down''" 5] show ?thesis
    by (simp add: case_prod_unfold prod_eq_iff spec_publish_def empty)
qed

text \<open>
  A source name of 16 or more characters breaks the one-entry-per-source rule: it is
  stored cut to 15 characters, is never found again, and a second publish lists it twice.
\<close>

lemma health_board_long_source_duplicates:
  "let b1 = snd (health_board_publish board_zero (replicate 16 (CHR ''a'')) 1 ''m'' 1);
       b2 = snd (health_board_publish b1 (replicate 16 (CHR ''a'')) 1 ''m'' 2)
   in hb_n b2 = 2 \<and> hw_src (hb_w b2 0) = hw_src (hb_w b2 1)"
  by (simp add: health_board_publish_def board_find_def board_zero_def src_eq_def const_simps
      copy_str_def board_fill_def warning_zero_def Let_def)

lemma board_level_max:
  "health_board_level b = fold max (map hw_level (board_list b)) 0"
proof -
  have "fold (\<lambda>i worst. if hw_level (hb_w b i) > worst then hw_level (hb_w b i) else worst) is a =
      fold max (map hw_level (map (hb_w b) is)) a" for "is" a
    by (induction "is" arbitrary: a) (simp_all add: max_def)
  then show ?thesis by (simp add: health_board_level_def board_list_def const_simps)
qed

end
