(* ===== verification/Estop_Verdict.thy ===== *)
theory Estop_Verdict
  imports Prelude
begin

text \<open>
  The stop-switch channels: the decision core of \<open>protective_stop/src/estop_verdict.c\<close>
  and the pin glue of \<open>estop_gpio.c\<close>. One channel is sampled once per tick; the pair of
  read-backs (loop driven high, loop driven low) is turned into the message byte OK or
  STOP. The contract a channel offers to the comparator is the locale
  \<open>debounced_channel\<close>; both diverse expressions of the decision (core 0 and core 1)
  interpret it, and the history of reads then determines verdict and settling.
\<close>

section \<open>State and decision\<close>

definition LOOP_RECLOSE_DEBOUNCE_TICKS :: u8 where
  [const_simps]: "LOOP_RECLOSE_DEBOUNCE_TICKS = 3"

definition LOOP_BOOT_OPEN_CONFIRM_TICKS :: u8 where
  [const_simps]: "LOOP_BOOT_OPEN_CONFIRM_TICKS = 5"

record estop_state =
  high_ok :: bool
  low_ok :: bool
  primed_high :: bool
  primed_low :: bool
  closed_streak :: u8
  open_streak :: u8
  settled :: bool

definition estop_state_init :: estop_state where
  "estop_state_init = \<lparr>high_ok = False, low_ok = False, primed_high = False,
     primed_low = False, closed_streak = 0, open_streak = 0, settled = False\<rparr>"

text \<open>
  The live message before any override: by arithmetic image on core 0 (index 0 selects
  OK), by boolean on the other core.
\<close>

definition estop_live_msg :: "'m pstop_lib \<Rightarrow> int \<Rightarrow> int \<Rightarrow> int \<Rightarrow> u8" where
  "estop_live_msg L core_id rb_hi rb_lo =
     (if core_id = 0
      then [MSG_OK L, MSG_STOP L] ! nat (((rb_hi XOR 1) OR rb_lo) AND 1)
      else if rb_hi = 1 \<and> rb_lo = 0 then MSG_OK L else MSG_STOP L)"

definition estop_decide ::
  "'m pstop_lib \<Rightarrow> estop_state \<Rightarrow> int \<Rightarrow> int \<Rightarrow> int \<Rightarrow> u8 \<times> estop_state" where
  "estop_decide L st core_id rb_hi rb_lo =
     (let msg = estop_live_msg L core_id rb_hi rb_lo;
          st1 = st\<lparr>high_ok := (rb_hi = 1), low_ok := (rb_lo = 0),
                   primed_high := True, primed_low := True\<rparr>;
          raw_closed = (high_ok st1 \<and> low_ok st1);
          st2 = (if raw_closed
                 then (let cs = (if closed_streak st1 < 255 then closed_streak st1 + 1
                                 else closed_streak st1)
                       in st1\<lparr>closed_streak := cs, open_streak := 0,
                              settled := (settled st1 \<or> LOOP_RECLOSE_DEBOUNCE_TICKS \<le> cs)\<rparr>)
                 else (let os = (if open_streak st1 < 255 then open_streak st1 + 1
                                 else open_streak st1)
                       in st1\<lparr>closed_streak := 0, open_streak := os,
                              settled := (settled st1 \<or> LOOP_BOOT_OPEN_CONFIRM_TICKS \<le> os)\<rparr>));
          msg' = (if \<not> (raw_closed \<and> LOOP_RECLOSE_DEBOUNCE_TICKS \<le> closed_streak st2)
                  then MSG_STOP L else msg)
      in (msg', st2))"

definition estop_channels_primed :: "(nat \<Rightarrow> estop_state) \<Rightarrow> bool" where
  "estop_channels_primed st \<longleftrightarrow>
     primed_high (st 0) \<and> primed_low (st 0) \<and> primed_high (st 1) \<and> primed_low (st 1) \<and>
     settled (st 0) \<and> settled (st 1)"

section \<open>Sampling through the pins\<close>

text \<open>
  \<open>estop_channel_sample\<close> drives the loop high and low and reads the sense pin after each.
  The two read results are inputs of the model (negative values are driver errors); a
  failed read is replaced by the unhealthy level.
\<close>

definition sane_hi :: "int \<Rightarrow> int" where
  "sane_hi rb_hi = (if rb_hi < 0 then 0 else rb_hi)"

definition sane_lo :: "int \<Rightarrow> int" where
  "sane_lo rb_lo = (if rb_lo < 0 then 1 else rb_lo)"

definition estop_channel_sample ::
  "'m pstop_lib \<Rightarrow> int \<Rightarrow> estop_state \<Rightarrow> int \<times> int \<Rightarrow> u8 \<times> estop_state" where
  "estop_channel_sample L core_id st reads =
     estop_decide L st core_id (sane_hi (fst reads)) (sane_lo (snd reads))"

text \<open>The simulated wire of the emulated build: a closed pole conducts, an open one is pulled down.\<close>

definition sim_propagate :: "bool \<Rightarrow> int \<Rightarrow> int" where
  "sim_propagate pole_closed driven = (if pole_closed then driven else 0)"

definition estop_sim_set_pole :: "(nat \<Rightarrow> bool) \<Rightarrow> int \<Rightarrow> bool \<Rightarrow> nat \<Rightarrow> bool" where
  "estop_sim_set_pole poles ch closed =
     (if 0 \<le> ch \<and> ch < 2 then poles(nat ch := closed) else poles)"

definition sim_reads :: "bool \<Rightarrow> int \<times> int" where
  "sim_reads pole_closed = (sim_propagate pole_closed 1, sim_propagate pole_closed 0)"

text \<open>
  \<open>estop_gpio_init\<close>: both channels in order, each needing its two devices ready and both
  pin configurations to succeed. The driver's answers are inputs of the model.
\<close>

record gpio_results =
  out_ready :: bool
  in_ready :: bool
  out_configure :: int
  in_configure :: int

fun estop_gpio_init :: "gpio_results list \<Rightarrow> int" where
  "estop_gpio_init [] = 0"
| "estop_gpio_init (g # gs) =
     (if \<not> out_ready g \<or> \<not> in_ready g then - ENODEV
      else if out_configure g \<noteq> 0 then out_configure g
      else if in_configure g \<noteq> 0 then in_configure g
      else estop_gpio_init gs)"

section \<open>The contract of a debounced channel\<close>

text \<open>
  A channel reports OK only after \<open>need_closed\<close> consecutive healthy reads, reports STOP
  at once on an unhealthy one, and counts itself settled after a full closed cycle or
  \<open>need_open\<close> consecutive open reads. The streak counters saturate at \<open>cap\<close>.
\<close>

locale debounced_channel =
  fixes step :: "'s \<Rightarrow> 'r \<Rightarrow> 'v \<times> 's"
    and start :: 's
    and closed :: "'r \<Rightarrow> bool"
    and cstreak :: "'s \<Rightarrow> nat"
    and ostreak :: "'s \<Rightarrow> nat"
    and is_settled :: "'s \<Rightarrow> bool"
    and ok :: 'v
    and stop :: 'v
    and need_closed :: nat
    and need_open :: nat
    and cap :: nat
  assumes start_cstreak: "cstreak start = 0"
    and start_ostreak: "ostreak start = 0"
    and start_settled: "\<not> is_settled start"
    and step_cstreak:
      "cstreak (snd (step s r)) = (if closed r then min cap (Suc (cstreak s)) else 0)"
    and step_ostreak:
      "ostreak (snd (step s r)) = (if closed r then 0 else min cap (Suc (ostreak s)))"
    and step_settled:
      "is_settled (snd (step s r)) =
         (is_settled s \<or> (closed r \<and> need_closed \<le> cstreak (snd (step s r)))
                       \<or> (\<not> closed r \<and> need_open \<le> ostreak (snd (step s r))))"
    and step_verdict:
      "fst (step s r) = (if closed r \<and> need_closed \<le> cstreak (snd (step s r)) then ok else stop)"
    and need_closed_pos: "0 < need_closed" and need_closed_cap: "need_closed \<le> cap"
    and need_open_pos: "0 < need_open" and need_open_cap: "need_open \<le> cap"
begin

abbreviation chan_run :: "'r list \<Rightarrow> 's" where
  "chan_run rs \<equiv> fold (\<lambda>r s. snd (step s r)) rs start"

lemma run_cstreak: "cstreak (chan_run rs) = min cap (trailing closed rs)"
  by (induction rs rule: rev_induct) (auto simp: start_cstreak step_cstreak)

lemma run_ostreak: "ostreak (chan_run rs) = min cap (trailing (\<lambda>r. \<not> closed r) rs)"
  by (induction rs rule: rev_induct) (auto simp: start_ostreak step_ostreak)

lemma run_verdict:
  "fst (step (chan_run rs) r) = (if need_closed \<le> trailing closed (rs @ [r]) then ok else stop)"
  using need_closed_pos need_closed_cap
  by (auto simp: step_verdict step_cstreak run_cstreak)

lemma run_settled:
  "is_settled (chan_run rs) \<longleftrightarrow>
     (\<exists>n \<le> length rs. need_closed \<le> trailing closed (take n rs)
                    \<or> need_open \<le> trailing (\<lambda>r. \<not> closed r) (take n rs))"
proof (induction rs rule: rev_induct)
  case Nil
  show ?case using start_settled need_closed_pos need_open_pos by simp
next
  case (snoc r rs)
  have step: "is_settled (chan_run (rs @ [r])) \<longleftrightarrow> is_settled (chan_run rs)
      \<or> need_closed \<le> trailing closed (rs @ [r])
      \<or> need_open \<le> trailing (\<lambda>r. \<not> closed r) (rs @ [r])"
  proof -
    have last: "chan_run (rs @ [r]) = snd (step (chan_run rs) r)" by simp
    show ?thesis
      using need_closed_pos need_closed_cap need_open_pos need_open_cap
      unfolding last step_settled step_cstreak step_ostreak run_cstreak run_ostreak trailing_snoc
      by (cases "closed r") (simp_all add: le_Suc_min)
  qed
  have split: "(\<exists>n \<le> length (rs @ [r]). Q (take n (rs @ [r]))) \<longleftrightarrow>
      (\<exists>n \<le> length rs. Q (take n rs)) \<or> Q (rs @ [r])" for Q
    using ex_prefix_snoc [of rs Q r] by simp
  show ?case
    unfolding step split [where Q = "\<lambda>xs. need_closed \<le> trailing closed xs
      \<or> need_open \<le> trailing (\<lambda>r. \<not> closed r) xs"] snoc.IH by (rule refl)
qed

lemma settled_needs_ticks:
  assumes "is_settled (chan_run rs)"
  shows "min need_closed need_open \<le> length rs"
proof -
  from assms obtain n where "n \<le> length rs"
    and "need_closed \<le> trailing closed (take n rs)
       \<or> need_open \<le> trailing (\<lambda>r. \<not> closed r) (take n rs)"
    by (auto simp: run_settled)
  moreover have "trailing P (take n rs) \<le> length rs" for P
    using trailing_le_length [of P "take n rs"] by simp
  ultimately show ?thesis
    by (meson le_trans min.cobounded1 min.cobounded2)
qed

end

section \<open>Both cores keep the contract\<close>

definition loop_closed :: "int \<times> int \<Rightarrow> bool" where
  "loop_closed reads \<longleftrightarrow> fst reads = 1 \<and> snd reads = 0"

lemma unat_inc_sat:
  fixes w :: u8
  shows "unat (if w < 255 then w + 1 else w) = min 255 (Suc (unat w))"
proof (cases "w < 255")
  case True
  then have "unat w < 255" by (simp add: word_less_nat_alt)
  then have "unat (w + 1) = Suc (unat w)"
    by (simp add: unat_word_ariths)
  with True \<open>unat w < 255\<close> show ?thesis by simp
next
  case False
  then have "255 \<le> unat w" by (simp add: word_less_nat_alt)
  moreover have "unat w < 256" using unsigned_less [of w, where 'a = nat] by simp
  ultimately show ?thesis using False by simp
qed

lemma estop_live_msg_closed:
  "estop_live_msg L core 1 0 = MSG_OK L"
  by (simp add: estop_live_msg_def)

lemma estop_decide_channel:
  "estop_decide L st core (fst r) (snd r) =
     (let cl = loop_closed r;
          cs = (if cl then (if closed_streak st < 255 then closed_streak st + 1
                            else closed_streak st) else 0);
          os = (if cl then 0 else (if open_streak st < 255 then open_streak st + 1
                                   else open_streak st))
      in (if cl \<and> 3 \<le> cs then MSG_OK L else MSG_STOP L,
          \<lparr>high_ok = (fst r = 1), low_ok = (snd r = 0), primed_high = True,
           primed_low = True, closed_streak = cs, open_streak = os,
           settled = (settled st \<or> (cl \<and> 3 \<le> cs) \<or> (\<not> cl \<and> 5 \<le> os))\<rparr>))"
  by (cases st) (auto simp: estop_decide_def loop_closed_def Let_def estop_live_msg_closed
      const_simps)

lemma sane_closed [simp]:
  "loop_closed (sane_hi h, sane_lo l) \<longleftrightarrow> loop_closed (h, l)"
  "sane_hi h = 1 \<longleftrightarrow> h = 1" "sane_lo l = 0 \<longleftrightarrow> l = 0"
  by (auto simp: loop_closed_def sane_hi_def sane_lo_def)

lemma estop_channel_sample_eq:
  "estop_channel_sample L core st r = estop_decide L st core (fst r) (snd r)"
  using estop_decide_channel [of L st core "(sane_hi (fst r), sane_lo (snd r))"]
    estop_decide_channel [of L st core r]
  by (simp add: estop_channel_sample_def)

lemma le_unat_numeral8:
  "(numeral n :: u8) \<le> w \<longleftrightarrow> unat (numeral n :: u8) \<le> unat w"
  by (rule word_le_nat_alt)

interpretation chan: debounced_channel
  "estop_channel_sample L core" estop_state_init loop_closed
  "\<lambda>st. unat (closed_streak st)" "\<lambda>st. unat (open_streak st)" settled
  "MSG_OK L" "MSG_STOP L" 3 5 255
  for L :: "'m pstop_lib" and core :: int
  by unfold_locales
    (auto simp: estop_channel_sample_eq estop_decide_channel estop_state_init_def Let_def
       unat_inc_sat le_unat_numeral8)

text \<open>A channel after a history of reads, as the sampler thread leaves it.\<close>

definition estop_run :: "'m pstop_lib \<Rightarrow> int \<Rightarrow> (int \<times> int) list \<Rightarrow> estop_state" where
  "estop_run L core rs = fold (\<lambda>r st. snd (estop_channel_sample L core st r)) rs estop_state_init"

lemma estop_run_snoc [simp]:
  "estop_run L core (rs @ [r]) = snd (estop_channel_sample L core (estop_run L core rs) r)"
  by (simp add: estop_run_def)

lemma sample_sets_primed [simp]:
  "primed_high (snd (estop_channel_sample L core st r))"
  "primed_low (snd (estop_channel_sample L core st r))"
  by (simp_all add: estop_channel_sample_eq estop_decide_channel Let_def)

lemma sample_ok_closed:
  assumes "MSG_OK L \<noteq> MSG_STOP L" and "fst (estop_channel_sample L core st r) = MSG_OK L"
  shows "loop_closed r"
  using assms by (simp add: chan.step_verdict split: if_splits)

lemma sample_settled_mono:
  "settled st \<Longrightarrow> settled (snd (estop_channel_sample L core st r))"
  by (simp add: chan.step_settled)

section \<open>Properties of a channel\<close>

text \<open>
  C11. After any history of reads, the verdict of the next sample is OK exactly when the
  last three reads, the new one included, all saw the loop conduct as driven (high read
  as 1, low read as 0; a driver error counts as unhealthy); otherwise it is STOP. So an
  unhealthy read stops at once and a release needs three consecutive healthy ticks.
\<close>

theorem estop_verdict_by_history:
  "fst (estop_channel_sample L core (estop_run L core rs) r) =
     (if 3 \<le> trailing loop_closed (rs @ [r]) then MSG_OK L else MSG_STOP L)"
  unfolding estop_run_def by (rule chan.run_verdict)

text \<open>
  A channel is settled exactly when some moment of its history ended a run of three
  healthy reads or a run of five unhealthy ones; once settled it stays so.
\<close>

lemma estop_settled_by_history:
  "settled (estop_run L core rs) \<longleftrightarrow>
     (\<exists>n \<le> length rs. 3 \<le> trailing loop_closed (take n rs)
                    \<or> 5 \<le> trailing (\<lambda>r. \<not> loop_closed r) (take n rs))"
  unfolding estop_run_def by (rule chan.run_settled)

text \<open>
  The diverse expressions of the decision agree on every input, not only on levels 0
  and 1: whichever core evaluates the reads, verdict and next state are the same.
\<close>

lemma estop_cores_agree:
  "estop_decide L st core_a rb_hi rb_lo = estop_decide L st core_b rb_hi rb_lo"
  using estop_decide_channel [of L st core_a "(rb_hi, rb_lo)"]
    estop_decide_channel [of L st core_b "(rb_hi, rb_lo)"] by simp

end
