(* ===== verification/Wire_Layout.thy ===== *)
theory Wire_Layout
  imports Prelude
begin

text \<open>
  A concrete protocol library in the documented frame layout (version, message, stamps,
  ids, heartbeat window, counters, padding, check field; little-endian, 48 bytes) with
  the documented message codes. It shows that the assumptions made of the vendored
  library can hold together; the witnesses of the development run on it. The check field
  is a plain byte sum here: the safety argument does not depend on the code used.
\<close>

record wire_msg =
  w_type :: u8
  w_stamp :: u64
  w_received_stamp :: u64
  w_id :: u32
  w_receiver_id :: u32
  w_heartbeat :: u32
  w_counter :: u32
  w_received_counter :: u32
  w_padding :: u32
  w_checksum :: u16
  w_calculated :: u16

definition le64 :: "u64 \<Rightarrow> bytes" where
  "le64 w = le32 (ucast w) @ le32 (ucast (drop_bit 32 w))"

definition get_le64 :: "bytes \<Rightarrow> u64" where
  "get_le64 b = ucast (get_le32 (take 4 b)) OR push_bit 32 (ucast (get_le32 (drop 4 b)))"

definition wire_sum :: "bytes \<Rightarrow> u16" where
  "wire_sum bs = sum_list (map ucast bs)"

definition wire_payload :: "wire_msg \<Rightarrow> bytes" where
  "wire_payload m = [2, w_type m] @ le64 (w_stamp m) @ le64 (w_received_stamp m) @
     le32 (w_id m) @ le32 (w_receiver_id m) @ le32 (w_heartbeat m) @ le32 (w_counter m) @
     le32 (w_received_counter m) @ le32 (w_padding m) @ le32 0"

definition wire_encode :: "wire_msg \<Rightarrow> bytes" where
  "wire_encode m = wire_payload m @ le16 (wire_sum (wire_payload m))"

definition slice :: "nat \<Rightarrow> nat \<Rightarrow> 'a list \<Rightarrow> 'a list" where
  "slice i n xs = take n (drop i xs)"

definition wire_decode :: "bytes \<Rightarrow> wire_msg" where
  "wire_decode b =
     \<lparr>w_type = b ! 1, w_stamp = get_le64 (slice 2 8 b), w_received_stamp = get_le64 (slice 10 8 b),
      w_id = get_le32 (slice 18 4 b), w_receiver_id = get_le32 (slice 22 4 b),
      w_heartbeat = get_le32 (slice 26 4 b), w_counter = get_le32 (slice 30 4 b),
      w_received_counter = get_le32 (slice 34 4 b), w_padding = get_le32 (slice 38 4 b),
      w_checksum = get_le16 (slice 46 2 b), w_calculated = wire_sum (take 46 b)\<rparr>"

definition wire_msg0 :: wire_msg where
  "wire_msg0 = \<lparr>w_type = 0, w_stamp = 0, w_received_stamp = 0, w_id = 0, w_receiver_id = 0,
     w_heartbeat = 0, w_counter = 0, w_received_counter = 0, w_padding = 0, w_checksum = 0,
     w_calculated = 0\<rparr>"

definition wire_lib :: "wire_msg pstop_lib" where
  "wire_lib =
     \<lparr>MSG_OK = 0x55, MSG_STOP = 0x92, MSG_BOND = 0xAD, MSG_UNBOND = 0x6A, MSG_UNKNOWN = 0x0F,
      protocol_data_init = (\<lambda>_. \<lparr>remote_id = 0, msg_counter = 0, last_received_stamp = 0,
                                  last_received_counter = 0\<rparr>),
      device_id_set = (\<lambda>w. w),
      create_bond_message = (\<lambda>t me it c. wire_msg0\<lparr>w_type := 0xAD, w_stamp := t, w_id := me,
        w_receiver_id := it, w_counter := c\<rparr>),
      create_generic_message = (\<lambda>ty t rt me it c rc. wire_msg0\<lparr>w_type := ty, w_stamp := t,
        w_received_stamp := rt, w_id := me, w_receiver_id := it, w_counter := c,
        w_received_counter := rc\<rparr>),
      aux_encode_role = (\<lambda>m r. m\<lparr>w_padding := (if r = PSTOP_AUX_ROLE_OPERATOR then 1 else 0)\<rparr>),
      message_encode = wire_encode, message_decode = wire_decode,
      msg_message = w_type, msg_count = w_counter, msg_stamp = w_stamp,
      msg_heartbeat_timeout = w_heartbeat, msg_checksum = w_checksum,
      msg_calculated_checksum = w_calculated\<rparr>"

lemma wire_codes [simp]:
  "MSG_OK wire_lib = 0x55" "MSG_STOP wire_lib = 0x92" "MSG_BOND wire_lib = 0xAD"
  "MSG_UNBOND wire_lib = 0x6A" "MSG_UNKNOWN wire_lib = 0x0F"
  by (simp_all add: wire_lib_def)

lemma wire_length: "length (wire_encode m) = 48"
  by (simp add: wire_encode_def wire_payload_def le64_def)

lemma wire_slices:
  "wire_encode m ! 1 = w_type m" "slice 30 4 (wire_encode m) = le32 (w_counter m)"
  "slice 46 2 (wire_encode m) = le16 (wire_sum (wire_payload m))"
  "take 46 (wire_encode m) = wire_payload m"
  by (simp_all add: wire_encode_def wire_payload_def le64_def slice_def le32_def le16_def)

lemma wire_decode_encode:
  "w_type (wire_decode (wire_encode m)) = w_type m"
  "w_counter (wire_decode (wire_encode m)) = w_counter m"
  "w_checksum (wire_decode (wire_encode m)) = w_calculated (wire_decode (wire_encode m))"
  by (simp_all only: wire_decode_def wire_slices wire_msg.simps get_le32_le32 get_le16_le16)

lemma wire_lib_codes_distinct: "lib_codes_distinct wire_lib"
  by (simp add: lib_codes_distinct_def)

lemma wire_lib_frame_sized: "lib_frame_sized wire_lib"
  by (simp add: lib_frame_sized_def wire_lib_def wire_length)

lemma wire_lib_codec_faithful: "lib_codec_faithful wire_lib"
  by (simp add: lib_codec_faithful_def wire_lib_def wire_decode_encode)

lemmas wire_defs = wire_lib_def wire_msg0_def wire_encode_def wire_payload_def wire_decode_def
  slice_def le64_def get_le64_def wire_sum_def

end
