(* ===== verification/Session.thy ===== *)
theory Session
  imports Wire_Layout
begin

text \<open>
  One machine slot's session (\<open>protective_stop/src/session.c\<close> and \<open>session.h\<close>): the bond
  state machine, its counters, the reply drain and the reply-loss watchdog. Socket calls
  are inputs of the model: what \<open>zsock_socket\<close>, \<open>zsock_bind\<close> and \<open>zsock_sendto\<close> returned
  and the datagrams \<open>zsock_recvfrom\<close> hands out are arguments. Pointers the callers never
  pass as NULL are plain values.
\<close>

section \<open>Constants and state\<close>

definition PSTOP_MAX_MACHINES :: nat where [const_simps]: "PSTOP_MAX_MACHINES = 4"
definition PSTOP_MESSAGE_SIZE :: nat where [const_simps]: "PSTOP_MESSAGE_SIZE = 48"

definition PSTOP_MIN_SEND_PERIOD_MS :: u32 where [const_simps]: "PSTOP_MIN_SEND_PERIOD_MS = 100"
definition PSTOP_MAX_SEND_PERIOD_MS :: u32 where [const_simps]: "PSTOP_MAX_SEND_PERIOD_MS = 1000"
definition PSTOP_BOND_RETRY_MS :: u64 where [const_simps]: "PSTOP_BOND_RETRY_MS = 5000"
definition PSTOP_REBOND_FLOOR_MS :: u64 where [const_simps]: "PSTOP_REBOND_FLOOR_MS = 2500"
definition PSTOP_REBOND_MACHINE_MAX_MISSED :: u64 where
  [const_simps]: "PSTOP_REBOND_MACHINE_MAX_MISSED = 5"
definition PSTOP_REBOND_JITTER_MARGIN_MS :: u64 where
  [const_simps]: "PSTOP_REBOND_JITTER_MARGIN_MS = 500"

record pstop_peer =
  peer_ip :: u32
  peer_port :: u16
  peer_id :: u32
  configured :: bool

datatype pstop_sess_state =
  PSTOP_SESS_IDLE | PSTOP_SESS_BONDING | PSTOP_SESS_BONDED | PSTOP_SESS_REJECTED

record sockaddr_in =
  sin_addr :: u32
  sin_port :: u16

record pstop_session =
  s_slot :: int
  s_sock :: int
  s_peer_addr :: sockaddr_in
  s_peer_id :: u32
  s_proto :: protocol_data
  s_state :: pstop_sess_state
  s_hb_ms :: u32
  s_last_send_ms :: u64
  s_last_reply_ms :: u64
  s_last_bond_ms :: u64
  s_sent :: u32
  s_replies :: u32
  s_send_fail :: u32
  s_rebonds :: u32
  s_unbonds :: u32
  s_last_msg :: u8

text \<open>Network byte order, on the little-endian targets the application builds for.\<close>

definition htons :: "u16 \<Rightarrow> u16" where
  "htons w = (push_bit 8 w) OR (drop_bit 8 w)"

definition htonl :: "u32 \<Rightarrow> u32" where
  "htonl w = (push_bit 24 w) OR (push_bit 8 (w AND 0xFF00)) OR
     (drop_bit 8 w AND 0xFF00) OR (drop_bit 24 w)"

text \<open>A statically allocated session: all bytes zero.\<close>

definition session_zero :: pstop_session where
  "session_zero =
     \<lparr>s_slot = 0, s_sock = 0, s_peer_addr = \<lparr>sin_addr = 0, sin_port = 0\<rparr>, s_peer_id = 0,
      s_proto = \<lparr>remote_id = 0, msg_counter = 0, last_received_stamp = 0,
                 last_received_counter = 0\<rparr>,
      s_state = PSTOP_SESS_IDLE, s_hb_ms = 0, s_last_send_ms = 0, s_last_reply_ms = 0,
      s_last_bond_ms = 0, s_sent = 0, s_replies = 0, s_send_fail = 0, s_rebonds = 0,
      s_unbonds = 0, s_last_msg = 0\<rparr>"

section \<open>Opening and closing\<close>

record open_env =
  local_port :: int
  socket_ret :: int
  socket_errno :: int
  bind_ret :: "int \<Rightarrow> int"
  bind_errno :: int

definition pstop_session_open ::
  "'m pstop_lib \<Rightarrow> open_env \<Rightarrow> pstop_session \<Rightarrow> int \<Rightarrow> pstop_peer \<Rightarrow> int \<times> pstop_session" where
  "pstop_session_open L env s slot peer =
     (let s = s\<lparr>s_sock := -1\<rparr> in
      if slot < 0 \<or> int PSTOP_MAX_MACHINES \<le> slot then (- EINVAL, s)
      else if socket_ret env < 0 then (- socket_errno env, s)
      else if bind_ret env (local_port env + slot) < 0 then (- bind_errno env, s)
      else (0, s\<lparr>s_slot := slot, s_sock := socket_ret env, s_peer_id := peer_id peer,
                 s_state := PSTOP_SESS_IDLE, s_hb_ms := 0, s_last_send_ms := 0,
                 s_last_reply_ms := 0, s_last_bond_ms := 0, s_sent := 0, s_replies := 0,
                 s_send_fail := 0, s_rebonds := 0, s_unbonds := 0,
                 s_last_msg := MSG_UNKNOWN L,
                 s_peer_addr := \<lparr>sin_addr = htonl (peer_ip peer),
                                 sin_port = htons (peer_port peer)\<rparr>,
                 s_proto := (protocol_data_init L (s_proto s))
                   \<lparr>remote_id := device_id_set L (peer_id peer)\<rparr>\<rparr>))"

definition pstop_session_close :: "pstop_session \<Rightarrow> pstop_session" where
  "pstop_session_close s =
     (if 0 \<le> s_sock s then s\<lparr>s_sock := -1, s_state := PSTOP_SESS_IDLE\<rparr> else s)"

section \<open>Pacing\<close>

definition pstop_session_send_period_ms :: "pstop_session \<Rightarrow> u32" where
  "pstop_session_send_period_ms s =
     (if s_hb_ms s = 0 then PSTOP_MIN_SEND_PERIOD_MS
      else let period = s_hb_ms s div 2;
               period = (if period < PSTOP_MIN_SEND_PERIOD_MS
                         then PSTOP_MIN_SEND_PERIOD_MS else period)
           in if period > PSTOP_MAX_SEND_PERIOD_MS then PSTOP_MAX_SEND_PERIOD_MS else period)"

definition pstop_session_rebond_after_ms :: "pstop_session \<Rightarrow> u64" where
  "pstop_session_rebond_after_ms s =
     (let derived = ucast (s_hb_ms s) * PSTOP_REBOND_MACHINE_MAX_MISSED
                      + PSTOP_REBOND_JITTER_MARGIN_MS
      in if derived < PSTOP_REBOND_FLOOR_MS then PSTOP_REBOND_FLOOR_MS else derived)"

definition pstop_session_due :: "pstop_session \<Rightarrow> u64 \<Rightarrow> bool" where
  "pstop_session_due s now_ms =
     (if s_state s = PSTOP_SESS_REJECTED then False
      else if s_state s = PSTOP_SESS_BONDING
      then PSTOP_BOND_RETRY_MS \<le> now_ms - s_last_bond_ms s
      else if s_state s = PSTOP_SESS_IDLE then True
      else ucast (pstop_session_send_period_ms s) \<le> now_ms - s_last_send_ms s)"

section \<open>Building and sending a frame\<close>

text \<open>
  The device id this remote announces (\<open>app_settings_effective_device_id()\<close>) is an
  argument here; the lockstep theory passes the settings' value.
\<close>

definition session_frame_type :: "'m pstop_lib \<Rightarrow> pstop_session \<Rightarrow> u8 \<Rightarrow> u8" where
  "session_frame_type L s verdict =
     (if s_state s = PSTOP_SESS_BONDED then verdict else MSG_BOND L)"

definition pstop_session_build ::
  "'m pstop_lib \<Rightarrow> u32 \<Rightarrow> pstop_session \<Rightarrow> u8 \<Rightarrow> aux_role \<Rightarrow> u64 \<Rightarrow> bytes" where
  "pstop_session_build L my_id s verdict role now_ms =
     (let me = device_id_set L my_id;
          type = session_frame_type L s verdict;
          msg = (if type = MSG_BOND L
                 then create_bond_message L now_ms me (remote_id (s_proto s))
                        (msg_counter (s_proto s) + 1)
                 else create_generic_message L type now_ms (last_received_stamp (s_proto s)) me
                        (remote_id (s_proto s)) (msg_counter (s_proto s) + 1)
                        (last_received_counter (s_proto s)))
      in message_encode L (aux_encode_role L msg role))"

text \<open>
  \<open>n\<close> is what \<open>zsock_sendto\<close> returned for this frame, \<open>err\<close> the errno it left.
\<close>

definition pstop_session_commit_send ::
  "pstop_session \<Rightarrow> int \<Rightarrow> int \<Rightarrow> u64 \<Rightarrow> int \<times> pstop_session" where
  "pstop_session_commit_send s n err now_ms =
     (if n \<noteq> int PSTOP_MESSAGE_SIZE
      then (- err, s\<lparr>s_send_fail := s_send_fail s + 1\<rparr>)
      else
        (let s1 = s\<lparr>s_proto := (s_proto s)\<lparr>msg_counter := msg_counter (s_proto s) + 1\<rparr>,
                    s_last_send_ms := now_ms, s_sent := s_sent s + 1\<rparr>
         in (0, if s_state s1 = PSTOP_SESS_IDLE
                then s1\<lparr>s_state := PSTOP_SESS_BONDING, s_last_bond_ms := now_ms\<rparr>
                else if s_state s1 = PSTOP_SESS_BONDING then s1\<lparr>s_last_bond_ms := now_ms\<rparr>
                else s1)))"

section \<open>Draining replies\<close>

text \<open>One result of \<open>zsock_recvfrom\<close>: the returned count, the buffer and the sender.\<close>

record rx =
  rx_n :: int
  rx_buf :: bytes
  rx_from :: sockaddr_in

definition rx_trusted :: "'m pstop_lib \<Rightarrow> pstop_session \<Rightarrow> rx \<Rightarrow> bool" where
  "rx_trusted L s r \<longleftrightarrow>
     sin_addr (rx_from r) = sin_addr (s_peer_addr s) \<and>
     sin_port (rx_from r) = sin_port (s_peer_addr s) \<and>
     (let msg = message_decode L (rx_buf r)
      in msg_checksum L msg = msg_calculated_checksum L msg)"

text \<open>What a frame from the peer with a verified checksum does to the session.\<close>

definition session_accept :: "'m pstop_lib \<Rightarrow> u64 \<Rightarrow> 'm \<Rightarrow> pstop_session \<Rightarrow> pstop_session" where
  "session_accept L now_ms msg s =
     (if msg_message L msg = MSG_UNBOND L
      then s\<lparr>s_state := PSTOP_SESS_REJECTED, s_last_msg := msg_message L msg,
             s_unbonds := s_unbonds s + 1\<rparr>
      else if s_state s = PSTOP_SESS_REJECTED then s
      else s\<lparr>s_proto := (s_proto s)\<lparr>last_received_counter := msg_count L msg,
                                   last_received_stamp := msg_stamp L msg\<rparr>,
             s_last_reply_ms := now_ms, s_last_msg := msg_message L msg,
             s_replies := s_replies s + 1,
             s_hb_ms := (if msg_heartbeat_timeout L msg \<noteq> 0
                         then msg_heartbeat_timeout L msg else s_hb_ms s),
             s_state := PSTOP_SESS_BONDED\<rparr>)"

text \<open>
  The drain loop over the datagrams pending on the socket; with none left the non-blocking
  receive fails and the loop returns. The first component is what stays unread.
\<close>

fun pstop_session_poll ::
  "'m pstop_lib \<Rightarrow> u64 \<Rightarrow> rx list \<Rightarrow> pstop_session \<Rightarrow> rx list \<times> pstop_session" where
  "pstop_session_poll L now_ms [] s = ([], s)"
| "pstop_session_poll L now_ms (r # rs) s =
     (if rx_n r \<noteq> int PSTOP_MESSAGE_SIZE then (rs, s)
      else if \<not> rx_trusted L s r then pstop_session_poll L now_ms rs s
      else pstop_session_poll L now_ms rs
             (session_accept L now_ms (message_decode L (rx_buf r)) s))"

section \<open>Re-bonding\<close>

definition pstop_session_rebond :: "'m pstop_lib \<Rightarrow> pstop_session \<Rightarrow> pstop_session" where
  "pstop_session_rebond L s =
     s\<lparr>s_state := PSTOP_SESS_IDLE, s_hb_ms := 0, s_rebonds := s_rebonds s + 1,
       s_proto := (protocol_data_init L (s_proto s))
         \<lparr>remote_id := device_id_set L (s_peer_id s)\<rparr>\<rparr>"

definition pstop_session_watchdog :: "'m pstop_lib \<Rightarrow> pstop_session \<Rightarrow> u64 \<Rightarrow> pstop_session" where
  "pstop_session_watchdog L s now_ms =
     (if s_state s \<noteq> PSTOP_SESS_BONDED then s
      else if now_ms - s_last_reply_ms s < pstop_session_rebond_after_ms s then s
      else pstop_session_rebond L s)"

section \<open>The session as a machine\<close>

text \<open>
  The events the comparator drives a session with. \<open>Transmit\<close> is the due check, the build
  and the committed send of one tick, with the two results of the socket call; its output
  is the frame that left the socket.
\<close>

datatype sess_event =
    Transmit u8 aux_role int int u64
  | Drain u64 "rx list"
  | Watch u64
  | Rebond

fun sess_step ::
  "'m pstop_lib \<Rightarrow> u32 \<Rightarrow> sess_event \<Rightarrow> pstop_session \<Rightarrow> bytes list \<times> pstop_session" where
  "sess_step L my_id (Transmit verdict role n err now_ms) s =
     (if pstop_session_due s now_ms
      then (if n = int PSTOP_MESSAGE_SIZE
            then [pstop_session_build L my_id s verdict role now_ms] else [],
            snd (pstop_session_commit_send s n err now_ms))
      else ([], s))"
| "sess_step L my_id (Drain now_ms rxs) s = ([], snd (pstop_session_poll L now_ms rxs s))"
| "sess_step L my_id (Watch now_ms) s = ([], pstop_session_watchdog L s now_ms)"
| "sess_step L my_id Rebond s = ([], pstop_session_rebond L s)"

text \<open>The events that start the counter afresh: a rebond request, or a watchdog that fires.\<close>

fun sess_resets :: "sess_event \<Rightarrow> pstop_session \<Rightarrow> bool" where
  "sess_resets (Watch now_ms) s \<longleftrightarrow> s_state s = PSTOP_SESS_BONDED \<and>
     pstop_session_rebond_after_ms s \<le> now_ms - s_last_reply_ms s"
| "sess_resets Rebond s \<longleftrightarrow> True"
| "sess_resets _ s \<longleftrightarrow> False"

subsection \<open>What the operations keep\<close>

lemma accept_frame [frame_simps]:
  "s_peer_addr (session_accept L now msg s) = s_peer_addr s"
  "s_peer_id (session_accept L now msg s) = s_peer_id s"
  "s_sock (session_accept L now msg s) = s_sock s"
  "s_slot (session_accept L now msg s) = s_slot s"
  "s_sent (session_accept L now msg s) = s_sent s"
  "msg_counter (s_proto (session_accept L now msg s)) = msg_counter (s_proto s)"
  "remote_id (s_proto (session_accept L now msg s)) = remote_id (s_proto s)"
  by (simp_all add: session_accept_def)

lemma poll_frame [frame_simps]:
  "s_peer_addr (snd (pstop_session_poll L now rxs s)) = s_peer_addr s"
  "s_sock (snd (pstop_session_poll L now rxs s)) = s_sock s"
  "s_slot (snd (pstop_session_poll L now rxs s)) = s_slot s"
  "s_sent (snd (pstop_session_poll L now rxs s)) = s_sent s"
  "msg_counter (s_proto (snd (pstop_session_poll L now rxs s))) = msg_counter (s_proto s)"
  "remote_id (s_proto (snd (pstop_session_poll L now rxs s))) = remote_id (s_proto s)"
  by (induction L now rxs s rule: pstop_session_poll.induct) (auto simp: frame_simps)

lemma accept_parked:
  "s_state s = PSTOP_SESS_REJECTED \<Longrightarrow> s_state (session_accept L now msg s) = PSTOP_SESS_REJECTED"
  by (simp add: session_accept_def)

lemma poll_parked:
  "s_state s = PSTOP_SESS_REJECTED \<Longrightarrow>
     s_state (snd (pstop_session_poll L now rxs s)) = PSTOP_SESS_REJECTED"
  by (induction L now rxs s rule: pstop_session_poll.induct) (auto simp: accept_parked)

lemma build_count:
  assumes "lib_codec_faithful L"
  shows "msg_count L (message_decode L (pstop_session_build L my_id s v r now)) =
           msg_counter (s_proto s) + 1"
  using assms by (simp add: lib_codec_faithful_def pstop_session_build_def Let_def)

lemma build_type:
  assumes "lib_codec_faithful L"
  shows "msg_message L (message_decode L (pstop_session_build L my_id s v r now)) =
           session_frame_type L s v"
  using assms by (simp add: lib_codec_faithful_def pstop_session_build_def Let_def)

lemma commit_counter [session_simps]:
  "msg_counter (s_proto (snd (pstop_session_commit_send s n err now))) =
     (if n = int PSTOP_MESSAGE_SIZE then msg_counter (s_proto s) + 1 else msg_counter (s_proto s))"
  by (simp add: pstop_session_commit_send_def Let_def)

lemma watchdog_no_reset:
  "\<not> sess_resets (Watch now) s \<Longrightarrow> pstop_session_watchdog L s now = s"
  by (auto simp: pstop_session_watchdog_def not_less)

interpretation sess: counted_sender
  "sess_step L my_id" "\<lambda>s. msg_counter (s_proto s)" "\<lambda>f. msg_count L (message_decode L f)"
  sess_resets "lib_codec_faithful L"
  for L :: "'m pstop_lib" and my_id :: u32
proof
  fix e s
  assume "lib_codec_faithful L" and "\<not> sess_resets e s"
  then show "fst (sess_step L my_id e s) = [] \<and>
        msg_counter (s_proto (snd (sess_step L my_id e s))) = msg_counter (s_proto s) \<or>
      (\<exists>x. fst (sess_step L my_id e s) = [x] \<and>
           msg_count L (message_decode L x) = msg_counter (s_proto s) + 1 \<and>
           msg_counter (s_proto (snd (sess_step L my_id e s))) = msg_counter (s_proto s) + 1)"
    by (cases e) (auto simp: build_count session_simps frame_simps watchdog_no_reset)
qed

interpretation park: parking
  "sess_step L my_id" "\<lambda>s. s_state s = PSTOP_SESS_REJECTED" "\<lambda>e. e = Rebond"
  for L :: "'m pstop_lib" and my_id :: u32
proof
  fix s :: pstop_session and e
  assume parked: "s_state s = PSTOP_SESS_REJECTED" and "e \<noteq> Rebond"
  then show "fst (sess_step L my_id e s) = []"
    by (cases e) (auto simp: pstop_session_due_def)
  from parked \<open>e \<noteq> Rebond\<close> show "s_state (snd (sess_step L my_id e s)) = PSTOP_SESS_REJECTED"
    by (cases e) (auto simp: pstop_session_due_def poll_parked pstop_session_watchdog_def)
qed

section \<open>Pacing bounds\<close>

lemma send_period_unat:
  "unat (pstop_session_send_period_ms s) =
     (if s_hb_ms s = 0 then 100 else max 100 (min 1000 (unat (s_hb_ms s) div 2)))"
proof -
  have half: "unat (s_hb_ms s div 2) = unat (s_hb_ms s) div 2"
    by (simp add: unat_div_distrib)
  show ?thesis
    by (auto simp: pstop_session_send_period_ms_def const_simps Let_def word_less_nat_alt half)
qed

lemma rebond_after_unat:
  "unat (pstop_session_rebond_after_ms s) = max 2500 (5 * unat (s_hb_ms s) + 500)"
proof -
  have small: "unat (s_hb_ms s) < 2 ^ 32"
    using unsigned_less [of "s_hb_ms s", where 'a = nat] by simp
  have "unat (ucast (s_hb_ms s) * 5 + 500 :: u64) = 5 * unat (s_hb_ms s) + 500"
    using small by (simp add: unat_word_ariths unat_ucast_u32_u64)
  then show ?thesis
    by (auto simp: pstop_session_rebond_after_ms_def const_simps Let_def word_less_nat_alt)
qed

section \<open>Properties of a session\<close>

text \<open>A session opened to a machine at 127.0.0.1:8890, on which the witnesses run.\<close>

definition demo_peer :: pstop_peer where
  "demo_peer = \<lparr>peer_ip = 0x7F000001, peer_port = 8890, peer_id = 0x01020304, configured = True\<rparr>"

definition demo_env :: open_env where
  "demo_env = \<lparr>local_port = 8891, socket_ret = 7, socket_errno = 0, bind_ret = (\<lambda>_. 0),
     bind_errno = 0\<rparr>"

definition demo_session :: pstop_session where
  "demo_session = snd (pstop_session_open wire_lib demo_env session_zero 0 demo_peer)"

definition demo_rx :: rx where
  "demo_rx = \<lparr>rx_n = 48, rx_buf = replicate 48 0, rx_from = \<lparr>sin_addr = 1, sin_port = 2\<rparr>\<rparr>"

lemma demo_session_eq:
  "demo_session = session_zero\<lparr>s_sock := 7, s_peer_id := 0x01020304, s_last_msg := 0x0F,
     s_peer_addr := \<lparr>sin_addr = htonl 0x7F000001, sin_port = htons 8890\<rparr>,
     s_proto := \<lparr>remote_id = 0x01020304, msg_counter = 0, last_received_stamp = 0,
                 last_received_counter = 0\<rparr>\<rparr>"
  by (simp add: demo_session_def pstop_session_open_def demo_env_def demo_peer_def
      session_zero_def const_simps wire_lib_def)

text \<open>
  C12. Whatever happens to a session between two re-bonds (sends that succeed or fail,
  replies of any kind, watchdog checks that do not fire), the frames that leave its socket
  carry consecutive counters, starting one above the counter it held, modulo \<open>2 ^ 32\<close>.
\<close>

theorem session_counters_contiguous:
  assumes "lib_codec_faithful L"
    and "mealy_all (sess_step L my_id) (\<lambda>e s. \<not> sess_resets e s) es s"
  shows "map (\<lambda>f. msg_count L (message_decode L f)) (fst (mealy_run (sess_step L my_id) es s)) =
           map (\<lambda>i. msg_counter (s_proto s) + of_nat (Suc i))
             [0..<length (fst (mealy_run (sess_step L my_id) es s))]"
  using sess.run_contiguous [OF assms] by blast

theorem session_counters_contiguous_witness:
  "map (\<lambda>f. msg_count wire_lib (message_decode wire_lib f))
     (fst (mealy_run (sess_step wire_lib 9)
        [Transmit 0x55 PSTOP_AUX_ROLE_OPERATOR 48 0 100, Transmit 0x55 PSTOP_AUX_ROLE_OPERATOR 48 0 5100]
        demo_session)) = [1, 2]"
proof -
  let ?es = "[Transmit 0x55 PSTOP_AUX_ROLE_OPERATOR 48 0 100,
    Transmit 0x55 PSTOP_AUX_ROLE_OPERATOR 48 0 5100]"
  have "mealy_all (sess_step wire_lib 9) (\<lambda>e s. \<not> sess_resets e s) ?es demo_session" by simp
  from session_counters_contiguous [OF wire_lib_codec_faithful this]
  show ?thesis
    by (simp add: demo_session_eq session_zero_def pstop_session_due_def
        pstop_session_commit_send_def const_simps Let_def)
qed

text \<open>
  A session the machine has refused (UNBOND) is parked: through any sequence of ticks,
  replies and watchdog checks it sends nothing and stays parked, until it is re-bonded.
\<close>

lemma session_parked_until_rebond:
  assumes "s_state s = PSTOP_SESS_REJECTED" and "Rebond \<notin> set es"
  shows "fst (mealy_run (sess_step L my_id) es s) = [] \<and>
         s_state (snd (mealy_run (sess_step L my_id) es s)) = PSTOP_SESS_REJECTED"
  using park.parked_run [OF assms(1), of es] assms(2) by auto

lemma session_parked_until_rebond_instance:
  "fst (mealy_run (sess_step wire_lib 9)
     [Transmit 0x55 PSTOP_AUX_ROLE_OPERATOR 48 0 100, Drain 100 [demo_rx], Watch 90000]
     (demo_session\<lparr>s_state := PSTOP_SESS_REJECTED\<rparr>)) = []"
  using session_parked_until_rebond [of "demo_session\<lparr>s_state := PSTOP_SESS_REJECTED\<rparr>"
      "[Transmit 0x55 PSTOP_AUX_ROLE_OPERATOR 48 0 100, Drain 100 [demo_rx], Watch 90000]"
      wire_lib 9]
  by simp

text \<open>
  Datagrams that do not come from the peer's address, or whose checksum does not
  verify, leave the session exactly as it was, however many arrive.
\<close>

lemma session_poll_ignores_untrusted:
  assumes "\<forall>r \<in> set rxs. \<not> rx_trusted L s r"
  shows "snd (pstop_session_poll L now_ms rxs s) = s"
  using assms by (induction L now_ms rxs s rule: pstop_session_poll.induct) auto

lemma session_poll_ignores_untrusted_instance:
  "\<not> rx_trusted wire_lib demo_session demo_rx \<and>
   snd (pstop_session_poll wire_lib 100 [demo_rx, demo_rx] demo_session) = demo_session"
proof -
  have "\<not> rx_trusted wire_lib demo_session demo_rx"
    by (simp add: rx_trusted_def demo_rx_def demo_session_eq htonl_def)
  then show ?thesis
    using session_poll_ignores_untrusted [of "[demo_rx, demo_rx]" wire_lib demo_session 100] by simp
qed

text \<open>
  The transmit period is between 100 and 1000 ms, and never longer than half the
  machine's advertised window once that window is at least 200 ms.
\<close>

lemma session_send_period_bounds:
  "100 \<le> unat (pstop_session_send_period_ms s) \<and>
   unat (pstop_session_send_period_ms s) \<le> 1000 \<and>
   (200 \<le> unat (s_hb_ms s) \<longrightarrow> 2 * unat (pstop_session_send_period_ms s) \<le> unat (s_hb_ms s))"
  by (auto simp: send_period_unat)

lemma session_send_period_bounds_instance:
  "2 * unat (pstop_session_send_period_ms (demo_session\<lparr>s_hb_ms := 600\<rparr>)) \<le> 600"
  using session_send_period_bounds [of "demo_session\<lparr>s_hb_ms := 600\<rparr>"] by simp

text \<open>
  The silence a session tolerates before it re-bonds is always longer than the
  machine's own bond-drop timeout of five heartbeats, for every 32-bit window on the wire:
  the 64-bit arithmetic never wraps.
\<close>

lemma session_rebond_outlasts_machine:
  "5 * unat (s_hb_ms s) < unat (pstop_session_rebond_after_ms s) \<and>
   2500 \<le> unat (pstop_session_rebond_after_ms s)"
  by (simp add: rebond_after_unat)

end
