(* ===== verification/App_Settings.thy ===== *)
theory App_Settings
  imports Session "HOL-Library.Sublist" "HOL-Library.AList"
begin

text \<open>
  Persistent configuration (\<open>protective_stop/src/app_settings.c\<close>): the machine peer table,
  the role, the device id, the ring orientation and the WiFi networks, held in RAM and
  written through to the settings store. The store itself (Zephyr's settings subsystem)
  is the parameter \<open>settings_backend\<close>; what is assumed of it is \<open>backend_lawful\<close>. Each
  operation takes the store and returns the return code, the store and the RAM state.
  The mutexes only make single reads and writes of the tables atomic, which they are here.
\<close>

section \<open>The store and the state\<close>

definition PSTOP_WIFI_MAX :: nat where [const_simps]: "PSTOP_WIFI_MAX = 4"
definition PSTOP_WIFI_SSID_MAX :: nat where [const_simps]: "PSTOP_WIFI_SSID_MAX = 32"
definition PSTOP_WIFI_PASS_MAX :: nat where [const_simps]: "PSTOP_WIFI_PASS_MAX = 64"

text \<open>An item the loader hands to the handler: its name below the root, its length, and what the read callback delivers (\<open>None\<close> is a read error).\<close>

type_synonym item = "string \<times> nat \<times> bytes option"

record 'f settings_backend =
  save_one :: "'f \<Rightarrow> string \<Rightarrow> bytes \<Rightarrow> int \<times> 'f"
  subsys_init :: "'f \<Rightarrow> int"
  load_ret :: "'f \<Rightarrow> int"
  load_items :: "'f \<Rightarrow> item list"
  name_steq :: "string \<Rightarrow> string \<Rightarrow> bool \<times> string option"

record pstop_wifi_net =
  ssid :: string
  pass :: string

record app_settings =
  cfg_peers :: "nat \<Rightarrow> pstop_peer"
  cfg_device_id :: u32
  cfg_derived_id :: u32
  cfg_is_operator :: bool
  cfg_ring_offset :: u8
  cfg_wifi :: "nat \<Rightarrow> pstop_wifi_net"

definition peer_zero :: pstop_peer where
  "peer_zero = \<lparr>peer_ip = 0, peer_port = 0, peer_id = 0, configured = False\<rparr>"

definition wifi_zero :: pstop_wifi_net where
  "wifi_zero = \<lparr>ssid = [], pass = []\<rparr>"

section \<open>Memory images\<close>

text \<open>
  The store keeps the raw bytes of the structs: a peer is 16 bytes with the natural
  alignment of its fields, a network 33 + 65 characters. Loading terminates both strings
  at their last byte.
\<close>

definition bytes_of_peer :: "pstop_peer \<Rightarrow> bytes" where
  "bytes_of_peer p = le32 (peer_ip p) @ le16 (peer_port p) @ [0, 0] @ le32 (peer_id p) @
     [if configured p then 1 else 0, 0, 0, 0]"

definition peer_of_bytes :: "bytes \<Rightarrow> pstop_peer" where
  "peer_of_bytes b = \<lparr>peer_ip = get_le32 (take 4 b), peer_port = get_le16 (take 2 (drop 4 b)),
     peer_id = get_le32 (take 4 (drop 8 b)), configured = (b ! 12 \<noteq> 0)\<rparr>"

definition c_string :: "bytes \<Rightarrow> string" where
  "c_string b = map (\<lambda>w. char_of (unat w)) (takeWhile (\<lambda>w. w \<noteq> 0) b)"

definition c_chars :: "nat \<Rightarrow> string \<Rightarrow> bytes" where
  "c_chars n s = map (\<lambda>c. of_nat (of_char c)) s @ replicate (n - length s) 0"

definition bytes_of_wifi :: "pstop_wifi_net \<Rightarrow> bytes" where
  "bytes_of_wifi w = c_chars (PSTOP_WIFI_SSID_MAX + 1) (ssid w) @
     c_chars (PSTOP_WIFI_PASS_MAX + 1) (pass w)"

definition wifi_of_bytes :: "bytes \<Rightarrow> pstop_wifi_net" where
  "wifi_of_bytes b = \<lparr>ssid = c_string (take PSTOP_WIFI_SSID_MAX b),
     pass = c_string (take PSTOP_WIFI_PASS_MAX (drop (PSTOP_WIFI_SSID_MAX + 1) b))\<rparr>"

text \<open>The C library's \<open>atoi\<close>: blanks, an optional sign, digits up to the first other character.\<close>

definition digit_char :: "char \<Rightarrow> bool" where
  "digit_char c \<longleftrightarrow> 48 \<le> (of_char c :: nat) \<and> (of_char c :: nat) \<le> 57"

fun atoi_digits :: "int \<Rightarrow> string \<Rightarrow> int" where
  "atoi_digits acc [] = acc"
| "atoi_digits acc (c # cs) =
     (if digit_char c then atoi_digits (acc * 10 + (of_char c - 48)) cs else acc)"

definition atoi :: "string \<Rightarrow> int" where
  "atoi s = (case dropWhile (\<lambda>c. c = CHR '' '') s of
       [] \<Rightarrow> 0
     | c # cs \<Rightarrow> if c = CHR ''-'' then - atoi_digits 0 cs
                else if c = CHR ''+'' then atoi_digits 0 cs
                else atoi_digits 0 (c # cs))"

text \<open>\<open>snprintf\<close> of the slot or network index, which is a single digit.\<close>

definition index_char :: "nat \<Rightarrow> string" where
  "index_char i = [char_of (48 + i :: nat)]"

section \<open>Loading\<close>

definition load_scalar ::
  "nat \<Rightarrow> nat \<Rightarrow> bytes option \<Rightarrow> (bytes \<Rightarrow> app_settings) \<Rightarrow> app_settings \<Rightarrow> int \<times> app_settings" where
  "load_scalar expected len rd upd st =
     (if len \<noteq> expected then (- EINVAL, st)
      else case rd of None \<Rightarrow> (- EIO, st) | Some b \<Rightarrow> (0, upd b))"

definition pstop_settings_set ::
  "'f settings_backend \<Rightarrow> item \<Rightarrow> app_settings \<Rightarrow> int \<times> app_settings" where
  "pstop_settings_set B it st =
     (case it of (name, len, rd) \<Rightarrow>
      if name_steq B name ''device_id'' = (True, None)
      then load_scalar 4 len rd (\<lambda>b. st\<lparr>cfg_device_id := get_le32 b\<rparr>) st
      else if name_steq B name ''operator'' = (True, None)
      then load_scalar 1 len rd (\<lambda>b. st\<lparr>cfg_is_operator := (b ! 0 \<noteq> 0)\<rparr>) st
      else if name_steq B name ''ring_off'' = (True, None)
      then load_scalar 1 len rd (\<lambda>b. st\<lparr>cfg_ring_offset := b ! 0\<rparr>) st
      else case name_steq B name ''wifi'' of
        (True, Some next) \<Rightarrow>
          (let idx = atoi next in
           if idx < 0 \<or> int PSTOP_WIFI_MAX \<le> idx then (- EINVAL, st)
           else load_scalar 98 len rd
                  (\<lambda>b. st\<lparr>cfg_wifi := (cfg_wifi st)(nat idx := wifi_of_bytes b)\<rparr>) st)
      | _ \<Rightarrow>
          (case name_steq B name ''peers'' of
             (True, Some next) \<Rightarrow>
               (let slot = atoi next in
                if slot < 0 \<or> int PSTOP_MAX_MACHINES \<le> slot then (- EINVAL, st)
                else load_scalar 16 len rd
                       (\<lambda>b. st\<lparr>cfg_peers := (cfg_peers st)(nat slot := peer_of_bytes b)\<rparr>) st)
           | _ \<Rightarrow> (- ENOENT, st)))"

definition DERIVED_ID_PREFIX :: u32 where [const_simps]: "DERIVED_ID_PREFIX = 0x01000000"
definition FALLBACK_ID :: u32 where [const_simps]: "FALLBACK_ID = 0xC0A80105"

text \<open>The hardware id source: absent, or the returned count and the bytes of the buffer.\<close>

definition derive_device_id :: "(int \<times> bytes) option \<Rightarrow> u32" where
  "derive_device_id hw =
     (case hw of None \<Rightarrow> FALLBACK_ID
      | Some (n, mac) \<Rightarrow>
          if 3 \<le> n
          then DERIVED_ID_PREFIX OR push_bit 16 (ucast (mac ! nat (n - 3))) OR
               push_bit 8 (ucast (mac ! nat (n - 2))) OR ucast (mac ! nat (n - 1))
          else FALLBACK_ID)"

definition settings_defaults :: "u32 \<Rightarrow> app_settings" where
  "settings_defaults derived = \<lparr>cfg_peers = (\<lambda>_. peer_zero), cfg_device_id = 0,
     cfg_derived_id = derived, cfg_is_operator = False, cfg_ring_offset = 0,
     cfg_wifi = (\<lambda>_. wifi_zero)\<rparr>"

definition app_settings_init ::
  "'f settings_backend \<Rightarrow> 'f \<Rightarrow> (int \<times> bytes) option \<Rightarrow> int \<times> app_settings" where
  "app_settings_init B f hw =
     (let st = settings_defaults (derive_device_id hw) in
      if subsys_init B f \<noteq> 0 then (subsys_init B f, st)
      else (let st = fold (\<lambda>it st. snd (pstop_settings_set B it st)) (load_items B f) st in
            if load_ret B f \<noteq> 0 then (load_ret B f, st)
            else (0, if 16 \<le> cfg_ring_offset st then st\<lparr>cfg_ring_offset := 0\<rparr> else st)))"

section \<open>The peer table\<close>

definition app_settings_peer_get :: "app_settings \<Rightarrow> int \<Rightarrow> int + pstop_peer" where
  "app_settings_peer_get st slot =
     (if slot < 0 \<or> int PSTOP_MAX_MACHINES \<le> slot then Inl (- EINVAL)
      else Inr (cfg_peers st (nat slot)))"

definition save_peer ::
  "'f settings_backend \<Rightarrow> 'f \<Rightarrow> nat \<Rightarrow> pstop_peer \<Rightarrow> int \<times> 'f" where
  "save_peer B f slot peer = save_one B f (''pstop/peers/'' @ index_char slot) (bytes_of_peer peer)"

definition store_peer ::
  "'f settings_backend \<Rightarrow> 'f \<Rightarrow> app_settings \<Rightarrow> int \<Rightarrow> pstop_peer \<Rightarrow> int \<times> 'f \<times> app_settings" where
  "store_peer B f st slot peer =
     (case save_peer B f (nat slot) peer of (ret, f') \<Rightarrow>
        (ret, f', if ret = 0 then st\<lparr>cfg_peers := (cfg_peers st)(nat slot := peer)\<rparr> else st))"

definition app_settings_set_peer ::
  "'f settings_backend \<Rightarrow> 'f \<Rightarrow> app_settings \<Rightarrow> int \<Rightarrow> u32 \<Rightarrow> u16 \<Rightarrow> u32
     \<Rightarrow> int \<times> 'f \<times> app_settings" where
  "app_settings_set_peer B f st slot ip port pid =
     (if slot < 0 \<or> int PSTOP_MAX_MACHINES \<le> slot then (- EINVAL, f, st)
      else store_peer B f st slot
             (peer_zero\<lparr>peer_ip := ip, peer_port := port, peer_id := pid, configured := True\<rparr>))"

definition app_settings_clear_peer ::
  "'f settings_backend \<Rightarrow> 'f \<Rightarrow> app_settings \<Rightarrow> int \<Rightarrow> int \<times> 'f \<times> app_settings" where
  "app_settings_clear_peer B f st slot =
     (if slot < 0 \<or> int PSTOP_MAX_MACHINES \<le> slot then (- EINVAL, f, st)
      else store_peer B f st slot peer_zero)"

section \<open>Scalars\<close>

definition app_settings_set_device_id ::
  "'f settings_backend \<Rightarrow> 'f \<Rightarrow> app_settings \<Rightarrow> u32 \<Rightarrow> int \<times> 'f \<times> app_settings" where
  "app_settings_set_device_id B f st did =
     (case save_one B f ''pstop/device_id'' (le32 did) of (ret, f') \<Rightarrow>
        if ret \<noteq> 0 then (ret, f', st) else (0, f', st\<lparr>cfg_device_id := did\<rparr>))"

definition app_settings_effective_device_id :: "app_settings \<Rightarrow> u32" where
  "app_settings_effective_device_id st =
     (if cfg_device_id st \<noteq> 0 then cfg_device_id st else cfg_derived_id st)"

definition app_settings_device_id :: "app_settings \<Rightarrow> u32" where
  "app_settings_device_id st = cfg_device_id st"

definition app_settings_ring_offset :: "app_settings \<Rightarrow> u8" where
  "app_settings_ring_offset st = cfg_ring_offset st"

definition app_settings_is_operator :: "app_settings \<Rightarrow> bool" where
  "app_settings_is_operator st \<longleftrightarrow> cfg_is_operator st"

definition app_settings_set_ring_offset ::
  "'f settings_backend \<Rightarrow> 'f \<Rightarrow> app_settings \<Rightarrow> u8 \<Rightarrow> int \<times> 'f \<times> app_settings" where
  "app_settings_set_ring_offset B f st offset =
     (if 16 \<le> offset then (- EINVAL, f, st)
      else case save_one B f ''pstop/ring_off'' [offset] of (ret, f') \<Rightarrow>
        if ret \<noteq> 0 then (ret, f', st) else (0, f', st\<lparr>cfg_ring_offset := offset\<rparr>))"

definition app_settings_set_operator ::
  "'f settings_backend \<Rightarrow> 'f \<Rightarrow> app_settings \<Rightarrow> bool \<Rightarrow> int \<times> 'f \<times> app_settings" where
  "app_settings_set_operator B f st op =
     (case save_one B f ''pstop/operator'' [if op then 1 else 0] of (ret, f') \<Rightarrow>
        if ret \<noteq> 0 then (ret, f', st) else (0, f', st\<lparr>cfg_is_operator := op\<rparr>))"

section \<open>WiFi networks\<close>

definition app_settings_wifi_get :: "app_settings \<Rightarrow> int \<Rightarrow> int + pstop_wifi_net" where
  "app_settings_wifi_get st idx =
     (if idx < 0 \<or> int PSTOP_WIFI_MAX \<le> idx then Inl (- EINVAL)
      else Inr (cfg_wifi st (nat idx)))"

fun wifi_save_from ::
  "'f settings_backend \<Rightarrow> (nat \<Rightarrow> pstop_wifi_net) \<Rightarrow> nat list \<Rightarrow> 'f \<Rightarrow> app_settings
     \<Rightarrow> int \<times> 'f \<times> app_settings" where
  "wifi_save_from B nets [] f st = (0, f, st)"
| "wifi_save_from B nets (i # is) f st =
     (case save_one B f (''pstop/wifi/'' @ index_char i) (bytes_of_wifi (nets i)) of (ret, f') \<Rightarrow>
        if ret \<noteq> 0 then (ret, f', st)
        else wifi_save_from B nets is f' (st\<lparr>cfg_wifi := (cfg_wifi st)(i := nets i)\<rparr>))"

definition app_settings_wifi_set_all ::
  "'f settings_backend \<Rightarrow> 'f \<Rightarrow> app_settings \<Rightarrow> (nat \<Rightarrow> pstop_wifi_net)
     \<Rightarrow> int \<times> 'f \<times> app_settings" where
  "app_settings_wifi_set_all B f st nets = wifi_save_from B nets [0..<PSTOP_WIFI_MAX] f st"

section \<open>Write-through persistence\<close>

text \<open>
  The contract every setter keeps with the store: nothing happens on a refused value; the
  RAM copy moves exactly when the store accepted the write. In \<open>persistent_setting\<close> the
  store is moreover one that a reload reads back, and then RAM and store never part.
\<close>

locale write_through =
  fixes put :: "'f \<Rightarrow> 's \<Rightarrow> 'v \<Rightarrow> int \<times> 'f \<times> 's"
    and persist :: "'f \<Rightarrow> 'v \<Rightarrow> int \<times> 'f"
    and assign :: "'s \<Rightarrow> 'v \<Rightarrow> 's"
    and accepts :: "'v \<Rightarrow> bool"
  assumes put_accepted: "accepts v \<Longrightarrow>
      put f s v = (fst (persist f v), snd (persist f v),
                   if fst (persist f v) = 0 then assign s v else s)"
    and put_refused: "\<not> accepts v \<Longrightarrow> put f s v = (- EINVAL, f, s)"
begin

lemma put_ret_zero: "fst (put f s v) = 0 \<Longrightarrow> snd (snd (put f s v)) = assign s v"
  by (cases "accepts v") (auto simp: put_accepted put_refused EINVAL_def split: if_splits)

lemma put_ret_error: "fst (put f s v) \<noteq> 0 \<Longrightarrow> snd (snd (put f s v)) = s"
  by (cases "accepts v") (auto simp: put_accepted put_refused)

end

locale persistent_setting = write_through +
  fixes reload :: "'f \<Rightarrow> 's"
    and sane :: "'f \<Rightarrow> bool"
    and lawful :: bool
  assumes persist_reload: "lawful \<Longrightarrow> sane f \<Longrightarrow> accepts v \<Longrightarrow> fst (persist f v) = 0 \<Longrightarrow>
      reload (snd (persist f v)) = assign (reload f) v \<and> sane (snd (persist f v))"
    and persist_failed: "lawful \<Longrightarrow> sane f \<Longrightarrow> accepts v \<Longrightarrow> fst (persist f v) \<noteq> 0 \<Longrightarrow>
      reload (snd (persist f v)) = reload f \<and> sane (snd (persist f v))"
begin

lemma put_keeps_agreement:
  assumes lawful "sane f" "reload f = s"
  shows "reload (fst (snd (put f s v))) = snd (snd (put f s v)) \<and> sane (fst (snd (put f s v)))"
proof (cases "accepts v")
  case True
  then show ?thesis
    using persist_reload [OF assms(1,2) True] persist_failed [OF assms(1,2) True] assms(3)
    by (cases "fst (persist f v) = 0") (simp_all add: put_accepted)
next
  case False
  then show ?thesis using assms by (simp add: put_refused)
qed

end

section \<open>What a reboot loads\<close>

text \<open>
  What is assumed of the store: names are compared as the settings subsystem documents, a
  subtree load hands out each item once, a successful save replaces exactly its item, and
  a failed one changes none. \<open>store_sane\<close> says that only keys this application writes are
  stored under its root.
\<close>

definition steq_spec :: "string \<Rightarrow> string \<Rightarrow> bool \<times> string option" where
  "steq_spec name key =
     (if name = key then (True, None)
      else if prefix (key @ ''/'') name then (True, Some (drop (Suc (length key)) name))
      else (False, None))"

definition backend_lawful :: "'f settings_backend \<Rightarrow> bool" where
  "backend_lawful B \<longleftrightarrow>
     name_steq B = steq_spec \<and>
     (\<forall>f. distinct (map fst (load_items B f))) \<and>
     (\<forall>f n b. fst (save_one B f (''pstop/'' @ n) b) = 0 \<longrightarrow>
        map_of (load_items B (snd (save_one B f (''pstop/'' @ n) b))) =
          (map_of (load_items B f))(n \<mapsto> (length b, Some b))) \<and>
     (\<forall>f n b. fst (save_one B f (''pstop/'' @ n) b) \<noteq> 0 \<longrightarrow>
        map_of (load_items B (snd (save_one B f (''pstop/'' @ n) b))) = map_of (load_items B f))"

definition canonical_names :: "string list" where
  "canonical_names = [''device_id'', ''operator'', ''ring_off'', ''wifi/0'', ''wifi/1'', ''wifi/2'',
     ''wifi/3'', ''peers/0'', ''peers/1'', ''peers/2'', ''peers/3'']"

definition store_sane :: "'f settings_backend \<Rightarrow> 'f \<Rightarrow> bool" where
  "store_sane B f \<longleftrightarrow> dom (map_of (load_items B f)) \<subseteq> set canonical_names"

text \<open>The state a load produces, as a function of the stored items.\<close>

definition value_at :: "(string \<rightharpoonup> nat \<times> bytes option) \<Rightarrow> string \<Rightarrow> nat \<Rightarrow> (bytes \<Rightarrow> 'v) \<Rightarrow> 'v \<Rightarrow> 'v" where
  "value_at m name len dec dflt =
     (case m name of Some (n, Some b) \<Rightarrow> if n = len then dec b else dflt | _ \<Rightarrow> dflt)"

definition loaded_raw :: "u32 \<Rightarrow> (string \<rightharpoonup> nat \<times> bytes option) \<Rightarrow> app_settings" where
  "loaded_raw derived m =
     \<lparr>cfg_peers = (\<lambda>_. peer_zero)
        (0 := value_at m ''peers/0'' 16 peer_of_bytes peer_zero,
         1 := value_at m ''peers/1'' 16 peer_of_bytes peer_zero,
         2 := value_at m ''peers/2'' 16 peer_of_bytes peer_zero,
         3 := value_at m ''peers/3'' 16 peer_of_bytes peer_zero),
      cfg_device_id = value_at m ''device_id'' 4 get_le32 0,
      cfg_derived_id = derived,
      cfg_is_operator = value_at m ''operator'' 1 (\<lambda>b. b ! 0 \<noteq> 0) False,
      cfg_ring_offset = value_at m ''ring_off'' 1 (\<lambda>b. b ! 0) 0,
      cfg_wifi = (\<lambda>_. wifi_zero)
        (0 := value_at m ''wifi/0'' 98 wifi_of_bytes wifi_zero,
         1 := value_at m ''wifi/1'' 98 wifi_of_bytes wifi_zero,
         2 := value_at m ''wifi/2'' 98 wifi_of_bytes wifi_zero,
         3 := value_at m ''wifi/3'' 98 wifi_of_bytes wifi_zero)\<rparr>"

definition clamp_ring :: "app_settings \<Rightarrow> app_settings" where
  "clamp_ring st = (if 16 \<le> cfg_ring_offset st then st\<lparr>cfg_ring_offset := 0\<rparr> else st)"

definition reload_settings :: "'f settings_backend \<Rightarrow> u32 \<Rightarrow> 'f \<Rightarrow> app_settings" where
  "reload_settings B derived f =
     clamp_ring (fold (\<lambda>it st. snd (pstop_settings_set B it st)) (load_items B f)
       (settings_defaults derived))"

lemma init_reloads:
  "subsys_init B f = 0 \<Longrightarrow> load_ret B f = 0 \<Longrightarrow>
     app_settings_init B f hw = (0, reload_settings B (derive_device_id hw) f)"
  by (simp add: app_settings_init_def reload_settings_def clamp_ring_def Let_def)

lemma value_at_other: "k \<noteq> n \<Longrightarrow> value_at (m(k \<mapsto> v)) n len dec dflt = value_at m n len dec dflt"
  by (simp add: value_at_def)

lemma value_at_same:
  "value_at (m(k \<mapsto> (len', Some b))) k len dec dflt = (if len' = len then dec b else dflt)"
  "value_at (m(k \<mapsto> (len', None))) k len dec dflt = dflt"
  by (simp_all add: value_at_def)

lemma value_at_None: "m n = None \<Longrightarrow> value_at m n len dec dflt = dflt"
  by (simp add: value_at_def)

lemma load_scalar_snd:
  "snd (load_scalar l len rd upd st) =
     (case rd of Some b \<Rightarrow> if len = l then upd b else st | None \<Rightarrow> st)"
  by (simp add: load_scalar_def split: option.split)

lemma atoi_index: "atoi ''0'' = 0" "atoi ''1'' = 1" "atoi ''2'' = 2" "atoi ''3'' = 3"
  by (simp_all add: atoi_def digit_char_def)

lemma handler_table:
  assumes "name_steq B = steq_spec"
  shows
  "snd (pstop_settings_set B (''device_id'', len, rd) st) = (case rd of Some b \<Rightarrow>
     if len = 4 then st\<lparr>cfg_device_id := get_le32 b\<rparr> else st | None \<Rightarrow> st)"
  "snd (pstop_settings_set B (''operator'', len, rd) st) = (case rd of Some b \<Rightarrow>
     if len = 1 then st\<lparr>cfg_is_operator := (b ! 0 \<noteq> 0)\<rparr> else st | None \<Rightarrow> st)"
  "snd (pstop_settings_set B (''ring_off'', len, rd) st) = (case rd of Some b \<Rightarrow>
     if len = 1 then st\<lparr>cfg_ring_offset := b ! 0\<rparr> else st | None \<Rightarrow> st)"
  "snd (pstop_settings_set B (''wifi/0'', len, rd) st) = (case rd of Some b \<Rightarrow>
     if len = 98 then st\<lparr>cfg_wifi := (cfg_wifi st)(0 := wifi_of_bytes b)\<rparr> else st | None \<Rightarrow> st)"
  "snd (pstop_settings_set B (''wifi/1'', len, rd) st) = (case rd of Some b \<Rightarrow>
     if len = 98 then st\<lparr>cfg_wifi := (cfg_wifi st)(1 := wifi_of_bytes b)\<rparr> else st | None \<Rightarrow> st)"
  "snd (pstop_settings_set B (''wifi/2'', len, rd) st) = (case rd of Some b \<Rightarrow>
     if len = 98 then st\<lparr>cfg_wifi := (cfg_wifi st)(2 := wifi_of_bytes b)\<rparr> else st | None \<Rightarrow> st)"
  "snd (pstop_settings_set B (''wifi/3'', len, rd) st) = (case rd of Some b \<Rightarrow>
     if len = 98 then st\<lparr>cfg_wifi := (cfg_wifi st)(3 := wifi_of_bytes b)\<rparr> else st | None \<Rightarrow> st)"
  "snd (pstop_settings_set B (''peers/0'', len, rd) st) = (case rd of Some b \<Rightarrow>
     if len = 16 then st\<lparr>cfg_peers := (cfg_peers st)(0 := peer_of_bytes b)\<rparr> else st | None \<Rightarrow> st)"
  "snd (pstop_settings_set B (''peers/1'', len, rd) st) = (case rd of Some b \<Rightarrow>
     if len = 16 then st\<lparr>cfg_peers := (cfg_peers st)(1 := peer_of_bytes b)\<rparr> else st | None \<Rightarrow> st)"
  "snd (pstop_settings_set B (''peers/2'', len, rd) st) = (case rd of Some b \<Rightarrow>
     if len = 16 then st\<lparr>cfg_peers := (cfg_peers st)(2 := peer_of_bytes b)\<rparr> else st | None \<Rightarrow> st)"
  "snd (pstop_settings_set B (''peers/3'', len, rd) st) = (case rd of Some b \<Rightarrow>
     if len = 16 then st\<lparr>cfg_peers := (cfg_peers st)(3 := peer_of_bytes b)\<rparr> else st | None \<Rightarrow> st)"
  by (simp_all add: pstop_settings_set_def assms steq_spec_def load_scalar_snd atoi_index
      PSTOP_WIFI_MAX_def PSTOP_MAX_MACHINES_def split: option.split)

lemma handler_step:
  assumes "name_steq B = steq_spec" and "k \<in> set canonical_names" and "m k = None"
  shows "snd (pstop_settings_set B (k, v) (loaded_raw derived m)) = loaded_raw derived (m(k \<mapsto> v))"
proof -
  obtain len rd where v: "v = (len, rd)" by (cases v)
  note table = handler_table [OF assms(1)]
  have "set canonical_names = {''device_id'', ''operator'', ''ring_off'', ''wifi/0'', ''wifi/1'',
     ''wifi/2'', ''wifi/3'', ''peers/0'', ''peers/1'', ''peers/2'', ''peers/3''}"
    by (simp only: canonical_names_def list.set)
  with assms(2) have "k \<in> {''device_id'', ''operator'', ''ring_off'', ''wifi/0'', ''wifi/1'',
     ''wifi/2'', ''wifi/3'', ''peers/0'', ''peers/1'', ''peers/2'', ''peers/3''}"
    by (simp only:)
  then show ?thesis
    using assms(3) unfolding v
    by (elim insertE emptyE; cases rd)
      (simp_all add: table loaded_raw_def value_at_None value_at_other value_at_same fun_eq_iff)
qed

lemma load_by_map:
  assumes "name_steq B = steq_spec" and "distinct (map fst its)"
    and "set (map fst its) \<subseteq> set canonical_names"
  shows "fold (\<lambda>it st. snd (pstop_settings_set B it st)) its (settings_defaults derived) =
    loaded_raw derived (map_of its)"
  using assms(2,3)
proof (induction its rule: rev_induct)
  case Nil
  show ?case
    by (simp add: settings_defaults_def loaded_raw_def value_at_None fun_eq_iff)
next
  case (snoc it its)
  obtain k v where it: "it = (k, v)" by (cases it)
  from snoc.prems it have new: "map_of its k = None" and k: "k \<in> set canonical_names"
    by (auto simp: map_of_eq_None_iff)
  then have snoc_map: "map_of (its @ [(k, v)]) = (map_of its)(k \<mapsto> v)"
    by (auto simp: map_add_def fun_eq_iff split: option.splits)
  have "fold (\<lambda>it st. snd (pstop_settings_set B it st)) (its @ [it]) (settings_defaults derived) =
      snd (pstop_settings_set B (k, v) (loaded_raw derived (map_of its)))"
    using snoc by (simp add: it)
  also have "\<dots> = loaded_raw derived (map_of (its @ [it]))"
    unfolding it snoc_map by (rule handler_step [OF assms(1) k], rule new)
  finally show ?case .
qed

lemma reload_by_map:
  assumes "backend_lawful B" and "store_sane B f"
  shows "reload_settings B derived f = clamp_ring (loaded_raw derived (map_of (load_items B f)))"
proof -
  have "set (map fst (load_items B f)) \<subseteq> set canonical_names"
    using assms(2) by (simp add: store_sane_def dom_map_of_conv_image_fst)
  then show ?thesis
    using assms(1) load_by_map [of B "load_items B f"]
    by (simp add: reload_settings_def backend_lawful_def)
qed

section \<open>Round trips of the memory images\<close>

lemma length_bytes_of_peer [simp]: "length (bytes_of_peer p) = 16"
  by (simp add: bytes_of_peer_def)

lemma peer_image [simp]: "peer_of_bytes (bytes_of_peer p) = p"
  by (cases p) (simp add: peer_of_bytes_def bytes_of_peer_def nth_append)

lemma char_byte [simp]:
  "char_of (unat (of_nat (of_char c) :: u8)) = c"
  "(of_nat (of_char c) :: u8) = 0 \<longleftrightarrow> c = CHR 0x00"
proof -
  have lt: "(of_char c :: nat) < 256" by simp
  then have v: "unat (of_nat (of_char c) :: u8) = of_char c"
    by (simp add: unat_of_nat)
  then show "char_of (unat (of_nat (of_char c) :: u8)) = c" by simp
  have "(of_nat (of_char c) :: u8) = 0 \<longleftrightarrow> (of_char c :: nat) = 0"
    by (metis v unat_eq_zero)
  also have "\<dots> \<longleftrightarrow> c = CHR 0x00"
    using of_char_eq_iff [where 'a = nat, of c "CHR 0x00"] by simp
  finally show "(of_nat (of_char c) :: u8) = 0 \<longleftrightarrow> c = CHR 0x00" .
qed

definition c_text :: "nat \<Rightarrow> string \<Rightarrow> bool" where
  "c_text n s \<longleftrightarrow> length s \<le> n \<and> CHR 0x00 \<notin> set s"

lemma c_chars_image:
  assumes "c_text n s"
  shows "c_string (take n (c_chars (n + 1) s @ rest)) = s"
proof -
  have split: "take n (c_chars (n + 1) s @ rest) =
      map (\<lambda>c. of_nat (of_char c)) s @ replicate (n - length s) 0"
    using assms by (simp add: c_chars_def c_text_def)
  have "takeWhile (\<lambda>w. w \<noteq> (0::u8)) (map (\<lambda>c. of_nat (of_char c)) s @ replicate k 0) =
      map (\<lambda>c. of_nat (of_char c)) s" for k
    using assms by (subst takeWhile_append2) (auto simp: c_text_def takeWhile_replicate)
  then show ?thesis unfolding c_string_def split by (simp add: o_def)
qed

lemma length_c_chars: "length s \<le> n \<Longrightarrow> length (c_chars n s) = n"
  by (simp add: c_chars_def)

definition wifi_ok :: "pstop_wifi_net \<Rightarrow> bool" where
  "wifi_ok w \<longleftrightarrow> c_text 32 (ssid w) \<and> c_text 64 (pass w)"

lemma length_bytes_of_wifi: "wifi_ok w \<Longrightarrow> length (bytes_of_wifi w) = 98"
  by (simp add: bytes_of_wifi_def wifi_ok_def c_text_def length_c_chars const_simps)

lemma wifi_image:
  assumes "wifi_ok w"
  shows "wifi_of_bytes (bytes_of_wifi w) = w"
proof -
  have "length (c_chars 33 (ssid w)) = 33"
    using assms by (simp add: wifi_ok_def c_text_def length_c_chars)
  then show ?thesis
    using assms c_chars_image [of 32 "ssid w" "c_chars 65 (pass w)"]
      c_chars_image [of 64 "pass w" "[]"]
    by (cases w) (simp add: wifi_of_bytes_def bytes_of_wifi_def wifi_ok_def const_simps)
qed

lemma nat_less_4: "i < (4::nat) \<longleftrightarrow> i = 0 \<or> i = 1 \<or> i = 2 \<or> i = 3"
  by auto

lemma index_char_simps [simp]:
  "index_char 0 = ''0''" "index_char 1 = ''1''" "index_char 2 = ''2''" "index_char 3 = ''3''"
  "index_char (Suc 0) = ''1''"
  by (simp_all add: index_char_def char_of_def bit_0)

lemma loaded_raw_peer:
  "i < 4 \<Longrightarrow> loaded_raw d (m((''peers/'' @ index_char i) \<mapsto> (16, Some (bytes_of_peer p)))) =
     (loaded_raw d m)\<lparr>cfg_peers := (cfg_peers (loaded_raw d m))(i := p)\<rparr>"
  unfolding nat_less_4
  by (elim disjE) (simp_all add: loaded_raw_def value_at_other value_at_same fun_eq_iff)

lemma loaded_raw_wifi:
  "i < 4 \<Longrightarrow> wifi_ok w \<Longrightarrow>
     loaded_raw d (m((''wifi/'' @ index_char i) \<mapsto> (98, Some (bytes_of_wifi w)))) =
     (loaded_raw d m)\<lparr>cfg_wifi := (cfg_wifi (loaded_raw d m))(i := w)\<rparr>"
  unfolding nat_less_4
  by (elim disjE) (simp_all add: loaded_raw_def value_at_other value_at_same fun_eq_iff wifi_image)

lemma loaded_raw_scalars:
  "loaded_raw d (m(''device_id'' \<mapsto> (4, Some (le32 w)))) = (loaded_raw d m)\<lparr>cfg_device_id := w\<rparr>"
  "loaded_raw d (m(''operator'' \<mapsto> (1, Some [if b then 1 else 0]))) =
     (loaded_raw d m)\<lparr>cfg_is_operator := b\<rparr>"
  "loaded_raw d (m(''ring_off'' \<mapsto> (1, Some [r]))) = (loaded_raw d m)\<lparr>cfg_ring_offset := r\<rparr>"
  by (simp_all add: loaded_raw_def value_at_other value_at_same)

text \<open>One write below the root, seen through a reload.\<close>

lemma save_seen:
  assumes "backend_lawful B" "store_sane B f" "n \<in> set canonical_names"
  shows "store_sane B (snd (save_one B f (''pstop/'' @ n) b))"
    and "fst (save_one B f (''pstop/'' @ n) b) = 0 \<Longrightarrow>
      reload_settings B d (snd (save_one B f (''pstop/'' @ n) b)) =
        clamp_ring (loaded_raw d ((map_of (load_items B f))(n \<mapsto> (length b, Some b))))"
    and "fst (save_one B f (''pstop/'' @ n) b) \<noteq> 0 \<Longrightarrow>
      reload_settings B d (snd (save_one B f (''pstop/'' @ n) b)) = reload_settings B d f"
proof -
  let ?f = "snd (save_one B f (''pstop/'' @ n) b)"
  have ok: "fst (save_one B f (''pstop/'' @ n) b) = 0 \<Longrightarrow>
      map_of (load_items B ?f) = (map_of (load_items B f))(n \<mapsto> (length b, Some b))"
    and err: "fst (save_one B f (''pstop/'' @ n) b) \<noteq> 0 \<Longrightarrow>
      map_of (load_items B ?f) = map_of (load_items B f)"
    using assms(1) unfolding backend_lawful_def by blast+
  show sane: "store_sane B ?f"
    using assms(2,3) ok err
    by (cases "fst (save_one B f (''pstop/'' @ n) b) = 0") (auto simp: store_sane_def)
  show "fst (save_one B f (''pstop/'' @ n) b) = 0 \<Longrightarrow> reload_settings B d ?f =
        clamp_ring (loaded_raw d ((map_of (load_items B f))(n \<mapsto> (length b, Some b))))"
    using reload_by_map [OF assms(1) sane] ok by simp
  show "fst (save_one B f (''pstop/'' @ n) b) \<noteq> 0 \<Longrightarrow>
      reload_settings B d ?f = reload_settings B d f"
    using reload_by_map [OF assms(1) sane] reload_by_map [OF assms(1,2)] err by simp
qed

lemma canonical_members:
  "i < 4 \<Longrightarrow> ''peers/'' @ index_char i \<in> set canonical_names"
  "i < 4 \<Longrightarrow> ''wifi/'' @ index_char i \<in> set canonical_names"
  "''device_id'' \<in> set canonical_names" "''operator'' \<in> set canonical_names"
  "''ring_off'' \<in> set canonical_names"
  by (auto simp: nat_less_4 canonical_names_def)

lemma clamp_frame:
  "clamp_ring (st\<lparr>cfg_peers := p\<rparr>) = (clamp_ring st)\<lparr>cfg_peers := p\<rparr>"
  "clamp_ring (st\<lparr>cfg_device_id := w\<rparr>) = (clamp_ring st)\<lparr>cfg_device_id := w\<rparr>"
  "clamp_ring (st\<lparr>cfg_is_operator := b\<rparr>) = (clamp_ring st)\<lparr>cfg_is_operator := b\<rparr>"
  "clamp_ring (st\<lparr>cfg_wifi := ws\<rparr>) = (clamp_ring st)\<lparr>cfg_wifi := ws\<rparr>"
  "cfg_peers (clamp_ring st) = cfg_peers st" "cfg_wifi (clamp_ring st) = cfg_wifi st"
  "r < 16 \<Longrightarrow> clamp_ring (st\<lparr>cfg_ring_offset := r\<rparr>) = (clamp_ring st)\<lparr>cfg_ring_offset := r\<rparr>"
  by (simp_all add: clamp_ring_def not_le)

section \<open>The setters keep RAM and store together\<close>

definition peer_assign :: "app_settings \<Rightarrow> int \<times> pstop_peer \<Rightarrow> app_settings" where
  "peer_assign st v = st\<lparr>cfg_peers := (cfg_peers st)(nat (fst v) := snd v)\<rparr>"

definition slot_ok :: "int \<Rightarrow> bool" where
  "slot_ok slot \<longleftrightarrow> 0 \<le> slot \<and> slot < int PSTOP_MAX_MACHINES"

definition put_peer ::
  "'f settings_backend \<Rightarrow> 'f \<Rightarrow> app_settings \<Rightarrow> int \<times> pstop_peer \<Rightarrow> int \<times> 'f \<times> app_settings" where
  "put_peer B f st v = (if slot_ok (fst v) then store_peer B f st (fst v) (snd v)
     else (- EINVAL, f, st))"

lemma set_peer_put:
  "app_settings_set_peer B f st slot ip port pid = put_peer B f st
     (slot, \<lparr>peer_ip = ip, peer_port = port, peer_id = pid, configured = True\<rparr>)"
  by (auto simp: app_settings_set_peer_def put_peer_def slot_ok_def peer_zero_def)

lemma clear_peer_put: "app_settings_clear_peer B f st slot = put_peer B f st (slot, peer_zero)"
  by (auto simp: app_settings_clear_peer_def put_peer_def slot_ok_def)

lemma key_split:
  "''pstop/peers/'' @ i = ''pstop/'' @ (''peers/'' @ i)"
  "''pstop/wifi/'' @ i = ''pstop/'' @ (''wifi/'' @ i)"
  "''pstop/device_id'' = ''pstop/'' @ ''device_id''"
  "''pstop/operator'' = ''pstop/'' @ ''operator''"
  "''pstop/ring_off'' = ''pstop/'' @ ''ring_off''"
  by simp_all

interpretation peer_set: persistent_setting
  "put_peer B" "\<lambda>f v. save_peer B f (nat (fst v)) (snd v)" peer_assign "\<lambda>v. slot_ok (fst v)"
  "reload_settings B d" "store_sane B" "backend_lawful B"
  for B :: "'f settings_backend" and d :: u32
proof
  fix f st and v :: "int \<times> pstop_peer"
  show "slot_ok (fst v) \<Longrightarrow> put_peer B f st v = (fst (save_peer B f (nat (fst v)) (snd v)),
      snd (save_peer B f (nat (fst v)) (snd v)),
      if fst (save_peer B f (nat (fst v)) (snd v)) = 0 then peer_assign st v else st)"
    by (simp add: put_peer_def store_peer_def peer_assign_def split: prod.split)
  show "\<not> slot_ok (fst v) \<Longrightarrow> put_peer B f st v = (- EINVAL, f, st)"
    by (simp add: put_peer_def)
next
  fix f and v :: "int \<times> pstop_peer"
  assume law: "backend_lawful B" "store_sane B f" and "slot_ok (fst v)"
  then have i: "nat (fst v) < 4" by (auto simp: slot_ok_def PSTOP_MAX_MACHINES_def)
  note key = canonical_members(1) [OF i]
  note seen = save_seen(1) [OF law key, of "bytes_of_peer (snd v)"]
    save_seen(2,3) [OF law key, of "bytes_of_peer (snd v)" d]
  show "fst (save_peer B f (nat (fst v)) (snd v)) = 0 \<Longrightarrow>
      reload_settings B d (snd (save_peer B f (nat (fst v)) (snd v))) =
        peer_assign (reload_settings B d f) v \<and>
      store_sane B (snd (save_peer B f (nat (fst v)) (snd v)))"
    using seen reload_by_map [OF law, of d]
      loaded_raw_peer [OF i, of d "map_of (load_items B f)" "snd v"]
    unfolding save_peer_def key_split
    by (simp add: clamp_frame peer_assign_def)
  show "fst (save_peer B f (nat (fst v)) (snd v)) \<noteq> 0 \<Longrightarrow>
      reload_settings B d (snd (save_peer B f (nat (fst v)) (snd v))) = reload_settings B d f \<and>
      store_sane B (snd (save_peer B f (nat (fst v)) (snd v)))"
    using seen unfolding save_peer_def key_split by simp
qed

lemmas scalar_seen =
  save_seen [OF _ _ canonical_members(3), folded key_split(3)]
  save_seen [OF _ _ canonical_members(4), folded key_split(4)]
  save_seen [OF _ _ canonical_members(5), folded key_split(5)]

lemma scalar_reload:
  assumes "backend_lawful B" "store_sane B f"
  shows "fst (save_one B f ''pstop/device_id'' (le32 w)) = 0 \<Longrightarrow>
      reload_settings B d (snd (save_one B f ''pstop/device_id'' (le32 w))) =
        (reload_settings B d f)\<lparr>cfg_device_id := w\<rparr>"
    and "fst (save_one B f ''pstop/operator'' [if b then 1 else 0]) = 0 \<Longrightarrow>
      reload_settings B d (snd (save_one B f ''pstop/operator'' [if b then 1 else 0])) =
        (reload_settings B d f)\<lparr>cfg_is_operator := b\<rparr>"
    and "r < 16 \<Longrightarrow> fst (save_one B f ''pstop/ring_off'' [r]) = 0 \<Longrightarrow>
      reload_settings B d (snd (save_one B f ''pstop/ring_off'' [r])) =
        (reload_settings B d f)\<lparr>cfg_ring_offset := r\<rparr>"
  using scalar_seen(2) [OF assms, of "le32 w" d] scalar_seen(8) [OF assms, of "[r]" d]
    scalar_seen(5) [OF assms, of "[if b then 1 else 0]" d] reload_by_map [OF assms, of d]
    loaded_raw_scalars(2) [of d "map_of (load_items B f)" b]
    loaded_raw_scalars(3) [of d "map_of (load_items B f)" r]
  by (simp_all add: loaded_raw_scalars(1) clamp_frame)

lemmas scalar_laws = scalar_seen(1,3,4,6,7,9) scalar_reload

interpretation id_set: persistent_setting
  "app_settings_set_device_id B" "\<lambda>f w. save_one B f ''pstop/device_id'' (le32 w)"
  "\<lambda>st w. st\<lparr>cfg_device_id := w\<rparr>" "\<lambda>_. True" "reload_settings B d" "store_sane B" "backend_lawful B"
  for B :: "'f settings_backend" and d :: u32
  by unfold_locales
    (auto simp: app_settings_set_device_id_def scalar_laws split: prod.splits)

interpretation role_set: persistent_setting
  "app_settings_set_operator B" "\<lambda>f b. save_one B f ''pstop/operator'' [if b then 1 else 0]"
  "\<lambda>st b. st\<lparr>cfg_is_operator := b\<rparr>" "\<lambda>_. True" "reload_settings B d" "store_sane B" "backend_lawful B"
  for B :: "'f settings_backend" and d :: u32
  by unfold_locales
    (auto simp: app_settings_set_operator_def scalar_laws split: prod.splits)

interpretation ring_set: persistent_setting
  "app_settings_set_ring_offset B" "\<lambda>f r. save_one B f ''pstop/ring_off'' [r]"
  "\<lambda>st r. st\<lparr>cfg_ring_offset := r\<rparr>" "\<lambda>r. r < 16" "reload_settings B d" "store_sane B"
  "backend_lawful B"
  for B :: "'f settings_backend" and d :: u32
  by unfold_locales
    (auto simp: app_settings_set_ring_offset_def scalar_laws not_le split: prod.splits)

text \<open>One network of the list, and the loop over all four that stops at the first failed write.\<close>

definition put_wifi ::
  "'f settings_backend \<Rightarrow> 'f \<Rightarrow> app_settings \<Rightarrow> nat \<times> pstop_wifi_net \<Rightarrow> int \<times> 'f \<times> app_settings" where
  "put_wifi B f st v =
     (if fst v < 4 \<and> wifi_ok (snd v)
      then (case save_one B f (''pstop/wifi/'' @ index_char (fst v)) (bytes_of_wifi (snd v)) of
              (ret, f') \<Rightarrow> (ret, f', if ret = 0
                 then st\<lparr>cfg_wifi := (cfg_wifi st)(fst v := snd v)\<rparr> else st))
      else (- EINVAL, f, st))"

interpretation wifi_set: persistent_setting
  "put_wifi B" "\<lambda>f v. save_one B f (''pstop/wifi/'' @ index_char (fst v)) (bytes_of_wifi (snd v))"
  "\<lambda>st v. st\<lparr>cfg_wifi := (cfg_wifi st)(fst v := snd v)\<rparr>" "\<lambda>v. fst v < 4 \<and> wifi_ok (snd v)"
  "reload_settings B d" "store_sane B" "backend_lawful B"
  for B :: "'f settings_backend" and d :: u32
proof
  fix f st and v :: "nat \<times> pstop_wifi_net"
  let ?save = "save_one B f (''pstop/wifi/'' @ index_char (fst v)) (bytes_of_wifi (snd v))"
  show "fst v < 4 \<and> wifi_ok (snd v) \<Longrightarrow> put_wifi B f st v = (fst ?save, snd ?save,
      if fst ?save = 0 then st\<lparr>cfg_wifi := (cfg_wifi st)(fst v := snd v)\<rparr> else st)"
    by (simp add: put_wifi_def split: prod.split)
  show "\<not> (fst v < 4 \<and> wifi_ok (snd v)) \<Longrightarrow> put_wifi B f st v = (- EINVAL, f, st)"
    by (auto simp: put_wifi_def)
next
  fix f and v :: "nat \<times> pstop_wifi_net"
  let ?save = "save_one B f (''pstop/wifi/'' @ index_char (fst v)) (bytes_of_wifi (snd v))"
  assume law: "backend_lawful B" "store_sane B f" and v: "fst v < 4 \<and> wifi_ok (snd v)"
  note key = canonical_members(2) [OF conjunct1 [OF v]]
  note seen = save_seen(1) [OF law key, of "bytes_of_wifi (snd v)"]
    save_seen(2,3) [OF law key, of "bytes_of_wifi (snd v)" d]
  show "fst ?save = 0 \<Longrightarrow> reload_settings B d (snd ?save) = (reload_settings B d f)
      \<lparr>cfg_wifi := (cfg_wifi (reload_settings B d f))(fst v := snd v)\<rparr> \<and> store_sane B (snd ?save)"
    using seen reload_by_map [OF law, of d] v length_bytes_of_wifi [OF conjunct2 [OF v]]
      loaded_raw_wifi [of "fst v" "snd v" d "map_of (load_items B f)"]
    unfolding key_split by (simp add: clamp_frame)
  show "fst ?save \<noteq> 0 \<Longrightarrow> reload_settings B d (snd ?save) = reload_settings B d f \<and>
      store_sane B (snd ?save)"
    using seen unfolding key_split by simp
qed

lemma wifi_save_step:
  "i < 4 \<Longrightarrow> wifi_ok (nets i) \<Longrightarrow> wifi_save_from B nets (i # is) f st =
     (case put_wifi B f st (i, nets i) of (ret, f', st') \<Rightarrow>
        if ret \<noteq> 0 then (ret, f', st') else wifi_save_from B nets is f' st')"
  by (simp add: put_wifi_def split: prod.split)

lemma wifi_save_keeps_agreement:
  assumes "backend_lawful B" and "\<forall>i \<in> set is. i < 4 \<and> wifi_ok (nets i)"
    and "store_sane B f" and "reload_settings B d f = st"
  shows "reload_settings B d (fst (snd (wifi_save_from B nets is f st))) =
           snd (snd (wifi_save_from B nets is f st)) \<and>
         store_sane B (fst (snd (wifi_save_from B nets is f st)))"
  using assms(2-4)
proof (induction "is" arbitrary: f st)
  case Nil
  then show ?case by simp
next
  case (Cons i "is")
  obtain ret f' st' where put: "put_wifi B f st (i, nets i) = (ret, f', st')"
    by (cases "put_wifi B f st (i, nets i)")
  with wifi_set.put_keeps_agreement [OF assms(1) Cons.prems(2,3), of "(i, nets i)"]
  have "reload_settings B d f' = st'" "store_sane B f'" by simp_all
  with Cons put show ?case by (simp add: wifi_save_step del: wifi_save_from.simps)
qed

section \<open>Properties of the settings\<close>

datatype settings_op =
    SetPeer int u32 u16 u32
  | ClearPeer int
  | SetDeviceId u32
  | SetRingOffset u8
  | SetOperator bool
  | SetWifi "nat \<Rightarrow> pstop_wifi_net"

fun settings_apply ::
  "'f settings_backend \<Rightarrow> settings_op \<Rightarrow> 'f \<times> app_settings \<Rightarrow> 'f \<times> app_settings" where
  "settings_apply B (SetPeer slot ip port pid) (f, st) =
     snd (app_settings_set_peer B f st slot ip port pid)"
| "settings_apply B (ClearPeer slot) (f, st) = snd (app_settings_clear_peer B f st slot)"
| "settings_apply B (SetDeviceId w) (f, st) = snd (app_settings_set_device_id B f st w)"
| "settings_apply B (SetRingOffset r) (f, st) = snd (app_settings_set_ring_offset B f st r)"
| "settings_apply B (SetOperator b) (f, st) = snd (app_settings_set_operator B f st b)"
| "settings_apply B (SetWifi nets) (f, st) = snd (app_settings_wifi_set_all B f st nets)"

fun op_ok :: "settings_op \<Rightarrow> bool" where
  "op_ok (SetWifi nets) \<longleftrightarrow> wifi_ok (nets 0) \<and> wifi_ok (nets 1) \<and> wifi_ok (nets 2) \<and> wifi_ok (nets 3)"
| "op_ok _ \<longleftrightarrow> True"

lemma settings_apply_agrees:
  assumes "backend_lawful B" "store_sane B f" "reload_settings B d f = st" "op_ok op"
  shows "reload_settings B d (fst (settings_apply B op (f, st))) = snd (settings_apply B op (f, st))
       \<and> store_sane B (fst (settings_apply B op (f, st)))"
proof (cases op)
  case (SetWifi nets)
  with assms(4) have "\<forall>i \<in> set [0..<PSTOP_WIFI_MAX]. i < 4 \<and> wifi_ok (nets i)"
    by (auto simp: PSTOP_WIFI_MAX_def nat_less_4)
  from wifi_save_keeps_agreement [OF assms(1) this assms(2,3)] SetWifi show ?thesis
    by (simp add: app_settings_wifi_set_all_def)
qed (use peer_set.put_keeps_agreement [OF assms(1-3)] id_set.put_keeps_agreement [OF assms(1-3)]
      role_set.put_keeps_agreement [OF assms(1-3)] ring_set.put_keeps_agreement [OF assms(1-3)]
    in \<open>simp_all add: set_peer_put clear_peer_put\<close>)

text \<open>
  RAM and store never part: starting from a state that is what a reboot would load,
  after any sequence of setter calls, succeeding or failing, the RAM state is still exactly
  what loading the store at the next boot produces.
\<close>

lemma settings_survive_reboot:
  assumes "backend_lawful B" "store_sane B f" "reload_settings B d f = st"
    and "\<forall>op \<in> set ops. op_ok op"
  shows "reload_settings B d (fst (fold (settings_apply B) ops (f, st))) =
           snd (fold (settings_apply B) ops (f, st))"
  using assms(2-4)
proof (induction ops arbitrary: f st)
  case Nil
  then show ?case by simp
next
  case (Cons op ops)
  from settings_apply_agrees [OF assms(1) Cons.prems(1,2), of op] Cons.prems(3)
  have "reload_settings B d (fst (settings_apply B op (f, st))) = snd (settings_apply B op (f, st))"
    "store_sane B (fst (settings_apply B op (f, st)))" by simp_all
  with Cons.IH [of "fst (settings_apply B op (f, st))" "snd (settings_apply B op (f, st))"]
    Cons.prems(3) show ?case by simp
qed

text \<open>A store over an association list, which the assumptions describe: it refuses a write once two items are stored.\<close>

definition demo_backend :: "(string \<times> bytes) list settings_backend" where
  "demo_backend =
     \<lparr>save_one = (\<lambda>f k b. if length f < 2 then (0, AList.update (drop 6 k) b f) else (- ENOSPC, f)),
      subsys_init = (\<lambda>_. 0), load_ret = (\<lambda>_. 0),
      load_items = (\<lambda>f. map (\<lambda>(k, b). (k, length b, Some b)) (AList.clearjunk f)),
      name_steq = steq_spec\<rparr>"

lemma demo_items_map:
  "map_of (load_items demo_backend f) = (\<lambda>k. map_option (\<lambda>b. (length b, Some b)) (map_of f k))"
  by (simp add: demo_backend_def map_of_map map_of_clearjunk comp_def fun_eq_iff)

lemma demo_backend_lawful: "backend_lawful demo_backend"
proof -
  have "distinct (map fst (load_items demo_backend f))" for f
    by (simp add: demo_backend_def comp_def case_prod_unfold distinct_clearjunk)
  moreover have "fst (save_one demo_backend f (''pstop/'' @ n) b) = 0 \<Longrightarrow>
      map_of (load_items demo_backend (snd (save_one demo_backend f (''pstop/'' @ n) b))) =
        (map_of (load_items demo_backend f))(n \<mapsto> (length b, Some b))" for f n b
    by (auto simp: demo_items_map fun_eq_iff)
      (auto simp: demo_backend_def const_simps update_conv' split: if_splits)
  moreover have "fst (save_one demo_backend f (''pstop/'' @ n) b) \<noteq> 0 \<Longrightarrow>
      snd (save_one demo_backend f (''pstop/'' @ n) b) = f" for f n b
    by (simp add: demo_backend_def split: if_splits)
  ultimately show ?thesis by (simp add: backend_lawful_def demo_backend_def)
qed

lemma settings_survive_reboot_instance:
  "let ops = [SetPeer 1 0x0A000002 8890 7, SetDeviceId 5, SetRingOffset 3, ClearPeer 9]
   in reload_settings demo_backend 9 (fst (fold (settings_apply demo_backend) ops ([], settings_defaults 9))) =
        snd (fold (settings_apply demo_backend) ops ([], settings_defaults 9))"
proof -
  have "store_sane demo_backend []" by (simp add: store_sane_def demo_backend_def)
  moreover have "reload_settings demo_backend 9 [] = settings_defaults 9"
    by (simp add: reload_settings_def demo_backend_def clamp_ring_def settings_defaults_def)
  ultimately show ?thesis
    using settings_survive_reboot [OF demo_backend_lawful, of "[]" 9 "settings_defaults 9"
      "[SetPeer 1 0x0A000002 8890 7, SetDeviceId 5, SetRingOffset 3, ClearPeer 9]"]
    by (simp only: Let_def) simp
qed

end
