(* ===== verification/Lockstep.thy ===== *)
theory Lockstep
  imports Estop_Verdict App_Settings
begin

text \<open>
  The lockstep comparator (\<open>protective_stop/src/lockstep.c\<close> and \<open>lockstep.h\<close>): two samplers
  read one stop-switch channel each and encode a frame per machine slot; the comparator
  transmits only when the two encodings are byte-identical, fresh and of the current
  generation. The static variables of the file are the record \<open>lockstep\<close>; arrays are
  functions of the index. What the surroundings deliver during a tick (pin reads, socket
  results, pending datagrams, the clock, the settings) is the record \<open>tick_env\<close>. Every
  call of \<open>zsock_sendto\<close> and of the tick observer is an output of the step that makes it.
  The threads are modelled at the granularity of their blocking points: a sampler pass and
  each stretch of the comparator between two waits is one step.
\<close>

section \<open>State\<close>

definition PSTOP_TICK_MS :: int where [const_simps]: "PSTOP_TICK_MS = 100"
definition PSTOP_SAMPLER_DEADLINE_MS :: int where [const_simps]: "PSTOP_SAMPLER_DEADLINE_MS = 80"
definition ESTOP_CHANNELS :: nat where [const_simps]: "ESTOP_CHANNELS = 2"

datatype pstop_lockstep_event =
  PSTOP_LOCKSTEP_EVENT_NONE | PSTOP_LOCKSTEP_EVENT_TIMEOUT | PSTOP_LOCKSTEP_EVENT_CONTENT

record pstop_lockstep_diag =
  last_kind :: pstop_lockstep_event
  late_mask :: u8
  late_by_ms :: u32
  late_uptime_ms :: u64
  mismatch_slot :: u8
  mismatch_offset :: u8
  mismatch_verdict :: "nat \<Rightarrow> u8"
  mismatch_uptime_ms :: u64
  latency_max_ms :: "nat \<Rightarrow> u32"

text \<open>Where the comparator thread stands, with the locals of its loop body.\<close>

record cmp_locals =
  c_now_ms :: u64
  c_gen :: u32
  c_deadline :: int
  c_late_mask :: u8

datatype cmp_pc = AtTop | AtTake nat cmp_locals | AtBody cmp_locals

record lockstep =
  sessions :: "nat \<Rightarrow> pstop_session"
  slot_active :: "nat \<Rightarrow> bool"
  estop :: "nat \<Rightarrow> estop_state"
  frames :: "nat \<Rightarrow> nat \<Rightarrow> bytes"
  tick_now_ms :: u64
  tick_due :: "nat \<Rightarrow> bool"
  tick_role :: aux_role
  sampler_verdict :: "nat \<Rightarrow> u8"
  sampler_done_ms :: "nat \<Rightarrow> u32"
  rebond_requests :: u32
  reconfigure_requests :: u32
  diag :: pstop_lockstep_diag
  tick_gen :: u32
  sampler_gen :: "nat \<Rightarrow> u32"
  mismatches :: u32
  missed_deadlines :: u32
  gated_ticks :: u32
  tick_observer :: bool
  go_sem :: "nat \<Rightarrow> bool"
  done_sem :: "nat \<Rightarrow> bool"
  cmp_at :: cmp_pc
  cmp_next :: int

text \<open>
  What the surroundings deliver. The device id may differ between the two samplers of one
  tick, because each build reads it from the settings afresh. \<open>te_log_inf\<close> says whether
  INF lines are compiled in and let through.
\<close>

record tick_env =
  te_cfg :: app_settings
  te_open :: "nat \<Rightarrow> open_env"
  te_log_inf :: bool
  te_id :: "nat \<Rightarrow> u32"
  te_reads :: "nat \<Rightarrow> int \<times> int"
  te_uptime :: u64
  te_sendto :: "nat \<Rightarrow> int \<times> int"
  te_inbox :: "nat \<Rightarrow> rx list"

datatype lk_out = Tx nat bytes | Observed u32 u8 u8

definition diag_zero :: pstop_lockstep_diag where
  "diag_zero = \<lparr>last_kind = PSTOP_LOCKSTEP_EVENT_NONE, late_mask = 0, late_by_ms = 0,
     late_uptime_ms = 0, mismatch_slot = 0, mismatch_offset = 0, mismatch_verdict = (\<lambda>_. 0),
     mismatch_uptime_ms = 0, latency_max_ms = (\<lambda>_. 0)\<rparr>"

text \<open>The static storage before any call.\<close>

definition lockstep_zero :: lockstep where
  "lockstep_zero =
     \<lparr>sessions = (\<lambda>_. session_zero), slot_active = (\<lambda>_. False), estop = (\<lambda>_. estop_state_init),
      frames = (\<lambda>_ _. replicate PSTOP_MESSAGE_SIZE 0), tick_now_ms = 0, tick_due = (\<lambda>_. False),
      tick_role = PSTOP_AUX_ROLE_STOP_ONLY, sampler_verdict = (\<lambda>_. 0),
      sampler_done_ms = (\<lambda>_. 0), rebond_requests = 0, reconfigure_requests = 0,
      diag = diag_zero, tick_gen = 0, sampler_gen = (\<lambda>_. 0), mismatches = 0,
      missed_deadlines = 0, gated_ticks = 0, tick_observer = False, go_sem = (\<lambda>_. False),
      done_sem = (\<lambda>_. False), cmp_at = AtTop, cmp_next = 0\<rparr>"

section \<open>Slots\<close>

definition slot_apply_config ::
  "'m pstop_lib \<Rightarrow> tick_env \<Rightarrow> nat \<Rightarrow> lockstep \<Rightarrow> bool \<times> lockstep" where
  "slot_apply_config L E slot st =
     (let s0 = (if slot_active st slot then pstop_session_close (sessions st slot)
                else sessions st slot);
          s1 = s0\<lparr>s_sock := -1\<rparr>;
          idle = st\<lparr>slot_active := (slot_active st)(slot := False),
                    sessions := (sessions st)(slot := s1)\<rparr>
      in case app_settings_peer_get (te_cfg E) (int slot) of
           Inl _ \<Rightarrow> (False, idle)
         | Inr peer \<Rightarrow>
             if \<not> configured peer then (False, idle)
             else (case pstop_session_open L (te_open E slot) s1 (int slot) peer of
                     (ret, s2) \<Rightarrow>
                       (let st' = idle\<lparr>sessions := (sessions st)(slot := s2)\<rparr>
                        in if ret \<noteq> 0 then (False, st')
                           else (True, st'\<lparr>slot_active := (slot_active st)(slot := True)\<rparr>))))"

definition pstop_lockstep_init :: "'m pstop_lib \<Rightarrow> tick_env \<Rightarrow> lockstep \<Rightarrow> int \<times> lockstep" where
  "pstop_lockstep_init L E st =
     (let st = fold (\<lambda>c st. st\<lparr>estop := (estop st)(c := estop_state_init)\<rparr>) [0..<ESTOP_CHANNELS] st
      in (0, fold (\<lambda>slot st.
               snd (slot_apply_config L E slot
                      (st\<lparr>slot_active := (slot_active st)(slot := False)\<rparr>)))
             [0..<PSTOP_MAX_MACHINES] st))"

section \<open>Sampling\<close>

definition sampler_pass ::
  "'m pstop_lib \<Rightarrow> tick_env \<Rightarrow> nat \<Rightarrow> u32 \<Rightarrow> lockstep \<Rightarrow> lockstep" where
  "sampler_pass L E channel gen st =
     (case estop_channel_sample L (int channel) (estop st channel) (te_reads E channel) of
       (verdict, es) \<Rightarrow>
        (let st = st\<lparr>estop := (estop st)(channel := es),
                     sampler_verdict := (sampler_verdict st)(channel := verdict)\<rparr>;
             st = fold (\<lambda>slot st.
                    if slot_active st slot \<and> tick_due st slot
                    then st\<lparr>frames := (frames st)(channel := (frames st channel)(slot :=
                           pstop_session_build L (te_id E channel) (sessions st slot) verdict
                             (tick_role st) (tick_now_ms st)))\<rparr>
                    else st) [0..<PSTOP_MAX_MACHINES] st
         in st\<lparr>sampler_done_ms := (sampler_done_ms st)(channel := ucast (te_uptime E)),
               sampler_gen := (sampler_gen st)(channel := gen)\<rparr>))"

definition samplers_published :: "u32 \<Rightarrow> lockstep \<Rightarrow> bool" where
  "samplers_published gen st \<longleftrightarrow> list_all (\<lambda>c. sampler_gen st c = gen) [0..<ESTOP_CHANNELS]"

section \<open>Attribution\<close>

text \<open>\<open>memcmp\<close> over the frame, and the scan for the first byte that differs.\<close>

definition frames_differ :: "bytes \<Rightarrow> bytes \<Rightarrow> bool" where
  "frames_differ a b \<longleftrightarrow> list_ex (\<lambda>i. a ! i \<noteq> b ! i) [0..<PSTOP_MESSAGE_SIZE]"

function scan_offset :: "bytes \<Rightarrow> bytes \<Rightarrow> nat \<Rightarrow> nat" where
  "scan_offset a b offset =
     (if offset < PSTOP_MESSAGE_SIZE \<and> a ! offset = b ! offset
      then scan_offset a b (Suc offset) else offset)"
  by pat_completeness auto
termination by (relation "measure (\<lambda>(a, b, offset). PSTOP_MESSAGE_SIZE - offset)") auto

declare scan_offset.simps [simp del]

definition record_mismatch :: "tick_env \<Rightarrow> nat \<Rightarrow> lockstep \<Rightarrow> lockstep" where
  "record_mismatch E slot st =
     st\<lparr>diag := (diag st)
        \<lparr>mismatch_slot := of_nat slot,
         mismatch_offset := of_nat (scan_offset (frames st 0 slot) (frames st 1 slot) 0),
         mismatch_verdict := (\<lambda>c. if c < 2 then sampler_verdict st c
                                  else mismatch_verdict (diag st) c),
         mismatch_uptime_ms := te_uptime E,
         last_kind := PSTOP_LOCKSTEP_EVENT_CONTENT\<rparr>\<rparr>"

definition record_late :: "tick_env \<Rightarrow> u8 \<Rightarrow> u32 \<Rightarrow> lockstep \<Rightarrow> lockstep" where
  "record_late E late by_ms st =
     st\<lparr>diag := (diag st)\<lparr>late_mask := late, late_by_ms := by_ms,
        late_uptime_ms := te_uptime E, last_kind := PSTOP_LOCKSTEP_EVENT_TIMEOUT\<rparr>\<rparr>"

definition record_latency :: "nat \<Rightarrow> u32 \<Rightarrow> lockstep \<Rightarrow> lockstep" where
  "record_latency channel latency_ms st =
     (if latency_ms > latency_max_ms (diag st) channel
      then st\<lparr>diag := (diag st)
             \<lparr>latency_max_ms := (latency_max_ms (diag st))(channel := latency_ms)\<rparr>\<rparr>
      else st)"

section \<open>Comparing and sending\<close>

definition due_slots :: "lockstep \<Rightarrow> nat list" where
  "due_slots st = filter (\<lambda>slot. slot_active st slot \<and> tick_due st slot) [0..<PSTOP_MAX_MACHINES]"

definition send_slot :: "tick_env \<Rightarrow> nat \<Rightarrow> lk_out list \<times> lockstep \<Rightarrow> lk_out list \<times> lockstep" where
  "send_slot E slot acc =
     (case acc of (outs, st) \<Rightarrow>
        if slot_active st slot \<and> tick_due st slot
        then (outs @ [Tx slot (frames st 0 slot)],
              st\<lparr>sessions := (sessions st)(slot := snd (pstop_session_commit_send
                   (sessions st slot) (fst (te_sendto E slot)) (snd (te_sendto E slot))
                   (tick_now_ms st)))\<rparr>)
        else (outs, st))"

text \<open>The first loop, which leaves at the first slot whose encodings disagree.\<close>

definition first_mismatch :: "lockstep \<Rightarrow> nat option" where
  "first_mismatch st =
     find (\<lambda>slot. slot_active st slot \<and> tick_due st slot \<and>
             frames_differ (frames st 0 slot) (frames st 1 slot)) [0..<PSTOP_MAX_MACHINES]"

definition comparator_pass :: "tick_env \<Rightarrow> lockstep \<Rightarrow> lk_out list \<times> lockstep" where
  "comparator_pass E st =
     (if \<not> estop_channels_primed (estop st)
      then ([], st\<lparr>gated_ticks := gated_ticks st + 1\<rparr>)
      else case first_mismatch st of
        Some slot \<Rightarrow>
          (let st = record_mismatch E slot st in ([], st\<lparr>mismatches := mismatches st + 1\<rparr>))
      | None \<Rightarrow> fold (send_slot E) [0..<PSTOP_MAX_MACHINES] ([], st))"

section \<open>A tick\<close>

definition begin_tick :: "'m pstop_lib \<Rightarrow> tick_env \<Rightarrow> u64 \<Rightarrow> lockstep \<Rightarrow> u32 \<times> lockstep" where
  "begin_tick L E now_ms st =
     (let reconfigure = reconfigure_requests st;
          rebond = rebond_requests st;
          st = st\<lparr>reconfigure_requests := 0, rebond_requests := 0\<rparr>;
          st = fold (\<lambda>slot st. if bit reconfigure slot \<and> te_log_inf E
                               then snd (slot_apply_config L E slot st) else st)
                 [0..<PSTOP_MAX_MACHINES] st;
          st = fold (\<lambda>slot st. if slot_active st slot \<and> bit rebond slot
                               then st\<lparr>sessions := (sessions st)(slot :=
                                      pstop_session_rebond L (sessions st slot))\<rparr> else st)
                 [0..<PSTOP_MAX_MACHINES] st;
          st = st\<lparr>tick_now_ms := now_ms,
                  tick_role := (if cfg_is_operator (te_cfg E) then PSTOP_AUX_ROLE_OPERATOR
                                else PSTOP_AUX_ROLE_STOP_ONLY)\<rparr>;
          st = fold (\<lambda>slot st. st\<lparr>tick_due := (tick_due st)(slot :=
                      slot_active st slot \<and> pstop_session_due (sessions st slot) now_ms)\<rparr>)
                 [0..<PSTOP_MAX_MACHINES] st;
          gen = tick_gen st + 1
      in (gen, st\<lparr>tick_gen := gen\<rparr>))"

definition close_slot :: "'m pstop_lib \<Rightarrow> tick_env \<Rightarrow> u64 \<Rightarrow> nat \<Rightarrow> lockstep \<Rightarrow> lockstep" where
  "close_slot L E now_ms slot st =
     (if slot_active st slot
      then st\<lparr>sessions := (sessions st)(slot := pstop_session_watchdog L
             (snd (pstop_session_poll L now_ms (te_inbox E slot) (sessions st slot))) now_ms)\<rparr>
      else st)"

definition run_tick_body ::
  "'m pstop_lib \<Rightarrow> tick_env \<Rightarrow> u64 \<Rightarrow> u32 \<Rightarrow> u8 \<Rightarrow> u32 \<Rightarrow> lockstep \<Rightarrow> lk_out list \<times> lockstep" where
  "run_tick_body L E now_ms gen late by_ms st =
     (let late = fold (\<lambda>c m. if sampler_gen st c \<noteq> gen then m OR push_bit c 1 else m)
                   [0..<ESTOP_CHANNELS] late;
          (outs, st) =
            (if late = 0 \<and> samplers_published gen st
             then (case comparator_pass E st of (outs, st) \<Rightarrow>
                     (outs @ (if tick_observer st \<and> estop_channels_primed (estop st)
                              then [Observed gen (sampler_verdict st 0) (sampler_verdict st 1)]
                              else []), st))
             else ([], record_late E late by_ms
                         (st\<lparr>missed_deadlines := missed_deadlines st + 1\<rparr>)))
      in (outs, fold (close_slot L E now_ms) [0..<PSTOP_MAX_MACHINES] st))"

definition tick_sync ::
  "'m pstop_lib \<Rightarrow> tick_env \<Rightarrow> u64 \<Rightarrow> u8 \<Rightarrow> lockstep \<Rightarrow> lk_out list \<times> lockstep" where
  "tick_sync L E now_ms late st =
     (case begin_tick L E now_ms st of (gen, st) \<Rightarrow>
        run_tick_body L E now_ms gen late 0
          (fold (\<lambda>c st. sampler_pass L E c gen st) [0..<ESTOP_CHANNELS] st))"

definition pstop_lockstep_tick ::
  "'m pstop_lib \<Rightarrow> tick_env \<Rightarrow> u64 \<Rightarrow> lockstep \<Rightarrow> lk_out list \<times> lockstep" where
  "pstop_lockstep_tick L E now_ms st = tick_sync L E now_ms 0 st"

section \<open>Requests and queries\<close>

definition slot_in_range :: "int \<Rightarrow> bool" where
  "slot_in_range slot \<longleftrightarrow> 0 \<le> slot \<and> slot < int PSTOP_MAX_MACHINES"

definition pstop_lockstep_set_tick_observer :: "bool \<Rightarrow> lockstep \<Rightarrow> lockstep" where
  "pstop_lockstep_set_tick_observer fn st = st\<lparr>tick_observer := fn\<rparr>"

definition pstop_lockstep_session :: "lockstep \<Rightarrow> int \<Rightarrow> pstop_session option" where
  "pstop_lockstep_session st slot =
     (if slot < 0 \<or> int PSTOP_MAX_MACHINES \<le> slot then None else Some (sessions st (nat slot)))"

definition pstop_lockstep_mismatches :: "lockstep \<Rightarrow> u32" where
  "pstop_lockstep_mismatches st = mismatches st"

definition pstop_lockstep_gated_ticks :: "lockstep \<Rightarrow> u32" where
  "pstop_lockstep_gated_ticks st = gated_ticks st"

definition pstop_lockstep_missed_deadlines :: "lockstep \<Rightarrow> u32" where
  "pstop_lockstep_missed_deadlines st = missed_deadlines st"

definition pstop_lockstep_diag_get :: "lockstep \<Rightarrow> pstop_lockstep_diag" where
  "pstop_lockstep_diag_get st = diag st"

definition pstop_lockstep_request_reconfigure :: "int \<Rightarrow> lockstep \<Rightarrow> int \<times> lockstep" where
  "pstop_lockstep_request_reconfigure slot st =
     (if slot < 0 \<or> int PSTOP_MAX_MACHINES \<le> slot then (- EINVAL, st)
      else (0, st\<lparr>reconfigure_requests := reconfigure_requests st OR push_bit (nat slot) 1\<rparr>))"

definition pstop_lockstep_slot_active :: "lockstep \<Rightarrow> int \<Rightarrow> bool" where
  "pstop_lockstep_slot_active st slot \<longleftrightarrow>
     0 \<le> slot \<and> slot < int PSTOP_MAX_MACHINES \<and> slot_active st (nat slot)"

definition pstop_lockstep_loop_health :: "lockstep \<Rightarrow> int \<Rightarrow> bool \<times> bool" where
  "pstop_lockstep_loop_health st channel =
     (if channel < 0 \<or> int ESTOP_CHANNELS \<le> channel then (False, False)
      else (high_ok (estop st (nat channel)), low_ok (estop st (nat channel))))"

definition pstop_lockstep_last_verdict :: "'m pstop_lib \<Rightarrow> lockstep \<Rightarrow> int \<Rightarrow> u8" where
  "pstop_lockstep_last_verdict L st channel =
     (if channel < 0 \<or> int ESTOP_CHANNELS \<le> channel then MSG_STOP L
      else sampler_verdict st (nat channel))"

definition pstop_lockstep_request_rebond :: "int \<Rightarrow> lockstep \<Rightarrow> int \<times> lockstep" where
  "pstop_lockstep_request_rebond slot st =
     (if slot < 0 \<or> int PSTOP_MAX_MACHINES \<le> slot then (- EINVAL, st)
      else (0, st\<lparr>rebond_requests := rebond_requests st OR push_bit (nat slot) 1\<rparr>))"

section \<open>The threads\<close>

text \<open>
  One turn of a sampler's loop: it runs when its semaphore was given, reads the generation
  in flight, and signals completion.
\<close>

definition sampler_thread :: "'m pstop_lib \<Rightarrow> tick_env \<Rightarrow> nat \<Rightarrow> lockstep \<Rightarrow> lockstep" where
  "sampler_thread L E channel st =
     (if go_sem st channel
      then (let st = st\<lparr>go_sem := (go_sem st)(channel := False)\<rparr>;
                st = sampler_pass L E channel (tick_gen st) st
            in st\<lparr>done_sem := (done_sem st)(channel := True)\<rparr>)
      else st)"

text \<open>
  The stretches of the comparator's loop between its waits. At \<open>AtTake c\<close> the wait for
  sampler \<open>c\<close> ends: with success if its completion is pending, with the timeout otherwise.
\<close>

definition comparator_begin :: "'m pstop_lib \<Rightarrow> tick_env \<Rightarrow> lockstep \<Rightarrow> lockstep" where
  "comparator_begin L E st =
     (let now_ms = te_uptime E;
          st = st\<lparr>cmp_next := cmp_next st + PSTOP_TICK_MS\<rparr>;
          (gen, st) = begin_tick L E now_ms st;
          st = fold (\<lambda>c st. st\<lparr>done_sem := (done_sem st)(c := False)\<rparr>) [0..<ESTOP_CHANNELS] st;
          st = fold (\<lambda>c st. st\<lparr>go_sem := (go_sem st)(c := True)\<rparr>) [0..<ESTOP_CHANNELS] st
      in st\<lparr>cmp_at := AtTake 0 \<lparr>c_now_ms = now_ms, c_gen = gen,
              c_deadline = sint now_ms + PSTOP_SAMPLER_DEADLINE_MS, c_late_mask = 0\<rparr>\<rparr>)"

definition comparator_take :: "nat \<Rightarrow> cmp_locals \<Rightarrow> lockstep \<Rightarrow> lockstep" where
  "comparator_take c l st =
     (let (l, st) =
        (if done_sem st c
         then (l, record_latency c (sampler_done_ms st c - ucast (c_now_ms l))
                    (st\<lparr>done_sem := (done_sem st)(c := False)\<rparr>))
         else (l\<lparr>c_late_mask := c_late_mask l OR push_bit c 1\<rparr>, st))
      in st\<lparr>cmp_at := (if Suc c < ESTOP_CHANNELS then AtTake (Suc c) l else AtBody l)\<rparr>)"

definition comparator_finish ::
  "'m pstop_lib \<Rightarrow> tick_env \<Rightarrow> cmp_locals \<Rightarrow> lockstep \<Rightarrow> lk_out list \<times> lockstep" where
  "comparator_finish L E l st =
     (let over = sint (te_uptime E) - c_deadline l;
          by_ms = (if c_late_mask l \<noteq> 0 \<and> over > 0 then word_of_int over else 0);
          (outs, st) = run_tick_body L E (c_now_ms l) (c_gen l) (c_late_mask l) by_ms st
      in (outs, st\<lparr>cmp_at := AtTop\<rparr>))"

definition comparator_thread ::
  "'m pstop_lib \<Rightarrow> tick_env \<Rightarrow> lockstep \<Rightarrow> lk_out list \<times> lockstep" where
  "comparator_thread L E st =
     (case cmp_at st of
        AtTop \<Rightarrow> ([], comparator_begin L E st)
      | AtTake c l \<Rightarrow> ([], comparator_take c l st)
      | AtBody l \<Rightarrow> comparator_finish L E l st)"

text \<open>
  Starting creates both samplers, waiting for their first go, and the comparator at the top
  of its loop, with the uptime at its creation as the base of its schedule.
\<close>

definition pstop_lockstep_start :: "int \<Rightarrow> lockstep \<Rightarrow> int \<times> lockstep" where
  "pstop_lockstep_start uptime st = (0, st\<lparr>cmp_at := AtTop, cmp_next := uptime\<rparr>)"

text \<open>
  The whole: any interleaving of the comparator, the two samplers and the requests other
  threads make.
\<close>

datatype lk_event =
    Comparator tick_env
  | Sampler nat tick_env
  | RequestRebond int
  | RequestReconfigure int

fun lk_step :: "'m pstop_lib \<Rightarrow> lk_event \<Rightarrow> lockstep \<Rightarrow> lk_out list \<times> lockstep" where
  "lk_step L (Comparator E) st = comparator_thread L E st"
| "lk_step L (Sampler c E) st = ([], if c < ESTOP_CHANNELS then sampler_thread L E c st else st)"
| "lk_step L (RequestRebond slot) st = ([], snd (pstop_lockstep_request_rebond slot st))"
| "lk_step L (RequestReconfigure slot) st = ([], snd (pstop_lockstep_request_reconfigure slot st))"

end
