(* ===== verification/Health.thy ===== *)
theory Health
  imports Health_Logic Lockstep "HOL-Library.Signed_Division"
begin

text \<open>
  The lifetime counters with their locking, persistence and warning board
  (\<open>protective_stop/src/health.c\<close> and \<open>health.h\<close>). The static variables are the record
  \<open>health\<close>; the mutex makes each operation one step. What the settings store returned for a
  save, the uptime and the stored items are inputs; a successful save is the output of the
  operation. The two deltas belong to the comparator's observer and are folded in later.
\<close>

section \<open>State\<close>

record health =
  h_counters :: health_counters
  h_board :: health_board
  h_dirty :: bool
  h_uptime_at_boot_s :: u32
  h_last_flush_ms :: int
  h_flushes :: u32
  h_flush_fails :: u32
  h_edge :: health_edge
  h_press_delta :: u32
  h_mismatch_delta :: u32
  h_loaded_blob :: bytes
  h_loaded :: bool

text \<open>The Kconfig values, with the defaults the sources give.\<close>

record health_cfg =
  BUTTON_RATED_OPS :: u32
  BUTTON_WARN_PCT :: u32
  MISMATCH_WARN_MIN :: u32
  MISMATCH_WARN_PER_1000 :: u32
  HEALTH_FLUSH_MIN_S :: u32
  HEALTH_FLUSH_MAX_S :: u32

definition health_cfg_default :: health_cfg where
  "health_cfg_default = \<lparr>BUTTON_RATED_OPS = 100000, BUTTON_WARN_PCT = 80, MISMATCH_WARN_MIN = 50,
     MISMATCH_WARN_PER_1000 = 20, HEALTH_FLUSH_MIN_S = 60, HEALTH_FLUSH_MAX_S = 600\<rparr>"

definition health_zero :: health where
  "health_zero = \<lparr>h_counters = counters_zero, h_board = board_zero, h_dirty = False,
     h_uptime_at_boot_s = 0, h_last_flush_ms = 0, h_flushes = 0, h_flush_fails = 0,
     h_edge = edge_zero, h_press_delta = 0, h_mismatch_delta = 0,
     h_loaded_blob = replicate HEALTH_BLOB_LEN 0, h_loaded = False\<rparr>"

section \<open>Loading and identity\<close>

definition health_settings_set ::
  "(string \<Rightarrow> string \<Rightarrow> bool \<times> string option) \<Rightarrow> item \<Rightarrow> health \<Rightarrow> int \<times> health" where
  "health_settings_set steq it st =
     (case it of (name, len, rd) \<Rightarrow>
      if steq name ''counters'' = (True, None)
      then (if len \<noteq> HEALTH_BLOB_LEN then (- EINVAL, st)
            else case rd of None \<Rightarrow> (- EIO, st)
                 | Some b \<Rightarrow> (0, st\<lparr>h_loaded_blob := b, h_loaded := True\<rparr>))
      else (- ENOENT, st))"

text \<open>FNV-1a over the version and build string, most significant byte first.\<close>

definition fnv1a :: "string \<Rightarrow> u64" where
  "fnv1a s = fold (\<lambda>c h. (h XOR of_nat (of_char c)) * 0x100000001B3) s 0xCBF29CE484222325"

definition fw_identity :: "string \<Rightarrow> bytes" where
  "fw_identity s = map (\<lambda>i. ucast (drop_bit (56 - 8 * i) (fnv1a s))) [0..<8]"

section \<open>Operations\<close>

definition observe :: "u8 \<Rightarrow> u32 \<Rightarrow> u8 \<Rightarrow> u8 \<Rightarrow> health \<Rightarrow> health" where
  "observe stop tick verdict0 verdict1 st =
     (let st = st\<lparr>h_edge := snd (health_edge_step (h_edge st) 0 tick verdict0 stop)\<rparr>;
          (e, ed) = health_edge_step (h_edge st) 1 tick verdict1 stop;
          st = st\<lparr>h_edge := ed\<rparr>;
          st = (if press e then st\<lparr>h_press_delta := h_press_delta st + 1\<rparr> else st)
      in if mismatch e then st\<lparr>h_mismatch_delta := h_mismatch_delta st + 1\<rparr> else st)"

definition uptime_s :: "int \<Rightarrow> u32" where
  "uptime_s now = word_of_int (now sdiv 1000)"

definition fold_locked :: "int \<Rightarrow> health \<Rightarrow> health" where
  "fold_locked now st =
     (let p = h_press_delta st;
          m = h_mismatch_delta st;
          st = st\<lparr>h_press_delta := 0, h_mismatch_delta := 0\<rparr>;
          st = (if p \<noteq> 0 \<or> m \<noteq> 0
                then st\<lparr>h_counters := (h_counters st)\<lparr>hc_presses := hc_presses (h_counters st) + p,
                          hc_mismatch_events := hc_mismatch_events (h_counters st) + m\<rparr>,
                        h_dirty := True\<rparr>
                else st)
      in st\<lparr>h_counters := (h_counters st)\<lparr>hc_uptime_s := h_uptime_at_boot_s st + uptime_s now\<rparr>\<rparr>)"

definition flush_locked :: "int \<Rightarrow> int \<Rightarrow> health \<Rightarrow> int \<times> bytes list \<times> health" where
  "flush_locked now save_ret st =
     (let st = fold_locked now st;
          blob = health_encode (h_counters st);
          st = st\<lparr>h_last_flush_ms := now\<rparr>
      in if save_ret \<noteq> 0
         then (save_ret, [], st\<lparr>h_flush_fails := h_flush_fails st + 1\<rparr>)
         else (0, [blob], st\<lparr>h_flushes := h_flushes st + 1, h_dirty := False\<rparr>))"

definition evaluate_locked :: "health_cfg \<Rightarrow> int \<Rightarrow> health \<Rightarrow> health" where
  "evaluate_locked K now st =
     (let c = h_counters st;
          (level, pct) = health_button_level (hc_presses c) (BUTTON_RATED_OPS K) (BUTTON_WARN_PCT K);
          msg = take 63 (dec_text (unat pct) @ ''% of rated '' @ dec_text (unat (BUTTON_RATED_OPS K)) @ '' ops'');
          b = snd (health_board_publish (h_board st) ''button_wear'' level msg (word_of_int now));
          level = health_mismatch_level (hc_mismatch_events c) (hc_presses c) (MISMATCH_WARN_MIN K)
                    (MISMATCH_WARN_PER_1000 K);
          msg = take 63 (dec_text (unat (hc_mismatch_events c)) @ '' loop mismatches in '' @
                  dec_text (unat (hc_presses c)) @ '' presses'')
      in st\<lparr>h_board := snd (health_board_publish b ''loop_mismatch'' level msg (word_of_int now))\<rparr>)"

text \<open>\<open>settings_load_subtree\<close> hands the stored items to the handler in turn and returns \<open>load_ret\<close>.\<close>

definition health_init ::
  "health_cfg \<Rightarrow> (string \<Rightarrow> string \<Rightarrow> bool \<times> string option) \<Rightarrow> item list \<Rightarrow> string \<Rightarrow> int \<Rightarrow> int \<Rightarrow>
     health \<Rightarrow> int \<times> bytes list \<times> health" where
  "health_init K steq items fw_id now save_ret st =
     (let st = st\<lparr>h_counters := counters_zero, h_board := board_zero, h_edge := edge_zero,
                 h_press_delta := 0, h_mismatch_delta := 0, h_flushes := 0, h_flush_fails := 0,
                 h_loaded := False\<rparr>;
          st = fold (\<lambda>it st. snd (health_settings_set steq it st)) items st;
          st = (if h_loaded st
                then (case health_decode (Some (h_loaded_blob st)) HEALTH_BLOB_LEN of
                        Some c \<Rightarrow> st\<lparr>h_counters := c\<rparr>
                      | None \<Rightarrow> st\<lparr>h_counters := counters_zero\<rparr>)
                else st);
          c = h_counters st;
          c = c\<lparr>hc_boots := hc_boots c + 1\<rparr>;
          fw = fw_identity fw_id;
          c = (if fw \<noteq> hc_fw_sha c
               then c\<lparr>hc_flashes := hc_flashes c + 1, hc_fw_sha := fw\<rparr> else c);
          st = st\<lparr>h_counters := c, h_uptime_at_boot_s := hc_uptime_s c - uptime_s now\<rparr>
      in flush_locked now save_ret (evaluate_locked K now st))"

definition health_poll :: "health_cfg \<Rightarrow> int \<Rightarrow> int \<Rightarrow> health \<Rightarrow> bytes list \<times> health" where
  "health_poll K now save_ret st =
     (let st = evaluate_locked K now (fold_locked now st)
      in if health_flush_due (h_dirty st) (word_of_int ((now - h_last_flush_ms st) sdiv 1000))
              (HEALTH_FLUSH_MIN_S K) (HEALTH_FLUSH_MAX_S K)
         then snd (flush_locked now save_ret st) else ([], st))"

definition health_flush :: "int \<Rightarrow> int \<Rightarrow> health \<Rightarrow> int \<times> bytes list \<times> health" where
  "health_flush now save_ret st = flush_locked now save_ret st"

definition health_publish :: "string \<Rightarrow> int \<Rightarrow> string \<Rightarrow> int \<Rightarrow> health \<Rightarrow> int \<times> health" where
  "health_publish src level msg now st =
     (case health_board_publish (h_board st) src level msg (word_of_int now) of
        (ret, b) \<Rightarrow> (ret, st\<lparr>h_board := b\<rparr>))"

definition health_level :: "health \<Rightarrow> int" where
  "health_level st = health_board_level (h_board st)"

record health_snapshot =
  hs_counters :: health_counters
  hs_level :: int
  hs_button_rated_ops :: u32
  hs_button_wear_pct :: u32
  hs_flushes :: u32
  hs_flush_fails :: u32
  hs_last_flush_age_s :: u32
  hs_board :: health_board

definition health_snapshot_get :: "health_cfg \<Rightarrow> int \<Rightarrow> health \<Rightarrow> health_snapshot \<times> health" where
  "health_snapshot_get K now st =
     (let st = fold_locked now st
      in (\<lparr>hs_counters = h_counters st, hs_level = health_board_level (h_board st),
           hs_button_rated_ops = BUTTON_RATED_OPS K,
           hs_button_wear_pct = snd (health_button_level (hc_presses (h_counters st))
              (BUTTON_RATED_OPS K) (BUTTON_WARN_PCT K)),
           hs_flushes = h_flushes st, hs_flush_fails = h_flush_fails st,
           hs_last_flush_age_s = word_of_int ((now - h_last_flush_ms st) sdiv 1000),
           hs_board = h_board st\<rparr>, st))"

definition health_reset_button ::
  "health_cfg \<Rightarrow> int \<Rightarrow> int \<Rightarrow> health \<Rightarrow> int \<times> bytes list \<times> health" where
  "health_reset_button K now save_ret st =
     (let st = fold_locked now st;
          c = h_counters st;
          st = st\<lparr>h_counters := c\<lparr>hc_presses := 0, hc_mismatch_events := 0,
                  hc_button_swaps := (if hc_button_swaps c < 255 then hc_button_swaps c + 1
                                      else hc_button_swaps c)\<rparr>\<rparr>
      in flush_locked now save_ret (evaluate_locked K now st))"

definition health_reset_all ::
  "health_cfg \<Rightarrow> string \<Rightarrow> int \<Rightarrow> int \<Rightarrow> health \<Rightarrow> int \<times> bytes list \<times> health" where
  "health_reset_all K fw_id now save_ret st =
     (let st = st\<lparr>h_press_delta := 0, h_mismatch_delta := 0,
                 h_counters := counters_zero\<lparr>hc_fw_sha := fw_identity fw_id\<rparr>,
                 h_uptime_at_boot_s := 0 - uptime_s now\<rparr>
      in flush_locked now save_ret (evaluate_locked K now st))"

section \<open>What each operation does to the totals\<close>

definition total_presses :: "health \<Rightarrow> u32" where
  "total_presses st = hc_presses (h_counters st) + h_press_delta st"

definition total_mismatches :: "health \<Rightarrow> u32" where
  "total_mismatches st = hc_mismatch_events (h_counters st) + h_mismatch_delta st"

lemma fold_locked_effect:
  "total_presses (fold_locked now st) = total_presses st"
  "total_mismatches (fold_locked now st) = total_mismatches st"
  "hc_presses (h_counters (fold_locked now st)) = total_presses st"
  "hc_mismatch_events (h_counters (fold_locked now st)) = total_mismatches st"
  "h_press_delta (fold_locked now st) = 0" "h_mismatch_delta (fold_locked now st) = 0"
  "h_edge (fold_locked now st) = h_edge st" "h_board (fold_locked now st) = h_board st"
  "hc_uptime_s (h_counters (fold_locked now st)) = h_uptime_at_boot_s st + uptime_s now"
  "hc_boots (h_counters (fold_locked now st)) = hc_boots (h_counters st)"
  "hc_flashes (h_counters (fold_locked now st)) = hc_flashes (h_counters st)"
  "hc_otas (h_counters (fold_locked now st)) = hc_otas (h_counters st)"
  "hc_fw_sha (h_counters (fold_locked now st)) = hc_fw_sha (h_counters st)"
  "hc_button_swaps (h_counters (fold_locked now st)) = hc_button_swaps (h_counters st)"
  "h_uptime_at_boot_s (fold_locked now st) = h_uptime_at_boot_s st"
  by (simp_all add: fold_locked_def total_presses_def total_mismatches_def Let_def)

lemma flush_locked_state:
  "fst (snd (flush_locked now ret st)) = (if ret = 0 then [health_encode (h_counters (fold_locked now st))] else [])"
  "h_counters (snd (snd (flush_locked now ret st))) = h_counters (fold_locked now st)"
  "h_press_delta (snd (snd (flush_locked now ret st))) = 0"
  "h_mismatch_delta (snd (snd (flush_locked now ret st))) = 0"
  "h_edge (snd (snd (flush_locked now ret st))) = h_edge st"
  "h_board (snd (snd (flush_locked now ret st))) = h_board st"
  "h_uptime_at_boot_s (snd (snd (flush_locked now ret st))) = h_uptime_at_boot_s st"
  by (simp_all add: flush_locked_def Let_def fold_locked_effect)

lemma evaluate_frame:
  "h_counters (evaluate_locked K now st) = h_counters st"
  "h_press_delta (evaluate_locked K now st) = h_press_delta st"
  "h_mismatch_delta (evaluate_locked K now st) = h_mismatch_delta st"
  "h_edge (evaluate_locked K now st) = h_edge st"
  "h_uptime_at_boot_s (evaluate_locked K now st) = h_uptime_at_boot_s st"
  by (simp_all add: evaluate_locked_def Let_def split: prod.split)

section \<open>Every press counts once\<close>

datatype health_op =
    Observe u32 u8 u8
  | Poll int int
  | Flush int int
  | Publish string int string int
  | Snapshot int
  | Reset_button int int
  | Reset_all string int int

fun health_apply :: "health_cfg \<Rightarrow> u8 \<Rightarrow> health_op \<Rightarrow> health \<Rightarrow> health" where
  "health_apply K stop (Observe t v0 v1) st = observe stop t v0 v1 st"
| "health_apply K stop (Poll now ret) st = snd (health_poll K now ret st)"
| "health_apply K stop (Flush now ret) st = snd (snd (health_flush now ret st))"
| "health_apply K stop (Publish src level msg now) st = snd (health_publish src level msg now st)"
| "health_apply K stop (Snapshot now) st = snd (health_snapshot_get K now st)"
| "health_apply K stop (Reset_button now ret) st = snd (snd (health_reset_button K now ret st))"
| "health_apply K stop (Reset_all fw now ret) st = snd (snd (health_reset_all K fw now ret st))"

fun observed :: "health_op list \<Rightarrow> (u32 \<times> u8 \<times> u8) list" where
  "observed [] = []"
| "observed (Observe t v0 v1 # ops) = (t, v0, v1) # observed ops"
| "observed (_ # ops) = observed ops"

text \<open>
  The two resets start the counts again. A run is cut at its last reset: the operations
  up to it, and those since.
\<close>

fun is_reset :: "health_op \<Rightarrow> bool" where
  "is_reset (Reset_button now ret) \<longleftrightarrow> True"
| "is_reset (Reset_all fw now ret) \<longleftrightarrow> True"
| "is_reset _ \<longleftrightarrow> False"

definition until_reset :: "health_op list \<Rightarrow> health_op list" where
  "until_reset ops = rev (dropWhile (\<lambda>op. \<not> is_reset op) (rev ops))"

definition since_reset :: "health_op list \<Rightarrow> health_op list" where
  "since_reset ops = rev (takeWhile (\<lambda>op. \<not> is_reset op) (rev ops))"

text \<open>The last tick observed, if any was.\<close>

definition last_seen :: "health_op list \<Rightarrow> (u32 \<times> u8 \<times> u8) option" where
  "last_seen ops = (if observed ops = [] then None else Some (last (observed ops)))"

text \<open>Rising edges of a sequence, the first element being a baseline.\<close>

fun rises :: "bool option \<Rightarrow> bool list \<Rightarrow> nat" where
  "rises _ [] = 0"
| "rises None (b # bs) = rises (Some b) bs"
| "rises (Some a) (b # bs) = (if \<not> a \<and> b then 1 else 0) + rises (Some b) bs"

fun both_stop :: "u8 \<Rightarrow> u32 \<times> u8 \<times> u8 \<Rightarrow> bool" where
  "both_stop stop (t, v0, v1) \<longleftrightarrow> v0 = stop \<and> v1 = stop"

fun one_stop :: "u8 \<Rightarrow> u32 \<times> u8 \<times> u8 \<Rightarrow> bool" where
  "one_stop stop (t, v0, v1) \<longleftrightarrow> (v0 = stop) \<noteq> (v1 = stop)"

text \<open>The detector has seen nothing, or remembers the last observation.\<close>

definition edge_after :: "u8 \<Rightarrow> (u32 \<times> u8 \<times> u8) option \<Rightarrow> health_edge \<Rightarrow> bool" where
  "edge_after stop prev ed \<longleftrightarrow>
     (case prev of None \<Rightarrow> he_seen ed = 0 \<and> \<not> he_primed ed
      | Some x \<Rightarrow> he_seen ed = 3 \<and> he_primed ed \<and> he_tick ed 1 = fst x \<and>
                  he_stop_both ed = both_stop stop x \<and> he_mismatch ed = one_stop stop x)"

lemma observe_effect:
  fixes v0 v1 stop :: u8
  assumes "edge_after stop prev (h_edge st)" and "\<forall>x. prev = Some x \<longrightarrow> fst x \<noteq> t"
  defines "st' \<equiv> observe stop t v0 v1 st"
  shows "edge_after stop (Some (t, v0, v1)) (h_edge st')"
    and "total_presses st' = total_presses st +
      of_nat (rises (map_option (both_stop stop) prev) [both_stop stop (t, v0, v1)])"
    and "total_mismatches st' = total_mismatches st +
      of_nat (rises (map_option (one_stop stop) prev) [one_stop stop (t, v0, v1)])"
proof -
  have "edge_ready (h_edge st) t"
    using assms(1,2) by (auto simp: edge_after_def edge_ready_def split: option.splits)
  note pair = edge_pair [OF this] edge_pair(7) [OF this, simplified]
  have "he_primed (h_edge st) = (prev \<noteq> None)"
    "prev = Some x \<Longrightarrow> he_stop_both (h_edge st) = both_stop stop x \<and> he_mismatch (h_edge st) = one_stop stop x" for x
    using assms(1) by (auto simp: edge_after_def split: option.splits)
  note memory = this
  have "edge_after stop (Some (t, v0, v1)) (h_edge st')"
    by (simp add: pair st'_def observe_def edge_after_def Let_def case_prod_unfold)
  moreover have "total_presses st' = total_presses st +
      of_nat (rises (map_option (both_stop stop) prev) [both_stop stop (t, v0, v1)])"
    using memory by (cases prev) (auto simp: pair st'_def observe_def Let_def case_prod_unfold
        total_presses_def)
  moreover have "total_mismatches st' = total_mismatches st +
      of_nat (rises (map_option (one_stop stop) prev) [one_stop stop (t, v0, v1)])"
    using memory by (cases prev) (auto simp: pair st'_def observe_def Let_def case_prod_unfold
        total_mismatches_def)
  ultimately show "edge_after stop (Some (t, v0, v1)) (h_edge st')"
    "total_presses st' = total_presses st +
      of_nat (rises (map_option (both_stop stop) prev) [both_stop stop (t, v0, v1)])"
    "total_mismatches st' = total_mismatches st +
      of_nat (rises (map_option (one_stop stop) prev) [one_stop stop (t, v0, v1)])"
    by simp_all
qed

lemma quiet_edge:
  assumes "observed [op] = []"
  shows "h_edge (health_apply K stop op st) = h_edge st"
  using assms
  by (cases op) (simp_all add: health_poll_def health_flush_def health_publish_def health_snapshot_get_def
      health_reset_button_def health_reset_all_def Let_def case_prod_unfold flush_locked_state evaluate_frame
      fold_locked_effect)

lemma quiet_op:
  assumes "observed [op] = []" and "\<not> is_reset op"
  shows "h_edge (health_apply K stop op st) = h_edge st \<and>
    total_presses (health_apply K stop op st) = total_presses st \<and>
    total_mismatches (health_apply K stop op st) = total_mismatches st"
  using assms
  by (cases op) (auto simp: health_poll_def health_flush_def health_publish_def health_snapshot_get_def
      Let_def case_prod_unfold flush_locked_state evaluate_frame fold_locked_effect total_presses_def
      total_mismatches_def)

lemma reset_op:
  assumes "is_reset op"
  shows "total_presses (health_apply K stop op st) = 0 \<and> total_mismatches (health_apply K stop op st) = 0"
  using assms
  by (cases op) (simp_all add: health_reset_button_def health_reset_all_def Let_def flush_locked_state
      evaluate_frame fold_locked_effect total_presses_def total_mismatches_def counters_zero_def)

lemma rises_Cons: "rises prev (b # bs) = rises prev [b] + rises (Some b) bs"
  by (cases prev) simp_all

lemma totals_run:
  assumes "edge_after stop prev (h_edge st)" and "\<not> list_ex is_reset ops"
    and "distinct_adj (case prev of None \<Rightarrow> map fst (observed ops) | Some x \<Rightarrow> fst x # map fst (observed ops))"
  shows "total_presses (fold (health_apply K stop) ops st) =
      total_presses st + of_nat (rises (map_option (both_stop stop) prev) (map (both_stop stop) (observed ops)))
    \<and> total_mismatches (fold (health_apply K stop) ops st) =
      total_mismatches st + of_nat (rises (map_option (one_stop stop) prev) (map (one_stop stop) (observed ops)))"
  using assms
proof (induction ops arbitrary: prev st)
  case Nil
  then show ?case by simp
next
  case (Cons op ops)
  show ?case
  proof (cases "observed [op] = []")
    case True
    then have obs: "observed (op # ops) = observed ops" by (cases op) simp_all
    from quiet_op [OF True, of K stop st] Cons.prems(2) have q: "h_edge (health_apply K stop op st) = h_edge st"
      "total_presses (health_apply K stop op st) = total_presses st"
      "total_mismatches (health_apply K stop op st) = total_mismatches st" by simp_all
    from Cons.IH [of prev "health_apply K stop op st"] Cons.prems q show ?thesis by (simp add: obs cong: option.case_cong)
  next
    case False
    then obtain t v0 v1 where op: "op = Observe t v0 v1" by (cases op) auto
    have fresh: "\<forall>x. prev = Some x \<longrightarrow> fst x \<noteq> t"
      using Cons.prems(3) by (auto simp: op split: option.splits)
    note eff = observe_effect [OF Cons.prems(1) fresh, of v0 v1]
    have "distinct_adj (t # map fst (observed ops))"
      using Cons.prems(3) by (auto simp: op split: option.splits)
    with Cons.IH [of "Some (t, v0, v1)" "observe stop t v0 v1 st"] eff(1) Cons.prems(2)
    have IH: "total_presses (fold (health_apply K stop) ops (observe stop t v0 v1 st)) =
        total_presses (observe stop t v0 v1 st) +
        of_nat (rises (Some (both_stop stop (t, v0, v1))) (map (both_stop stop) (observed ops)))"
      "total_mismatches (fold (health_apply K stop) ops (observe stop t v0 v1 st)) =
        total_mismatches (observe stop t v0 v1 st) +
        of_nat (rises (Some (one_stop stop (t, v0, v1))) (map (one_stop stop) (observed ops)))"
      by simp_all
    show ?thesis
      using IH eff(2,3)
        rises_Cons [of "map_option (both_stop stop) prev" "both_stop stop (t, v0, v1)" "map (both_stop stop) (observed ops)"]
        rises_Cons [of "map_option (one_stop stop) prev" "one_stop stop (t, v0, v1)" "map (one_stop stop) (observed ops)"]
      by (simp add: op)
  qed
qed

lemma edge_run:
  assumes "edge_after stop prev (h_edge st)"
    and "distinct_adj (case prev of None \<Rightarrow> map fst (observed ops) | Some x \<Rightarrow> fst x # map fst (observed ops))"
  shows "edge_after stop (if observed ops = [] then prev else Some (last (observed ops)))
    (h_edge (fold (health_apply K stop) ops st))"
  using assms
proof (induction ops arbitrary: prev st)
  case Nil
  then show ?case by simp
next
  case (Cons op ops)
  show ?case
  proof (cases "observed [op] = []")
    case True
    then have obs: "observed (op # ops) = observed ops" by (cases op) simp_all
    from Cons.IH [of prev "health_apply K stop op st"] Cons.prems quiet_edge [OF True, of K stop st]
    show ?thesis unfolding obs by simp
  next
    case False
    then obtain t v0 v1 where op: "op = Observe t v0 v1" by (cases op) auto
    have fresh: "\<forall>x. prev = Some x \<longrightarrow> fst x \<noteq> t" and rest: "distinct_adj (t # map fst (observed ops))"
      using Cons.prems(2) by (auto simp: op split: option.splits)
    from Cons.IH [of "Some (t, v0, v1)" "observe stop t v0 v1 st"]
      observe_effect(1) [OF Cons.prems(1) fresh, of v0 v1] rest
    show ?thesis by (simp add: op split: if_splits)
  qed
qed

lemma observed_append: "observed (xs @ ys) = observed xs @ observed ys"
  by (induction xs rule: observed.induct) simp_all

lemma run_cut:
  "until_reset ops @ since_reset ops = ops"
  "\<not> list_ex is_reset (since_reset ops)"
  "until_reset ops = [] \<longleftrightarrow> \<not> list_ex is_reset ops"
  "list_ex is_reset ops \<Longrightarrow> is_reset (last (until_reset ops))"
proof -
  show "until_reset ops @ since_reset ops = ops"
    unfolding until_reset_def since_reset_def rev_append [symmetric] by simp
  show "\<not> list_ex is_reset (since_reset ops)"
    by (auto simp: since_reset_def list_ex_iff dest: set_takeWhileD)
  show empty: "until_reset ops = [] \<longleftrightarrow> \<not> list_ex is_reset ops"
    by (auto simp: until_reset_def dropWhile_eq_Nil_conv list_ex_iff)
  show "list_ex is_reset ops \<Longrightarrow> is_reset (last (until_reset ops))"
    using empty hd_dropWhile [of "\<lambda>op. \<not> is_reset op" "rev ops"] by (auto simp: until_reset_def last_rev)
qed

lemma totals_after_reset:
  assumes "list_ex is_reset ops"
  shows "total_presses (fold (health_apply K stop) (until_reset ops) st) = 0 \<and>
    total_mismatches (fold (health_apply K stop) (until_reset ops) st) = 0"
proof -
  obtain pre op where cut: "until_reset ops = pre @ [op]"
    using assms run_cut(3) [of ops] by (metis rev_exhaust)
  with run_cut(4) [OF assms] reset_op [of op K stop] show ?thesis by simp
qed

text \<open>
  C14. Every press counts exactly once. Through any sequence of observed ticks (no tick
  number twice in a row), polls, flushes that succeed or fail, publishes, snapshots and the
  two resets after boot, the presses counted (live plus not yet folded) are those before,
  or none once a reset ran, plus the ticks since the last reset on which both channels went
  to STOP; the mismatches likewise those on which the channels started to disagree. The
  first tick observed since boot is only a baseline, and a reset keeps the edge memory: a
  button held down across it is not a new press, and one pressed on the next tick is.
\<close>

theorem health_counts_every_press:
  assumes "h_edge st = edge_zero" and "distinct_adj (map fst (observed ops))"
  shows "total_presses (fold (health_apply K stop) ops st) =
      (if list_ex is_reset ops then 0 else total_presses st) +
      of_nat (rises (map_option (both_stop stop) (last_seen (until_reset ops)))
        (map (both_stop stop) (observed (since_reset ops)))) \<and>
    total_mismatches (fold (health_apply K stop) ops st) =
      (if list_ex is_reset ops then 0 else total_mismatches st) +
      of_nat (rises (map_option (one_stop stop) (last_seen (until_reset ops)))
        (map (one_stop stop) (observed (since_reset ops))))"
proof -
  let ?mid = "fold (health_apply K stop) (until_reset ops) st"
  have obs: "observed ops = observed (until_reset ops) @ observed (since_reset ops)"
    using run_cut(1) [of ops] observed_append by metis
  have "edge_after stop (last_seen (until_reset ops)) (h_edge ?mid)"
    using edge_run [of stop None st "until_reset ops" K] assms
    by (simp add: obs last_seen_def edge_after_def edge_zero_def distinct_adj_append_iff cong: if_cong)
  moreover have "distinct_adj (case last_seen (until_reset ops) of None \<Rightarrow> map fst (observed (since_reset ops))
      | Some x \<Rightarrow> fst x # map fst (observed (since_reset ops)))"
    using assms(2) by (cases "observed (since_reset ops)")
      (auto simp: obs last_seen_def distinct_adj_append_iff last_map)
  ultimately have "total_presses (fold (health_apply K stop) (since_reset ops) ?mid) = total_presses ?mid +
      of_nat (rises (map_option (both_stop stop) (last_seen (until_reset ops)))
        (map (both_stop stop) (observed (since_reset ops)))) \<and>
    total_mismatches (fold (health_apply K stop) (since_reset ops) ?mid) = total_mismatches ?mid +
      of_nat (rises (map_option (one_stop stop) (last_seen (until_reset ops)))
        (map (one_stop stop) (observed (since_reset ops))))"
    by (rule totals_run [OF _ run_cut(2)])
  moreover have "fold (health_apply K stop) (since_reset ops) ?mid = fold (health_apply K stop) ops st"
    using fold_append [of "health_apply K stop" "until_reset ops" "since_reset ops"]
    by (simp add: run_cut(1))
  moreover have "total_presses ?mid = (if list_ex is_reset ops then 0 else total_presses st) \<and>
      total_mismatches ?mid = (if list_ex is_reset ops then 0 else total_mismatches st)"
    using totals_after_reset [of ops K stop st] run_cut(3) [of ops] by (cases "list_ex is_reset ops") simp_all
  ultimately show ?thesis by simp
qed

theorem health_counts_every_press_witness:
  "total_presses (fold (health_apply health_cfg_default 0x92)
     [Observe 1 0x92 0x92, Observe 2 0x55 0x55, Observe 3 0x92 0x92, Poll 300 (-5), Reset_button 400 0,
      Observe 4 0x92 0x92, Observe 5 0x92 0x55, Observe 6 0x92 0x92, Flush 500 0,
      Observe 7 0x92 0x92] health_zero) = 1"
  using health_counts_every_press [of health_zero
    "[Observe 1 0x92 0x92, Observe 2 0x55 0x55, Observe 3 0x92 0x92, Poll 300 (-5), Reset_button 400 0,
      Observe 4 0x92 0x92, Observe 5 0x92 0x55, Observe 6 0x92 0x92, Flush 500 0,
      Observe 7 0x92 0x92]" health_cfg_default "0x92"]
  by (simp add: health_zero_def) (simp add: last_seen_def until_reset_def since_reset_def)

section \<open>Across a power cycle\<close>

text \<open>
  A flushed unit loses nothing over a power cycle: booting on the blob a successful
  flush wrote, presses and mismatches (folded or not), cumulative uptime and switch swaps
  are what they were, one boot is added, and one reflash exactly when the firmware identity
  differs from the stored one.
\<close>

lemma health_survives_power_cycle:
  assumes "length (hc_fw_sha (h_counters st)) = 8"
    and "steq ''counters'' ''counters'' = (True, None)"
    and "health_flush now 0 st = (0, [blob], st1)"
  shows "let boot = h_counters (snd (snd (health_init K steq [(''counters'', 34, Some blob)] fw now2 ret2 st2)))
    in hc_presses boot = total_presses st \<and> hc_mismatch_events boot = total_mismatches st \<and>
    hc_uptime_s boot = h_uptime_at_boot_s st + uptime_s now \<and>
    hc_boots boot = hc_boots (h_counters st) + 1 \<and>
    hc_flashes boot = hc_flashes (h_counters st) +
      (if fw_identity fw = hc_fw_sha (h_counters st) then 0 else 1) \<and>
    hc_button_swaps boot = hc_button_swaps (h_counters st) \<and> hc_fw_sha boot = fw_identity fw"
proof -
  let ?c = "h_counters (fold_locked now st)"
  have blob: "blob = health_encode ?c"
    using assms(3) flush_locked_state(1) [of now 0 st] by (simp add: health_flush_def)
  have decoded: "health_decode (Some blob) 34 = Some ?c"
    unfolding blob by (rule decode_encode) (simp add: fold_locked_effect assms(1))
  define s where "s = snd (health_settings_set steq (''counters'', 34, Some blob)
    (st2\<lparr>h_counters := counters_zero, h_board := board_zero, h_edge := edge_zero,
         h_press_delta := 0, h_mismatch_delta := 0, h_flushes := 0, h_flush_fails := 0,
         h_loaded := False\<rparr>))"
  have s: "h_loaded s" "h_loaded_blob s = blob" "h_press_delta s = 0" "h_mismatch_delta s = 0"
    by (simp_all add: s_def health_settings_set_def assms(2) HEALTH_BLOB_LEN_def)
  show ?thesis
    unfolding health_init_def Let_def flush_locked_state fold_locked_effect evaluate_frame
      fold.simps o_apply id_apply s_def [symmetric]
    by (simp add: s HEALTH_BLOB_LEN_def decoded total_presses_def total_mismatches_def
        evaluate_frame fold_locked_effect)
qed

lemma health_survives_power_cycle_instance:
  "hc_presses (h_counters (snd (snd (health_init health_cfg_default (\<lambda>n k. (n = k, None))
     [(''counters'', 34, Some (health_encode (h_counters (fold_locked 9000 (health_zero\<lparr>h_press_delta := 3\<rparr>)))))]
     ''1.0'' 2000 0 health_zero)))) = 3"
proof -
  let ?st = "health_zero\<lparr>h_press_delta := 3\<rparr>"
  have "health_flush 9000 0 ?st = (0, [health_encode (h_counters (fold_locked 9000 ?st))],
      snd (snd (health_flush 9000 0 ?st)))"
    by (simp add: health_flush_def flush_locked_def Let_def)
  moreover have "length (hc_fw_sha (h_counters ?st)) = 8"
    by (simp add: health_zero_def counters_zero_def)
  ultimately show ?thesis
    using health_survives_power_cycle [of ?st "\<lambda>n k. (n = k, None)" 9000
        "health_encode (h_counters (fold_locked 9000 ?st))" "snd (snd (health_flush 9000 0 ?st))"
        health_cfg_default "''1.0''" 2000 0 health_zero]
    by (simp add: total_presses_def Let_def) (simp add: health_zero_def counters_zero_def)
qed

section \<open>The built-in warnings\<close>

lemma evaluate_reports:
  fixes K :: health_cfg and now :: int
  assumes "board_ok (h_board st)" and "Suc (hb_n (h_board st)) < 8"
  defines "b \<equiv> h_board (evaluate_locked K now st)"
  shows "level_in (board_list b) ''button_wear'' = fst (health_button_level
        (hc_presses (h_counters st)) (BUTTON_RATED_OPS K) (BUTTON_WARN_PCT K))"
    and "level_in (board_list b) ''loop_mismatch'' = health_mismatch_level
        (hc_mismatch_events (h_counters st)) (hc_presses (h_counters st)) (MISMATCH_WARN_MIN K)
        (MISMATCH_WARN_PER_1000 K)"
    and "board_ok b"
    and "src \<noteq> ''button_wear'' \<Longrightarrow> src \<noteq> ''loop_mismatch'' \<Longrightarrow>
        level_in (board_list b) src = level_in (board_list (h_board st)) src"
proof -
  have keys: "length ''button_wear'' < 16" "length ''loop_mismatch'' < 16" "''loop_mismatch'' \<noteq> ''button_wear''"
    by simp_all
  note pair = board.publish_pair [OF assms(1) keys assms(2), where i = "(_, word_of_int now)"
      and i' = "(_, word_of_int now)", unfolded prod.case]
  show "level_in (board_list b) ''button_wear'' = fst (health_button_level
        (hc_presses (h_counters st)) (BUTTON_RATED_OPS K) (BUTTON_WARN_PCT K))"
    "level_in (board_list b) ''loop_mismatch'' = health_mismatch_level
        (hc_mismatch_events (h_counters st)) (hc_presses (h_counters st)) (MISMATCH_WARN_MIN K)
        (MISMATCH_WARN_PER_1000 K)"
    "board_ok b"
    by (simp_all add: b_def evaluate_locked_def Let_def case_prod_unfold pair(1-3))
  show "level_in (board_list b) src = level_in (board_list (h_board st)) src"
    if "src \<noteq> ''button_wear''" "src \<noteq> ''loop_mismatch''"
    by (simp add: b_def evaluate_locked_def Let_def case_prod_unfold pair(4) [OF that])
qed

text \<open>
  With two entries free on a sound board, every poll leaves the board sound and saying
  exactly what the lifetime counters say: the wear warning at the level of all presses so
  far, the mismatch warning at its level, and every other source as it was.
\<close>

lemma health_poll_reports:
  assumes "board_ok (h_board st)" and "Suc (hb_n (h_board st)) < 8"
    and "src \<noteq> ''button_wear''" and "src \<noteq> ''loop_mismatch''"
  shows "let b = h_board (snd (health_poll K now ret st)) in
    level_in (board_list b) ''button_wear'' =
      fst (health_button_level (total_presses st) (BUTTON_RATED_OPS K) (BUTTON_WARN_PCT K)) \<and>
    level_in (board_list b) ''loop_mismatch'' =
      health_mismatch_level (total_mismatches st) (total_presses st) (MISMATCH_WARN_MIN K)
        (MISMATCH_WARN_PER_1000 K) \<and>
    level_in (board_list b) src = level_in (board_list (h_board st)) src \<and> board_ok b"
  using evaluate_reports [where st = "fold_locked now st" and K = K and now = now] assms
  by (simp add: fold_locked_effect health_poll_def Let_def flush_locked_state)

lemma health_poll_reports_instance:
  "level_in (board_list (h_board (snd (health_poll health_cfg_default 1000 0
      (health_zero\<lparr>h_counters := counters_zero\<lparr>hc_presses := 100000\<rparr>\<rparr>))))) ''button_wear'' = HEALTH_CRIT"
proof -
  let ?st = "health_zero\<lparr>h_counters := counters_zero\<lparr>hc_presses := 100000\<rparr>\<rparr>"
  have "board_ok (h_board ?st)" "Suc (hb_n (h_board ?st)) < 8"
    by (simp_all add: board_ok_def board_list_def board_zero_def health_zero_def)
  moreover have "fst (health_button_level (total_presses ?st) (BUTTON_RATED_OPS health_cfg_default)
      (BUTTON_WARN_PCT health_cfg_default)) = HEALTH_CRIT"
    by (simp add: total_presses_def health_zero_def health_cfg_default_def health_button_level_def
        Let_def word_le_nat_alt word_less_nat_alt)
  ultimately show ?thesis
    using health_poll_reports [of ?st "''wifi''" health_cfg_default 1000 0] by (simp add: Let_def)
qed

end
