(* ===== verification/Uplink.thy ===== *)
theory Uplink
  imports Session
begin

text \<open>
  Which network the remote is on (\<open>protective_stop/src/uplink.c\<close> and \<open>uplink.h\<close>): the
  first Ethernet and the first WiFi interface are remembered at start, and the active uplink
  is computed from them afresh at every question, Ethernet before WiFi. An interface is what
  the network stack says of it at that moment; \<open>None\<close> for the pointer stands for a build
  without the native stack, where the host's sockets are the uplink.
\<close>

section \<open>Interfaces and state\<close>

datatype uplink_kind = UPLINK_NONE | UPLINK_ETHERNET | UPLINK_WIFI | UPLINK_HOST

record uplink_status =
  up_kind :: uplink_kind
  up_ipv4 :: u32

text \<open>\<open>if_addr\<close> is the preferred global address in network byte order, if there is one.\<close>

record net_if =
  if_wifi :: bool
  if_ethernet :: bool
  if_up :: bool
  if_addr :: "u32 option"

record uplink =
  eth_iface :: "nat option"
  wifi_iface :: "nat option"

record uplink_build =
  CONFIG_NET_NATIVE :: bool
  CONFIG_WIFI :: bool
  CONFIG_NET_DHCPV4 :: bool

section \<open>Start\<close>

definition is_wifi :: "uplink_build \<Rightarrow> net_if \<Rightarrow> bool" where
  "is_wifi B iface \<longleftrightarrow> CONFIG_WIFI B \<and> if_wifi iface"

text \<open>The output is the list of interfaces on which the DHCP client is started.\<close>

definition classify :: "uplink_build \<Rightarrow> (nat \<Rightarrow> net_if) \<Rightarrow> nat \<Rightarrow> uplink \<Rightarrow> nat list \<times> uplink" where
  "classify B ifs i st =
     (let dhcp = (if CONFIG_NET_DHCPV4 B then [i] else []) in
      if is_wifi B (ifs i)
      then (dhcp, if wifi_iface st = None then st\<lparr>wifi_iface := Some i\<rparr> else st)
      else if if_ethernet (ifs i)
      then (dhcp, if eth_iface st = None then st\<lparr>eth_iface := Some i\<rparr> else st)
      else ([], st))"

definition uplink_init ::
  "uplink_build \<Rightarrow> (nat \<Rightarrow> net_if) \<Rightarrow> nat \<Rightarrow> uplink \<Rightarrow> int \<times> nat list \<times> uplink" where
  "uplink_init B ifs n st =
     (if \<not> CONFIG_NET_NATIVE B then (0, [], st)
      else (case mealy_run (classify B ifs) [0..<n] st of (dhcp, st) \<Rightarrow>
              (if eth_iface st = None \<and> wifi_iface st = None then - ENODEV else 0, dhcp, st)))"

section \<open>Questions\<close>

definition iface_ipv4 :: "(nat \<Rightarrow> net_if) \<Rightarrow> nat option \<Rightarrow> u32" where
  "iface_ipv4 ifs iface =
     (case iface of None \<Rightarrow> 0
      | Some i \<Rightarrow>
          if \<not> if_up (ifs i) then 0
          else (case if_addr (ifs i) of None \<Rightarrow> 0 | Some s_addr \<Rightarrow> htonl s_addr))"

definition uplink_ethernet_ready :: "uplink_build \<Rightarrow> (nat \<Rightarrow> net_if) \<Rightarrow> uplink \<Rightarrow> bool" where
  "uplink_ethernet_ready B ifs st \<longleftrightarrow> CONFIG_NET_NATIVE B \<and> iface_ipv4 ifs (eth_iface st) \<noteq> 0"

definition uplink_status_get :: "uplink_build \<Rightarrow> (nat \<Rightarrow> net_if) \<Rightarrow> uplink \<Rightarrow> uplink_status" where
  "uplink_status_get B ifs st =
     (if \<not> CONFIG_NET_NATIVE B then \<lparr>up_kind = UPLINK_HOST, up_ipv4 = 0x7F000001\<rparr>
      else if iface_ipv4 ifs (eth_iface st) \<noteq> 0
      then \<lparr>up_kind = UPLINK_ETHERNET, up_ipv4 = iface_ipv4 ifs (eth_iface st)\<rparr>
      else if iface_ipv4 ifs (wifi_iface st) \<noteq> 0
      then \<lparr>up_kind = UPLINK_WIFI, up_ipv4 = iface_ipv4 ifs (wifi_iface st)\<rparr>
      else \<lparr>up_kind = UPLINK_NONE, up_ipv4 = 0\<rparr>)"

definition uplink_kind_str :: "uplink_kind \<Rightarrow> string" where
  "uplink_kind_str kind = (case kind of UPLINK_ETHERNET \<Rightarrow> ''eth'' | UPLINK_WIFI \<Rightarrow> ''wifi''
     | UPLINK_HOST \<Rightarrow> ''host'' | UPLINK_NONE \<Rightarrow> ''none'')"

section \<open>Facts\<close>

text \<open>The kind and the address never disagree, and Ethernet wins whenever it has a lease.\<close>

lemma uplink_address_iff_kind:
  "up_ipv4 (uplink_status_get B ifs st) = 0 \<longleftrightarrow> up_kind (uplink_status_get B ifs st) = UPLINK_NONE"
  by (simp add: uplink_status_get_def)

lemma uplink_prefers_ethernet:
  "uplink_ethernet_ready B ifs st \<longleftrightarrow> up_kind (uplink_status_get B ifs st) = UPLINK_ETHERNET"
  by (simp add: uplink_status_get_def uplink_ethernet_ready_def)

text \<open>The interfaces remembered are the first of their sort.\<close>

lemma classify_run:
  "eth_iface (snd (mealy_run (classify B ifs) is st)) =
     (if eth_iface st \<noteq> None then eth_iface st
      else find (\<lambda>i. \<not> is_wifi B (ifs i) \<and> if_ethernet (ifs i)) is) \<and>
   wifi_iface (snd (mealy_run (classify B ifs) is st)) =
     (if wifi_iface st \<noteq> None then wifi_iface st else find (\<lambda>i. is_wifi B (ifs i)) is)"
  by (induction "is" arbitrary: st) (auto simp: classify_def Let_def)

lemma uplink_init_finds:
  assumes "CONFIG_NET_NATIVE B" and "uplink_init B ifs n \<lparr>eth_iface = None, wifi_iface = None\<rparr> = (ret, dhcp, st)"
  shows "eth_iface st = find (\<lambda>i. \<not> is_wifi B (ifs i) \<and> if_ethernet (ifs i)) [0..<n]"
    and "wifi_iface st = find (\<lambda>i. is_wifi B (ifs i)) [0..<n]"
  using assms classify_run [of B ifs "[0..<n]" "\<lparr>eth_iface = None, wifi_iface = None\<rparr>"]
  by (auto simp: uplink_init_def split: prod.splits)

end
