(* ===== verification/Wifi.thy ===== *)
theory Wifi
  imports App_Settings
begin

text \<open>
  The WiFi station's supervisor (\<open>protective_stop/src/wifi.c\<close>, the build with WiFi): a work
  item that runs every three seconds, keeps the station off while Ethernet has a lease, and
  otherwise tries the stored networks in turn. What the work item reads (the settings, the
  Ethernet lease, the driver's status, the clock, the driver's answer to a connect request)
  is the record \<open>wifi_env\<close>; what it asks of the driver is its output, with the two log lines
  that mark an observed join and an observed loss.
\<close>

section \<open>State\<close>

definition CONNECT_TIMEOUT_MS :: int where [const_simps]: "CONNECT_TIMEOUT_MS = 20000"

record wifi =
  w_active_idx :: int
  w_reload :: bool
  w_trying :: int
  w_attempt_ms :: int
  w_next_idx :: nat

definition wifi_static :: wifi where
  "wifi_static = \<lparr>w_active_idx = -1, w_reload = False, w_trying = -1, w_attempt_ms = 0, w_next_idx = 0\<rparr>"

record wifi_env =
  we_cfg :: app_settings
  we_ethernet_ready :: bool
  we_status_ret :: int
  we_state_completed :: bool
  we_connect_ret :: int
  we_now :: int

datatype wifi_security = WIFI_SECURITY_TYPE_NONE | WIFI_SECURITY_TYPE_PSK

record wifi_connect_req =
  cr_ssid :: string
  cr_ssid_length :: u8
  cr_psk :: string
  cr_psk_length :: u8
  cr_security :: wifi_security

text \<open>\<open>Connect idx req ret\<close> carries the stored network, the request and the driver's answer.\<close>

datatype wifi_out =
    Disconnect
  | Connect nat wifi_connect_req int
  | Joined int
  | Lost int

section \<open>Operations\<close>

definition connected :: "wifi_env \<Rightarrow> bool" where
  "connected E \<longleftrightarrow> we_status_ret E = 0 \<and> we_state_completed E"

definition disconnect :: "wifi \<Rightarrow> wifi_out list \<times> wifi" where
  "disconnect st = ([Disconnect], st\<lparr>w_active_idx := -1, w_trying := -1\<rparr>)"

definition connect_req :: "pstop_wifi_net \<Rightarrow> wifi_connect_req" where
  "connect_req net = \<lparr>cr_ssid = ssid net, cr_ssid_length = of_nat (length (ssid net)),
     cr_psk = pass net, cr_psk_length = of_nat (length (pass net)),
     cr_security = (if (of_nat (length (pass net)) :: u8) > 0 then WIFI_SECURITY_TYPE_PSK
                    else WIFI_SECURITY_TYPE_NONE)\<rparr>"

fun try_next_loop :: "wifi_env \<Rightarrow> nat list \<Rightarrow> wifi \<Rightarrow> wifi_out list \<times> wifi" where
  "try_next_loop E [] st = ([], st)"
| "try_next_loop E (n # ns) st =
     (let idx = (w_next_idx st + n) mod PSTOP_WIFI_MAX in
      case app_settings_wifi_get (we_cfg E) (int idx) of
        Inl _ \<Rightarrow> try_next_loop E ns st
      | Inr net \<Rightarrow>
          if ssid net = [] then try_next_loop E ns st
          else ([Connect idx (connect_req net) (we_connect_ret E)],
                st\<lparr>w_next_idx := (idx + 1) mod PSTOP_WIFI_MAX,
                   w_trying := (if we_connect_ret E \<noteq> 0 then -1 else int idx),
                   w_attempt_ms := we_now E\<rparr>))"

definition try_next :: "wifi_env \<Rightarrow> wifi \<Rightarrow> wifi_out list \<times> wifi" where
  "try_next E st = try_next_loop E [0..<PSTOP_WIFI_MAX] st"

text \<open>The three stretches of the work item: a pending reload, a link found down, and the whole pass.\<close>

definition take_reload :: "wifi \<Rightarrow> wifi_out list \<times> wifi" where
  "take_reload st =
     (if w_reload st
      then (case disconnect (st\<lparr>w_reload := False\<rparr>) of (outs, st) \<Rightarrow> (outs, st\<lparr>w_next_idx := 0\<rparr>))
      else ([], st))"

definition retry :: "wifi_env \<Rightarrow> wifi \<Rightarrow> wifi_out list \<times> wifi" where
  "retry E st =
     (if w_trying st < 0 \<or> we_now E - w_attempt_ms st > CONNECT_TIMEOUT_MS
      then (let (o1, st) = (if w_trying st \<ge> 0 then ([Disconnect], st\<lparr>w_trying := -1\<rparr>) else ([], st));
                (o2, st) = try_next E st
            in (o1 @ o2, st))
      else ([], st))"

definition link_down :: "wifi_env \<Rightarrow> wifi \<Rightarrow> wifi_out list \<times> wifi" where
  "link_down E st =
     (let (o1, st) = (if w_active_idx st \<ge> 0
                      then ([Lost (w_active_idx st)], st\<lparr>w_active_idx := -1, w_trying := -1\<rparr>)
                      else ([], st));
          (o2, st) = retry E st
      in (o1 @ o2, st))"

definition supervise :: "wifi_env \<Rightarrow> wifi \<Rightarrow> wifi_out list \<times> wifi" where
  "supervise E st =
     (let (o1, st) = take_reload st;
          (o2, st) =
        (if we_ethernet_ready E
         then (if w_active_idx st \<ge> 0 \<or> w_trying st \<ge> 0
               then (case disconnect st of (outs, st) \<Rightarrow> (outs, st\<lparr>w_next_idx := 0\<rparr>))
               else ([], st))
         else if connected E
         then (if w_trying st \<ge> 0 \<and> w_active_idx st \<noteq> w_trying st
               then ([Joined (w_trying st)], st\<lparr>w_active_idx := w_trying st\<rparr>)
               else ([], st))
         else link_down E st)
      in (o1 @ o2, st))"

definition pstop_wifi_active_idx :: "wifi \<Rightarrow> int" where
  "pstop_wifi_active_idx st = w_active_idx st"

definition pstop_wifi_reload :: "wifi \<Rightarrow> wifi" where
  "pstop_wifi_reload st = st\<lparr>w_reload := True\<rparr>"

text \<open>Starting the station needs an interface; it schedules the first pass of the supervisor.\<close>

definition pstop_wifi_start :: "bool \<Rightarrow> int \<times> bool" where
  "pstop_wifi_start have_iface = (if \<not> have_iface then (- ENODEV, False) else (0, True))"

datatype wifi_event = Supervise wifi_env | Reload

fun wifi_step :: "wifi_event \<Rightarrow> wifi \<Rightarrow> wifi_out list \<times> wifi" where
  "wifi_step (Supervise E) st = supervise E st"
| "wifi_step Reload st = ([], pstop_wifi_reload st)"

section \<open>One path at a time\<close>

text \<open>
  Whether the driver may hold an association after a list of outputs: an accepted connect
  request starts one, a disconnect or an observed loss ends it.
\<close>

fun station_after :: "wifi_out \<Rightarrow> bool \<Rightarrow> bool" where
  "station_after (Connect idx req ret) on = (if ret = 0 then True else on)"
| "station_after Disconnect on = False"
| "station_after (Lost idx) on = False"
| "station_after (Joined idx) on = on"

definition station_on :: "wifi_out list \<Rightarrow> bool" where
  "station_on outs = fold station_after outs False"

definition wifi_inv :: "bool \<Rightarrow> wifi \<Rightarrow> bool" where
  "wifi_inv on st \<longleftrightarrow> (on \<longrightarrow> w_trying st \<ge> 0 \<or> w_active_idx st \<ge> 0) \<and>
     (w_active_idx st \<ge> 0 \<longrightarrow> w_trying st \<ge> 0) \<and>
     w_active_idx st \<ge> -1 \<and> w_trying st \<ge> -1 \<and> w_next_idx st < 4"

lemma wifi_inv_static: "wifi_inv False wifi_static"
  by (simp add: wifi_inv_def wifi_static_def)

lemma try_next_loop_inv:
  assumes "wifi_inv on st" and "w_trying st < 0" and "w_active_idx st < 0"
  shows "wifi_inv (fold station_after (fst (try_next_loop E ns st)) on) (snd (try_next_loop E ns st))"
  using assms(1) assms(2-3)
  by (induction ns) (auto simp: Let_def wifi_inv_def PSTOP_WIFI_MAX_def split: sum.split)

lemma take_reload_inv:
  "wifi_inv on st \<Longrightarrow> wifi_inv (fold station_after (fst (take_reload st)) on) (snd (take_reload st))"
  by (simp add: take_reload_def disconnect_def wifi_inv_def)

lemma retry_inv:
  assumes "wifi_inv on st" and "w_active_idx st < 0"
  shows "wifi_inv (fold station_after (fst (retry E st)) on) (snd (retry E st))"
proof (cases "w_trying st \<ge> 0")
  case True
  have "wifi_inv False (st\<lparr>w_trying := -1\<rparr>)" using assms by (simp add: wifi_inv_def)
  from try_next_loop_inv [OF this, of E "[0..<PSTOP_WIFI_MAX]"] assms True show ?thesis
    by (simp add: retry_def try_next_def Let_def case_prod_unfold)
next
  case False
  with try_next_loop_inv [OF assms(1), of E "[0..<PSTOP_WIFI_MAX]"] assms show ?thesis
    by (simp add: retry_def try_next_def Let_def case_prod_unfold)
qed

lemma link_down_inv:
  assumes "wifi_inv on st"
  shows "wifi_inv (fold station_after (fst (link_down E st)) on) (snd (link_down E st))"
proof (cases "w_active_idx st \<ge> 0")
  case True
  have "wifi_inv False (st\<lparr>w_active_idx := -1, w_trying := -1\<rparr>)" using assms by (simp add: wifi_inv_def)
  from retry_inv [OF this, of E] True show ?thesis by (simp add: link_down_def Let_def case_prod_unfold)
next
  case False
  with retry_inv [OF assms, of E] show ?thesis by (simp add: link_down_def Let_def case_prod_unfold)
qed

lemma supervise_inv:
  assumes "wifi_inv on st"
  shows "wifi_inv (fold station_after (fst (supervise E st)) on) (snd (supervise E st))"
proof -
  define s1 where "s1 = snd (take_reload st)"
  define on1 where "on1 = fold station_after (fst (take_reload st)) on"
  have inv: "wifi_inv on1 s1" unfolding s1_def on1_def by (rule take_reload_inv [OF assms])
  from inv link_down_inv [OF inv, of E] show ?thesis
    by (auto simp: supervise_def Let_def case_prod_unfold s1_def [symmetric] on1_def [symmetric]
        disconnect_def wifi_inv_def)
qed

lemma wifi_step_inv:
  "wifi_inv on st \<Longrightarrow> wifi_inv (fold station_after (fst (wifi_step e st)) on) (snd (wifi_step e st))"
  by (cases e) (auto simp: supervise_inv, simp add: wifi_inv_def pstop_wifi_reload_def)

lemma wifi_run_inv:
  "wifi_inv on st \<Longrightarrow>
     wifi_inv (fold station_after (fst (mealy_run wifi_step es st)) on) (snd (mealy_run wifi_step es st))"
  by (induction es arbitrary: on st) (simp_all add: wifi_step_inv)

lemma supervise_ethernet:
  assumes "wifi_inv on st" and "we_ethernet_ready E"
  shows "w_active_idx (snd (supervise E st)) = -1 \<and> w_trying (snd (supervise E st)) = -1 \<and>
    (\<forall>idx req ret. Connect idx req ret \<notin> set (fst (supervise E st)))"
  using assms take_reload_inv [OF assms(1)]
  by (auto simp: supervise_def take_reload_def disconnect_def wifi_inv_def Let_def)

text \<open>
  Ethernet and WiFi never carry the sessions side by side. After any history of
  supervisor passes and reload requests, a pass that finds Ethernet with a lease ends with
  no network joined or being tried, asks for no connection, and leaves the driver without
  an association: the last accepted connect request was followed by a disconnect or by an
  observed loss of the link.
\<close>

lemma wifi_yields_to_ethernet:
  assumes "we_ethernet_ready E"
    and "mealy_run wifi_step (es @ [Supervise E]) wifi_static = (outs, st)"
  shows "w_active_idx st = -1 \<and> w_trying st = -1 \<and> \<not> station_on outs"
proof -
  let ?before = "mealy_run wifi_step es wifi_static"
  have inv: "wifi_inv (station_on (fst ?before)) (snd ?before)"
    unfolding station_on_def by (rule wifi_run_inv [OF wifi_inv_static])
  have outs: "outs = fst ?before @ fst (supervise E (snd ?before))" "st = snd (supervise E (snd ?before))"
    using assms(2) by (auto simp: mealy_run_append)
  have "wifi_inv (station_on outs) st"
    unfolding station_on_def outs fold_append o_def
    by (rule supervise_inv) (rule inv [unfolded station_on_def])
  with supervise_ethernet [OF inv assms(1)] outs show ?thesis by (simp add: wifi_inv_def)
qed

definition demo_net :: pstop_wifi_net where "demo_net = \<lparr>ssid = ''a'', pass = []\<rparr>"

definition demo_wifi_env :: "bool \<Rightarrow> wifi_env" where
  "demo_wifi_env eth = \<lparr>we_cfg = (settings_defaults 0)\<lparr>cfg_wifi := (\<lambda>_. demo_net)\<rparr>,
     we_ethernet_ready = eth, we_status_ret = 0, we_state_completed = False, we_connect_ret = 0,
     we_now = 0\<rparr>"

lemma demo_first_pass:
  "supervise (demo_wifi_env False) wifi_static =
     ([Connect 0 (connect_req demo_net) 0], wifi_static\<lparr>w_next_idx := 1, w_trying := 0\<rparr>)"
  by (simp add: supervise_def take_reload_def link_down_def retry_def try_next_def demo_wifi_env_def
      wifi_static_def connected_def demo_net_def PSTOP_WIFI_MAX_def upt_rec app_settings_wifi_get_def
      settings_defaults_def)

lemma demo_second_pass:
  "supervise (demo_wifi_env True) (wifi_static\<lparr>w_next_idx := 1, w_trying := 0\<rparr>) =
     ([Disconnect], wifi_static)"
  by (simp add: supervise_def take_reload_def disconnect_def demo_wifi_env_def wifi_static_def)

lemma wifi_yields_to_ethernet_instance:
  "mealy_run wifi_step ([Supervise (demo_wifi_env False)] @ [Supervise (demo_wifi_env True)]) wifi_static =
     ([Connect 0 (connect_req demo_net) 0, Disconnect], wifi_static) \<and>
   w_active_idx wifi_static = -1 \<and> w_trying wifi_static = -1 \<and>
   \<not> station_on [Connect 0 (connect_req demo_net) 0, Disconnect]"
proof -
  have run: "mealy_run wifi_step ([Supervise (demo_wifi_env False)] @ [Supervise (demo_wifi_env True)]) wifi_static =
      ([Connect 0 (connect_req demo_net) 0, Disconnect], wifi_static)"
    by (simp add: demo_first_pass demo_second_pass [unfolded One_nat_def])
  have "we_ethernet_ready (demo_wifi_env True)" by (simp add: demo_wifi_env_def)
  from run wifi_yields_to_ethernet [OF this run] show ?thesis by blast
qed

section \<open>Every stored network gets its turn\<close>

definition stored :: "app_settings \<Rightarrow> nat \<Rightarrow> bool" where
  "stored cfg i \<longleftrightarrow> i < 4 \<and> ssid (cfg_wifi cfg i) \<noteq> []"

text \<open>The first stored network at or after \<open>p\<close>, round the table.\<close>

definition next_stored :: "app_settings \<Rightarrow> nat \<Rightarrow> nat option" where
  "next_stored cfg p = find (stored cfg) (map (\<lambda>n. (p + n) mod 4) [0..<4])"

lemma try_next_loop_eq:
  "try_next_loop E ns st =
     (case find (stored (we_cfg E)) (map (\<lambda>n. (w_next_idx st + n) mod 4) ns) of
        None \<Rightarrow> ([], st)
      | Some i \<Rightarrow> ([Connect i (connect_req (cfg_wifi (we_cfg E) i)) (we_connect_ret E)],
           st\<lparr>w_next_idx := (i + 1) mod 4, w_trying := (if we_connect_ret E \<noteq> 0 then -1 else int i),
              w_attempt_ms := we_now E\<rparr>))"
  by (induction ns) (auto simp: Let_def app_settings_wifi_get_def stored_def PSTOP_WIFI_MAX_def)

text \<open>A pass in which the attempt in flight, if any, has had its time.\<close>

definition gives_up :: "wifi_env \<Rightarrow> wifi \<Rightarrow> bool" where
  "gives_up E st \<longleftrightarrow> \<not> w_reload st \<and> w_active_idx st < 0 \<and> \<not> we_ethernet_ready E \<and> \<not> connected E \<and>
     (w_trying st < 0 \<or> we_now E - w_attempt_ms st > 20000)"

lemma supervise_gives_up:
  assumes "gives_up E st" and "next_stored (we_cfg E) (w_next_idx st) = Some i"
  shows "Connect i (connect_req (cfg_wifi (we_cfg E) i)) (we_connect_ret E) \<in> set (fst (supervise E st))"
    and "w_next_idx (snd (supervise E st)) = (i + 1) mod 4"
  using assms
  by (auto simp: gives_up_def supervise_def take_reload_def link_down_def retry_def try_next_def
      try_next_loop_eq next_stored_def Let_def PSTOP_WIFI_MAX_def CONNECT_TIMEOUT_MS_def)

fun all_give_up :: "app_settings \<Rightarrow> wifi_env list \<Rightarrow> wifi \<Rightarrow> bool" where
  "all_give_up cfg [] st = True"
| "all_give_up cfg (E # Es) st =
     (we_cfg E = cfg \<and> gives_up E st \<and> all_give_up cfg Es (snd (supervise E st)))"

fun turns :: "app_settings \<Rightarrow> nat \<Rightarrow> nat \<Rightarrow> nat list" where
  "turns cfg 0 p = []"
| "turns cfg (Suc k) p = (case next_stored cfg p of None \<Rightarrow> [] | Some i \<Rightarrow> i # turns cfg k ((i + 1) mod 4))"

lemma turns_tried:
  assumes "all_give_up cfg Es st" and "i \<in> set (turns cfg (length Es) (w_next_idx st))"
  shows "\<exists>ret. Connect i (connect_req (cfg_wifi cfg i)) ret \<in>
    set (fst (mealy_run wifi_step (map Supervise Es) st))"
  using assms
proof (induction Es arbitrary: st)
  case (Cons E Es)
  then obtain j where j: "next_stored cfg (w_next_idx st) = Some j"
    by (cases "next_stored cfg (w_next_idx st)") auto
  have E: "we_cfg E = cfg" "gives_up E st" "all_give_up cfg Es (snd (supervise E st))"
    using Cons.prems(1) by simp_all
  note tried = supervise_gives_up [OF E(2), unfolded E(1), OF j]
  from Cons.prems(2) j consider "i = j" | "i \<in> set (turns cfg (length Es) ((j + 1) mod 4))" by auto
  then show ?case
  proof cases
    case 1
    with tried(1) show ?thesis by auto
  next
    case 2
    with Cons.IH [OF E(3)] tried(2) show ?thesis by auto
  qed
qed simp

lemma upto_four: "[0..<4] = [0, 1, 2, 3 :: nat]"
  by code_simp

lemma turns_Suc:
  "turns cfg (Suc k) 0 = (if stored cfg 0 then 0 # turns cfg k 1 else if stored cfg 1 then 1 # turns cfg k 2
     else if stored cfg 2 then 2 # turns cfg k 3 else if stored cfg 3 then 3 # turns cfg k 0 else [])"
  "turns cfg (Suc k) 1 = (if stored cfg 1 then 1 # turns cfg k 2 else if stored cfg 2 then 2 # turns cfg k 3
     else if stored cfg 3 then 3 # turns cfg k 0 else if stored cfg 0 then 0 # turns cfg k 1 else [])"
  "turns cfg (Suc k) 2 = (if stored cfg 2 then 2 # turns cfg k 3 else if stored cfg 3 then 3 # turns cfg k 0
     else if stored cfg 0 then 0 # turns cfg k 1 else if stored cfg 1 then 1 # turns cfg k 2 else [])"
  "turns cfg (Suc k) 3 = (if stored cfg 3 then 3 # turns cfg k 0 else if stored cfg 0 then 0 # turns cfg k 1
     else if stored cfg 1 then 1 # turns cfg k 2 else if stored cfg 2 then 2 # turns cfg k 3 else [])"
  by (simp_all add: next_stored_def upto_four numeral_2_eq_2 [symmetric])

lemma turns_complete:
  assumes "p < 4" and "stored cfg i"
  shows "i \<in> set (turns cfg 4 p)"
proof -
  have four: "turns cfg 4 p = turns cfg (Suc (Suc (Suc (Suc 0)))) p"
    by (simp add: numeral_eq_Suc del: turns.simps)
  note step = turns_Suc [unfolded One_nat_def]
  have reach: "stored cfg 0 \<longrightarrow> 0 \<in> set (turns cfg 4 p)" "stored cfg 1 \<longrightarrow> 1 \<in> set (turns cfg 4 p)"
    "stored cfg 2 \<longrightarrow> 2 \<in> set (turns cfg 4 p)" "stored cfg 3 \<longrightarrow> 3 \<in> set (turns cfg 4 p)"
    if "p = 0 \<or> p = Suc 0 \<or> p = 2 \<or> p = 3"
    using that unfolding four
    by (elim disjE; hypsubst; cases "stored cfg 0"; cases "stored cfg (Suc 0)"; cases "stored cfg 2";
        cases "stored cfg 3"; simp add: step del: turns.simps(2))+
  from assms have "i = 0 \<or> i = 1 \<or> i = 2 \<or> i = 3" by (auto simp: stored_def)
  moreover from assms(1) have "p = 0 \<or> p = Suc 0 \<or> p = 2 \<or> p = 3" by linarith
  ultimately show ?thesis using reach assms(2) by metis
qed

text \<open>
  No stored network is starved. Whatever the state of the rotation, four passes of the
  supervisor that find no link and an attempt that is over (refused, or older than the
  timeout) ask the driver for every stored network, with exactly the stored name and
  password.
\<close>

lemma wifi_tries_every_network:
  assumes "all_give_up cfg Es st" and "length Es = 4" and "w_next_idx st < 4"
    and "i < 4" and "ssid (cfg_wifi cfg i) \<noteq> []"
  shows "\<exists>ret. Connect i (connect_req (cfg_wifi cfg i)) ret \<in>
    set (fst (mealy_run wifi_step (map Supervise Es) st))"
  using turns_tried [OF assms(1)] turns_complete [OF assms(3), of cfg i] assms
  by (simp add: stored_def)

lemma wifi_tries_every_network_instance:
  "\<exists>ret. Connect 3 (connect_req demo_net) ret \<in>
    set (fst (mealy_run wifi_step (map Supervise
      (map (\<lambda>k. (demo_wifi_env False)\<lparr>we_connect_ret := -1\<rparr>) [0..<4])) wifi_static))"
proof -
  let ?cfg = "(settings_defaults 0)\<lparr>cfg_wifi := (\<lambda>_. demo_net)\<rparr>"
  let ?E = "(demo_wifi_env False)\<lparr>we_connect_ret := -1\<rparr>"
  have step: "snd (supervise ?E (wifi_static\<lparr>w_next_idx := p\<rparr>)) = wifi_static\<lparr>w_next_idx := (p + 1) mod 4\<rparr>"
    if "p < 4" for p
    using that
    by (simp add: supervise_def take_reload_def link_down_def retry_def try_next_def try_next_loop_eq
        demo_wifi_env_def wifi_static_def connected_def PSTOP_WIFI_MAX_def upt_rec stored_def demo_net_def)
  have idle: "gives_up ?E (wifi_static\<lparr>w_next_idx := p\<rparr>)" for p
    by (simp add: gives_up_def demo_wifi_env_def wifi_static_def connected_def)
  have "all_give_up ?cfg (replicate n ?E) (wifi_static\<lparr>w_next_idx := p\<rparr>)" if "p < 4" for n p
    using that
  proof (induction n arbitrary: p)
    case (Suc n)
    then show ?case using step idle Suc.IH [of "(p + 1) mod 4"] by (simp add: demo_wifi_env_def)
  qed simp
  from this [of 0 4] have "all_give_up ?cfg (map (\<lambda>k. ?E) [0..<4]) wifi_static"
    by (simp add: map_replicate_const wifi_static_def)
  from wifi_tries_every_network [OF this, of 3] show ?thesis by (simp add: wifi_static_def demo_net_def)
qed

end
