(* ===== verification/Ring.thy ===== *)
theory Ring
  imports Session
begin

text \<open>
  The 16-LED status ring and the status pixel as pure functions
  (\<open>protective_stop/src/ring.c\<close>, \<open>ring.h\<close>): composition of a frame from the link state of
  every machine slot, rotation to the installed orientation, the persistence filter for the
  device-fault colour, and the blink pattern of the address octet. The reported states are
  ordered as the enum orders them.
\<close>

section \<open>Constants and inputs\<close>

definition RING_LEDS :: nat where [const_simps]: "RING_LEDS = 16"
definition RING_BRIGHTNESS :: u8 where [const_simps]: "RING_BRIGHTNESS = 40"
definition RING_LINK_FRESH_MS :: u64 where [const_simps]: "RING_LINK_FRESH_MS = 2000"
definition RING_MISMATCH_WINDOW_MS :: u64 where [const_simps]: "RING_MISMATCH_WINDOW_MS = 250"
definition RING_MISMATCH_PERSIST_FRAMES :: u32 where [const_simps]: "RING_MISMATCH_PERSIST_FRAMES = 3"
definition RING_MISMATCH_HOLD_MS :: u64 where [const_simps]: "RING_MISMATCH_HOLD_MS = 300"
definition RING_AMBER_ON_MS :: u32 where [const_simps]: "RING_AMBER_ON_MS = 160"
definition RING_AMBER_OFF_MS :: u32 where [const_simps]: "RING_AMBER_OFF_MS = 200"
definition RING_AMBER_REST_MS :: u32 where [const_simps]: "RING_AMBER_REST_MS = 900"
definition WHITE_LEVEL :: u8 where [const_simps]: "WHITE_LEVEL = RING_BRIGHTNESS div 2"
definition AMBER_GREEN_PCT :: u32 where [const_simps]: "AMBER_GREEN_PCT = 40"
definition wave_pct :: "u32 list" where [const_simps]: "wave_pct = [170, 135, 105, 80, 65]"
definition WAVE_FLOOR_PCT :: u32 where [const_simps]: "WAVE_FLOOR_PCT = 55"

record ring_rgb =
  red :: u8
  green :: u8
  blue :: u8

record ring_slot =
  rs_configured :: bool
  rs_state :: pstop_sess_state
  rs_last_msg :: u8
  rs_last_reply_ms :: u64

record ring_input =
  ri_now_ms :: u64
  ri_slots :: "nat \<Rightarrow> ring_slot"
  ri_mismatch :: bool
  ri_locate :: bool
  ri_uplink_up :: bool
  ri_wave_head :: u8
  ri_offset :: u8

datatype ring_state =
  RING_IDLE | RING_UNREACHABLE | RING_BOND | RING_OK | RING_STOP | RING_MISMATCH | RING_LOCATE

fun ring_rank :: "ring_state \<Rightarrow> nat" where
  "ring_rank RING_IDLE = 0"
| "ring_rank RING_UNREACHABLE = 1"
| "ring_rank RING_BOND = 2"
| "ring_rank RING_OK = 3"
| "ring_rank RING_STOP = 4"
| "ring_rank RING_MISMATCH = 5"
| "ring_rank RING_LOCATE = 6"

lemma ring_rank_inject: "ring_rank s = ring_rank t \<longleftrightarrow> s = t"
  by (cases s; cases t) simp_all

instantiation ring_state :: linorder
begin

definition less_eq_ring_state :: "ring_state \<Rightarrow> ring_state \<Rightarrow> bool" where
  "s \<le> t \<longleftrightarrow> ring_rank s \<le> ring_rank t"

definition less_ring_state :: "ring_state \<Rightarrow> ring_state \<Rightarrow> bool" where
  "s < t \<longleftrightarrow> ring_rank s < ring_rank t"

instance
  by standard (auto simp: less_eq_ring_state_def less_ring_state_def ring_rank_inject)

end

section \<open>Composing a frame\<close>

definition rgb :: "u8 \<Rightarrow> u8 \<Rightarrow> u8 \<Rightarrow> ring_rgb" where
  "rgb r g b = \<lparr>red = r, green = g, blue = b\<rparr>"

definition scale :: "u8 \<Rightarrow> u32 \<Rightarrow> u8" where
  "scale v pct = (let s = (ucast v * pct) div 100 in ucast (if s > 255 then 255 else s))"

definition amber_on :: "u64 \<Rightarrow> u32 \<Rightarrow> bool" where
  "amber_on now_ms n =
     (let group = RING_AMBER_ON_MS + RING_AMBER_OFF_MS;
          period = n * group + RING_AMBER_REST_MS;
          phase = ucast (now_ms mod ucast period) :: u32
      in if phase \<ge> n * group then False else phase mod group < RING_AMBER_ON_MS)"

definition ring_fill :: "ring_rgb \<Rightarrow> nat \<Rightarrow> ring_rgb" where
  "ring_fill c = (\<lambda>_. c)"

text \<open>Colour, state and liveness wave of one configured slot.\<close>

definition slot_fresh :: "ring_input \<Rightarrow> ring_slot \<Rightarrow> bool" where
  "slot_fresh inp s \<longleftrightarrow> rs_state s = PSTOP_SESS_BONDED \<and> rs_last_reply_ms s > 0 \<and>
     ri_now_ms inp \<ge> rs_last_reply_ms s \<and>
     ri_now_ms inp - rs_last_reply_ms s < RING_LINK_FRESH_MS"

definition slot_look ::
  "'m pstop_lib \<Rightarrow> ring_input \<Rightarrow> u8 \<Rightarrow> ring_slot \<Rightarrow> ring_rgb \<times> ring_state \<times> bool" where
  "slot_look L inp amber s =
     (if \<not> slot_fresh inp s then (rgb amber (scale amber AMBER_GREEN_PCT) 0, RING_UNREACHABLE, False)
      else if rs_last_msg s = MSG_STOP L then (rgb RING_BRIGHTNESS 0 0, RING_STOP, True)
      else if rs_last_msg s = MSG_OK L then (rgb 0 RING_BRIGHTNESS 0, RING_OK, True)
      else (rgb 0 0 RING_BRIGHTNESS, RING_BOND, False))"

definition wave_at :: "u8 \<Rightarrow> nat \<Rightarrow> u32" where
  "wave_at head p =
     (let d = nat ((uint head - int p + int RING_LEDS) mod int RING_LEDS)
      in if d < length wave_pct then wave_pct ! d else WAVE_FLOOR_PCT)"

definition slot_pixel :: "u8 \<Rightarrow> ring_rgb \<Rightarrow> bool \<Rightarrow> nat \<Rightarrow> ring_rgb" where
  "slot_pixel head c wave p =
     (if wave then rgb (scale (red c) (wave_at head p)) (scale (green c) (wave_at head p))
                    (scale (blue c) (wave_at head p))
      else c)"

definition compose ::
  "'m pstop_lib \<Rightarrow> ring_input \<Rightarrow> ring_state \<times> (nat \<Rightarrow> ring_rgb)" where
  "compose L inp =
     (let logical = ring_fill (rgb 0 0 0) in
      if ri_locate inp
      then (RING_LOCATE, logical(0 := rgb RING_BRIGHTNESS RING_BRIGHTNESS RING_BRIGHTNESS))
      else if ri_mismatch inp
      then (RING_MISMATCH, ring_fill (rgb RING_BRIGHTNESS 0 RING_BRIGHTNESS))
      else
       (let conf = filter (\<lambda>slot. rs_configured (ri_slots inp slot)) [0..<PSTOP_MAX_MACHINES];
            n = length conf
        in if n = 0 then (RING_IDLE, ring_fill (rgb WHITE_LEVEL WHITE_LEVEL WHITE_LEVEL))
           else
            (let amber = (if amber_on (ri_now_ms inp) (if ri_uplink_up inp then 1 else 3)
                          then RING_BRIGHTNESS else 0)
             in fold (\<lambda>j (worst, logical).
                  case slot_look L inp amber (ri_slots inp (conf ! j)) of (c, st, wave) \<Rightarrow>
                    (if st > worst then st else worst,
                     fold (\<lambda>p logical. logical(p := slot_pixel (ri_wave_head inp) c wave p))
                       [(j * RING_LEDS) div n..<((j + 1) * RING_LEDS) div n] logical))
                [0..<n] (RING_IDLE, logical))))"

definition ring_frame ::
  "'m pstop_lib \<Rightarrow> ring_input \<Rightarrow> ring_state \<times> (nat \<Rightarrow> ring_rgb)" where
  "ring_frame L inp =
     (case compose L inp of (st, logical) \<Rightarrow>
        (st, fold (\<lambda>i out. out((i + unat (ri_offset inp) mod RING_LEDS) mod RING_LEDS := logical i))
               [0..<RING_LEDS] (ring_fill (rgb 0 0 0))))"

section \<open>The mismatch filter\<close>

record ring_mismatch =
  rm_last_count :: u32
  rm_streak :: u32
  rm_window_start_ms :: u64
  rm_advanced :: bool
  rm_until_ms :: u64

definition ring_mismatch_init :: "u32 \<Rightarrow> ring_mismatch" where
  "ring_mismatch_init count = \<lparr>rm_last_count = count, rm_streak = 0, rm_window_start_ms = 0,
     rm_advanced = False, rm_until_ms = 0\<rparr>"

definition ring_mismatch_update ::
  "ring_mismatch \<Rightarrow> u32 \<Rightarrow> u64 \<Rightarrow> bool \<times> ring_mismatch" where
  "ring_mismatch_update m count now_ms =
     (let m = (if count \<noteq> rm_last_count m
               then (let m = m\<lparr>rm_last_count := count, rm_advanced := True\<rparr>
                     in if rm_streak m \<ge> RING_MISMATCH_PERSIST_FRAMES
                        then m\<lparr>rm_until_ms := now_ms + RING_MISMATCH_HOLD_MS\<rparr> else m)
               else m);
          m = (if now_ms - rm_window_start_ms m \<ge> RING_MISMATCH_WINDOW_MS
               then (let m = (if rm_advanced m
                         then (let m = (if rm_streak m < RING_MISMATCH_PERSIST_FRAMES
                                        then m\<lparr>rm_streak := rm_streak m + 1\<rparr> else m)
                               in if rm_streak m \<ge> RING_MISMATCH_PERSIST_FRAMES
                                  then m\<lparr>rm_until_ms := now_ms + RING_MISMATCH_HOLD_MS\<rparr> else m)
                         else m\<lparr>rm_streak := 0\<rparr>)
                     in m\<lparr>rm_advanced := False, rm_window_start_ms := now_ms\<rparr>)
               else m)
      in (now_ms < rm_until_ms m, m))"

section \<open>The status pixel\<close>

datatype status_iface = STATUS_IFACE_NONE | STATUS_IFACE_ETHERNET | STATUS_IFACE_WIFI

definition STATUS_BRIGHTNESS :: u8 where [const_simps]: "STATUS_BRIGHTNESS = 48"
definition STATUS_ON_MS :: nat where [const_simps]: "STATUS_ON_MS = 180"
definition STATUS_OFF_MS :: nat where [const_simps]: "STATUS_OFF_MS = 220"
definition STATUS_ZERO_MS :: nat where [const_simps]: "STATUS_ZERO_MS = 550"
definition STATUS_DIGIT_GAP_MS :: nat where [const_simps]: "STATUS_DIGIT_GAP_MS = 550"
definition STATUS_CYCLE_GAP_MS :: nat where [const_simps]: "STATUS_CYCLE_GAP_MS = 1500"
definition STATUS_STROBE_MS :: nat where [const_simps]: "STATUS_STROBE_MS = 120"
definition UINT32_MAX :: nat where [const_simps]: "UINT32_MAX = 4294967295"

definition iface_colour :: "status_iface \<Rightarrow> ring_rgb" where
  "iface_colour iface = (case iface of STATUS_IFACE_ETHERNET \<Rightarrow> rgb 0 0 STATUS_BRIGHTNESS
     | STATUS_IFACE_WIFI \<Rightarrow> rgb STATUS_BRIGHTNESS STATUS_BRIGHTNESS 0
     | STATUS_IFACE_NONE \<Rightarrow> rgb 0 0 0)"

text \<open>
  The steps the walk takes, in order: on or off, and for how long. Times are far below
  \<open>2 ^ 32\<close>, so they are natural numbers.
\<close>

definition octet_digits :: "nat \<Rightarrow> nat list" where
  "octet_digits octet = (if octet \<ge> 100 then [octet div 100] else []) @
     (if octet \<ge> 10 then [(octet div 10) mod 10] else []) @ [octet mod 10]"

definition digit_steps :: "nat \<Rightarrow> (bool \<times> nat) list" where
  "digit_steps d = (if d = 0 then [(True, STATUS_ZERO_MS)]
     else concat (map (\<lambda>b. (if b > 0 then [(False, STATUS_OFF_MS)] else []) @ [(True, STATUS_ON_MS)])
       [0..<d]))"

definition walk_steps :: "status_iface \<Rightarrow> nat \<Rightarrow> bool \<Rightarrow> (bool \<times> nat) list" where
  "walk_steps iface octet fault =
     (if fault then [(True, STATUS_STROBE_MS), (False, STATUS_STROBE_MS)]
      else if iface = STATUS_IFACE_NONE then [(False, 1000)]
      else (let digits = octet_digits octet in
            concat (map (\<lambda>d. (if d > 0 then [(False, STATUS_DIGIT_GAP_MS)] else []) @
              digit_steps (digits ! d)) [0..<length digits]) @ [(False, STATUS_CYCLE_GAP_MS)]))"

text \<open>The macro STEP at each of them: stop at the step that covers \<open>t_ms\<close>, or measure.\<close>

fun walk_from :: "nat \<Rightarrow> nat \<Rightarrow> (bool \<times> nat) list \<Rightarrow> nat \<times> bool" where
  "walk_from t_ms at [] = (at, False)"
| "walk_from t_ms at ((on, ms) # steps) =
     (if t_ms \<noteq> UINT32_MAX \<and> t_ms < at + ms then (at, on) else walk_from t_ms (at + ms) steps)"

definition walk :: "status_iface \<Rightarrow> nat \<Rightarrow> bool \<Rightarrow> nat \<Rightarrow> nat \<times> bool" where
  "walk iface octet fault t_ms = walk_from t_ms 0 (walk_steps iface octet fault)"

definition status_cycle_ms :: "status_iface \<Rightarrow> nat \<Rightarrow> bool \<Rightarrow> nat" where
  "status_cycle_ms iface octet fault = fst (walk iface octet fault UINT32_MAX)"

definition status_pixel :: "status_iface \<Rightarrow> nat \<Rightarrow> bool \<Rightarrow> nat \<Rightarrow> ring_rgb" where
  "status_pixel iface octet fault t_ms =
     (if \<not> snd (walk iface octet fault t_ms) then rgb 0 0 0
      else if fault then rgb STATUS_BRIGHTNESS 0 0 else iface_colour iface)"

section \<open>Segments and rotation\<close>

lemma seg_loop:
  "fold (\<lambda>p f. f(p := g p)) [a..<b] f = (\<lambda>p. if a \<le> p \<and> p < b then g p else f p)"
  by (induction b) (auto simp: fun_eq_iff less_Suc_eq)

lemma seg_mono: "j \<le> k \<Longrightarrow> (j * 16) div n \<le> ((k * 16) div n :: nat)"
  by (intro div_le_mono) simp

lemma segments_cover:
  assumes "0 < n" and "p < (k * 16) div n"
  shows "\<exists>j < k. (j * 16) div n \<le> p \<and> p < ((j + 1) * 16) div (n :: nat)"
  using assms(2)
proof (induction k)
  case 0
  then show ?case using assms(1) by simp
next
  case (Suc k)
  show ?case
  proof (cases "p < (k * 16) div n")
    case True
    with Suc.IH show ?thesis using less_SucI by blast
  next
    case False
    with Suc.prems show ?thesis by (intro exI [of _ k]) simp
  qed
qed

lemma segment_nonempty:
  assumes "0 < n" and "n \<le> 16"
  shows "(j * 16) div n < ((j + 1) * 16) div (n :: nat)"
proof -
  have "(j * 16) div n < (j * 16 + n) div n" using assms(1) by (simp add: div_add_self2)
  also have "\<dots> \<le> ((j + 1) * 16) div n" using assms(2) by (intro div_le_mono) simp
  finally show ?thesis .
qed

lemma compose_loop:
  fixes look :: "nat \<Rightarrow> ring_rgb \<times> ring_state \<times> bool"
    and n :: nat and head :: u8
  defines "body \<equiv> \<lambda>j (worst, logical). case look j of (c, st, wave) \<Rightarrow>
      (if st > worst then st else worst,
       fold (\<lambda>p logical. logical(p := slot_pixel head c wave p))
         [(j * 16) div n..<((j + 1) * 16) div n] logical)"
  shows "fst (fold body [0..<k] (w0, f)) = fold max (map (\<lambda>j. fst (snd (look j))) [0..<k]) w0"
    and "j < k \<Longrightarrow> (j * 16) div n \<le> p \<Longrightarrow> p < ((j + 1) * 16) div n \<Longrightarrow>
      snd (fold body [0..<k] (w0, f)) p = slot_pixel head (fst (look j)) (snd (snd (look j))) p"
proof -
  show "fst (fold body [0..<k] (w0, f)) = fold max (map (\<lambda>j. fst (snd (look j))) [0..<k]) w0"
    by (induction k) (auto simp: body_def case_prod_unfold max_def)
next
  assume jp: "(j * 16) div n \<le> p" "p < ((j + 1) * 16) div n"
  show "j < k \<Longrightarrow> snd (fold body [0..<k] (w0, f)) p = slot_pixel head (fst (look j)) (snd (snd (look j))) p"
  proof (induction k)
    case (Suc k)
    show ?case
    proof (cases "j = k")
      case True
      with jp show ?thesis by (simp add: body_def case_prod_unfold seg_loop)
    next
      case False
      then have "j < k" using Suc.prems by simp
      then have "p < (k * 16) div n"
        using jp(2) seg_mono [of "j + 1" k n] by simp
      with Suc.IH [OF \<open>j < k\<close>] show ?thesis by (simp add: body_def case_prod_unfold seg_loop)
    qed
  qed simp
qed

definition configured_slots :: "ring_input \<Rightarrow> nat list" where
  "configured_slots inp = filter (\<lambda>slot. rs_configured (ri_slots inp slot)) [0..<PSTOP_MAX_MACHINES]"

definition amber_level :: "ring_input \<Rightarrow> u8" where
  "amber_level inp = (if amber_on (ri_now_ms inp) (if ri_uplink_up inp then 1 else 3)
     then RING_BRIGHTNESS else 0)"

definition look_of :: "'m pstop_lib \<Rightarrow> ring_input \<Rightarrow> nat \<Rightarrow> ring_rgb \<times> ring_state \<times> bool" where
  "look_of L inp slot = slot_look L inp (amber_level inp) (ri_slots inp slot)"

lemma configured_slots_length: "length (configured_slots inp) \<le> 4"
  using length_filter_le [of "\<lambda>slot. rs_configured (ri_slots inp slot)" "[0..<4]"]
  by (simp add: configured_slots_def PSTOP_MAX_MACHINES_def)

lemma compose_segments:
  assumes "\<not> ri_locate inp" and "\<not> ri_mismatch inp" and "configured_slots inp \<noteq> []"
  defines "n \<equiv> length (configured_slots inp)"
  shows "fst (compose L inp) = fold max (map (\<lambda>slot. fst (snd (look_of L inp slot))) (configured_slots inp)) RING_IDLE"
    and "j < n \<Longrightarrow> (j * 16) div n \<le> p \<Longrightarrow> p < ((j + 1) * 16) div n \<Longrightarrow>
      snd (compose L inp) p = (case look_of L inp (configured_slots inp ! j) of
        (c, st, wave) \<Rightarrow> slot_pixel (ri_wave_head inp) c wave p)"
proof -
  let ?look = "\<lambda>j. look_of L inp (configured_slots inp ! j)"
  have eq: "compose L inp = fold (\<lambda>j (worst, logical). case ?look j of (c, st, wave) \<Rightarrow>
      (if st > worst then st else worst,
       fold (\<lambda>p logical. logical(p := slot_pixel (ri_wave_head inp) c wave p))
         [(j * 16) div n..<((j + 1) * 16) div n] logical)) [0..<n] (RING_IDLE, ring_fill (rgb 0 0 0))"
    using assms unfolding compose_def Let_def configured_slots_def [symmetric] look_of_def
      amber_level_def RING_LEDS_def by simp
  have "map (\<lambda>j. fst (snd (?look j))) [0..<n] =
      map (\<lambda>slot. fst (snd (look_of L inp slot))) (configured_slots inp)"
    unfolding n_def by (rule nth_equalityI) simp_all
  then show "fst (compose L inp) =
      fold max (map (\<lambda>slot. fst (snd (look_of L inp slot))) (configured_slots inp)) RING_IDLE"
    unfolding eq compose_loop(1) by simp
  show "j < n \<Longrightarrow> (j * 16) div n \<le> p \<Longrightarrow> p < ((j + 1) * 16) div n \<Longrightarrow>
      snd (compose L inp) p = (case look_of L inp (configured_slots inp ! j) of
        (c, st, wave) \<Rightarrow> slot_pixel (ri_wave_head inp) c wave p)"
    unfolding eq using compose_loop(2) [where j = j and k = n and n = n and p = p and look = ?look
      and head = "ri_wave_head inp" and ?w0.0 = RING_IDLE and f = "ring_fill (rgb 0 0 0)"]
    by (simp add: case_prod_unfold)
qed

lemma rotate_index:
  assumes "i < 16"
  shows "(i + off) mod 16 = (if i + off mod 16 < 16 then i + off mod 16 else i + off mod 16 - (16 :: nat))"
proof -
  have "(i + off) mod 16 = (i + off mod 16) mod 16" by (simp add: mod_add_right_eq)
  also have "\<dots> = (if i + off mod 16 < 16 then i + off mod 16 else i + off mod 16 - 16)"
    using assms mod_less_divisor [of 16 off] by (simp add: mod_if [of "i + off mod 16"])
  finally show ?thesis .
qed

lemma rotation_loop:
  assumes "i < n" and "n \<le> 16"
  shows "fold (\<lambda>i out. out((i + off) mod 16 := g i)) [0..<n] f ((i + off) mod (16 :: nat)) = g i"
  using assms
proof (induction n)
  case (Suc n)
  have "(i + off) mod 16 \<noteq> (n + off) mod 16" if "i < n" "n < 16" for i
  proof -
    define d where "d = off mod 16"
    then have "d < 16" by simp
    with that show ?thesis
      by (simp add: rotate_index d_def [symmetric]) linarith
  qed
  with Suc show ?case by (auto simp: less_Suc_eq)
qed simp

lemma rotation_reaches:
  assumes "k < 16"
  shows "\<exists>i < 16. (i + off) mod 16 = (k :: nat)"
proof -
  define d where "d = off mod 16"
  then have "d < 16" by simp
  with assms show ?thesis
    by (intro exI [of _ "if d \<le> k then k - d else k + 16 - d"])
      (cases "d \<le> k"; simp only: rotate_index d_def [symmetric] if_True if_False; auto simp: rotate_index d_def [symmetric])
qed

lemma frame_pixel:
  assumes "i < 16"
  shows "snd (ring_frame L inp) ((i + unat (ri_offset inp) mod 16) mod 16) = snd (compose L inp) i"
  using rotation_loop [OF assms order_refl] by (simp add: ring_frame_def case_prod_unfold RING_LEDS_def)

lemma frame_state: "fst (ring_frame L inp) = fst (compose L inp)"
  by (simp add: ring_frame_def case_prod_unfold)

section \<open>What the colours mean\<close>

lemma wave_at_member: "wave_at head p \<in> {170, 135, 105, 80, 65, 55}"
proof -
  have "wave_pct ! d \<in> set wave_pct" if "d < length wave_pct" for d
    using that by (rule nth_mem)
  then show ?thesis by (auto simp: wave_at_def const_simps Let_def)
qed

lemma scale_base: "scale RING_BRIGHTNESS (wave_at head p) > 0" "scale 0 pct = 0"
  using wave_at_member [of head p]
  by (auto simp: scale_def const_simps Let_def word_less_nat_alt)

definition pure_green :: "ring_rgb \<Rightarrow> bool" where
  "pure_green c \<longleftrightarrow> red c = 0 \<and> blue c = 0 \<and> green c > 0"

definition pure_red :: "ring_rgb \<Rightarrow> bool" where
  "pure_red c \<longleftrightarrow> red c > 0 \<and> blue c = 0 \<and> green c = 0"

lemma amber_green: "scale RING_BRIGHTNESS AMBER_GREEN_PCT = 16" "RING_BRIGHTNESS = 40"
  by (simp_all add: scale_def const_simps)

lemma pixel_meaning:
  assumes "slot_look L inp (amber_level inp) s = (c, st, wave)"
  shows "pure_green (slot_pixel head c wave p) \<Longrightarrow> slot_fresh inp s \<and> rs_last_msg s = MSG_OK L"
    and "pure_red (slot_pixel head c wave p) \<Longrightarrow> slot_fresh inp s \<and> rs_last_msg s = MSG_STOP L"
  using assms scale_base amber_green
  by (auto simp: slot_look_def slot_pixel_def pure_green_def pure_red_def rgb_def amber_level_def
      split: if_splits)

lemma compose_meaning:
  assumes "p < 16" and "pure_green (snd (compose L inp) p) \<or> pure_red (snd (compose L inp) p)"
  shows "\<not> ri_locate inp \<and> \<not> ri_mismatch inp \<and>
    (\<exists>slot \<in> set (configured_slots inp). slot_fresh inp (ri_slots inp slot) \<and>
       rs_last_msg (ri_slots inp slot) = (if pure_green (snd (compose L inp) p) then MSG_OK L else MSG_STOP L))"
proof -
  have loc: "\<not> ri_locate inp" and mm: "\<not> ri_mismatch inp" and some: "configured_slots inp \<noteq> []"
    using assms(2)
    by (auto simp: compose_def pure_green_def pure_red_def rgb_def ring_fill_def const_simps Let_def
        configured_slots_def split: if_splits)
  let ?n = "length (configured_slots inp)"
  have "p < (?n * 16) div ?n" using some assms(1) by simp
  then obtain j where j: "j < ?n" "(j * 16) div ?n \<le> p" "p < ((j + 1) * 16) div ?n"
    using segments_cover [of ?n p ?n] some by auto
  obtain c st wave where look: "look_of L inp (configured_slots inp ! j) = (c, st, wave)"
    using prod_cases3 by blast
  have "snd (compose L inp) p = slot_pixel (ri_wave_head inp) c wave p"
    using compose_segments(2) [OF loc mm some j, of L] look by simp
  with pixel_meaning [OF look [unfolded look_of_def], of "ri_wave_head inp" p] assms(2) j(1) loc mm
  show ?thesis by (auto intro!: bexI [of _ "configured_slots inp ! j"])
qed

lemma frame_meaning:
  assumes "k < 16" and "pure_green (snd (ring_frame L inp) k) \<or> pure_red (snd (ring_frame L inp) k)"
  shows "\<not> ri_locate inp \<and> \<not> ri_mismatch inp \<and>
    (\<exists>slot < 4. rs_configured (ri_slots inp slot) \<and>
       rs_state (ri_slots inp slot) = PSTOP_SESS_BONDED \<and>
       rs_last_reply_ms (ri_slots inp slot) > 0 \<and>
       rs_last_reply_ms (ri_slots inp slot) \<le> ri_now_ms inp \<and>
       ri_now_ms inp - rs_last_reply_ms (ri_slots inp slot) < 2000 \<and>
       rs_last_msg (ri_slots inp slot) =
         (if pure_green (snd (ring_frame L inp) k) then MSG_OK L else MSG_STOP L))"
proof -
  obtain i where i: "i < 16" "(i + unat (ri_offset inp) mod 16) mod 16 = k"
    using rotation_reaches [OF assms(1), of "unat (ri_offset inp) mod 16"] by blast
  have px: "snd (ring_frame L inp) k = snd (compose L inp) i"
    using frame_pixel [OF i(1), of L inp] i(2) by simp
  from compose_meaning [OF i(1), of L inp] assms(2) px obtain slot where
    "\<not> ri_locate inp" "\<not> ri_mismatch inp" and slot: "slot \<in> set (configured_slots inp)"
    "slot_fresh inp (ri_slots inp slot)"
    "rs_last_msg (ri_slots inp slot) = (if pure_green (snd (ring_frame L inp) k) then MSG_OK L else MSG_STOP L)"
    by auto
  then show ?thesis
    by (auto simp: configured_slots_def slot_fresh_def const_simps)
qed

definition demo_ring_input :: ring_input where
  "demo_ring_input = \<lparr>ri_now_ms = 5000, ri_slots = (\<lambda>i. \<lparr>rs_configured = (i = 2), rs_state = PSTOP_SESS_BONDED,
     rs_last_msg = 0x55, rs_last_reply_ms = 4000\<rparr>), ri_mismatch = False, ri_locate = False,
     ri_uplink_up = True, ri_wave_head = 0, ri_offset = 5\<rparr>"

lemma demo_ring_slots: "configured_slots demo_ring_input = [2]"
  by (simp add: configured_slots_def demo_ring_input_def PSTOP_MAX_MACHINES_def upt_rec)

lemma demo_ring_look:
  "look_of wire_lib demo_ring_input 2 = (rgb 0 40 0, RING_OK, True)"
  by (simp add: look_of_def slot_look_def slot_fresh_def demo_ring_input_def const_simps
      word_less_nat_alt word_le_nat_alt)

lemma single_green:
  assumes "configured_slots inp = [slot]" and "look_of L inp slot = (rgb 0 40 0, RING_OK, True)"
    and "\<not> ri_locate inp" and "\<not> ri_mismatch inp"
  shows "pure_green (snd (ring_frame L inp) (unat (ri_offset inp) mod 16))"
proof -
  have "snd (compose L inp) 0 = slot_pixel (ri_wave_head inp) (rgb 0 40 0) True 0"
    using compose_segments(2) [OF assms(3,4), of 0 0 L] by (simp add: assms(1,2))
  moreover have "snd (ring_frame L inp) (unat (ri_offset inp) mod 16) = snd (compose L inp) 0"
    using frame_pixel [of 0 L inp] by simp
  ultimately show ?thesis
    using scale_base(1) [of "ri_wave_head inp" 0]
    by (simp add: pure_green_def slot_pixel_def rgb_def scale_base(2)) (simp add: RING_BRIGHTNESS_def)
qed

lemma demo_ring_green: "pure_green (snd (ring_frame wire_lib demo_ring_input) 5)"
  using single_green [OF demo_ring_slots demo_ring_look] by (simp add: demo_ring_input_def)

text \<open>
  With \<open>n\<close> machines configured and no device fault or locate mode, the ring is divided
  evenly in slot order: machine \<open>j\<close> owns the non-empty pixel range from \<open>16 j / n\<close> to
  \<open>16 (j + 1) / n\<close>, every pixel belongs to one machine, shows that machine's colour (with
  its wave), the frame is only rotated by the offset, and the reported state is the highest
  ranked of the machines'.
\<close>

lemma ring_divides_evenly:
  assumes "\<not> ri_locate inp" and "\<not> ri_mismatch inp" and "configured_slots inp \<noteq> []"
  shows "let n = length (configured_slots inp) in
    fst (ring_frame L inp) = fold max (map (\<lambda>slot. fst (snd (look_of L inp slot))) (configured_slots inp)) RING_IDLE \<and>
    (\<forall>j < n. (j * 16) div n < ((j + 1) * 16) div n) \<and>
    (\<forall>i < 16. \<exists>j < n. (j * 16) div n \<le> i \<and> i < ((j + 1) * 16) div n \<and>
       snd (ring_frame L inp) ((i + unat (ri_offset inp)) mod 16) =
         (case look_of L inp (configured_slots inp ! j) of
            (c, st, wave) \<Rightarrow> slot_pixel (ri_wave_head inp) c wave i))"
proof -
  define n where "n = length (configured_slots inp)"
  have n: "0 < n" "n \<le> 4" using assms(3) configured_slots_length [of inp] by (simp_all add: n_def)
  note seg = compose_segments [OF assms, where L = L, folded n_def]
  have "\<exists>j < n. (j * 16) div n \<le> i \<and> i < ((j + 1) * 16) div n \<and>
       snd (ring_frame L inp) ((i + unat (ri_offset inp)) mod 16) =
         (case look_of L inp (configured_slots inp ! j) of
            (c, st, wave) \<Rightarrow> slot_pixel (ri_wave_head inp) c wave i)" if i: "i < 16" for i
  proof -
    from i n have "i < (n * 16) div n" by simp
    then obtain j where "j < n" "(j * 16) div n \<le> i" "i < ((j + 1) * 16) div n"
      using segments_cover [of n i n] n by auto
    with seg(2) [OF this] frame_pixel [OF i, of L inp] show ?thesis
      by (intro exI [of _ j]) (simp add: mod_add_right_eq)
  qed
  moreover have "\<forall>j < n. (j * 16) div n < ((j + 1) * 16) div n"
    using segment_nonempty [of n] n by simp
  ultimately show ?thesis
    unfolding Let_def n_def [symmetric] frame_state seg(1) by blast
qed

lemma ring_divides_evenly_instance:
  "fst (ring_frame wire_lib demo_ring_input) = RING_OK"
  using ring_divides_evenly [of demo_ring_input wire_lib]
  by (simp add: demo_ring_slots demo_ring_look Let_def) (simp add: demo_ring_input_def max_def less_eq_ring_state_def)

section \<open>A blip is not a fault\<close>

fun filter_run :: "(u32 \<times> u64) list \<Rightarrow> ring_mismatch \<Rightarrow> bool \<times> ring_mismatch" where
  "filter_run [] m = (False, m)"
| "filter_run [(count, now)] m = ring_mismatch_update m count now"
| "filter_run ((count, now) # us) m = filter_run us (snd (ring_mismatch_update m count now))"

fun count_changes :: "u32 \<Rightarrow> u32 list \<Rightarrow> nat" where
  "count_changes prev [] = 0"
| "count_changes prev (c # cs) = (if c \<noteq> prev then 1 else 0) + count_changes c cs"

definition filter_inv :: "nat \<Rightarrow> ring_mismatch \<Rightarrow> bool" where
  "filter_inv changes m \<longleftrightarrow> unat (rm_streak m) + (if rm_advanced m then 1 else 0) \<le> changes \<and>
     (rm_until_ms m \<noteq> 0 \<longrightarrow> 3 \<le> changes) \<and> unat (rm_streak m) \<le> 3"

lemma filter_step:
  assumes "filter_inv n m"
  shows "filter_inv (n + (if count \<noteq> rm_last_count m then 1 else 0)) (snd (ring_mismatch_update m count now))"
proof -
  have inc: "unat (s + 1) = Suc (unat s)" if "s < 3" for s :: u32
    using that by (simp add: unat_word_ariths word_less_nat_alt)
  have three: "(3 :: u32) \<le> s \<longleftrightarrow> 3 \<le> unat s" "s < 3 \<longleftrightarrow> unat s < 3" for s :: u32
    by (simp_all add: word_le_nat_alt word_less_nat_alt)
  show "filter_inv (n + (if count \<noteq> rm_last_count m then 1 else 0)) (snd (ring_mismatch_update m count now))"
    using assms
    by (cases "rm_streak m < 3")
      (auto simp: filter_inv_def ring_mismatch_update_def RING_MISMATCH_PERSIST_FRAMES_def Let_def inc three)
qed

lemma filter_last [simp]: "rm_last_count (snd (ring_mismatch_update m count now)) = count"
  by (auto simp: ring_mismatch_update_def Let_def)

lemma filter_run_inv:
  assumes "filter_inv n m" and "fst (filter_run us m)"
  shows "3 \<le> n + count_changes (rm_last_count m) (map fst us)"
  using assms
proof (induction us m arbitrary: n rule: filter_run.induct)
  case (1 m)
  then show ?case by simp
next
  case (2 count now m)
  from filter_step [OF "2.prems"(1), of count now] "2.prems"(2) show ?case
    by (auto simp: filter_inv_def ring_mismatch_update_def Let_def word_less_nat_alt)
next
  case (3 count now u us m)
  from "3.IH" [OF filter_step [OF "3.prems"(1)]] "3.prems"(2) show ?case
    by (simp add: add.assoc)
qed

text \<open>
  Momentary disagreements never paint the ring purple: after the filter starts, it
  answers yes only when the mismatch counter has advanced in at least three of its updates.
\<close>

lemma ring_mismatch_needs_three:
  assumes "fst (filter_run us (ring_mismatch_init c))"
  shows "3 \<le> count_changes c (map fst us)"
  using filter_run_inv [of 0 "ring_mismatch_init c" us] assms
  by (simp add: filter_inv_def ring_mismatch_init_def)

lemma ring_mismatch_needs_three_instance:
  "3 \<le> count_changes 0 (map fst [(1, 300), (2, 600), (3 :: u32, 900 :: u64)])"
  using ring_mismatch_needs_three [of "[(1, 300), (2, 600), (3, 900)]" 0]
  by (simp add: ring_mismatch_init_def ring_mismatch_update_def const_simps Let_def
      word_less_nat_alt word_le_nat_alt)

section \<open>The blink pattern\<close>

definition pattern_ms :: "(bool \<times> nat) list \<Rightarrow> nat" where
  "pattern_ms steps = sum_list (map snd steps)"

definition render :: "(bool \<times> nat) list \<Rightarrow> bool list" where
  "render steps = concat (map (\<lambda>(on, ms). replicate ms on) steps)"

lemma render_length: "length (render steps) = pattern_ms steps"
  by (induction steps) (auto simp: render_def pattern_ms_def)

lemma walk_measures: "fst (walk_from UINT32_MAX at steps) = at + pattern_ms steps"
  by (induction steps arbitrary: at) (auto simp: pattern_ms_def)

lemma walk_renders:
  "t < pattern_ms steps \<Longrightarrow> at + t < UINT32_MAX \<Longrightarrow> snd (walk_from (at + t) at steps) = render steps ! t"
proof (induction steps arbitrary: at t)
  case Nil
  then show ?case by (simp add: pattern_ms_def)
next
  case (Cons s steps)
  obtain on ms where s: "s = (on, ms)" by fastforce
  show ?case
  proof (cases "t < ms")
    case True
    with Cons.prems s show ?thesis by (simp add: render_def nth_append)
  next
    case False
    with Cons.prems s Cons.IH [of "t - ms" "at + ms"] show ?thesis
      by (simp add: render_def nth_append pattern_ms_def)
  qed
qed

lemma digit_steps_ms: "d \<le> 9 \<Longrightarrow> pattern_ms (digit_steps d) \<le> 3600"
proof -
  have "pattern_ms (concat (map (\<lambda>b. (if b > 0 then [(False, STATUS_OFF_MS)] else []) @ [(True, STATUS_ON_MS)])
      [0..<d])) \<le> 400 * d" for d
    by (induction d) (auto simp: pattern_ms_def const_simps)
  from this [of d] show "d \<le> 9 \<Longrightarrow> ?thesis"
    by (simp add: digit_steps_def) (simp add: pattern_ms_def const_simps)
qed

lemma octet_digits_small: "octet < 256 \<Longrightarrow> d \<in> set (octet_digits octet) \<Longrightarrow> d \<le> 9"
  by (auto simp: octet_digits_def split: if_splits)

lemma walk_steps_ms:
  assumes "octet < 256"
  shows "0 < pattern_ms (walk_steps iface octet fault) \<and> pattern_ms (walk_steps iface octet fault) < UINT32_MAX"
proof -
  let ?ds = "octet_digits octet"
  have app: "pattern_ms (a @ b) = pattern_ms a + pattern_ms b" for a b by (simp add: pattern_ms_def)
  have "pattern_ms (concat (map (\<lambda>d. (if d > 0 then [(False, STATUS_DIGIT_GAP_MS)] else []) @
      digit_steps (?ds ! d)) [0..<n])) \<le> 4150 * n" if "n \<le> length ?ds" for n
    using that
  proof (induction n)
    case (Suc n)
    then have "pattern_ms (digit_steps (?ds ! n)) \<le> 3600"
      using octet_digits_small [OF assms] by (intro digit_steps_ms) auto
    with Suc show ?case by (auto simp: app pattern_ms_def const_simps)
  qed (simp add: pattern_ms_def)
  from this [of "length ?ds"] have "pattern_ms (concat (map (\<lambda>d. (if d > 0 then [(False, STATUS_DIGIT_GAP_MS)] else []) @
      digit_steps (?ds ! d)) [0..<length ?ds])) \<le> 4150 * 3"
    by (simp add: octet_digits_def split: if_splits)
  moreover have "pattern_ms [(False, STATUS_CYCLE_GAP_MS)] = 1500" by (simp add: pattern_ms_def const_simps)
  ultimately show ?thesis
    by (auto simp: walk_steps_def app Let_def) (auto simp: pattern_ms_def const_simps)
qed

text \<open>Reading a pattern: short blinks count, a long one is zero, a long pause ends a digit.\<close>

fun read_digits :: "nat \<Rightarrow> (bool \<times> nat) list \<Rightarrow> nat list" where
  "read_digits acc [] = []"
| "read_digits acc ((True, ms) # s) = read_digits (if ms = 550 then acc else acc + 1) s"
| "read_digits acc ((False, ms) # s) =
     (if ms = 550 then acc # read_digits 0 s else if ms = 1500 then [acc] else read_digits acc s)"

lemma read_digit: "read_digits acc (digit_steps d @ s) = read_digits (acc + d) s"
proof -
  have "read_digits acc (concat (map (\<lambda>b. (if b > 0 then [(False, STATUS_OFF_MS)] else []) @ [(True, STATUS_ON_MS)])
      [0..<d]) @ s) = read_digits (acc + d) s" for acc d s
    by (induction d arbitrary: s) (auto simp: const_simps)
  then show ?thesis by (auto simp: digit_steps_def const_simps)
qed

lemma digits_value:
  assumes "octet < 256"
  shows "foldl (\<lambda>v d. 10 * v + d) 0 (octet_digits octet) = octet"
proof -
  have d: "octet div 100 = octet div 10 div 10" by (simp add: div_mult2_eq [symmetric])
  have "100 * (octet div 10 div 10) + 10 * (octet div 10 mod 10) + octet mod 10 = octet"
    using mult_div_mod_eq [of 10 octet] mult_div_mod_eq [of 10 "octet div 10"] by linarith
  then show ?thesis by (auto simp: octet_digits_def d)
qed

lemma read_octet:
  "octet < 256 \<Longrightarrow> iface \<noteq> STATUS_IFACE_NONE \<Longrightarrow>
     read_digits 0 (walk_steps iface octet False) = octet_digits octet"
  by (auto simp: walk_steps_def octet_digits_def read_digit const_simps upt_rec nth_Cons' Let_def)

text \<open>
  The status pixel spells the address: over one cycle of \<open>status_cycle_ms\<close>
  milliseconds (never zero, so the caller's modulo is defined) the pixel is lit exactly as
  the pattern says, millisecond by millisecond, and reading its blinks gives back the last
  octet, for all 256 octets on either uplink.
\<close>

lemma status_pixel_spells_octet:
  assumes "octet < 256" and "iface \<noteq> STATUS_IFACE_NONE"
  shows "0 < status_cycle_ms iface octet False \<and>
    map (\<lambda>t. status_pixel iface octet False t = iface_colour iface) [0..<status_cycle_ms iface octet False] =
      render (walk_steps iface octet False) \<and>
    foldl (\<lambda>v d. 10 * v + d) 0 (read_digits 0 (walk_steps iface octet False)) = octet"
proof -
  let ?steps = "walk_steps iface octet False"
  have cycle: "status_cycle_ms iface octet False = pattern_ms ?steps"
    by (simp add: status_cycle_ms_def walk_def walk_measures)
  note ms = walk_steps_ms [OF assms(1), of iface False]
  have on: "(status_pixel iface octet False t = iface_colour iface) = snd (walk iface octet False t)" for t
    using assms(2) by (cases iface) (auto simp: status_pixel_def iface_colour_def rgb_def STATUS_BRIGHTNESS_def)
  have "snd (walk iface octet False t) = render ?steps ! t" if "t < pattern_ms ?steps" for t
    using walk_renders [of t ?steps 0] that ms by (simp add: walk_def)
  then have "map (\<lambda>t. status_pixel iface octet False t = iface_colour iface) [0..<pattern_ms ?steps] = render ?steps"
    by (intro nth_equalityI) (simp_all add: on render_length)
  moreover have "foldl (\<lambda>v d. 10 * v + d) 0 (octet_digits octet) = octet"
    by (rule digits_value [OF assms(1)])
  ultimately show ?thesis
    using ms cycle read_octet [OF assms] by simp
qed

lemma status_pixel_spells_octet_instance:
  "foldl (\<lambda>v d. 10 * v + d) 0 (read_digits 0 (walk_steps STATUS_IFACE_WIFI 109 False)) = 109"
  using status_pixel_spells_octet [of 109 STATUS_IFACE_WIFI] by simp

end
