(* ===== verification/Leds.thy ===== *)
theory Leds
  imports Ring Lockstep Uplink
begin

text \<open>
  The LED task (\<open>protective_stop/src/leds.c\<close>): every 70 ms it collects what the ring shows
  from the comparator, the peer table, the uplink and the locate timer, composes a frame and
  hands it to the LED drivers. The sessions are read as they stand at that moment; a torn
  read of a session that the comparator is writing is not modelled. The strip updates and
  the logged transitions are the outputs.
\<close>

section \<open>Locate mode\<close>

definition RING_FRAME_MS :: int where [const_simps]: "RING_FRAME_MS = 70"
definition RING_LOCATE_TIMEOUT_MS :: int where [const_simps]: "RING_LOCATE_TIMEOUT_MS = 300000"

text \<open>The static variable is the uptime at which locate mode ends.\<close>

definition leds_locate :: "bool \<Rightarrow> int \<Rightarrow> int" where
  "leds_locate on now = (if on then now + RING_LOCATE_TIMEOUT_MS else 0)"

definition leds_locate_active :: "int \<Rightarrow> int \<Rightarrow> bool" where
  "leds_locate_active locate_until_ms now \<longleftrightarrow> now < locate_until_ms"

section \<open>Collecting a frame's inputs\<close>

definition state_name :: "ring_state \<Rightarrow> string" where
  "state_name st = (case st of RING_IDLE \<Rightarrow> ''idle (white)'' | RING_UNREACHABLE \<Rightarrow> ''unreachable (amber)''
     | RING_BOND \<Rightarrow> ''bonded (blue)'' | RING_OK \<Rightarrow> ''ok (green)'' | RING_STOP \<Rightarrow> ''stop (red)''
     | RING_MISMATCH \<Rightarrow> ''sampler mismatch (purple)'' | RING_LOCATE \<Rightarrow> ''locate (LED 1)'')"

record leds =
  l_mm :: ring_mismatch
  l_wave_head :: u8
  l_last :: "ring_state option"

record leds_env =
  le_now :: int
  le_lockstep :: lockstep
  le_cfg :: app_settings
  le_uplink :: uplink_status
  le_locate_until :: int
  le_locate_now :: int
  le_pixel_uplink :: uplink_status

definition collect_slot :: "'m pstop_lib \<Rightarrow> leds_env \<Rightarrow> nat \<Rightarrow> ring_slot" where
  "collect_slot L E slot =
     (let conf = (case app_settings_peer_get (le_cfg E) (int slot) of Inl _ \<Rightarrow> False | Inr peer \<Rightarrow> configured peer)
      in if pstop_lockstep_slot_active (le_lockstep E) (int slot)
         then (case pstop_lockstep_session (le_lockstep E) (int slot) of
                 Some s \<Rightarrow> \<lparr>rs_configured = conf, rs_state = s_state s, rs_last_msg = s_last_msg s,
                            rs_last_reply_ms = s_last_reply_ms s\<rparr>
               | None \<Rightarrow> \<lparr>rs_configured = conf, rs_state = PSTOP_SESS_IDLE,
                            rs_last_msg = MSG_UNKNOWN L, rs_last_reply_ms = 0\<rparr>)
         else \<lparr>rs_configured = conf, rs_state = PSTOP_SESS_IDLE, rs_last_msg = MSG_UNKNOWN L,
               rs_last_reply_ms = 0\<rparr>)"

definition collect :: "'m pstop_lib \<Rightarrow> leds_env \<Rightarrow> leds \<Rightarrow> ring_input \<times> leds" where
  "collect L E st =
     (let now_ms = word_of_int (le_now E);
          (mismatch, mm) = ring_mismatch_update (l_mm st) (pstop_lockstep_mismatches (le_lockstep E)) now_ms
      in (\<lparr>ri_now_ms = now_ms, ri_slots = collect_slot L E, ri_mismatch = mismatch,
           ri_locate = leds_locate_active (le_locate_until E) (le_locate_now E),
           ri_uplink_up = (up_kind (le_uplink E) \<noteq> UPLINK_NONE),
           ri_wave_head = l_wave_head st, ri_offset = app_settings_ring_offset (le_cfg E)\<rparr>,
          st\<lparr>l_mm := mm, l_wave_head := (l_wave_head st + 1) mod of_nat RING_LEDS\<rparr>))"

section \<open>The task\<close>

definition status_iface_of :: "uplink_kind \<Rightarrow> status_iface" where
  "status_iface_of kind = (case kind of UPLINK_ETHERNET \<Rightarrow> STATUS_IFACE_ETHERNET
     | UPLINK_HOST \<Rightarrow> STATUS_IFACE_ETHERNET | UPLINK_WIFI \<Rightarrow> STATUS_IFACE_WIFI
     | UPLINK_NONE \<Rightarrow> STATUS_IFACE_NONE)"

text \<open>Which LEDs the board has, and whether their drivers came up.\<close>

record leds_board =
  HAVE_RING :: bool
  HAVE_PIXEL :: bool
  ring_ready :: bool
  pixel_ready :: bool

datatype led_out =
    RingUpdate "nat \<Rightarrow> ring_rgb"
  | PixelUpdate ring_rgb
  | LogRing string

definition paint_pixel :: "bool \<Rightarrow> leds_env \<Rightarrow> ring_input \<Rightarrow> led_out list" where
  "paint_pixel pixel_ok E inp =
     (if \<not> pixel_ok then []
      else (let iface = status_iface_of (up_kind (le_pixel_uplink E));
                octet = unat (up_ipv4 (le_pixel_uplink E) AND 0xFF);
                cycle = status_cycle_ms iface octet (ri_mismatch inp)
            in [PixelUpdate (status_pixel iface octet (ri_mismatch inp) (unat (ri_now_ms inp) mod cycle))]))"

definition leds_init :: "u32 \<Rightarrow> leds" where
  "leds_init count = \<lparr>l_mm = ring_mismatch_init count, l_wave_head = 0, l_last = None\<rparr>"

text \<open>One round of the task's loop.\<close>

definition leds_thread :: "'m pstop_lib \<Rightarrow> leds_board \<Rightarrow> leds_env \<Rightarrow> leds \<Rightarrow> led_out list \<times> leds" where
  "leds_thread L B E st =
     (let (inp, st) = collect L E st;
          (shown, px) = ring_frame L inp;
          (log, st) = (if Some shown \<noteq> l_last st
                       then ([LogRing (''ring: '' @ state_name shown)], st\<lparr>l_last := Some shown\<rparr>)
                       else ([], st))
      in (log @ (if HAVE_RING B then [RingUpdate px] else []) @
          (if HAVE_PIXEL B then paint_pixel (pixel_ready B) E inp else []), st))"

definition leds_start :: "leds_board \<Rightarrow> u32 \<Rightarrow> int \<times> leds option" where
  "leds_start B count =
     (if HAVE_RING B \<and> \<not> ring_ready B then (- ENODEV, None) else (0, Some (leds_init count)))"

section \<open>What the ring says about the machines\<close>

lemma leds_ring_frame:
  "RingUpdate px \<in> set (fst (leds_thread L B E st)) \<Longrightarrow> px = snd (ring_frame L (fst (collect L E st)))"
  by (auto simp: leds_thread_def Let_def case_prod_unfold paint_pixel_def split: if_splits)

lemma collect_fields:
  "ri_slots (fst (collect L E st)) = collect_slot L E"
  "ri_now_ms (fst (collect L E st)) = word_of_int (le_now E)"
  "ri_locate (fst (collect L E st)) = leds_locate_active (le_locate_until E) (le_locate_now E)"
  by (simp_all add: collect_def Let_def case_prod_unfold)

lemma collect_slot_bonded:
  assumes "slot < 4" and "rs_state (collect_slot L E slot) = PSTOP_SESS_BONDED"
  shows "slot_active (le_lockstep E) slot \<and>
     s_state (sessions (le_lockstep E) slot) = PSTOP_SESS_BONDED \<and>
     rs_last_msg (collect_slot L E slot) = s_last_msg (sessions (le_lockstep E) slot) \<and>
     rs_last_reply_ms (collect_slot L E slot) = s_last_reply_ms (sessions (le_lockstep E) slot)"
  using assms
  by (auto simp: collect_slot_def Let_def pstop_lockstep_slot_active_def pstop_lockstep_session_def
      PSTOP_MAX_MACHINES_def split: if_splits)

lemma collect_slot_configured:
  "slot < 4 \<Longrightarrow> rs_configured (collect_slot L E slot) \<longleftrightarrow> configured (cfg_peers (le_cfg E) slot)"
  by (auto simp: collect_slot_def Let_def pstop_lockstep_slot_active_def pstop_lockstep_session_def
      PSTOP_MAX_MACHINES_def app_settings_peer_get_def)

text \<open>
  C17. What the operator sees is what the machines said. Whenever the LED task hands the ring a
  frame with a pixel in the green of OK, some configured slot has a live session that is
  bonded, whose last reply was OK and is less than two seconds old, and locate mode is off;
  a pixel in the red of STOP likewise only for a fresh answer STOP.
\<close>

theorem leds_ring_shows_sessions:
  assumes "RingUpdate px \<in> set (fst (leds_thread L B E st))" and "k < 16"
    and "pure_green (px k) \<or> pure_red (px k)"
  shows "\<not> leds_locate_active (le_locate_until E) (le_locate_now E) \<and>
    (\<exists>slot < 4. configured (cfg_peers (le_cfg E) slot) \<and> slot_active (le_lockstep E) slot \<and>
       s_state (sessions (le_lockstep E) slot) = PSTOP_SESS_BONDED \<and>
       s_last_msg (sessions (le_lockstep E) slot) = (if pure_green (px k) then MSG_OK L else MSG_STOP L) \<and>
       s_last_reply_ms (sessions (le_lockstep E) slot) \<le> word_of_int (le_now E) \<and>
       word_of_int (le_now E) - s_last_reply_ms (sessions (le_lockstep E) slot) < 2000)"
proof -
  let ?inp = "fst (collect L E st)"
  have px: "px = snd (ring_frame L ?inp)" by (rule leds_ring_frame [OF assms(1)])
  from frame_meaning [OF assms(2), of L ?inp] assms(3) obtain slot where
    loc: "\<not> ri_locate ?inp" and slot: "slot < 4" "rs_configured (ri_slots ?inp slot)"
      "rs_state (ri_slots ?inp slot) = PSTOP_SESS_BONDED" and
    fresh: "rs_last_reply_ms (ri_slots ?inp slot) \<le> ri_now_ms ?inp"
      "ri_now_ms ?inp - rs_last_reply_ms (ri_slots ?inp slot) < 2000"
      "rs_last_msg (ri_slots ?inp slot) = (if pure_green (px k) then MSG_OK L else MSG_STOP L)"
    unfolding px by blast
  note [simp] = collect_fields
  from collect_slot_bonded [OF slot(1), of L E] slot(3) have sess:
    "slot_active (le_lockstep E) slot" "s_state (sessions (le_lockstep E) slot) = PSTOP_SESS_BONDED"
    "rs_last_msg (collect_slot L E slot) = s_last_msg (sessions (le_lockstep E) slot)"
    "rs_last_reply_ms (collect_slot L E slot) = s_last_reply_ms (sessions (le_lockstep E) slot)"
    by simp_all
  from loc slot fresh sess collect_slot_configured [OF slot(1), of L E] show ?thesis
    by (intro conjI exI [of _ slot]) simp_all
qed

definition demo_leds_env :: leds_env where
  "demo_leds_env = \<lparr>le_now = 5000,
     le_lockstep = lockstep_zero\<lparr>slot_active := (\<lambda>_. True), sessions := (\<lambda>_. session_zero\<lparr>
       s_state := PSTOP_SESS_BONDED, s_last_msg := 0x55, s_last_reply_ms := 4000\<rparr>)\<rparr>,
     le_cfg = (settings_defaults 1)\<lparr>cfg_peers := (\<lambda>i. peer_zero\<lparr>configured := (i = 2)\<rparr>)\<rparr>,
     le_uplink = \<lparr>up_kind = UPLINK_ETHERNET, up_ipv4 = 1\<rparr>, le_locate_until = 0, le_locate_now = 5000,
     le_pixel_uplink = \<lparr>up_kind = UPLINK_ETHERNET, up_ipv4 = 1\<rparr>\<rparr>"

lemma demo_leds_slot:
  "slot < 4 \<Longrightarrow> collect_slot wire_lib demo_leds_env slot = \<lparr>rs_configured = (slot = 2),
     rs_state = PSTOP_SESS_BONDED, rs_last_msg = 0x55, rs_last_reply_ms = 4000\<rparr>"
  by (simp add: collect_slot_def demo_leds_env_def pstop_lockstep_slot_active_def
      pstop_lockstep_session_def PSTOP_MAX_MACHINES_def app_settings_peer_get_def peer_zero_def
      lockstep_zero_def settings_defaults_def)

lemma demo_leds_green:
  "pure_green (snd (ring_frame wire_lib (fst (collect wire_lib demo_leds_env (leds_init 0)))) 0)"
proof -
  let ?inp = "fst (collect wire_lib demo_leds_env (leds_init 0))"
  have slots: "configured_slots ?inp = [2]"
    by (simp add: configured_slots_def collect_fields PSTOP_MAX_MACHINES_def upt_rec demo_leds_slot)
  have now: "ri_now_ms ?inp = 5000" "\<not> ri_locate ?inp" "\<not> ri_mismatch ?inp" "ri_offset ?inp = 0"
    by (simp_all add: collect_def Let_def case_prod_unfold demo_leds_env_def leds_locate_active_def
        leds_init_def ring_mismatch_update_def ring_mismatch_init_def pstop_lockstep_mismatches_def
        lockstep_zero_def app_settings_ring_offset_def settings_defaults_def)
  have look: "look_of wire_lib ?inp 2 = (rgb 0 40 0, RING_OK, True)"
    using now(1)
    by (simp add: look_of_def slot_look_def slot_fresh_def collect_fields(1) demo_leds_slot const_simps
        word_less_nat_alt word_le_nat_alt)
  from single_green [OF slots look now(2,3)] now(4) show ?thesis by simp
qed

theorem leds_ring_shows_sessions_witness:
  "\<exists>slot < 4. slot_active (le_lockstep demo_leds_env) slot \<and>
     s_last_msg (sessions (le_lockstep demo_leds_env) slot) = MSG_OK wire_lib"
proof -
  let ?B = "\<lparr>HAVE_RING = True, HAVE_PIXEL = False, ring_ready = True, pixel_ready = False\<rparr>"
  let ?px = "snd (ring_frame wire_lib (fst (collect wire_lib demo_leds_env (leds_init 0))))"
  have "RingUpdate ?px \<in> set (fst (leds_thread wire_lib ?B demo_leds_env (leds_init 0)))"
    by (simp add: leds_thread_def Let_def case_prod_unfold)
  from leds_ring_shows_sessions [OF this, of 0] demo_leds_green show ?thesis by auto
qed

end
