(* ===== verification/Diagnostics.thy ===== *)
theory Diagnostics
  imports Prelude
begin

text \<open>
  Two small services behind the control plane: the verbose-logging switch
  (\<open>protective_stop/src/verbose.c\<close>) and the stored crash dump
  (\<open>protective_stop/src/crash.c\<close>). The logging and core-dump subsystems are Zephyr's: the
  names of the log sources and the answers of the dump backend are inputs, the filter levels
  set are an output.
\<close>

section \<open>Verbose logging\<close>

definition LOG_LEVEL_INF :: int where [const_simps]: "LOG_LEVEL_INF = 3"
definition LOG_LEVEL_DBG :: int where [const_simps]: "LOG_LEVEL_DBG = 4"

definition log_prefixes :: "string list" where
  "log_prefixes = [''pstop'', ''app_settings'', ''lockstep'', ''estop_gpio'']"

definition ours :: "string \<Rightarrow> bool" where
  "ours name \<longleftrightarrow> (\<exists>p \<in> set log_prefixes. take (length p) name = p)"

text \<open>The output lists the sources whose filter is set, with the level.\<close>

definition verbose_apply :: "string option list \<Rightarrow> bool \<Rightarrow> (nat \<times> int) list \<times> bool" where
  "verbose_apply names on =
     (concat (map (\<lambda>i. case names ! i of None \<Rightarrow> []
        | Some name \<Rightarrow> if ours name then [(i, if on then LOG_LEVEL_DBG else LOG_LEVEL_INF)] else [])
        [0..<length names]), on)"

text \<open>\<open>built\<close>: verbose logging and run-time filtering are configured in.\<close>

definition pstop_verbose_init :: "bool \<Rightarrow> string option list \<Rightarrow> bool \<Rightarrow> (nat \<times> int) list \<times> bool" where
  "pstop_verbose_init built names verbose = (if built then verbose_apply names False else ([], verbose))"

definition pstop_verbose_set ::
  "bool \<Rightarrow> string option list \<Rightarrow> bool \<Rightarrow> bool \<Rightarrow> int \<times> (nat \<times> int) list \<times> bool" where
  "pstop_verbose_set built names on verbose =
     (if built then (0, verbose_apply names on)
      else (if on then - ENOTSUP else 0, [], verbose))"

definition pstop_verbose_get :: "bool \<Rightarrow> bool" where
  "pstop_verbose_get verbose = verbose"

text \<open>Only this application's sources are touched.\<close>

lemma verbose_apply_ours:
  "(i, lvl) \<in> set (fst (verbose_apply names on)) \<Longrightarrow> i < length names \<and> (case names ! i of None \<Rightarrow> False | Some n \<Rightarrow> ours n)"
  by (cases "names ! i") (auto simp: verbose_apply_def split: option.splits if_splits)

section \<open>The stored crash dump\<close>

text \<open>
  The answers of \<open>coredump_query\<close> for the presence and the size of a stored dump;
  \<open>None\<close> is a build without the flash backend.
\<close>

definition crash_size :: "(int \<times> int) option \<Rightarrow> nat" where
  "crash_size query =
     (case query of None \<Rightarrow> 0
      | Some (has_dump, n) \<Rightarrow> if has_dump \<noteq> 1 then 0 else if n > 0 then nat n else 0)"

definition crash_read ::
  "(nat \<Rightarrow> nat \<Rightarrow> int \<times> bytes) option \<Rightarrow> nat \<Rightarrow> nat \<Rightarrow> int \<times> bytes" where
  "crash_read cmd offset len = (case cmd of None \<Rightarrow> (- ENOTSUP, []) | Some copy \<Rightarrow> copy offset len)"

end
