(* ===== verification/Api.thy ===== *)
theory Api
  imports Http_Reply Health Uplink Wifi Leds Diagnostics
begin

text \<open>
  The control plane's handlers (\<open>protective_stop/src/api.c\<close> and \<open>api.h\<close>), one definition
  per route. What they read and write is the record \<open>device\<close>: the settings with their store,
  the comparator, the wear counters with their stored blob, the locate timer, the WiFi
  supervisor and the verbose switch. A handler takes the buffer's capacity, the request's
  URL, credentials or body and returns the answer and the device. Uptimes, the uplink, the
  dump's size and the return code of a counter flush are the record \<open>api_now\<close>; Zephyr's
  JSON parser and base64 decoder, the settings backend, the role names and the configured
  strings are the record \<open>api_build\<close>.
\<close>

section \<open>The device and its surroundings\<close>

record 'f device =
  d_store :: 'f
  d_cfg :: app_settings
  d_lockstep :: lockstep
  d_health :: health
  d_health_blob :: "bytes option"
  d_locate_until :: int
  d_wifi :: wifi
  d_verbose :: bool
  d_log_levels :: "nat \<rightharpoonup> int"

text \<open>
  \<open>ab_json_settings\<close> and \<open>ab_json_wifi\<close> stand for \<open>json_obj_parse\<close> with the two
  descriptors: the bit set of the fields found (or an error) and the struct filled in, with
  \<open>None\<close> for a string member that is absent.
\<close>

record ('m, 'f) api_build =
  ab_lib :: "'m pstop_lib"
  ab_backend :: "'f settings_backend"
  ab_b64 :: "nat \<Rightarrow> string \<Rightarrow> int \<times> bytes"
  ab_json_settings :: "string \<Rightarrow> int \<times> u32 \<times> u32"
  ab_json_wifi :: "string \<Rightarrow> int \<times> (string option \<times> string option) list"
  ab_role_str :: "aux_role \<Rightarrow> string"
  ab_password :: string
  ab_version :: string
  ab_sha :: string
  ab_fw_id :: string
  ab_health_cfg :: health_cfg
  ab_wifi :: bool
  ab_verbose :: bool
  ab_log_sources :: "string option list"

record api_now =
  an_uptime :: int
  an_uptime_later :: int
  an_uplink :: uplink_status
  an_crash_size :: nat
  an_save_ret :: int

definition PSTOP_API_ADMIN_USER :: string where "PSTOP_API_ADMIN_USER = ''admin''"
definition PSTOP_API_BODY_MAX :: nat where [const_simps]: "PSTOP_API_BODY_MAX = 2048"
definition PSTOP_DEFAULT_MACHINE_ID :: u32 where
  [const_simps]: "PSTOP_DEFAULT_MACHINE_ID = 0x01020304"

section \<open>The admin gate\<close>

text \<open>\<open>None\<close> lets the request through, \<open>Some\<close> is the refusal already written.\<close>

definition admin_ok :: "('m, 'f) api_build \<Rightarrow> nat \<Rightarrow> string \<Rightarrow> api_reply option" where
  "admin_ok B cap auth =
     (if ab_password B = [] then
        Some (reply cap init_rsp 403
          (''{\"ok\":false,\"error\":\"admin disabled: no password configured\"}''))
      else if http_basic_auth_ok (ab_b64 B) (Some auth) (Some PSTOP_API_ADMIN_USER) (Some (ab_password B))
      then None
      else (case reply cap init_rsp 401 (''{\"ok\":false,\"error\":\"unauthorized\"}'') of
              (body, rsp) \<Rightarrow> Some (body, rsp\<lparr>rsp_auth_challenge := True\<rparr>)))"

definition role_str :: "('m, 'f) api_build \<Rightarrow> app_settings \<Rightarrow> string" where
  "role_str B cfg = ab_role_str B (if app_settings_is_operator cfg then PSTOP_AUX_ROLE_OPERATOR
     else PSTOP_AUX_ROLE_STOP_ONLY)"

section \<open>Telemetry\<close>

definition event_code :: "pstop_lockstep_event \<Rightarrow> u32" where
  "event_code e = (case e of PSTOP_LOCKSTEP_EVENT_NONE \<Rightarrow> 0 | PSTOP_LOCKSTEP_EVENT_TIMEOUT \<Rightarrow> 1
     | PSTOP_LOCKSTEP_EVENT_CONTENT \<Rightarrow> 2)"

definition pack_mm_last :: "pstop_lockstep_diag \<Rightarrow> u32" where
  "pack_mm_last d =
     (case last_kind d of
        PSTOP_LOCKSTEP_EVENT_CONTENT \<Rightarrow>
          push_bit 28 (event_code PSTOP_LOCKSTEP_EVENT_CONTENT) OR
          push_bit 24 (ucast (mismatch_slot d AND 3)) OR push_bit 16 (ucast (mismatch_offset d)) OR
          push_bit 8 (ucast (mismatch_verdict d 0)) OR ucast (mismatch_verdict d 1)
      | PSTOP_LOCKSTEP_EVENT_TIMEOUT \<Rightarrow>
          push_bit 28 (event_code PSTOP_LOCKSTEP_EVENT_TIMEOUT) OR
          push_bit 26 (ucast (late_mask d AND 3)) OR push_bit 16 0xFF
      | PSTOP_LOCKSTEP_EVENT_NONE \<Rightarrow> 0)"

text \<open>The sums over the active slots, and the last message of whichever replied most recently.\<close>

record totals =
  t_sent :: u32
  t_replies :: u32
  t_send_fail :: u32
  t_rebonds :: u32
  t_last_reply_ms :: u64
  t_last_msg :: u8

definition totals_step :: "'m pstop_lib \<Rightarrow> lockstep \<Rightarrow> nat \<Rightarrow> totals \<Rightarrow> totals" where
  "totals_step L ls slot t =
     (if \<not> pstop_lockstep_slot_active ls (int slot) then t
      else case pstop_lockstep_session ls (int slot) of None \<Rightarrow> t
      | Some s \<Rightarrow>
          (let t = t\<lparr>t_sent := t_sent t + s_sent s, t_replies := t_replies t + s_replies s,
                 t_send_fail := t_send_fail t + s_send_fail s, t_rebonds := t_rebonds t + s_rebonds s\<rparr>
           in if s_last_msg s \<noteq> MSG_UNKNOWN L \<and> s_last_reply_ms s \<ge> t_last_reply_ms t
              then t\<lparr>t_last_reply_ms := s_last_reply_ms s, t_last_msg := s_last_msg s\<rparr> else t))"

definition api_totals :: "'m pstop_lib \<Rightarrow> lockstep \<Rightarrow> totals" where
  "api_totals L ls = fold (totals_step L ls) [0..<PSTOP_MAX_MACHINES]
     \<lparr>t_sent = 0, t_replies = 0, t_send_fail = 0, t_rebonds = 0, t_last_reply_ms = 0,
      t_last_msg = MSG_UNKNOWN L\<rparr>"

definition sess_code :: "pstop_sess_state \<Rightarrow> int" where
  "sess_code s = (case s of PSTOP_SESS_IDLE \<Rightarrow> 0 | PSTOP_SESS_BONDING \<Rightarrow> 1 | PSTOP_SESS_BONDED \<Rightarrow> 2
     | PSTOP_SESS_REJECTED \<Rightarrow> 3)"

definition peer_or_zero :: "app_settings \<Rightarrow> nat \<Rightarrow> pstop_peer" where
  "peer_or_zero cfg slot =
     (case app_settings_peer_get cfg (int slot) of Inl _ \<Rightarrow> peer_zero | Inr peer \<Rightarrow> peer)"

definition state_machine :: "'m pstop_lib \<Rightarrow> 'f device \<Rightarrow> nat \<Rightarrow> string" where
  "state_machine L d slot =
     (let peer = peer_or_zero (d_cfg d) slot;
          active = pstop_lockstep_slot_active (d_lockstep d) (int slot);
          s = sessions (d_lockstep d) slot
      in ((if slot = 0 then '''' else '','') @ ''{\"cfg\":'' @
         fmt_d (flag (configured peer)) @ '',\"ip\":'' @
         fmt_u (if configured peer then peer_ip peer else 0) @ '',\"port\":'' @
         fmt_u (if configured peer then peer_port peer else 0) @ '',\"id\":'' @
         fmt_u (if configured peer then peer_id peer else 0) @ '',\"state\":'' @
         fmt_d (if active then sess_code (s_state s) else 0) @ '',\"sent\":'' @
         fmt_u (if active then s_sent s else 0) @ '',\"replies\":'' @
         fmt_u (if active then s_replies s else 0) @ '',\"send_fail\":'' @
         fmt_u (if active then s_send_fail s else 0) @ '',\"rebonds\":'' @
         fmt_u (if active then s_rebonds s else 0) @ '',\"unbonds\":'' @
         fmt_u (if active then s_unbonds s else 0) @ '',\"hb_ms\":'' @
         fmt_u (if active then s_hb_ms s else 0) @ '',\"last_msg\":'' @
         fmt_u (if active then s_last_msg s else MSG_UNKNOWN L) @ '',\"last_reply_ms\":'' @
         fmt_u (if active then s_last_reply_ms s else 0) @ ''}''))"

definition last_event_ms :: "pstop_lockstep_diag \<Rightarrow> u64" where
  "last_event_ms dg = (case last_kind dg of PSTOP_LOCKSTEP_EVENT_CONTENT \<Rightarrow> mismatch_uptime_ms dg
     | PSTOP_LOCKSTEP_EVENT_TIMEOUT \<Rightarrow> late_uptime_ms dg | PSTOP_LOCKSTEP_EVENT_NONE \<Rightarrow> 0)"

definition wifi_idx :: "('m, 'f) api_build \<Rightarrow> 'f device \<Rightarrow> int" where
  "wifi_idx B d = (if ab_wifi B then pstop_wifi_active_idx (d_wifi d) else -1)"

definition state_parts :: "('m, 'f) api_build \<Rightarrow> api_now \<Rightarrow> 'f device \<Rightarrow> string list" where
  "state_parts B N d =
     (let L = ab_lib B; ls = d_lockstep d; cfg = d_cfg d; dg = pstop_lockstep_diag_get ls;
          peer0 = peer_or_zero cfg 0; t = api_totals L ls;
          hi = (\<lambda>c. fst (pstop_lockstep_loop_health ls c)); lo = (\<lambda>c. snd (pstop_lockstep_loop_health ls c));
          ip = up_ipv4 (an_uplink N)
      in
      [(''{\"uptime_ms\":'' @ fmt_u (word_of_int (an_uptime N) :: u64) @
         '',\"fw_ver\":\"'' @ ab_version B @ ''\",\"fw_sha\":\"'' @ ab_sha B @ ''\",''),
       (''\"role\":\"'' @ role_str B cfg @ ''\",\"device_id\":'' @
         fmt_u (app_settings_effective_device_id cfg) @ '',''),
       (''\"l0\":'' @ fmt_u (pstop_lockstep_last_verdict L ls 0) @ '',\"l1\":'' @
         fmt_u (pstop_lockstep_last_verdict L ls 1) @ '',''),
       (''\"e_hi0\":'' @ fmt_d (flag (hi 0)) @ '',\"e_lo0\":'' @ fmt_d (flag (lo 0)) @
         '',\"e_hi1\":'' @ fmt_d (flag (hi 1)) @ '',\"e_lo1\":'' @ fmt_d (flag (lo 1)) @
         '',''),
       (''\"pstop_peer_ip\":'' @ fmt_u (if configured peer0 then peer_ip peer0 else 0) @
         '',\"pstop_peer_port\":'' @
         fmt_u (if configured peer0 then peer_port peer0 else 0) @ '',''),
       (''\"pstop_sent\":'' @ fmt_u (t_sent t) @ '',\"pstop_replies\":'' @
         fmt_u (t_replies t) @ '',\"pstop_last_msg\":'' @ fmt_u (t_last_msg t) @
         '',\"pstop_send_fail\":'' @ fmt_u (t_send_fail t) @ '',\"pstop_rebonds\":'' @
         fmt_u (t_rebonds t) @ '',\"pstop_last_reply_ms\":'' @ fmt_u (t_last_reply_ms t) @
         '',''),
       (''\"pstop_mismatch\":'' @
         fmt_u (pstop_lockstep_mismatches ls + pstop_lockstep_missed_deadlines ls) @
         '',\"pstop_mm_timeout\":'' @ fmt_u (pstop_lockstep_missed_deadlines ls) @
         '',\"pstop_mm_content\":'' @ fmt_u (pstop_lockstep_mismatches ls) @
         '',\"pstop_mm_last\":['' @ fmt_u (pack_mm_last dg) @ '',0,'' @
         fmt_u (last_event_ms dg) @ ''],\"pstop_core_lat_max_ms\":['' @
         fmt_u (latency_max_ms dg 0) @ '','' @ fmt_u (latency_max_ms dg 1) @
         ''],\"pstop_gated_ticks\":'' @ fmt_u (pstop_lockstep_gated_ticks ls) @ '',''),
       (''\"health\":'' @ fmt_d (health_level (d_health d)) @ '',\"ring_offset\":'' @
         fmt_u (app_settings_ring_offset cfg) @ '',\"ring_led1\":'' @
         fmt_d (flag (leds_locate_active (d_locate_until d) (an_uptime_later N))) @
         '',\"active_iface\":\"'' @ uplink_kind_str (up_kind (an_uplink N)) @
         ''\",\"local_ip\":\"'' @ fmt_u (drop_bit 24 ip AND 0xFF) @ ''.'' @
         fmt_u (drop_bit 16 ip AND 0xFF) @ ''.'' @ fmt_u (drop_bit 8 ip AND 0xFF) @ ''.'' @
         fmt_u (ip AND 0xFF) @ ''\",\"wifi_idx\":'' @ fmt_d (wifi_idx B d) @
         '',\"crash_present\":'' @ fmt_d (flag (an_crash_size N > 0)) @ '',''),
       (''\"pstop_machines\":['')] @
      map (state_machine L d) [0..<PSTOP_MAX_MACHINES] @
      [('']}'')])"

definition pstop_api_state :: "('m, 'f) api_build \<Rightarrow> api_now \<Rightarrow> nat \<Rightarrow> 'f device \<Rightarrow> api_reply" where
  "pstop_api_state B N cap d = finish (out_all (state_parts B N d) (out_new cap)) 200 init_rsp"

section \<open>The peer table\<close>

definition set_slot ::
  "('m, 'f) api_build \<Rightarrow> int \<Rightarrow> string \<Rightarrow> 'f device \<Rightarrow> ((int \<times> string) + (u32 \<times> u32 \<times> u32)) \<times> 'f device" where
  "set_slot B slot url d =
     (let bad_ip = (Inl (- EINVAL, ''bad or missing ip''), d);
          bad_port = (Inl (- EINVAL, ''bad or missing port''), d);
          bad_id = (Inl (- EINVAL, ''bad id''), d);
          store = (\<lambda>ip port pid.
            (case app_settings_set_peer (ab_backend B) (d_store d) (d_cfg d) slot ip (ucast port) pid of
               (ret, f, cfg) \<Rightarrow>
                 if ret \<noteq> 0 then (Inl (ret, ''settings write failed''), d\<lparr>d_store := f, d_cfg := cfg\<rparr>)
                 else (Inr (ip, port, pid), d\<lparr>d_store := f, d_cfg := cfg,
                        d_lockstep := snd (pstop_lockstep_request_reconfigure slot (d_lockstep d))\<rparr>)))
      in
      case http_query_get (Some url) ''ip'' 24 of Inl _ \<Rightarrow> bad_ip | Inr val \<Rightarrow>
     (case http_parse_ipv4 (Some val) of Inl _ \<Rightarrow> bad_ip | Inr ip \<Rightarrow>
     (case http_query_get (Some url) ''port'' 24 of Inl _ \<Rightarrow> bad_port | Inr val \<Rightarrow>
     (case http_parse_u32 (Some val) of Inl _ \<Rightarrow> bad_port | Inr port \<Rightarrow>
      if port < 1 \<or> port > 65535 then bad_port else
     (case http_query_get (Some url) ''id'' 24 of
        Inl ret \<Rightarrow> if ret \<noteq> - ENOENT then bad_id else store ip port PSTOP_DEFAULT_MACHINE_ID
      | Inr val \<Rightarrow>
          (case http_parse_u32 (Some val) of Inl _ \<Rightarrow> bad_id | Inr pid \<Rightarrow>
             if pid = 0 then bad_id else store ip port pid))))))"

definition clear_slot :: "('m, 'f) api_build \<Rightarrow> int \<Rightarrow> 'f device \<Rightarrow> int \<times> 'f device" where
  "clear_slot B slot d =
     (case app_settings_clear_peer (ab_backend B) (d_store d) (d_cfg d) slot of (ret, f, cfg) \<Rightarrow>
        (ret, if ret = 0
              then d\<lparr>d_store := f, d_cfg := cfg,
                     d_lockstep := snd (pstop_lockstep_request_reconfigure slot (d_lockstep d))\<rparr>
              else d\<lparr>d_store := f, d_cfg := cfg\<rparr>))"

definition set_slot_error :: "nat \<Rightarrow> int \<times> string \<Rightarrow> api_reply" where
  "set_slot_error cap e =
     (case e of (ret, err) \<Rightarrow>
        reply cap init_rsp (if ret = - EINVAL then 400 else 500) (''{\"ok\":false,\"error\":\"'' @ err @ ''\"}''))"

definition pstop_api_pstop_peer ::
  "('m, 'f) api_build \<Rightarrow> nat \<Rightarrow> string \<Rightarrow> 'f device \<Rightarrow> api_reply \<times> 'f device" where
  "pstop_api_pstop_peer B cap url d =
     (if http_query_flag (Some url) ''clear''
      then (case clear_slot B 0 d of (ret, d) \<Rightarrow>
              (reply cap init_rsp (if ret = 0 then 200 else 500)
                 (''{\"ok\":'' @ fmt_bool (ret = 0) @ '',\"cleared\":true}''), d))
      else (case set_slot B 0 url d of
              (Inl e, d) \<Rightarrow> (set_slot_error cap e, d)
            | (Inr (ip, port, pid), d) \<Rightarrow>
                (reply cap init_rsp 200
                   (''{\"ok\":true,\"ip\":\"'' @ show_ipv4 ip @ ''\",\"port\":'' @ fmt_u port @ ''}''), d)))"

definition pstop_api_pstop_peers ::
  "('m, 'f) api_build \<Rightarrow> nat \<Rightarrow> string \<Rightarrow> 'f device \<Rightarrow> api_reply \<times> 'f device" where
  "pstop_api_pstop_peers B cap url d =
     (let missing = (reply cap init_rsp 400 (''{\"ok\":false,\"error\":\"missing slot\"}''), d) in
      case http_query_get (Some url) ''slot'' 8 of Inl _ \<Rightarrow> missing | Inr val \<Rightarrow>
     (case http_parse_u32 (Some val) of Inl _ \<Rightarrow> missing | Inr slot \<Rightarrow>
      if unat slot \<ge> PSTOP_MAX_MACHINES
      then (reply cap init_rsp 400 (''{\"ok\":false,\"error\":\"slot out of range\"}''), d)
      else if http_query_flag (Some url) ''rebond''
      then (reply cap init_rsp 200 (''{\"ok\":true,\"slot\":'' @ fmt_u slot @ '',\"rebond\":true}''),
            d\<lparr>d_lockstep := snd (pstop_lockstep_request_rebond (uint slot) (d_lockstep d))\<rparr>)
      else if http_query_flag (Some url) ''clear''
      then (case clear_slot B (uint slot) d of (ret, d) \<Rightarrow>
              (reply cap init_rsp (if ret = 0 then 200 else 500)
                 (''{\"ok\":'' @ fmt_bool (ret = 0) @ '',\"slot\":'' @ fmt_u slot @
         '',\"cleared\":true}''), d))
      else (case set_slot B (uint slot) url d of
              (Inl e, d) \<Rightarrow> (set_slot_error cap e, d)
            | (Inr (ip, port, pid), d) \<Rightarrow>
                (reply cap init_rsp 200
                   (''{\"ok\":true,\"slot\":'' @ fmt_u slot @ '',\"ip\":\"'' @ show_ipv4 ip @
         ''\",\"port\":'' @ fmt_u port @ '',\"id\":'' @ fmt_u pid @ ''}''), d))))"

section \<open>Role, ring and locate\<close>

definition settings_write_failed :: "nat \<Rightarrow> api_reply" where
  "settings_write_failed cap = reply cap init_rsp 500 (''{\"ok\":false,\"error\":\"settings write failed\"}'')"

definition pstop_api_role ::
  "('m, 'f) api_build \<Rightarrow> nat \<Rightarrow> bool \<Rightarrow> string \<Rightarrow> string \<Rightarrow> 'f device \<Rightarrow> api_reply \<times> 'f device" where
  "pstop_api_role B cap post url auth d =
     (case admin_ok B cap auth of Some refusal \<Rightarrow> (refusal, d) | None \<Rightarrow>
      if post
      then (case http_query_get (Some url) ''role'' 16 of
              Inl _ \<Rightarrow> (reply cap init_rsp 400 (''{\"ok\":false,\"error\":\"missing role\"}''), d)
            | Inr val \<Rightarrow>
                if val \<noteq> ''operator'' \<and> val \<noteq> ''stop_only''
                then (reply cap init_rsp 400
                        (''{\"ok\":false,\"error\":\"role must be stop_only or operator\"}''), d)
                else (case app_settings_set_operator (ab_backend B) (d_store d) (d_cfg d) (val = ''operator'') of
                        (ret, f, cfg) \<Rightarrow>
                          if ret \<noteq> 0 then (settings_write_failed cap, d\<lparr>d_store := f, d_cfg := cfg\<rparr>)
                          else (reply cap init_rsp 200
                                  (''{\"ok\":true,\"role\":\"'' @ role_str B cfg @ ''\",\"applied\":true}''),
                                d\<lparr>d_store := f, d_cfg := cfg\<rparr>)))
      else (reply cap init_rsp 200 (''{\"ok\":true,\"role\":\"'' @ role_str B (d_cfg d) @ ''\"}''), d))"

definition pstop_api_ring_offset ::
  "('m, 'f) api_build \<Rightarrow> nat \<Rightarrow> string \<Rightarrow> 'f device \<Rightarrow> api_reply \<times> 'f device" where
  "pstop_api_ring_offset B cap url d =
     (let bad = (reply cap init_rsp 400 (''{\"ok\":false,\"error\":\"n must be 0..15\"}''), d) in
      case http_query_get (Some url) ''n'' 8 of Inl _ \<Rightarrow> bad | Inr val \<Rightarrow>
     (case http_parse_u32 (Some val) of Inl _ \<Rightarrow> bad | Inr n \<Rightarrow>
      if n > 15 then bad
      else (case app_settings_set_ring_offset (ab_backend B) (d_store d) (d_cfg d) (ucast n) of
              (ret, f, cfg) \<Rightarrow>
                if ret \<noteq> 0 then (settings_write_failed cap, d\<lparr>d_store := f, d_cfg := cfg\<rparr>)
                else (reply cap init_rsp 200 (''{\"ok\":true,\"ring_offset\":'' @ fmt_u n @ ''}''),
                      d\<lparr>d_store := f, d_cfg := cfg\<rparr>))))"

definition pstop_api_ring_led1 ::
  "api_now \<Rightarrow> nat \<Rightarrow> string \<Rightarrow> 'f device \<Rightarrow> api_reply \<times> 'f device" where
  "pstop_api_ring_led1 N cap url d =
     (let bad = (reply cap init_rsp 400 (''{\"ok\":false,\"error\":\"on must be 0 or 1\"}''), d) in
      case http_query_get (Some url) ''on'' 4 of Inl _ \<Rightarrow> bad | Inr val \<Rightarrow>
      if val \<noteq> ''0'' \<and> val \<noteq> ''1'' then bad
      else (let on = (val ! 0 = CHR ''1'') in
            (reply cap init_rsp 200 (''{\"ok\":true,\"ring_led1\":'' @ fmt_d (flag on) @ '',\"ring_offset\":'' @
         fmt_u (app_settings_ring_offset (d_cfg d)) @ ''}''),
             d\<lparr>d_locate_until := leds_locate on (an_uptime N)\<rparr>)))"

section \<open>Status and restart\<close>

definition pstop_api_admin_status ::
  "('m, 'f) api_build \<Rightarrow> api_now \<Rightarrow> nat \<Rightarrow> string \<Rightarrow> 'f device \<Rightarrow> api_reply" where
  "pstop_api_admin_status B N cap auth d =
     (case admin_ok B cap auth of Some refusal \<Rightarrow> refusal | None \<Rightarrow>
      (let active = length (filter (\<lambda>slot. pstop_lockstep_slot_active (d_lockstep d) (int slot))
                              [0..<PSTOP_MAX_MACHINES])
       in reply cap init_rsp 200
            (''{\"ok\":true,\"fw_ver\":\"'' @ ab_version B @ ''\",\"fw_sha\":\"'' @ ab_sha B @
         ''\",\"uptime_ms\":'' @ fmt_u (word_of_int (an_uptime N) :: u64) @
         '',\"device_id\":'' @ fmt_u (app_settings_effective_device_id (d_cfg d)) @
         '',\"role\":\"'' @ role_str B (d_cfg d) @ ''\",\"sessions\":'' @
         fmt_d (int active) @ ''}'')))"

definition pstop_api_admin_restart :: "('m, 'f) api_build \<Rightarrow> nat \<Rightarrow> string \<Rightarrow> api_reply" where
  "pstop_api_admin_restart B cap auth =
     (case admin_ok B cap auth of Some refusal \<Rightarrow> refusal | None \<Rightarrow>
      (case reply cap init_rsp 200 (''{\"ok\":true,\"message\":\"rebooting in 500 ms\"}'') of
         (body, rsp) \<Rightarrow> (body, rsp\<lparr>rsp_restart := True\<rparr>)))"

section \<open>Wear counters\<close>

text \<open>\<open>(unsigned int)((now - w->first_ms) / MSEC_PER_SEC)\<close>, in 64-bit unsigned arithmetic.\<close>

definition warning_age_s :: "u64 \<Rightarrow> u64 \<Rightarrow> u32" where
  "warning_age_s now first_ms = ucast ((now - first_ms) div 1000)"

definition health_part :: "u64 \<Rightarrow> health_board \<Rightarrow> nat \<Rightarrow> string" where
  "health_part now b i =
     (let w = hb_w b i in
      ((if i = 0 then '''' else '','') @ ''{\"src\":\"'' @ hw_src w @ ''\",\"level\":'' @
         fmt_d (hw_level w) @ '',\"msg\":\"'' @ hw_msg w @ ''\",\"count\":'' @
         fmt_u (hw_count w) @ '',\"age_s\":'' @ fmt_u (warning_age_s now (hw_first_ms w)) @
         ''}''))"

definition health_parts :: "('m, 'f) api_build \<Rightarrow> u64 \<Rightarrow> health_snapshot \<Rightarrow> string list" where
  "health_parts B now snap =
     (let c = hs_counters snap in
      [(''{\"ok\":true,\"level\":'' @ fmt_d (hs_level snap) @ '',\"presses\":'' @
         fmt_u (hc_presses c) @ '',\"mismatch_events\":'' @ fmt_u (hc_mismatch_events c) @
         '',\"uptime_s\":'' @ fmt_u (hc_uptime_s c) @ '',\"boots\":'' @ fmt_u (hc_boots c) @
         '',\"flashes\":'' @ fmt_u (hc_flashes c) @ '',\"otas\":'' @ fmt_u (hc_otas c) @
         '',\"button_swaps\":'' @ fmt_u (hc_button_swaps c) @ '',\"button_rated_ops\":'' @
         fmt_u (hs_button_rated_ops snap) @ '',\"button_wear_pct\":'' @
         fmt_u (hs_button_wear_pct snap) @ '',\"fw_sha\":\"'' @ ab_sha B @
         ''\",\"nvs_flushes\":'' @ fmt_u (hs_flushes snap) @ '',\"nvs_flush_fails\":'' @
         fmt_u (hs_flush_fails snap) @ '',\"last_flush_age_s\":'' @
         fmt_u (hs_last_flush_age_s snap) @ '',\"warnings\":['')] @
      map (health_part now (hs_board snap)) [0..<hb_n (hs_board snap)] @
      [(''],\"dropped\":'' @ fmt_u (hb_dropped (hs_board snap)) @ ''}'')])"

definition pstop_api_health ::
  "('m, 'f) api_build \<Rightarrow> api_now \<Rightarrow> nat \<Rightarrow> 'f device \<Rightarrow> api_reply \<times> 'f device" where
  "pstop_api_health B N cap d =
     (let now = word_of_int (an_uptime N);
          (snap, h) = health_snapshot_get (ab_health_cfg B) (an_uptime_later N) (d_health d)
      in (finish (out_all (health_parts B now snap) (out_new cap)) 200 init_rsp, d\<lparr>d_health := h\<rparr>))"

text \<open>The blobs a counter reset saved replace the stored one.\<close>

definition put_health :: "bytes list \<Rightarrow> health \<Rightarrow> 'f device \<Rightarrow> 'f device" where
  "put_health blobs h d = d\<lparr>d_health := h,
     d_health_blob := (if blobs = [] then d_health_blob d else Some (last blobs))\<rparr>"

definition pstop_api_health_reset ::
  "('m, 'f) api_build \<Rightarrow> api_now \<Rightarrow> nat \<Rightarrow> string \<Rightarrow> string \<Rightarrow> 'f device \<Rightarrow> api_reply \<times> 'f device" where
  "pstop_api_health_reset B N cap url auth d =
     (case admin_ok B cap auth of Some refusal \<Rightarrow> (refusal, d) | None \<Rightarrow>
      if \<not> http_query_flag (Some url) ''confirm''
      then (reply cap init_rsp 400 (''{\"ok\":false,\"error\":\"confirm=1 required\"}''), d)
      else
        (let what = (case http_query_get (Some url) ''what'' 8 of Inl _ \<Rightarrow> '''' | Inr v \<Rightarrow> v);
             answer = (\<lambda>(ret, blobs, h).
               (reply cap init_rsp (if ret = 0 then 200 else 500)
                  (''{\"ok\":'' @ fmt_bool (ret = 0) @ '',\"reset\":\"'' @ what @ ''\"}''), put_health blobs h d))
         in if what = ''button''
            then answer (health_reset_button (ab_health_cfg B) (an_uptime N) (an_save_ret N) (d_health d))
            else if what = ''all''
            then answer (health_reset_all (ab_health_cfg B) (ab_fw_id B) (an_uptime N) (an_save_ret N) (d_health d))
            else (reply cap init_rsp 400 (''{\"ok\":false,\"error\":\"what must be button or all\"}''), d)))"

section \<open>Dump and page\<close>

definition pstop_api_coredump ::
  "('m, 'f) api_build \<Rightarrow> api_now \<Rightarrow> nat \<Rightarrow> string \<Rightarrow> api_reply \<times> nat" where
  "pstop_api_coredump B N cap auth =
     (case admin_ok B cap auth of Some refusal \<Rightarrow> (refusal, 0) | None \<Rightarrow>
      if an_crash_size N = 0
      then (reply cap init_rsp 404 (''{\"ok\":false,\"error\":\"no coredump\"}''), 0)
      else (([], init_rsp\<lparr>rsp_status := 200\<rparr>), an_crash_size N))"

definition pstop_api_admin_page :: "('m, 'f) api_build \<Rightarrow> nat \<Rightarrow> string \<Rightarrow> api_reply" where
  "pstop_api_admin_page B cap auth =
     (case admin_ok B cap auth of Some refusal \<Rightarrow> refusal | None \<Rightarrow> ([], init_rsp\<lparr>rsp_status := 200\<rparr>))"

section \<open>Settings\<close>

definition pstop_api_admin_settings ::
  "('m, 'f) api_build \<Rightarrow> nat \<Rightarrow> bool \<Rightarrow> string \<Rightarrow> string \<Rightarrow> 'f device \<Rightarrow> api_reply \<times> 'f device" where
  "pstop_api_admin_settings B cap post body auth d =
     (case admin_ok B cap auth of Some refusal \<Rightarrow> (refusal, d) | None \<Rightarrow>
      (let answer = (\<lambda>d.
         (reply cap init_rsp 200
            (''{\"ok\":true,\"ring_offset\":'' @ fmt_u (app_settings_ring_offset (d_cfg d)) @
         '',\"device_id\":'' @ fmt_u (app_settings_effective_device_id (d_cfg d)) @
         '',\"device_id_pinned\":'' @
         fmt_bool (app_settings_device_id (d_cfg d) \<noteq> 0) @ ''}''), d));
          set_id = (\<lambda>did d.
            (case app_settings_set_device_id (ab_backend B) (d_store d) (d_cfg d) did of (ret, f, cfg) \<Rightarrow>
               if ret \<noteq> 0 then (settings_write_failed cap, d\<lparr>d_store := f, d_cfg := cfg\<rparr>)
               else answer (d\<lparr>d_store := f, d_cfg := cfg,
                 d_lockstep := fold (\<lambda>slot ls. snd (pstop_lockstep_request_reconfigure (int slot) ls))
                   [0..<PSTOP_MAX_MACHINES] (d_lockstep d)\<rparr>)))
       in
       if \<not> post then answer d
       else (case ab_json_settings B body of (found, in_ring_offset, in_device_id) \<Rightarrow>
         if found \<le> 0
         then (reply cap init_rsp 400
                 (''{\"ok\":false,\"error\":\"expected a JSON object with ring_offset and/or device_id\"}''), d)
         else if bit found 0 \<and> in_ring_offset > 15
         then (reply cap init_rsp 400 (''{\"ok\":false,\"error\":\"ring_offset must be 0..15\"}''), d)
         else
           (case (if bit found 0
                  then app_settings_set_ring_offset (ab_backend B) (d_store d) (d_cfg d) (ucast in_ring_offset)
                  else (0, d_store d, d_cfg d)) of
              (ret, f, cfg) \<Rightarrow>
                if ret \<noteq> 0 then (settings_write_failed cap, d\<lparr>d_store := f, d_cfg := cfg\<rparr>)
                else if bit found 1 then set_id in_device_id (d\<lparr>d_store := f, d_cfg := cfg\<rparr>)
                else answer (d\<lparr>d_store := f, d_cfg := cfg\<rparr>)))))"

section \<open>WiFi networks\<close>

definition WIFI_MASK :: string where "WIFI_MASK = ''********''"

definition plain_string :: "string \<Rightarrow> bool" where
  "plain_string s \<longleftrightarrow> (\<forall>c \<in> set s. \<not> (c = CHR 0x22 \<or> c = CHR 0x5C \<or> (of_char c :: nat) < 0x20))"

definition stored_pass :: "app_settings \<Rightarrow> string \<Rightarrow> string" where
  "stored_pass cfg s =
     (case find (\<lambda>j. case app_settings_wifi_get cfg (int j) of Inl _ \<Rightarrow> False | Inr old \<Rightarrow> ssid old = s)
             [0..<PSTOP_WIFI_MAX] of
        None \<Rightarrow> ''''
      | Some j \<Rightarrow> (case app_settings_wifi_get cfg (int j) of Inl _ \<Rightarrow> '''' | Inr old \<Rightarrow> pass old))"

fun wifi_from_json_loop ::
  "app_settings \<Rightarrow> nat \<Rightarrow> (string option \<times> string option) list \<Rightarrow> (nat \<Rightarrow> pstop_wifi_net) \<Rightarrow>
     string + (nat \<Rightarrow> pstop_wifi_net)" where
  "wifi_from_json_loop cfg i [] nets = Inr nets"
| "wifi_from_json_loop cfg i ((s, p) # rest) nets =
     (let p = (case p of Some p \<Rightarrow> p | None \<Rightarrow> '''') in
      case s of
        None \<Rightarrow> Inl ''ssid must be 1..32 plain characters''
      | Some s \<Rightarrow>
          if s = [] \<or> length s > PSTOP_WIFI_SSID_MAX \<or> \<not> plain_string s
          then Inl ''ssid must be 1..32 plain characters''
          else if p = WIFI_MASK
          then wifi_from_json_loop cfg (i + 1) rest (nets(i := \<lparr>ssid = s, pass = stored_pass cfg s\<rparr>))
          else if p \<noteq> [] \<and> (length p < 8 \<or> length p > PSTOP_WIFI_PASS_MAX \<or> \<not> plain_string p)
          then Inl ''pass must be empty (open network) or 8..64 plain characters''
          else wifi_from_json_loop cfg (i + 1) rest (nets(i := \<lparr>ssid = s, pass = p\<rparr>)))"

definition wifi_from_json ::
  "app_settings \<Rightarrow> (string option \<times> string option) list \<Rightarrow> string + (nat \<Rightarrow> pstop_wifi_net)" where
  "wifi_from_json cfg networks = wifi_from_json_loop cfg 0 networks (\<lambda>_. wifi_zero)"

text \<open>The listing: the loop over the slots, with \<open>first\<close> threaded through.\<close>

fun wifi_list :: "app_settings \<Rightarrow> nat list \<Rightarrow> bool \<Rightarrow> string list" where
  "wifi_list cfg [] first = []"
| "wifi_list cfg (i # is) first =
     (case app_settings_wifi_get cfg (int i) of
        Inl _ \<Rightarrow> wifi_list cfg is first
      | Inr net \<Rightarrow>
          if ssid net = [] then wifi_list cfg is first
          else ((if first then '''' else '','') @ ''{\"ssid\":\"'' @ ssid net @
         ''\",\"pass\":\"'' @ (if pass net \<noteq> [] then WIFI_MASK else '''') @ ''\"}'')
               # wifi_list cfg is False)"

definition wifi_reply :: "('m, 'f) api_build \<Rightarrow> nat \<Rightarrow> 'f device \<Rightarrow> api_reply" where
  "wifi_reply B cap d =
     finish (out_all ([(''{\"ok\":true,\"networks\":['')] @ wifi_list (d_cfg d) [0..<PSTOP_WIFI_MAX] True @
       [(''],\"active_idx\":'' @ fmt_d (wifi_idx B d) @ ''}'')]) (out_new cap)) 200 init_rsp"

definition pstop_api_admin_wifi ::
  "('m, 'f) api_build \<Rightarrow> nat \<Rightarrow> bool \<Rightarrow> string \<Rightarrow> string \<Rightarrow> 'f device \<Rightarrow> api_reply \<times> 'f device" where
  "pstop_api_admin_wifi B cap post body auth d =
     (case admin_ok B cap auth of Some refusal \<Rightarrow> (refusal, d) | None \<Rightarrow>
      if \<not> post then (wifi_reply B cap d, d)
      else (case ab_json_wifi B body of (found, networks) \<Rightarrow>
        if found \<noteq> 1
        then (reply cap init_rsp 400
                (''{\"ok\":false,\"error\":\"expected {'' @ [CHR 0x5C] @ ''\"networks'' @ [CHR 0x5C] @ ''\":[{'' @ [CHR 0x5C] @ ''\"ssid'' @ [CHR 0x5C] @ ''\",'' @ [CHR 0x5C] @ ''\"pass'' @ [CHR 0x5C] @ ''\"}]}, at most 4\"}''), d)
        else (case wifi_from_json (d_cfg d) networks of
          Inl err \<Rightarrow> (reply cap init_rsp 400 (''{\"ok\":false,\"error\":\"'' @ err @ ''\"}''), d)
        | Inr nets \<Rightarrow>
            (case app_settings_wifi_set_all (ab_backend B) (d_store d) (d_cfg d) nets of
               (ret, f, cfg) \<Rightarrow>
                 if ret \<noteq> 0 then (settings_write_failed cap, d\<lparr>d_store := f, d_cfg := cfg\<rparr>)
                 else (let d = d\<lparr>d_store := f, d_cfg := cfg,
                             d_wifi := (if ab_wifi B then pstop_wifi_reload (d_wifi d) else d_wifi d)\<rparr>
                       in (wifi_reply B cap d, d))))))"

section \<open>Verbose logging\<close>

definition pstop_api_admin_verbose ::
  "('m, 'f) api_build \<Rightarrow> nat \<Rightarrow> bool \<Rightarrow> string \<Rightarrow> 'f device \<Rightarrow> api_reply \<times> 'f device" where
  "pstop_api_admin_verbose B cap toggle auth d =
     (case admin_ok B cap auth of Some refusal \<Rightarrow> (refusal, d) | None \<Rightarrow>
      if toggle
      then (case pstop_verbose_set (ab_verbose B) (ab_log_sources B) (\<not> pstop_verbose_get (d_verbose d))
                   (d_verbose d) of
              (ret, filters, v) \<Rightarrow>
                (let d = d\<lparr>d_verbose := v, d_log_levels := d_log_levels d ++ map_of filters\<rparr> in
                 if ret \<noteq> 0
                 then (reply cap init_rsp 501 (''{\"ok\":false,\"error\":\"verbose logging not built in\"}''), d)
                 else (reply cap init_rsp 200 (''{\"ok\":true,\"verbose\":'' @ fmt_bool (pstop_verbose_get (d_verbose d)) @ ''}''), d)))
      else (reply cap init_rsp 200 (''{\"verbose\":'' @ fmt_bool (pstop_verbose_get (d_verbose d)) @ ''}''), d))"

end
