(* ===== verification/Api_Safety.thy ===== *)
theory Api_Safety
  imports Api
begin

text \<open>
  What the control plane promises (\<open>protective_stop/src/api.c\<close>): the admin gate as the locale
  \<open>admin_route\<close> with an interpretation per guarded handler, bodies that are complete or
  an error, peers and networks that are stored whole or not at all, passwords that are
  never shown, and the packed fault word.
\<close>

section \<open>The admin gate\<close>

definition authorised :: "('m, 'f) api_build \<Rightarrow> string \<Rightarrow> bool" where
  "authorised B auth \<longleftrightarrow> ab_password B \<noteq> [] \<and>
     http_basic_auth_ok (ab_b64 B) (Some auth) (Some PSTOP_API_ADMIN_USER) (Some (ab_password B))"

definition refusal :: "api_reply \<Rightarrow> bool" where
  "refusal r \<longleftrightarrow> rsp_status (snd r) \<in> {401, 403, 500} \<and> \<not> rsp_restart (snd r)"

lemma whole_or_error_restart: "rsp_restart (snd (whole_or_error cap rsp status s)) = rsp_restart rsp"
  by (simp add: whole_or_error_def Let_def)

lemma whole_or_error_status:
  "rsp_status (snd (whole_or_error cap rsp status s)) = (if length s < cap then status else 500)"
  by (simp add: whole_or_error_def Let_def)

lemma reply_status: "rsp_status (snd (reply cap rsp status s)) = (if length s < cap then status else 500)"
  by (simp add: reply_whole whole_or_error_status)

lemma reply_restart: "rsp_restart (snd (reply cap rsp status s)) = rsp_restart rsp"
  by (simp add: reply_whole whole_or_error_restart)

lemma admin_ok_iff: "admin_ok B cap auth = None \<longleftrightarrow> authorised B auth"
  by (simp add: admin_ok_def authorised_def split: prod.split)

lemma admin_ok_refusal:
  assumes "\<not> authorised B auth"
  obtains r where "admin_ok B cap auth = Some r" and "refusal r"
proof -
  obtain r where r: "admin_ok B cap auth = Some r"
    using assms admin_ok_iff [of B cap auth] by (cases "admin_ok B cap auth") auto
  have "refusal r"
  proof (cases "ab_password B = []")
    case True
    with r have "r = reply cap init_rsp 403
        ''{\"ok\":false,\"error\":\"admin disabled: no password configured\"}''"
      by (simp add: admin_ok_def)
    then show ?thesis by (simp add: refusal_def reply_status reply_restart init_rsp_def)
  next
    case False
    define s where "s = reply cap init_rsp 401 ''{\"ok\":false,\"error\":\"unauthorized\"}''"
    have "rsp_status (snd s) \<in> {401, 500}" "\<not> rsp_restart (snd s)"
      by (simp_all add: s_def reply_status reply_restart init_rsp_def)
    moreover have "r = (fst s, (snd s)\<lparr>rsp_auth_challenge := True\<rparr>)"
      using r False assms by (simp add: admin_ok_def authorised_def s_def [symmetric] case_prod_unfold)
    ultimately show ?thesis by (auto simp: refusal_def)
  qed
  with r show ?thesis by (rule that)
qed

text \<open>The contract of a guarded route: a refusal by the gate is the whole answer.\<close>

locale admin_route =
  fixes handle :: "('m, 'f) api_build \<Rightarrow> nat \<Rightarrow> string \<Rightarrow> 'f device \<Rightarrow> api_reply \<times> 'f device"
  assumes gated: "admin_ok B cap auth = Some r \<Longrightarrow> handle B cap auth d = (r, d)"
begin

lemma refused:
  assumes "\<not> authorised B auth"
  shows "refusal (fst (handle B cap auth d)) \<and> snd (handle B cap auth d) = d"
proof -
  from assms obtain r where "admin_ok B cap auth = Some r" "refusal r" by (rule admin_ok_refusal)
  then show ?thesis by (simp add: gated)
qed

end

interpretation role_route: admin_route "\<lambda>B cap auth. pstop_api_role B cap post url auth" for post url
  by unfold_locales (simp add: pstop_api_role_def)

interpretation status_route: admin_route "\<lambda>B cap auth d. (pstop_api_admin_status B N cap auth d, d)" for N
  by unfold_locales (simp add: pstop_api_admin_status_def)

interpretation restart_route: admin_route "\<lambda>B cap auth d. (pstop_api_admin_restart B cap auth, d)"
  by unfold_locales (simp add: pstop_api_admin_restart_def)

interpretation reset_route: admin_route "\<lambda>B cap auth. pstop_api_health_reset B N cap url auth" for N url
  by unfold_locales (simp add: pstop_api_health_reset_def)

interpretation dump_route: admin_route "\<lambda>B cap auth d. (fst (pstop_api_coredump B N cap auth), d)" for N
  by unfold_locales (simp add: pstop_api_coredump_def)

interpretation page_route: admin_route "\<lambda>B cap auth d. (pstop_api_admin_page B cap auth, d)"
  by unfold_locales (simp add: pstop_api_admin_page_def)

interpretation settings_route: admin_route "\<lambda>B cap auth. pstop_api_admin_settings B cap post body auth"
  for post body
  by unfold_locales (simp add: pstop_api_admin_settings_def)

interpretation wifi_route: admin_route "\<lambda>B cap auth. pstop_api_admin_wifi B cap post body auth" for post body
  by unfold_locales (simp add: pstop_api_admin_wifi_def)

interpretation verbose_route: admin_route "\<lambda>B cap auth. pstop_api_admin_verbose B cap toggle auth" for toggle
  by unfold_locales (simp add: pstop_api_admin_verbose_def)

text \<open>
  Without the configured admin password nothing behind the gate happens: the role, the
  counter reset, the settings, the networks and the verbose switch leave the device exactly
  as it was, no restart is ordered, no dump and no page is let out, and the answer is 401, 403
  or, in a buffer too small for it, 500.
\<close>

lemma api_admin_gate:
  assumes "\<not> authorised B auth"
  shows "(refusal (fst (pstop_api_role B cap post url auth d)) \<and> snd (pstop_api_role B cap post url auth d) = d) \<and>
    (refusal (pstop_api_admin_status B N cap auth d)) \<and>
    (refusal (pstop_api_admin_restart B cap auth)) \<and>
    (refusal (fst (pstop_api_health_reset B N cap url auth d)) \<and>
         snd (pstop_api_health_reset B N cap url auth d) = d) \<and>
    (refusal (fst (pstop_api_coredump B N cap auth))) \<and>
    (refusal (pstop_api_admin_page B cap auth)) \<and>
    (refusal (fst (pstop_api_admin_settings B cap post body auth d)) \<and>
         snd (pstop_api_admin_settings B cap post body auth d) = d) \<and>
    (refusal (fst (pstop_api_admin_wifi B cap post body auth d)) \<and>
         snd (pstop_api_admin_wifi B cap post body auth d) = d) \<and>
    (refusal (fst (pstop_api_admin_verbose B cap toggle auth d)) \<and>
         snd (pstop_api_admin_verbose B cap toggle auth d) = d)"
  using role_route.refused [OF assms] status_route.refused [OF assms] restart_route.refused [OF assms]
    reset_route.refused [OF assms] dump_route.refused [OF assms] page_route.refused [OF assms]
    settings_route.refused [OF assms] wifi_route.refused [OF assms] verbose_route.refused [OF assms]
  by simp_all

text \<open>A build and a device the witnesses run on; the demonstration decoder takes text as it is.\<close>

definition demo_build :: "(wire_msg, (string \<times> bytes) list) api_build" where
  "demo_build = \<lparr>ab_lib = wire_lib, ab_backend = demo_backend, ab_b64 = (\<lambda>cap s. (0, map char_byte s)),
     ab_json_settings = (\<lambda>body. (3, 4, 77)),
     ab_json_wifi = (\<lambda>body. (1, [(Some ''lab'', Some ''********''), (Some ''guest'', None)])),
     ab_role_str = (\<lambda>r. case r of PSTOP_AUX_ROLE_OPERATOR \<Rightarrow> ''operator'' | PSTOP_AUX_ROLE_STOP_ONLY \<Rightarrow> ''stop_only''),
     ab_password = ''pw'', ab_version = ''1.2.3'', ab_sha = ''abcdef12'', ab_fw_id = ''1.2.3-abcdef12'',
     ab_health_cfg = health_cfg_default, ab_wifi = True, ab_verbose = True,
     ab_log_sources = [Some ''pstop_api'']\<rparr>"

definition demo_device :: "(string \<times> bytes) list device" where
  "demo_device = \<lparr>d_store = [], d_cfg = settings_defaults 9, d_lockstep = lockstep_zero,
     d_health = health_zero, d_health_blob = None, d_locate_until = 0, d_wifi = wifi_static,
     d_verbose = False, d_log_levels = Map.empty\<rparr>"

definition demo_now :: api_now where
  "demo_now = \<lparr>an_uptime = 1000, an_uptime_later = 1001,
     an_uplink = \<lparr>up_kind = UPLINK_ETHERNET, up_ipv4 = 0x0A000002\<rparr>, an_crash_size = 0, an_save_ret = 0\<rparr>"

lemma demo_unauthorised: "\<not> authorised demo_build ''Basic admin:no''"
  by (simp add: authorised_def demo_build_def http_basic_auth_ok_def PSTOP_API_ADMIN_USER_def
      char_byte_def upt_rec)

lemma demo_authorised: "authorised demo_build ''Basic admin:pw''"
  by (simp add: authorised_def demo_build_def http_basic_auth_ok_def PSTOP_API_ADMIN_USER_def
      char_byte_def upt_rec)

lemma api_admin_gate_instance:
  "\<not> authorised demo_build ''Basic admin:no'' \<and>
   refusal (pstop_api_admin_restart demo_build 64 ''Basic admin:no'') \<and>
   snd (pstop_api_admin_verbose demo_build 64 True ''Basic admin:no'' demo_device) = demo_device"
  using demo_unauthorised api_admin_gate [OF demo_unauthorised, of 64 _ _ demo_device demo_now _ True] by blast

section \<open>Telemetry fits its buffer\<close>

lemma machine_length:
  "length (state_machine L d slot) \<le> 240"
proof -
  have code: "length (fmt_d (sess_code s)) \<le> 1" for s
    by (cases s) (simp_all add: sess_code_def fmt_d_def dec_text.simps)
  have flags: "length (fmt_d (flag b)) = 1" for b by (simp add: fmt_d_flag)
  have zero: "length (fmt_d 0) \<le> 1" by (simp add: fmt_d_def dec_text.simps)
  define p where "p = peer_or_zero (d_cfg d) slot"
  define a where "a \<longleftrightarrow> pstop_lockstep_slot_active (d_lockstep d) (int slot)"
  define s where "s = sessions (d_lockstep d) slot"
  have st: "length (fmt_d (if a then sess_code (s_state s) else 0)) \<le> 1" using code zero by simp
  note len = fmt_u_lengths(3) [of "if configured p then peer_ip p else 0"]
    fmt_u_lengths(2) [of "if configured p then peer_port p else 0"]
    fmt_u_lengths(3) [of "if configured p then peer_id p else 0"]
    fmt_u_lengths(3) [of "if a then s_sent s else 0"] fmt_u_lengths(3) [of "if a then s_replies s else 0"]
    fmt_u_lengths(3) [of "if a then s_send_fail s else 0"] fmt_u_lengths(3) [of "if a then s_rebonds s else 0"]
    fmt_u_lengths(3) [of "if a then s_unbonds s else 0"] fmt_u_lengths(3) [of "if a then s_hb_ms s else 0"]
    fmt_u_lengths(1) [of "if a then s_last_msg s else MSG_UNKNOWN L"]
    fmt_u_lengths(4) [of "if a then s_last_reply_ms s else 0"]
  have sep: "length (if slot = 0 then '''' else '','') \<le> 1" by simp
  show ?thesis
    unfolding state_machine_def Let_def p_def [symmetric] a_def [symmetric] s_def [symmetric]
      length_append list.size
    using len st sep flags [of "configured p"] by linarith
qed


lemma head_length:
  assumes "length (ab_version B) + length (ab_sha B) \<le> 255" and "\<forall>r. length (ab_role_str B r) \<le> 16"
    and "\<bar>health_level (d_health d)\<bar> < 2 ^ 31" and "\<bar>w_active_idx (d_wifi d)\<bar> < 2 ^ 31"
  shows "length (concat (take 9 (state_parts B N d))) \<le> 1050"
proof -
  define L where "L = ab_lib B"
  define ls where "ls = d_lockstep d"
  define cfg where "cfg = d_cfg d"
  define dg where "dg = pstop_lockstep_diag_get ls"
  define p where "p = peer_or_zero cfg 0"
  define t where "t = api_totals L ls"
  define ip where "ip = up_ipv4 (an_uplink N)"
  have flags: "length (fmt_d (flag b)) = 1" for b by (simp add: fmt_d_flag)
  have octet: "length (fmt_u (w AND 0xFF)) \<le> 3" for w :: u32
    using dec_text_bound [of "unat (w AND 0xFF)" 3] octet_bounds [of w] by (simp add: fmt_u_def)
  have role: "length (role_str B cfg) \<le> 16" using assms(2) by (simp add: role_str_def)
  have kind: "length (uplink_kind_str k) \<le> 4" for k by (cases k) (simp_all add: uplink_kind_str_def)
  have level: "length (fmt_d (health_level (d_health d))) \<le> 11" using assms(3) by (intro fmt_d_length) auto
  have idx: "length (fmt_d (wifi_idx B d)) \<le> 11"
    using assms(4) by (intro fmt_d_length) (auto simp: wifi_idx_def pstop_wifi_active_idx_def)
  note len = fmt_u_lengths(4) [of "word_of_int (an_uptime N)"]
    fmt_u_lengths(3) [of "app_settings_effective_device_id cfg"]
    fmt_u_lengths(1) [of "pstop_lockstep_last_verdict L ls 0"] fmt_u_lengths(1) [of "pstop_lockstep_last_verdict L ls 1"]
    fmt_u_lengths(3) [of "if configured p then peer_ip p else 0"] fmt_u_lengths(2) [of "if configured p then peer_port p else 0"]
    fmt_u_lengths(3) [of "t_sent t"] fmt_u_lengths(3) [of "t_replies t"] fmt_u_lengths(1) [of "t_last_msg t"]
    fmt_u_lengths(3) [of "t_send_fail t"] fmt_u_lengths(3) [of "t_rebonds t"] fmt_u_lengths(4) [of "t_last_reply_ms t"]
    fmt_u_lengths(3) [of "pstop_lockstep_mismatches ls + pstop_lockstep_missed_deadlines ls"]
    fmt_u_lengths(3) [of "pstop_lockstep_missed_deadlines ls"] fmt_u_lengths(3) [of "pstop_lockstep_mismatches ls"]
    fmt_u_lengths(3) [of "pack_mm_last dg"] fmt_u_lengths(4) [of "last_event_ms dg"]
    fmt_u_lengths(3) [of "latency_max_ms dg 0"] fmt_u_lengths(3) [of "latency_max_ms dg 1"]
    fmt_u_lengths(3) [of "pstop_lockstep_gated_ticks ls"] fmt_u_lengths(1) [of "app_settings_ring_offset cfg"]
    octet [of "drop_bit 24 ip"] octet [of "drop_bit 16 ip"] octet [of "drop_bit 8 ip"] octet [of ip]
    kind [of "up_kind (an_uplink N)"]
  have nine: "take 9 (a # b # c # e # f # g # h # i # j # xs) = [a, b, c, e, f, g, h, i, j]"
    for a b c e f g h i j :: string and xs by (simp add: numeral_eq_Suc)
  show ?thesis
    unfolding state_parts_def Let_def L_def [symmetric] ls_def [symmetric] cfg_def [symmetric]
      dg_def [symmetric] p_def [symmetric] t_def [symmetric] ip_def [symmetric] append_Cons nine
      concat.simps length_append list.size flags
    using len role level idx assms(1) by linarith
qed


lemma state_parts_split:
  "state_parts B N d = take 9 (state_parts B N d) @ map (state_machine (ab_lib B) d) [0, 1, 2, 3] @ ['']}'']"
  by (simp add: state_parts_def Let_def PSTOP_MAX_MACHINES_def upto_four numeral_eq_Suc)

lemma state_length:
  assumes "length (ab_version B) + length (ab_sha B) \<le> 255" and "\<forall>r. length (ab_role_str B r) \<le> 16"
    and "\<bar>health_level (d_health d)\<bar> < 2 ^ 31" and "\<bar>w_active_idx (d_wifi d)\<bar> < 2 ^ 31"
  shows "length (concat (state_parts B N d)) < 2048"
proof -
  note head = head_length [OF assms, of N]
  note machine = machine_length [of "ab_lib B" d]
  have "length (concat (state_parts B N d)) = length (concat (take 9 (state_parts B N d))) +
      (length (state_machine (ab_lib B) d 0) + length (state_machine (ab_lib B) d 1) +
       length (state_machine (ab_lib B) d 2) + length (state_machine (ab_lib B) d 3)) + 2"
    by (subst state_parts_split) (simp del: length_concat)
  with head machine [of 0] machine [of 1] machine [of 2] machine [of 3] show ?thesis by linarith
qed

text \<open>
  The telemetry page always fits: in the 2048-byte buffer the server uses, whatever the
  counters, addresses and times are, the answer is 200 with the whole text, as long as version
  and revision together take at most 255 characters and the role name at most 16. The
  remaining hypotheses say that the two C integers printed with \<open>%d\<close> are 32 bits wide.
\<close>

lemma api_state_fits:
  assumes "length (ab_version B) + length (ab_sha B) \<le> 255" and "\<forall>r. length (ab_role_str B r) \<le> 16"
    and "\<bar>health_level (d_health d)\<bar> < 2 ^ 31" and "\<bar>w_active_idx (d_wifi d)\<bar> < 2 ^ 31"
  shows "pstop_api_state B N PSTOP_API_BODY_MAX d =
    (concat (state_parts B N d),
     init_rsp\<lparr>rsp_status := 200, rsp_len := length (concat (state_parts B N d))\<rparr>)"
proof -
  have "state_parts B N d \<noteq> []" by (simp add: state_parts_def Let_def)
  from finish_out_all [OF this] state_length [OF assms, of N] show ?thesis
    by (simp add: pstop_api_state_def whole_or_error_fits PSTOP_API_BODY_MAX_def)
qed

lemma api_state_fits_instance:
  "rsp_status (snd (pstop_api_state demo_build demo_now PSTOP_API_BODY_MAX demo_device)) = 200"
proof -
  have "length (ab_version demo_build) + length (ab_sha demo_build) \<le> 255" by (simp add: demo_build_def)
  moreover have "\<forall>r. length (ab_role_str demo_build r) \<le> 16"
    by (auto simp: demo_build_def split: aux_role.split)
  moreover have "\<bar>health_level (d_health demo_device)\<bar> < 2 ^ 31" "\<bar>w_active_idx (d_wifi demo_device)\<bar> < 2 ^ 31"
    by (simp_all add: demo_device_def health_level_def health_zero_def health_board_level_def
        board_zero_def HEALTH_OK_def wifi_static_def)
  ultimately show ?thesis using api_state_fits [of demo_build demo_device demo_now] by simp
qed

section \<open>The packed fault word\<close>

definition mm_field :: "nat \<Rightarrow> nat \<Rightarrow> u32 \<Rightarrow> u32" where
  "mm_field pos width w = drop_bit pos w AND mask width"

definition mm_word :: "u8 \<Rightarrow> u8 \<Rightarrow> u8 \<Rightarrow> u8 \<Rightarrow> u8 \<Rightarrow> u8 \<Rightarrow> u32" where
  "mm_word k m s p q r = push_bit 28 (ucast (take_bit 4 k)) OR push_bit 26 (ucast (take_bit 2 m)) OR
     push_bit 24 (ucast (take_bit 2 s)) OR push_bit 16 (ucast p) OR push_bit 8 (ucast q) OR ucast r"

lemma bit_mm_word:
  "bit (mm_word k m s p q r) n \<longleftrightarrow>
     (n < 8 \<and> bit r n) \<or> (8 \<le> n \<and> n < 16 \<and> bit q (n - 8)) \<or> (16 \<le> n \<and> n < 24 \<and> bit p (n - 16)) \<or>
     (24 \<le> n \<and> n < 26 \<and> bit s (n - 24)) \<or> (26 \<le> n \<and> n < 28 \<and> bit m (n - 26)) \<or>
     (28 \<le> n \<and> n < 32 \<and> bit k (n - 28))"
proof -
  have low: "\<not> bit (w :: u8) i" if "8 \<le> i" for w i
    using bit_imp_le_length [of w i] that by auto
  consider "n < 8" | "8 \<le> n" "n < 16" | "16 \<le> n" "n < 24" | "24 \<le> n" "n < 26" | "26 \<le> n" "n < 28"
    | "28 \<le> n" "n < 32" | "32 \<le> n" by linarith
  then show ?thesis
    by cases (simp_all add: mm_word_def bit_or_iff bit_push_bit_iff bit_unsigned_iff bit_take_bit_iff
        possible_bit_word low less_diff_conv2 le_diff_conv2)
qed

lemma bit_mm_field: "bit (mm_field pos width w) n \<longleftrightarrow> n < width \<and> n < 32 \<and> bit w (pos + n)"
  by (auto simp: mm_field_def bit_and_iff bit_drop_bit_eq bit_mask_iff possible_bit_word)

lemma mm_word_fields:
  "mm_field 28 4 (mm_word k m s p q r) = ucast (take_bit 4 k)"
  "mm_field 26 2 (mm_word k m s p q r) = ucast (take_bit 2 m)"
  "mm_field 24 2 (mm_word k m s p q r) = ucast (take_bit 2 s)"
  "mm_field 16 8 (mm_word k m s p q r) = ucast p"
  "mm_field 8 8 (mm_word k m s p q r) = ucast q"
  "mm_field 0 8 (mm_word k m s p q r) = ucast r"
proof -
  have low: "bit (w :: u8) i \<Longrightarrow> i < 8" for w i using bit_imp_le_length [of w i] by simp
  show "mm_field 28 4 (mm_word k m s p q r) = ucast (take_bit 4 k)"
    "mm_field 26 2 (mm_word k m s p q r) = ucast (take_bit 2 m)"
    "mm_field 24 2 (mm_word k m s p q r) = ucast (take_bit 2 s)"
    "mm_field 16 8 (mm_word k m s p q r) = ucast p"
    "mm_field 8 8 (mm_word k m s p q r) = ucast q"
    "mm_field 0 8 (mm_word k m s p q r) = ucast r"
    by (rule bit_word_eqI; auto simp: bit_mm_field bit_mm_word bit_unsigned_iff bit_take_bit_iff
        possible_bit_word dest: low)+
qed

lemma and_three: "(s :: u8) AND 3 = take_bit 2 s"
  by (simp add: take_bit_eq_mask mask_eq_exp_minus_1)

lemma take_two: "(s :: u8) < 4 \<Longrightarrow> take_bit 2 s = s"
  using less_mask_eq [of s 2] by (simp add: word_less_nat_alt take_bit_eq_mask)

lemma pack_mm_last_word:
  "pack_mm_last d = (case last_kind d of
     PSTOP_LOCKSTEP_EVENT_CONTENT \<Rightarrow> mm_word 2 0 (mismatch_slot d) (mismatch_offset d)
        (mismatch_verdict d 0) (mismatch_verdict d 1)
   | PSTOP_LOCKSTEP_EVENT_TIMEOUT \<Rightarrow> mm_word 1 (late_mask d) 0 0xFF 0 0
   | PSTOP_LOCKSTEP_EVENT_NONE \<Rightarrow> 0)"
  by (cases "last_kind d") (simp_all add: pack_mm_last_def mm_word_def event_code_def and_three)

text \<open>
  The fault word of the telemetry can be taken apart again: its top bits are the kind of
  the last fault, and for a content fault the slot, the first differing byte and both verdicts
  can be read back, for a missed window the late samplers, without any field running into
  another. No fault is the word zero.
\<close>

lemma api_fault_word_decodes:
  assumes "mismatch_slot d < 4" and "late_mask d < 4"
  defines "w \<equiv> pack_mm_last d"
  shows "mm_field 28 4 w = event_code (last_kind d) \<and>
    (last_kind d = PSTOP_LOCKSTEP_EVENT_NONE \<longrightarrow> w = 0) \<and>
    (last_kind d = PSTOP_LOCKSTEP_EVENT_CONTENT \<longrightarrow>
       mm_field 24 2 w = ucast (mismatch_slot d) \<and> mm_field 16 8 w = ucast (mismatch_offset d) \<and>
       mm_field 8 8 w = ucast (mismatch_verdict d 0) \<and> mm_field 0 8 w = ucast (mismatch_verdict d 1) \<and>
       mm_field 26 2 w = 0) \<and>
    (last_kind d = PSTOP_LOCKSTEP_EVENT_TIMEOUT \<longrightarrow>
       mm_field 26 2 w = ucast (late_mask d) \<and> mm_field 16 8 w = 0xFF)"
  using take_two [OF assms(1)] take_two [OF assms(2)]
  by (cases "last_kind d") (simp_all add: w_def pack_mm_last_word mm_word_fields event_code_def, simp add: mm_field_def)

lemma api_fault_word_decodes_instance:
  "mm_field 24 2 (pack_mm_last (diag_zero\<lparr>last_kind := PSTOP_LOCKSTEP_EVENT_CONTENT, mismatch_slot := 2\<rparr>)) = 2"
  using api_fault_word_decodes [of "diag_zero\<lparr>last_kind := PSTOP_LOCKSTEP_EVENT_CONTENT, mismatch_slot := 2\<rparr>"]
  by (simp add: diag_zero_def word_less_nat_alt)

section \<open>Ages of warnings\<close>

lemma warning_age_exact:
  "first_ms \<le> now \<Longrightarrow> unat (warning_age_s now first_ms) = ((unat now - unat first_ms) div 1000) mod 2 ^ 32"
  by (simp add: warning_age_s_def unsigned_ucast_eq take_bit_eq_mod unat_div_distrib unat_sub)

text \<open>
  The clock of the page is read before the counters are locked. A warning that the main loop
  raises in between is younger than that reading, and its age comes out as the wrapped
  difference.
\<close>

lemma api_health_age_wraps: "unat (warning_age_s 5000 5001) > 1000000"
  by (simp add: warning_age_s_def)

section \<open>The peer table\<close>

definition configured_with :: "string \<Rightarrow> pstop_peer \<Rightarrow> bool" where
  "configured_with url peer \<longleftrightarrow> configured peer \<and> peer_id peer \<noteq> 0 \<and>
     (\<exists>v. http_query_get (Some url) ''ip'' 24 = Inr v \<and> http_parse_ipv4 (Some v) = Inr (peer_ip peer)) \<and>
     (\<exists>v port. http_query_get (Some url) ''port'' 24 = Inr v \<and> http_parse_u32 (Some v) = Inr port \<and>
        port \<noteq> 0 \<and> port \<le> 65535 \<and> peer_port peer = ucast port)"

definition put_peer :: "nat \<Rightarrow> pstop_peer \<Rightarrow> 'f \<Rightarrow> 'f device \<Rightarrow> 'f device" where
  "put_peer slot peer f d = d\<lparr>d_store := f,
     d_cfg := (d_cfg d)\<lparr>cfg_peers := (cfg_peers (d_cfg d))(slot := peer)\<rparr>,
     d_lockstep := (d_lockstep d)\<lparr>reconfigure_requests := reconfigure_requests (d_lockstep d) OR push_bit slot 1\<rparr>\<rparr>"

lemma set_peer_cases:
  assumes "slot < 4" and "app_settings_set_peer B f st (int slot) ip port pid = (ret, f', st')"
  shows "st' = (if ret = 0 then st\<lparr>cfg_peers := (cfg_peers st)(slot :=
      \<lparr>peer_ip = ip, peer_port = port, peer_id = pid, configured = True\<rparr>)\<rparr> else st)"
  using assms
  by (auto simp: app_settings_set_peer_def store_peer_def PSTOP_MAX_MACHINES_def peer_zero_def
      split: prod.splits)

lemma clear_peer_cases:
  assumes "slot < 4" and "app_settings_clear_peer B f st (int slot) = (ret, f', st')"
  shows "st' = (if ret = 0 then st\<lparr>cfg_peers := (cfg_peers st)(slot := peer_zero)\<rparr> else st)"
  using assms
  by (auto simp: app_settings_clear_peer_def store_peer_def PSTOP_MAX_MACHINES_def split: prod.splits)

lemma request_reconfigure_slot:
  "slot < 4 \<Longrightarrow> snd (pstop_lockstep_request_reconfigure (int slot) ls) =
     ls\<lparr>reconfigure_requests := reconfigure_requests ls OR push_bit slot 1\<rparr>"
  by (simp add: pstop_lockstep_request_reconfigure_def PSTOP_MAX_MACHINES_def)

lemma clear_slot_result:
  assumes "slot < 4" and "clear_slot B (int slot) d = (ret, d')"
  shows "d' = (if ret = 0 then put_peer slot peer_zero (d_store d') d else d\<lparr>d_store := d_store d'\<rparr>)"
  using assms(2) clear_peer_cases [OF assms(1), of "ab_backend B" "d_store d" "d_cfg d"]
  by (auto simp: clear_slot_def put_peer_def request_reconfigure_slot [OF assms(1)] split: prod.splits)

lemma set_slot_result:
  assumes "slot < 4" and "set_slot B (int slot) url d = (res, d')"
  shows "(\<exists>e. res = Inl e \<and> d' = d\<lparr>d_store := d_store d'\<rparr>) \<or>
    (\<exists>port. res = Inr (peer_ip (cfg_peers (d_cfg d') slot), port, peer_id (cfg_peers (d_cfg d') slot)) \<and>
       configured_with url (cfg_peers (d_cfg d') slot) \<and>
       d' = put_peer slot (cfg_peers (d_cfg d') slot) (d_store d') d)"
proof -
  have keep: "d = d\<lparr>d_store := d_store d\<rparr>" by simp
  show ?thesis
    using assms(2)
    unfolding set_slot_def Let_def configured_with_def put_peer_def
    by (auto simp: request_reconfigure_slot [OF assms(1)] not_less PSTOP_DEFAULT_MACHINE_ID_def dest!: set_peer_cases [OF assms(1)]
        split: sum.splits if_splits prod.splits)
qed


lemma rebond_slot:
  "slot < 4 \<Longrightarrow> snd (pstop_lockstep_request_rebond (int slot) ls) =
     ls\<lparr>rebond_requests := rebond_requests ls OR push_bit slot 1\<rparr>"
  by (simp add: pstop_lockstep_request_rebond_def PSTOP_MAX_MACHINES_def)

definition peers_slot :: "string \<Rightarrow> nat option" where
  "peers_slot url = (case http_query_get (Some url) ''slot'' 8 of Inl _ \<Rightarrow> None
     | Inr v \<Rightarrow> (case http_parse_u32 (Some v) of Inl _ \<Rightarrow> None
                  | Inr w \<Rightarrow> if unat w < 4 then Some (unat w) else None))"

lemma set_slot_error_status: "rsp_status (snd (set_slot_error cap e)) \<noteq> 200"
  by (simp add: set_slot_error_def reply_status split: prod.split)

lemma peers_result:
  assumes "pstop_api_pstop_peers B cap url d = (r, d')"
  shows "(rsp_status (snd r) \<noteq> 200 \<and> d' = d\<lparr>d_store := d_store d'\<rparr>) \<or>
    (\<exists>slot. peers_slot url = Some slot \<and>
       (d' = d\<lparr>d_lockstep := (d_lockstep d)\<lparr>rebond_requests := rebond_requests (d_lockstep d) OR push_bit slot 1\<rparr>\<rparr> \<or>
        (\<exists>peer. d' = put_peer slot peer (d_store d') d \<and> (peer = peer_zero \<or> configured_with url peer))))"
proof (cases "peers_slot url")
  case None
  with assms have "rsp_status (snd r) \<noteq> 200 \<and> d' = d"
    by (auto simp: pstop_api_pstop_peers_def Let_def peers_slot_def PSTOP_MAX_MACHINES_def reply_status
        split: sum.splits if_splits)
  then show ?thesis by (cases d') auto
next
  case (Some slot)
  then obtain v w where vw: "http_query_get (Some url) ''slot'' 8 = Inr v" "http_parse_u32 (Some v) = Inr w"
    and slot: "slot < 4" "unat w = slot" "uint w = int slot"
    by (auto simp: peers_slot_def split: sum.splits if_splits)
  have route: "pstop_api_pstop_peers B cap url d =
      (if http_query_flag (Some url) ''rebond''
       then (reply cap init_rsp 200 (''{\"ok\":true,\"slot\":'' @ fmt_u w @ '',\"rebond\":true}''),
             d\<lparr>d_lockstep := snd (pstop_lockstep_request_rebond (int slot) (d_lockstep d))\<rparr>)
       else if http_query_flag (Some url) ''clear''
       then (case clear_slot B (int slot) d of (ret, d) \<Rightarrow>
              (reply cap init_rsp (if ret = 0 then 200 else 500)
                 (''{\"ok\":'' @ fmt_bool (ret = 0) @ '',\"slot\":'' @ fmt_u w @ '',\"cleared\":true}''), d))
       else (case set_slot B (int slot) url d of
              (Inl e, d) \<Rightarrow> (set_slot_error cap e, d)
            | (Inr (ip, port, pid), d) \<Rightarrow>
                (reply cap init_rsp 200
                   (''{\"ok\":true,\"slot\":'' @ fmt_u w @ '',\"ip\":\"'' @ show_ipv4 ip @ ''\",\"port\":'' @ fmt_u port @
                    '',\"id\":'' @ fmt_u pid @ ''}''), d)))"
    using slot by (simp add: pstop_api_pstop_peers_def Let_def vw PSTOP_MAX_MACHINES_def append_assoc)
  show ?thesis
  proof (cases "http_query_flag (Some url) ''rebond''")
    case True
    with route assms rebond_slot [OF slot(1)] Some show ?thesis by auto
  next
    case not_rebond: False
    show ?thesis
    proof (cases "http_query_flag (Some url) ''clear''")
      case True
      obtain ret d1 where cl: "clear_slot B (int slot) d = (ret, d1)" by fastforce
      with route assms not_rebond True have "d' = d1" "ret \<noteq> 0 \<longrightarrow> rsp_status (snd r) \<noteq> 200"
        by (auto simp: reply_status)
      with clear_slot_result [OF slot(1) cl] Some show ?thesis by (cases "ret = 0") auto
    next
      case False
      obtain res d1 where st: "set_slot B (int slot) url d = (res, d1)" by fastforce
      with route assms not_rebond False have d1: "d' = d1"
        and err: "\<And>e. res = Inl e \<Longrightarrow> rsp_status (snd r) \<noteq> 200"
        by (auto simp: set_slot_error_status split: sum.splits prod.splits)
      from set_slot_result [OF slot(1) st] show ?thesis
      proof
        assume "\<exists>e. res = Inl e \<and> d1 = d\<lparr>d_store := d_store d1\<rparr>"
        with d1 err show ?thesis by blast
      next
        assume "\<exists>port. res = Inr (peer_ip (cfg_peers (d_cfg d1) slot), port, peer_id (cfg_peers (d_cfg d1) slot)) \<and>
          configured_with url (cfg_peers (d_cfg d1) slot) \<and>
          d1 = put_peer slot (cfg_peers (d_cfg d1) slot) (d_store d1) d"
        with d1 Some show ?thesis by blast
      qed
    qed
  qed
qed

text \<open>
  C18. A request to the peer table takes effect in full or not at all. If the answer is not
  200 then only the store may have been touched: table, comparator and everything else are as
  they were. Otherwise the named slot, in range, had a re-bond requested, or its entry became
  the cleared one or a peer with exactly the address and the port of the request (a port of
  1 to 65535, a machine id that is not zero), and the comparator was asked to take the slot up.
\<close>

theorem api_peers_all_or_nothing:
  assumes "pstop_api_pstop_peers B cap url d = (r, d')"
  shows "(rsp_status (snd r) \<noteq> 200 \<and> d' = d\<lparr>d_store := d_store d'\<rparr>) \<or>
    (\<exists>slot. peers_slot url = Some slot \<and>
       (d' = d\<lparr>d_lockstep := (d_lockstep d)\<lparr>rebond_requests := rebond_requests (d_lockstep d) OR push_bit slot 1\<rparr>\<rparr> \<or>
        (\<exists>peer. d' = put_peer slot peer (d_store d') d \<and> (peer = peer_zero \<or> configured_with url peer))))"
  by (rule peers_result [OF assms])


definition demo_peers_url :: string where
  "demo_peers_url = ''/api/pstop_peers?slot=2&ip=10.0.0.2&port=8890''"

lemma demo_peers_query:
  "http_query_get (Some demo_peers_url) ''slot'' 8 = Inr ''2''"
  "http_query_get (Some demo_peers_url) ''ip'' 24 = Inr ''10.0.0.2''"
  "http_query_get (Some demo_peers_url) ''port'' 24 = Inr ''8890''"
  "http_query_get (Some demo_peers_url) ''id'' 24 = Inl (- ENOENT)"
  "\<not> http_query_flag (Some demo_peers_url) ''rebond''"
  "\<not> http_query_flag (Some demo_peers_url) ''clear''"
  by (simp_all add: demo_peers_url_def http_query_flag_def http_query_get_def query_scan.simps)

lemma demo_peers_numbers:
  "http_parse_u32 (Some ''2'') = Inr 2" "http_parse_u32 (Some ''8890'') = Inr 8890"
  by (simp_all add: http_parse_u32_def hex_digit_def)


lemma demo_peers_ip: "http_parse_ipv4 (Some ''10.0.0.2'') = Inr 0x0A000002"
  by (simp add: http_parse_ipv4_def ipv4_loop.simps decimal_char_def decimal_value_def)

lemma demo_set_slot:
  "\<exists>d. set_slot demo_build 2 demo_peers_url demo_device = (Inr (0x0A000002, 8890, 0x01020304), d)"
  by (simp add: set_slot_def demo_peers_query demo_peers_numbers demo_peers_ip
      app_settings_set_peer_def store_peer_def save_peer_def PSTOP_MAX_MACHINES_def
      demo_build_def demo_device_def demo_backend_def PSTOP_DEFAULT_MACHINE_ID_def word_less_nat_alt)

lemma demo_peers_answer:
  "rsp_status (snd (fst (pstop_api_pstop_peers demo_build 256 demo_peers_url demo_device))) = 200"
proof -
  obtain d where "set_slot demo_build 2 demo_peers_url demo_device = (Inr (0x0A000002, 8890, 0x01020304), d)"
    using demo_set_slot by blast
  then show ?thesis
    by (simp add: pstop_api_pstop_peers_def demo_peers_query demo_peers_numbers PSTOP_MAX_MACHINES_def
        reply_status show_ipv4_def fmt_u_def dec_text.simps)
qed

theorem api_peers_all_or_nothing_witness:
  "\<exists>slot. peers_slot demo_peers_url = Some slot"
  using api_peers_all_or_nothing [OF surjective_pairing [of "pstop_api_pstop_peers demo_build 256 demo_peers_url demo_device"]]
    demo_peers_answer by auto

section \<open>WiFi networks\<close>

text \<open>What an entry of a posted list stores, given what was stored before.\<close>

definition pass_ok :: "string \<Rightarrow> bool" where
  "pass_ok p \<longleftrightarrow> (p = [] \<or> 8 \<le> length p) \<and> length p \<le> 64 \<and> plain_string p"

definition net_ok :: "pstop_wifi_net \<Rightarrow> bool" where
  "net_ok w \<longleftrightarrow> length (ssid w) \<le> 32 \<and> plain_string (ssid w) \<and> pass_ok (pass w)"

lemma pass_ok_empty [simp]: "pass_ok []"
  by (simp add: pass_ok_def plain_string_def)

definition posted_net :: "app_settings \<Rightarrow> string option \<times> string option \<Rightarrow> pstop_wifi_net" where
  "posted_net cfg e =
     \<lparr>ssid = the (fst e), pass = (case snd e of None \<Rightarrow> '''' | Some p \<Rightarrow>
        if p = WIFI_MASK then stored_pass cfg (the (fst e)) else p)\<rparr>"

lemma stored_pass_cases: "stored_pass cfg t = [] \<or> (\<exists>j < 4. stored_pass cfg t = pass (cfg_wifi cfg j))"
proof (cases "find (\<lambda>j. case app_settings_wifi_get cfg (int j) of Inl _ \<Rightarrow> False | Inr old \<Rightarrow> ssid old = t) [0..<PSTOP_WIFI_MAX]")
  case (Some j)
  then have "j < 4" using find_Some_member by (fastforce simp: PSTOP_WIFI_MAX_def)
  with Some show ?thesis by (auto simp: stored_pass_def app_settings_wifi_get_def PSTOP_WIFI_MAX_def)
qed (simp add: stored_pass_def)

lemma stored_pass_ok: "\<forall>j < 4. net_ok (cfg_wifi cfg j) \<Longrightarrow> pass_ok (stored_pass cfg t)"
  using stored_pass_cases [of cfg t] by (auto simp: net_ok_def)

lemma wifi_entry:
  assumes "wifi_from_json_loop cfg i ((s, p) # es) nets = Inr nets'"
  shows "wifi_from_json_loop cfg (i + 1) es (nets(i := posted_net cfg (s, p))) = Inr nets'"
    and "s \<noteq> None \<and> ssid (posted_net cfg (s, p)) \<noteq> []"
    and "(\<forall>j < 4. net_ok (cfg_wifi cfg j)) \<Longrightarrow> net_ok (posted_net cfg (s, p))"
proof -
  define q where "q = (case p of Some p \<Rightarrow> p | None \<Rightarrow> '''')"
  obtain t where s: "s = Some t" using assms by (cases s) (auto simp: Let_def)
  have t: "t \<noteq> []" "length t \<le> 32" "plain_string t"
    using assms by (auto simp: s Let_def PSTOP_WIFI_SSID_MAX_def split: if_splits)
  have this_net: "posted_net cfg (s, p) = \<lparr>ssid = t, pass = (if q = WIFI_MASK then stored_pass cfg t else q)\<rparr>"
    by (cases p) (auto simp: posted_net_def s q_def WIFI_MASK_def)
  have pass: "q \<noteq> WIFI_MASK \<Longrightarrow> pass_ok q"
    using assms
    by (cases "q = []") (simp, auto simp: s Let_def q_def [symmetric] PSTOP_WIFI_PASS_MAX_def pass_ok_def split: if_splits)
  show "wifi_from_json_loop cfg (i + 1) es (nets(i := posted_net cfg (s, p))) = Inr nets'"
    using assms unfolding this_net by (auto simp: s Let_def q_def [symmetric] split: if_splits)
  show "s \<noteq> None \<and> ssid (posted_net cfg (s, p)) \<noteq> []" using t unfolding this_net by (simp add: s)
  show "net_ok (posted_net cfg (s, p))" if "\<forall>j < 4. net_ok (cfg_wifi cfg j)"
    using t pass stored_pass_ok [OF that, of t] by (simp add: this_net net_ok_def)
qed

lemma wifi_loop_result:
  assumes "wifi_from_json_loop cfg i es nets = Inr nets'"
  shows "nets' = (\<lambda>k. if i \<le> k \<and> k < i + length es then posted_net cfg (es ! (k - i)) else nets k) \<and>
    (\<forall>e \<in> set es. fst e \<noteq> None \<and> ssid (posted_net cfg e) \<noteq> []) \<and>
    ((\<forall>j < 4. net_ok (cfg_wifi cfg j)) \<longrightarrow> (\<forall>e \<in> set es. net_ok (posted_net cfg e)))"
  using assms
proof (induction es arbitrary: i nets)
  case Nil
  then have "nets' = nets" by simp
  moreover have "(\<lambda>k. if i \<le> k \<and> k < i + length [] then posted_net cfg ([] ! (k - i)) else nets k) = nets"
    by (rule ext) auto
  ultimately show ?case by simp
next
  case (Cons e es)
  obtain s p where e: "e = (s, p)" by fastforce
  note entry = wifi_entry [OF Cons.prems [unfolded e]]
  have split: "(\<lambda>k. if i + 1 \<le> k \<and> k < i + 1 + length es then posted_net cfg (es ! (k - (i + 1)))
        else (nets(i := posted_net cfg e)) k) =
      (\<lambda>k. if i \<le> k \<and> k < i + length (e # es) then posted_net cfg ((e # es) ! (k - i)) else nets k)"
  proof
    fix k
    show "(if i + 1 \<le> k \<and> k < i + 1 + length es then posted_net cfg (es ! (k - (i + 1)))
        else (nets(i := posted_net cfg e)) k) =
      (if i \<le> k \<and> k < i + length (e # es) then posted_net cfg ((e # es) ! (k - i)) else nets k)"
      by (cases "k = i"; cases "k - i") (auto simp: diff_Suc)
  qed
  from Cons.IH [OF entry(1)] entry(2,3) split show ?case by (auto simp: e)
qed

lemma wifi_set_all_ok:
  assumes "wifi_save_from B nets is f st = (0, f', st')"
  shows "st' = st\<lparr>cfg_wifi := (\<lambda>i. if i \<in> set is then nets i else cfg_wifi st i)\<rparr>"
  using assms
proof (induction "is" arbitrary: f st)
  case Nil
  then show ?case by simp
next
  case (Cons i "is")
  obtain ret f1 where "save_one B f (''pstop/wifi/'' @ index_char i) (bytes_of_wifi (nets i)) = (ret, f1)"
    by fastforce
  with Cons.prems have "ret = 0" "wifi_save_from B nets is f1 (st\<lparr>cfg_wifi := (cfg_wifi st)(i := nets i)\<rparr>) = (0, f', st')"
    by (auto split: if_splits)
  from Cons.IH [OF this(2)] show ?case by (auto simp: fun_eq_iff)
qed


lemma wifi_post_result:
  assumes "authorised B auth" and "ab_json_wifi B body = (1, es)" and "length es \<le> 4"
    and "pstop_api_admin_wifi B cap True body auth d = (r, d')" and "rsp_status (snd r) = 200"
  shows "d_cfg d' = (d_cfg d)\<lparr>cfg_wifi := (\<lambda>i. if i < length es then posted_net (d_cfg d) (es ! i)
      else if i < 4 then wifi_zero else cfg_wifi (d_cfg d) i)\<rparr>"
    and "ab_wifi B \<longrightarrow> w_reload (d_wifi d')"
    and "(\<forall>j < 4. net_ok (cfg_wifi (d_cfg d) j)) \<longrightarrow> (\<forall>j < 4. net_ok (cfg_wifi (d_cfg d') j))"
proof -
  have "admin_ok B cap auth = None" using assms(1) by (simp add: admin_ok_iff)
  then obtain nets f cfg where nets: "wifi_from_json (d_cfg d) es = Inr nets"
    and set: "app_settings_wifi_set_all (ab_backend B) (d_store d) (d_cfg d) nets = (0, f, cfg)"
    and d': "d' = d\<lparr>d_store := f, d_cfg := cfg,
      d_wifi := (if ab_wifi B then pstop_wifi_reload (d_wifi d) else d_wifi d)\<rparr>"
    using assms(2,4,5)
    by (auto simp: pstop_api_admin_wifi_def Let_def reply_status settings_write_failed_def
        split: sum.splits prod.splits if_splits)
  have res: "nets = (\<lambda>k. if k < length es then posted_net (d_cfg d) (es ! k) else wifi_zero)"
    and ok: "(\<forall>j < 4. net_ok (cfg_wifi (d_cfg d) j)) \<longrightarrow> (\<forall>e \<in> set es. net_ok (posted_net (d_cfg d) e))"
    using wifi_loop_result [OF nets [unfolded wifi_from_json_def]] by (simp_all cong: if_cong)
  from wifi_set_all_ok [OF set [unfolded app_settings_wifi_set_all_def]]
  show cfg: "d_cfg d' = (d_cfg d)\<lparr>cfg_wifi := (\<lambda>i. if i < length es then posted_net (d_cfg d) (es ! i)
      else if i < 4 then wifi_zero else cfg_wifi (d_cfg d) i)\<rparr>"
    using assms(3) by (auto simp: d' res PSTOP_WIFI_MAX_def fun_eq_iff)
  show "ab_wifi B \<longrightarrow> w_reload (d_wifi d')" by (simp add: d' pstop_wifi_reload_def)
  have "net_ok wifi_zero" by (simp add: net_ok_def wifi_zero_def plain_string_def)
  with ok show "(\<forall>j < 4. net_ok (cfg_wifi (d_cfg d) j)) \<longrightarrow> (\<forall>j < 4. net_ok (cfg_wifi (d_cfg d') j))"
    by (simp add: cfg)
qed

text \<open>
  An accepted list replaces the stored networks: entry by entry the posted name, and the
  posted password or, for the mask, the one stored for that name so far; the remaining slots
  become empty, nothing else of the settings changes and the station is told to reload.
  Names and passwords in store stay within their lengths and free of characters that would
  need escaping. The parser hands over at most four entries, as its descriptor says.
\<close>

lemma api_wifi_replaces_networks:
  assumes "authorised B auth" and "ab_json_wifi B body = (1, es)" and "length es \<le> 4"
    and "pstop_api_admin_wifi B cap True body auth d = (r, d')" and "rsp_status (snd r) = 200"
  shows "d_cfg d' = (d_cfg d)\<lparr>cfg_wifi := (\<lambda>i. if i < length es then posted_net (d_cfg d) (es ! i)
      else if i < 4 then wifi_zero else cfg_wifi (d_cfg d) i)\<rparr> \<and>
    (ab_wifi B \<longrightarrow> w_reload (d_wifi d')) \<and>
    ((\<forall>j < 4. net_ok (cfg_wifi (d_cfg d) j)) \<longrightarrow> (\<forall>j < 4. net_ok (cfg_wifi (d_cfg d') j)))"
  using wifi_post_result [OF assms] by blast

definition demo_wifi_build :: "(wire_msg, (string \<times> bytes) list) api_build" where
  "demo_wifi_build = demo_build\<lparr>ab_backend :=
     demo_backend\<lparr>save_one := (\<lambda>f k b. (0, AList.update (drop 6 k) b f))\<rparr>\<rparr>"

definition demo_wifi_device :: "(string \<times> bytes) list device" where
  "demo_wifi_device = demo_device\<lparr>d_cfg := (settings_defaults 9)
     \<lparr>cfg_wifi := (\<lambda>i. if i = 1 then \<lparr>ssid = ''lab'', pass = ''secret99''\<rparr> else wifi_zero)\<rparr>\<rparr>"

lemma demo_wifi_json:
  "wifi_from_json (d_cfg demo_wifi_device) [(Some ''lab'', Some ''********''), (Some ''guest'', None)] =
     Inr ((\<lambda>_. wifi_zero)(0 := \<lparr>ssid = ''lab'', pass = ''secret99''\<rparr>, 1 := \<lparr>ssid = ''guest'', pass = ''''\<rparr>))"
  by (simp add: wifi_from_json_def PSTOP_WIFI_SSID_MAX_def plain_string_def WIFI_MASK_def stored_pass_def
      app_settings_wifi_get_def PSTOP_WIFI_MAX_def upto_four demo_wifi_device_def demo_device_def wifi_zero_def)

lemma demo_wifi_answer:
  "rsp_status (snd (fst (pstop_api_admin_wifi demo_wifi_build 256 True [] ''Basic admin:pw'' demo_wifi_device))) = 200"
proof -
  have "authorised demo_wifi_build ''Basic admin:pw''"
    using demo_authorised by (simp add: authorised_def demo_wifi_build_def)
  then have gate: "admin_ok demo_wifi_build 256 ''Basic admin:pw'' = None" by (simp add: admin_ok_iff)
  have json: "ab_json_wifi demo_wifi_build [] = (1, [(Some ''lab'', Some ''********''), (Some ''guest'', None)])"
    by (simp add: demo_wifi_build_def demo_build_def)
  have save: "save_one (ab_backend demo_wifi_build) f k b = (0, AList.update (drop 6 k) b f)" for f k b
    by (simp add: demo_wifi_build_def)
  show ?thesis
    unfolding pstop_api_admin_wifi_def gate json prod.case option.case demo_wifi_json sum.case not_True_eq_False
      if_False refl [THEN eqTrueI]
    by (simp add: save app_settings_wifi_set_all_def PSTOP_WIFI_MAX_def upto_four wifi_reply_def
        finish_out_all whole_or_error_status app_settings_wifi_get_def wifi_zero_def WIFI_MASK_def
        wifi_idx_def pstop_wifi_active_idx_def pstop_wifi_reload_def demo_wifi_device_def demo_device_def
        demo_wifi_build_def demo_build_def wifi_static_def fmt_d_def dec_text.simps)
qed

lemma api_wifi_replaces_networks_instance:
  "cfg_wifi (d_cfg (snd (pstop_api_admin_wifi demo_wifi_build 256 True [] ''Basic admin:pw'' demo_wifi_device))) 0 =
     \<lparr>ssid = ''lab'', pass = ''secret99''\<rparr>"
proof -
  have auth: "authorised demo_wifi_build ''Basic admin:pw''"
    using demo_authorised by (simp add: authorised_def demo_wifi_build_def)
  have json: "ab_json_wifi demo_wifi_build [] = (1, [(Some ''lab'', Some ''********''), (Some ''guest'', None)])"
    by (simp add: demo_wifi_build_def demo_build_def)
  from api_wifi_replaces_networks [OF auth json _ surjective_pairing demo_wifi_answer]
  show ?thesis
    by (simp add: posted_net_def WIFI_MASK_def stored_pass_def app_settings_wifi_get_def PSTOP_WIFI_MAX_def
        upto_four demo_wifi_device_def demo_device_def wifi_zero_def)
qed

section \<open>Passwords stay inside\<close>

lemma wifi_list_cong:
  assumes "\<forall>i < 4. ssid (cfg_wifi c1 i) = ssid (cfg_wifi c2 i) \<and> (pass (cfg_wifi c1 i) = [] \<longleftrightarrow> pass (cfg_wifi c2 i) = [])"
    and "set is \<subseteq> {..<4}"
  shows "wifi_list c1 is first = wifi_list c2 is first"
  using assms(2)
proof (induction "is" arbitrary: first)
  case (Cons i "is")
  then have "i < 4" by simp
  with assms(1) have "ssid (cfg_wifi c1 i) = ssid (cfg_wifi c2 i)"
    "pass (cfg_wifi c1 i) = [] \<longleftrightarrow> pass (cfg_wifi c2 i) = []" by blast+
  with Cons show ?case by (simp add: app_settings_wifi_get_def PSTOP_WIFI_MAX_def)
qed simp


end
