(* ===== verification/Log_Ring.thy ===== *)
theory Log_Ring
  imports Prelude
begin

text \<open>
  The log of the previous boot in memory that survives a reset
  (\<open>protective_stop/src/log_ring.c\<close>, \<open>log_ring.h\<close>) and the backend that fills it
  (\<open>last_log.c\<close>). The ring is a byte array with a checked header; its specification is the
  byte stream written to it, of which it keeps the newest 4096 bytes. Formatting of log
  messages is the logging subsystem's; the backend hands finished bytes to the ring.
\<close>

definition LOG_RING_MAGIC :: u32 where [const_simps]: "LOG_RING_MAGIC = 0x4A07BCDE"
definition LOG_RING_SIZE :: nat where [const_simps]: "LOG_RING_SIZE = 4096"

record log_ring =
  lr_magic :: u32
  lr_head :: u32
  lr_wrapped :: u32
  lr_check :: u32
  lr_buf :: "nat \<Rightarrow> u8"

section \<open>Operations\<close>

definition check_of :: "log_ring \<Rightarrow> u32" where
  "check_of r = NOT (lr_magic r XOR lr_head r XOR lr_wrapped r)"

definition log_ring_reset :: "log_ring \<Rightarrow> log_ring" where
  "log_ring_reset r =
     (let r = r\<lparr>lr_magic := LOG_RING_MAGIC, lr_head := 0, lr_wrapped := 0\<rparr>
      in r\<lparr>lr_check := check_of r\<rparr>)"

definition log_ring_valid :: "log_ring \<Rightarrow> bool" where
  "log_ring_valid r \<longleftrightarrow> lr_magic r = LOG_RING_MAGIC \<and> unat (lr_head r) < LOG_RING_SIZE \<and>
     lr_wrapped r \<le> 1 \<and> lr_check r = check_of r"

text \<open>\<open>memcpy\<close> into the array.\<close>

definition store_at :: "(nat \<Rightarrow> u8) \<Rightarrow> nat \<Rightarrow> bytes \<Rightarrow> nat \<Rightarrow> u8" where
  "store_at buf at data = (\<lambda>i. if at \<le> i \<and> i < at + length data then data ! (i - at) else buf i)"

text \<open>
  The copy loop. Each turn fills up to the end of the array. With the head at or past the
  end, which only a header that was never reset has, the C code would not make progress or
  leave the array; the model has no result there.
\<close>

function write_loop ::
  "(nat \<Rightarrow> u8) \<Rightarrow> nat \<Rightarrow> u32 \<Rightarrow> bytes \<Rightarrow> ((nat \<Rightarrow> u8) \<times> nat \<times> u32) option" where
  "write_loop buf head wrapped data =
     (if data = [] then Some (buf, head, wrapped)
      else if LOG_RING_SIZE \<le> head then None
      else
        (let n = (if LOG_RING_SIZE - head > length data then length data else LOG_RING_SIZE - head);
             buf = store_at buf head (take n data);
             head = head + n
         in if head = LOG_RING_SIZE then write_loop buf 0 1 (drop n data)
            else write_loop buf head wrapped (drop n data)))"
  by pat_completeness auto
termination by (relation "measure (\<lambda>(buf, head, wrapped, data). length data)") auto

declare write_loop.simps [simp del]

definition log_ring_write :: "log_ring \<Rightarrow> bytes \<Rightarrow> log_ring option" where
  "log_ring_write r data =
     (let data = (if length data > LOG_RING_SIZE then drop (length data - LOG_RING_SIZE) data
                  else data)
      in case write_loop (lr_buf r) (unat (lr_head r)) (lr_wrapped r) data of
           None \<Rightarrow> None
         | Some (buf, head, wrapped) \<Rightarrow>
             (let r = r\<lparr>lr_buf := buf, lr_head := of_nat head, lr_wrapped := wrapped\<rparr>
              in Some (r\<lparr>lr_check := check_of r\<rparr>)))"

text \<open>The bytes written to \<open>out\<close>; their number is the result of the C function.\<close>

definition log_ring_copy :: "log_ring \<Rightarrow> nat \<Rightarrow> bytes" where
  "log_ring_copy r cap =
     (if \<not> log_ring_valid r \<or> cap = 0 then []
      else
        (let total = (if lr_wrapped r \<noteq> 0 then LOG_RING_SIZE else unat (lr_head r));
             start = (if lr_wrapped r \<noteq> 0 then unat (lr_head r) else 0);
             (start, total) = (if total > cap
               then ((start + (total - cap)) mod LOG_RING_SIZE, cap) else (start, total));
             first = (if LOG_RING_SIZE - start > total then total else LOG_RING_SIZE - start)
         in map (lr_buf r) [start..<start + first] @ map (lr_buf r) [0..<total - first]))"

text \<open>
  The log backend: at start it snapshots what the previous boot left and starts afresh;
  afterwards every chunk of formatted output goes to the ring.
\<close>

record last_log =
  ll_ring :: log_ring
  ll_snapshot :: bytes

definition last_log_init :: "last_log \<Rightarrow> last_log" where
  "last_log_init st = \<lparr>ll_ring = log_ring_reset (ll_ring st),
     ll_snapshot = log_ring_copy (ll_ring st) LOG_RING_SIZE\<rparr>"

definition ring_out :: "bytes \<Rightarrow> last_log \<Rightarrow> (nat \<times> last_log) option" where
  "ring_out data st =
     map_option (\<lambda>r. (length data, st\<lparr>ll_ring := r\<rparr>)) (log_ring_write (ll_ring st) data)"

definition last_log_get :: "last_log \<Rightarrow> bytes" where
  "last_log_get st = ll_snapshot st"

section \<open>The stream a ring holds\<close>

definition newest :: "nat \<Rightarrow> 'a list \<Rightarrow> 'a list" where
  "newest n xs = drop (length xs - n) xs"

lemma newest_length [simp]: "length (newest n xs) = min n (length xs)"
  by (simp add: newest_def)

lemma newest_all: "length xs \<le> n \<Longrightarrow> newest n xs = xs"
  by (simp add: newest_def)

lemma newest_newest_append: "newest n (newest n xs @ ys) = newest n (xs @ ys)"
  by (cases "length xs \<le> n") (simp_all add: newest_def add.commute)

lemma newest_append_short:
  "length ys \<le> n \<Longrightarrow> length xs = n \<Longrightarrow> newest n (xs @ ys) = drop (length ys) xs @ ys"
  by (simp add: newest_def)

lemma newest_newest: "newest m (newest n xs) = newest (min m n) xs"
proof -
  have "(length xs - (length xs - n) - m) + (length xs - n) = length xs - min m n" by arith
  then show ?thesis unfolding newest_def length_drop drop_drop by simp
qed

definition contents :: "(nat \<Rightarrow> u8) \<Rightarrow> nat \<Rightarrow> u32 \<Rightarrow> bytes" where
  "contents buf head wrapped =
     (if wrapped \<noteq> 0 then map buf [head..<LOG_RING_SIZE] @ map buf [0..<head]
      else map buf [0..<head])"

definition ring_contents :: "log_ring \<Rightarrow> bytes" where
  "ring_contents r = contents (lr_buf r) (unat (lr_head r)) (lr_wrapped r)"

lemma contents_length:
  "head \<le> LOG_RING_SIZE \<Longrightarrow> length (contents buf head wrapped) = (if wrapped \<noteq> 0 then LOG_RING_SIZE else head)"
  by (simp add: contents_def)

lemma map_store_at:
  "map (store_at buf at data) [at..<at + length data] = data"
  "b \<le> at \<or> at + length data \<le> a \<Longrightarrow> map (store_at buf at data) [a..<b] = map buf [a..<b]"
  by (auto simp: store_at_def intro: nth_equalityI)

lemma upt_split: "a \<le> b \<Longrightarrow> b \<le> c \<Longrightarrow> [a..<c] = [a..<b] @ [b..<c]"
  using upt_add_eq_append [of a b "c - b"] by simp

text \<open>One turn of the loop appends its chunk and drops what no longer fits.\<close>

lemma contents_chunk:
  fixes buf :: "nat \<Rightarrow> u8"
  assumes "head < LOG_RING_SIZE" and "head + length chunk \<le> LOG_RING_SIZE"
  defines "buf' \<equiv> store_at buf head chunk"
  shows "(if head + length chunk = LOG_RING_SIZE then contents buf' 0 1
      else contents buf' (head + length chunk) wrapped) =
    newest LOG_RING_SIZE (contents buf head wrapped @ chunk)"
proof -
  let ?n = "length chunk" and ?S = LOG_RING_SIZE
  have new: "map buf' [head..<head + ?n] = chunk" "map buf' [0..<head] = map buf [0..<head]"
    "map buf' [head + ?n..<?S] = map buf [head + ?n..<?S]"
    by (simp_all add: buf'_def map_store_at)
  have low: "map buf' [0..<head + ?n] = map buf [0..<head] @ chunk"
    using new upt_split [of 0 head "head + ?n"] by simp
  show ?thesis
  proof (cases "wrapped = 0")
    case True
    then show ?thesis
      using low assms(2) by (auto simp: contents_def newest_all)
  next
    case False
    have old: "contents buf head wrapped = map buf [head..<head + ?n] @ map buf [head + ?n..<?S] @ map buf [0..<head]"
      using False upt_split [of head "head + ?n" ?S] assms(2) by (simp add: contents_def)
    have "length (contents buf head wrapped) = ?S"
      using assms(1) False by (simp add: contents_length)
    then have "newest ?S (contents buf head wrapped @ chunk) = drop ?n (contents buf head wrapped) @ chunk"
      using assms(2) by (intro newest_append_short) simp_all
    also have "\<dots> = map buf [head + ?n..<?S] @ map buf [0..<head] @ chunk"
      unfolding old by simp
    finally show ?thesis
      using low new(3) False by (auto simp: contents_def)
  qed
qed

lemma write_loop_contents:
  assumes "head < LOG_RING_SIZE" and "wrapped \<le> 1"
  shows "\<exists>buf' head' wrapped'. write_loop buf head wrapped data = Some (buf', head', wrapped') \<and>
    head' < LOG_RING_SIZE \<and> wrapped' \<le> 1 \<and>
    contents buf' head' wrapped' = newest LOG_RING_SIZE (contents buf head wrapped @ data)"
  using assms
proof (induction buf head wrapped data rule: write_loop.induct)
  case (1 buf head wrapped data)
  show ?case
  proof (cases "data = []")
    case True
    with "1.prems" show ?thesis
      by (simp add: write_loop.simps [of buf head wrapped] newest_all contents_length)
  next
    case False
    define n where "n = (if LOG_RING_SIZE - head > length data then length data else LOG_RING_SIZE - head)"
    let ?buf = "store_at buf head (take n data)"
    have n: "n \<le> length data" "head + n \<le> LOG_RING_SIZE"
      using "1.prems"(1) by (auto simp: n_def)
    have len: "length (take n data) = n" using n by simp
    have chunk: "(if head + n = LOG_RING_SIZE then contents ?buf 0 1 else contents ?buf (head + n) wrapped) =
        newest LOG_RING_SIZE (contents buf head wrapped @ take n data)"
      using contents_chunk [of head "take n data" buf wrapped] "1.prems"(1) n unfolding len by simp
    have goal: "newest LOG_RING_SIZE (newest LOG_RING_SIZE (contents buf head wrapped @ take n data) @ drop n data) =
        newest LOG_RING_SIZE (contents buf head wrapped @ data)"
      by (simp add: newest_newest_append)
    have step: "write_loop buf head wrapped data =
        (if head + n = LOG_RING_SIZE then write_loop ?buf 0 1 (drop n data)
         else write_loop ?buf (head + n) wrapped (drop n data))"
      using False "1.prems"(1) by (simp add: write_loop.simps [of buf head wrapped] n_def Let_def)
    show ?thesis
    proof (cases "head + n = LOG_RING_SIZE")
      case True
      have "\<exists>buf' head' wrapped'. write_loop ?buf 0 1 (drop n data) = Some (buf', head', wrapped') \<and>
          head' < LOG_RING_SIZE \<and> wrapped' \<le> 1 \<and>
          contents buf' head' wrapped' = newest LOG_RING_SIZE (contents ?buf 0 1 @ drop n data)"
        using "1.IH"(1) [OF False _ n_def refl refl True] "1.prems" by (simp add: LOG_RING_SIZE_def)
      with True chunk goal step show ?thesis by simp
    next
      case above: False
      have "\<exists>buf' head' wrapped'. write_loop ?buf (head + n) wrapped (drop n data) = Some (buf', head', wrapped') \<and>
          head' < LOG_RING_SIZE \<and> wrapped' \<le> 1 \<and>
          contents buf' head' wrapped' = newest LOG_RING_SIZE (contents ?buf (head + n) wrapped @ drop n data)"
        using "1.IH"(2) [OF False _ n_def refl refl above] "1.prems" n above by simp
      with above chunk goal step show ?thesis by simp
    qed
  qed
qed

section \<open>Writing and reading back\<close>

lemma valid_reset: "log_ring_valid (log_ring_reset r)"
  by (simp add: log_ring_reset_def log_ring_valid_def check_of_def Let_def const_simps)

lemma contents_reset: "ring_contents (log_ring_reset r) = []"
  by (simp add: log_ring_reset_def ring_contents_def contents_def Let_def)

lemma unat_of_nat_small: "n < 4096 \<Longrightarrow> unat (of_nat n :: u32) = n"
  by (simp add: unat_of_nat)

lemma write_valid:
  assumes "log_ring_valid r"
  shows "\<exists>r'. log_ring_write r data = Some r' \<and> log_ring_valid r' \<and>
    ring_contents r' = newest LOG_RING_SIZE (ring_contents r @ data)"
proof -
  let ?data = "newest LOG_RING_SIZE data"
  have cut: "(if length data > LOG_RING_SIZE then drop (length data - LOG_RING_SIZE) data else data) = ?data"
    by (simp add: newest_def)
  have r: "unat (lr_head r) < LOG_RING_SIZE" "lr_wrapped r \<le> 1" "lr_magic r = LOG_RING_MAGIC"
    using assms by (simp_all add: log_ring_valid_def)
  from write_loop_contents [OF r(1,2), of "lr_buf r" ?data] obtain buf head wrapped where
    w: "write_loop (lr_buf r) (unat (lr_head r)) (lr_wrapped r) ?data = Some (buf, head, wrapped)"
      "head < LOG_RING_SIZE" "wrapped \<le> 1"
      "contents buf head wrapped = newest LOG_RING_SIZE (ring_contents r @ ?data)"
    by (auto simp: ring_contents_def)
  let ?r = "r\<lparr>lr_buf := buf, lr_head := of_nat head, lr_wrapped := wrapped\<rparr>"
  have head: "unat (of_nat head :: u32) = head"
    using w(2) by (simp add: LOG_RING_SIZE_def unat_of_nat_small)
  have "newest LOG_RING_SIZE (xs @ newest LOG_RING_SIZE ys) = newest LOG_RING_SIZE (xs @ ys)" for xs ys :: bytes
    by (cases "length ys \<le> LOG_RING_SIZE") (simp_all add: newest_def)
  then have "ring_contents (?r\<lparr>lr_check := check_of ?r\<rparr>) = newest LOG_RING_SIZE (ring_contents r @ data)"
    using w(4) head by (simp add: ring_contents_def)
  moreover have "log_ring_valid (?r\<lparr>lr_check := check_of ?r\<rparr>)"
    using w r head by (simp add: log_ring_valid_def check_of_def)
  ultimately show ?thesis
    by (auto simp: log_ring_write_def Let_def cut w(1))
qed

lemma copy_contents:
  assumes "log_ring_valid r"
  shows "log_ring_copy r cap = newest cap (ring_contents r)"
proof (cases "cap = 0")
  case True
  then show ?thesis by (simp add: log_ring_copy_def newest_def)
next
  case False
  let ?S = LOG_RING_SIZE and ?h = "unat (lr_head r)" and ?b = "lr_buf r"
  have h: "?h < ?S" using assms by (simp add: log_ring_valid_def)
  show ?thesis
  proof (cases "lr_wrapped r = 0")
    case True
    have "drop (?h - cap) (map ?b [0..<?h]) = map ?b [?h - cap..<?h]" by (simp add: drop_map)
    moreover have "(?h - cap) mod ?S = ?h - cap" using h by simp
    ultimately show ?thesis
      using True False h assms
      by (auto simp: log_ring_copy_def ring_contents_def contents_def newest_def Let_def)
  next
    case wrapped: False
    have all: "length (ring_contents r) = ?S"
      using wrapped h by (simp add: ring_contents_def contents_length)
    show ?thesis
    proof (cases "cap < ?S")
      case False
      with wrapped h assms \<open>cap \<noteq> 0\<close> show ?thesis
        by (simp add: log_ring_copy_def newest_all all)
          (simp add: ring_contents_def contents_def Let_def)
    next
      case True
      let ?d = "?S - cap"
      have "newest cap (ring_contents r) = drop ?d (map ?b [?h..<?S] @ map ?b [0..<?h])"
        using wrapped by (simp add: newest_def all) (simp add: ring_contents_def contents_def)
      also have "\<dots> = map ?b [?h + ?d..<?S] @ map ?b [?d - (?S - ?h)..<?h]"
        by (simp add: drop_map)
      finally have new: "newest cap (ring_contents r) = \<dots>" .
      show ?thesis
      proof (cases "?h + ?d < ?S")
        case above: True
        then have "(?h + ?d) mod ?S = ?h + ?d" "?S - (?h + ?d) \<le> cap" "?d - (?S - ?h) = 0"
          "cap - (?S - (?h + ?d)) = ?h" "?h + ?d + (?S - (?h + ?d)) = ?S"
          using True by simp_all
        with wrapped True \<open>cap \<noteq> 0\<close> assms above show ?thesis
          unfolding new by (auto simp: log_ring_copy_def Let_def)
      next
        case below: False
        then have "(?h + ?d) mod ?S = ?h + ?d - ?S"
          using h by (simp add: le_mod_geq mod_if)
        moreover have "?d - (?S - ?h) = ?h + ?d - ?S" "?h + ?d - ?S + cap = ?h" "\<not> ?S - (?h + ?d - ?S) < cap"
          using below h True by linarith+
        ultimately show ?thesis
          using wrapped True \<open>cap \<noteq> 0\<close> assms below unfolding new
          by (auto simp: log_ring_copy_def Let_def)
      qed
    qed
  qed
qed

fun write_all :: "log_ring \<Rightarrow> bytes list \<Rightarrow> log_ring option" where
  "write_all r [] = Some r"
| "write_all r (d # ds) = (case log_ring_write r d of None \<Rightarrow> None | Some r' \<Rightarrow> write_all r' ds)"

lemma write_all_valid:
  assumes "log_ring_valid r"
  shows "\<exists>r'. write_all r ds = Some r' \<and> log_ring_valid r' \<and>
    newest LOG_RING_SIZE (ring_contents r') = newest LOG_RING_SIZE (ring_contents r @ concat ds)"
  using assms
proof (induction ds arbitrary: r)
  case Nil
  then show ?case by simp
next
  case (Cons d ds)
  from write_valid [OF Cons.prems, of d] obtain r1 where r1: "log_ring_write r d = Some r1"
    "log_ring_valid r1" "ring_contents r1 = newest LOG_RING_SIZE (ring_contents r @ d)" by blast
  from Cons.IH [OF r1(2)] obtain r' where "write_all r1 ds = Some r'" "log_ring_valid r'"
    "newest LOG_RING_SIZE (ring_contents r') = newest LOG_RING_SIZE (ring_contents r1 @ concat ds)" by blast
  with r1 show ?case by (simp add: newest_newest_append)
qed

text \<open>
  C16. The ring keeps the newest bytes. From a reset ring, any sequence of writes of any
  lengths, longer than the ring included, terminates inside the array, leaves a valid
  header, and copying out with room for \<open>cap\<close> bytes gives exactly the newest
  \<open>min cap 4096\<close> bytes of everything written, oldest first.
\<close>

theorem log_ring_keeps_newest:
  "\<exists>r'. write_all (log_ring_reset r) ds = Some r' \<and> log_ring_valid r' \<and>
     log_ring_copy r' cap = newest (min cap 4096) (concat ds)"
proof -
  from write_all_valid [OF valid_reset [of r], of ds] obtain r' where r': 
    "write_all (log_ring_reset r) ds = Some r'" "log_ring_valid r'"
    "newest LOG_RING_SIZE (ring_contents r') = newest LOG_RING_SIZE (concat ds)"
    by (auto simp: contents_reset)
  have "length (ring_contents r') \<le> LOG_RING_SIZE"
    using r'(2) by (simp add: ring_contents_def contents_length log_ring_valid_def)
  then have "ring_contents r' = newest LOG_RING_SIZE (concat ds)"
    using r'(3) by (simp add: newest_all)
  then have "log_ring_copy r' cap = newest (min cap 4096) (concat ds)"
    by (simp add: copy_contents [OF r'(2)] newest_newest LOG_RING_SIZE_def)
  with r'(1,2) show ?thesis by blast
qed

fun out_all :: "last_log \<Rightarrow> bytes list \<Rightarrow> last_log option" where
  "out_all st [] = Some st"
| "out_all st (d # ds) = (case ring_out d st of None \<Rightarrow> None | Some (n, st') \<Rightarrow> out_all st' ds)"

lemma out_all_write:
  "out_all st ds = map_option (\<lambda>r. st\<lparr>ll_ring := r\<rparr>) (write_all (ll_ring st) ds)"
  by (induction ds arbitrary: st) (auto simp: ring_out_def split: option.split)

text \<open>
  What a boot logs is what the next boot serves: after the backend starts and any
  chunks are written, a reset that keeps the memory and the next start leave the newest
  4096 bytes of them as the snapshot that \<open>last_log_get\<close> returns, and an empty ring.
\<close>

lemma last_log_survives_reset:
  "\<exists>st1. out_all (last_log_init st) chunks = Some st1 \<and>
     last_log_get (last_log_init st1) = newest 4096 (concat chunks) \<and>
     ring_contents (ll_ring (last_log_init st1)) = []"
proof -
  obtain r' where "write_all (log_ring_reset (ll_ring st)) chunks = Some r'"
    "log_ring_valid r'" "log_ring_copy r' 4096 = newest 4096 (concat chunks)"
  proof -
    from write_all_valid [OF valid_reset [of "ll_ring st"], of chunks] obtain r' where r': 
      "write_all (log_ring_reset (ll_ring st)) chunks = Some r'" "log_ring_valid r'"
      "newest LOG_RING_SIZE (ring_contents r') = newest LOG_RING_SIZE (concat chunks)"
      by (auto simp: contents_reset)
    then show thesis by (intro that [of r']) (simp_all add: copy_contents LOG_RING_SIZE_def)
  qed
  then show ?thesis
    by (simp add: out_all_write last_log_init_def last_log_get_def contents_reset LOG_RING_SIZE_def)
qed

end
