(* ===== verification/Http_Server.thy ===== *)
theory Http_Server
  imports Api_Safety Log_Ring
begin

text \<open>
  The HTTP glue (\<open>protective_stop/src/http_server.c\<close>): the table of per-client request
  states, the gathering of credentials and bodies over several callbacks, the dispatch to the
  handlers of \<open>api.c\<close>, the streamed crash dump and the delayed restart. The Zephyr server that
  calls \<open>route_handler\<close> is the environment: a callback is its arguments, and its effect is the
  return code with the response context, the table, the device and whether a restart has been
  scheduled. Clients are numbers; a body is a list of bytes.
\<close>

section \<open>State\<close>

definition REQ_BODY_MAX :: nat where [const_simps]: "REQ_BODY_MAX = 1024"

record req_state =
  rq_client :: "nat option"
  rq_auth :: string
  rq_body :: string
  rq_overflow :: bool
  rq_streaming :: bool
  rq_stream_off :: nat
  rq_stream_size :: nat

definition req_zero :: req_state where
  "req_zero = \<lparr>rq_client = None, rq_auth = [], rq_body = [], rq_overflow = False, rq_streaming = False,
     rq_stream_off = 0, rq_stream_size = 0\<rparr>"

datatype route =
  ROUTE_STATE | ROUTE_PSTOP_PEER | ROUTE_PSTOP_PEERS | ROUTE_ROLE | ROUTE_RING_OFFSET | ROUTE_RING_LED1
  | ROUTE_HEALTH | ROUTE_HEALTH_RESET | ROUTE_LAST_LOG | ROUTE_COREDUMP | ROUTE_ADMIN_PAGE
  | ROUTE_ADMIN_STATUS | ROUTE_ADMIN_RESTART | ROUTE_ADMIN_SETTINGS | ROUTE_ADMIN_WIFI
  | ROUTE_ADMIN_VERBOSE | ROUTE_ADMIN_VERBOSE_TOGGLE

datatype http_transaction_status =
  HTTP_SERVER_TRANSACTION_ABORTED | HTTP_SERVER_TRANSACTION_COMPLETE
  | HTTP_SERVER_REQUEST_DATA_MORE | HTTP_SERVER_REQUEST_DATA_FINAL

text \<open>The request context of one callback; \<open>None\<close> is a NULL pointer.\<close>

record http_request_ctx =
  hr_data :: "string option"
  hr_headers :: "(string \<times> string) list option"

datatype http_headers = NoHeaders | AuthChallenge | GzipEncoding

record http_response_ctx =
  hs_status :: int
  hs_headers :: http_headers
  hs_body :: bytes
  hs_final_chunk :: bool

text \<open>The response context as the server hands it in; status 0 leaves the server's default.\<close>

definition rsp_ctx_init :: http_response_ctx where
  "rsp_ctx_init = \<lparr>hs_status = 0, hs_headers = NoHeaders, hs_body = [], hs_final_chunk = False\<rparr>"

record 'f server =
  sv_reqs :: "req_state list"
  sv_device :: "'f device"
  sv_restart :: bool

record callback =
  cb_client :: nat
  cb_status :: http_transaction_status
  cb_post :: bool
  cb_url :: string
  cb_req :: http_request_ctx
  cb_route :: route
  cb_now :: api_now

text \<open>What the image carries: the size of a captured header, the page, the log and the dump.\<close>

record ('m, 'f) image =
  im_api :: "('m, 'f) api_build"
  im_header_size :: nat
  im_page :: bytes
  im_last_log :: bytes
  im_dump :: "(nat \<Rightarrow> nat \<Rightarrow> int \<times> bytes) option"

section \<open>The table of requests\<close>

definition req_for :: "nat \<Rightarrow> req_state list \<Rightarrow> (nat \<times> req_state list) option" where
  "req_for client reqs =
     (case find (\<lambda>i. rq_client (reqs ! i) = Some client) [0..<length reqs] of
        Some i \<Rightarrow> Some (i, reqs)
      | None \<Rightarrow>
          (case find (\<lambda>i. rq_client (reqs ! i) = None) [0..<length reqs] of
             Some i \<Rightarrow> Some (i, reqs[i := req_zero\<lparr>rq_client := Some client\<rparr>])
           | None \<Rightarrow> None))"

definition req_release :: "nat \<Rightarrow> req_state list \<Rightarrow> req_state list" where
  "req_release client reqs = map (\<lambda>r. if rq_client r = Some client then req_zero else r) reqs"

definition lower_char :: "char \<Rightarrow> char" where
  "lower_char c = (if 65 \<le> (of_char c :: nat) \<and> (of_char c :: nat) \<le> 90 then char_of (of_char c + 32 :: nat) else c)"

definition strcasecmp_eq :: "string \<Rightarrow> string \<Rightarrow> bool" where
  "strcasecmp_eq a b \<longleftrightarrow> map lower_char a = map lower_char b"

definition capture_auth :: "nat \<Rightarrow> http_request_ctx \<Rightarrow> req_state \<Rightarrow> req_state" where
  "capture_auth cap req r =
     (case hr_headers req of None \<Rightarrow> r
      | Some hs \<Rightarrow>
          (case find (\<lambda>(name, v). strcasecmp_eq name ''Authorization'') hs of
             None \<Rightarrow> r\<lparr>rq_auth := []\<rparr>
           | Some (name, v) \<Rightarrow> r\<lparr>rq_auth := take (cap - 1) v\<rparr>))"

definition gather_body :: "http_request_ctx \<Rightarrow> req_state \<Rightarrow> req_state" where
  "gather_body req r =
     (case hr_data req of None \<Rightarrow> r
      | Some data \<Rightarrow>
          if length data = 0 then r
          else if length (rq_body r) + length data > REQ_BODY_MAX then r\<lparr>rq_overflow := True\<rparr>
          else r\<lparr>rq_body := rq_body r @ data\<rparr>)"

section \<open>The streamed dump\<close>

definition stream_coredump ::
  "(nat \<Rightarrow> nat \<Rightarrow> int \<times> bytes) option \<Rightarrow> req_state \<Rightarrow> http_response_ctx \<Rightarrow> int \<times> req_state \<times> http_response_ctx" where
  "stream_coredump dump r rsp_ctx =
     (let n = min PSTOP_API_BODY_MAX (rq_stream_size r - rq_stream_off r);
          (ret, data) = crash_read dump (rq_stream_off r) n
      in if ret \<le> 0 then (0, r, rsp_ctx\<lparr>hs_final_chunk := True\<rparr>)
         else (let off = rq_stream_off r + nat ret in
               (0, r\<lparr>rq_stream_off := off\<rparr>,
                rsp_ctx\<lparr>hs_body := take (nat ret) data, hs_final_chunk := (off \<ge> rq_stream_size r)\<rparr>)))"

section \<open>Dispatch\<close>

text \<open>
  What the switch over the route comes to: a body with its response record, the start of the
  dump stream (with its size), or the admin page.
\<close>

datatype dispatched = Answer bytes pstop_api_response | StartStream nat | SendPage

definition answer :: "api_reply \<Rightarrow> dispatched" where
  "answer r = Answer (map char_byte (fst r)) (snd r)"

definition dispatch ::
  "('m, 'f) image \<Rightarrow> callback \<Rightarrow> req_state \<Rightarrow> 'f device \<Rightarrow> dispatched \<times> 'f device" where
  "dispatch I cb r d =
     (let B = im_api I; N = cb_now cb; cap = PSTOP_API_BODY_MAX; url = cb_url cb; post = cb_post cb;
          auth = rq_auth r; put = (\<lambda>(a, d). (answer a, d))
      in case cb_route cb of
        ROUTE_STATE \<Rightarrow> (answer (pstop_api_state B N cap d), d)
      | ROUTE_PSTOP_PEER \<Rightarrow> put (pstop_api_pstop_peer B cap url d)
      | ROUTE_PSTOP_PEERS \<Rightarrow> put (pstop_api_pstop_peers B cap url d)
      | ROUTE_ROLE \<Rightarrow> put (pstop_api_role B cap post url auth d)
      | ROUTE_RING_OFFSET \<Rightarrow> put (pstop_api_ring_offset B cap url d)
      | ROUTE_RING_LED1 \<Rightarrow> put (pstop_api_ring_led1 N cap url d)
      | ROUTE_HEALTH \<Rightarrow> put (pstop_api_health B N cap d)
      | ROUTE_HEALTH_RESET \<Rightarrow> put (pstop_api_health_reset B N cap url auth d)
      | ROUTE_LAST_LOG \<Rightarrow>
          (Answer (im_last_log I) (init_rsp\<lparr>rsp_status := 200, rsp_len := length (im_last_log I)\<rparr>), d)
      | ROUTE_COREDUMP \<Rightarrow>
          (case pstop_api_coredump B N cap auth of (a, n) \<Rightarrow>
             (if rsp_status (snd a) = 200 then StartStream n else answer a, d))
      | ROUTE_ADMIN_PAGE \<Rightarrow>
          (let a = pstop_api_admin_page B cap auth
           in (if rsp_status (snd a) = 200 then SendPage else answer a, d))
      | ROUTE_ADMIN_STATUS \<Rightarrow> (answer (pstop_api_admin_status B N cap auth d), d)
      | ROUTE_ADMIN_RESTART \<Rightarrow> (answer (pstop_api_admin_restart B cap auth), d)
      | ROUTE_ADMIN_SETTINGS \<Rightarrow> put (pstop_api_admin_settings B cap post (rq_body r) auth d)
      | ROUTE_ADMIN_WIFI \<Rightarrow> put (pstop_api_admin_wifi B cap post (rq_body r) auth d)
      | ROUTE_ADMIN_VERBOSE \<Rightarrow> put (pstop_api_admin_verbose B cap False auth d)
      | ROUTE_ADMIN_VERBOSE_TOGGLE \<Rightarrow> put (pstop_api_admin_verbose B cap True auth d))"

definition body_too_large :: "bytes \<times> pstop_api_response" where
  "body_too_large = (let s = ''{\"ok\":false,\"error\":\"body too large\"}'' in
     (map char_byte s, init_rsp\<lparr>rsp_status := 413, rsp_len := length s\<rparr>))"

text \<open>The label \<open>respond\<close>: the credentials are dropped and the context filled in.\<close>

definition respond ::
  "nat \<Rightarrow> req_state \<Rightarrow> bytes \<Rightarrow> pstop_api_response \<Rightarrow> http_response_ctx \<Rightarrow> 'f server \<Rightarrow>
     (int \<times> http_response_ctx) \<times> 'f server" where
  "respond i r body rsp rsp_ctx sv =
     ((0, rsp_ctx\<lparr>hs_status := rsp_status rsp,
           hs_headers := (if rsp_auth_challenge rsp then AuthChallenge else hs_headers rsp_ctx),
           hs_body := body, hs_final_chunk := True\<rparr>),
      sv\<lparr>sv_reqs := (sv_reqs sv)[i := r\<lparr>rq_auth := []\<rparr>],
         sv_restart := (sv_restart sv \<or> rsp_restart rsp)\<rparr>)"

definition route_handler ::
  "('m, 'f) image \<Rightarrow> callback \<Rightarrow> 'f server \<Rightarrow> (int \<times> http_response_ctx) \<times> 'f server" where
  "route_handler I cb sv =
     (let rsp_ctx = rsp_ctx_init in
      if cb_status cb = HTTP_SERVER_TRANSACTION_ABORTED \<or> cb_status cb = HTTP_SERVER_TRANSACTION_COMPLETE
      then ((0, rsp_ctx), sv\<lparr>sv_reqs := req_release (cb_client cb) (sv_reqs sv)\<rparr>)
      else case req_for (cb_client cb) (sv_reqs sv) of
        None \<Rightarrow> ((- ENOMEM, rsp_ctx), sv)
      | Some (i, reqs) \<Rightarrow>
          (let sv = sv\<lparr>sv_reqs := reqs\<rparr>; r = reqs ! i in
           if rq_streaming r
           then (case stream_coredump (im_dump I) r rsp_ctx of (ret, r, rsp_ctx) \<Rightarrow>
                   ((ret, rsp_ctx), sv\<lparr>sv_reqs := reqs[i := r]\<rparr>))
           else
             (let r = gather_body (cb_req cb) (capture_auth (im_header_size I) (cb_req cb) r);
                  sv = sv\<lparr>sv_reqs := reqs[i := r]\<rparr>
              in if cb_status cb \<noteq> HTTP_SERVER_REQUEST_DATA_FINAL then ((0, rsp_ctx), sv)
                 else if rq_overflow r
                 then (case body_too_large of (body, rsp) \<Rightarrow> respond i r body rsp rsp_ctx sv)
                 else (case dispatch I cb r (sv_device sv) of
                   (Answer body rsp, d) \<Rightarrow> respond i r body rsp rsp_ctx (sv\<lparr>sv_device := d\<rparr>)
                 | (StartStream n, d) \<Rightarrow>
                     (case stream_coredump (im_dump I)
                             (r\<lparr>rq_stream_size := n, rq_streaming := True, rq_stream_off := 0\<rparr>) rsp_ctx of
                        (ret, r, rsp_ctx) \<Rightarrow>
                          ((ret, rsp_ctx), sv\<lparr>sv_device := d, sv_reqs := reqs[i := r]\<rparr>))
                 | (SendPage, d) \<Rightarrow>
                     ((0, rsp_ctx\<lparr>hs_headers := GzipEncoding, hs_body := im_page I, hs_final_chunk := True\<rparr>),
                      sv\<lparr>sv_device := d\<rparr>)))))"

text \<open>The delayed work: the counters are flushed, then the board reboots.\<close>

definition restart_work_fn :: "int \<Rightarrow> int \<Rightarrow> 'f device \<Rightarrow> 'f device" where
  "restart_work_fn now save_ret d =
     (case health_flush now save_ret (d_health d) of (ret, blobs, h) \<Rightarrow> put_health blobs h d)"

definition pstop_http_start :: "int \<Rightarrow> int" where
  "pstop_http_start start_ret = start_ret"

end
