(* ===== verification/Http_Sessions.thy ===== *)
theory Http_Sessions
  imports Http_Server
begin

text \<open>
  What the request table of \<open>protective_stop/src/http_server.c\<close> promises its clients: callbacks
  of one client never touch what is kept for another, a body sent in pieces arrives whole or
  not at all, the crash dump is streamed to its last byte, and nothing behind the gate
  happens for a request whose own headers carried no valid credentials.
\<close>

section \<open>Searching a table\<close>

lemma find_update_skip:
  "\<not> P (xs ! i) \<Longrightarrow> \<not> P r \<Longrightarrow> find P (xs[i := r]) = find P xs"
proof (induction xs arbitrary: i)
  case (Cons x xs)
  then show ?case by (cases i) auto
qed simp

lemma find_map_skip:
  "(\<And>x. P x \<Longrightarrow> f x = x) \<Longrightarrow> (\<And>x. \<not> P x \<Longrightarrow> \<not> P (f x)) \<Longrightarrow> find P (map f xs) = find P xs"
  by (induction xs) auto

lemma find_index_Some:
  "find (\<lambda>i. P (xs ! i)) [0..<length xs] = Some i \<Longrightarrow>
     i < length xs \<and> P (xs ! i) \<and> (\<forall>j < i. \<not> P (xs ! j))"
  by (auto simp: find_Some_iff)

lemma find_index_None: "find (\<lambda>i. P (xs ! i)) [0..<length xs] = None \<longleftrightarrow> find P xs = None"
  by (auto simp: find_None_iff in_set_conv_nth)

lemma find_first: "i < length xs \<Longrightarrow> P (xs ! i) \<Longrightarrow> \<forall>j < i. \<not> P (xs ! j) \<Longrightarrow> find P xs = Some (xs ! i)"
  by (auto simp: find_Some_iff)

section \<open>What is kept for a client\<close>

definition kept :: "nat \<Rightarrow> req_state list \<Rightarrow> req_state option" where
  "kept c reqs = find (\<lambda>r. rq_client r = Some c) reqs"

definition fresh :: "nat \<Rightarrow> req_state" where
  "fresh c = req_zero\<lparr>rq_client := Some c\<rparr>"

definition kept_or_fresh :: "nat \<Rightarrow> req_state list \<Rightarrow> req_state" where
  "kept_or_fresh c reqs = (case kept c reqs of Some r \<Rightarrow> r | None \<Rightarrow> fresh c)"

lemma kept_client: "kept c reqs = Some r \<Longrightarrow> rq_client r = Some c"
  unfolding kept_def by (drule find_Some_member) simp

lemma kept_or_fresh_client: "rq_client (kept_or_fresh c reqs) = Some c"
  by (auto simp: kept_or_fresh_def fresh_def dest: kept_client split: option.split)

lemma req_for_kept:
  assumes "req_for c reqs = Some (i, reqs')"
  shows "reqs' ! i = kept_or_fresh c reqs"
    and "rq_client r = Some c \<Longrightarrow> kept c (reqs'[i := r]) = Some r"
    and "c' \<noteq> c \<Longrightarrow> rq_client r = Some c \<Longrightarrow> kept c' (reqs'[i := r]) = kept c' reqs"
    and "c' \<noteq> c \<Longrightarrow> kept c' reqs' = kept c' reqs"
    and "kept c reqs' = Some (reqs' ! i)"
proof -
  let ?mine = "\<lambda>r. rq_client r = Some c" and ?free = "\<lambda>r. rq_client r = None"
  consider (held) "find (\<lambda>i. ?mine (reqs ! i)) [0..<length reqs] = Some i" "reqs' = reqs"
    | (claim) "find (\<lambda>i. ?mine (reqs ! i)) [0..<length reqs] = None"
      "find (\<lambda>i. ?free (reqs ! i)) [0..<length reqs] = Some i" "reqs' = reqs[i := fresh c]"
    using assms by (auto simp: req_for_def fresh_def split: option.splits)
  then have "reqs' ! i = kept_or_fresh c reqs \<and> i < length reqs' \<and> length reqs' = length reqs \<and>
      (\<forall>j < i. \<not> ?mine (reqs' ! j)) \<and>
      (\<forall>c'. c' \<noteq> c \<longrightarrow> rq_client (reqs ! i) \<noteq> Some c') \<and> (\<forall>r. reqs'[i := r] = reqs[i := r])"
  proof cases
    case held
    from find_index_Some [of ?mine, OF held(1)] have "i < length reqs" "?mine (reqs ! i)"
      "\<forall>j < i. \<not> ?mine (reqs ! j)" by blast+
    moreover from this have "kept c reqs = Some (reqs ! i)" unfolding kept_def by (rule find_first)
    ultimately show ?thesis by (simp add: held(2) kept_or_fresh_def)
  next
    case claim
    from find_index_Some [of ?free, OF claim(2)] have i: "i < length reqs" "?free (reqs ! i)" by blast+
    from claim(1) have none: "kept c reqs = None" by (simp only: find_index_None [of ?mine] kept_def)
    then have "\<forall>j < length reqs. \<not> ?mine (reqs ! j)" by (auto simp: kept_def find_None_iff)
    with i none show ?thesis by (auto simp: claim(3) kept_or_fresh_def)
  qed
  then have at_i: "reqs' ! i = kept_or_fresh c reqs" "i < length reqs'" "length reqs' = length reqs"
    and before: "\<forall>j < i. \<not> ?mine (reqs' ! j)"
    and foreign: "\<And>c'. c' \<noteq> c \<Longrightarrow> rq_client (reqs ! i) \<noteq> Some c'"
    and update: "\<And>r. reqs'[i := r] = reqs[i := r]" by blast+
  show "reqs' ! i = kept_or_fresh c reqs" by (fact at_i(1))
  show mine: "kept c (reqs'[i := r]) = Some r" if "rq_client r = Some c" for r
    unfolding kept_def using find_first [of i "reqs'[i := r]" ?mine] at_i before that by simp
  show other: "kept c' (reqs'[i := r]) = kept c' reqs" if "c' \<noteq> c" "rq_client r = Some c" for c' r
    unfolding kept_def update using foreign [OF that(1)] that by (intro find_update_skip) auto
  have same: "reqs'[i := reqs' ! i] = reqs'" by simp
  show "kept c' reqs' = kept c' reqs" if "c' \<noteq> c" for c'
    using other [OF that, of "reqs' ! i"] same kept_or_fresh_client at_i(1) by simp
  show "kept c reqs' = Some (reqs' ! i)"
    using mine [of "reqs' ! i"] same kept_or_fresh_client at_i(1) by simp
qed

lemma req_release_kept:
  "kept c' (req_release c reqs) = (if c' = c then None else kept c' reqs)"
proof (cases "c' = c")
  case True
  then show ?thesis by (auto simp: kept_def req_release_def find_None_iff req_zero_def)
next
  case False
  then show ?thesis
    unfolding kept_def req_release_def by (subst find_map_skip) (auto simp: req_zero_def)
qed

section \<open>Clients do not meet\<close>

text \<open>A shared server that keeps something per owner: a step of one owner leaves the others' alone.\<close>

locale per_client =
  fixes owner :: "'e \<Rightarrow> nat"
    and step :: "'e \<Rightarrow> 's \<Rightarrow> 's"
    and view :: "nat \<Rightarrow> 's \<Rightarrow> 'v"
  assumes isolated: "owner e \<noteq> c \<Longrightarrow> view c (step e s) = view c s"
begin

lemma run_isolated: "\<forall>e \<in> set es. owner e \<noteq> c \<Longrightarrow> view c (fold step es s) = view c s"
  by (induction es arbitrary: s) (simp_all add: isolated)

end

definition serve :: "('m, 'f) image \<Rightarrow> callback \<Rightarrow> 'f server \<Rightarrow> 'f server" where
  "serve I cb sv = snd (route_handler I cb sv)"

text \<open>The client's state once the callback's headers and data are taken in.\<close>

definition taken_in :: "('m, 'f) image \<Rightarrow> callback \<Rightarrow> req_state \<Rightarrow> req_state" where
  "taken_in I cb r = gather_body (cb_req cb) (capture_auth (im_header_size I) (cb_req cb) r)"

lemma taken_in_client: "rq_client (taken_in I cb r) = rq_client r"
  by (simp add: taken_in_def gather_body_def capture_auth_def split: option.split prod.split)

lemma stream_client: "rq_client (fst (snd (stream_coredump dump r ctx))) = rq_client r"
  by (simp add: stream_coredump_def Let_def case_prod_unfold)

text \<open>The client's state after a callback that is not the end of its transaction.\<close>

definition after_callback :: "('m, 'f) image \<Rightarrow> callback \<Rightarrow> 'f device \<Rightarrow> req_state \<Rightarrow> req_state" where
  "after_callback I cb d r =
     (if rq_streaming r then fst (snd (stream_coredump (im_dump I) r rsp_ctx_init))
      else (let r = taken_in I cb r in
            if cb_status cb \<noteq> HTTP_SERVER_REQUEST_DATA_FINAL then r
            else if rq_overflow r then r\<lparr>rq_auth := []\<rparr>
            else (case fst (dispatch I cb r d) of
                    Answer body rsp \<Rightarrow> r\<lparr>rq_auth := []\<rparr>
                  | StartStream n \<Rightarrow> fst (snd (stream_coredump (im_dump I)
                      (r\<lparr>rq_stream_size := n, rq_streaming := True, rq_stream_off := 0\<rparr>) rsp_ctx_init))
                  | SendPage \<Rightarrow> r)))"

definition ends :: "callback \<Rightarrow> bool" where
  "ends cb \<longleftrightarrow> cb_status cb = HTTP_SERVER_TRANSACTION_ABORTED \<or> cb_status cb = HTTP_SERVER_TRANSACTION_COMPLETE"

lemma after_callback_client: "rq_client (after_callback I cb d r) = rq_client r"
  by (simp add: after_callback_def Let_def taken_in_client stream_client split: dispatched.split)

lemma serve_table:
  assumes "\<not> ends cb" and "req_for (cb_client cb) (sv_reqs sv) = Some (i, reqs)"
  shows "sv_reqs (serve I cb sv) = reqs[i := after_callback I cb (sv_device sv) (reqs ! i)]"
proof (cases "rq_streaming (reqs ! i)")
  case True
  with assms show ?thesis
    by (simp add: serve_def route_handler_def ends_def Let_def after_callback_def case_prod_unfold)
next
  case False
  define r where "r = taken_in I cb (reqs ! i)"
  obtain out d where out: "dispatch I cb r (sv_device sv) = (out, d)" by fastforce
  from False assms out show ?thesis
    by (cases out)
      (simp_all add: serve_def route_handler_def ends_def Let_def after_callback_def case_prod_unfold
        respond_def body_too_large_def taken_in_def [symmetric] r_def [symmetric])
qed

lemma serve_kept:
  assumes "\<not> ends cb" and "req_for (cb_client cb) (sv_reqs sv) \<noteq> None"
  shows "kept (cb_client cb) (sv_reqs (serve I cb sv)) =
     Some (after_callback I cb (sv_device sv) (kept_or_fresh (cb_client cb) (sv_reqs sv)))"
proof -
  obtain i reqs where p: "req_for (cb_client cb) (sv_reqs sv) = Some (i, reqs)" using assms(2) by auto
  note facts = req_for_kept [OF p]
  show ?thesis
    unfolding serve_table [OF assms(1) p] facts(1)
    by (rule facts(2)) (simp add: after_callback_client kept_or_fresh_client)
qed

lemma serve_isolated:
  assumes "cb_client cb \<noteq> c"
  shows "kept c (sv_reqs (serve I cb sv)) = kept c (sv_reqs sv)"
proof (cases "ends cb")
  case True
  with assms show ?thesis by (auto simp: serve_def route_handler_def req_release_kept ends_def)
next
  case False
  show ?thesis
  proof (cases "req_for (cb_client cb) (sv_reqs sv)")
    case None
    with False show ?thesis by (simp add: serve_def route_handler_def ends_def)
  next
    case (Some p)
    obtain i reqs where p: "req_for (cb_client cb) (sv_reqs sv) = Some (i, reqs)" using Some by (cases p) auto
    note facts = req_for_kept [OF p]
    show ?thesis
      unfolding serve_table [OF False p]
      using facts(3) [of c "after_callback I cb (sv_device sv) (reqs ! i)"] assms
      by (simp add: after_callback_client facts(1) kept_or_fresh_client)
  qed
qed

interpretation clients: per_client cb_client "serve I" "\<lambda>c sv. kept c (sv_reqs sv)" for I
  by unfold_locales (rule serve_isolated)


section \<open>A body in pieces\<close>

definition cb_data :: "callback \<Rightarrow> string" where
  "cb_data cb = (case hr_data (cb_req cb) of None \<Rightarrow> [] | Some data \<Rightarrow> data)"

lemma taken_in_fields:
  "rq_streaming (taken_in I cb r) = rq_streaming r"
  "hr_headers (cb_req cb) = None \<Longrightarrow> rq_auth (taken_in I cb r) = rq_auth r"
  "rq_auth (taken_in I cb r) = rq_auth (capture_auth (im_header_size I) (cb_req cb) r)"
  by (simp_all add: taken_in_def gather_body_def capture_auth_def split: option.split prod.split)

definition body_is :: "string \<Rightarrow> req_state \<Rightarrow> bool" where
  "body_is whole r \<longleftrightarrow> rq_overflow r = (length whole > 1024) \<and> (length whole \<le> 1024 \<longrightarrow> rq_body r = whole)"

lemma taken_in_body: "body_is whole r \<Longrightarrow> body_is (whole @ cb_data cb) (taken_in I cb r)"
  by (auto simp: body_is_def taken_in_def gather_body_def capture_auth_def cb_data_def REQ_BODY_MAX_def
      split: option.split prod.split)

lemma taken_in_run:
  assumes "body_is whole r" and "\<forall>cb \<in> set cbs. hr_headers (cb_req cb) = None"
  shows "body_is (whole @ concat (map cb_data cbs)) (fold (taken_in I) cbs r) \<and>
    rq_auth (fold (taken_in I) cbs r) = rq_auth r \<and>
    rq_streaming (fold (taken_in I) cbs r) = rq_streaming r"
  using assms
proof (induction cbs arbitrary: whole r)
  case (Cons cb cbs)
  from Cons.IH [OF taken_in_body [OF Cons.prems(1), of cb I]] Cons.prems(2)
  show ?case by (simp add: taken_in_fields(1,2))
qed simp

lemma req_for_held: "kept c reqs = Some r \<Longrightarrow> req_for c reqs \<noteq> None"
proof -
  assume "kept c reqs = Some r"
  then have "find (\<lambda>i. rq_client (reqs ! i) = Some c) [0..<length reqs] \<noteq> None"
    using find_index_None [of "\<lambda>r. rq_client r = Some c" reqs] by (simp add: kept_def)
  then show ?thesis by (auto simp: req_for_def)
qed

lemma more_run:
  assumes "kept c (sv_reqs sv) = Some r" and "\<not> rq_streaming r"
    and "\<forall>cb \<in> set es. cb_client cb = c \<longrightarrow> cb_status cb = HTTP_SERVER_REQUEST_DATA_MORE"
  shows "kept c (sv_reqs (fold (serve I) es sv)) =
    Some (fold (taken_in I) (filter (\<lambda>cb. cb_client cb = c) es) r)"
  using assms
proof (induction es arbitrary: sv r)
  case (Cons cb es)
  show ?case
  proof (cases "cb_client cb = c")
    case True
    with Cons.prems(3) have more: "cb_status cb = HTTP_SERVER_REQUEST_DATA_MORE" by simp
    then have "\<not> ends cb" by (simp add: ends_def)
    from serve_kept [OF this, of sv I, unfolded True, OF req_for_held [OF Cons.prems(1)]]
    have "kept c (sv_reqs (serve I cb sv)) = Some (after_callback I cb (sv_device sv) r)"
      by (simp only: kept_or_fresh_def Cons.prems(1) option.case)
    also have "after_callback I cb (sv_device sv) r = taken_in I cb r"
      using Cons.prems(2) more by (simp add: after_callback_def Let_def)
    finally have "kept c (sv_reqs (serve I cb sv)) = Some (taken_in I cb r)" .
    note IH = Cons.IH [OF this]
    have "kept c (sv_reqs (fold (serve I) es (serve I cb sv))) =
        Some (fold (taken_in I) (filter (\<lambda>cb. cb_client cb = c) es) (taken_in I cb r))"
      by (rule IH) (use Cons.prems(2,3) in \<open>simp_all add: taken_in_fields(1)\<close>)
    then show ?thesis by (simp add: True)
  next
    case False
    from Cons.IH [of "serve I cb sv" r] Cons.prems False show ?thesis
      by (simp add: serve_isolated [OF False])
  qed
qed simp

lemma final_dispatch:
  assumes "cb_status cb = HTTP_SERVER_REQUEST_DATA_FINAL" and "kept (cb_client cb) (sv_reqs sv) = Some r"
    and "\<not> rq_streaming r"
  shows "if rq_overflow (taken_in I cb r)
    then hs_status (snd (fst (route_handler I cb sv))) = 413 \<and> sv_device (serve I cb sv) = sv_device sv
    else sv_device (serve I cb sv) = snd (dispatch I cb (taken_in I cb r) (sv_device sv))"
proof -
  obtain i reqs where p: "req_for (cb_client cb) (sv_reqs sv) = Some (i, reqs)"
    using req_for_held [OF assms(2)] by auto
  from req_for_kept(1) [OF p] assms(2) have r: "reqs ! i = r" by (simp add: kept_or_fresh_def)
  obtain out d where out: "dispatch I cb (taken_in I cb r) (sv_device sv) = (out, d)" by fastforce
  show ?thesis
    by (cases out)
      (simp_all add: serve_def route_handler_def assms(1,3) p r out Let_def case_prod_unfold respond_def
        body_too_large_def init_rsp_def taken_in_def [symmetric])
qed

text \<open>
  What the last callback of a request comes to, as a function of what has been gathered: the
  answer, the restart order and the device. Of the gathered state only the credentials, the
  overflow mark and, without an overflow, the body count.
\<close>

definition final_out :: "('m, 'f) image \<Rightarrow> callback \<Rightarrow> req_state \<Rightarrow> 'f device \<Rightarrow> (int \<times> http_response_ctx) \<times> bool" where
  "final_out I cb r d =
     (let filled = (\<lambda>body rsp. ((0, rsp_ctx_init\<lparr>hs_status := rsp_status rsp,
           hs_headers := (if rsp_auth_challenge rsp then AuthChallenge else hs_headers rsp_ctx_init),
           hs_body := body, hs_final_chunk := True\<rparr>), rsp_restart rsp))
      in if rq_overflow r then filled (fst body_too_large) (snd body_too_large)
         else case fst (dispatch I cb r d) of
           Answer body rsp \<Rightarrow> filled body rsp
         | StartStream n \<Rightarrow>
             (case stream_coredump (im_dump I)
                     (r\<lparr>rq_stream_size := n, rq_streaming := True, rq_stream_off := 0\<rparr>) rsp_ctx_init of
                (ret, r, ctx) \<Rightarrow> ((ret, ctx), False))
         | SendPage \<Rightarrow>
             ((0, rsp_ctx_init\<lparr>hs_headers := GzipEncoding, hs_body := im_page I, hs_final_chunk := True\<rparr>), False))"

lemma final_answer:
  assumes "cb_status cb = HTTP_SERVER_REQUEST_DATA_FINAL" and "req_for (cb_client cb) (sv_reqs sv) \<noteq> None"
    and "kept_or_fresh (cb_client cb) (sv_reqs sv) = r" and "\<not> rq_streaming r"
  shows "fst (route_handler I cb sv) = fst (final_out I cb (taken_in I cb r) (sv_device sv))"
    and "sv_restart (serve I cb sv) =
      (sv_restart sv \<or> snd (final_out I cb (taken_in I cb r) (sv_device sv)))"
    and "sv_device (serve I cb sv) = (if rq_overflow (taken_in I cb r) then sv_device sv
      else snd (dispatch I cb (taken_in I cb r) (sv_device sv)))"
proof -
  obtain i reqs where p: "req_for (cb_client cb) (sv_reqs sv) = Some (i, reqs)" using assms(2) by auto
  from req_for_kept(1) [OF p] assms(3) have r: "reqs ! i = r" by simp
  obtain out d where out: "dispatch I cb (taken_in I cb r) (sv_device sv) = (out, d)" by fastforce
  have "fst (route_handler I cb sv) = fst (final_out I cb (taken_in I cb r) (sv_device sv)) \<and>
      sv_restart (serve I cb sv) = (sv_restart sv \<or> snd (final_out I cb (taken_in I cb r) (sv_device sv))) \<and>
      sv_device (serve I cb sv) = (if rq_overflow (taken_in I cb r) then sv_device sv
        else snd (dispatch I cb (taken_in I cb r) (sv_device sv)))"
    by (cases out)
      (simp_all add: serve_def route_handler_def final_out_def assms(1,4) p r out Let_def case_prod_unfold
        respond_def taken_in_def [symmetric])
  then show "fst (route_handler I cb sv) = fst (final_out I cb (taken_in I cb r) (sv_device sv))"
    and "sv_restart (serve I cb sv) = (sv_restart sv \<or> snd (final_out I cb (taken_in I cb r) (sv_device sv)))"
    and "sv_device (serve I cb sv) = (if rq_overflow (taken_in I cb r) then sv_device sv
      else snd (dispatch I cb (taken_in I cb r) (sv_device sv)))" by blast+
qed

lemma dispatch_reads:
  "rq_auth r = rq_auth r' \<Longrightarrow> rq_body r = rq_body r' \<Longrightarrow> dispatch I cb r d = dispatch I cb r' d"
  "dispatch I (cb\<lparr>cb_req := q\<rparr>) r d = dispatch I cb r d"
  by (cases "cb_route cb"; simp add: dispatch_def Let_def)+

lemma final_out_reads:
  assumes "rq_auth r = rq_auth r'" and "rq_overflow r = rq_overflow r'"
    and "\<not> rq_overflow r \<Longrightarrow> rq_body r = rq_body r'"
  shows "final_out I cb r d = final_out I (cb\<lparr>cb_req := q\<rparr>) r' d"
  using assms dispatch_reads(1) [of r r' I cb d] dispatch_reads(2) [of I q cb r' d]
  by (cases "rq_overflow r")
    (simp_all add: final_out_def stream_coredump_def Let_def case_prod_unfold split: dispatched.split)

lemma req_for_released: "kept c reqs = Some r \<Longrightarrow> req_for c (req_release c reqs) \<noteq> None"
proof -
  assume "kept c reqs = Some r"
  then obtain i where "i < length reqs" "rq_client (reqs ! i) = Some c"
    by (auto simp: kept_def find_Some_iff)
  then have "req_zero \<in> set (req_release c reqs)"
    by (auto simp: req_release_def in_set_conv_nth intro!: image_eqI [of _ _ "reqs ! i"])
  then have "find (\<lambda>r. rq_client r = None) (req_release c reqs) \<noteq> None"
    by (auto simp: find_None_iff req_zero_def intro: bexI [of _ req_zero])
  then show ?thesis
    using find_index_None [of "\<lambda>r. rq_client r = None" "req_release c reqs"]
    by (auto simp: req_for_def split: option.split)
qed

text \<open>
  C20. A request that arrives in pieces, with any callbacks of other clients in between, is
  answered as if it had come in one: what the last callback returns to the server (code,
  status, headers, body), what it does to the device and whether it orders a restart are what
  one single callback would come to that carried the concatenation of this client's pieces in
  order and the headers of its first callback, for a client of which nothing is kept. The body
  handed to the handler is that concatenation and the credentials those of the first
  callback; if the pieces together exceed 1024 bytes the answer is 413 and the device is left
  alone.
\<close>

theorem http_request_reassembled:
  fixes I :: "('m, 'f) image" and sv :: "'f server" and cb0 fin :: callback and es :: "callback list" and c :: nat
  assumes "kept c (sv_reqs sv) = None" and "req_for c (sv_reqs sv) \<noteq> None"
    and "cb_client cb0 = c" and "cb_status cb0 = HTTP_SERVER_REQUEST_DATA_MORE"
    and "\<forall>cb \<in> set es. cb_client cb = c \<longrightarrow>
      cb_status cb = HTTP_SERVER_REQUEST_DATA_MORE \<and> hr_headers (cb_req cb) = None"
    and "cb_client fin = c" and "cb_status fin = HTTP_SERVER_REQUEST_DATA_FINAL"
    and "hr_headers (cb_req fin) = None"
  defines "mid \<equiv> fold (serve I) (cb0 # es) sv"
    and "whole \<equiv> concat (map cb_data (cb0 # filter (\<lambda>cb. cb_client cb = c) es @ [fin]))"
  shows "(let one = fin\<lparr>cb_req := \<lparr>hr_data = Some whole, hr_headers = hr_headers (cb_req cb0)\<rparr>\<rparr>;
              new = mid\<lparr>sv_reqs := req_release c (sv_reqs mid)\<rparr>
          in fst (route_handler I fin mid) = fst (route_handler I one new) \<and>
             sv_device (serve I fin mid) = sv_device (serve I one new) \<and>
             sv_restart (serve I fin mid) = sv_restart (serve I one new)) \<and>
    (if length whole > 1024
     then hs_status (snd (fst (route_handler I fin mid))) = 413 \<and> sv_device (serve I fin mid) = sv_device mid
     else (\<exists>r. rq_body r = whole \<and>
       rq_auth r = rq_auth (capture_auth (im_header_size I) (cb_req cb0) (fresh c)) \<and>
       sv_device (serve I fin mid) = snd (dispatch I fin r (sv_device mid))))"
proof -
  let ?own = "filter (\<lambda>cb. cb_client cb = c) es"
  have "\<not> ends cb0" using assms(4) by (simp add: ends_def)
  from serve_kept [OF this, of sv I] assms(1-4)
  have first: "kept c (sv_reqs (serve I cb0 sv)) = Some (taken_in I cb0 (fresh c))"
    by (simp add: kept_or_fresh_def after_callback_def Let_def fresh_def req_zero_def)
  have still: "\<not> rq_streaming (taken_in I cb0 (fresh c))"
    by (simp add: taken_in_fields fresh_def req_zero_def)
  define r where "r = fold (taken_in I) ?own (taken_in I cb0 (fresh c))"
  have held: "kept c (sv_reqs mid) = Some r"
    using more_run [OF first still, of es I] assms(5) by (simp add: mid_def r_def)
  have empty: "body_is [] (fresh c)" by (simp add: body_is_def fresh_def req_zero_def)
  from taken_in_run [OF taken_in_body [OF empty, of cb0 I], of ?own I] assms(5)
  have run: "body_is (cb_data cb0 @ concat (map cb_data ?own)) r" "rq_auth r = rq_auth (taken_in I cb0 (fresh c))"
    "\<not> rq_streaming r" using still by (simp_all add: r_def)
  have all: "body_is whole (taken_in I fin r)"
    using taken_in_body [OF run(1), of fin I] by (simp add: whole_def)
  have auth: "rq_auth (taken_in I fin r) = rq_auth (capture_auth (im_header_size I) (cb_req cb0) (fresh c))"
    using taken_in_fields(2) [OF assms(8), of I r] run(2) taken_in_fields(3) [of I cb0] by simp
  define one where "one = fin\<lparr>cb_req := \<lparr>hr_data = Some whole, hr_headers = hr_headers (cb_req cb0)\<rparr>\<rparr>"
  define new where "new = mid\<lparr>sv_reqs := req_release c (sv_reqs mid)\<rparr>"
  have one: "cb_status one = HTTP_SERVER_REQUEST_DATA_FINAL" "cb_client one = c" "cb_data one = whole"
    using assms(6,7) by (simp_all add: one_def cb_data_def)
  have single: "body_is whole (taken_in I one (fresh c))"
    using taken_in_body [OF empty, of one I] by (simp add: one(3))
  have single_auth: "rq_auth (taken_in I one (fresh c)) = rq_auth (taken_in I fin r)"
    unfolding auth by (simp add: taken_in_fields(3) one_def capture_auth_def)
  have reads: "final_out I fin (taken_in I fin r) d = final_out I one (taken_in I one (fresh c)) d" for d
    unfolding one_def by (rule final_out_reads) (use single_auth single all in \<open>auto simp: one_def body_is_def\<close>)
  have slots: "req_for (cb_client fin) (sv_reqs mid) \<noteq> None" "kept_or_fresh (cb_client fin) (sv_reqs mid) = r"
    "req_for (cb_client one) (sv_reqs new) \<noteq> None" "kept_or_fresh (cb_client one) (sv_reqs new) = fresh c"
    "\<not> rq_streaming (fresh c)"
    using req_for_held [OF held] req_for_released [OF held] held
    by (simp_all add: assms(6) one(2) new_def kept_or_fresh_def req_release_kept) (simp add: fresh_def req_zero_def)
  note pieces = final_answer [OF assms(7) slots(1,2) run(3), of I]
  note once = final_answer [OF one(1) slots(3-5), of I]
  have new: "sv_device new = sv_device mid" "sv_restart new = sv_restart mid" by (simp_all add: new_def)
  have over: "rq_overflow (taken_in I fin r) = rq_overflow (taken_in I one (fresh c))"
    using all single by (simp add: body_is_def)
  have "sv_device (serve I fin mid) = sv_device (serve I one new)"
    using dispatch_reads(1) [of "taken_in I one (fresh c)" "taken_in I fin r" I fin "sv_device mid"] single_auth all single
    unfolding pieces(3) once(3) new over
    by (auto simp: body_is_def one_def dispatch_reads(2))
  moreover have "fst (route_handler I fin mid) = fst (route_handler I one new)"
    "sv_restart (serve I fin mid) = sv_restart (serve I one new)"
    unfolding pieces(1,2) once(1,2) new reads by simp_all
  moreover from final_dispatch [OF assms(7), of mid r I] held run(3) assms(6) all auth
  have "if length whole > 1024
     then hs_status (snd (fst (route_handler I fin mid))) = 413 \<and> sv_device (serve I fin mid) = sv_device mid
     else (\<exists>r. rq_body r = whole \<and>
       rq_auth r = rq_auth (capture_auth (im_header_size I) (cb_req cb0) (fresh c)) \<and>
       sv_device (serve I fin mid) = snd (dispatch I fin r (sv_device mid)))"
    by (auto simp: body_is_def intro!: exI [of _ "taken_in I fin r"] split: if_splits)
  ultimately show ?thesis unfolding Let_def one_def new_def by blast
qed


definition demo_image :: "(wire_msg, (string \<times> bytes) list) image" where
  "demo_image = \<lparr>im_api = demo_build, im_header_size = 64, im_page = [1, 2], im_last_log = [],
     im_dump = None\<rparr>"

definition demo_callback :: "nat \<Rightarrow> http_transaction_status \<Rightarrow> string \<Rightarrow> (string \<times> string) list option \<Rightarrow> callback" where
  "demo_callback c st data hs = \<lparr>cb_client = c, cb_status = st, cb_post = True, cb_url = ''/'',
     cb_req = \<lparr>hr_data = Some data, hr_headers = hs\<rparr>, cb_route = ROUTE_ADMIN_SETTINGS, cb_now = demo_now\<rparr>"

definition demo_server :: "(string \<times> bytes) list server" where
  "demo_server = \<lparr>sv_reqs = [req_zero, req_zero], sv_device = demo_device, sv_restart = False\<rparr>"

lemma demo_header: "strcasecmp_eq ''authorization'' ''Authorization''"
  by code_simp

theorem http_request_reassembled_witness:
  "let first = demo_callback 1 HTTP_SERVER_REQUEST_DATA_MORE ''ab'' (Some [(''authorization'', ''Basic x'')]);
       other = demo_callback 2 HTTP_SERVER_REQUEST_DATA_MORE ''zz'' None;
       fin = demo_callback 1 HTTP_SERVER_REQUEST_DATA_FINAL ''cd'' None;
       mid = fold (serve demo_image) [first, other] demo_server
   in fst (route_handler demo_image fin mid) = fst (route_handler demo_image
        (fin\<lparr>cb_req := \<lparr>hr_data = Some ''abcd'', hr_headers = Some [(''authorization'', ''Basic x'')]\<rparr>\<rparr>)
        (mid\<lparr>sv_reqs := req_release 1 (sv_reqs mid)\<rparr>))"
proof -
  define first where "first = demo_callback 1 HTTP_SERVER_REQUEST_DATA_MORE ''ab'' (Some [(''authorization'', ''Basic x'')])"
  define other where "other = demo_callback 2 HTTP_SERVER_REQUEST_DATA_MORE ''zz'' None"
  define fin where "fin = demo_callback 1 HTTP_SERVER_REQUEST_DATA_FINAL ''cd'' None"
  have start: "kept 1 (sv_reqs demo_server) = None" "req_for 1 (sv_reqs demo_server) \<noteq> None"
    by (simp_all add: demo_server_def kept_def req_for_def req_zero_def upt_rec)
  have cbs: "cb_client first = 1" "cb_status first = HTTP_SERVER_REQUEST_DATA_MORE"
    "\<forall>cb \<in> set [other]. cb_client cb = 1 \<longrightarrow>
       cb_status cb = HTTP_SERVER_REQUEST_DATA_MORE \<and> hr_headers (cb_req cb) = None"
    "cb_client fin = 1" "cb_status fin = HTTP_SERVER_REQUEST_DATA_FINAL" "hr_headers (cb_req fin) = None"
    by (simp_all add: first_def other_def fin_def demo_callback_def)
  have whole: "concat (map cb_data (first # filter (\<lambda>cb. cb_client cb = 1) [other] @ [fin])) = ''abcd''"
    by (simp add: first_def other_def fin_def demo_callback_def cb_data_def)
  have hs: "hr_headers (cb_req first) = Some [(''authorization'', ''Basic x'')]"
    by (simp add: first_def demo_callback_def)
  from http_request_reassembled [OF start cbs, of demo_image, unfolded whole hs Let_def, THEN conjunct1, THEN conjunct1]
  show ?thesis unfolding Let_def first_def [symmetric] other_def [symmetric] fin_def [symmetric] .
qed

section \<open>Credentials\<close>

definition admin_routes :: "route set" where
  "admin_routes = {ROUTE_ROLE, ROUTE_HEALTH_RESET, ROUTE_COREDUMP, ROUTE_ADMIN_PAGE, ROUTE_ADMIN_STATUS,
     ROUTE_ADMIN_RESTART, ROUTE_ADMIN_SETTINGS, ROUTE_ADMIN_WIFI, ROUTE_ADMIN_VERBOSE,
     ROUTE_ADMIN_VERBOSE_TOGGLE}"

lemma refusal_no_effect: "refusal r \<Longrightarrow> rsp_status (snd r) \<noteq> 200 \<and> \<not> rsp_restart (snd r)"
  by (auto simp: refusal_def)

lemma refused_routes:
  assumes "\<not> authorised B auth"
  shows "snd (pstop_api_role B cap post url auth d) = d \<and> \<not> rsp_restart (snd (fst (pstop_api_role B cap post url auth d)))"
    "\<not> rsp_restart (snd (pstop_api_admin_status B N cap auth d))"
    "\<not> rsp_restart (snd (pstop_api_admin_restart B cap auth))"
    "snd (pstop_api_health_reset B N cap url auth d) = d \<and> \<not> rsp_restart (snd (fst (pstop_api_health_reset B N cap url auth d)))"
    "rsp_status (snd (fst (pstop_api_coredump B N cap auth))) \<noteq> 200 \<and> \<not> rsp_restart (snd (fst (pstop_api_coredump B N cap auth)))"
    "rsp_status (snd (pstop_api_admin_page B cap auth)) \<noteq> 200 \<and> \<not> rsp_restart (snd (pstop_api_admin_page B cap auth))"
    "snd (pstop_api_admin_settings B cap post body auth d) = d \<and> \<not> rsp_restart (snd (fst (pstop_api_admin_settings B cap post body auth d)))"
    "snd (pstop_api_admin_wifi B cap post body auth d) = d \<and> \<not> rsp_restart (snd (fst (pstop_api_admin_wifi B cap post body auth d)))"
    "snd (pstop_api_admin_verbose B cap toggle auth d) = d \<and> \<not> rsp_restart (snd (fst (pstop_api_admin_verbose B cap toggle auth d)))"
  using role_route.refused [OF assms, THEN conjunct1, THEN refusal_no_effect] role_route.refused [OF assms]
    status_route.refused [OF assms, THEN conjunct1, THEN refusal_no_effect]
    restart_route.refused [OF assms, THEN conjunct1, THEN refusal_no_effect]
    reset_route.refused [OF assms, THEN conjunct1, THEN refusal_no_effect] reset_route.refused [OF assms]
    dump_route.refused [OF assms, THEN conjunct1, THEN refusal_no_effect]
    page_route.refused [OF assms, THEN conjunct1, THEN refusal_no_effect]
    settings_route.refused [OF assms, THEN conjunct1, THEN refusal_no_effect] settings_route.refused [OF assms]
    wifi_route.refused [OF assms, THEN conjunct1, THEN refusal_no_effect] wifi_route.refused [OF assms]
    verbose_route.refused [OF assms, THEN conjunct1, THEN refusal_no_effect] verbose_route.refused [OF assms]
  by simp_all

lemma dispatch_refused:
  assumes "\<not> authorised (im_api I) (rq_auth r)" and "cb_route cb \<in> admin_routes"
  obtains body rsp where "dispatch I cb r d = (Answer body rsp, d)" and "\<not> rsp_restart rsp"
proof -
  have "\<exists>body rsp. dispatch I cb r d = (Answer body rsp, d) \<and> \<not> rsp_restart rsp"
    using assms(2)
    by (auto simp: admin_routes_def dispatch_def answer_def Let_def case_prod_unfold refused_routes [OF assms(1)])
  with that show ?thesis by blast
qed

text \<open>
  C21. The gate holds at the wire: a callback for one of the guarded routes whose client has
  brought no valid credentials, in this callback or in the ones before it, leaves the device
  and the restart order as they were, does not send the page and does not open the dump
  stream.
\<close>

theorem http_admin_needs_credentials:
  assumes "cb_route cb \<in> admin_routes"
    and "\<not> authorised (im_api I) (rq_auth (taken_in I cb (kept_or_fresh (cb_client cb) (sv_reqs sv))))"
    and "\<not> rq_streaming (kept_or_fresh (cb_client cb) (sv_reqs sv))"
  shows "sv_device (serve I cb sv) = sv_device sv \<and> sv_restart (serve I cb sv) = sv_restart sv \<and>
    hs_headers (snd (fst (route_handler I cb sv))) \<noteq> GzipEncoding \<and>
    (\<forall>r. kept (cb_client cb) (sv_reqs (serve I cb sv)) = Some r \<longrightarrow> \<not> rq_streaming r)"
proof (cases "ends cb")
  case True
  then show ?thesis
    by (auto simp: serve_def route_handler_def ends_def rsp_ctx_init_def req_release_kept)
next
  case False
  show ?thesis
  proof (cases "req_for (cb_client cb) (sv_reqs sv)")
    case None
    moreover have "kept (cb_client cb) (sv_reqs sv) = None"
      using req_for_held [of "cb_client cb" "sv_reqs sv"] None by (cases "kept (cb_client cb) (sv_reqs sv)") auto
    ultimately show ?thesis
      using False by (simp add: serve_def route_handler_def ends_def rsp_ctx_init_def)
  next
    case (Some p)
    obtain i reqs where p: "req_for (cb_client cb) (sv_reqs sv) = Some (i, reqs)" using Some by (cases p) auto
    define r where "r = kept_or_fresh (cb_client cb) (sv_reqs sv)"
    have ri: "reqs ! i = r" unfolding r_def by (rule req_for_kept(1) [OF p])
    have r: "\<not> authorised (im_api I) (rq_auth (taken_in I cb r))" "\<not> rq_streaming r"
      using assms(2,3) by (simp_all add: r_def)
    obtain body rsp where out: "dispatch I cb (taken_in I cb r) (sv_device sv) = (Answer body rsp, sv_device sv)"
      and rsp: "\<not> rsp_restart rsp" by (rule dispatch_refused [OF r(1) assms(1)])
    have "\<not> rq_streaming (after_callback I cb (sv_device sv) r)"
      using r(2) by (simp add: after_callback_def Let_def out taken_in_fields(1))
    with serve_kept [OF False, of sv I] Some
    have keep: "\<forall>r. kept (cb_client cb) (sv_reqs (serve I cb sv)) = Some r \<longrightarrow> \<not> rq_streaming r"
      by (simp add: r_def)
    have "sv_device (serve I cb sv) = sv_device sv \<and> sv_restart (serve I cb sv) = sv_restart sv \<and>
        hs_headers (snd (fst (route_handler I cb sv))) \<noteq> GzipEncoding"
      using False r(2) rsp
      by (simp add: serve_def route_handler_def ends_def p ri Let_def case_prod_unfold out respond_def
          body_too_large_def init_rsp_def rsp_ctx_init_def taken_in_def [symmetric])
    with keep show ?thesis by blast
  qed
qed

theorem http_admin_needs_credentials_witness:
  "sv_device (serve demo_image (demo_callback 1 HTTP_SERVER_REQUEST_DATA_FINAL ''{}'' None) demo_server) = demo_device"
proof -
  let ?cb = "demo_callback 1 HTTP_SERVER_REQUEST_DATA_FINAL ''{}'' None"
  have k: "kept_or_fresh 1 (sv_reqs demo_server) = fresh 1"
    by (simp add: kept_or_fresh_def kept_def demo_server_def req_zero_def)
  have "cb_route ?cb \<in> admin_routes" by (simp add: demo_callback_def admin_routes_def)
  moreover have "\<not> authorised (im_api demo_image) (rq_auth (taken_in demo_image ?cb (kept_or_fresh (cb_client ?cb) (sv_reqs demo_server))))"
    by (simp add: k [unfolded One_nat_def] demo_callback_def taken_in_def gather_body_def capture_auth_def fresh_def req_zero_def
        REQ_BODY_MAX_def authorised_def http_basic_auth_ok_def)
  moreover have "\<not> rq_streaming (kept_or_fresh (cb_client ?cb) (sv_reqs demo_server))"
    by (simp add: demo_callback_def k [unfolded One_nat_def] fresh_def req_zero_def)
  ultimately have "sv_device (serve demo_image ?cb demo_server) = sv_device demo_server"
    using http_admin_needs_credentials by blast
  then show ?thesis by (simp add: demo_server_def)
qed


section \<open>The dump, to its last byte\<close>

text \<open>The server's side of a stream: it calls back until a chunk is marked final.\<close>

fun stream_run ::
  "nat \<Rightarrow> (nat \<Rightarrow> nat \<Rightarrow> int \<times> bytes) option \<Rightarrow> req_state \<Rightarrow> http_response_ctx list" where
  "stream_run 0 dump r = []"
| "stream_run (Suc n) dump r =
     (case stream_coredump dump r rsp_ctx_init of (ret, r, ctx) \<Rightarrow>
        ctx # (if hs_final_chunk ctx then [] else stream_run n dump r))"

text \<open>
  What is assumed of the dump backend: asked for a non-empty range that starts within the dump
  it copies at least one byte of it, and no more than asked for.
\<close>

definition reads_dump :: "bytes \<Rightarrow> (nat \<Rightarrow> nat \<Rightarrow> int \<times> bytes) \<Rightarrow> bool" where
  "reads_dump dump copy \<longleftrightarrow> (\<forall>off len. off < length dump \<longrightarrow> 0 < len \<longrightarrow>
     (\<exists>k. 1 \<le> k \<and> k \<le> len \<and> off + k \<le> length dump \<and> copy off len = (int k, take k (drop off dump))))"

lemma stream_step:
  assumes "reads_dump dump copy" and "rq_stream_size r = length dump" and "rq_stream_off r < length dump"
  obtains k where "1 \<le> k" and "rq_stream_off r + k \<le> length dump"
    and "stream_coredump (Some copy) r rsp_ctx_init = (0, r\<lparr>rq_stream_off := rq_stream_off r + k\<rparr>,
      rsp_ctx_init\<lparr>hs_body := take k (drop (rq_stream_off r) dump),
        hs_final_chunk := (rq_stream_off r + k = length dump)\<rparr>)"
proof -
  let ?len = "min PSTOP_API_BODY_MAX (length dump - rq_stream_off r)"
  have "0 < ?len" using assms(3) by (simp add: PSTOP_API_BODY_MAX_def)
  with assms obtain k where k: "1 \<le> k" "rq_stream_off r + k \<le> length dump"
    "copy (rq_stream_off r) ?len = (int k, take k (drop (rq_stream_off r) dump))"
    unfolding reads_dump_def by blast
  moreover have "rq_stream_off r + k \<ge> length dump \<longleftrightarrow> rq_stream_off r + k = length dump" using k(2) by linarith
  ultimately show ?thesis
    by (intro that [of k]) (auto simp: stream_coredump_def Let_def crash_read_def assms(2))
qed

lemma stream_run_whole:
  assumes "reads_dump dump copy" and "rq_stream_size r = length dump" and "rq_stream_off r < length dump"
    and "length dump - rq_stream_off r \<le> n"
  shows "concat (map hs_body (stream_run n (Some copy) r)) = drop (rq_stream_off r) dump \<and>
    map hs_final_chunk (stream_run n (Some copy) r) =
      replicate (length (stream_run n (Some copy) r) - 1) False @ [True]"
  using assms(2-4)
proof (induction n arbitrary: r)
  case (Suc n)
  from stream_step [OF assms(1) Suc.prems(1,2)] obtain k where k: "1 \<le> k" "rq_stream_off r + k \<le> length dump"
    and step: "stream_coredump (Some copy) r rsp_ctx_init = (0, r\<lparr>rq_stream_off := rq_stream_off r + k\<rparr>,
      rsp_ctx_init\<lparr>hs_body := take k (drop (rq_stream_off r) dump),
        hs_final_chunk := (rq_stream_off r + k = length dump)\<rparr>)" by blast
  show ?case
  proof (cases "rq_stream_off r + k = length dump")
    case True
    then show ?thesis by (simp add: step)
  next
    case False
    let ?r = "r\<lparr>rq_stream_off := rq_stream_off r + k\<rparr>"
    have IH: "concat (map hs_body (stream_run n (Some copy) ?r)) = drop (rq_stream_off ?r) dump"
      "map hs_final_chunk (stream_run n (Some copy) ?r) =
         replicate (length (stream_run n (Some copy) ?r) - 1) False @ [True]"
      using Suc.IH [of ?r] Suc.prems k False by simp_all
    have join: "take k (drop (rq_stream_off r) dump) @ drop (rq_stream_off r + k) dump = drop (rq_stream_off r) dump"
      using append_take_drop_id [of k "drop (rq_stream_off r) dump"] by (simp add: add.commute)
    from IH(2) have "stream_run n (Some copy) ?r \<noteq> []" by auto
    then obtain m where m: "length (stream_run n (Some copy) ?r) = Suc m"
      by (cases "length (stream_run n (Some copy) ?r)") auto
    from IH join False show ?thesis by (simp add: step m)
  qed
qed simp

text \<open>
  C22. A stored crash dump is delivered completely: over a backend that always copies at least
  one of the bytes asked for, the chunks from the opening callback on, at most as many as the
  dump has bytes, concatenate to exactly the dump, and the last of them and no other is marked
  final.
\<close>

theorem http_dump_streams_whole:
  assumes "reads_dump dump copy" and "dump \<noteq> []" and "length dump \<le> n"
  shows "concat (map hs_body (stream_run n (Some copy)
      (r\<lparr>rq_stream_size := length dump, rq_streaming := True, rq_stream_off := 0\<rparr>))) = dump \<and>
    map hs_final_chunk (stream_run n (Some copy)
      (r\<lparr>rq_stream_size := length dump, rq_streaming := True, rq_stream_off := 0\<rparr>)) =
      replicate (length (stream_run n (Some copy)
        (r\<lparr>rq_stream_size := length dump, rq_streaming := True, rq_stream_off := 0\<rparr>)) - 1) False @ [True]"
  using stream_run_whole [OF assms(1), of "r\<lparr>rq_stream_size := length dump, rq_streaming := True, rq_stream_off := 0\<rparr>" n]
    assms(2,3) by simp

theorem http_dump_streams_whole_witness:
  "concat (map hs_body (stream_run 3 (Some (\<lambda>off len. (1, take 1 (drop off [7, 8, 9]))))
     (req_zero\<lparr>rq_stream_size := length [7, 8, 9 :: u8], rq_streaming := True, rq_stream_off := 0\<rparr>))) = [7, 8, 9]"
proof -
  have "reads_dump [7, 8, 9] (\<lambda>off len. (1, take 1 (drop off [7, 8, 9])))"
    by (auto simp: reads_dump_def intro!: exI [of _ 1])
  from http_dump_streams_whole [OF this, of 3 req_zero] show ?thesis by simp
qed

section \<open>Restarts\<close>

lemma reply_no_restart: "\<not> rsp_restart (snd (reply cap init_rsp status s))"
  by (simp add: reply_restart init_rsp_def)

lemma finish_no_restart: "\<not> rsp_restart (snd (finish out status init_rsp))"
  by (simp add: finish_def Let_def init_rsp_def)

lemma set_slot_error_no_restart: "\<not> rsp_restart (snd (set_slot_error cap e))"
  by (simp add: set_slot_error_def reply_no_restart split: prod.split)

lemma no_restart:
  "\<not> rsp_restart (snd (pstop_api_state B N cap d))"
  "\<not> rsp_restart (snd (fst (pstop_api_pstop_peer B cap url d)))"
  "\<not> rsp_restart (snd (fst (pstop_api_pstop_peers B cap url d)))"
  "\<not> rsp_restart (snd (fst (pstop_api_ring_offset B cap url d)))"
  "\<not> rsp_restart (snd (fst (pstop_api_ring_led1 N cap url d)))"
  "\<not> rsp_restart (snd (fst (pstop_api_health B N cap d)))"
  by (simp_all add: pstop_api_state_def pstop_api_pstop_peer_def pstop_api_pstop_peers_def
      pstop_api_ring_offset_def pstop_api_ring_led1_def pstop_api_health_def settings_write_failed_def Let_def
      reply_no_restart finish_no_restart set_slot_error_no_restart split: sum.split prod.split)


lemma gate_no_restart: "admin_ok B cap auth = Some r \<Longrightarrow> \<not> rsp_restart (snd r)"
proof -
  assume r: "admin_ok B cap auth = Some r"
  then have "\<not> authorised B auth" using admin_ok_iff [of B cap auth] by auto
  with r show ?thesis by (metis admin_ok_refusal option.inject refusal_no_effect)
qed

lemma no_restart_admin:
  "\<not> rsp_restart (snd (fst (pstop_api_role B cap post url auth d)))"
  "\<not> rsp_restart (snd (pstop_api_admin_status B N cap auth d))"
  "\<not> rsp_restart (snd (fst (pstop_api_health_reset B N cap url auth d)))"
  "\<not> rsp_restart (snd (fst (pstop_api_coredump B N cap auth)))"
  "\<not> rsp_restart (snd (pstop_api_admin_page B cap auth))"
  "\<not> rsp_restart (snd (fst (pstop_api_admin_settings B cap post body auth d)))"
  "\<not> rsp_restart (snd (fst (pstop_api_admin_wifi B cap post body auth d)))"
  "\<not> rsp_restart (snd (fst (pstop_api_admin_verbose B cap toggle auth d)))"
  by (cases "admin_ok B cap auth";
      simp add: pstop_api_role_def pstop_api_admin_status_def pstop_api_health_reset_def
        pstop_api_coredump_def pstop_api_admin_page_def pstop_api_admin_settings_def pstop_api_admin_wifi_def
        pstop_api_admin_verbose_def wifi_reply_def settings_write_failed_def Let_def init_rsp_def gate_no_restart
        reply_no_restart [unfolded init_rsp_def] finish_no_restart [unfolded init_rsp_def]
      split: sum.split prod.split)+

lemma dispatch_restart:
  assumes "dispatch I cb r d = (Answer body rsp, d')" and "rsp_restart rsp"
  shows "cb_route cb = ROUTE_ADMIN_RESTART \<and> authorised (im_api I) (rq_auth r)"
proof (cases "cb_route cb = ROUTE_ADMIN_RESTART")
  case True
  have "authorised (im_api I) (rq_auth r)"
  proof (rule ccontr)
    assume "\<not> authorised (im_api I) (rq_auth r)"
    from refused_routes(3) [OF this, of PSTOP_API_BODY_MAX] assms True show False
      by (simp add: dispatch_def answer_def Let_def)
  qed
  with True show ?thesis by simp
next
  case False
  with assms show ?thesis
    by (cases "cb_route cb")
      (auto simp: dispatch_def answer_def Let_def case_prod_unfold no_restart no_restart_admin init_rsp_def
        split: if_splits)
qed

lemma serve_restart:
  assumes "sv_restart (serve I cb sv)" and "\<not> sv_restart sv"
  shows "cb_route cb = ROUTE_ADMIN_RESTART \<and> cb_status cb = HTTP_SERVER_REQUEST_DATA_FINAL \<and>
    authorised (im_api I) (rq_auth (taken_in I cb (kept_or_fresh (cb_client cb) (sv_reqs sv))))"
proof -
  have live: "\<not> ends cb" using assms by (auto simp: serve_def route_handler_def ends_def)
  obtain i reqs where p: "req_for (cb_client cb) (sv_reqs sv) = Some (i, reqs)"
    using assms live by (cases "req_for (cb_client cb) (sv_reqs sv)") (auto simp: serve_def route_handler_def ends_def)
  define r where "r = taken_in I cb (reqs ! i)"
  obtain out d where out: "dispatch I cb r (sv_device sv) = (out, d)" by fastforce
  have flat: "\<not> rq_streaming (reqs ! i)" "cb_status cb = HTTP_SERVER_REQUEST_DATA_FINAL"
    "\<exists>body rsp. out = Answer body rsp \<and> rsp_restart rsp"
    using assms live out
    by (cases out; cases "rq_overflow r"; cases "rq_streaming (reqs ! i)";
        cases "cb_status cb = HTTP_SERVER_REQUEST_DATA_FINAL";
        simp add: serve_def route_handler_def ends_def p Let_def case_prod_unfold respond_def body_too_large_def
          init_rsp_def r_def [unfolded taken_in_def, symmetric])+
  with dispatch_restart [of I cb r "sv_device sv"] out show ?thesis
    by (auto simp: r_def req_for_kept(1) [OF p])
qed

text \<open>
  Only the administrator restarts the board: if serving any sequence of callbacks ordered a
  restart, then one of them was the last callback of a request to the restart route whose client
  had brought valid credentials.
\<close>

lemma http_restart_authorised:
  assumes "sv_restart (fold (serve I) cbs sv)" and "\<not> sv_restart sv"
  shows "\<exists>before cb later. cbs = before @ cb # later \<and> cb_route cb = ROUTE_ADMIN_RESTART \<and>
    cb_status cb = HTTP_SERVER_REQUEST_DATA_FINAL \<and>
    authorised (im_api I) (rq_auth (taken_in I cb
      (kept_or_fresh (cb_client cb) (sv_reqs (fold (serve I) before sv)))))"
  using assms
proof (induction cbs arbitrary: sv)
  case (Cons cb cbs)
  show ?case
  proof (cases "sv_restart (serve I cb sv)")
    case True
    from serve_restart [OF True Cons.prems(2)] show ?thesis
      by (intro exI [of _ "[]"] exI [of _ cb] exI [of _ cbs]) simp
  next
    case False
    from Cons.IH [OF _ False] Cons.prems(1) obtain before c later where
      "cbs = before @ c # later" "cb_route c = ROUTE_ADMIN_RESTART" "cb_status c = HTTP_SERVER_REQUEST_DATA_FINAL"
      "authorised (im_api I) (rq_auth (taken_in I c
        (kept_or_fresh (cb_client c) (sv_reqs (fold (serve I) before (serve I cb sv))))))" by auto
    then show ?thesis by (intro exI [of _ "cb # before"] exI [of _ c] exI [of _ later]) simp
  qed
qed simp


definition demo_restart :: callback where
  "demo_restart = demo_callback 1 HTTP_SERVER_REQUEST_DATA_FINAL '''' (Some [(''authorization'', ''Basic admin:pw'')])
     \<lparr>cb_route := ROUTE_ADMIN_RESTART\<rparr>"

lemma demo_restart_ordered: "sv_restart (serve demo_image demo_restart demo_server)"
proof -
  have req: "req_for 1 (sv_reqs demo_server) = Some (0, [fresh 1, req_zero])"
    by (simp add: demo_server_def req_for_def req_zero_def fresh_def upt_rec)
  have auth: "rq_auth (taken_in demo_image demo_restart (fresh 1)) = ''Basic admin:pw''"
    by (simp add: taken_in_fields(3)) (simp add: demo_restart_def demo_callback_def demo_image_def
        capture_auth_def demo_header)
  have body: "\<not> rq_overflow (taken_in demo_image demo_restart (fresh 1))"
    by (simp add: taken_in_def gather_body_def capture_auth_def demo_restart_def demo_callback_def
        demo_header fresh_def req_zero_def)
  have gate: "admin_ok demo_build PSTOP_API_BODY_MAX ''Basic admin:pw'' = None"
    by (simp add: admin_ok_iff demo_authorised)
  have cb: "cb_client demo_restart = 1" "cb_status demo_restart = HTTP_SERVER_REQUEST_DATA_FINAL"
    "cb_route demo_restart = ROUTE_ADMIN_RESTART" "im_api demo_image = demo_build"
    by (simp_all add: demo_restart_def demo_callback_def demo_image_def)
  have idle: "\<not> rq_streaming (fresh 1)" by (simp add: fresh_def req_zero_def)
  show ?thesis
    using body idle
    by (simp add: serve_def route_handler_def cb req [simplified] Let_def taken_in_def [symmetric] dispatch_def
        pstop_api_admin_restart_def auth [simplified] gate case_prod_unfold answer_def respond_def)
qed

lemma http_restart_authorised_instance:
  "\<exists>before cb later. [demo_restart] = before @ cb # later \<and>
     authorised demo_build (rq_auth (taken_in demo_image cb
       (kept_or_fresh (cb_client cb) (sv_reqs (fold (serve demo_image) before demo_server)))))"
proof -
  have im: "im_api demo_image = demo_build" by (simp add: demo_image_def)
  have "sv_restart (fold (serve demo_image) [demo_restart] demo_server)" using demo_restart_ordered by simp
  moreover have "\<not> sv_restart demo_server" by (simp add: demo_server_def)
  ultimately show ?thesis using http_restart_authorised [of demo_image "[demo_restart]" demo_server]
    unfolding im by blast
qed

end
