(* ===== verification/Api_Effects.thy ===== *)
theory Api_Effects
  imports Http_Sessions
begin

text \<open>
  What a request can do to the rest of the remote, whatever its route, headers and body
  (\<open>protective_stop/src/api.c\<close> as \<open>http_server.c\<close> calls it): its effect on the settings and
  their store is a sequence of setter calls with representable arguments, and its effect on the
  comparator is to raise request bits. The control plane has no other way into the stop path.
\<close>

section \<open>Effects\<close>

definition nets_ok :: "app_settings \<Rightarrow> bool" where
  "nets_ok cfg \<longleftrightarrow> (\<forall>j. wifi_ok (cfg_wifi cfg j))"

text \<open>
  The comparator is only asked: nothing of it but the two request words is written, and no
  request that is waiting there is withdrawn.
\<close>

definition asked :: "lockstep \<Rightarrow> lockstep \<Rightarrow> bool" where
  "asked ls ls' \<longleftrightarrow> ls'\<lparr>rebond_requests := 0, reconfigure_requests := 0\<rparr> =
     ls\<lparr>rebond_requests := 0, reconfigure_requests := 0\<rparr> \<and>
     (\<forall>n. bit (rebond_requests ls) n \<longrightarrow> bit (rebond_requests ls') n) \<and>
     (\<forall>n. bit (reconfigure_requests ls) n \<longrightarrow> bit (reconfigure_requests ls') n)"

definition by_setters :: "'f settings_backend \<Rightarrow> 'f \<times> app_settings \<Rightarrow> 'f \<times> app_settings \<Rightarrow> bool" where
  "by_setters S s s' \<longleftrightarrow> (\<exists>ops. (\<forall>op \<in> set ops. op_ok op) \<and> s' = fold (settings_apply S) ops s)"

text \<open>A slot whose peer changed has the comparator asked to take it up.\<close>

definition effect :: "('m, 'f) api_build \<Rightarrow> 'f device \<Rightarrow> 'f device \<Rightarrow> bool" where
  "effect B d d' \<longleftrightarrow> by_setters (ab_backend B) (d_store d, d_cfg d) (d_store d', d_cfg d') \<and>
     asked (d_lockstep d) (d_lockstep d') \<and>
     (\<forall>slot. cfg_peers (d_cfg d') slot = cfg_peers (d_cfg d) slot \<or>
        bit (reconfigure_requests (d_lockstep d')) slot)"

lemma asked_refl [simp]: "asked ls ls"
  by (simp add: asked_def)

lemma asked_trans: "asked a b \<Longrightarrow> asked b c \<Longrightarrow> asked a c"
  by (simp add: asked_def)

lemma asked_reconfigure [simp]: "asked ls (snd (pstop_lockstep_request_reconfigure slot ls))"
  by (simp add: pstop_lockstep_request_reconfigure_def asked_def bit_or_iff)

lemma asked_rebond [simp]: "asked ls (snd (pstop_lockstep_request_rebond slot ls))"
  by (simp add: pstop_lockstep_request_rebond_def asked_def bit_or_iff)

text \<open>What was asked is the old state with other request words.\<close>

lemma asked_words:
  assumes "asked ls ls'"
  shows "ls' = ls\<lparr>rebond_requests := rebond_requests ls', reconfigure_requests := reconfigure_requests ls'\<rparr>"
proof -
  have "ls' = (ls'\<lparr>rebond_requests := 0, reconfigure_requests := 0\<rparr>)
      \<lparr>rebond_requests := rebond_requests ls', reconfigure_requests := reconfigure_requests ls'\<rparr>" by simp
  also have "\<dots> = (ls\<lparr>rebond_requests := 0, reconfigure_requests := 0\<rparr>)
      \<lparr>rebond_requests := rebond_requests ls', reconfigure_requests := reconfigure_requests ls'\<rparr>"
    using assms by (simp only: asked_def)
  also have "\<dots> = ls\<lparr>rebond_requests := rebond_requests ls', reconfigure_requests := reconfigure_requests ls'\<rparr>"
    by simp
  finally show ?thesis .
qed

lemma asked_all: "asked ls (fold (\<lambda>slot ls. snd (pstop_lockstep_request_reconfigure (int slot) ls)) slots ls)"
proof (induction slots arbitrary: ls)
  case (Cons slot slots)
  from asked_trans [OF asked_reconfigure Cons.IH] show ?case by simp
qed simp

lemma by_setters_refl [simp]: "by_setters S s s"
  unfolding by_setters_def by (rule exI [of _ "[]"]) simp

lemma by_setters_one: "op_ok op \<Longrightarrow> settings_apply S op s = s' \<Longrightarrow> by_setters S s s'"
  unfolding by_setters_def by (rule exI [of _ "[op]"]) simp

lemma by_setters_trans: "by_setters S s s' \<Longrightarrow> by_setters S s' s'' \<Longrightarrow> by_setters S s s''"
proof -
  assume "by_setters S s s'" "by_setters S s' s''"
  then obtain ops ops' where "\<forall>op \<in> set (ops @ ops'). op_ok op"
    "s'' = fold (settings_apply S) (ops @ ops') s"
    unfolding by_setters_def by force
  then show ?thesis unfolding by_setters_def by blast
qed

lemma effect_refl [simp]: "effect B d d"
  by (simp add: effect_def)

lemma effect_trans:
  assumes "effect B d d1" and "effect B d1 d2"
  shows "effect B d d2"
proof -
  have "cfg_peers (d_cfg d2) slot = cfg_peers (d_cfg d) slot \<or> bit (reconfigure_requests (d_lockstep d2)) slot" for slot
    using assms unfolding effect_def asked_def by metis
  with assms show ?thesis by (auto simp: effect_def intro: by_setters_trans asked_trans)
qed

text \<open>The setters, each as one step.\<close>

lemma setter_steps:
  "app_settings_set_peer S f st slot ip port pid = (ret, f', st') \<Longrightarrow> by_setters S (f, st) (f', st')"
  "app_settings_clear_peer S f st slot = (ret, f', st') \<Longrightarrow> by_setters S (f, st) (f', st')"
  "app_settings_set_device_id S f st did = (ret, f', st') \<Longrightarrow> by_setters S (f, st) (f', st')"
  "app_settings_set_ring_offset S f st r = (ret, f', st') \<Longrightarrow> by_setters S (f, st) (f', st')"
  "app_settings_set_operator S f st b = (ret, f', st') \<Longrightarrow> by_setters S (f, st) (f', st')"
  "app_settings_wifi_set_all S f st nets = (ret, f', st') \<Longrightarrow> \<forall>j. wifi_ok (nets j) \<Longrightarrow>
     by_setters S (f, st) (f', st')"
  by (rule by_setters_one [of "SetPeer slot ip port pid"], simp, simp,
      rule by_setters_one [of "ClearPeer slot"], simp, simp,
      rule by_setters_one [of "SetDeviceId did"], simp, simp,
      rule by_setters_one [of "SetRingOffset r"], simp, simp,
      rule by_setters_one [of "SetOperator b"], simp, simp,
      rule by_setters_one [of "SetWifi nets"], simp, simp)

text \<open>Only the setters of the peer table change a peer, in the slot named and on success.\<close>

lemma peers_kept:
  "app_settings_set_device_id S f st did = (ret, f', st') \<Longrightarrow> cfg_peers st' = cfg_peers st"
  "app_settings_set_ring_offset S f st r = (ret, f', st') \<Longrightarrow> cfg_peers st' = cfg_peers st"
  "app_settings_set_operator S f st b = (ret, f', st') \<Longrightarrow> cfg_peers st' = cfg_peers st"
  by (auto simp: app_settings_set_device_id_def app_settings_set_ring_offset_def
      app_settings_set_operator_def split: prod.splits if_splits)

lemma wifi_save_peers: "cfg_peers (snd (snd (wifi_save_from S nets is f st))) = cfg_peers st"
  by (induction "is" arbitrary: f st) (simp_all split: prod.split)

lemma wifi_peers_kept: "app_settings_wifi_set_all S f st nets = (ret, f', st') \<Longrightarrow> cfg_peers st' = cfg_peers st"
  using wifi_save_peers [of S nets "[0..<PSTOP_WIFI_MAX]" f st] by (simp add: app_settings_wifi_set_all_def)

lemma store_peer_changes:
  assumes "store_peer S f st slot peer = (ret, f', st')" and "0 \<le> slot" "slot < int PSTOP_MAX_MACHINES"
  shows "ret = 0 \<Longrightarrow> \<not> bit (reconfigure_requests (snd (pstop_lockstep_request_reconfigure slot ls))) k \<Longrightarrow>
       cfg_peers st' k = cfg_peers st k"
    and "ret \<noteq> 0 \<Longrightarrow> st' = st"
proof -
  have "nat slot < 4" using assms(2,3) by (simp add: const_simps)
  then have "bit (2 ^ nat slot :: u32) (nat slot)" by (simp add: bit_exp_iff possible_bit_word)
  with assms show "ret = 0 \<Longrightarrow> \<not> bit (reconfigure_requests (snd (pstop_lockstep_request_reconfigure slot ls))) k \<Longrightarrow>
       cfg_peers st' k = cfg_peers st k"
    by (auto simp: store_peer_def pstop_lockstep_request_reconfigure_def bit_or_iff split: prod.splits)
  show "ret \<noteq> 0 \<Longrightarrow> st' = st"
    using assms(1) by (auto simp: store_peer_def split: prod.splits)
qed

lemma set_peer_changes:
  assumes "app_settings_set_peer S f st slot ip port pid = (ret, f', st')"
  shows "ret = 0 \<Longrightarrow> \<not> bit (reconfigure_requests (snd (pstop_lockstep_request_reconfigure slot ls))) k \<Longrightarrow>
       cfg_peers st' k = cfg_peers st k"
    and "ret \<noteq> 0 \<Longrightarrow> st' = st"
  using assms store_peer_changes(1) [of S f st slot _ ret f' st' ls k] store_peer_changes(2) [of S f st slot _ ret f' st']
  by (fastforce simp: app_settings_set_peer_def split: if_splits)+

lemma clear_peer_changes:
  assumes "app_settings_clear_peer S f st slot = (ret, f', st')"
  shows "ret = 0 \<Longrightarrow> \<not> bit (reconfigure_requests (snd (pstop_lockstep_request_reconfigure slot ls))) k \<Longrightarrow>
       cfg_peers st' k = cfg_peers st k"
    and "ret \<noteq> 0 \<Longrightarrow> st' = st"
  using assms store_peer_changes(1) [of S f st slot _ ret f' st' ls k] store_peer_changes(2) [of S f st slot _ ret f' st']
  by (fastforce simp: app_settings_clear_peer_def split: if_splits)+

section \<open>Handlers\<close>

lemma clear_slot_effect: "effect B d (snd (clear_slot B slot d))"
  by (cases "app_settings_clear_peer (ab_backend B) (d_store d) (d_cfg d) slot")
    (auto simp: clear_slot_def effect_def intro: setter_steps dest: clear_peer_changes)

lemma set_slot_effect: "effect B d (snd (set_slot B slot url d))"
proof -
  have store: "effect B d (snd (case app_settings_set_peer (ab_backend B) (d_store d) (d_cfg d) slot ip (ucast port) pid of
               (ret, f, cfg) \<Rightarrow>
                 if ret \<noteq> 0 then (Inl (ret, ''settings write failed''), d\<lparr>d_store := f, d_cfg := cfg\<rparr>)
                 else (Inr (ip, port, pid), d\<lparr>d_store := f, d_cfg := cfg,
                        d_lockstep := snd (pstop_lockstep_request_reconfigure slot (d_lockstep d))\<rparr>)))"
    for ip and port :: u32 and pid
    by (cases "app_settings_set_peer (ab_backend B) (d_store d) (d_cfg d) slot ip (ucast port) pid")
      (auto simp: effect_def intro: setter_steps dest: set_peer_changes)
  show ?thesis
    unfolding set_slot_def Let_def using store by (simp split: sum.split)
qed

lemma peer_effect: "effect B d (snd (pstop_api_pstop_peer B cap url d))"
  using clear_slot_effect [of B d 0] set_slot_effect [of B d 0 url]
  by (auto simp: pstop_api_pstop_peer_def split: prod.splits sum.splits)

lemma peers_effect: "effect B d (snd (pstop_api_pstop_peers B cap url d))"
proof -
  have rebond: "effect B d (d\<lparr>d_lockstep := snd (pstop_lockstep_request_rebond slot (d_lockstep d))\<rparr>)" for slot
    by (simp add: effect_def)
  have clear: "effect B d d'" if "clear_slot B slot d = (ret, d')" for slot ret d'
    using clear_slot_effect [of B d slot] that by simp
  have set': "effect B d d'" if "set_slot B slot url d = (res, d')" for slot res d'
    using set_slot_effect [of B d slot url] that by simp
  show ?thesis
    unfolding pstop_api_pstop_peers_def Let_def
    by (auto simp: rebond dest: clear set' split: prod.split sum.split)
qed

lemma role_effect: "effect B d (snd (pstop_api_role B cap post url auth d))"
  by (auto simp: pstop_api_role_def effect_def intro: setter_steps dest: peers_kept split: option.split sum.split prod.split)

lemma ring_offset_effect: "effect B d (snd (pstop_api_ring_offset B cap url d))"
  by (auto simp: pstop_api_ring_offset_def Let_def effect_def intro: setter_steps dest: peers_kept split: sum.split prod.split)

lemma led1_effect: "effect B d (snd (pstop_api_ring_led1 N cap url d))"
  by (auto simp: pstop_api_ring_led1_def Let_def effect_def split: sum.split)

lemma health_effect: "effect B d (snd (pstop_api_health B N cap d))"
  by (simp add: pstop_api_health_def Let_def effect_def split: prod.split)

lemma health_reset_effect: "effect B d (snd (pstop_api_health_reset B N cap url auth d))"
  by (auto simp: pstop_api_health_reset_def Let_def effect_def put_health_def split: option.split prod.split)

lemma verbose_effect: "effect B d (snd (pstop_api_admin_verbose B cap toggle auth d))"
  by (auto simp: pstop_api_admin_verbose_def Let_def effect_def split: option.split prod.split)

lemma settings_effect: "effect B d (snd (pstop_api_admin_settings B cap post body auth d))"
proof -
  have id: "effect B d' (snd (case app_settings_set_device_id (ab_backend B) (d_store d') (d_cfg d') did of (ret, f, cfg) \<Rightarrow>
               if ret \<noteq> 0 then (settings_write_failed cap, d'\<lparr>d_store := f, d_cfg := cfg\<rparr>)
               else (answer f cfg, d'\<lparr>d_store := f, d_cfg := cfg,
                 d_lockstep := fold (\<lambda>slot ls. snd (pstop_lockstep_request_reconfigure (int slot) ls))
                   [0..<PSTOP_MAX_MACHINES] (d_lockstep d')\<rparr>)))" for d' did answer
    by (cases "app_settings_set_device_id (ab_backend B) (d_store d') (d_cfg d') did")
      (auto simp: effect_def asked_all intro: setter_steps dest: peers_kept)
  have ring: "effect B d (d\<lparr>d_store := f, d_cfg := cfg\<rparr>)"
    if "app_settings_set_ring_offset (ab_backend B) (d_store d) (d_cfg d) r = (ret, f, cfg)" for r ret f cfg
    using that by (auto simp: effect_def intro: setter_steps dest: peers_kept)
  obtain found rng did where json: "ab_json_settings B body = (found, rng, did)" by (metis prod_cases3)
  obtain ret f cfg where step: "(if bit found 0
      then app_settings_set_ring_offset (ab_backend B) (d_store d) (d_cfg d) (ucast rng)
      else (0, d_store d, d_cfg d)) = (ret, f, cfg)" by (metis prod_cases3)
  then have first: "effect B d (d\<lparr>d_store := f, d_cfg := cfg\<rparr>)"
    by (auto intro: ring split: if_splits)
  note second = effect_trans [OF first id]
  show ?thesis
    unfolding pstop_api_admin_settings_def Let_def json prod.case step
    using first second
    by (simp split: option.split prod.splits)
qed

section \<open>WiFi entries stay representable\<close>

lemma plain_no_nul: "plain_string s \<Longrightarrow> CHR 0x00 \<notin> set s"
proof
  assume "plain_string s" "CHR 0x00 \<in> set s"
  then have "\<not> (of_char (CHR 0x00) :: nat) < 0x20" unfolding plain_string_def by blast
  then show False by simp
qed

lemma stored_pass_text:
  assumes "nets_ok cfg"
  shows "c_text 64 (stored_pass cfg s)"
proof -
  have "c_text 64 (pass (cfg_wifi cfg j))" for j using assms by (simp add: nets_ok_def wifi_ok_def)
  moreover have "c_text 64 []" by (simp add: c_text_def)
  ultimately show ?thesis using stored_pass_cases [of cfg s] by metis
qed

lemma json_entry_ok:
  assumes "nets_ok cfg" and "wifi_from_json_loop cfg i ((s, p) # es) nets = Inr nets'"
  obtains w where "wifi_ok w" and "wifi_from_json_loop cfg (i + 1) es (nets(i := w)) = Inr nets'"
proof -
  define q where "q = (case p of Some p \<Rightarrow> p | None \<Rightarrow> '''')"
  obtain t where s: "s = Some t" using assms(2) by (cases s) (auto simp: Let_def)
  have t: "c_text 32 t"
    using assms(2) by (auto simp: s Let_def const_simps c_text_def plain_no_nul split: if_splits)
  show thesis
  proof (cases "q = WIFI_MASK")
    case True
    then have "wifi_from_json_loop cfg (i + 1) es (nets(i := \<lparr>ssid = t, pass = stored_pass cfg t\<rparr>)) = Inr nets'"
      using assms(2) by (auto simp: s Let_def q_def [symmetric] split: if_splits)
    then show thesis by (rule that [rotated]) (simp add: wifi_ok_def t stored_pass_text [OF assms(1)])
  next
    case False
    then have "wifi_from_json_loop cfg (i + 1) es (nets(i := \<lparr>ssid = t, pass = q\<rparr>)) = Inr nets' \<and>
        (q = [] \<or> length q \<le> 64 \<and> plain_string q)"
      using assms(2) by (auto simp: s Let_def q_def [symmetric] const_simps split: if_splits)
    moreover from this have "c_text 64 q" using plain_no_nul by (auto simp: c_text_def)
    ultimately show thesis using that [of "\<lparr>ssid = t, pass = q\<rparr>"] t by (simp add: wifi_ok_def)
  qed
qed

lemma json_nets_ok:
  assumes "nets_ok cfg" and "wifi_from_json_loop cfg i es nets = Inr nets'" and "\<forall>j. wifi_ok (nets j)"
  shows "\<forall>j. wifi_ok (nets' j)"
  using assms(2,3)
proof (induction es arbitrary: i nets)
  case (Cons e es)
  obtain s p where e: "e = (s, p)" by fastforce
  from json_entry_ok [OF assms(1) Cons.prems(1) [unfolded e]] obtain w where
    w: "wifi_ok w" "wifi_from_json_loop cfg (i + 1) es (nets(i := w)) = Inr nets'" .
  with Cons.prems(2) have "\<forall>j. wifi_ok ((nets(i := w)) j)" by simp
  from Cons.IH [OF w(2) this] show ?case .
qed simp

lemma wifi_zero_ok [simp]: "wifi_ok wifi_zero"
  by (simp add: wifi_ok_def wifi_zero_def c_text_def)

lemma wifi_effect:
  assumes "nets_ok (d_cfg d)"
  shows "effect B d (snd (pstop_api_admin_wifi B cap post body auth d))"
proof -
  have post: "effect B d d'"
    if "wifi_from_json (d_cfg d) networks = Inr nets"
      and "app_settings_wifi_set_all (ab_backend B) (d_store d) (d_cfg d) nets = (ret, f, cfg)"
      and "d_store d' = f" "d_cfg d' = cfg" "d_lockstep d' = d_lockstep d" for networks nets ret f cfg d'
    using setter_steps(6) [OF that(2)] wifi_peers_kept [OF that(2)] json_nets_ok [OF assms that(1) [unfolded wifi_from_json_def]] that(3-5)
    by (simp add: effect_def)
  show ?thesis
    unfolding pstop_api_admin_wifi_def Let_def
    by (auto intro: post split: option.split sum.split prod.split)
qed

section \<open>The dispatcher\<close>

lemma dispatch_effect:
  assumes "nets_ok (d_cfg d)"
  shows "effect (im_api I) d (snd (dispatch I cb r d))"
  by (cases "cb_route cb")
    (simp_all add: dispatch_def Let_def case_prod_unfold peer_effect peers_effect role_effect
      ring_offset_effect led1_effect health_effect health_reset_effect settings_effect verbose_effect
      wifi_effect [OF assms])

lemma serve_effect:
  assumes "nets_ok (d_cfg (sv_device sv))"
  shows "effect (im_api I) (sv_device sv) (sv_device (serve I cb sv))"
proof -
  have d: "sv_device (serve I cb sv) = sv_device sv \<or>
      (\<exists>r. sv_device (serve I cb sv) = snd (dispatch I cb r (sv_device sv)))"
  proof (cases "ends cb \<or> req_for (cb_client cb) (sv_reqs sv) = None")
    case True
    then show ?thesis by (auto simp: serve_def route_handler_def ends_def split: option.split)
  next
    case False
    then obtain i reqs where p: "req_for (cb_client cb) (sv_reqs sv) = Some (i, reqs)" by auto
    obtain out d where out: "dispatch I cb (taken_in I cb (reqs ! i)) (sv_device sv) = (out, d)" by fastforce
    have "sv_device (serve I cb sv) = sv_device sv \<or> sv_device (serve I cb sv) = d"
      using False p out
      by (cases out) (auto simp: serve_def route_handler_def ends_def Let_def case_prod_unfold
          respond_def taken_in_def [symmetric])
    with out show ?thesis by (metis snd_conv)
  qed
  then show ?thesis using dispatch_effect [OF assms] by auto
qed

section \<open>Settings after setters\<close>

lemma settings_apply_nets_ok:
  assumes "nets_ok (snd s)" and "op_ok op"
  shows "nets_ok (snd (settings_apply S op s))"
proof (cases op)
  case (SetWifi nets)
  have save: "nets_ok (snd (snd (wifi_save_from S nets is f st)))"
    if "nets_ok st" "\<forall>i \<in> set is. i < 4" for "is" f st
    using that assms(2) SetWifi
  proof (induction "is" arbitrary: f st)
    case (Cons i "is")
    have "wifi_ok (nets i)" using Cons.prems by (auto simp: nat_less_4)
    with Cons.prems have "nets_ok (st\<lparr>cfg_wifi := (cfg_wifi st)(i := nets i)\<rparr>)" by (simp add: nets_ok_def)
    with Cons show ?case by (auto simp: Let_def split: prod.split)
  qed simp
  show ?thesis
    using save [of "snd s" "[0..<4]" "fst s"] assms(1)
    by (cases s) (simp add: SetWifi app_settings_wifi_set_all_def PSTOP_WIFI_MAX_def)
qed (use assms(1) in \<open>cases s; auto simp: nets_ok_def app_settings_set_peer_def app_settings_clear_peer_def
      store_peer_def app_settings_set_device_id_def app_settings_set_ring_offset_def
      app_settings_set_operator_def split: prod.split\<close>)+

lemma by_setters_keep:
  assumes "backend_lawful S" and "by_setters S (f, st) (f', st')"
    and "store_sane S f" "reload_settings S derived f = st" "nets_ok st"
  shows "store_sane S f' \<and> reload_settings S derived f' = st' \<and> nets_ok st'"
proof -
  obtain ops where ops: "\<forall>op \<in> set ops. op_ok op" "(f', st') = fold (settings_apply S) ops (f, st)"
    using assms(2) unfolding by_setters_def by blast
  have "store_sane S (fst (fold (settings_apply S) ops s)) \<and>
      reload_settings S derived (fst (fold (settings_apply S) ops s)) = snd (fold (settings_apply S) ops s) \<and>
      nets_ok (snd (fold (settings_apply S) ops s))"
    if "store_sane S (fst s)" "reload_settings S derived (fst s) = snd s" "nets_ok (snd s)" for s
    using ops(1) that
  proof (induction ops arbitrary: s)
    case (Cons op ops)
    from settings_apply_agrees [OF assms(1) Cons.prems(2,3), of op] Cons.prems(1)
      settings_apply_nets_ok [OF Cons.prems(4), of op S]
    show ?case using Cons.IH [of "settings_apply S op s"] Cons.prems(1) by simp
  qed simp
  from this [of "(f, st)"] assms(3-5) ops(2) show ?thesis by (metis fst_conv snd_conv)
qed

text \<open>What a load produces is representable, whatever the store holds.\<close>

lemma c_string_text: "c_text n (c_string (take n b))"
proof -
  have "(char_of (unat w) :: char) \<noteq> CHR 0x00" if "w \<noteq> (0 :: u8)" for w
  proof
    assume "(char_of (unat w) :: char) = CHR 0x00"
    then have "(of_char (char_of (unat w) :: char) :: nat) = 0" by simp
    then have "unat w mod 256 = 0" by (simp add: of_char_of)
    moreover have "unat w < 256" using unsigned_less [of w] by simp
    ultimately have "unat w = 0" by simp
    with that show False by (simp add: unat_eq_0)
  qed
  then have nz: "w = 0" if "char_of (unat w) = CHR 0x00" for w :: u8 using that by blast
  have "CHR 0x00 \<notin> set (c_string (take n b))"
  proof
    assume "CHR 0x00 \<in> set (c_string (take n b))"
    then obtain w where w: "CHR 0x00 = (char_of (unat w) :: char)"
      and mem: "w \<in> set (takeWhile (\<lambda>w. w \<noteq> (0 :: u8)) (take n b))"
      unfolding c_string_def set_map by (rule imageE)
    from set_takeWhileD [OF mem] nz [OF w [symmetric]] show False by blast
  qed
  moreover have "length (takeWhile (\<lambda>w. w \<noteq> (0 :: u8)) (take n b)) \<le> n"
    using length_takeWhile_le [of "\<lambda>w. w \<noteq> (0 :: u8)" "take n b"] by simp
  ultimately show ?thesis by (simp add: c_text_def) (simp add: c_string_def)
qed

lemma loaded_net_ok: "wifi_ok (wifi_of_bytes b)"
  by (simp add: wifi_of_bytes_def wifi_ok_def c_string_text const_simps)

lemma load_nets_ok:
  "nets_ok st \<Longrightarrow> (\<And>b. nets_ok (upd b)) \<Longrightarrow> nets_ok (snd (load_scalar expected len rd upd st))"
  by (simp add: load_scalar_def split: option.split)

lemma handler_nets_ok: "nets_ok st \<Longrightarrow> nets_ok (snd (pstop_settings_set S it st))"
proof -
  assume ok: "nets_ok st"
  have "nets_ok (st\<lparr>cfg_device_id := v\<rparr>)" "nets_ok (st\<lparr>cfg_is_operator := b\<rparr>)" "nets_ok (st\<lparr>cfg_ring_offset := r\<rparr>)"
    "nets_ok (st\<lparr>cfg_wifi := (cfg_wifi st)(i := wifi_of_bytes x)\<rparr>)" "nets_ok (st\<lparr>cfg_peers := ps\<rparr>)"
    for v b r i x ps
    using ok by (simp_all add: nets_ok_def loaded_net_ok)
  then show ?thesis
    using ok unfolding pstop_settings_set_def Let_def
    by (simp add: load_nets_ok split: prod.split option.split bool.split)
qed

lemma reload_nets_ok: "nets_ok (reload_settings S derived f)"
proof -
  have "nets_ok (fold (\<lambda>it st. snd (pstop_settings_set S it st)) its st)" if "nets_ok st" for its st
    using that by (induction its arbitrary: st) (simp_all add: handler_nets_ok)
  moreover have "nets_ok (settings_defaults derived)" by (simp add: nets_ok_def settings_defaults_def)
  ultimately show ?thesis by (simp add: reload_settings_def clamp_ring_def) (simp add: nets_ok_def)
qed

end
