(* ===== verification/Lockstep_Safety.thy ===== *)
theory Lockstep_Safety
  imports Lockstep
begin

text \<open>
  The safety argument of the comparator: what each operation of \<open>lockstep.c\<close> does as a
  whole, the invariant that ties the channels, the verdicts and the frames of a tick
  together under every interleaving of the threads, and the properties of what reaches
  the wire.
\<close>

section \<open>The loops, in closed form\<close>

lemma sampler_loop:
  "fold (\<lambda>slot st. if slot_active st slot \<and> tick_due st slot
          then st\<lparr>frames := (frames st)(channel := (frames st channel)(slot :=
                 B (sessions st slot) (tick_role st) (tick_now_ms st)))\<rparr>
          else st) [0..<n] st =
   st\<lparr>frames := (frames st)(channel := (\<lambda>slot.
        if slot < n \<and> slot_active st slot \<and> tick_due st slot
        then B (sessions st slot) (tick_role st) (tick_now_ms st)
        else frames st channel slot))\<rparr>"
  by (induction n) (auto simp: fun_eq_iff less_Suc_eq intro!: lockstep.equality)

lemma sampler_pass_eq:
  "sampler_pass L E channel gen st =
     (let v = fst (estop_channel_sample L (int channel) (estop st channel) (te_reads E channel));
          es = snd (estop_channel_sample L (int channel) (estop st channel) (te_reads E channel))
      in st\<lparr>estop := (estop st)(channel := es),
            sampler_verdict := (sampler_verdict st)(channel := v),
            frames := (frames st)(channel := (\<lambda>slot.
              if slot < PSTOP_MAX_MACHINES \<and> slot_active st slot \<and> tick_due st slot
              then pstop_session_build L (te_id E channel) (sessions st slot) v
                     (tick_role st) (tick_now_ms st)
              else frames st channel slot)),
            sampler_done_ms := (sampler_done_ms st)(channel := ucast (te_uptime E)),
            sampler_gen := (sampler_gen st)(channel := gen)\<rparr>)"
proof (cases "estop_channel_sample L (int channel) (estop st channel) (te_reads E channel)")
  case (Pair v es)
  show ?thesis
    unfolding sampler_pass_def Let_def Pair prod.case fst_conv snd_conv
      sampler_loop [where B = "\<lambda>s. pstop_session_build L (te_id E channel) s v"]
    by (simp cong: if_cong)
qed

lemma send_loop:
  "fold (send_slot E) [0..<n] (outs, st) =
     (outs @ map (\<lambda>slot. Tx slot (frames st 0 slot))
        (filter (\<lambda>slot. slot_active st slot \<and> tick_due st slot) [0..<n]),
      st\<lparr>sessions := (\<lambda>slot. if slot < n \<and> slot_active st slot \<and> tick_due st slot
           then snd (pstop_session_commit_send (sessions st slot) (fst (te_sendto E slot))
                      (snd (te_sendto E slot)) (tick_now_ms st))
           else sessions st slot)\<rparr>)"
  by (induction n) (auto simp: send_slot_def fun_eq_iff less_Suc_eq intro!: lockstep.equality)

lemma close_loop:
  "fold (close_slot L E now) [0..<n] st =
     st\<lparr>sessions := (\<lambda>slot. if slot < n \<and> slot_active st slot
          then pstop_session_watchdog L
                 (snd (pstop_session_poll L now (te_inbox E slot) (sessions st slot))) now
          else sessions st slot)\<rparr>"
  by (induction n) (auto simp: close_slot_def fun_eq_iff less_Suc_eq intro!: lockstep.equality)

lemma due_loop:
  "fold (\<lambda>slot st. st\<lparr>tick_due := (tick_due st)(slot :=
       slot_active st slot \<and> pstop_session_due (sessions st slot) now)\<rparr>) [0..<n] st =
   st\<lparr>tick_due := (\<lambda>slot. if slot < n
        then slot_active st slot \<and> pstop_session_due (sessions st slot) now
        else tick_due st slot)\<rparr>"
  by (induction n) (auto simp: fun_eq_iff less_Suc_eq intro!: lockstep.equality)

lemma rebond_loop:
  "fold (\<lambda>slot st. if slot_active st slot \<and> bit (w :: u32) slot
          then st\<lparr>sessions := (sessions st)(slot := pstop_session_rebond L (sessions st slot))\<rparr>
          else st) [0..<n] st =
   st\<lparr>sessions := (\<lambda>slot. if slot < n \<and> slot_active st slot \<and> bit w slot
        then pstop_session_rebond L (sessions st slot) else sessions st slot)\<rparr>"
  by (induction n) (auto simp: fun_eq_iff less_Suc_eq intro!: lockstep.equality)

lemma late_bits:
  "bit (fold (\<lambda>c m. if sampler_gen st c \<noteq> gen then m OR push_bit c 1 else m) [0..<2] (late :: u8)) c
     \<longleftrightarrow> bit late c \<or> (c < 2 \<and> sampler_gen st c \<noteq> gen)"
  by (auto simp: numeral_2_eq_2 bit_simps less_Suc_eq)

lemma published_all: "samplers_published gen st \<longleftrightarrow> (\<forall>c < 2. sampler_gen st c = gen)"
  by (auto simp: samplers_published_def list_all_iff const_simps)

text \<open>The comparison passes exactly when no bit is set and both stamps are current.\<close>

lemma late_zero_iff:
  "fold (\<lambda>c m. if sampler_gen st c \<noteq> gen then m OR push_bit c 1 else m) [0..<2] (late :: u8) = 0
     \<longleftrightarrow> late = 0 \<and> samplers_published gen st"
proof -
  have zero: "(w :: u8) = 0 \<longleftrightarrow> (\<forall>c. \<not> bit w c)" for w
    by (auto intro: bit_word_eqI)
  show ?thesis unfolding zero late_bits published_all by auto
qed

section \<open>What the operations leave alone\<close>

lemma slot_apply_frame [frame_simps]:
  "estop (snd (slot_apply_config L E slot st)) = estop st"
  "frames (snd (slot_apply_config L E slot st)) = frames st"
  "sampler_verdict (snd (slot_apply_config L E slot st)) = sampler_verdict st"
  "sampler_gen (snd (slot_apply_config L E slot st)) = sampler_gen st"
  "sampler_done_ms (snd (slot_apply_config L E slot st)) = sampler_done_ms st"
  "tick_gen (snd (slot_apply_config L E slot st)) = tick_gen st"
  "diag (snd (slot_apply_config L E slot st)) = diag st"
  "mismatches (snd (slot_apply_config L E slot st)) = mismatches st"
  "missed_deadlines (snd (slot_apply_config L E slot st)) = missed_deadlines st"
  "gated_ticks (snd (slot_apply_config L E slot st)) = gated_ticks st"
  "tick_observer (snd (slot_apply_config L E slot st)) = tick_observer st"
  "go_sem (snd (slot_apply_config L E slot st)) = go_sem st"
  "done_sem (snd (slot_apply_config L E slot st)) = done_sem st"
  "cmp_at (snd (slot_apply_config L E slot st)) = cmp_at st"
  "cmp_next (snd (slot_apply_config L E slot st)) = cmp_next st"
  by (simp_all add: slot_apply_config_def Let_def split: sum.split prod.split)

lemma begin_tick_frame [frame_simps]:
  "estop (snd (begin_tick L E now st)) = estop st"
  "frames (snd (begin_tick L E now st)) = frames st"
  "sampler_verdict (snd (begin_tick L E now st)) = sampler_verdict st"
  "sampler_gen (snd (begin_tick L E now st)) = sampler_gen st"
  "sampler_done_ms (snd (begin_tick L E now st)) = sampler_done_ms st"
  "diag (snd (begin_tick L E now st)) = diag st"
  "mismatches (snd (begin_tick L E now st)) = mismatches st"
  "missed_deadlines (snd (begin_tick L E now st)) = missed_deadlines st"
  "gated_ticks (snd (begin_tick L E now st)) = gated_ticks st"
  "tick_observer (snd (begin_tick L E now st)) = tick_observer st"
  "go_sem (snd (begin_tick L E now st)) = go_sem st"
  "done_sem (snd (begin_tick L E now st)) = done_sem st"
  "cmp_at (snd (begin_tick L E now st)) = cmp_at st"
  "cmp_next (snd (begin_tick L E now st)) = cmp_next st"
  by (simp_all add: begin_tick_def Let_def rebond_loop due_loop frame_simps
      fold_keeps [where f = estop] fold_keeps [where f = frames]
      fold_keeps [where f = sampler_verdict] fold_keeps [where f = sampler_gen]
      fold_keeps [where f = sampler_done_ms] fold_keeps [where f = diag]
      fold_keeps [where f = mismatches] fold_keeps [where f = missed_deadlines]
      fold_keeps [where f = gated_ticks] fold_keeps [where f = tick_observer]
      fold_keeps [where f = go_sem] fold_keeps [where f = done_sem]
      fold_keeps [where f = cmp_at] fold_keeps [where f = cmp_next])

lemma begin_tick_gen [simp]:
  "fst (begin_tick L E now st) = tick_gen st + 1"
  "tick_gen (snd (begin_tick L E now st)) = tick_gen st + 1"
  "tick_now_ms (snd (begin_tick L E now st)) = now"
  by (simp_all add: begin_tick_def Let_def rebond_loop due_loop frame_simps
      fold_keeps [where f = tick_gen])

lemma begin_tick_requests [simp]:
  "rebond_requests (snd (begin_tick L E now st)) = 0"
  "reconfigure_requests (snd (begin_tick L E now st)) = 0"
proof -
  have "rebond_requests (snd (slot_apply_config L E slot st)) = rebond_requests st"
    "reconfigure_requests (snd (slot_apply_config L E slot st)) = reconfigure_requests st" for slot st
    by (simp_all add: slot_apply_config_def Let_def split: sum.split prod.split)
  then show "rebond_requests (snd (begin_tick L E now st)) = 0"
    "reconfigure_requests (snd (begin_tick L E now st)) = 0"
    by (simp_all add: begin_tick_def Let_def rebond_loop due_loop
        fold_keeps [where f = rebond_requests] fold_keeps [where f = reconfigure_requests])
qed

lemma comparator_pass_eq:
  "comparator_pass E st =
     (if \<not> estop_channels_primed (estop st) then ([], st\<lparr>gated_ticks := gated_ticks st + 1\<rparr>)
      else case first_mismatch st of
        Some slot \<Rightarrow> ([], (record_mismatch E slot st)\<lparr>mismatches := mismatches st + 1\<rparr>)
      | None \<Rightarrow>
          (map (\<lambda>slot. Tx slot (frames st 0 slot)) (due_slots st),
           st\<lparr>sessions := (\<lambda>slot. if slot < PSTOP_MAX_MACHINES \<and> slot_active st slot \<and> tick_due st slot
                then snd (pstop_session_commit_send (sessions st slot) (fst (te_sendto E slot))
                           (snd (te_sendto E slot)) (tick_now_ms st))
                else sessions st slot)\<rparr>))"
  by (simp add: comparator_pass_def send_loop due_slots_def record_mismatch_def Let_def
      split: option.split)

text \<open>The sending step of \<open>run_tick_body\<close> alone, before the sessions are polled.\<close>

lemma comparator_pass_frame [frame_simps]:
  "estop (snd (comparator_pass E st)) = estop st"
  "frames (snd (comparator_pass E st)) = frames st"
  "sampler_verdict (snd (comparator_pass E st)) = sampler_verdict st"
  "sampler_gen (snd (comparator_pass E st)) = sampler_gen st"
  "slot_active (snd (comparator_pass E st)) = slot_active st"
  "tick_gen (snd (comparator_pass E st)) = tick_gen st"
  "missed_deadlines (snd (comparator_pass E st)) = missed_deadlines st"
  "tick_observer (snd (comparator_pass E st)) = tick_observer st"
  "go_sem (snd (comparator_pass E st)) = go_sem st"
  "done_sem (snd (comparator_pass E st)) = done_sem st"
  "cmp_at (snd (comparator_pass E st)) = cmp_at st"
  "cmp_next (snd (comparator_pass E st)) = cmp_next st"
  by (simp_all add: comparator_pass_eq record_mismatch_def split: option.split)

lemma run_tick_body_eq:
  "run_tick_body L E now gen late by_ms st =
     (let ok = (late = 0 \<and> samplers_published gen st);
          late' = fold (\<lambda>c m. if sampler_gen st c \<noteq> gen then m OR push_bit c 1 else m) [0..<2] late;
          st' = (if ok then snd (comparator_pass E st)
                 else record_late E late' by_ms (st\<lparr>missed_deadlines := missed_deadlines st + 1\<rparr>))
      in (if ok then fst (comparator_pass E st) @
               (if tick_observer st \<and> estop_channels_primed (estop st)
                then [Observed gen (sampler_verdict st 0) (sampler_verdict st 1)] else [])
          else [],
          st'\<lparr>sessions := (\<lambda>slot. if slot < PSTOP_MAX_MACHINES \<and> slot_active st slot
               then pstop_session_watchdog L
                      (snd (pstop_session_poll L now (te_inbox E slot) (sessions st' slot))) now
               else sessions st' slot)\<rparr>))"
proof -
  have [simp]: "ESTOP_CHANNELS = 2" by (simp add: const_simps)
  note late = late_zero_iff [of st gen late]
  show ?thesis
  proof (cases "late = 0 \<and> samplers_published gen st")
    case True
    obtain outs st1 where pass: "comparator_pass E st = (outs, st1)" by fastforce
    have "tick_observer st1 = tick_observer st" "estop st1 = estop st"
      "sampler_verdict st1 = sampler_verdict st" "slot_active st1 = slot_active st"
      using comparator_pass_frame [of E st] by (simp_all add: pass)
    with True late pass show ?thesis
      by (simp add: run_tick_body_def Let_def close_loop cong: if_cong)
  next
    case False
    with late show ?thesis
      by (auto simp: run_tick_body_def Let_def close_loop record_late_def cong: if_cong)
  qed
qed

section \<open>What a frame says about the verdict\<close>

text \<open>
  The contract the comparator relies on: the type byte of a built frame is the verdict of
  a bonded session and the bond request of any other. Two frames that agree therefore
  carry the same verdict.
\<close>

locale verdict_carrier =
  fixes build :: "'i \<Rightarrow> 's \<Rightarrow> 'v \<Rightarrow> 'f"
    and kind :: "'f \<Rightarrow> 'v"
    and bonded :: "'s \<Rightarrow> bool"
    and bond :: 'v
    and lawful :: bool
  assumes kind_build: "lawful \<Longrightarrow> kind (build i s v) = (if bonded s then v else bond)"
begin

lemma agreement_carries:
  assumes lawful and "build i s v = build j s w" and "kind (build i s v) = k" and "k \<noteq> bond"
  shows "bonded s \<and> v = k \<and> w = k"
  using assms kind_build [of i s v] kind_build [of j s w] by (auto split: if_splits)

lemma carries_while_bonded:
  assumes lawful and "bonded s"
  shows "kind (build i s v) = v"
  using assms kind_build by simp

end

interpretation carrier: verdict_carrier
  "\<lambda>(my_id, role, now). \<lambda>s v. pstop_session_build L my_id s v role now"
  "\<lambda>f. msg_message L (message_decode L f)" "\<lambda>s. s_state s = PSTOP_SESS_BONDED" "MSG_BOND L"
  "lib_codec_faithful L"
  for L :: "'m pstop_lib"
  by unfold_locales (auto simp: build_type session_frame_type_def)

lemma build_length: "lib_frame_sized L \<Longrightarrow> length (pstop_session_build L my_id s v r now) = 48"
  by (simp add: lib_frame_sized_def pstop_session_build_def Let_def)

lemma not_differ_eq:
  assumes "\<not> frames_differ a b" and "length a = 48" and "length b = 48"
  shows "a = b"
  using assms by (auto simp: frames_differ_def list_ex_iff const_simps intro: nth_equalityI)

section \<open>The invariant of the threads\<close>

text \<open>
  A sampler's output is fresh: stamped with the generation in flight and encoded from the
  sessions, role and time of this tick with the verdict the sampler holds.
\<close>

definition fresh :: "'m pstop_lib \<Rightarrow> nat \<Rightarrow> lockstep \<Rightarrow> bool" where
  "fresh L c st \<longleftrightarrow> sampler_gen st c = tick_gen st \<and>
     (\<forall>slot < PSTOP_MAX_MACHINES. slot_active st slot \<longrightarrow> tick_due st slot \<longrightarrow>
        (\<exists>my_id. frames st c slot = pstop_session_build L my_id (sessions st slot)
                   (sampler_verdict st c) (tick_role st) (tick_now_ms st)))"

text \<open>The reads a sampler has performed along a run: one per turn it was let go for.\<close>

fun new_reads :: "nat \<Rightarrow> lk_event \<Rightarrow> lockstep \<Rightarrow> (int \<times> int) list" where
  "new_reads c (Sampler d E) st = (if d = c \<and> c < ESTOP_CHANNELS \<and> go_sem st c then [te_reads E c] else [])"
| "new_reads c _ st = []"

fun lk_reads :: "'m pstop_lib \<Rightarrow> nat \<Rightarrow> lk_event list \<Rightarrow> lockstep \<Rightarrow> (int \<times> int) list" where
  "lk_reads L c [] st = []"
| "lk_reads L c (e # es) st = new_reads c e st @ lk_reads L c es (snd (lk_step L e st))"

definition handed_over :: "lockstep \<Rightarrow> nat \<Rightarrow> bool" where
  "handed_over st c \<longleftrightarrow>
     (case cmp_at st of AtTop \<Rightarrow> False
      | AtTake k l \<Rightarrow> done_sem st c \<or> (c < k \<and> \<not> bit (c_late_mask l) c)
      | AtBody l \<Rightarrow> \<not> bit (c_late_mask l) c)"

definition locals_ok :: "lockstep \<Rightarrow> bool" where
  "locals_ok st \<longleftrightarrow>
     (case cmp_at st of AtTop \<Rightarrow> True
      | AtTake k l \<Rightarrow> k < 2 \<and> c_gen l = tick_gen st \<and> c_now_ms l = tick_now_ms st
      | AtBody l \<Rightarrow> c_gen l = tick_gen st \<and> c_now_ms l = tick_now_ms st)"

definition channel_inv :: "'m pstop_lib \<Rightarrow> (int \<times> int) list \<Rightarrow> nat \<Rightarrow> lockstep \<Rightarrow> bool" where
  "channel_inv L h c st \<longleftrightarrow>
     estop st c = estop_run L (int c) h \<and>
     (h \<noteq> [] \<longrightarrow> sampler_verdict st c =
        (if 3 \<le> trailing loop_closed h then MSG_OK L else MSG_STOP L)) \<and>
     (handed_over st c \<longrightarrow> h \<noteq> [] \<and> fresh L c st)"

definition lk_inv :: "'m pstop_lib \<Rightarrow> (nat \<Rightarrow> (int \<times> int) list) \<Rightarrow> lockstep \<Rightarrow> bool" where
  "lk_inv L h st \<longleftrightarrow> locals_ok st \<and> (\<forall>c < 2. channel_inv L (h c) c st)"

lemma sample_by_history:
  "fst (estop_channel_sample L core (estop_run L core rs) r) =
     (if 3 \<le> trailing loop_closed (rs @ [r]) then MSG_OK L else MSG_STOP L)"
  unfolding estop_run_def by (rule chan.run_verdict)

lemma sampler_pass_channel:
  fixes E :: tick_env
  assumes "estop st c = estop_run L (int c) h"
  defines "st' \<equiv> sampler_pass L E c (tick_gen st) st"
  shows "estop st' c = estop_run L (int c) (h @ [te_reads E c])"
    and "sampler_verdict st' c =
      (if 3 \<le> trailing loop_closed (h @ [te_reads E c]) then MSG_OK L else MSG_STOP L)"
    and "fresh L c st'"
  using sample_by_history [of L "int c" h "te_reads E c"] assms(1)
  by (auto simp: st'_def sampler_pass_eq Let_def fresh_def)

lemma sampler_pass_other:
  fixes L :: "'m pstop_lib" and E :: tick_env and gen :: u32 and st :: lockstep
  assumes "d \<noteq> c"
  defines "st' \<equiv> sampler_pass L E c gen st"
  shows "estop st' d = estop st d" and "sampler_verdict st' d = sampler_verdict st d"
    and "fresh L d st' = fresh L d st"
  using assms(1) by (auto simp: st'_def sampler_pass_eq Let_def fresh_def)

lemma sampler_pass_frame [frame_simps]:
  "cmp_at (sampler_pass L E c gen st) = cmp_at st"
  "done_sem (sampler_pass L E c gen st) = done_sem st"
  "go_sem (sampler_pass L E c gen st) = go_sem st"
  "tick_gen (sampler_pass L E c gen st) = tick_gen st"
  "tick_now_ms (sampler_pass L E c gen st) = tick_now_ms st"
  by (simp_all add: sampler_pass_eq Let_def)

lemma fresh_sem [simp]:
  "fresh L c (st\<lparr>go_sem := g\<rparr>) = fresh L c st"
  "fresh L c (st\<lparr>done_sem := g\<rparr>) = fresh L c st"
  "fresh L c (st\<lparr>cmp_at := pc\<rparr>) = fresh L c st"
  "fresh L c (st\<lparr>rebond_requests := r\<rparr>) = fresh L c st"
  "fresh L c (st\<lparr>reconfigure_requests := r\<rparr>) = fresh L c st"
  "fresh L c (st\<lparr>diag := d\<rparr>) = fresh L c st"
  by (simp_all add: fresh_def)

lemma inv_sampler:
  assumes "lk_inv L h st"
  shows "lk_inv L (\<lambda>d. h d @ new_reads d (Sampler c E) st) (snd (lk_step L (Sampler c E) st))"
proof (cases "c < 2 \<and> go_sem st c")
  case False
  have "new_reads d (Sampler c E) st = []" for d
    using False by (auto simp: const_simps)
  moreover have "snd (lk_step L (Sampler c E) st) = st"
    using False by (auto simp: sampler_thread_def const_simps)
  ultimately show ?thesis using assms by (auto simp: lk_inv_def)
next
  case True
  let ?mid = "st\<lparr>go_sem := (go_sem st)(c := False)\<rparr>"
  let ?st' = "snd (lk_step L (Sampler c E) st)"
  have st': "?st' = (sampler_pass L E c (tick_gen st) ?mid)\<lparr>done_sem := (done_sem st)(c := True)\<rparr>"
    using True by (simp add: sampler_thread_def const_simps Let_def frame_simps)
  have locals: "locals_ok ?st'"
    using assms unfolding st' by (simp add: lk_inv_def locals_ok_def frame_simps cong: cmp_pc.case_cong)
  have "channel_inv L (h d @ new_reads d (Sampler c E) st) d ?st'" if "d < 2" for d
  proof (cases "d = c")
    case True
    have "estop ?mid c = estop_run L (int c) (h c)"
      using assms that True by (simp add: lk_inv_def channel_inv_def)
    from sampler_pass_channel [OF this, of E] show ?thesis
      using True \<open>c < 2 \<and> go_sem st c\<close> unfolding st' by (simp add: channel_inv_def const_simps)
  next
    case False
    from assms that have "channel_inv L (h d) d st" by (simp add: lk_inv_def)
    with False sampler_pass_other [OF False, of L E "tick_gen st" ?mid] show ?thesis
      unfolding st' by (simp add: channel_inv_def handed_over_def frame_simps cong: cmp_pc.case_cong)
  qed
  with locals show ?thesis by (simp add: lk_inv_def)
qed

lemma inv_begin:
  assumes "lk_inv L h st"
  shows "lk_inv L h (comparator_begin L E st)"
proof -
  let ?b = "snd (begin_tick L E (te_uptime E) (st\<lparr>cmp_next := cmp_next st + PSTOP_TICK_MS\<rparr>))"
  have eq: "comparator_begin L E st = ?b
      \<lparr>done_sem := (done_sem st)(0 := False, 1 := False),
       go_sem := (go_sem st)(0 := True, 1 := True),
       cmp_at := AtTake 0 \<lparr>c_now_ms = te_uptime E, c_gen = tick_gen st + 1,
         c_deadline = sint (te_uptime E) + PSTOP_SAMPLER_DEADLINE_MS, c_late_mask = 0\<rparr>\<rparr>"
    by (simp add: comparator_begin_def Let_def case_prod_unfold ESTOP_CHANNELS_def
        numeral_2_eq_2 frame_simps)
  have "\<not> handed_over (comparator_begin L E st) c" if "c < 2" for c
    using that unfolding eq handed_over_def by auto
  with assms show ?thesis
    unfolding eq by (simp add: lk_inv_def channel_inv_def locals_ok_def frame_simps)
qed

lemma inv_take:
  assumes "lk_inv L h st" and "cmp_at st = AtTake k l"
  shows "lk_inv L h (comparator_take k l st)"
proof -
  have k: "k < 2" "c_gen l = tick_gen st" "c_now_ms l = tick_now_ms st"
    using assms by (simp_all add: lk_inv_def locals_ok_def)
  let ?st' = "comparator_take k l st"
  have same: "estop ?st' = estop st" "sampler_verdict ?st' = sampler_verdict st"
    "fresh L c ?st' = fresh L c st" for c
    by (simp_all add: comparator_take_def Let_def record_latency_def split: prod.split)
  have handed: "handed_over st c" if "handed_over ?st' c" "c < 2" for c
    using that assms(2) k
    by (auto simp: handed_over_def comparator_take_def Let_def record_latency_def ESTOP_CHANNELS_def
        bit_simps less_Suc_eq numeral_2_eq_2 split: prod.splits if_splits)
  have "locals_ok ?st'"
    using k by (auto simp: locals_ok_def comparator_take_def Let_def record_latency_def
        ESTOP_CHANNELS_def split: prod.splits)
  with assms(1) same handed show ?thesis
    by (auto simp: lk_inv_def channel_inv_def)
qed

lemma inv_finish:
  assumes "lk_inv L h st"
  shows "lk_inv L h (snd (comparator_finish L E l st))"
proof -
  let ?b = "\<lambda>by_ms. snd (run_tick_body L E (c_now_ms l) (c_gen l) (c_late_mask l) by_ms st)"
  have "estop (?b by_ms) = estop st \<and> sampler_verdict (?b by_ms) = sampler_verdict st" for by_ms
    by (simp add: run_tick_body_eq Let_def frame_simps record_late_def)
  with assms show ?thesis
    by (simp add: comparator_finish_def Let_def case_prod_unfold lk_inv_def channel_inv_def
        locals_ok_def handed_over_def)
qed

lemma inv_request:
  assumes "lk_inv L h st"
  shows "lk_inv L h (snd (pstop_lockstep_request_rebond slot st))"
    and "lk_inv L h (snd (pstop_lockstep_request_reconfigure slot st))"
  using assms
  by (simp_all add: pstop_lockstep_request_rebond_def pstop_lockstep_request_reconfigure_def
      lk_inv_def channel_inv_def locals_ok_def handed_over_def cong: cmp_pc.case_cong)

lemma inv_step:
  assumes "lk_inv L h st"
  shows "lk_inv L (\<lambda>c. h c @ new_reads c e st) (snd (lk_step L e st))"
proof (cases e)
  case (Comparator E)
  then show ?thesis
    using inv_begin [OF assms, of E] inv_take [OF assms] inv_finish [OF assms, of E]
    by (auto simp: comparator_thread_def split: cmp_pc.split)
next
  case (Sampler c E)
  then show ?thesis using inv_sampler [OF assms, of c E] by simp
qed (use inv_request [OF assms] in simp_all)

lemma inv_run:
  assumes "lk_inv L h st"
  shows "lk_inv L (\<lambda>c. h c @ lk_reads L c es st) (snd (mealy_run (lk_step L) es st))"
  using assms
proof (induction es arbitrary: h st)
  case Nil
  then show ?case by simp
next
  case (Cons e es)
  from Cons.IH [OF inv_step [OF Cons.prems, of e]] show ?case by simp
qed

lemma inv_boot_from:
  assumes "cmp_at st = AtTop"
  shows "lk_inv L (\<lambda>_. []) (snd (pstop_lockstep_init L E st))"
proof -
  let ?init = "snd (pstop_lockstep_init L E st)"
  have "\<forall>c < 2. estop ?init c = estop_state_init" "cmp_at ?init = AtTop"
    by (simp_all add: pstop_lockstep_init_def Let_def fold_keeps [where f = estop] assms
        fold_keeps [where f = cmp_at] frame_simps ESTOP_CHANNELS_def numeral_2_eq_2 less_Suc_eq)
  then show ?thesis
    by (simp add: lk_inv_def channel_inv_def locals_ok_def handed_over_def estop_run_def)
qed

lemma inv_boot: "lk_inv L (\<lambda>_. []) (snd (pstop_lockstep_init L E lockstep_zero))"
  by (rule inv_boot_from) (simp add: lockstep_zero_def)

section \<open>What has to hold for a transmission\<close>

lemma first_mismatch_None:
  "first_mismatch st = None \<longleftrightarrow>
     (\<forall>slot \<in> set (due_slots st). \<not> frames_differ (frames st 0 slot) (frames st 1 slot))"
  by (auto simp: first_mismatch_def find_None_iff_all due_slots_def)

lemma first_mismatch_Some:
  "first_mismatch st = Some slot \<Longrightarrow>
     slot \<in> set (due_slots st) \<and> frames_differ (frames st 0 slot) (frames st 1 slot)"
  by (auto simp: first_mismatch_def due_slots_def dest: find_Some_member)

lemma tx_from_body:
  assumes "Tx slot f \<in> set (fst (run_tick_body L E now gen late by_ms st))"
  shows "late = 0 \<and> samplers_published gen st \<and> estop_channels_primed (estop st) \<and>
    first_mismatch st = None \<and> slot \<in> set (due_slots st) \<and> f = frames st 0 slot"
  using assms
  by (auto simp: run_tick_body_eq Let_def comparator_pass_eq split: if_splits option.splits)

lemma tx_from_step:
  assumes "Tx slot f \<in> set (fst (lk_step L e st))"
  shows "\<exists>l. cmp_at st = AtBody l \<and> c_late_mask l = 0 \<and> samplers_published (c_gen l) st \<and>
    estop_channels_primed (estop st) \<and> first_mismatch st = None \<and>
    slot \<in> set (due_slots st) \<and> f = frames st 0 slot"
proof (cases e)
  case (Comparator E)
  with assms obtain l where l: "cmp_at st = AtBody l"
    and tx: "Tx slot f \<in> set (fst (comparator_finish L E l st))"
    by (auto simp: comparator_thread_def split: cmp_pc.splits)
  from tx obtain by_ms where
    "Tx slot f \<in> set (fst (run_tick_body L E (c_now_ms l) (c_gen l) (c_late_mask l) by_ms st))"
    by (auto simp: comparator_finish_def Let_def case_prod_unfold)
  from tx_from_body [OF this] l show ?thesis by blast
qed (use assms in auto)

text \<open>Both samplers' frames for a slot that transmits, as builds of this tick.\<close>

lemma tx_both_built:
  assumes "lib_frame_sized L" and inv: "lk_inv L h st"
    and "Tx slot f \<in> set (fst (lk_step L e st))" and "c < 2"
  shows "h c \<noteq> [] \<and> (\<exists>my_id. f = pstop_session_build L my_id (sessions st slot)
           (sampler_verdict st c) (tick_role st) (tick_now_ms st)) \<and> frames st c slot = f"
proof -
  from tx_from_step [OF assms(3)] obtain l where l: "cmp_at st = AtBody l" "c_late_mask l = 0"
    and due: "slot \<in> set (due_slots st)" and f: "f = frames st 0 slot"
    and agree: "\<not> frames_differ (frames st 0 slot) (frames st 1 slot)"
    by (auto simp: first_mismatch_None)
  have built: "h d \<noteq> [] \<and> (\<exists>my_id. frames st d slot = pstop_session_build L my_id (sessions st slot)
           (sampler_verdict st d) (tick_role st) (tick_now_ms st))" if "d < 2" for d
    using inv that due l by (auto simp: lk_inv_def channel_inv_def handed_over_def fresh_def due_slots_def)
  then have "length (frames st d slot) = 48" if "d < 2" for d
    using that build_length [OF assms(1)] by fastforce
  with agree have "frames st 0 slot = frames st 1 slot" by (simp add: not_differ_eq)
  with f have "frames st c slot = f" using \<open>c < 2\<close> by (auto simp: less_2_cases_iff)
  with built [OF \<open>c < 2\<close>] show ?thesis by auto
qed

text \<open>Verdicts and histories behind a transmitted OK.\<close>

lemma tx_ok_histories:
  assumes lib: "lib_codes_distinct L" "lib_codec_faithful L" "lib_frame_sized L"
    and inv: "lk_inv L h st" and tx: "Tx slot f \<in> set (fst (lk_step L e st))"
    and ok: "msg_message L (message_decode L f) = MSG_OK L" and "c < 2"
  shows "3 \<le> trailing loop_closed (h c)"
proof -
  from tx_both_built [OF lib(3) inv tx \<open>c < 2\<close>] obtain my_id where h: "h c \<noteq> []" and f:
    "f = pstop_session_build L my_id (sessions st slot) (sampler_verdict st c) (tick_role st)
       (tick_now_ms st)" by blast
  have "MSG_OK L \<noteq> MSG_BOND L" "MSG_OK L \<noteq> MSG_STOP L"
    using lib(1) by (auto simp: lib_codes_distinct_def)
  with carrier.agreement_carries [OF lib(2), of "(my_id, tick_role st, tick_now_ms st)"
      "sessions st slot" "sampler_verdict st c" "(my_id, tick_role st, tick_now_ms st)"] ok f
  have "sampler_verdict st c = MSG_OK L" by simp
  with inv h \<open>c < 2\<close> \<open>MSG_OK L \<noteq> MSG_STOP L\<close> show ?thesis
    by (auto simp: lk_inv_def channel_inv_def split: if_splits)
qed

section \<open>The two paths of a tick\<close>

text \<open>
  What only the threads use: the semaphores, where the comparator stands, its wake-up time
  and the latency statistics. Every operation of the tick commutes with changing it.
\<close>

definition residue ::
  "int \<Rightarrow> (nat \<Rightarrow> bool) \<Rightarrow> (nat \<Rightarrow> bool) \<Rightarrow> cmp_pc \<Rightarrow> (nat \<Rightarrow> u32) \<Rightarrow> lockstep \<Rightarrow> lockstep" where
  "residue n go dn pc lat st = st\<lparr>cmp_next := n, go_sem := go, done_sem := dn, cmp_at := pc,
     diag := (diag st)\<lparr>latency_max_ms := lat\<rparr>\<rparr>"

definition wire_view :: "lockstep \<Rightarrow> lockstep" where
  "wire_view = residue 0 (\<lambda>_. False) (\<lambda>_. False) AtTop (\<lambda>_. 0)"

lemma residue_reads [simp]:
  "sessions (residue n go dn pc lat st) = sessions st"
  "slot_active (residue n go dn pc lat st) = slot_active st"
  "estop (residue n go dn pc lat st) = estop st"
  "frames (residue n go dn pc lat st) = frames st"
  "tick_due (residue n go dn pc lat st) = tick_due st"
  "tick_now_ms (residue n go dn pc lat st) = tick_now_ms st"
  "tick_gen (residue n go dn pc lat st) = tick_gen st"
  "sampler_verdict (residue n go dn pc lat st) = sampler_verdict st"
  "sampler_gen (residue n go dn pc lat st) = sampler_gen st"
  "sampler_done_ms (residue n go dn pc lat st) = sampler_done_ms st"
  "tick_observer (residue n go dn pc lat st) = tick_observer st"
  "rebond_requests (residue n go dn pc lat st) = rebond_requests st"
  "reconfigure_requests (residue n go dn pc lat st) = reconfigure_requests st"
  "cmp_at (residue n go dn pc lat st) = pc"
  "go_sem (residue n go dn pc lat st) = go"
  "done_sem (residue n go dn pc lat st) = dn"
  by (simp_all add: residue_def)

lemma residue_residue [simp]:
  "residue n go dn pc lat (residue n' go' dn' pc' lat' st) = residue n go dn pc lat st"
  by (simp add: residue_def)

lemma residue_self: "residue (cmp_next st) (go_sem st) (done_sem st) (cmp_at st)
    (latency_max_ms (diag st)) st = st"
  by (simp add: residue_def)

lemma wire_view_residue [simp]: "wire_view (residue n go dn pc lat st) = wire_view st"
  by (simp add: wire_view_def)

lemma fold_commute:
  "(\<And>i s. body i (g s) = g (body i s)) \<Longrightarrow> fold body xs (g s) = g (fold body xs s)"
  by (induction xs arbitrary: s) simp_all

lemma slot_apply_residue:
  "snd (slot_apply_config L E slot (residue n go dn pc lat st)) =
     residue n go dn pc lat (snd (slot_apply_config L E slot st))"
  by (auto simp: slot_apply_config_def residue_def Let_def split: sum.split prod.split)

lemma begin_tick_residue:
  "snd (begin_tick L E now (residue n go dn pc lat st)) =
     residue n go dn pc lat (snd (begin_tick L E now st))"
proof -
  let ?g = "residue n go dn pc lat"
  have clear: "(?g st)\<lparr>reconfigure_requests := 0, rebond_requests := 0\<rparr> =
      ?g (st\<lparr>reconfigure_requests := 0, rebond_requests := 0\<rparr>)"
    by (simp add: residue_def)
  have conf: "fold (\<lambda>slot st. if bit w slot \<and> te_log_inf E then snd (slot_apply_config L E slot st) else st)
      xs (?g s) = ?g (fold (\<lambda>slot st. if bit w slot \<and> te_log_inf E
         then snd (slot_apply_config L E slot st) else st) xs s)" for w :: u32 and xs s
    by (rule fold_commute) (simp add: slot_apply_residue)
  show ?thesis
    unfolding begin_tick_def Let_def rebond_loop due_loop residue_reads(12,13) clear conf
    by (simp add: residue_def cong: if_cong)
qed

lemma sampler_pass_residue:
  "sampler_pass L E c gen (residue n go dn pc lat st) =
     residue n go dn pc lat (sampler_pass L E c gen st)"
  by (simp add: sampler_pass_eq Let_def residue_def cong: if_cong)

lemma run_tick_body_residue:
  "run_tick_body L E now gen late by_ms (residue n go dn pc lat st) =
     map_prod id (residue n go dn pc lat) (run_tick_body L E now gen late by_ms st)"
proof -
  let ?g = "residue n go dn pc lat"
  have "first_mismatch (?g st) = first_mismatch st" "due_slots (?g st) = due_slots st"
    by (simp_all add: first_mismatch_def due_slots_def)
  then have "comparator_pass E (?g st) = map_prod id ?g (comparator_pass E st)"
    by (auto simp: comparator_pass_eq residue_def record_mismatch_def cong: if_cong split: option.split)
  then show ?thesis
    by (auto simp: run_tick_body_eq Let_def samplers_published_def record_late_def residue_def
        cong: if_cong)
qed

text \<open>The steps of one undisturbed tick of the threads, each as the operation of the synchronous path.\<close>

lemma begin_as_residue:
  "\<exists>n go dn lat l. comparator_begin L E st =
     residue n go dn (AtTake 0 l) lat (snd (begin_tick L E (te_uptime E) st)) \<and>
     go 0 \<and> go 1 \<and> c_now_ms l = te_uptime E \<and> c_gen l = tick_gen st + 1 \<and> c_late_mask l = 0"
proof -
  let ?n = "cmp_next st + PSTOP_TICK_MS"
  have st: "st\<lparr>cmp_next := ?n\<rparr> =
      residue ?n (go_sem st) (done_sem st) (cmp_at st) (latency_max_ms (diag st)) st"
    by (simp add: residue_def)
  let ?l = "\<lparr>c_now_ms = te_uptime E, c_gen = tick_gen st + 1,
    c_deadline = sint (te_uptime E) + PSTOP_SAMPLER_DEADLINE_MS, c_late_mask = 0\<rparr>"
  have "comparator_begin L E st =
     residue ?n ((go_sem st)(0 := True, 1 := True)) ((done_sem st)(0 := False, 1 := False))
       (AtTake 0 ?l) (latency_max_ms (diag st)) (snd (begin_tick L E (te_uptime E) st))"
    by (simp add: comparator_begin_def Let_def case_prod_unfold ESTOP_CHANNELS_def numeral_2_eq_2
        st begin_tick_residue) (simp add: residue_def frame_simps)
  then show ?thesis
    by (intro exI conjI, assumption) simp_all
qed

lemma sampler_as_residue:
  assumes "go c"
  shows "sampler_thread L E c (residue n go dn pc lat st) =
     residue n (go(c := False)) (dn(c := True)) pc lat (sampler_pass L E c (tick_gen st) st)"
proof -
  have "(residue n go dn pc lat st)\<lparr>go_sem := go(c := False)\<rparr> = residue n (go(c := False)) dn pc lat st"
    by (simp add: residue_def)
  with assms show ?thesis
    by (simp add: sampler_thread_def Let_def sampler_pass_residue) (simp add: residue_def)
qed

lemma take_as_residue:
  assumes "dn c" and "c < 2"
  shows "\<exists>lat'. comparator_take c l (residue n go dn (AtTake c l) lat st) =
     residue n go (dn(c := False)) (if c = 0 then AtTake 1 l else AtBody l) lat' st"
proof -
  have "c = 0 \<or> c = 1" using assms(2) by auto
  with assms(1) show ?thesis
    by (intro exI [of _ "if lat c < sampler_done_ms st c - ucast (c_now_ms l)
          then lat(c := sampler_done_ms st c - ucast (c_now_ms l)) else lat"])
      (elim disjE; simp add: comparator_take_def record_latency_def ESTOP_CHANNELS_def residue_def)
qed

lemma turn_run:
  assumes "cmp_at st = AtTop"
  shows "\<exists>n go dn lat. mealy_run (lk_step L)
      [Comparator E, Sampler 0 E, Sampler 1 E, Comparator E, Comparator E, Comparator E] st =
    map_prod id (residue n go dn AtTop lat) (tick_sync L E (te_uptime E) 0 st) \<and>
    fst (lk_step L (Comparator E) (snd (mealy_run (lk_step L)
      [Comparator E, Sampler 0 E, Sampler 1 E, Comparator E, Comparator E] st))) =
    fst (tick_sync L E (te_uptime E) 0 st)"
proof -
  let ?b = "snd (begin_tick L E (te_uptime E) st)"
  let ?s0 = "sampler_pass L E 0 (tick_gen st + 1) ?b"
  let ?s1 = "sampler_pass L E 1 (tick_gen st + 1) ?s0"
  obtain n go dn lat l where bg: "comparator_begin L E st = residue n go dn (AtTake 0 l) lat ?b"
    and go: "go 0" "go 1"
    and l: "c_now_ms l = te_uptime E" "c_gen l = tick_gen st + 1" "c_late_mask l = 0"
    using begin_as_residue [of L E st] by blast
  have samples: "sampler_thread L E 1 (sampler_thread L E 0 (comparator_begin L E st)) =
      residue n (go(0 := False, 1 := False)) (dn(0 := True, 1 := True)) (AtTake 0 l) lat ?s1"
    using go by (simp add: bg sampler_as_residue frame_simps)
  obtain lat1 where take0: "comparator_take 0 l (residue n (go(0 := False, 1 := False))
      (dn(0 := True, 1 := True)) (AtTake 0 l) lat ?s1) =
      residue n (go(0 := False, 1 := False)) (dn(0 := False, 1 := True)) (AtTake 1 l) lat1 ?s1"
    using take_as_residue [of "dn(0 := True, 1 := True)" 0 l n "go(0 := False, 1 := False)" lat ?s1]
    by (auto simp: fun_upd_twist)
  obtain lat2 where take1: "comparator_take 1 l (residue n (go(0 := False, 1 := False))
      (dn(0 := False, 1 := True)) (AtTake 1 l) lat1 ?s1) =
      residue n (go(0 := False, 1 := False)) (dn(0 := False, 1 := False)) (AtBody l) lat2 ?s1"
    using take_as_residue [of "dn(0 := False, 1 := True)" 1 l n "go(0 := False, 1 := False)" lat1 ?s1]
    by auto
  have sync: "tick_sync L E (te_uptime E) 0 st = run_tick_body L E (te_uptime E) (tick_gen st + 1) 0 0 ?s1"
    by (simp add: tick_sync_def case_prod_unfold ESTOP_CHANNELS_def numeral_2_eq_2)
  have fin: "comparator_finish L E l (residue n go' dn' (AtBody l) lat2 ?s1) =
      map_prod id (residue n go' dn' AtTop lat2) (tick_sync L E (te_uptime E) 0 st)" for go' dn'
    using l by (simp add: comparator_finish_def Let_def case_prod_unfold run_tick_body_residue sync)
      (simp add: residue_def map_prod_def case_prod_unfold)
  have pc: "cmp_at (comparator_begin L E st) = AtTake 0 l" by (simp add: bg)
  have "mealy_run (lk_step L)
      [Comparator E, Sampler 0 E, Sampler 1 E, Comparator E, Comparator E, Comparator E] st =
    map_prod id (residue n (go(0 := False, 1 := False)) (dn(0 := False, 1 := False)) AtTop lat2)
      (tick_sync L E (te_uptime E) 0 st) \<and>
    fst (lk_step L (Comparator E) (snd (mealy_run (lk_step L)
      [Comparator E, Sampler 0 E, Sampler 1 E, Comparator E, Comparator E] st))) =
    fst (tick_sync L E (te_uptime E) 0 st)"
    using samples take0 take1 fin assms
    by (simp add: comparator_thread_def ESTOP_CHANNELS_def map_prod_def case_prod_unfold)
  then show ?thesis by blast
qed

section \<open>A concrete run\<close>

text \<open>
  Slot 0 is configured, both loops are closed and the machine answers the bond request of
  the third tick; the fourth tick heartbeats.
\<close>

definition demo_cfg :: app_settings where
  "demo_cfg = (settings_defaults FALLBACK_ID)\<lparr>cfg_peers := (\<lambda>_. peer_zero)(0 := demo_peer)\<rparr>"

definition demo_reply :: rx where
  "demo_reply = \<lparr>rx_n = 48,
     rx_buf = wire_encode (wire_msg0\<lparr>w_type := 0x55, w_stamp := 301, w_heartbeat := 200, w_counter := 1\<rparr>),
     rx_from = \<lparr>sin_addr = htonl 0x7F000001, sin_port = htons 8890\<rparr>\<rparr>"

definition demo_tick_env :: "u64 \<Rightarrow> tick_env" where
  "demo_tick_env now = \<lparr>te_cfg = demo_cfg, te_open = (\<lambda>_. demo_env), te_log_inf = True,
     te_id = (\<lambda>_. 9), te_reads = (\<lambda>_. (1, 0)), te_uptime = now, te_sendto = (\<lambda>_. (48, 0)),
     te_inbox = (\<lambda>slot. if slot = 0 \<and> now = 300 then [demo_reply] else [])\<rparr>"

definition demo_turn :: "u64 \<Rightarrow> lk_event list" where
  "demo_turn now = (let E = demo_tick_env now in
     [Comparator E, Sampler 0 E, Sampler 1 E, Comparator E, Comparator E, Comparator E])"

definition demo_boot :: lockstep where
  "demo_boot = snd (pstop_lockstep_init wire_lib (demo_tick_env 0) lockstep_zero)"

definition demo_events :: "lk_event list" where
  "demo_events = demo_turn 100 @ demo_turn 200 @ demo_turn 300 @ butlast (demo_turn 400)"

text \<open>What matters of the state between two ticks of this run.\<close>

definition demo_at :: "lockstep \<Rightarrow> pstop_session \<Rightarrow> estop_state \<Rightarrow> bool" where
  "demo_at st s es \<longleftrightarrow> cmp_at st = AtTop \<and> slot_active st = (\<lambda>i. i = 0) \<and> sessions st 0 = s \<and>
     estop st 0 = es \<and> estop st 1 = es \<and> rebond_requests st = 0 \<and> reconfigure_requests st = 0"

lemma demo_at_residue: "demo_at st s es \<Longrightarrow> demo_at (residue n go dn AtTop lat st) s es"
  by (simp add: demo_at_def)

lemma begin_tick_idle:
  assumes "rebond_requests st = 0" and "reconfigure_requests st = 0"
  shows "snd (begin_tick L E now st) = st\<lparr>tick_now_ms := now,
    tick_role := (if cfg_is_operator (te_cfg E) then PSTOP_AUX_ROLE_OPERATOR
                  else PSTOP_AUX_ROLE_STOP_ONLY),
    tick_due := (\<lambda>slot. if slot < PSTOP_MAX_MACHINES
       then slot_active st slot \<and> pstop_session_due (sessions st slot) now else tick_due st slot),
    tick_gen := tick_gen st + 1\<rparr>"
proof -
  have clear: "st\<lparr>reconfigure_requests := 0, rebond_requests := 0\<rparr> = st"
    by (rule lockstep.equality) (simp_all add: assms)
  have idle: "fold (\<lambda>slot s. s) xs s = s" for xs :: "nat list" and s :: lockstep
    by (induction xs) simp_all
  show ?thesis
    by (simp add: begin_tick_def Let_def rebond_loop due_loop assms clear idle cong: if_cong)
qed

lemma sample_core: "estop_channel_sample L core st r = estop_channel_sample L 0 st r"
  by (simp only: estop_channel_sample_eq estop_decide_channel)

lemma demo_tick:
  fixes now :: u64
  assumes at: "demo_at st s es"
    and v: "estop_channel_sample wire_lib 0 es (1, 0) = (v, es')"
  defines "sends \<equiv> settled es' \<and> pstop_session_due s now"
  shows "(sends \<longrightarrow> Tx 0 (pstop_session_build wire_lib 9 s v PSTOP_AUX_ROLE_STOP_ONLY now) \<in>
      set (fst (tick_sync wire_lib (demo_tick_env now) now 0 st))) \<and>
    demo_at (snd (tick_sync wire_lib (demo_tick_env now) now 0 st))
      (pstop_session_watchdog wire_lib (snd (pstop_session_poll wire_lib now
        (te_inbox (demo_tick_env now) 0)
        (if sends then snd (pstop_session_commit_send s 48 0 now) else s))) now) es'"
proof -
  have primed: "primed_high es'" "primed_low es'"
    using sample_sets_primed [of wire_lib 0 es "(1, 0)"] v by simp_all
  let ?E = "demo_tick_env now"
  define X where "X = fold (\<lambda>c. sampler_pass wire_lib ?E c (tick_gen st + 1)) [0..<ESTOP_CHANNELS]
    (snd (begin_tick wire_lib ?E now st))"
  have E: "te_reads ?E c = (1, 0)" "te_id ?E c = 9" "te_cfg ?E = demo_cfg"
    "te_sendto ?E c = (48, 0)" for c
    by (simp_all add: demo_tick_env_def)
  have role: "\<not> cfg_is_operator demo_cfg"
    by (simp add: demo_cfg_def settings_defaults_def)
  have act: "slot_active X = (\<lambda>i. i = 0)" and ses: "sessions X 0 = s"
    and es: "estop X 0 = es'" "estop X 1 = es'"
    and req: "rebond_requests X = 0" "reconfigure_requests X = 0"
    and pc: "cmp_at X = AtTop"
    and gen: "samplers_published (tick_gen st + 1) X" and now: "tick_now_ms X = now"
    and due: "tick_due X 0 = pstop_session_due s now"
    and fr: "pstop_session_due s now \<longrightarrow> (\<forall>c < 2. frames X c 0 =
      pstop_session_build wire_lib 9 s v PSTOP_AUX_ROLE_STOP_ONLY now)"
    using at v sample_core [of wire_lib 1 es]
    by (simp_all add: X_def begin_tick_idle demo_at_def sampler_pass_eq Let_def E role const_simps
        numeral_2_eq_2 published_all less_Suc_eq)
  have slots: "due_slots X = (if pstop_session_due s now then [0] else [])"
    using act due by (simp add: due_slots_def PSTOP_MAX_MACHINES_def upt_rec)
  have agree: "first_mismatch X = None"
    using fr by (simp add: first_mismatch_None slots frames_differ_def list_ex_iff)
  have primed': "estop_channels_primed (estop X) = settled es'"
    using es primed by (simp add: estop_channels_primed_def)
  have sync: "tick_sync wire_lib ?E now 0 st = run_tick_body wire_lib ?E now (tick_gen st + 1) 0 0 X"
    by (simp add: tick_sync_def case_prod_unfold X_def)
  have m: "(0::nat) < PSTOP_MAX_MACHINES" by (simp add: const_simps)
  have outs: "comparator_pass ?E X =
     (if \<not> settled es' then ([], X\<lparr>gated_ticks := gated_ticks X + 1\<rparr>)
      else (map (\<lambda>slot. Tx slot (frames X 0 slot)) (due_slots X),
           X\<lparr>sessions := (\<lambda>slot. if slot < PSTOP_MAX_MACHINES \<and> slot_active X slot \<and> tick_due X slot
                then snd (pstop_session_commit_send (sessions X slot) 48 0 (tick_now_ms X))
                else sessions X slot)\<rparr>))"
    unfolding comparator_pass_eq primed' agree by (simp add: E cong: if_cong)
  show ?thesis
    unfolding sync run_tick_body_eq Let_def outs
    using fr by (simp add: gen slots primed' demo_at_def act ses due es [simplified] req pc now m sends_def)
qed

lemma demo_init_at:
  assumes "cmp_at st = AtTop" and "rebond_requests st = 0" and "reconfigure_requests st = 0"
    and "slot_active st = (\<lambda>_. False)" and "sessions st = (\<lambda>_. session_zero)"
    and "estop st = (\<lambda>_. estop_state_init)"
  shows "demo_at (snd (pstop_lockstep_init wire_lib (demo_tick_env 0) st)) demo_session estop_state_init"
proof -
  have cfg: "app_settings_peer_get demo_cfg (int i) =
      (if i < 4 then Inr (if i = 0 then demo_peer else peer_zero) else Inl (- EINVAL))" for i
    by (simp add: app_settings_peer_get_def demo_cfg_def const_simps)
  have conf: "configured demo_peer" "\<not> configured peer_zero"
    by (simp_all add: demo_peer_def peer_zero_def)
  have open_ok: "pstop_session_open wire_lib demo_env (session_zero\<lparr>s_sock := -1\<rparr>) 0 demo_peer =
      (0, demo_session)"
    by (simp add: demo_session_def pstop_session_open_def demo_env_def session_zero_def const_simps)
  show ?thesis
    using assms
    by (simp add: pstop_lockstep_init_def slot_apply_config_def demo_at_def
        demo_tick_env_def cfg conf open_ok PSTOP_MAX_MACHINES_def ESTOP_CHANNELS_def
        Let_def upt_rec fun_eq_iff)
qed

lemma demo_boot_at: "demo_at demo_boot demo_session estop_state_init"
  unfolding demo_boot_def by (rule demo_init_at) (simp_all add: lockstep_zero_def)

lemma demo_turn_at:
  fixes now :: u64
  assumes "demo_at st s es" and "estop_channel_sample wire_lib 0 es (1, 0) = (v, es')"
  shows "demo_at (snd (mealy_run (lk_step wire_lib) (demo_turn now) st))
      (pstop_session_watchdog wire_lib (snd (pstop_session_poll wire_lib now
        (te_inbox (demo_tick_env now) 0)
        (if settled es' \<and> pstop_session_due s now
         then snd (pstop_session_commit_send s 48 0 now) else s))) now) es'"
proof -
  have up: "te_uptime (demo_tick_env now) = now" by (simp add: demo_tick_env_def)
  have "cmp_at st = AtTop" using assms(1) by (simp add: demo_at_def)
  from turn_run [OF this, of wire_lib "demo_tick_env now", unfolded up] obtain n go dn lat where
    "mealy_run (lk_step wire_lib) (demo_turn now) st =
      map_prod id (residue n go dn AtTop lat) (tick_sync wire_lib (demo_tick_env now) now 0 st)"
    by (auto simp: demo_turn_def Let_def)
  with demo_tick [OF assms, of now] show ?thesis
    by (simp add: demo_at_residue)
qed

text \<open>The channel and the session through the four ticks.\<close>

definition demo_channel :: "nat \<Rightarrow> estop_state" where
  "demo_channel n = \<lparr>high_ok = 0 < n, low_ok = 0 < n, primed_high = 0 < n, primed_low = 0 < n,
     closed_streak = of_nat n, open_streak = 0, settled = 3 \<le> n\<rparr>"

lemma demo_samples:
  "estop_state_init = demo_channel 0"
  "estop_channel_sample wire_lib 0 (demo_channel 0) (1, 0) = (0x92, demo_channel 1)"
  "estop_channel_sample wire_lib 0 (demo_channel 1) (1, 0) = (0x92, demo_channel 2)"
  "estop_channel_sample wire_lib 0 (demo_channel 2) (1, 0) = (0x55, demo_channel 3)"
  "estop_channel_sample wire_lib 0 (demo_channel 3) (1, 0) = (0x55, demo_channel 4)"
  by (simp_all add: demo_channel_def estop_state_init_def estop_channel_sample_eq
      estop_decide_def estop_live_msg_closed Let_def const_simps word_le_nat_alt)

definition demo_bonded :: pstop_session where
  "demo_bonded = demo_session\<lparr>s_state := PSTOP_SESS_BONDED, s_hb_ms := 200, s_last_send_ms := 300,
     s_last_reply_ms := 300, s_last_bond_ms := 300, s_sent := 1, s_replies := 1, s_last_msg := 0x55,
     s_proto := \<lparr>remote_id = 0x01020304, msg_counter = 1, last_received_stamp = 301,
                 last_received_counter = 1\<rparr>\<rparr>"

lemma demo_reply_accepted:
  "pstop_session_watchdog wire_lib (snd (pstop_session_poll wire_lib 300 [demo_reply]
     (snd (pstop_session_commit_send demo_session 48 0 300)))) 300 = demo_bonded"
proof -
  let ?m = "wire_msg0\<lparr>w_type := 0x55, w_stamp := 301, w_heartbeat := 200, w_counter := 1\<rparr>"
  have dec: "w_type (wire_decode (wire_encode ?m)) = 0x55"
    "w_counter (wire_decode (wire_encode ?m)) = 1"
    "w_stamp (wire_decode (wire_encode ?m)) = 301"
    "w_heartbeat (wire_decode (wire_encode ?m)) = 200"
    by (simp_all add: wire_defs le32_def le16_def get_le32_def)
  show ?thesis
    by (simp add: demo_reply_def rx_trusted_def wire_decode_encode dec session_accept_def
        pstop_session_commit_send_def demo_session_eq session_zero_def demo_bonded_def
        pstop_session_watchdog_def rebond_after_unat word_less_nat_alt const_simps wire_lib_def Let_def)
qed

lemma demo_at_four:
  assumes "demo_at st demo_session estop_state_init"
  shows "demo_at (snd (mealy_run (lk_step wire_lib) (demo_turn 100 @ demo_turn 200 @ demo_turn 300) st))
     demo_bonded (demo_channel 3)"
proof -
  have idle: "pstop_session_watchdog wire_lib (snd (pstop_session_poll wire_lib now
      (te_inbox (demo_tick_env now) 0) demo_session)) now = demo_session" if "now \<noteq> 300" for now
    using that by (simp add: demo_tick_env_def pstop_session_watchdog_def demo_session_eq session_zero_def)
  have open_: "\<not> settled (demo_channel 1)" "\<not> settled (demo_channel 2)" "settled (demo_channel 3)"
    by (simp_all add: demo_channel_def)
  let ?run = "\<lambda>now st. snd (mealy_run (lk_step wire_lib) (demo_turn now) st)"
  have one: "demo_at (?run 100 st) demo_session (demo_channel 1)"
    using demo_turn_at [OF assms [unfolded demo_samples(1)] demo_samples(2), of 100]
    by (simp add: open_ [simplified] idle)
  have two: "demo_at (?run 200 (?run 100 st)) demo_session (demo_channel 2)"
    using demo_turn_at [OF one demo_samples(3), of 200] by (simp add: open_ [simplified] idle)
  have due: "pstop_session_due demo_session 300"
    by (simp add: pstop_session_due_def demo_session_eq session_zero_def)
  have "te_inbox (demo_tick_env 300) 0 = [demo_reply]" by (simp add: demo_tick_env_def)
  then have "demo_at (?run 300 (?run 200 (?run 100 st))) demo_bonded (demo_channel 3)"
    using demo_turn_at [OF two demo_samples(4), of 300] due demo_reply_accepted
    by (simp add: open_ [simplified])
  then show ?thesis by (simp add: mealy_run_append)
qed

definition demo_ok_frame :: bytes where
  "demo_ok_frame = pstop_session_build wire_lib 9 demo_bonded 0x55 PSTOP_AUX_ROLE_STOP_ONLY 400"

lemma demo_sends_from:
  assumes "demo_at st demo_session estop_state_init"
  shows "Tx 0 demo_ok_frame \<in> set (fst (lk_step wire_lib (Comparator (demo_tick_env 400))
     (snd (mealy_run (lk_step wire_lib) demo_events st))))"
proof -
  let ?st = "snd (mealy_run (lk_step wire_lib) (demo_turn 100 @ demo_turn 200 @ demo_turn 300) st)"
  have up: "te_uptime (demo_tick_env 400) = 400" by (simp add: demo_tick_env_def)
  have top: "cmp_at ?st = AtTop" using demo_at_four [OF assms] by (simp add: demo_at_def)
  have due: "settled (demo_channel 4) \<and> pstop_session_due demo_bonded 400"
    by (simp add: demo_channel_def pstop_session_due_def demo_bonded_def word_le_nat_alt
        send_period_unat unat_ucast_u32_u64)
  have "Tx 0 demo_ok_frame \<in> set (fst (tick_sync wire_lib (demo_tick_env 400) 400 0 ?st))"
    using demo_tick [OF demo_at_four [OF assms] demo_samples(5), of 400] due
    by (simp add: demo_ok_frame_def)
  with turn_run [OF top, of wire_lib "demo_tick_env 400", unfolded up]
  have "Tx 0 demo_ok_frame \<in> set (fst (lk_step wire_lib (Comparator (demo_tick_env 400))
      (snd (mealy_run (lk_step wire_lib) (butlast (demo_turn 400)) ?st))))"
    by (simp only: demo_turn_def [of 400] Let_def butlast.simps list.simps if_False if_True) auto
  moreover have ev: "demo_events = (demo_turn 100 @ demo_turn 200 @ demo_turn 300) @ butlast (demo_turn 400)"
    by (simp add: demo_events_def)
  ultimately show ?thesis by (simp only: ev mealy_run_append snd_conv)
qed

lemma demo_sends_ok:
  "Tx 0 demo_ok_frame \<in> set (fst (lk_step wire_lib (Comparator (demo_tick_env 400))
     (snd (mealy_run (lk_step wire_lib) demo_events demo_boot))))"
  by (rule demo_sends_from [OF demo_boot_at])

lemma demo_ok_kind: "msg_message wire_lib (message_decode wire_lib demo_ok_frame) = MSG_OK wire_lib"
  by (simp add: demo_ok_frame_def build_type wire_lib_codec_faithful session_frame_type_def demo_bonded_def)

section \<open>Properties of the comparator\<close>

text \<open>
  The safety property of the remote. From boot, under every interleaving of the
  comparator, the two samplers and the requests of other threads, whatever the pins, the
  sockets and the network deliver: if a frame whose type is OK is handed to a socket, then
  each of the two stop-switch loops was read closed on at least its last three samples.
\<close>

lemma lockstep_ok_needs_closed_loops:
  assumes "lib_codes_distinct L" and "lib_codec_faithful L" and "lib_frame_sized L"
    and "st0 = snd (pstop_lockstep_init L E0 lockstep_zero)"
    and "Tx slot f \<in> set (fst (lk_step L e (snd (mealy_run (lk_step L) es st0))))"
    and "msg_message L (message_decode L f) = MSG_OK L"
  shows "3 \<le> trailing loop_closed (lk_reads L 0 es st0) \<and>
         3 \<le> trailing loop_closed (lk_reads L 1 es st0)"
proof -
  have inv: "lk_inv L (\<lambda>c. lk_reads L c es st0) (snd (mealy_run (lk_step L) es st0))"
    using inv_run [OF inv_boot [of L E0], of es] assms(4) by simp
  from tx_ok_histories [OF assms(1-3) inv assms(5,6)] show ?thesis by simp
qed

lemma lockstep_ok_needs_closed_loops_instance:
  "3 \<le> trailing loop_closed (lk_reads wire_lib 0 demo_events demo_boot) \<and>
   3 \<le> trailing loop_closed (lk_reads wire_lib 1 demo_events demo_boot)"
  by (rule lockstep_ok_needs_closed_loops [OF wire_lib_codes_distinct wire_lib_codec_faithful
        wire_lib_frame_sized demo_boot_def demo_sends_ok demo_ok_kind])

text \<open>
  C8. Nothing reaches a machine before both channels have settled: a frame handed to a
  socket, whatever its type, is byte for byte what both samplers encoded in this tick, and
  each channel's history already holds three consecutive closed or five consecutive open
  reads. The boot-priming STOP is never transmitted.
\<close>

theorem lockstep_tx_needs_agreement:
  assumes "lib_frame_sized L" and "st0 = snd (pstop_lockstep_init L E0 lockstep_zero)"
    and "st = snd (mealy_run (lk_step L) es st0)"
    and "Tx slot f \<in> set (fst (lk_step L e st))" and "c < 2"
  shows "frames st c slot = f \<and> sampler_gen st c = tick_gen st \<and>
    (\<exists>n \<le> length (lk_reads L c es st0).
       3 \<le> trailing loop_closed (take n (lk_reads L c es st0)) \<or>
       5 \<le> trailing (\<lambda>r. \<not> loop_closed r) (take n (lk_reads L c es st0)))"
proof -
  have inv: "lk_inv L (\<lambda>c. lk_reads L c es st0) st"
    using inv_run [OF inv_boot [of L E0], of es] assms(2,3) by simp
  from tx_from_step [OF assms(4)] obtain l where l: "cmp_at st = AtBody l"
    "samplers_published (c_gen l) st" "estop_channels_primed (estop st)" by blast
  then have "settled (estop st c)" and "sampler_gen st c = tick_gen st"
    using \<open>c < 2\<close> inv
    by (auto simp: estop_channels_primed_def less_2_cases_iff published_all lk_inv_def locals_ok_def)
  moreover have "estop st c = estop_run L (int c) (lk_reads L c es st0)"
    using inv \<open>c < 2\<close> by (simp add: lk_inv_def channel_inv_def)
  ultimately show ?thesis
    using tx_both_built [OF assms(1) inv assms(4,5)] chan.run_settled [where L = L and core = "int c"]
    by (simp add: estop_run_def)
qed

theorem lockstep_tx_needs_agreement_witness:
  "frames (snd (mealy_run (lk_step wire_lib) demo_events demo_boot)) 1 0 = demo_ok_frame"
  using lockstep_tx_needs_agreement [OF wire_lib_frame_sized demo_boot_def refl demo_sends_ok, of 1]
  by simp

text \<open>
  C13. The synchronous tick that the tests drive and one undisturbed tick of the three
  threads transmit the same frames, call the observer alike and leave the same state, up to
  the semaphores, the comparator's position and wake-up time, and the latency statistics.
\<close>

theorem lockstep_threads_as_sync:
  assumes "cmp_at st = AtTop" and "te_uptime E = now_ms"
  shows "let threaded = mealy_run (lk_step L)
           [Comparator E, Sampler 0 E, Sampler 1 E, Comparator E, Comparator E, Comparator E] st
         in fst threaded = fst (pstop_lockstep_tick L E now_ms st) \<and>
            wire_view (snd threaded) = wire_view (snd (pstop_lockstep_tick L E now_ms st))"
proof -
  obtain n go dn lat where "mealy_run (lk_step L)
      [Comparator E, Sampler 0 E, Sampler 1 E, Comparator E, Comparator E, Comparator E] st =
    map_prod id (residue n go dn AtTop lat) (tick_sync L E now_ms 0 st)"
    using turn_run [OF assms(1), of L E] assms(2) by blast
  then show ?thesis by (simp only: Let_def pstop_lockstep_tick_def) simp
qed

theorem lockstep_threads_as_sync_witness:
  "fst (mealy_run (lk_step wire_lib) (demo_turn 100) demo_boot) =
     fst (pstop_lockstep_tick wire_lib (demo_tick_env 100) 100 demo_boot)"
proof -
  have "cmp_at demo_boot = AtTop" using demo_boot_at by (simp add: demo_at_def)
  moreover have "te_uptime (demo_tick_env 100) = 100" by (simp add: demo_tick_env_def)
  ultimately show ?thesis
    using lockstep_threads_as_sync [of demo_boot "demo_tick_env 100" 100 wire_lib]
    by (simp only: demo_turn_def Let_def)
qed

subsection \<open>Silence\<close>

lemma scan_offset_first:
  assumes "frames_differ a b"
  shows "scan_offset a b 0 < PSTOP_MESSAGE_SIZE \<and>
    a ! scan_offset a b 0 \<noteq> b ! scan_offset a b 0 \<and>
    (\<forall>i < scan_offset a b 0. a ! i = b ! i)"
proof -
  from assms obtain j where j: "j < PSTOP_MESSAGE_SIZE" "a ! j \<noteq> b ! j"
    by (auto simp: frames_differ_def list_ex_iff)
  have "scan_offset a b k \<le> j \<and> a ! scan_offset a b k \<noteq> b ! scan_offset a b k \<and>
      (\<forall>i. k \<le> i \<longrightarrow> i < scan_offset a b k \<longrightarrow> a ! i = b ! i)" if "k \<le> j" for k
    using that
  proof (induction "j - k" arbitrary: k)
    case 0
    then have "k = j" by simp
    with j show ?case by (simp add: scan_offset.simps [of a b j])
  next
    case (Suc n)
    have IH: "scan_offset a b (Suc k) \<le> j \<and>
        a ! scan_offset a b (Suc k) \<noteq> b ! scan_offset a b (Suc k) \<and>
        (\<forall>i. Suc k \<le> i \<longrightarrow> i < scan_offset a b (Suc k) \<longrightarrow> a ! i = b ! i)"
      by (rule Suc.hyps(1)) (use Suc.hyps(2) in simp_all)
    have "k < PSTOP_MESSAGE_SIZE" using Suc.prems j(1) by simp
    then have eq: "scan_offset a b k = (if a ! k = b ! k then scan_offset a b (Suc k) else k)"
      by (simp add: scan_offset.simps [of a b k])
    show ?case
    proof (cases "a ! k = b ! k")
      case True
      have "\<forall>i. k \<le> i \<longrightarrow> i < scan_offset a b (Suc k) \<longrightarrow> a ! i = b ! i"
      proof (intro allI impI)
        fix i
        assume "k \<le> i" "i < scan_offset a b (Suc k)"
        with IH True show "a ! i = b ! i" by (cases "i = k") simp_all
      qed
      with IH True show ?thesis unfolding eq by simp
    next
      case False
      with Suc.prems show ?thesis unfolding eq by simp
    qed
  qed
  from this [of 0] j show ?thesis by auto
qed

text \<open>
  C9. A disagreement silences everything. With both channels settled, if the two encodings
  of any due slot differ, the comparator hands no frame of any slot to a socket, counts one
  mismatch, leaves every session untouched, and records the first disagreeing slot with the
  first byte (below 48) in which its frames differ.
\<close>

theorem lockstep_mismatch_silences:
  assumes "estop_channels_primed (estop st)"
    and "\<exists>slot \<in> set (due_slots st). frames_differ (frames st 0 slot) (frames st 1 slot)"
  shows "case comparator_pass E st of (outs, st') \<Rightarrow>
      outs = [] \<and> mismatches st' = mismatches st + 1 \<and> sessions st' = sessions st \<and>
      gated_ticks st' = gated_ticks st \<and> missed_deadlines st' = missed_deadlines st \<and>
      last_kind (diag st') = PSTOP_LOCKSTEP_EVENT_CONTENT \<and>
      (\<exists>slot off. slot \<in> set (due_slots st) \<and> off < 48 \<and>
         mismatch_slot (diag st') = of_nat slot \<and> mismatch_offset (diag st') = of_nat off \<and>
         frames st 0 slot ! off \<noteq> frames st 1 slot ! off \<and>
         (\<forall>i < off. frames st 0 slot ! i = frames st 1 slot ! i) \<and>
         (\<forall>s \<in> set (due_slots st). s < slot \<longrightarrow> \<not> frames_differ (frames st 0 s) (frames st 1 s)))"
proof -
  from assms(2) obtain slot where slot: "first_mismatch st = Some slot"
    by (metis first_mismatch_None option.exhaust)
  note found = first_mismatch_Some [OF slot]
  have earlier: "\<not> frames_differ (frames st 0 s) (frames st 1 s)"
    if s: "s \<in> set (due_slots st)" "s < slot" for s
  proof -
    from slot obtain i where i: "i < PSTOP_MAX_MACHINES" "slot = [0..<PSTOP_MAX_MACHINES] ! i"
      "\<forall>j < i. \<not> (slot_active st ([0..<PSTOP_MAX_MACHINES] ! j) \<and> tick_due st ([0..<PSTOP_MAX_MACHINES] ! j)
         \<and> frames_differ (frames st 0 ([0..<PSTOP_MAX_MACHINES] ! j)) (frames st 1 ([0..<PSTOP_MAX_MACHINES] ! j)))"
      by (auto simp: first_mismatch_def find_Some_iff)
    with s show ?thesis by (auto simp: due_slots_def)
  qed
  from scan_offset_first [OF conjunct2 [OF found]] found earlier slot assms(1) show ?thesis
    by (auto simp: comparator_pass_eq record_mismatch_def const_simps)
qed

text \<open>A bonded slot 0 with settled channels, on which the witnesses below run.\<close>

definition demo_live :: lockstep where
  "demo_live = lockstep_zero\<lparr>estop := (\<lambda>_. demo_channel 3), slot_active := (\<lambda>i. i = 0),
     tick_due := (\<lambda>i. i = 0), sessions := (\<lambda>_. demo_bonded)\<rparr>"

lemma demo_live_due: "due_slots (demo_live\<lparr>frames := fs\<rparr>) = [0]"
  by (simp add: demo_live_def due_slots_def PSTOP_MAX_MACHINES_def upt_rec)

theorem lockstep_mismatch_silences_witness:
  "case comparator_pass (demo_tick_env 400) (demo_live\<lparr>frames := (\<lambda>c _. replicate 48 (of_nat c))\<rparr>) of
     (outs, st') \<Rightarrow> outs = [] \<and> mismatches st' = 1 \<and> mismatch_slot (diag st') = 0"
proof -
  let ?st = "demo_live\<lparr>frames := (\<lambda>c _. replicate 48 (of_nat c))\<rparr>"
  have "estop_channels_primed (estop ?st)"
    by (simp add: demo_live_def estop_channels_primed_def demo_channel_def)
  moreover have "frames_differ (frames ?st 0 0) (frames ?st 1 0)"
    by (simp add: frames_differ_def list_ex_iff const_simps) (rule exI [of _ 0], simp)
  then have "\<exists>slot \<in> set (due_slots ?st). frames_differ (frames ?st 0 slot) (frames ?st 1 slot)"
    by (simp add: demo_live_due)
  moreover have "mismatches ?st = 0" by (simp add: demo_live_def lockstep_zero_def)
  ultimately show ?thesis
    using lockstep_mismatch_silences [of ?st "demo_tick_env 400"]
    by (auto simp: demo_live_due)
qed

text \<open>
  Lateness silences everything. When a sampler missed the window, or its stamp is not
  the generation of this tick, the tick hands no frame to a socket, does not call the
  observer, compares nothing, counts one missed deadline, and the recorded mask names
  exactly the samplers that were late or stale.
\<close>

lemma lockstep_late_silences:
  assumes "late \<noteq> 0 \<or> (\<exists>c < 2. sampler_gen st c \<noteq> gen)"
  shows "case run_tick_body L E now_ms gen late by_ms st of (outs, st') \<Rightarrow>
      outs = [] \<and> missed_deadlines st' = missed_deadlines st + 1 \<and>
      mismatches st' = mismatches st \<and> gated_ticks st' = gated_ticks st \<and>
      last_kind (diag st') = PSTOP_LOCKSTEP_EVENT_TIMEOUT \<and>
      (\<forall>c. bit (late_mask (diag st')) c \<longleftrightarrow> bit late c \<or> (c < 2 \<and> sampler_gen st c \<noteq> gen))"
proof -
  have "\<not> (late = 0 \<and> samplers_published gen st)" using assms by (auto simp: published_all)
  then show ?thesis
    by (auto simp: run_tick_body_eq Let_def record_late_def late_bits)
qed

lemma lockstep_late_silences_instance:
  "fst (run_tick_body wire_lib (demo_tick_env 400) 400 0 2 5 demo_live) = []"
  using lockstep_late_silences [of 2 demo_live 0 wire_lib "demo_tick_env 400" 400 5]
  by (simp add: case_prod_unfold)

text \<open>
  C10. A press reaches the machines. With settled channels, a tick whose two samplers both
  read an open loop and announce the same device id sends, to every due slot whose session
  is bonded, a frame of type STOP, in that same tick.
\<close>

theorem lockstep_stop_in_one_tick:
  assumes "lib_codec_faithful L" and "settled (estop st 0)" and "settled (estop st 1)"
    and "te_id E 0 = te_id E 1"
    and "\<not> loop_closed (te_reads E 0)" and "\<not> loop_closed (te_reads E 1)"
    and "slot \<in> set (due_slots (snd (begin_tick L E now_ms st)))"
    and "s_state (sessions (snd (begin_tick L E now_ms st)) slot) = PSTOP_SESS_BONDED"
  shows "\<exists>f. Tx slot f \<in> set (fst (pstop_lockstep_tick L E now_ms st)) \<and>
           msg_message L (message_decode L f) = MSG_STOP L"
proof -
  define B where "B = snd (begin_tick L E now_ms st)"
  define X where "X = sampler_pass L E 1 (tick_gen st + 1) (sampler_pass L E 0 (tick_gen st + 1) B)"
  have es: "estop B = estop st" by (simp add: B_def frame_simps)
  have stop: "fst (estop_channel_sample L (int c) (estop st c) (te_reads E c)) = MSG_STOP L" if "c < 2" for c
    using assms(5,6) that by (auto simp: chan.step_verdict less_2_cases_iff)
  have X: "sessions X = sessions B" "due_slots X = due_slots B" "tick_observer X = tick_observer B"
    "samplers_published (tick_gen st + 1) X" "tick_now_ms X = tick_now_ms B"
    by (auto simp: X_def sampler_pass_eq Let_def due_slots_def published_all less_2_cases_iff)
  have built: "frames X c s = pstop_session_build L (te_id E 0) (sessions B s) (MSG_STOP L)
      (tick_role B) (tick_now_ms B)" if "s \<in> set (due_slots B)" "c < 2" for c s
    using that stop [of 0] stop [of 1] assms(4)
    by (auto simp: X_def sampler_pass_eq Let_def due_slots_def es less_2_cases_iff)
  have tick: "pstop_lockstep_tick L E now_ms st = run_tick_body L E now_ms (tick_gen st + 1) 0 0 X"
    by (simp add: pstop_lockstep_tick_def tick_sync_def case_prod_unfold ESTOP_CHANNELS_def
        numeral_2_eq_2 X_def B_def)
  have "estop_channels_primed (estop X)"
    using assms(2,3) by (simp add: X_def sampler_pass_eq Let_def es estop_channels_primed_def
        sample_settled_mono)
  moreover have "first_mismatch X = None"
    unfolding first_mismatch_None X(2)
    using built by (auto simp: frames_differ_def list_ex_iff)
  ultimately have sent: "fst (pstop_lockstep_tick L E now_ms st) =
      map (\<lambda>slot. Tx slot (frames X 0 slot)) (due_slots B) @
      (if tick_observer B then [Observed (tick_gen st + 1) (sampler_verdict X 0) (sampler_verdict X 1)] else [])"
    using X by (simp add: tick run_tick_body_eq Let_def comparator_pass_eq)
  have slot: "slot \<in> set (due_slots B)" and bonded: "s_state (sessions B slot) = PSTOP_SESS_BONDED"
    using assms(7,8) by (simp_all add: B_def)
  have "msg_message L (message_decode L (frames X 0 slot)) = MSG_STOP L"
    using built [OF slot, of 0] bonded by (simp add: build_type [OF assms(1)] session_frame_type_def)
  with sent slot show ?thesis by (intro exI [of _ "frames X 0 slot"]) auto
qed

theorem lockstep_stop_in_one_tick_witness:
  "\<exists>f. Tx 0 f \<in> set (fst (pstop_lockstep_tick wire_lib
        ((demo_tick_env 400)\<lparr>te_reads := (\<lambda>_. (0, 0))\<rparr>) 400 demo_live)) \<and>
     msg_message wire_lib (message_decode wire_lib f) = MSG_STOP wire_lib"
proof -
  let ?E = "(demo_tick_env 400)\<lparr>te_reads := (\<lambda>_. (0, 0))\<rparr>"
  have req: "rebond_requests demo_live = 0" "reconfigure_requests demo_live = 0"
    by (simp_all add: demo_live_def lockstep_zero_def)
  have due: "pstop_session_due demo_bonded 400"
    by (simp add: pstop_session_due_def demo_bonded_def word_le_nat_alt send_period_unat
        unat_ucast_u32_u64)
  have "0 \<in> set (due_slots (snd (begin_tick wire_lib ?E 400 demo_live)))"
    "s_state (sessions (snd (begin_tick wire_lib ?E 400 demo_live)) 0) = PSTOP_SESS_BONDED"
    using due by (simp_all add: begin_tick_idle [OF req] due_slots_def const_simps)
      (simp_all add: demo_live_def demo_bonded_def)
  moreover have "settled (estop demo_live 0)" "settled (estop demo_live 1)"
    by (simp_all add: demo_live_def demo_channel_def)
  moreover have "te_id ?E 0 = te_id ?E 1" by (simp add: demo_tick_env_def)
  ultimately show ?thesis
    using lockstep_stop_in_one_tick [OF wire_lib_codec_faithful, of demo_live ?E 0 400]
    by (simp add: loop_closed_def)
qed

end
