(* ===== verification/Boot.thy ===== *)
theory Boot
  imports Api_Effects Leds Lockstep_Safety
begin

text \<open>
  The start of the firmware (\<open>protective_stop/src/main.c\<close>): \<open>main\<close> brings the components up
  in their order, gives up at the first failure the stop function cannot live without, and then
  paces the wear counters and the log of the comparator's counters. The pieces of state that
  the components keep are together the record \<open>remote\<close>; the answers of the hardware and
  the subsystems are the record \<open>boot_env\<close>; what is switched on is the output.
\<close>

section \<open>The running remote\<close>

record 'f remote =
  rm_server :: "'f server"
  rm_uplink :: uplink
  rm_leds :: "leds option"
  rm_last :: "u32 \<times> u32 \<times> u32"

definition remote_device :: "'f remote \<Rightarrow> 'f device" where
  "remote_device rm = sv_device (rm_server rm)"

definition put_device :: "'f device \<Rightarrow> 'f remote \<Rightarrow> 'f remote" where
  "put_device d rm = rm\<lparr>rm_server := (rm_server rm)\<lparr>sv_device := d\<rparr>\<rparr>"

record boot_env =
  be_hwinfo :: "(int \<times> bytes) option"
  be_health_blob :: "bytes option"
  be_steq :: "string \<Rightarrow> string \<Rightarrow> bool \<times> string option"
  be_uptime :: int
  be_save_ret :: int
  be_gpio :: "gpio_results list"
  be_tick :: tick_env
  be_uplink_build :: uplink_build
  be_ifs :: "nat \<Rightarrow> net_if"
  be_if_count :: nat
  be_wifi_iface :: bool
  be_leds :: leds_board
  be_http :: bool
  be_http_ret :: int
  be_max_clients :: nat

datatype boot_out =
    SetLogLevel nat int
  | HealthSaved bytes
  | ThreadsStarted
  | DhcpStarted nat
  | WifiScheduled
  | LedTaskStarted
  | ServerStarted

section \<open>Bringing the components up\<close>

text \<open>The items stored under \<open>pstop_health\<close>: the encoded counters, once they have been saved.\<close>

definition stored_items :: "bytes option \<Rightarrow> item list" where
  "stored_items blob = (case blob of None \<Rightarrow> [] | Some b \<Rightarrow> [(''counters'', length b, Some b)])"

definition DEFAULT_MACHINE_IP :: u32 where [const_simps]: "DEFAULT_MACHINE_IP = 0x7F000001"
definition DEFAULT_MACHINE_PORT :: u16 where [const_simps]: "DEFAULT_MACHINE_PORT = 8890"
definition DEFAULT_MACHINE_ID :: u32 where [const_simps]: "DEFAULT_MACHINE_ID = 0x01020304"

text \<open>Without a provisioned peer in slot 0 the built-in one is written; a failed write is ignored.\<close>

definition provision_default ::
  "'f settings_backend \<Rightarrow> 'f \<Rightarrow> app_settings \<Rightarrow> 'f \<times> app_settings" where
  "provision_default S f cfg =
     (case app_settings_peer_get cfg 0 of
        Inl _ \<Rightarrow> (f, cfg)
      | Inr peer0 \<Rightarrow>
          if configured peer0 then (f, cfg)
          else snd (app_settings_set_peer S f cfg 0 DEFAULT_MACHINE_IP DEFAULT_MACHINE_PORT
                      DEFAULT_MACHINE_ID))"

text \<open>
  The static storage of the other translation units when the threads are about to start;
  no request has been taken yet and the supervisor has not run.
\<close>

definition device_at_start ::
  "'f \<Rightarrow> app_settings \<Rightarrow> lockstep \<Rightarrow> bytes option \<Rightarrow> health \<Rightarrow> bytes list \<Rightarrow> bool \<Rightarrow>
     (nat \<times> int) list \<Rightarrow> 'f device" where
  "device_at_start f cfg ls blob h blobs verbose levels =
     put_health blobs h
       \<lparr>d_store = f, d_cfg = cfg, d_lockstep = ls, d_health = h, d_health_blob = blob,
        d_locate_until = 0, d_wifi = wifi_static, d_verbose = verbose,
        d_log_levels = map_of (rev levels)\<rparr>"

text \<open>The part of \<open>main\<close> after the comparator's threads run: no result of it is fatal.\<close>

definition start_services ::
  "boot_env \<Rightarrow> 'f device \<Rightarrow> boot_out list \<times> 'f remote" where
  "start_services E d =
     (let (_, dhcp, up) = uplink_init (be_uplink_build E) (be_ifs E) (be_if_count E)
                            \<lparr>eth_iface = None, wifi_iface = None\<rparr>;
          (_, scheduled) = pstop_wifi_start (be_wifi_iface E);
          (_, leds) = leds_start (be_leds E) (pstop_lockstep_mismatches (d_lockstep d));
          served = (be_http E \<and> pstop_http_start (be_http_ret E) = 0)
      in (map DhcpStarted dhcp @ (if scheduled then [WifiScheduled] else []) @
          (if leds = None then [] else [LedTaskStarted]) @ (if served then [ServerStarted] else []),
          \<lparr>rm_server = \<lparr>sv_reqs = replicate (be_max_clients E) req_zero, sv_device = d, sv_restart = False\<rparr>,
           rm_uplink = up, rm_leds = leds, rm_last = (0, 0, 0)\<rparr>))"

definition main_init ::
  "('m, 'f) api_build \<Rightarrow> boot_env \<Rightarrow> 'f \<Rightarrow> boot_out list \<times> (int + 'f remote)" where
  "main_init B E f =
     (let (levels, verbose) = pstop_verbose_init (ab_verbose B) (ab_log_sources B) False;
          o1 = map (\<lambda>(i, level). SetLogLevel i level) levels;
          (ret, cfg) = app_settings_init (ab_backend B) f (be_hwinfo E)
      in if ret \<noteq> 0 then (o1, Inl ret)
         else let (f, cfg) = provision_default (ab_backend B) f cfg;
                  (_, blobs, h) = health_init (ab_health_cfg B) (be_steq E) (stored_items (be_health_blob E))
                                    (ab_fw_id B) (be_uptime E) (be_save_ret E) health_zero;
                  o2 = o1 @ map HealthSaved blobs;
                  ls = pstop_lockstep_set_tick_observer True lockstep_zero;
                  ret = estop_gpio_init (be_gpio E)
              in if ret \<noteq> 0 then (o2, Inl ret)
                 else let (ret, ls) = pstop_lockstep_init (ab_lib B) ((be_tick E)\<lparr>te_cfg := cfg\<rparr>) ls
                      in if ret \<noteq> 0 then (o2, Inl ret)
                         else let (ret, ls) = pstop_lockstep_start (be_uptime E) ls
                              in if ret \<noteq> 0 then (o2, Inl ret)
                                 else let (o3, rm) = start_services E
                                        (device_at_start f cfg ls (be_health_blob E) h blobs verbose levels)
                                      in (o2 @ [ThreadsStarted] @ o3, Inr rm))"

section \<open>The loop\<close>

definition COUNTER_LOG_PERIOD_MS :: int where [const_simps]: "COUNTER_LOG_PERIOD_MS = 5000"

datatype main_out =
    CountersSaved bytes
  | LockstepHealth u32 u32 u32 u8 u32 u32

text \<open>One round after the sleep: the counters are polled, and a change of the comparator's is logged.\<close>

definition main_loop_pass ::
  "health_cfg \<Rightarrow> int \<Rightarrow> int \<Rightarrow> 'f remote \<Rightarrow> main_out list \<times> 'f remote" where
  "main_loop_pass K now save_ret rm =
     (let d = remote_device rm;
          (blobs, h) = health_poll K now save_ret (d_health d);
          d = put_health blobs h d;
          ls = d_lockstep d;
          seen = (pstop_lockstep_mismatches ls, pstop_lockstep_gated_ticks ls,
                  pstop_lockstep_missed_deadlines ls);
          diag = pstop_lockstep_diag_get ls;
          log = (if seen \<noteq> rm_last rm
                 then [LockstepHealth (fst seen) (fst (snd seen)) (snd (snd seen)) (late_mask diag)
                         (latency_max_ms diag 0) (latency_max_ms diag 1)]
                 else [])
      in (map CountersSaved blobs @ log, (put_device d rm)\<lparr>rm_last := seen\<rparr>))"

section \<open>What a start leads to\<close>

text \<open>The device the threads start on, written out.\<close>

definition booted_cfg :: "('m, 'f) api_build \<Rightarrow> boot_env \<Rightarrow> 'f \<Rightarrow> 'f \<times> app_settings" where
  "booted_cfg B E f = provision_default (ab_backend B) f (snd (app_settings_init (ab_backend B) f (be_hwinfo E)))"

definition booted_lockstep :: "('m, 'f) api_build \<Rightarrow> boot_env \<Rightarrow> 'f \<Rightarrow> lockstep" where
  "booted_lockstep B E f = snd (pstop_lockstep_start (be_uptime E)
     (snd (pstop_lockstep_init (ab_lib B) ((be_tick E)\<lparr>te_cfg := snd (booted_cfg B E f)\<rparr>)
        (pstop_lockstep_set_tick_observer True lockstep_zero))))"

definition booted_device :: "('m, 'f) api_build \<Rightarrow> boot_env \<Rightarrow> 'f \<Rightarrow> 'f device" where
  "booted_device B E f =
     (let (levels, verbose) = pstop_verbose_init (ab_verbose B) (ab_log_sources B) False;
          (_, blobs, h) = health_init (ab_health_cfg B) (be_steq E) (stored_items (be_health_blob E))
                            (ab_fw_id B) (be_uptime E) (be_save_ret E) health_zero
      in device_at_start (fst (booted_cfg B E f)) (snd (booted_cfg B E f)) (booted_lockstep B E f)
           (be_health_blob E) h blobs verbose levels)"

lemma lockstep_starts:
  "fst (pstop_lockstep_init L E st) = 0" "fst (pstop_lockstep_start t st) = 0"
  by (simp_all add: pstop_lockstep_init_def pstop_lockstep_start_def Let_def)

lemma main_init_cases:
  "snd (main_init B E f) =
     (if fst (app_settings_init (ab_backend B) f (be_hwinfo E)) \<noteq> 0
      then Inl (fst (app_settings_init (ab_backend B) f (be_hwinfo E)))
      else if estop_gpio_init (be_gpio E) \<noteq> 0 then Inl (estop_gpio_init (be_gpio E))
      else Inr (snd (start_services E (booted_device B E f))))"
  by (simp add: main_init_def Let_def case_prod_unfold lockstep_starts booted_device_def
      booted_lockstep_def booted_cfg_def)

lemma main_init_outputs:
  "set (fst (main_init B E f)) \<subseteq> {SetLogLevel i l |i l. True} \<union> range HealthSaved \<or>
     fst (app_settings_init (ab_backend B) f (be_hwinfo E)) = 0 \<and> estop_gpio_init (be_gpio E) = 0 \<and>
     ThreadsStarted \<in> set (fst (main_init B E f))"
  by (auto simp: main_init_def Let_def case_prod_unfold lockstep_starts)

lemma start_services_remote:
  "remote_device (snd (start_services E d)) = d"
  "sv_reqs (rm_server (snd (start_services E d))) = replicate (be_max_clients E) req_zero"
  by (simp_all add: start_services_def Let_def case_prod_unfold remote_device_def)

lemma booted_device_fields:
  "d_store (booted_device B E f) = fst (booted_cfg B E f)"
  "d_cfg (booted_device B E f) = snd (booted_cfg B E f)"
  "d_lockstep (booted_device B E f) = booted_lockstep B E f"
  by (simp_all add: booted_device_def device_at_start_def put_health_def Let_def case_prod_unfold)

lemma booted_inv: "lk_inv L (\<lambda>_. []) (booted_lockstep B E f)" if "L = ab_lib B"
proof -
  have "cmp_at (pstop_lockstep_set_tick_observer True lockstep_zero) = AtTop"
    by (simp add: pstop_lockstep_set_tick_observer_def lockstep_zero_def)
  from inv_boot_from [OF this, of L] show ?thesis
    by (simp add: booted_lockstep_def pstop_lockstep_start_def lk_inv_def channel_inv_def locals_ok_def
        handed_over_def fresh_def that)
qed

text \<open>The default peer is one setter call, so the settings leave the start as they would be loaded.\<close>

lemma provision_setters: "by_setters S (f, cfg) (provision_default S f cfg)"
  by (cases "app_settings_set_peer S f cfg 0 DEFAULT_MACHINE_IP DEFAULT_MACHINE_PORT DEFAULT_MACHINE_ID")
    (auto simp: provision_default_def intro: setter_steps split: sum.split)

lemma booted_settings:
  assumes "backend_lawful (ab_backend B)" and "store_sane (ab_backend B) f"
    and "fst (app_settings_init (ab_backend B) f (be_hwinfo E)) = 0"
  defines "d \<equiv> booted_device B E f"
  shows "store_sane (ab_backend B) (d_store d) \<and>
    reload_settings (ab_backend B) (derive_device_id (be_hwinfo E)) (d_store d) = d_cfg d \<and>
    nets_ok (d_cfg d)"
proof -
  let ?S = "ab_backend B"
  have "subsys_init ?S f = 0 \<and> load_ret ?S f = 0"
    using assms(3) by (auto simp: app_settings_init_def Let_def split: if_splits)
  then have "snd (app_settings_init ?S f (be_hwinfo E)) = reload_settings ?S (derive_device_id (be_hwinfo E)) f"
    by (simp add: init_reloads)
  then have "by_setters ?S (f, reload_settings ?S (derive_device_id (be_hwinfo E)) f) (d_store d, d_cfg d)"
    using provision_setters [of ?S f "reload_settings ?S (derive_device_id (be_hwinfo E)) f"]
    by (simp add: d_def booted_device_fields booted_cfg_def)
  from by_setters_keep [OF assms(1) this assms(2) refl reload_nets_ok] show ?thesis .
qed

lemma gpio_init_zero:
  "estop_gpio_init gs = 0 \<longleftrightarrow>
     list_all (\<lambda>g. out_ready g \<and> in_ready g \<and> out_configure g = 0 \<and> in_configure g = 0) gs"
  by (induction gs) (auto simp: const_simps)

section \<open>Properties of the start\<close>

text \<open>
  C7. The start is all or nothing for the stop function. If the settings do not load or a
  stop-switch pin cannot be set up, \<open>main\<close> returns that error and has started no thread, no
  network, no LED and no server; otherwise every pin is configured and the comparator's threads
  run, whatever the counters, the uplink, the WiFi, the LEDs and the control plane answered.
\<close>

theorem boot_all_or_nothing:
  "case snd (main_init B E f) of
     Inl ret \<Rightarrow> ret \<noteq> 0 \<and>
       ret = (if fst (app_settings_init (ab_backend B) f (be_hwinfo E)) = 0 then estop_gpio_init (be_gpio E)
              else fst (app_settings_init (ab_backend B) f (be_hwinfo E))) \<and>
       set (fst (main_init B E f)) \<subseteq> {SetLogLevel i l |i l. True} \<union> range HealthSaved
   | Inr rm \<Rightarrow> fst (app_settings_init (ab_backend B) f (be_hwinfo E)) = 0 \<and>
       list_all (\<lambda>g. out_ready g \<and> in_ready g \<and> out_configure g = 0 \<and> in_configure g = 0) (be_gpio E) \<and>
       ThreadsStarted \<in> set (fst (main_init B E f))"
  using main_init_cases [of B E f] main_init_outputs [of B E f]
  by (auto simp: gpio_init_zero main_init_def Let_def case_prod_unfold lockstep_starts split: sum.split)

end
