(* ===== verification/Remote.thy ===== *)
theory Remote
  imports Boot
begin

text \<open>
  The running remote as a whole. The threads of the firmware share the state that
  \<open>Boot\<close> puts together: the comparator and the samplers of \<open>lockstep.c\<close>, the HTTP server's
  thread in \<open>http_server.c\<close>, the main loop of \<open>main.c\<close>, the supervisor of \<open>wifi.c\<close>, the LED
  task of \<open>leds.c\<close> and the delayed restart. A step of the remote is one turn of one of them,
  with what the surroundings deliver in that turn; what one component reads of another is taken
  from the shared state: the comparator and the LEDs read the settings the control plane wrote,
  the supervisor yields to the uplink, the comparator's observer counts presses.
\<close>

section \<open>Events\<close>

datatype sys_event =
    ComparatorTurn tick_env
  | SamplerTurn nat tick_env
  | HttpCallback "nat \<Rightarrow> net_if" callback
  | MainPass int int
  | WifiPass "nat \<Rightarrow> net_if" wifi_env
  | LedFrame "nat \<Rightarrow> net_if" leds_env
  | RestartWork int int

datatype sys_out =
    OfLockstep lk_out
  | OfHttp int http_response_ctx
  | OfMain main_out
  | OfWifi wifi_out
  | OfLeds led_out

text \<open>The image, with the network build and the LEDs of the board.\<close>

record ('m, 'f) firmware =
  fw_image :: "('m, 'f) image"
  fw_uplink :: uplink_build
  fw_leds :: leds_board

abbreviation fw_lib :: "('m, 'f) firmware \<Rightarrow> 'm pstop_lib" where
  "fw_lib F \<equiv> ab_lib (im_api (fw_image F))"

section \<open>Turns\<close>

definition with_settings :: "'f remote \<Rightarrow> tick_env \<Rightarrow> tick_env" where
  "with_settings rm E = E\<lparr>te_cfg := d_cfg (remote_device rm)\<rparr>"

text \<open>The observer hook: \<open>health.c\<close> sees each tick the comparator compared.\<close>

definition observe_out :: "'m pstop_lib \<Rightarrow> lk_out \<Rightarrow> health \<Rightarrow> health" where
  "observe_out L out h = (case out of Tx slot f \<Rightarrow> h | Observed gen v0 v1 \<Rightarrow> observe (MSG_STOP L) gen v0 v1 h)"

definition lockstep_turn :: "('m, 'f) firmware \<Rightarrow> lk_event \<Rightarrow> 'f remote \<Rightarrow> sys_out list \<times> 'f remote" where
  "lockstep_turn F e rm =
     (let d = remote_device rm; (outs, ls) = lk_step (fw_lib F) e (d_lockstep d)
      in (map OfLockstep outs,
          put_device (d\<lparr>d_lockstep := ls, d_health := fold (observe_out (fw_lib F)) outs (d_health d)\<rparr>) rm))"

definition http_turn ::
  "('m, 'f) firmware \<Rightarrow> (nat \<Rightarrow> net_if) \<Rightarrow> callback \<Rightarrow> 'f remote \<Rightarrow> sys_out list \<times> 'f remote" where
  "http_turn F ifs cb rm =
     (let up = uplink_status_get (fw_uplink F) ifs (rm_uplink rm);
          cb = cb\<lparr>cb_now := (cb_now cb)\<lparr>an_uplink := up\<rparr>\<rparr>;
          ((ret, ctx), sv) = route_handler (fw_image F) cb (rm_server rm)
      in ([OfHttp ret ctx], rm\<lparr>rm_server := sv\<rparr>))"

definition wifi_turn ::
  "('m, 'f) firmware \<Rightarrow> (nat \<Rightarrow> net_if) \<Rightarrow> wifi_env \<Rightarrow> 'f remote \<Rightarrow> sys_out list \<times> 'f remote" where
  "wifi_turn F ifs E rm =
     (let d = remote_device rm;
          E = E\<lparr>we_cfg := d_cfg d, we_ethernet_ready := uplink_ethernet_ready (fw_uplink F) ifs (rm_uplink rm)\<rparr>;
          (outs, w) = supervise E (d_wifi d)
      in (map OfWifi outs, put_device (d\<lparr>d_wifi := w\<rparr>) rm))"

definition led_turn ::
  "('m, 'f) firmware \<Rightarrow> (nat \<Rightarrow> net_if) \<Rightarrow> leds_env \<Rightarrow> 'f remote \<Rightarrow> sys_out list \<times> 'f remote" where
  "led_turn F ifs E rm =
     (case rm_leds rm of None \<Rightarrow> ([], rm)
      | Some leds \<Rightarrow>
          (let d = remote_device rm; up = uplink_status_get (fw_uplink F) ifs (rm_uplink rm);
               E = E\<lparr>le_lockstep := d_lockstep d, le_cfg := d_cfg d, le_uplink := up, le_pixel_uplink := up,
                     le_locate_until := d_locate_until d\<rparr>;
               (outs, leds) = leds_thread (fw_lib F) (fw_leds F) E leds
           in (map OfLeds outs, rm\<lparr>rm_leds := Some leds\<rparr>)))"

fun sys_step :: "('m, 'f) firmware \<Rightarrow> sys_event \<Rightarrow> 'f remote \<Rightarrow> sys_out list \<times> 'f remote" where
  "sys_step F (ComparatorTurn E) rm = lockstep_turn F (Comparator (with_settings rm E)) rm"
| "sys_step F (SamplerTurn c E) rm = lockstep_turn F (Sampler c (with_settings rm E)) rm"
| "sys_step F (HttpCallback ifs cb) rm = http_turn F ifs cb rm"
| "sys_step F (MainPass now ret) rm =
     (case main_loop_pass (ab_health_cfg (im_api (fw_image F))) now ret rm of
        (outs, rm) \<Rightarrow> (map OfMain outs, rm))"
| "sys_step F (WifiPass ifs E) rm = wifi_turn F ifs E rm"
| "sys_step F (LedFrame ifs E) rm = led_turn F ifs E rm"
| "sys_step F (RestartWork now ret) rm = ([], put_device (restart_work_fn now ret (remote_device rm)) rm)"

text \<open>The comparator's state in a remote, and the reads its samplers performed along a run.\<close>

abbreviation remote_lockstep :: "'f remote \<Rightarrow> lockstep" where
  "remote_lockstep rm \<equiv> d_lockstep (remote_device rm)"

fun sys_new_reads :: "nat \<Rightarrow> sys_event \<Rightarrow> 'f remote \<Rightarrow> (int \<times> int) list" where
  "sys_new_reads c (SamplerTurn d E) rm = new_reads c (Sampler d E) (remote_lockstep rm)"
| "sys_new_reads c _ rm = []"

fun sys_reads :: "('m, 'f) firmware \<Rightarrow> nat \<Rightarrow> sys_event list \<Rightarrow> 'f remote \<Rightarrow> (int \<times> int) list" where
  "sys_reads F c [] rm = []"
| "sys_reads F c (e # es) rm = sys_new_reads c e rm @ sys_reads F c es (snd (sys_step F e rm))"

section \<open>Every turn seen from the settings and the comparator\<close>

text \<open>
  A turn either is a turn of the comparator's threads, which leaves the settings alone, or has
  an effect in the sense of \<open>Api_Effects\<close>.
\<close>

lemma put_device_device [simp]: "remote_device (put_device d rm) = d"
  by (simp add: remote_device_def put_device_def)

lemma lockstep_turn_device:
  "d_store (remote_device (snd (lockstep_turn F e rm))) = d_store (remote_device rm)"
  "d_cfg (remote_device (snd (lockstep_turn F e rm))) = d_cfg (remote_device rm)"
  "remote_lockstep (snd (lockstep_turn F e rm)) = snd (lk_step (fw_lib F) e (remote_lockstep rm))"
  "OfLockstep out \<in> set (fst (lockstep_turn F e rm)) \<longleftrightarrow> out \<in> set (fst (lk_step (fw_lib F) e (remote_lockstep rm)))"
  by (auto simp: lockstep_turn_def Let_def case_prod_unfold)

lemma http_turn_serve:
  "remote_device (snd (http_turn F ifs cb rm)) = sv_device (serve (fw_image F)
     (cb\<lparr>cb_now := (cb_now cb)\<lparr>an_uplink := uplink_status_get (fw_uplink F) ifs (rm_uplink rm)\<rparr>\<rparr>) (rm_server rm))"
  by (simp add: http_turn_def Let_def case_prod_unfold remote_device_def serve_def)

definition lk_of :: "sys_event \<Rightarrow> 'f remote \<Rightarrow> lk_event option" where
  "lk_of e rm = (case e of ComparatorTurn E \<Rightarrow> Some (Comparator (with_settings rm E))
     | SamplerTurn c E \<Rightarrow> Some (Sampler c (with_settings rm E)) | _ \<Rightarrow> None)"

lemma sys_step_lockstep: "lk_of e rm = Some le \<Longrightarrow> sys_step F e rm = lockstep_turn F le rm"
  by (cases e) (auto simp: lk_of_def)

lemma sys_step_effect:
  assumes "lk_of e rm = None" and "nets_ok (d_cfg (remote_device rm))"
  shows "effect (im_api (fw_image F)) (remote_device rm) (remote_device (snd (sys_step F e rm)))"
proof (cases e)
  case (HttpCallback ifs cb)
  with serve_effect [of "rm_server rm" "fw_image F"] assms(2) show ?thesis
    by (simp add: http_turn_serve) (simp add: remote_device_def)
next
  case (LedFrame ifs E)
  then show ?thesis
    by (simp add: led_turn_def Let_def case_prod_unfold remote_device_def split: option.split)
qed (use assms(1) in \<open>auto simp: lk_of_def main_loop_pass_def Let_def case_prod_unfold effect_def put_health_def
      wifi_turn_def restart_work_fn_def remote_device_def put_device_def\<close>)

lemma sys_step_quiet:
  "lk_of e rm = None \<Longrightarrow> OfLockstep out \<notin> set (fst (sys_step F e rm))"
  by (cases e) (auto simp: lk_of_def http_turn_def wifi_turn_def led_turn_def Let_def case_prod_unfold
      split: option.split)

lemma sys_new_reads_lk:
  "sys_new_reads c e rm = (case lk_of e rm of None \<Rightarrow> [] | Some le \<Rightarrow> new_reads c le (remote_lockstep rm))"
  by (cases e) (simp_all add: lk_of_def with_settings_def)

section \<open>Invariants of the whole\<close>

definition stored_inv :: "('m, 'f) firmware \<Rightarrow> u32 \<Rightarrow> 'f remote \<Rightarrow> bool" where
  "stored_inv F derived rm \<longleftrightarrow>
     (let S = ab_backend (im_api (fw_image F)); d = remote_device rm in
      store_sane S (d_store d) \<and> reload_settings S derived (d_store d) = d_cfg d \<and> nets_ok (d_cfg d))"

lemma lk_inv_words:
  "lk_inv L h (ls\<lparr>rebond_requests := a, reconfigure_requests := b\<rparr>) \<longleftrightarrow> lk_inv L h ls"
  by (cases "cmp_at ls") (simp_all add: lk_inv_def channel_inv_def locals_ok_def handed_over_def fresh_def)

lemma lk_inv_asked: "asked ls ls' \<Longrightarrow> lk_inv L h ls \<Longrightarrow> lk_inv L h ls'"
  by (metis asked_words lk_inv_words)

lemma setters_nets_ok:
  "nets_ok (snd s) \<Longrightarrow> \<forall>op \<in> set ops. op_ok op \<Longrightarrow> nets_ok (snd (fold (settings_apply S) ops s))"
  by (induction ops arbitrary: s) (simp_all add: settings_apply_nets_ok)

lemma sys_step_nets:
  assumes "nets_ok (d_cfg (remote_device rm))"
  shows "nets_ok (d_cfg (remote_device (snd (sys_step F e rm))))"
proof (cases "lk_of e rm")
  case None
  from sys_step_effect [OF None assms, of F] obtain ops where "\<forall>op \<in> set ops. op_ok op"
    "d_cfg (remote_device (snd (sys_step F e rm))) =
       snd (fold (settings_apply (ab_backend (im_api (fw_image F)))) ops (d_store (remote_device rm), d_cfg (remote_device rm)))"
    unfolding effect_def by_setters_def by (metis snd_conv)
  with assms show ?thesis by (simp add: setters_nets_ok)
next
  case (Some le)
  then show ?thesis by (simp add: sys_step_lockstep lockstep_turn_device assms)
qed

lemma sys_step_inv:
  assumes "lk_inv (fw_lib F) h (remote_lockstep rm)" and "nets_ok (d_cfg (remote_device rm))"
  shows "lk_inv (fw_lib F) (\<lambda>c. h c @ sys_new_reads c e rm) (remote_lockstep (snd (sys_step F e rm)))"
proof (cases "lk_of e rm")
  case None
  with sys_step_effect [OF None assms(2), of F] assms(1) show ?thesis
    by (auto simp: sys_new_reads_lk effect_def intro: lk_inv_asked)
next
  case (Some le)
  with inv_step [OF assms(1), of le] show ?thesis
    by (simp add: sys_new_reads_lk sys_step_lockstep lockstep_turn_device)
qed

lemma sys_run_inv:
  assumes "lk_inv (fw_lib F) h (remote_lockstep rm)" and "nets_ok (d_cfg (remote_device rm))"
  shows "lk_inv (fw_lib F) (\<lambda>c. h c @ sys_reads F c es rm) (remote_lockstep (snd (mealy_run (sys_step F) es rm))) \<and>
    nets_ok (d_cfg (remote_device (snd (mealy_run (sys_step F) es rm))))"
  using assms
proof (induction es arbitrary: h rm)
  case (Cons e es)
  from Cons.IH [OF sys_step_inv [OF Cons.prems] sys_step_nets [OF Cons.prems(2)]] show ?case by simp
qed simp

lemma sys_step_stored:
  assumes "backend_lawful (ab_backend (im_api (fw_image F)))" and "stored_inv F derived rm"
  shows "stored_inv F derived (snd (sys_step F e rm))"
proof (cases "lk_of e rm")
  case None
  let ?d = "remote_device rm" and ?d' = "remote_device (snd (sys_step F e rm))"
  have "by_setters (ab_backend (im_api (fw_image F))) (d_store ?d, d_cfg ?d) (d_store ?d', d_cfg ?d')"
    using sys_step_effect [OF None, of F] assms(2) by (simp add: stored_inv_def Let_def effect_def)
  from by_setters_keep [OF assms(1) this, of derived] assms(2) show ?thesis
    by (simp add: stored_inv_def Let_def)
next
  case (Some le)
  with assms(2) show ?thesis by (simp add: stored_inv_def sys_step_lockstep lockstep_turn_device Let_def)
qed

lemma sys_run_stored:
  assumes "backend_lawful (ab_backend (im_api (fw_image F)))" and "stored_inv F derived rm"
  shows "stored_inv F derived (snd (mealy_run (sys_step F) es rm))"
  using assms(2) by (induction es arbitrary: rm) (simp_all add: sys_step_stored [OF assms(1)])

section \<open>From the start\<close>

lemma booted_remote:
  assumes "main_init (im_api (fw_image F)) E f = (outs, Inr rm)"
  shows "remote_device rm = booted_device (im_api (fw_image F)) E f"
    and "fst (app_settings_init (ab_backend (im_api (fw_image F))) f (be_hwinfo E)) = 0"
  using main_init_cases [of "im_api (fw_image F)" E f] assms
  by (auto simp: start_services_remote split: if_splits)

lemma booted_nets_ok:
  assumes "fst (app_settings_init S f hw) = 0"
  shows "nets_ok (snd (provision_default S f (snd (app_settings_init S f hw))))"
proof -
  have "subsys_init S f = 0 \<and> load_ret S f = 0"
    using assms by (auto simp: app_settings_init_def Let_def split: if_splits)
  then have "nets_ok (snd (app_settings_init S f hw))" by (simp add: init_reloads reload_nets_ok)
  then show ?thesis
    by (auto simp: provision_default_def app_settings_set_peer_def store_peer_def nets_ok_def
        split: sum.split prod.split)
qed

lemma booted_sys_inv:
  assumes "main_init (im_api (fw_image F)) E f = (outs, Inr rm)"
  shows "lk_inv (fw_lib F) (\<lambda>_. []) (remote_lockstep rm)" and "nets_ok (d_cfg (remote_device rm))"
  using booted_inv [OF refl, of "im_api (fw_image F)" E f] booted_nets_ok [OF booted_remote(2) [OF assms]]
  by (simp_all add: booted_remote(1) [OF assms] booted_device_fields booted_cfg_def)

lemma booted_stored:
  assumes "main_init (im_api (fw_image F)) E f = (outs, Inr rm)"
    and "backend_lawful (ab_backend (im_api (fw_image F)))" and "store_sane (ab_backend (im_api (fw_image F))) f"
  shows "stored_inv F (derive_device_id (be_hwinfo E)) rm"
  using booted_settings [OF assms(2,3) booted_remote(2) [OF assms(1)]]
  by (simp add: stored_inv_def booted_remote(1) [OF assms(1)] Let_def)

end
