(* ===== verification/Remote_Peers.thy ===== *)
theory Remote_Peers
  imports Remote
begin

text \<open>
  The path from the control plane to the wire. The peer table is written by the HTTP thread
  (\<open>api.c\<close>, \<open>app_settings.c\<close>) and read by the comparator (\<open>lockstep.c\<close>) when it serves
  the reconfigure request at the top of a tick. Between the two, a slot either has a request
  pending or talks to exactly the machine the table names.
\<close>

section \<open>Whom a slot talks to\<close>

definition target :: "lockstep \<Rightarrow> nat \<Rightarrow> bool \<times> sockaddr_in \<times> u32" where
  "target ls slot = (slot_active ls slot, s_peer_addr (sessions ls slot), s_peer_id (sessions ls slot))"

definition peer_addr :: "pstop_peer \<Rightarrow> sockaddr_in" where
  "peer_addr p = \<lparr>sin_addr = htonl (peer_ip p), sin_port = htons (peer_port p)\<rparr>"

definition slot_follows :: "app_settings \<Rightarrow> lockstep \<Rightarrow> nat \<Rightarrow> bool" where
  "slot_follows cfg ls slot \<longleftrightarrow> (case target ls slot of (active, addr, pid) \<Rightarrow>
     active \<longrightarrow> configured (cfg_peers cfg slot) \<and> addr = peer_addr (cfg_peers cfg slot) \<and>
       pid = peer_id (cfg_peers cfg slot))"

definition followed :: "app_settings \<Rightarrow> lockstep \<Rightarrow> bool" where
  "followed cfg ls \<longleftrightarrow> (\<forall>slot < 4. bit (reconfigure_requests ls) slot \<or> slot_follows cfg ls slot)"

lemma follows_by_target: "target ls' slot = target ls slot \<Longrightarrow> slot_follows cfg ls' slot = slot_follows cfg ls slot"
  by (simp add: slot_follows_def)

lemma session_target [simp]:
  "s_peer_addr (snd (pstop_session_commit_send s n err now)) = s_peer_addr s"
  "s_peer_id (snd (pstop_session_commit_send s n err now)) = s_peer_id s"
  "s_peer_addr (pstop_session_rebond L s) = s_peer_addr s"
  "s_peer_id (pstop_session_rebond L s) = s_peer_id s"
  "s_peer_addr (pstop_session_watchdog L s now) = s_peer_addr s"
  "s_peer_id (pstop_session_watchdog L s now) = s_peer_id s"
  "s_peer_addr (snd (pstop_session_poll L now rxs s)) = s_peer_addr s"
  by (simp_all add: pstop_session_commit_send_def pstop_session_rebond_def pstop_session_watchdog_def
      Let_def frame_simps)

lemma poll_peer_id [simp]: "s_peer_id (snd (pstop_session_poll L now rxs s)) = s_peer_id s"
  by (induction L now rxs s rule: pstop_session_poll.induct) (auto simp: frame_simps)

section \<open>Serving the requests\<close>

lemma slot_apply_target_other:
  "slot' \<noteq> slot \<Longrightarrow> target (snd (slot_apply_config L E slot st)) slot' = target st slot'"
  by (simp add: slot_apply_config_def target_def Let_def split: sum.split prod.split)

text \<open>A failing socket call leaves a nonzero \<open>errno\<close>.\<close>

definition opens_report :: "tick_env \<Rightarrow> bool" where
  "opens_report E \<longleftrightarrow> (\<forall>slot. (socket_ret (te_open E slot) < 0 \<longrightarrow> socket_errno (te_open E slot) \<noteq> 0) \<and>
     ((\<exists>port. bind_ret (te_open E slot) port < 0) \<longrightarrow> bind_errno (te_open E slot) \<noteq> 0))"

lemma opens_report_cfg [simp]: "opens_report (E\<lparr>te_cfg := c\<rparr>) = opens_report E"
  by (simp add: opens_report_def)

lemma open_target:
  "opens_report E \<Longrightarrow> pstop_session_open L (te_open E k) s slot peer = (0, s') \<Longrightarrow>
     s_peer_addr s' = peer_addr peer \<and> s_peer_id s' = peer_id peer"
  by (auto simp: pstop_session_open_def Let_def peer_addr_def const_simps opens_report_def split: if_splits)

lemma slot_apply_follows:
  assumes "te_cfg E = cfg" and "opens_report E" and "slot < 4"
  shows "slot_follows cfg (snd (slot_apply_config L E slot st)) slot"
proof -
  have "app_settings_peer_get cfg (int slot) = Inr (cfg_peers cfg slot)"
    using assms(3) by (simp add: app_settings_peer_get_def const_simps)
  with assms(1,2) show ?thesis
    by (auto simp: slot_apply_config_def slot_follows_def target_def Let_def
        dest: open_target split: prod.split)
qed

lemma reconfigure_loop:
  assumes "te_cfg E = cfg" and "opens_report E" and "slot_follows cfg st k \<or> (k \<in> set slots \<and> bit r k \<and> te_log_inf E)"
    and "\<forall>slot \<in> set slots. slot < 4"
  shows "slot_follows cfg (fold (\<lambda>slot st. if bit (r :: u32) slot \<and> te_log_inf E
      then snd (slot_apply_config L E slot st) else st) slots st) k"
  using assms(3,4)
proof (induction slots arbitrary: st)
  case (Cons slot slots)
  let ?st' = "if bit r slot \<and> te_log_inf E then snd (slot_apply_config L E slot st) else st"
  have "slot_follows cfg ?st' k \<or> (k \<in> set slots \<and> bit r k \<and> te_log_inf E)"
  proof (cases "slot = k \<and> bit r k \<and> te_log_inf E")
    case True
    with Cons.prems(2) slot_apply_follows [OF assms(1,2), of k L st] show ?thesis by simp
  next
    case False
    with Cons.prems(1) have "slot_follows cfg st k \<or> (k \<in> set slots \<and> bit r k \<and> te_log_inf E)" by auto
    moreover have "target ?st' k = target st k"
      using False slot_apply_target_other [of k slot L E st] by auto
    ultimately show ?thesis using follows_by_target by metis
  qed
  from Cons.IH [OF this] Cons.prems(2) show ?case by simp
qed auto

text \<open>A request for a configured slot whose socket opens makes the slot live.\<close>

definition opens :: "tick_env \<Rightarrow> nat \<Rightarrow> bool" where
  "opens E slot \<longleftrightarrow> 0 \<le> socket_ret (te_open E slot) \<and> (\<forall>port. 0 \<le> bind_ret (te_open E slot) port)"

definition live_for :: "pstop_peer \<Rightarrow> bool \<times> sockaddr_in \<times> u32" where
  "live_for peer = (True, peer_addr peer, peer_id peer)"

lemma slot_apply_live:
  assumes "slot < 4" and "configured (cfg_peers (te_cfg E) slot)" and "opens E slot"
  shows "target (snd (slot_apply_config L E slot st)) slot = live_for (cfg_peers (te_cfg E) slot)"
proof -
  have "app_settings_peer_get (te_cfg E) (int slot) = Inr (cfg_peers (te_cfg E) slot)"
    using assms(1) by (simp add: app_settings_peer_get_def const_simps)
  moreover have "\<not> socket_ret (te_open E slot) < 0" "\<not> bind_ret (te_open E slot) port < 0" for port
    using assms(3) by (simp_all add: opens_def not_less)
  ultimately show ?thesis
    using assms(1,2)
    by (simp add: slot_apply_config_def target_def live_for_def Let_def pstop_session_open_def const_simps
        peer_addr_def)
qed

lemma reconfigure_loop_live:
  assumes "k < 4" and "configured (cfg_peers (te_cfg E) k)" and "opens E k" and "bit r k" and "te_log_inf E"
    and "k \<in> set slots \<or> target st k = live_for (cfg_peers (te_cfg E) k)"
  shows "target (fold (\<lambda>slot st. if bit (r :: u32) slot \<and> te_log_inf E
      then snd (slot_apply_config L E slot st) else st) slots st) k = live_for (cfg_peers (te_cfg E) k)"
  using assms(6)
proof (induction slots arbitrary: st)
  case (Cons slot slots)
  let ?st' = "if bit r slot \<and> te_log_inf E then snd (slot_apply_config L E slot st) else st"
  have "k \<in> set slots \<or> target ?st' k = live_for (cfg_peers (te_cfg E) k)"
    using slot_apply_live [OF assms(1-3), of L st] slot_apply_target_other [of k slot L E st] assms(4,5) Cons.prems
    by (cases "slot = k") auto
  from Cons.IH [OF this] show ?case by simp
qed simp

text \<open>What the top of a tick does after the requests are served.\<close>

lemma begin_rest_target:
  "target ((fold (\<lambda>slot st. st\<lparr>tick_due := (tick_due st)(slot :=
         slot_active st slot \<and> pstop_session_due (sessions st slot) now)\<rparr>) [0..<n]
       ((fold (\<lambda>slot st. if slot_active st slot \<and> bit (w :: u32) slot
          then st\<lparr>sessions := (sessions st)(slot := pstop_session_rebond L (sessions st slot))\<rparr> else st)
          [0..<m] st)\<lparr>tick_now_ms := now, tick_role := role\<rparr>))\<lparr>tick_gen := g\<rparr>) k = target st k"
  unfolding rebond_loop due_loop by (simp add: target_def)

lemma begin_tick_follows:
  assumes "te_cfg E = cfg" and "opens_report E" and "te_log_inf E" and "followed cfg st" and "k < 4"
  shows "slot_follows cfg (snd (begin_tick L E now st)) k"
proof -
  let ?r = "reconfigure_requests st"
  let ?st1 = "fold (\<lambda>slot st. if bit ?r slot \<and> te_log_inf E
      then snd (slot_apply_config L E slot st) else st) [0..<PSTOP_MAX_MACHINES]
      (st\<lparr>reconfigure_requests := 0, rebond_requests := 0\<rparr>)"
  have start: "target (st\<lparr>reconfigure_requests := 0, rebond_requests := 0\<rparr>) k = target st k"
    by (simp add: target_def)
  have "slot_follows cfg ?st1 k"
    by (rule reconfigure_loop [OF assms(1,2)])
      (use assms(3-5) follows_by_target [OF start] in \<open>auto simp: followed_def const_simps\<close>)
  moreover have "target (snd (begin_tick L E now st)) k = target ?st1 k"
    unfolding begin_tick_def Let_def snd_conv by (rule begin_rest_target)
  ultimately show ?thesis by (simp only: slot_follows_def)
qed

section \<open>The comparator's threads keep it\<close>

lemma comparator_pass_target: "target (snd (comparator_pass E st)) k = target st k"
  by (simp add: comparator_pass_eq record_mismatch_def target_def split: option.split)

lemma run_tick_body_target: "target (snd (run_tick_body L E now gen late by_ms st)) k = target st k"
proof -
  have late: "target (record_late E m b (st\<lparr>missed_deadlines := n\<rparr>)) k = target st k" for m b n
    by (simp add: record_late_def target_def)
  have close: "target (st'\<lparr>sessions := (\<lambda>slot. if P slot then pstop_session_watchdog L
      (snd (pstop_session_poll L now (te_inbox E slot) (sessions st' slot))) now else sessions st' slot)\<rparr>) k =
      target st' k" for st' :: lockstep and P
    by (simp add: target_def)
  show ?thesis
    unfolding run_tick_body_eq Let_def snd_conv close
    by (simp add: late comparator_pass_target)
qed

lemma followed_by_targets:
  "(\<And>k. target ls' k = target ls k) \<Longrightarrow> reconfigure_requests ls' = reconfigure_requests ls \<Longrightarrow>
     followed cfg ls \<Longrightarrow> followed cfg ls'"
  by (auto simp: followed_def slot_follows_def)

lemma lk_step_followed:
  assumes "followed cfg ls" and "\<And>E. e = Comparator E \<Longrightarrow> te_cfg E = cfg \<and> opens_report E \<and> te_log_inf E"
    and "\<And>s. e \<noteq> RequestRebond s \<and> e \<noteq> RequestReconfigure s"
  shows "followed cfg (snd (lk_step L e ls))"
proof (cases e)
  case (Comparator E)
  show ?thesis
  proof (cases "cmp_at ls")
    case AtTop
    let ?b = "snd (begin_tick L E (te_uptime E) (ls\<lparr>cmp_next := cmp_next ls + PSTOP_TICK_MS\<rparr>))"
    have "followed cfg (ls\<lparr>cmp_next := cmp_next ls + PSTOP_TICK_MS\<rparr>)"
      by (rule followed_by_targets [OF _ _ assms(1)]) (simp_all add: target_def)
    then have "slot_follows cfg ?b k" if "k < 4" for k
      using begin_tick_follows [of E cfg _ k L "te_uptime E"] assms(2) [OF Comparator] that by blast
    then have "followed cfg ?b" by (simp add: followed_def)
    moreover have "target (snd (lk_step L e ls)) k = target ?b k"
      "reconfigure_requests (snd (lk_step L e ls)) = reconfigure_requests ?b" for k
      by (simp_all add: Comparator AtTop comparator_thread_def comparator_begin_def Let_def
          case_prod_unfold ESTOP_CHANNELS_def numeral_2_eq_2 target_def)
    ultimately show ?thesis using followed_by_targets by metis
  next
    case (AtTake c l)
    then show ?thesis
      by (intro followed_by_targets [OF _ _ assms(1)])
        (simp_all add: Comparator comparator_thread_def comparator_take_def record_latency_def Let_def target_def)
  next
    case (AtBody l)
    have "reconfigure_requests (snd (run_tick_body L E now gen late by_ms ls)) = reconfigure_requests ls"
      for now gen late by_ms
      by (simp add: run_tick_body_eq Let_def comparator_pass_eq record_mismatch_def record_late_def
          split: option.split)
    with AtBody show ?thesis
      by (intro followed_by_targets [OF _ _ assms(1)])
        (simp_all add: Comparator comparator_thread_def comparator_finish_def Let_def case_prod_unfold
          run_tick_body_target [unfolded target_def] target_def)
  qed
next
  case (Sampler c E)
  then show ?thesis
    by (intro followed_by_targets [OF _ _ assms(1)])
      (simp_all add: sampler_thread_def sampler_pass_eq Let_def target_def)
qed (use assms(3) in auto)

section \<open>Every turn of the remote keeps it\<close>

definition turn_ok :: "sys_event \<Rightarrow> bool" where
  "turn_ok e = (case e of ComparatorTurn E \<Rightarrow> te_log_inf E \<and> opens_report E | _ \<Rightarrow> True)"

definition remote_followed :: "'f remote \<Rightarrow> bool" where
  "remote_followed rm \<longleftrightarrow> followed (d_cfg (remote_device rm)) (remote_lockstep rm)"

lemma effect_followed:
  assumes "effect B d d'" and "followed (d_cfg d) (d_lockstep d)"
  shows "followed (d_cfg d') (d_lockstep d')"
  unfolding followed_def
proof (intro allI impI)
  fix slot :: nat
  assume slot: "slot < 4"
  have asked: "asked (d_lockstep d) (d_lockstep d')" using assms(1) by (simp add: effect_def)
  have same: "target (d_lockstep d') slot = target (d_lockstep d) slot"
    by (subst asked_words [OF asked]) (simp add: target_def)
  consider (changed) "bit (reconfigure_requests (d_lockstep d')) slot"
    | (kept) "cfg_peers (d_cfg d') slot = cfg_peers (d_cfg d) slot"
    using assms(1) by (auto simp: effect_def)
  then show "bit (reconfigure_requests (d_lockstep d')) slot \<or> slot_follows (d_cfg d') (d_lockstep d') slot"
  proof cases
    case kept
    have "bit (reconfigure_requests (d_lockstep d)) slot \<or> slot_follows (d_cfg d) (d_lockstep d) slot"
      using assms(2) slot by (simp add: followed_def)
    then show ?thesis
      using asked kept by (auto simp: asked_def slot_follows_def same)
  qed simp
qed

lemma sys_step_followed:
  assumes "turn_ok e" and "nets_ok (d_cfg (remote_device rm))" and "remote_followed rm"
  shows "remote_followed (snd (sys_step F e rm))"
proof (cases "lk_of e rm")
  case None
  from effect_followed [OF sys_step_effect [OF None assms(2), of F]] assms(3) show ?thesis
    by (simp add: remote_followed_def)
next
  case (Some le)
  have "followed (d_cfg (remote_device rm)) (snd (lk_step (fw_lib F) le (remote_lockstep rm)))"
    by (rule lk_step_followed)
      (use assms(1,3) Some in \<open>auto simp: remote_followed_def lk_of_def turn_ok_def with_settings_def
        split: sys_event.splits\<close>)
  with Some show ?thesis
    by (simp add: remote_followed_def sys_step_lockstep lockstep_turn_device)
qed

lemma sys_run_followed:
  assumes "\<forall>e \<in> set es. turn_ok e" and "nets_ok (d_cfg (remote_device rm))" and "remote_followed rm"
  shows "remote_followed (snd (mealy_run (sys_step F) es rm))"
  using assms by (induction es arbitrary: rm) (simp_all add: sys_step_followed sys_step_nets)

section \<open>From the start\<close>

lemma init_follows:
  assumes "te_cfg E = cfg" and "opens_report E"
  shows "followed cfg (snd (pstop_lockstep_init L E st))"
proof -
  let ?step = "\<lambda>slot st. snd (slot_apply_config L E slot (st\<lparr>slot_active := (slot_active st)(slot := False)\<rparr>))"
  have loop: "slot_follows cfg (fold ?step slots st) k"
    if "k \<in> set slots \<or> slot_follows cfg st k" "\<forall>slot \<in> set slots. slot < 4" for slots k st
    using that
  proof (induction slots arbitrary: st)
    case (Cons slot slots)
    have next_ok: "k \<in> set slots \<or> slot_follows cfg (?step slot st) k"
    proof (cases "slot = k")
      case True
      with slot_apply_follows [OF assms, of k L] Cons.prems(2) show ?thesis by simp
    next
      case False
      have "target (?step slot st) k = target st k"
        using False by (simp add: slot_apply_target_other) (simp add: target_def)
      with Cons.prems(1) False show ?thesis by (auto simp: slot_follows_def)
    qed
    show ?case
      unfolding fold_Cons o_apply by (rule Cons.IH [OF next_ok]) (use Cons.prems(2) in simp)
  qed auto
  have "slot_follows cfg (fold ?step [0..<PSTOP_MAX_MACHINES] st) k" if "k < 4" for st k
    using loop [of k "[0..<PSTOP_MAX_MACHINES]" st] that by (auto simp: const_simps)
  then show ?thesis by (simp add: pstop_lockstep_init_def Let_def followed_def)
qed

lemma booted_followed:
  fixes F :: "('m, 'f) firmware"
  assumes "main_init (im_api (fw_image F)) E f = (outs, Inr rm)" and "opens_report (be_tick E)"
  shows "remote_followed rm"
proof -
  let ?init = "snd (pstop_lockstep_init (fw_lib F) ((be_tick E)\<lparr>te_cfg := d_cfg (remote_device rm)\<rparr>)
     (pstop_lockstep_set_tick_observer True lockstep_zero))"
  have "followed (d_cfg (remote_device rm)) ?init"
    by (rule init_follows) (simp_all add: assms(2))
  moreover have "remote_lockstep rm = ?init\<lparr>cmp_at := AtTop, cmp_next := be_uptime E\<rparr>"
    by (simp add: booted_remote(1) [OF assms(1)] booted_device_fields booted_lockstep_def pstop_lockstep_start_def)
  ultimately show ?thesis
    unfolding remote_followed_def by (simp add: followed_def slot_follows_def target_def)
qed

lemma sent_by_active:
  "Tx slot f \<in> set (fst (lk_step L e ls)) \<Longrightarrow> slot < 4 \<and> slot_active ls slot"
  by (drule tx_from_step) (auto simp: due_slots_def const_simps)

text \<open>One turn of the comparator at the top of its loop serves what is waiting.\<close>

lemma comparator_turn_live:
  fixes F :: "('m, 'f) firmware" and rm :: "'f remote"
  defines "cfg \<equiv> d_cfg (remote_device rm)"
  assumes "cmp_at (remote_lockstep rm) = AtTop" and "bit (reconfigure_requests (remote_lockstep rm)) slot"
    and "slot < 4" and "configured (cfg_peers cfg slot)" and "opens E slot" and "te_log_inf E"
  shows "target (remote_lockstep (snd (sys_step F (ComparatorTurn E) rm))) slot = live_for (cfg_peers cfg slot)"
proof -
  let ?E = "with_settings rm E" and ?ls = "remote_lockstep rm"
  have E: "te_cfg ?E = cfg" "opens ?E slot" "te_log_inf ?E"
    using assms(6,7) by (simp_all add: with_settings_def cfg_def opens_def)
  let ?st = "?ls\<lparr>cmp_next := cmp_next ?ls + PSTOP_TICK_MS\<rparr>"
  have "target (snd (begin_tick (fw_lib F) ?E (te_uptime ?E) ?st)) slot = live_for (cfg_peers (te_cfg ?E) slot)"
    unfolding begin_tick_def Let_def snd_conv begin_rest_target
    by (rule reconfigure_loop_live) (use assms(3-5) E in \<open>simp_all add: const_simps\<close>)
  moreover have "target (remote_lockstep (snd (sys_step F (ComparatorTurn E) rm))) slot =
      target (snd (begin_tick (fw_lib F) ?E (te_uptime ?E) ?st)) slot"
    by (simp add: lockstep_turn_device assms(2) comparator_thread_def comparator_begin_def Let_def
        case_prod_unfold ESTOP_CHANNELS_def numeral_2_eq_2 target_def)
  ultimately show ?thesis by (simp add: E)
qed

end
