(* ===== verification/Remote_Run.thy ===== *)
theory Remote_Run
  imports Remote_Peers
begin

text \<open>
  Runs of the whole remote: what a request leaves in the server's buffers, how a run of the
  comparator's threads alone is a run of the remote, and a concrete run from an empty store on
  which the properties of the root theory are witnessed.
\<close>

section \<open>The buffers of the request table\<close>

text \<open>
  The C arrays behind a request: credentials with their terminator in a header's size, a body of
  at most \<open>REQ_BODY_MAX\<close> bytes, and a stream that has not run past its end. The dump backend
  returns no more than it was asked for.
\<close>

definition dump_bounded :: "(nat \<Rightarrow> nat \<Rightarrow> int \<times> bytes) option \<Rightarrow> bool" where
  "dump_bounded dump \<longleftrightarrow> (\<forall>off n. fst (crash_read dump off n) \<le> int n)"

definition req_wf :: "nat \<Rightarrow> req_state \<Rightarrow> bool" where
  "req_wf cap r \<longleftrightarrow> length (rq_auth r) \<le> cap - 1 \<and> length (rq_body r) \<le> REQ_BODY_MAX \<and>
     rq_stream_off r \<le> rq_stream_size r"

lemma req_zero_wf [simp]: "req_wf cap req_zero" "req_wf cap (req_zero\<lparr>rq_client := c\<rparr>)"
  by (simp_all add: req_wf_def req_zero_def)

lemma taken_in_wf: "req_wf (im_header_size I) r \<Longrightarrow> req_wf (im_header_size I) (taken_in I cb r)"
  by (auto simp: req_wf_def taken_in_def gather_body_def capture_auth_def split: option.split prod.split)

lemma stream_wf:
  assumes "dump_bounded dump" and "req_wf cap r"
  shows "req_wf cap (fst (snd (stream_coredump dump r ctx)))"
proof -
  let ?n = "min PSTOP_API_BODY_MAX (rq_stream_size r - rq_stream_off r)"
  obtain ret data where read: "crash_read dump (rq_stream_off r) ?n = (ret, data)" by fastforce
  have "fst (crash_read dump (rq_stream_off r) ?n) \<le> int ?n"
    using assms(1) unfolding dump_bounded_def by blast
  then have "nat ret \<le> ?n" by (simp only: read fst_conv nat_le_iff)
  then have "rq_stream_off r \<le> rq_stream_size r \<Longrightarrow> rq_stream_off r + nat ret \<le> rq_stream_size r" by linarith
  with assms(2) show ?thesis
    unfolding stream_coredump_def Let_def read by (simp add: req_wf_def)
qed

lemma after_callback_wf:
  assumes "dump_bounded (im_dump I)" and "req_wf (im_header_size I) r"
  shows "req_wf (im_header_size I) (after_callback I cb d r)"
proof -
  note taken = taken_in_wf [OF assms(2), of cb]
  have "req_wf cap (r\<lparr>rq_auth := []\<rparr>)" if "req_wf cap r" for cap r
    using that by (simp add: req_wf_def)
  moreover have "req_wf cap (r\<lparr>rq_stream_size := n, rq_streaming := True, rq_stream_off := 0\<rparr>)"
    if "req_wf cap r" for cap r n
    using that by (simp add: req_wf_def)
  ultimately show ?thesis
    using taken stream_wf [OF assms(1)] assms(2)
    by (auto simp: after_callback_def Let_def split: dispatched.split)
qed

lemma serve_wf:
  assumes "dump_bounded (im_dump I)" and "\<forall>r \<in> set (sv_reqs sv). req_wf (im_header_size I) r"
  shows "length (sv_reqs (serve I cb sv)) = length (sv_reqs sv) \<and>
    (\<forall>r \<in> set (sv_reqs (serve I cb sv)). req_wf (im_header_size I) r)"
proof (cases "ends cb \<or> req_for (cb_client cb) (sv_reqs sv) = None")
  case True
  with assms(2) show ?thesis
    by (auto simp: serve_def route_handler_def ends_def req_release_def split: option.split)
next
  case False
  then obtain i reqs where p: "req_for (cb_client cb) (sv_reqs sv) = Some (i, reqs)" by auto
  then have reqs: "length reqs = length (sv_reqs sv)" "\<forall>r \<in> set reqs. req_wf (im_header_size I) r" "i < length reqs"
    using assms(2) by (auto simp: req_for_def find_Some_iff split: option.splits dest!: set_update_subset_insert [THEN subsetD])
  have table: "sv_reqs (serve I cb sv) = reqs[i := after_callback I cb (sv_device sv) (reqs ! i)]"
    using False p by (intro serve_table) auto
  have "req_wf (im_header_size I) (after_callback I cb (sv_device sv) (reqs ! i))"
    using reqs by (intro after_callback_wf [OF assms(1)]) simp
  with reqs table show ?thesis
    by (auto dest!: set_update_subset_insert [THEN subsetD])
qed

definition server_wf :: "('m, 'f) firmware \<Rightarrow> nat \<Rightarrow> 'f remote \<Rightarrow> bool" where
  "server_wf F clients rm \<longleftrightarrow> length (sv_reqs (rm_server rm)) = clients \<and>
     (\<forall>r \<in> set (sv_reqs (rm_server rm)). req_wf (im_header_size (fw_image F)) r)"

lemma http_turn_reqs:
  "rm_server (snd (http_turn F ifs cb rm)) = serve (fw_image F)
     (cb\<lparr>cb_now := (cb_now cb)\<lparr>an_uplink := uplink_status_get (fw_uplink F) ifs (rm_uplink rm)\<rparr>\<rparr>) (rm_server rm)"
  by (simp add: http_turn_def Let_def case_prod_unfold serve_def)

lemma sys_step_server_wf:
  assumes "dump_bounded (im_dump (fw_image F))" and "server_wf F clients rm"
  shows "server_wf F clients (snd (sys_step F e rm))"
proof (cases e)
  case (HttpCallback ifs cb)
  with serve_wf [OF assms(1), of "rm_server rm"] assms(2) show ?thesis
    unfolding HttpCallback sys_step.simps server_wf_def http_turn_reqs by metis
qed (use assms(2) in \<open>auto simp: server_wf_def lockstep_turn_def main_loop_pass_def wifi_turn_def led_turn_def
      put_device_def Let_def case_prod_unfold split: option.split\<close>)

lemma sys_run_server_wf:
  assumes "dump_bounded (im_dump (fw_image F))" and "server_wf F clients rm"
  shows "server_wf F clients (snd (mealy_run (sys_step F) es rm))"
  using assms(2) by (induction es arbitrary: rm) (simp_all add: sys_step_server_wf [OF assms(1)])

lemma booted_server_wf:
  fixes F :: "('m, 'f) firmware"
  assumes "main_init (im_api (fw_image F)) E f = (outs, Inr rm)"
  shows "server_wf F (be_max_clients E) rm"
proof -
  have "rm = snd (start_services E (booted_device (im_api (fw_image F)) E f))"
    using main_init_cases [of "im_api (fw_image F)" E f] assms by (auto split: if_splits)
  then show ?thesis by (simp add: server_wf_def start_services_remote)
qed

section \<open>Runs of the comparator's threads\<close>

fun lift_lk :: "lk_event \<Rightarrow> sys_event" where
  "lift_lk (Comparator E) = ComparatorTurn E"
| "lift_lk (Sampler c E) = SamplerTurn c E"
| "lift_lk (RequestRebond s) = MainPass 0 0"
| "lift_lk (RequestReconfigure s) = MainPass 0 0"

definition lk_at :: "app_settings \<Rightarrow> lk_event \<Rightarrow> bool" where
  "lk_at cfg e = (case e of Comparator E \<Rightarrow> te_cfg E = cfg | Sampler c E \<Rightarrow> te_cfg E = cfg | _ \<Rightarrow> False)"

lemma lift_step:
  assumes "lk_at (d_cfg (remote_device rm)) e"
  shows "sys_step F (lift_lk e) rm = lockstep_turn F e rm"
proof -
  have "with_settings rm E = E" if "te_cfg E = d_cfg (remote_device rm)" for E
    using that by (simp add: with_settings_def)
  with assms show ?thesis by (cases e) (simp_all add: lk_at_def)
qed

lemma lift_reads:
  "lk_at cfg e \<Longrightarrow> sys_new_reads c (lift_lk e) rm = new_reads c e (remote_lockstep rm)"
  by (cases e) (simp_all add: lk_at_def)

lemma lift_run:
  assumes "\<forall>e \<in> set es. lk_at cfg e" and "d_cfg (remote_device rm) = cfg"
  shows "remote_lockstep (snd (mealy_run (sys_step F) (map lift_lk es) rm)) =
      snd (mealy_run (lk_step (fw_lib F)) es (remote_lockstep rm)) \<and>
    d_cfg (remote_device (snd (mealy_run (sys_step F) (map lift_lk es) rm))) = cfg"
  using assms
proof (induction es arbitrary: rm)
  case (Cons e es)
  have "lk_at (d_cfg (remote_device rm)) e" using Cons.prems by simp
  note step = lift_step [OF this, of F]
  from Cons.IH [of "snd (lockstep_turn F e rm)"] Cons.prems show ?case
    by (simp add: step lockstep_turn_device)
qed simp

section \<open>Settings in range\<close>

definition settings_wf :: "app_settings \<Rightarrow> bool" where
  "settings_wf cfg \<longleftrightarrow> nets_ok cfg \<and> cfg_ring_offset cfg < 16"

lemma settings_apply_ring:
  assumes "cfg_ring_offset (snd s) < 16"
  shows "cfg_ring_offset (snd (settings_apply S op s)) < 16"
proof -
  have wifi: "cfg_ring_offset (snd (snd (wifi_save_from S nets is f st))) = cfg_ring_offset st" for nets "is" f st
    by (induction "is" arbitrary: f st) (simp_all split: prod.split)
  show ?thesis
    using assms
    by (cases s; cases op) (auto simp: app_settings_set_peer_def app_settings_clear_peer_def store_peer_def
        app_settings_set_device_id_def app_settings_set_ring_offset_def app_settings_set_operator_def
        app_settings_wifi_set_all_def wifi not_le split: prod.split)
qed

lemma by_setters_ring:
  assumes "by_setters S (f, st) (f', st')" and "cfg_ring_offset st < 16"
  shows "cfg_ring_offset st' < 16"
proof -
  have "cfg_ring_offset (snd (fold (settings_apply S) ops s)) < 16" if "cfg_ring_offset (snd s) < 16" for ops s
    using that by (induction ops arbitrary: s) (simp_all add: settings_apply_ring)
  from this [of "(f, st)"] assms show ?thesis unfolding by_setters_def by (metis snd_conv)
qed

lemma sys_step_settings_wf:
  assumes "settings_wf (d_cfg (remote_device rm))"
  shows "settings_wf (d_cfg (remote_device (snd (sys_step F e rm))))"
proof (cases "lk_of e rm")
  case None
  have nets: "nets_ok (d_cfg (remote_device rm))" using assms by (simp add: settings_wf_def)
  with sys_step_effect [OF None nets, of F] sys_step_nets [OF nets, of F e] assms show ?thesis
    by (auto simp: effect_def settings_wf_def intro: by_setters_ring)
next
  case (Some le)
  with assms show ?thesis by (simp add: sys_step_lockstep lockstep_turn_device)
qed

lemma sys_run_settings_wf:
  assumes "settings_wf (d_cfg (remote_device rm))"
  shows "settings_wf (d_cfg (remote_device (snd (mealy_run (sys_step F) es rm))))"
  using assms by (induction es arbitrary: rm) (simp_all add: sys_step_settings_wf)

lemma booted_settings_wf:
  fixes F :: "('m, 'f) firmware"
  assumes "main_init (im_api (fw_image F)) E f = (outs, Inr rm)"
  shows "settings_wf (d_cfg (remote_device rm))"
proof -
  let ?S = "ab_backend (im_api (fw_image F))"
  let ?cfg = "snd (app_settings_init ?S f (be_hwinfo E))"
  have "cfg_ring_offset ?cfg < 16"
    using booted_remote(2) [OF assms]
    by (auto simp: app_settings_init_def Let_def settings_defaults_def not_le split: if_splits)
  then have "cfg_ring_offset (snd (provision_default ?S f ?cfg)) < 16"
    using by_setters_ring [of ?S f ?cfg "fst (provision_default ?S f ?cfg)" "snd (provision_default ?S f ?cfg)"]
      provision_setters [of ?S f ?cfg] by simp
  with booted_sys_inv(2) [OF assms] show ?thesis
    by (simp add: settings_wf_def booted_remote(1) [OF assms] booted_device_fields booted_cfg_def)
qed

section \<open>A concrete remote\<close>

text \<open>An empty store, so that the built-in peer is provisioned, and two working switch channels.\<close>

definition demo_firmware :: "(wire_msg, (string \<times> bytes) list) firmware" where
  "demo_firmware = \<lparr>fw_image = demo_image,
     fw_uplink = \<lparr>CONFIG_NET_NATIVE = True, CONFIG_WIFI = True, CONFIG_NET_DHCPV4 = True\<rparr>,
     fw_leds = \<lparr>HAVE_RING = True, HAVE_PIXEL = False, ring_ready = True, pixel_ready = False\<rparr>\<rparr>"

definition demo_gpio :: gpio_results where
  "demo_gpio = \<lparr>out_ready = True, in_ready = True, out_configure = 0, in_configure = 0\<rparr>"

definition demo_start :: boot_env where
  "demo_start = \<lparr>be_hwinfo = None, be_health_blob = None, be_steq = steq_spec, be_uptime = 0,
     be_save_ret = 0, be_gpio = [demo_gpio, demo_gpio], be_tick = demo_tick_env 0,
     be_uplink_build = fw_uplink demo_firmware, be_ifs = (\<lambda>_. \<lparr>if_wifi = False, if_ethernet = True,
       if_up = True, if_addr = Some 0x0200000A\<rparr>), be_if_count = 1, be_wifi_iface = False,
     be_leds = fw_leds demo_firmware, be_http = True, be_http_ret = 0, be_max_clients = 2\<rparr>"

definition demo_remote :: "(string \<times> bytes) list remote" where
  "demo_remote = snd (start_services demo_start (booted_device demo_build demo_start []))"

lemma demo_build_fields [simp]:
  "im_api (fw_image demo_firmware) = demo_build" "ab_backend demo_build = demo_backend" "ab_lib demo_build = wire_lib"
  by (simp_all add: demo_firmware_def demo_image_def demo_build_def)

lemma demo_settings: "app_settings_init demo_backend [] None = (0, settings_defaults FALLBACK_ID)"
  by (simp add: app_settings_init_def demo_backend_def derive_device_id_def Let_def) (simp add: settings_defaults_def)

lemma demo_boots: "\<exists>outs. main_init (im_api (fw_image demo_firmware)) demo_start [] = (outs, Inr demo_remote)"
proof -
  have "snd (main_init demo_build demo_start []) = Inr demo_remote"
    unfolding main_init_cases
    by (simp add: demo_remote_def demo_settings) (simp add: demo_start_def demo_settings demo_gpio_def)
  then show ?thesis by (metis demo_build_fields(1) prod.collapse)
qed

lemma demo_booted_cfg: "snd (booted_cfg demo_build demo_start []) = demo_cfg"
proof -
  have hw: "be_hwinfo demo_start = None" by (simp add: demo_start_def)
  have "app_settings_set_peer demo_backend [] (settings_defaults FALLBACK_ID) 0 DEFAULT_MACHINE_IP
      DEFAULT_MACHINE_PORT DEFAULT_MACHINE_ID =
    (0, [(''peers/0'', bytes_of_peer demo_peer)], demo_cfg)"
    by (simp add: app_settings_set_peer_def store_peer_def save_peer_def demo_backend_def const_simps
        demo_peer_def peer_zero_def demo_cfg_def settings_defaults_def)
  then show ?thesis
    by (simp add: booted_cfg_def hw demo_settings provision_default_def)
      (simp add: app_settings_peer_get_def settings_defaults_def peer_zero_def const_simps)
qed

lemma demo_remote_fields:
  "remote_device demo_remote = booted_device demo_build demo_start []"
  "d_cfg (remote_device demo_remote) = demo_cfg"
  by (simp_all add: demo_remote_def start_services_remote booted_device_fields demo_booted_cfg)

lemma demo_remote_at: "demo_at (remote_lockstep demo_remote) demo_session estop_state_init"
proof -
  let ?obs = "pstop_lockstep_set_tick_observer True lockstep_zero"
  have tick: "(be_tick demo_start)\<lparr>te_cfg := demo_cfg\<rparr> = demo_tick_env 0"
    by (simp add: demo_start_def) (simp add: demo_tick_env_def)
  have "demo_at (snd (pstop_lockstep_init wire_lib (demo_tick_env 0) ?obs)) demo_session estop_state_init"
    by (rule demo_init_at) (simp_all add: pstop_lockstep_set_tick_observer_def lockstep_zero_def)
  then show ?thesis
    by (simp add: demo_remote_fields booted_device_fields booted_lockstep_def demo_booted_cfg tick
        pstop_lockstep_start_def demo_at_def)
qed

definition demo_run :: "sys_event list" where
  "demo_run = map lift_lk demo_events"

lemma demo_events_at: "\<forall>e \<in> set demo_events. lk_at demo_cfg e"
  by (simp add: demo_events_def demo_turn_def Let_def lk_at_def demo_tick_env_def)

lemma demo_remote_sends:
  "OfLockstep (Tx 0 demo_ok_frame) \<in> set (fst (sys_step demo_firmware (ComparatorTurn (demo_tick_env 400))
     (snd (mealy_run (sys_step demo_firmware) demo_run demo_remote))))"
proof -
  let ?rm = "snd (mealy_run (sys_step demo_firmware) demo_run demo_remote)"
  have run: "remote_lockstep ?rm = snd (mealy_run (lk_step wire_lib) demo_events (remote_lockstep demo_remote))"
    "d_cfg (remote_device ?rm) = demo_cfg"
    using lift_run [OF demo_events_at demo_remote_fields(2), of demo_firmware] by (simp_all add: demo_run_def)
  have "lk_at (d_cfg (remote_device ?rm)) (Comparator (demo_tick_env 400))"
    by (simp add: run(2) lk_at_def demo_tick_env_def)
  from lift_step [OF this, of demo_firmware] demo_sends_from [OF demo_remote_at] show ?thesis
    by (simp add: lockstep_turn_device(4) run(1))
qed

end
