(* ===== verification/Http_Secrets.thy ===== *)
theory Http_Secrets
  imports Http_Sessions
begin

text \<open>
  What the control plane (\<open>protective_stop/src/http_server.c\<close> and \<open>api.c\<close>) tells of the WiFi
  passwords: whether one is stored for a network, and nothing else. Two devices that differ in
  no more than their stored passwords and the bytes of their store answer every sequence of
  callbacks alike, and differ in no more afterwards.
\<close>

section \<open>Devices that differ in secrets only\<close>

definition nets_alike :: "(nat \<Rightarrow> pstop_wifi_net) \<Rightarrow> (nat \<Rightarrow> pstop_wifi_net) \<Rightarrow> bool" where
  "nets_alike n1 n2 \<longleftrightarrow> (\<forall>i. ssid (n1 i) = ssid (n2 i) \<and> (pass (n1 i) = [] \<longleftrightarrow> pass (n2 i) = []))"

definition twin :: "'f \<Rightarrow> (nat \<Rightarrow> pstop_wifi_net) \<Rightarrow> 'f device \<Rightarrow> 'f device" where
  "twin f nets d = d\<lparr>d_store := f, d_cfg := (d_cfg d)\<lparr>cfg_wifi := nets\<rparr>\<rparr>"

text \<open>
  \<open>store_blind\<close> says of a relation between stores that related stores answer writes of the
  same item with the same code and stay related, where the bytes written to a network's item
  may be different ones: whether a write succeeds does not depend on the passwords.
\<close>

definition store_blind :: "'f settings_backend \<Rightarrow> ('f \<Rightarrow> 'f \<Rightarrow> bool) \<Rightarrow> bool" where
  "store_blind S R \<longleftrightarrow> (\<forall>f1 f2 key b1 b2. R f1 f2 \<longrightarrow>
     (b1 = b2 \<or> prefix ''pstop/wifi/'' key) \<longrightarrow>
     fst (save_one S f1 key b1) = fst (save_one S f2 key b2) \<and>
     R (snd (save_one S f1 key b1)) (snd (save_one S f2 key b2)))"

definition alike :: "('f \<Rightarrow> 'f \<Rightarrow> bool) \<Rightarrow> 'f device \<Rightarrow> 'f device \<Rightarrow> bool" where
  "alike R d1 d2 \<longleftrightarrow> R (d_store d1) (d_store d2) \<and>
     nets_alike (cfg_wifi (d_cfg d1)) (cfg_wifi (d_cfg d2)) \<and>
     d2 = twin (d_store d2) (cfg_wifi (d_cfg d2)) d1"

lemma alikeI:
  "R (d_store d) f \<Longrightarrow> nets_alike (cfg_wifi (d_cfg d)) nets \<Longrightarrow> d2 = twin f nets d \<Longrightarrow> alike R d d2"
  by (simp add: alike_def twin_def)

lemma alikeE:
  assumes "alike R d1 d2"
  obtains f nets where "d2 = twin f nets d1" and "R (d_store d1) f" and "nets_alike (cfg_wifi (d_cfg d1)) nets"
  using assms unfolding alike_def by blast

text \<open>A computation on devices that answers the same and leaves them alike.\<close>

definition tells_nothing :: "('f \<Rightarrow> 'f \<Rightarrow> bool) \<Rightarrow> 'a \<times> 'f device \<Rightarrow> 'a \<times> 'f device \<Rightarrow> bool" where
  "tells_nothing R x1 x2 \<longleftrightarrow> fst x1 = fst x2 \<and> alike R (snd x1) (snd x2)"

lemma tells_nothing_pair [simp]:
  "tells_nothing R (a, d1) (b, d2) \<longleftrightarrow> a = b \<and> alike R d1 d2"
  by (simp add: tells_nothing_def)

lemma tells_nothingE:
  assumes "tells_nothing R x1 x2"
  obtains a e1 e2 where "x1 = (a, e1)" and "x2 = (a, e2)" and "alike R e1 e2"
  using assms by (cases x1; cases x2) auto

section \<open>Reading\<close>

lemma twin_fields [simp]:
  "d_lockstep (twin f nets d) = d_lockstep d" "d_health (twin f nets d) = d_health d"
  "d_health_blob (twin f nets d) = d_health_blob d"
  "d_locate_until (twin f nets d) = d_locate_until d" "d_wifi (twin f nets d) = d_wifi d"
  "d_verbose (twin f nets d) = d_verbose d" "d_log_levels (twin f nets d) = d_log_levels d"
  "wifi_idx B (twin f nets d) = wifi_idx B d" "d_store (twin f nets d) = f"
  "d_cfg (twin f nets d) = (d_cfg d)\<lparr>cfg_wifi := nets\<rparr>"
  by (simp_all add: twin_def wifi_idx_def)

lemma views_nets [simp]:
  "app_settings_effective_device_id (c\<lparr>cfg_wifi := nets\<rparr>) = app_settings_effective_device_id c"
  "app_settings_ring_offset (c\<lparr>cfg_wifi := nets\<rparr>) = app_settings_ring_offset c"
  "app_settings_device_id (c\<lparr>cfg_wifi := nets\<rparr>) = app_settings_device_id c"
  "role_str B (c\<lparr>cfg_wifi := nets\<rparr>) = role_str B c"
  "peer_or_zero (c\<lparr>cfg_wifi := nets\<rparr>) = peer_or_zero c"
  by (simp_all add: app_settings_effective_device_id_def app_settings_ring_offset_def app_settings_device_id_def
      role_str_def app_settings_is_operator_def peer_or_zero_def app_settings_peer_get_def fun_eq_iff)

lemma state_machine_twin [simp]: "state_machine L (twin f nets d) = state_machine L d"
  by (rule ext) (simp only: state_machine_def twin_fields views_nets)

lemma state_twin: "pstop_api_state B N cap (twin f nets d) = pstop_api_state B N cap d"
  by (simp only: pstop_api_state_def state_parts_def Let_def twin_fields views_nets state_machine_twin)

lemma status_twin: "pstop_api_admin_status B N cap auth (twin f nets d) = pstop_api_admin_status B N cap auth d"
  by (simp only: pstop_api_admin_status_def twin_fields views_nets)

lemma nets_alikeD:
  "nets_alike n1 n2 \<Longrightarrow> ssid (n1 i) = ssid (n2 i)"
  "nets_alike n1 n2 \<Longrightarrow> pass (n1 i) = [] \<longleftrightarrow> pass (n2 i) = []"
  by (simp_all add: nets_alike_def)

lemma nets_alike_upd:
  "nets_alike n1 n2 \<Longrightarrow> ssid w1 = ssid w2 \<Longrightarrow> (pass w1 = [] \<longleftrightarrow> pass w2 = []) \<Longrightarrow>
     nets_alike (n1(i := w1)) (n2(i := w2))"
  by (simp add: nets_alike_def)

lemma wifi_reply_twin:
  assumes "nets_alike (cfg_wifi (d_cfg d)) nets"
  shows "wifi_reply B cap (twin f nets d) = wifi_reply B cap d"
proof -
  have "wifi_list ((d_cfg d)\<lparr>cfg_wifi := nets\<rparr>) [0..<4] True = wifi_list (d_cfg d) [0..<4] True"
    by (rule wifi_list_cong) (use assms in \<open>auto simp: nets_alike_def\<close>)
  then show ?thesis by (simp add: wifi_reply_def PSTOP_WIFI_MAX_def)
qed

section \<open>Setters\<close>

lemma store_blindD:
  assumes "store_blind S R" and "R f1 f2" and "save_one S f1 key b = (ret, f')"
  obtains f2' where "save_one S f2 key b = (ret, f2')" and "R f' f2'"
proof -
  have "fst (save_one S f1 key b) = fst (save_one S f2 key b) \<and>
      R (snd (save_one S f1 key b)) (snd (save_one S f2 key b))"
    using assms(1,2) unfolding store_blind_def by blast
  with that [of "snd (save_one S f2 key b)"] assms(3) show thesis by (cases "save_one S f2 key b") simp
qed

lemma store_peer_twin:
  assumes "store_blind S R" and "R f f2" and "store_peer S f c slot peer = (ret, f', c')"
  shows "\<exists>f2'. store_peer S f2 (c\<lparr>cfg_wifi := nets\<rparr>) slot peer = (ret, f2', c'\<lparr>cfg_wifi := nets\<rparr>) \<and>
    R f' f2' \<and> cfg_wifi c' = cfg_wifi c"
proof -
  obtain r g where one: "save_peer S f (nat slot) peer = (r, g)" by fastforce
  from store_blindD [OF assms(1,2) this [unfolded save_peer_def]] obtain g2 where
    "save_peer S f2 (nat slot) peer = (r, g2)" "R g g2" unfolding save_peer_def .
  with assms(3) one show ?thesis by (cases "r = 0") (auto simp: store_peer_def)
qed

lemma set_peer_twin:
  assumes "store_blind S R" and "R f f2" and "app_settings_set_peer S f c slot ip port pid = (ret, f', c')"
  obtains f2' where "app_settings_set_peer S f2 (c\<lparr>cfg_wifi := nets\<rparr>) slot ip port pid =
    (ret, f2', c'\<lparr>cfg_wifi := nets\<rparr>)" and "R f' f2'" and "cfg_wifi c' = cfg_wifi c"
proof (cases "slot < 0 \<or> int PSTOP_MAX_MACHINES \<le> slot")
  case True
  with assms that [of f2] show thesis by (auto simp: app_settings_set_peer_def)
next
  case False
  with assms(3) store_peer_twin [OF assms(1,2)] that show thesis
    by (simp add: app_settings_set_peer_def) blast
qed

lemma clear_peer_twin:
  assumes "store_blind S R" and "R f f2" and "app_settings_clear_peer S f c slot = (ret, f', c')"
  obtains f2' where "app_settings_clear_peer S f2 (c\<lparr>cfg_wifi := nets\<rparr>) slot =
    (ret, f2', c'\<lparr>cfg_wifi := nets\<rparr>)" and "R f' f2'" and "cfg_wifi c' = cfg_wifi c"
proof (cases "slot < 0 \<or> int PSTOP_MAX_MACHINES \<le> slot")
  case True
  with assms that [of f2] show thesis by (auto simp: app_settings_clear_peer_def)
next
  case False
  with assms(3) store_peer_twin [OF assms(1,2)] that show thesis
    by (simp add: app_settings_clear_peer_def) blast
qed

lemma scalar_twins:
  assumes "store_blind S R" and "R f f2"
  shows "app_settings_set_device_id S f c did = (ret, f', c') \<Longrightarrow>
      \<exists>f2'. app_settings_set_device_id S f2 (c\<lparr>cfg_wifi := nets\<rparr>) did = (ret, f2', c'\<lparr>cfg_wifi := nets\<rparr>) \<and>
        R f' f2' \<and> cfg_wifi c' = cfg_wifi c"
    and "app_settings_set_ring_offset S f c n = (ret, f', c') \<Longrightarrow>
      \<exists>f2'. app_settings_set_ring_offset S f2 (c\<lparr>cfg_wifi := nets\<rparr>) n = (ret, f2', c'\<lparr>cfg_wifi := nets\<rparr>) \<and>
        R f' f2' \<and> cfg_wifi c' = cfg_wifi c"
    and "app_settings_set_operator S f c op = (ret, f', c') \<Longrightarrow>
      \<exists>f2'. app_settings_set_operator S f2 (c\<lparr>cfg_wifi := nets\<rparr>) op = (ret, f2', c'\<lparr>cfg_wifi := nets\<rparr>) \<and>
        R f' f2' \<and> cfg_wifi c' = cfg_wifi c"
  using assms(2)
  by (auto simp: app_settings_set_device_id_def app_settings_set_ring_offset_def app_settings_set_operator_def
      split: prod.splits if_splits elim: store_blindD [OF assms])

lemma wifi_save_twin:
  assumes "store_blind S R" and "nets_alike n1 n2"
    and "wifi_save_from S n1 is f c = (ret, f', c')" and "R f f2" and "nets_alike (cfg_wifi c) nets"
  shows "\<exists>f2' nets'. wifi_save_from S n2 is f2 (c\<lparr>cfg_wifi := nets\<rparr>) = (ret, f2', c'\<lparr>cfg_wifi := nets'\<rparr>) \<and>
    R f' f2' \<and> nets_alike (cfg_wifi c') nets'"
  using assms(3-5)
proof (induction "is" arbitrary: f c f2 nets)
  case Nil
  then show ?case by auto
next
  case (Cons i "is")
  define key where "key = ''pstop/wifi/'' @ index_char i"
  obtain r g where one: "save_one S f key (bytes_of_wifi (n1 i)) = (r, g)" by fastforce
  have "prefix ''pstop/wifi/'' key" unfolding key_def by (rule prefixI) simp
  then have "fst (save_one S f key (bytes_of_wifi (n1 i))) = fst (save_one S f2 key (bytes_of_wifi (n2 i))) \<and>
      R (snd (save_one S f key (bytes_of_wifi (n1 i)))) (snd (save_one S f2 key (bytes_of_wifi (n2 i))))"
    using assms(1) Cons.prems(2) unfolding store_blind_def by blast
  then obtain g2 where two: "save_one S f2 key (bytes_of_wifi (n2 i)) = (r, g2)" "R g g2"
    unfolding one by (metis fst_conv prod.collapse snd_conv)
  show ?case
  proof (cases "r = 0")
    case True
    have "nets_alike ((cfg_wifi c)(i := n1 i)) (nets(i := n2 i))"
      using Cons.prems(3) assms(2) by (simp add: nets_alike_def)
    with Cons.IH [of g "c\<lparr>cfg_wifi := (cfg_wifi c)(i := n1 i)\<rparr>" g2 "nets(i := n2 i)"] Cons.prems(1) two(2) True
    show ?thesis unfolding wifi_save_from.simps key_def [symmetric] by (simp add: one two(1) fun_upd_def)
  next
    case False
    with Cons.prems two show ?thesis unfolding wifi_save_from.simps key_def [symmetric] by (auto simp: one two(1))
  qed
qed

section \<open>Rules for pairs of runs\<close>

text \<open>
  A handler is followed through its two runs at once: where both branch on the same value
  they take the same branch, and what a setter returns is related as its arguments are.
\<close>

lemma tells_sum:
  assumes "\<And>a. x = Inl a \<Longrightarrow> tells_nothing R (f1 a) (f2 a)" and "\<And>b. x = Inr b \<Longrightarrow> tells_nothing R (g1 b) (g2 b)"
  shows "tells_nothing R (case x of Inl a \<Rightarrow> f1 a | Inr b \<Rightarrow> g1 b) (case x of Inl a \<Rightarrow> f2 a | Inr b \<Rightarrow> g2 b)"
  using assms by (cases x) auto

lemma tells_option:
  assumes "\<And>a. x = Some a \<Longrightarrow> tells_nothing R (f1 a) (f2 a)" and "x = None \<Longrightarrow> tells_nothing R e1 e2"
  shows "tells_nothing R (case x of None \<Rightarrow> e1 | Some a \<Rightarrow> f1 a) (case x of None \<Rightarrow> e2 | Some a \<Rightarrow> f2 a)"
  using assms by (cases x) auto

lemma tells_if:
  assumes "c \<Longrightarrow> tells_nothing R x1 x2" and "\<not> c \<Longrightarrow> tells_nothing R y1 y2"
  shows "tells_nothing R (if c then x1 else y1) (if c then x2 else y2)"
  using assms by simp

lemma tells_case:
  assumes "\<And>a b. x = (a, b) \<Longrightarrow> tells_nothing R (f1 a b) (f2 a b)"
  shows "tells_nothing R (case x of (a, b) \<Rightarrow> f1 a b) (case x of (a, b) \<Rightarrow> f2 a b)"
  using assms by (cases x) auto

lemma tells_seq:
  assumes "tells_nothing R x1 x2" and "\<And>a e1 e2. alike R e1 e2 \<Longrightarrow> tells_nothing R (f1 a e1) (f2 a e2)"
  shows "tells_nothing R (case x1 of (a, d) \<Rightarrow> f1 a d) (case x2 of (a, d) \<Rightarrow> f2 a d)"
  using assms by (cases x1; cases x2) auto

lemma tells_pair: "a = b \<Longrightarrow> alike R d1 d2 \<Longrightarrow> tells_nothing R (a, d1) (b, d2)"
  by simp

definition set_alike ::
  "('f \<Rightarrow> 'f \<Rightarrow> bool) \<Rightarrow> 'f device \<Rightarrow> 'f device \<Rightarrow> int \<times> 'f \<times> app_settings \<Rightarrow> int \<times> 'f \<times> app_settings \<Rightarrow> bool" where
  "set_alike R d1 d2 s1 s2 \<longleftrightarrow> fst s1 = fst s2 \<and>
     alike R (d1\<lparr>d_store := fst (snd s1), d_cfg := snd (snd s1)\<rparr>) (d2\<lparr>d_store := fst (snd s2), d_cfg := snd (snd s2)\<rparr>)"

lemma tells_set:
  assumes "set_alike R d1 d2 s1 s2"
    and "\<And>ret g1 c1 g2 c2. alike R (d1\<lparr>d_store := g1, d_cfg := c1\<rparr>) (d2\<lparr>d_store := g2, d_cfg := c2\<rparr>) \<Longrightarrow>
      tells_nothing R (f1 ret g1 c1) (f2 ret g2 c2)"
  shows "tells_nothing R (case s1 of (ret, f, c) \<Rightarrow> f1 ret f c) (case s2 of (ret, f, c) \<Rightarrow> f2 ret f c)"
  using assms unfolding set_alike_def by (cases s1; cases s2) auto

lemmas tells_rules = tells_sum tells_option tells_if tells_pair refl

lemma alike_views:
  assumes "alike R d1 d2"
  shows "d_lockstep d2 = d_lockstep d1" "d_health d2 = d_health d1" "d_health_blob d2 = d_health_blob d1"
    "d_locate_until d2 = d_locate_until d1" "d_wifi d2 = d_wifi d1" "d_verbose d2 = d_verbose d1"
    "d_log_levels d2 = d_log_levels d1" "role_str B (d_cfg d2) = role_str B (d_cfg d1)"
    "app_settings_effective_device_id (d_cfg d2) = app_settings_effective_device_id (d_cfg d1)"
    "app_settings_ring_offset (d_cfg d2) = app_settings_ring_offset (d_cfg d1)"
    "app_settings_device_id (d_cfg d2) = app_settings_device_id (d_cfg d1)"
    "wifi_reply C cap d2 = wifi_reply C cap d1"
  using assms by (auto elim!: alikeE simp: wifi_reply_twin)

lemma alike_keep:
  assumes "alike R d1 d2"
  shows "alike R (d1\<lparr>d_lockstep := ls\<rparr>) (d2\<lparr>d_lockstep := ls\<rparr>)"
    and "alike R (d1\<lparr>d_locate_until := t\<rparr>) (d2\<lparr>d_locate_until := t\<rparr>)"
    and "alike R (d1\<lparr>d_health := h\<rparr>) (d2\<lparr>d_health := h\<rparr>)"
    and "alike R (d1\<lparr>d_health := h, d_health_blob := b\<rparr>) (d2\<lparr>d_health := h, d_health_blob := b\<rparr>)"
    and "alike R (d1\<lparr>d_verbose := v, d_log_levels := l\<rparr>) (d2\<lparr>d_verbose := v, d_log_levels := l\<rparr>)"
    and "alike R (d1\<lparr>d_wifi := w\<rparr>) (d2\<lparr>d_wifi := w\<rparr>)"
  using assms by (auto elim!: alikeE intro!: alikeI simp: twin_def)

lemma set_alikeI:
  assumes "alike R d1 d2"
    and "\<And>ret f c f2 nets. R (d_store d1) f2 \<Longrightarrow> set1 = (ret, f, c) \<Longrightarrow> d_store d2 = f2 \<Longrightarrow>
      d_cfg d2 = (d_cfg d1)\<lparr>cfg_wifi := nets\<rparr> \<Longrightarrow>
      \<exists>f2'. set2 = (ret, f2', c\<lparr>cfg_wifi := nets\<rparr>) \<and> R f f2' \<and> cfg_wifi c = cfg_wifi (d_cfg d1)"
  shows "set_alike R d1 d2 set1 set2"
proof -
  obtain f2 nets where d2: "d2 = twin f2 nets d1" "R (d_store d1) f2" "nets_alike (cfg_wifi (d_cfg d1)) nets"
    using assms(1) by (rule alikeE)
  obtain ret f c where one: "set1 = (ret, f, c)" by (metis prod_cases3)
  from assms(2) [OF d2(2) one, of nets] obtain f2' where
    two: "set2 = (ret, f2', c\<lparr>cfg_wifi := nets\<rparr>)" "R f f2'" "cfg_wifi c = cfg_wifi (d_cfg d1)"
    by (auto simp: d2(1))
  have "alike R (d1\<lparr>d_store := f, d_cfg := c\<rparr>) (d2\<lparr>d_store := f2', d_cfg := c\<lparr>cfg_wifi := nets\<rparr>\<rparr>)"
    by (rule alikeI [of _ _ f2' nets]) (simp_all add: two d2 twin_def)
  then show ?thesis by (simp add: set_alike_def one two(1))
qed

lemma setters_alike:
  assumes "store_blind S R" and "alike R d1 d2"
  shows "set_alike R d1 d2 (app_settings_set_peer S (d_store d1) (d_cfg d1) slot ip port pid)
      (app_settings_set_peer S (d_store d2) (d_cfg d2) slot ip port pid)"
    and "set_alike R d1 d2 (app_settings_clear_peer S (d_store d1) (d_cfg d1) slot)
      (app_settings_clear_peer S (d_store d2) (d_cfg d2) slot)"
    and "set_alike R d1 d2 (app_settings_set_device_id S (d_store d1) (d_cfg d1) did)
      (app_settings_set_device_id S (d_store d2) (d_cfg d2) did)"
    and "set_alike R d1 d2 (app_settings_set_ring_offset S (d_store d1) (d_cfg d1) n)
      (app_settings_set_ring_offset S (d_store d2) (d_cfg d2) n)"
    and "set_alike R d1 d2 (app_settings_set_operator S (d_store d1) (d_cfg d1) op)
      (app_settings_set_operator S (d_store d2) (d_cfg d2) op)"
  by (rule set_alikeI [OF assms(2)], metis set_peer_twin [OF assms(1)],
      rule set_alikeI [OF assms(2)], metis clear_peer_twin [OF assms(1)],
      rule set_alikeI [OF assms(2)], metis scalar_twins(1) [OF assms(1)],
      rule set_alikeI [OF assms(2)], metis scalar_twins(2) [OF assms(1)],
      rule set_alikeI [OF assms(2)], metis scalar_twins(3) [OF assms(1)])

section \<open>Handlers\<close>

lemma clear_slot_twin:
  assumes "store_blind (ab_backend B) R" and "alike R d1 d2"
  shows "tells_nothing R (clear_slot B slot d1) (clear_slot B slot d2)"
proof -
  note keep = alike_keep(1) [of R "d1\<lparr>d_store := g1, d_cfg := c1\<rparr>" "d2\<lparr>d_store := g2, d_cfg := c2\<rparr>" for g1 c1 g2 c2, simplified]
  show ?thesis
    unfolding clear_slot_def
    by (rule tells_set [OF setters_alike(2) [OF assms]]) (auto simp: alike_views(1) [OF assms(2)] keep)
qed

lemma set_slot_twin:
  assumes "store_blind (ab_backend B) R" and "alike R d1 d2"
  shows "tells_nothing R (set_slot B slot url d1) (set_slot B slot url d2)"
proof -
  note keep = alike_keep(1) [of R "d1\<lparr>d_store := g1, d_cfg := c1\<rparr>" "d2\<lparr>d_store := g2, d_cfg := c2\<rparr>" for g1 c1 g2 c2, simplified]
  show ?thesis
    unfolding set_slot_def Let_def alike_views(1) [OF assms(2)]
    by (intro tells_rules tells_set [OF setters_alike(1) [OF assms]] assms(2) keep)
qed

lemma peer_twin:
  assumes "store_blind (ab_backend B) R" and "alike R d1 d2"
  shows "tells_nothing R (pstop_api_pstop_peer B cap url d1) (pstop_api_pstop_peer B cap url d2)"
  unfolding pstop_api_pstop_peer_def
  by (intro tells_rules tells_seq [OF clear_slot_twin [OF assms]] tells_seq [OF set_slot_twin [OF assms]] tells_case)

lemma peers_twin:
  assumes "store_blind (ab_backend B) R" and "alike R d1 d2"
  shows "tells_nothing R (pstop_api_pstop_peers B cap url d1) (pstop_api_pstop_peers B cap url d2)"
  unfolding pstop_api_pstop_peers_def Let_def alike_views(1) [OF assms(2)]
  by (intro tells_rules tells_seq [OF clear_slot_twin [OF assms]] tells_seq [OF set_slot_twin [OF assms]] tells_case
      assms(2) alike_keep(1) [OF assms(2)])

lemma role_twin:
  assumes "store_blind (ab_backend B) R" and "alike R d1 d2"
  shows "tells_nothing R (pstop_api_role B cap post url auth d1) (pstop_api_role B cap post url auth d2)"
proof -
  note views = alike_views(8) [of R "d1\<lparr>d_store := g1, d_cfg := c1\<rparr>" "d2\<lparr>d_store := g2, d_cfg := c2\<rparr>" B for g1 c1 g2 c2, simplified]
  show ?thesis
    unfolding pstop_api_role_def alike_views(8) [OF assms(2)]
    by (intro tells_rules tells_set [OF setters_alike(5) [OF assms]] assms(2); simp add: views)
qed

lemma ring_offset_twin:
  assumes "store_blind (ab_backend B) R" and "alike R d1 d2"
  shows "tells_nothing R (pstop_api_ring_offset B cap url d1) (pstop_api_ring_offset B cap url d2)"
  unfolding pstop_api_ring_offset_def Let_def
  by (intro tells_rules tells_set [OF setters_alike(4) [OF assms]] assms(2))

lemma ring_led1_twin:
  assumes "alike R d1 d2"
  shows "tells_nothing R (pstop_api_ring_led1 N cap url d1) (pstop_api_ring_led1 N cap url d2)"
  unfolding pstop_api_ring_led1_def Let_def alike_views(10) [OF assms]
  by (intro tells_rules assms alike_keep(2))

lemma health_twin:
  assumes "alike R d1 d2"
  shows "tells_nothing R (pstop_api_health B N cap d1) (pstop_api_health B N cap d2)"
  unfolding pstop_api_health_def Let_def alike_views(2) [OF assms]
  by (intro tells_rules tells_case assms alike_keep(3))

lemma health_reset_twin:
  assumes "alike R d1 d2"
  shows "tells_nothing R (pstop_api_health_reset B N cap url auth d1) (pstop_api_health_reset B N cap url auth d2)"
proof -
  have put: "alike R (put_health blobs h d1) (put_health blobs h d2)" for blobs h
    unfolding put_health_def alike_views(3) [OF assms] by (rule alike_keep(4) [OF assms])
  show ?thesis
    unfolding pstop_api_health_reset_def Let_def alike_views(2) [OF assms]
    by (intro tells_rules tells_case assms put)
qed

lemma verbose_twin:
  assumes "alike R d1 d2"
  shows "tells_nothing R (pstop_api_admin_verbose B cap toggle auth d1) (pstop_api_admin_verbose B cap toggle auth d2)"
  unfolding pstop_api_admin_verbose_def Let_def alike_views(6,7) [OF assms]
  by (intro tells_rules tells_case assms alike_keep(5); simp)

lemma settings_twin:
  assumes "store_blind (ab_backend B) R" and "alike R d1 d2"
  shows "tells_nothing R (pstop_api_admin_settings B cap post body auth d1)
    (pstop_api_admin_settings B cap post body auth d2)"
proof -
  define ask where "ask = fold (\<lambda>slot ls. snd (pstop_lockstep_request_reconfigure (int slot) ls)) [0..<PSTOP_MAX_MACHINES]"
  define answer where "answer = (\<lambda>d :: 'a device.
    (reply cap init_rsp 200
       (''{\"ok\":true,\"ring_offset\":'' @ fmt_u (app_settings_ring_offset (d_cfg d)) @
        '',\"device_id\":'' @ fmt_u (app_settings_effective_device_id (d_cfg d)) @
        '',\"device_id_pinned\":'' @ fmt_bool (app_settings_device_id (d_cfg d) \<noteq> 0) @ ''}''), d))"
  have ans: "tells_nothing R (answer e1) (answer e2)" if "alike R e1 e2" for e1 e2
    unfolding answer_def alike_views(9-11) [OF that] by (intro tells_rules that)
  define set_id where "set_id = (\<lambda>did (d :: 'a device).
    (case app_settings_set_device_id (ab_backend B) (d_store d) (d_cfg d) did of (ret, f, cfg) \<Rightarrow>
       if ret \<noteq> 0 then (settings_write_failed cap, d\<lparr>d_store := f, d_cfg := cfg\<rparr>)
       else answer (d\<lparr>d_store := f, d_cfg := cfg, d_lockstep := ask (d_lockstep d)\<rparr>)))"
  have id: "tells_nothing R (set_id did e1) (set_id did e2)" if e: "alike R e1 e2" for did e1 e2
  proof -
    note keep = alike_keep(1) [of R "e1\<lparr>d_store := g1, d_cfg := c1\<rparr>" "e2\<lparr>d_store := g2, d_cfg := c2\<rparr>" for g1 c1 g2 c2, simplified]
    show ?thesis
      unfolding set_id_def alike_views(1) [OF e]
      by (intro tells_rules tells_set [OF setters_alike(3) [OF assms(1) e]] ans keep)
  qed
  have ring: "set_alike R d1 d2
      (if c then app_settings_set_ring_offset (ab_backend B) (d_store d1) (d_cfg d1) n else (0, d_store d1, d_cfg d1))
      (if c then app_settings_set_ring_offset (ab_backend B) (d_store d2) (d_cfg d2) n else (0, d_store d2, d_cfg d2))" for c n
    using setters_alike(4) [OF assms] assms(2) by (simp add: set_alike_def)
  show ?thesis
    unfolding pstop_api_admin_settings_def Let_def answer_def [symmetric] ask_def [symmetric]
    by (intro tells_rules tells_case tells_set [OF ring] ans id [unfolded set_id_def] assms(2))
qed

section \<open>New networks\<close>

lemma stored_pass_twin:
  assumes "nets_alike (cfg_wifi c) nets"
  shows "stored_pass (c\<lparr>cfg_wifi := nets\<rparr>) s = [] \<longleftrightarrow> stored_pass c s = []"
proof -
  have same: "(case app_settings_wifi_get (c\<lparr>cfg_wifi := nets\<rparr>) (int j) of Inl _ \<Rightarrow> False | Inr old \<Rightarrow> ssid old = s) =
      (case app_settings_wifi_get c (int j) of Inl _ \<Rightarrow> False | Inr old \<Rightarrow> ssid old = s)"
    "(case app_settings_wifi_get (c\<lparr>cfg_wifi := nets\<rparr>) (int j) of Inl _ \<Rightarrow> [] | Inr old \<Rightarrow> pass old) = [] \<longleftrightarrow>
      (case app_settings_wifi_get c (int j) of Inl _ \<Rightarrow> [] | Inr old \<Rightarrow> pass old) = []" for j
    using assms by (simp_all add: app_settings_wifi_get_def nets_alike_def)
  show ?thesis unfolding stored_pass_def same(1) using same(2) by (simp split: option.split)
qed

text \<open>The same request body gives the same refusal, or networks that differ in old passwords only.\<close>

definition same_result :: "string + (nat \<Rightarrow> pstop_wifi_net) \<Rightarrow> string + (nat \<Rightarrow> pstop_wifi_net) \<Rightarrow> bool" where
  "same_result x1 x2 \<longleftrightarrow> (case x1 of Inl err \<Rightarrow> x2 = Inl err | Inr m1 \<Rightarrow> \<exists>m2. x2 = Inr m2 \<and> nets_alike m1 m2)"

lemma same_result_simps [simp]:
  "same_result (Inl err) x2 \<longleftrightarrow> x2 = Inl err"
  "same_result (Inr m1) x2 \<longleftrightarrow> (\<exists>m2. x2 = Inr m2 \<and> nets_alike m1 m2)"
  by (simp_all add: same_result_def)

lemma same_result_if:
  "(c \<Longrightarrow> same_result x1 x2) \<Longrightarrow> (\<not> c \<Longrightarrow> same_result y1 y2) \<Longrightarrow>
     same_result (if c then x1 else y1) (if c then x2 else y2)"
  by simp

lemma same_result_option:
  "same_result x1 x2 \<Longrightarrow> (\<And>a. same_result (f1 a) (f2 a)) \<Longrightarrow>
     same_result (case o' of None \<Rightarrow> x1 | Some a \<Rightarrow> f1 a) (case o' of None \<Rightarrow> x2 | Some a \<Rightarrow> f2 a)"
  by (cases o') simp_all

lemma json_loop_twin:
  assumes "nets_alike (cfg_wifi c) nets" and "nets_alike n1 n2"
  shows "same_result (wifi_from_json_loop c i networks n1)
    (wifi_from_json_loop (c\<lparr>cfg_wifi := nets\<rparr>) i networks n2)"
  using assms(2)
proof (induction networks arbitrary: i n1 n2)
  case (Cons e networks)
  obtain s p where e: "e = (s, p)" by fastforce
  define q where "q = (case p of Some p \<Rightarrow> p | None \<Rightarrow> [])"
  have go: "same_result (wifi_from_json_loop c (i + 1) networks (n1(i := w1)))
      (wifi_from_json_loop (c\<lparr>cfg_wifi := nets\<rparr>) (i + 1) networks (n2(i := w2)))"
    if "ssid w1 = ssid w2" "pass w1 = [] \<longleftrightarrow> pass w2 = []" for w1 w2
    by (rule Cons.IH, rule nets_alike_upd [OF Cons.prems that])
  have old: "same_result (wifi_from_json_loop c (i + 1) networks (n1(i := \<lparr>ssid = t, pass = stored_pass c t\<rparr>)))
      (wifi_from_json_loop (c\<lparr>cfg_wifi := nets\<rparr>) (i + 1) networks
        (n2(i := \<lparr>ssid = t, pass = stored_pass (c\<lparr>cfg_wifi := nets\<rparr>) t\<rparr>)))" for t
    by (rule go) (simp_all add: stored_pass_twin [OF assms(1)])
  have new: "same_result (wifi_from_json_loop c (i + 1) networks (n1(i := \<lparr>ssid = t, pass = q\<rparr>)))
      (wifi_from_json_loop (c\<lparr>cfg_wifi := nets\<rparr>) (i + 1) networks (n2(i := \<lparr>ssid = t, pass = q\<rparr>)))" for t
    by (rule go) simp_all
  show ?case
    unfolding e wifi_from_json_loop.simps Let_def q_def [symmetric]
    by (intro same_result_option same_result_if old new) simp_all
qed simp

lemma nets_alike_refl [simp]: "nets_alike n n"
  by (simp add: nets_alike_def)

lemma wifi_twin:
  assumes "store_blind (ab_backend B) R" and "alike R d1 d2"
  shows "tells_nothing R (pstop_api_admin_wifi B cap post body auth d1)
    (pstop_api_admin_wifi B cap post body auth d2)"
proof -
  obtain f2 nets where d2: "d2 = twin f2 nets d1" "R (d_store d1) f2" "nets_alike (cfg_wifi (d_cfg d1)) nets"
    using assms(2) by (rule alikeE)
  have save: "set_alike R d1 d2 (app_settings_wifi_set_all (ab_backend B) (d_store d1) (d_cfg d1) m1)
      (app_settings_wifi_set_all (ab_backend B) (d_store d2) (d_cfg d2) m2)" if m: "nets_alike m1 m2" for m1 m2
  proof -
    obtain ret f c where one: "app_settings_wifi_set_all (ab_backend B) (d_store d1) (d_cfg d1) m1 = (ret, f, c)"
      by (metis prod_cases3)
    from wifi_save_twin [OF assms(1) m one [unfolded app_settings_wifi_set_all_def] d2(2,3)] obtain f2' nets' where
      two: "app_settings_wifi_set_all (ab_backend B) f2 ((d_cfg d1)\<lparr>cfg_wifi := nets\<rparr>) m2 = (ret, f2', c\<lparr>cfg_wifi := nets'\<rparr>)"
        "R f f2'" "nets_alike (cfg_wifi c) nets'" unfolding app_settings_wifi_set_all_def by blast
    have "alike R (d1\<lparr>d_store := f, d_cfg := c\<rparr>) (d2\<lparr>d_store := f2', d_cfg := c\<lparr>cfg_wifi := nets'\<rparr>\<rparr>)"
      by (rule alikeI [of _ _ f2' nets']) (simp_all add: two d2 twin_def)
    then show ?thesis by (simp add: set_alike_def one two(1) d2(1))
  qed
  have listing: "tells_nothing R (wifi_reply B cap e1, e1) (wifi_reply B cap e2, e2)" if "alike R e1 e2" for e1 e2
    by (rule tells_pair [OF alike_views(12) [OF that, symmetric] that])
  note keep = alike_keep(6) [of R "d1\<lparr>d_store := g1, d_cfg := c1\<rparr>" "d2\<lparr>d_store := g2, d_cfg := c2\<rparr>" for g1 c1 g2 c2, simplified]
  have json: "tells_nothing R
      (case wifi_from_json (d_cfg d1) networks of Inl err \<Rightarrow> (g err, d1) | Inr m \<Rightarrow> h1 m)
      (case wifi_from_json (d_cfg d2) networks of Inl err \<Rightarrow> (g err, d2) | Inr m \<Rightarrow> h2 m)"
    if h: "\<And>m1 m2. nets_alike m1 m2 \<Longrightarrow> tells_nothing R (h1 m1) (h2 m2)" for networks g h1 h2
    using json_loop_twin [OF d2(3), of "\<lambda>_. wifi_zero" "\<lambda>_. wifi_zero" 0 networks] h assms(2)
    by (cases "wifi_from_json (d_cfg d1) networks") (auto simp: wifi_from_json_def d2(1))
  show ?thesis
    unfolding pstop_api_admin_wifi_def Let_def alike_views(5) [OF assms(2)]
    by (intro tells_option tells_if tells_case tells_pair refl assms(2) json tells_set [OF save]
        listing keep; assumption?)
qed

section \<open>The dispatcher and the server\<close>

lemma dispatch_twin:
  assumes "store_blind (ab_backend (im_api I)) R" and "alike R d1 d2"
  shows "tells_nothing R (dispatch I cb r d1) (dispatch I cb r d2)"
proof -
  obtain f nets where d2: "d2 = twin f nets d1" using assms(2) by (rule alikeE)
  have state: "pstop_api_state B N cap d2 = pstop_api_state B N cap d1" for B :: "('b, 'a) api_build" and N cap
    by (simp add: d2 state_twin)
  have status: "pstop_api_admin_status B N cap auth d2 = pstop_api_admin_status B N cap auth d1"
    for B :: "('b, 'a) api_build" and N cap auth by (simp add: d2 status_twin)
  note seq = peer_twin [OF assms] peers_twin [OF assms] role_twin [OF assms] ring_offset_twin [OF assms]
    ring_led1_twin [OF assms(2)] health_twin [OF assms(2)] health_reset_twin [OF assms(2)]
    settings_twin [OF assms] wifi_twin [OF assms] verbose_twin [OF assms(2)]
  have put: "tells_nothing R (case x1 of (a, d) \<Rightarrow> (answer a, d)) (case x2 of (a, d) \<Rightarrow> (answer a, d))"
    if "tells_nothing R x1 x2" for x1 x2 using that by (cases x1; cases x2) simp
  have kept: "tells_nothing R (x, d1) (x, d2)" for x :: dispatched using assms(2) by simp
  show ?thesis
    by (cases "cb_route cb")
      (simp_all add: dispatch_def Let_def case_prod_unfold state status kept
        put [OF seq(1), unfolded case_prod_unfold] put [OF seq(2), unfolded case_prod_unfold]
        put [OF seq(3), unfolded case_prod_unfold] put [OF seq(4), unfolded case_prod_unfold]
        put [OF seq(5), unfolded case_prod_unfold] put [OF seq(6), unfolded case_prod_unfold]
        put [OF seq(7), unfolded case_prod_unfold] put [OF seq(8), unfolded case_prod_unfold]
        put [OF seq(9), unfolded case_prod_unfold] put [OF seq(10), unfolded case_prod_unfold] del: tells_nothing_pair)
qed

text \<open>Two servers in the same state but for the secrets of their devices.\<close>

definition servers_alike :: "('f \<Rightarrow> 'f \<Rightarrow> bool) \<Rightarrow> 'f server \<Rightarrow> 'f server \<Rightarrow> bool" where
  "servers_alike R sv1 sv2 \<longleftrightarrow> sv_reqs sv1 = sv_reqs sv2 \<and> sv_restart sv1 = sv_restart sv2 \<and>
     alike R (sv_device sv1) (sv_device sv2)"

text \<open>What a run of callbacks returns to the server: code, status, headers and body of each.\<close>

fun answers :: "('m, 'f) image \<Rightarrow> callback list \<Rightarrow> 'f server \<Rightarrow> (int \<times> http_response_ctx) list" where
  "answers I [] sv = []"
| "answers I (cb # cbs) sv = fst (route_handler I cb sv) # answers I cbs (serve I cb sv)"

lemma serve_twin:
  assumes "store_blind (ab_backend (im_api I)) R" and "servers_alike R sv1 sv2"
  shows "fst (route_handler I cb sv1) = fst (route_handler I cb sv2) \<and>
    servers_alike R (serve I cb sv1) (serve I cb sv2)"
proof -
  have same: "sv_reqs sv2 = sv_reqs sv1" "sv_restart sv2 = sv_restart sv1" "alike R (sv_device sv1) (sv_device sv2)"
    using assms(2) by (simp_all add: servers_alike_def)
  show ?thesis
  proof (cases "ends cb")
    case True
    with same show ?thesis by (auto simp: serve_def route_handler_def ends_def servers_alike_def)
  next
    case False
    show ?thesis
    proof (cases "req_for (cb_client cb) (sv_reqs sv1)")
      case None
      with False same show ?thesis by (simp add: serve_def route_handler_def ends_def servers_alike_def)
    next
      case (Some p)
      obtain i reqs where p: "req_for (cb_client cb) (sv_reqs sv1) = Some (i, reqs)" using Some by (cases p) auto
      obtain out e1 e2 where out: "dispatch I cb (taken_in I cb (reqs ! i)) (sv_device sv1) = (out, e1)"
        "dispatch I cb (taken_in I cb (reqs ! i)) (sv_device sv2) = (out, e2)" "alike R e1 e2"
        using dispatch_twin [OF assms(1) same(3), of cb "taken_in I cb (reqs ! i)"] by (rule tells_nothingE)
      show ?thesis
        using False same(3) out(3)
        by (cases out)
          (simp_all add: serve_def route_handler_def ends_def p same(1,2) Let_def case_prod_unfold out(1,2)
            respond_def servers_alike_def taken_in_def [symmetric])
    qed
  qed
qed

text \<open>
  C19. No answer of the control plane tells a password. Take two servers in the same state whose
  devices differ only in the stored passwords (not in which networks have one) and in the bytes
  of their stores, over a store whose return codes do not depend on the passwords written to
  it. Then every run of callbacks on any routes, GET or POST, with any credentials and bodies,
  is answered the same by both, to the last byte, status and header, and leaves them differing
  in no more than that. The last log and the crash dump are inputs of the run, the same for
  both: they are bytes of an earlier one.
\<close>

theorem http_hides_passwords:
  assumes "store_blind (ab_backend (im_api I)) R" and "servers_alike R sv1 sv2"
  shows "answers I cbs sv1 = answers I cbs sv2 \<and>
    servers_alike R (fold (serve I) cbs sv1) (fold (serve I) cbs sv2)"
  using assms(2)
proof (induction cbs arbitrary: sv1 sv2)
  case (Cons cb cbs)
  from serve_twin [OF assms(1) Cons.prems, of cb] Cons.IH [of "serve I cb sv1" "serve I cb sv2"] show ?case by simp
qed simp

text \<open>The stores of the witness are alike when they hold the same items in the same order.\<close>

lemma demo_store_blind: "store_blind demo_backend (\<lambda>f1 f2. map fst f1 = map fst f2)"
proof -
  have keys: "map fst (AList.update k b f) = (if k \<in> set (map fst f) then map fst f else map fst f @ [k])"
    for k and b :: bytes and f by (induction f) auto
  have "fst (save_one demo_backend f1 key b1) = fst (save_one demo_backend f2 key b2) \<and>
      map fst (snd (save_one demo_backend f1 key b1)) = map fst (snd (save_one demo_backend f2 key b2))"
    if same: "map fst f1 = map fst f2" for f1 f2 :: "(string \<times> bytes) list" and key b1 b2
  proof -
    have "length f1 = length f2" using same by (metis length_map)
    then show ?thesis by (simp add: demo_backend_def keys same)
  qed
  then show ?thesis unfolding store_blind_def by blast
qed

definition demo_secrets :: "string \<Rightarrow> (string \<times> bytes) list server" where
  "demo_secrets p = demo_server\<lparr>sv_device := demo_wifi_device\<lparr>
     d_store := [(''wifi/1'', bytes_of_wifi \<lparr>ssid = ''lab'', pass = p\<rparr>)],
     d_cfg := (d_cfg demo_wifi_device)\<lparr>cfg_wifi := (\<lambda>i. if i = 1 then \<lparr>ssid = ''lab'', pass = p\<rparr> else wifi_zero)\<rparr>\<rparr>\<rparr>"

definition demo_wifi_request :: "bool \<Rightarrow> callback" where
  "demo_wifi_request post = demo_callback 1 HTTP_SERVER_REQUEST_DATA_FINAL ''{}''
     (Some [(''authorization'', ''Basic admin:pw'')])\<lparr>cb_route := ROUTE_ADMIN_WIFI, cb_post := post\<rparr>"

theorem http_hides_passwords_witness:
  "answers demo_image [demo_wifi_request False, demo_wifi_request True, demo_wifi_request False] (demo_secrets ''secret99'') =
   answers demo_image [demo_wifi_request False, demo_wifi_request True, demo_wifi_request False] (demo_secrets ''another1'')"
proof -
  have "store_blind (ab_backend (im_api demo_image)) (\<lambda>f1 f2. map fst f1 = map fst f2)"
    using demo_store_blind by (simp add: demo_image_def demo_build_def)
  moreover have "servers_alike (\<lambda>f1 f2. map fst f1 = map fst f2) (demo_secrets ''secret99'') (demo_secrets ''another1'')"
    by (simp add: servers_alike_def demo_secrets_def demo_server_def alike_def nets_alike_def twin_def)
  ultimately show ?thesis using http_hides_passwords by blast
qed

end
