(* ===== verification/Codex_Json.thy ===== *)
theory Codex_Json
  imports Prelude
begin

text \<open>
  The member lookup of the macropad (\<open>codex_keys/src/codex_json.c\<close>). A pointer into the text is
  the rest of the text from there; the end of the list is the terminating NUL, and a result
  pointer with a length is a rest with a length. The reference is a JSON document with its
  white space and its printer: the scanner finds the first member of that name at the top level,
  wherever else the name occurs.
\<close>

section \<open>The scanner\<close>

definition json_ws :: "char \<Rightarrow> bool" where
  "json_ws c \<longleftrightarrow> c = CHR '' '' \<or> c = CHR 0x09 \<or> c = CHR 0x0A \<or> c = CHR 0x0D"

definition skip_ws :: "string \<Rightarrow> string" where
  "skip_ws p = dropWhile json_ws p"

text \<open>The loop of \<open>skip_string\<close>, after the opening quote.\<close>

fun skip_string_body :: "string \<Rightarrow> string option" where
  "skip_string_body [] = None"
| "skip_string_body (c # p) =
     (if c = CHR 0x22 then Some p
      else if c = CHR 0x5C \<and> p \<noteq> [] then skip_string_body (tl p)
      else skip_string_body p)"

definition skip_string :: "string \<Rightarrow> string option" where
  "skip_string p = skip_string_body (tl p)"

lemma skip_string_body_shorter: "skip_string_body p = Some r \<Longrightarrow> length r < length p"
  by (induction p rule: skip_string_body.induct) (fastforce split: if_splits)+

lemma skip_string_shorter: "skip_string p = Some r \<Longrightarrow> length r < length p"
  unfolding skip_string_def by (drule skip_string_body_shorter) (cases p, auto)

definition json_open :: "char \<Rightarrow> bool" where
  "json_open c \<longleftrightarrow> c = CHR ''{'' \<or> c = CHR ''[''"

definition json_close :: "char \<Rightarrow> bool" where
  "json_close c \<longleftrightarrow> c = CHR ''}'' \<or> c = CHR '']''"

text \<open>One round of the \<open>do\<close> loop and its condition.\<close>

function skip_nested :: "int \<Rightarrow> string \<Rightarrow> string option" where
  "skip_nested depth [] = None"
| "skip_nested depth (c # p) =
     (if c = CHR 0x22
      then (case skip_string (c # p) of None \<Rightarrow> None
            | Some r \<Rightarrow> if depth > 0 then skip_nested depth r else Some r)
      else (let depth = (if json_open c then depth + 1 else if json_close c then depth - 1 else depth)
            in if depth > 0 then skip_nested depth p else Some p))"
  by pat_completeness auto
termination
  by (relation "measure (\<lambda>(depth, p). length p)") (auto dest: skip_string_shorter)

definition structural :: "char \<Rightarrow> bool" where
  "structural c \<longleftrightarrow> c \<in> set '',}] '' \<or> json_ws c"

definition skip_value :: "string \<Rightarrow> string option" where
  "skip_value p =
     (case p of [] \<Rightarrow> Some []
      | c # q \<Rightarrow>
          if c = CHR 0x22 then skip_string p
          else if json_open c then skip_nested 0 p
          else Some (dropWhile (\<lambda>c. \<not> structural c) p))"

lemma skip_nested_shorter: "skip_nested depth p = Some r \<Longrightarrow> length r < length p"
proof (induction depth p rule: skip_nested.induct)
  case (2 depth c p)
  then show ?case
    by (cases "skip_string (c # p)")
      (auto simp: Let_def split: if_splits dest: skip_string_shorter)
qed simp

lemma skip_value_le: "skip_value p = Some r \<Longrightarrow> length r \<le> length p"
  by (auto simp: skip_value_def length_dropWhile_le dest: skip_string_shorter skip_nested_shorter
      split: list.splits if_splits)
    (simp add: le_SucI length_dropWhile_le)

lemma skip_ws_le: "length (skip_ws p) \<le> length p"
  by (simp add: skip_ws_def length_dropWhile_le)

text \<open>
  One round of the member loop: \<open>p\<close> stands after the opening brace or a comma. The value's
  pointer is returned with its length.
\<close>

function member_loop :: "string \<Rightarrow> string \<Rightarrow> (string \<times> nat) option" where
  "member_loop key p =
     (let p = skip_ws p in
      if p = [] \<or> hd p \<noteq> CHR 0x22 then None
      else (case skip_string p of None \<Rightarrow> None
      | Some name_end \<Rightarrow>
          (let q = skip_ws name_end in
           if q = [] \<or> hd q \<noteq> CHR '':'' then None
           else (let val = skip_ws (tl q) in
             (case skip_value val of None \<Rightarrow> None
              | Some value_end \<Rightarrow>
                  (let name_len = length (tl p) - length name_end - 1 in
                   if name_len = length key \<and> take name_len (tl p) = key
                   then Some (val, length val - length value_end)
                   else (let r = skip_ws value_end in
                         if r = [] \<or> hd r \<noteq> CHR '','' then None
                         else member_loop key (tl r))))))))"
  by pat_completeness auto

termination
proof (relation "measure (\<lambda>(key, p). length p)", simp, clarsimp)
  fix p name_end value_end :: string
  assume a: "skip_string (skip_ws p) = Some name_end" "skip_value (skip_ws (tl (skip_ws name_end))) = Some value_end"
    and ne: "skip_ws value_end \<noteq> []"
  have "length (skip_ws value_end) \<le> length value_end" by (rule skip_ws_le)
  also have "\<dots> \<le> length (skip_ws (tl (skip_ws name_end)))" by (rule skip_value_le [OF a(2)])
  also have "\<dots> \<le> length (tl (skip_ws name_end))" by (rule skip_ws_le)
  also have "\<dots> \<le> length (skip_ws name_end)" by simp
  also have "\<dots> \<le> length name_end" by (rule skip_ws_le)
  also have "\<dots> < length (skip_ws p)" by (rule skip_string_shorter [OF a(1)])
  also have "\<dots> \<le> length p" by (rule skip_ws_le)
  finally show "length (skip_ws value_end) - Suc 0 < length p" by linarith
qed

declare skip_nested.simps(2) [simp del]
declare member_loop.simps [simp del]

definition codex_json_member :: "string \<Rightarrow> string \<Rightarrow> (string \<times> nat) option" where
  "codex_json_member json key =
     (let p = skip_ws json in if p = [] \<or> hd p \<noteq> CHR ''{'' then None else member_loop key (tl p))"

definition codex_json_str_eq :: "(string \<times> nat) option \<Rightarrow> string \<Rightarrow> bool" where
  "codex_json_str_eq v expect =
     (case v of None \<Rightarrow> False
      | Some (val, len) \<Rightarrow>
          len = length expect + 2 \<and> val \<noteq> [] \<and> hd val = CHR 0x22 \<and>
          take (length expect) (tl val) = expect)"

section \<open>Documents\<close>

text \<open>
  A document with the white space it is written with. A string and an atom hold their raw text,
  a string without its quotes; a list of elements or members ends with the white space before
  the closing bracket when it is empty.
\<close>

datatype json =
    JString string
  | JAtom string
  | JArray json_elems
  | JObject json_members
and json_elems = ENil string | ECons string json string json_elems
and json_members = MNil string | MCons string string string string json string json_members

primrec print_json :: "json \<Rightarrow> string" and print_elems :: "json_elems \<Rightarrow> string"
  and print_members :: "json_members \<Rightarrow> string" where
  "print_json (JString s) = [CHR 0x22] @ s @ [CHR 0x22]"
| "print_json (JAtom s) = s"
| "print_json (JArray es) = ''['' @ print_elems es @ '']''"
| "print_json (JObject ms) = ''{'' @ print_members ms @ ''}''"
| "print_elems (ENil w) = w"
| "print_elems (ECons w v w' es) = w @ print_json v @ w' @
     (case es of ENil _ \<Rightarrow> '''' | ECons _ _ _ _ \<Rightarrow> '','' @ print_elems es)"
| "print_members (MNil w) = w"
| "print_members (MCons w name w1 w2 v w3 ms) = w @ [CHR 0x22] @ name @ [CHR 0x22] @ w1 @ '':'' @ w2 @
     print_json v @ w3 @
     (case ms of MNil _ \<Rightarrow> '''' | MCons _ _ _ _ _ _ _ \<Rightarrow> '','' @ print_members ms)"

text \<open>The raw text of a string: every quote is escaped and no escape is cut off.\<close>

fun string_text :: "string \<Rightarrow> bool" where
  "string_text [] \<longleftrightarrow> True"
| "string_text (c # s) \<longleftrightarrow>
     (if c = CHR 0x5C then s \<noteq> [] \<and> string_text (tl s) else c \<noteq> CHR 0x22 \<and> string_text s)"

definition atom_text :: "string \<Rightarrow> bool" where
  "atom_text s \<longleftrightarrow> s \<noteq> [] \<and>
     list_all (\<lambda>c. \<not> structural c \<and> \<not> json_open c \<and> c \<noteq> CHR 0x22) s"

abbreviation ws_text :: "string \<Rightarrow> bool" where
  "ws_text w \<equiv> list_all json_ws w"

primrec json_wf :: "json \<Rightarrow> bool" and elems_wf :: "json_elems \<Rightarrow> bool" and members_wf :: "json_members \<Rightarrow> bool" where
  "json_wf (JString s) \<longleftrightarrow> string_text s"
| "json_wf (JAtom s) \<longleftrightarrow> atom_text s"
| "json_wf (JArray es) \<longleftrightarrow> elems_wf es"
| "json_wf (JObject ms) \<longleftrightarrow> members_wf ms"
| "elems_wf (ENil w) \<longleftrightarrow> ws_text w"
| "elems_wf (ECons w v w' es) \<longleftrightarrow> ws_text w \<and> json_wf v \<and> ws_text w' \<and> elems_wf es"
| "members_wf (MNil w) \<longleftrightarrow> ws_text w"
| "members_wf (MCons w name w1 w2 v w3 ms) \<longleftrightarrow> ws_text w \<and> string_text name \<and> ws_text w1 \<and> ws_text w2 \<and>
     json_wf v \<and> ws_text w3 \<and> members_wf ms"

primrec find_member :: "string \<Rightarrow> json_members \<Rightarrow> json option" where
  "find_member key (MNil w) = None"
| "find_member key (MCons w name w1 w2 v w3 ms) = (if name = key then Some v else find_member key ms)"

section \<open>The scanner on a document\<close>

lemma skip_ws_append: "ws_text w \<Longrightarrow> skip_ws (w @ p) = skip_ws p"
  by (induction w) (simp_all add: skip_ws_def)

lemma skip_ws_stop [simp]: "\<not> json_ws c \<Longrightarrow> skip_ws (c # p) = c # p"
  by (simp add: skip_ws_def)

lemma not_ws [simp]:
  "\<not> json_ws CHR 0x22" "\<not> json_ws CHR ''{''" "\<not> json_ws CHR ''[''" "\<not> json_ws CHR '':''"
  "\<not> json_ws CHR '',''" "\<not> json_ws CHR ''}''" "\<not> json_ws CHR '']''"
  by (simp_all add: json_ws_def)

lemma string_body_end: "string_text s \<Longrightarrow> skip_string_body (s @ CHR 0x22 # r) = Some r"
proof (induction s rule: string_text.induct)
  case (2 c s)
  then show ?case by (cases s) (auto split: if_splits)
qed simp

lemma skip_string_end: "string_text s \<Longrightarrow> skip_string (CHR 0x22 # s @ CHR 0x22 # r) = Some r"
  by (simp add: skip_string_def string_body_end)

lemma nested_plain:
  "0 < d \<Longrightarrow> c \<noteq> CHR 0x22 \<Longrightarrow> \<not> json_open c \<Longrightarrow> \<not> json_close c \<Longrightarrow> skip_nested d (c # p) = skip_nested d p"
  by (simp add: skip_nested.simps(2))

lemma nested_plain_run:
  "0 < d \<Longrightarrow> list_all (\<lambda>c. c \<noteq> CHR 0x22 \<and> \<not> json_open c \<and> \<not> json_close c) s \<Longrightarrow> skip_nested d (s @ p) = skip_nested d p"
  by (induction s) (simp_all add: nested_plain)

lemma ws_plain: "json_ws c \<Longrightarrow> c \<noteq> CHR 0x22 \<and> \<not> json_open c \<and> \<not> json_close c"
  unfolding json_ws_def by (elim disjE) (simp_all add: json_open_def json_close_def)

lemma close_structural: "json_close c \<Longrightarrow> structural c"
  unfolding json_close_def structural_def by (elim disjE) simp_all

lemma plain_ws: "ws_text w \<Longrightarrow> list_all (\<lambda>c. c \<noteq> CHR 0x22 \<and> \<not> json_open c \<and> \<not> json_close c) w"
  using ws_plain by (induction w) simp_all

lemma plain_atom: "atom_text s \<Longrightarrow> list_all (\<lambda>c. c \<noteq> CHR 0x22 \<and> \<not> json_open c \<and> \<not> json_close c) s"
  unfolding atom_text_def list_all_iff using close_structural by blast

lemmas nested_skips = nested_plain_run [OF _ plain_ws] nested_plain_run [OF _ plain_atom]

lemma nested_string:
  "0 < d \<Longrightarrow> string_text s \<Longrightarrow> skip_nested d (CHR 0x22 # s @ CHR 0x22 # r) = skip_nested d r"
  by (simp add: skip_nested.simps(2) skip_string_end)

lemma nested_brackets:
  "0 < d \<Longrightarrow> json_open c \<Longrightarrow> skip_nested d (c # p) = skip_nested (d + 1) p"
  "1 < d \<Longrightarrow> json_close c \<Longrightarrow> skip_nested d (c # p) = skip_nested (d - 1) p"
  "json_close c \<Longrightarrow> skip_nested 1 (c # p) = Some p"
  by (auto simp: skip_nested.simps(2) Let_def json_open_def json_close_def)

lemma bracket_chars [simp]:
  "json_open CHR ''{''" "json_open CHR ''[''" "json_close CHR ''}''" "json_close CHR '']''"
  "\<not> json_open CHR '',''" "\<not> json_close CHR '',''" "\<not> json_open CHR '':''" "\<not> json_close CHR '':''"
  by (simp_all add: json_open_def json_close_def)

lemma nested_json:
  fixes v :: json and es :: json_elems and ms :: json_members
  shows "0 < d \<Longrightarrow> json_wf v \<Longrightarrow> skip_nested d (print_json v @ r) = skip_nested d r"
    and "0 < d \<Longrightarrow> elems_wf es \<Longrightarrow> skip_nested d (print_elems es @ r) = skip_nested d r"
    and "0 < d \<Longrightarrow> members_wf ms \<Longrightarrow> skip_nested d (print_members ms @ r) = skip_nested d r"
proof (induction v and es and ms arbitrary: d r and d r and d r)
  case (ECons w v w' es)
  then show ?case by (cases es) (simp_all add: nested_skips nested_plain)
next
  case (MCons w name w1 w2 v w3 ms)
  then show ?case
    by (cases ms) (simp_all add: nested_skips nested_plain nested_string)
qed (simp_all add: nested_skips nested_brackets nested_string)

text \<open>A value is skipped exactly; an atom needs what follows it to be structural.\<close>

definition ends_atom :: "string \<Rightarrow> bool" where
  "ends_atom r \<longleftrightarrow> r = [] \<or> structural (hd r)"

lemma atom_skip:
  assumes "atom_text s" and "ends_atom r"
  shows "dropWhile (\<lambda>c. \<not> structural c) (s @ r) = r"
proof -
  have "\<forall>c \<in> set s. \<not> structural c" using assms(1) by (auto simp: atom_text_def list_all_iff)
  then have "dropWhile (\<lambda>c. \<not> structural c) (s @ r) = dropWhile (\<lambda>c. \<not> structural c) r"
    by (simp add: dropWhile_append2)
  with assms(2) show ?thesis by (cases r) (auto simp: ends_atom_def)
qed

lemma skip_value_json:
  assumes "json_wf v" and "ends_atom r"
  shows "skip_value (print_json v @ r) = Some r"
proof (cases v)
  case (JString s)
  with assms(1) show ?thesis by (simp add: skip_value_def skip_string_end)
next
  case (JAtom s)
  with assms(1) obtain c s' where s: "s = c # s'" "c \<noteq> CHR 0x22" "\<not> json_open c"
    by (cases s) (auto simp: atom_text_def)
  from atom_skip [of s r] assms JAtom have "dropWhile (\<lambda>c. \<not> structural c) (s @ r) = r" by simp
  with s show ?thesis by (simp add: JAtom skip_value_def)
next
  case (JArray es)
  with assms(1) show ?thesis
    using nested_json(2) [of 1 es "'']'' @ r"]
    by (simp add: skip_value_def nested_brackets(3)) (simp add: skip_nested.simps(2) Let_def)
next
  case (JObject ms)
  with assms(1) show ?thesis
    using nested_json(3) [of 1 ms "''}'' @ r"]
    by (simp add: skip_value_def nested_brackets(3)) (simp add: skip_nested.simps(2) Let_def)
qed

lemma skip_ws_json:
  assumes "json_wf v"
  shows "skip_ws (print_json v @ r) = print_json v @ r"
proof (cases v)
  case (JAtom s)
  with assms show ?thesis by (cases s) (auto simp: atom_text_def structural_def)
qed (use assms in simp_all)

lemma ends_atom_ws: "ws_text w \<Longrightarrow> structural c \<Longrightarrow> ends_atom (w @ c # r)"
  by (cases w) (auto simp: ends_atom_def structural_def)

lemma structural_ends [simp]: "structural CHR '',''" "structural CHR ''}''"
  by (simp_all add: structural_def)

lemma member_loop_round:
  assumes "members_wf (MCons w name w1 w2 v w3 ms)" and "ends_atom (w3 @ r)"
  shows "member_loop key (w @ CHR 0x22 # name @ CHR 0x22 # w1 @ CHR '':'' # w2 @ print_json v @ w3 @ r) =
    (if name = key then Some (print_json v @ w3 @ r, length (print_json v))
     else (let q = skip_ws r in if q = [] \<or> hd q \<noteq> CHR '','' then None else member_loop key (tl q)))"
proof -
  let ?rest = "w1 @ CHR '':'' # w2 @ print_json v @ w3 @ r"
  have wf: "ws_text w" "string_text name" "ws_text w1" "ws_text w2" "json_wf v" "ws_text w3" using assms(1) by simp_all
  have 1: "skip_ws (w @ CHR 0x22 # name @ CHR 0x22 # ?rest) = CHR 0x22 # name @ CHR 0x22 # ?rest"
    by (simp add: skip_ws_append [OF wf(1)])
  have 2: "skip_ws ?rest = CHR '':'' # w2 @ print_json v @ w3 @ r"
    by (simp add: skip_ws_append [OF wf(3)])
  have 3: "skip_ws (w2 @ print_json v @ w3 @ r) = print_json v @ w3 @ r"
    by (simp add: skip_ws_append [OF wf(4)] skip_ws_json [OF wf(5)])
  have 4: "skip_value (print_json v @ w3 @ r) = Some (w3 @ r)"
    by (rule skip_value_json [OF wf(5) assms(2)])
  have 5: "skip_ws (w3 @ r) = skip_ws r" by (rule skip_ws_append [OF wf(6)])
  show ?thesis
    by (subst member_loop.simps) (simp add: Let_def 1 2 3 4 5 skip_string_end [OF wf(2)])
qed

text \<open>Induction over a member list alone.\<close>

lemma members_induct [case_names MNil MCons]:
  assumes "\<And>w. P (MNil w)" and "\<And>w name w1 w2 v w3 ms. P ms \<Longrightarrow> P (MCons w name w1 w2 v w3 ms)"
  shows "P ms"
  by (rule json_members.induct [of "\<lambda>_. True" "\<lambda>_. True" P]) (simp_all add: assms)

lemma member_loop_json:
  assumes "members_wf ms"
  shows "case find_member key ms of
      None \<Rightarrow> member_loop key (print_members ms @ CHR ''}'' # r) = None
    | Some v \<Rightarrow> \<exists>rest. member_loop key (print_members ms @ CHR ''}'' # r) = Some (print_json v @ rest, length (print_json v))"
  using assms
proof (induction ms rule: members_induct)
  case (MCons w name w1 w2 v w3 ms)
  note wf = MCons.prems
  have w3: "ws_text w3" using wf by simp
  show ?case
  proof (cases ms)
    case (MNil w')
    note round = member_loop_round [OF wf ends_atom_ws [OF w3, of "CHR ''}''" r], of key]
    from round show ?thesis by (cases "name = key") (auto simp: MNil Let_def)
  next
    case (MCons x1 x2 x3 x4 x5 x6 x7)
    note round = member_loop_round [OF wf ends_atom_ws [OF w3, of "CHR '',''" "print_members ms @ CHR ''}'' # r"], of key]
    have whole: "print_members (json_members.MCons w name w1 w2 v w3 ms) @ CHR ''}'' # r =
        w @ CHR 0x22 # name @ CHR 0x22 # w1 @ CHR '':'' # w2 @ print_json v @ w3 @ CHR '','' # print_members ms @ CHR ''}'' # r"
      unfolding MCons by simp
    from round MCons.IH wf show ?thesis unfolding whole
      by (cases "name = key"; cases "find_member key ms") (auto simp: Let_def)
  qed
next
  case (MNil w)
  then show ?case
    by (subst find_member.simps) (simp add: member_loop.simps [of key "w @ CHR ''}'' # r"] skip_ws_append)
qed

lemma codex_member_json:
  assumes "members_wf ms" and "ws_text w"
  shows "case find_member key ms of
      None \<Rightarrow> codex_json_member (w @ print_json (JObject ms) @ r) key = None
    | Some v \<Rightarrow> \<exists>rest. codex_json_member (w @ print_json (JObject ms) @ r) key =
        Some (print_json v @ rest, length (print_json v))"
  using member_loop_json [OF assms(1), of key r]
  by (cases "find_member key ms") (simp_all add: codex_json_member_def skip_ws_append [OF assms(2)])

lemma str_eq_json:
  assumes "json_wf v"
  shows "codex_json_str_eq (Some (print_json v @ rest, length (print_json v))) expect \<longleftrightarrow> v = JString expect"
proof (cases v)
  case (JString s)
  then show ?thesis by (auto simp: codex_json_str_eq_def)
next
  case (JAtom s)
  with assms have "print_json v \<noteq> []" "hd (print_json v) \<noteq> CHR 0x22" by (cases s; auto simp: atom_text_def)+
  then show ?thesis by (auto simp: codex_json_str_eq_def JAtom)
qed (simp_all add: codex_json_str_eq_def)

section \<open>Properties of the lookup\<close>

text \<open>
  C23. The lookup finds what a JSON reader would. On the text of any well-formed object, with
  white space wherever JSON allows it and anything behind it, the result points at the raw text
  of the value of the first top-level member of that name, with exactly its length, and is the
  null pointer when there is none; the name may occur in strings and nested objects at will.
\<close>

theorem codex_member_first_toplevel:
  assumes "members_wf ms" and "ws_text w"
  shows "map_option (\<lambda>(val, len). take len val) (codex_json_member (w @ print_json (JObject ms) @ r) key) =
    map_option print_json (find_member key ms)"
  using codex_member_json [OF assms, where key = key and r = r] by (auto split: option.splits)

text \<open>A request whose parameters hold an \<open>id\<close> of their own before the request's.\<close>

definition demo_members :: json_members where
  "demo_members = MCons '''' ''method'' '''' '' '' (JString ''sys.version'') ''''
     (MCons '' '' ''params'' '''' ''''
       (JObject (MCons '''' ''id'' '''' '''' (JAtom ''9'') '''' (MNil ''''))) ''''
     (MCons '''' ''id'' '''' '''' (JAtom ''12'') '' '' (MNil '''')))"

lemma demo_members_wf: "members_wf demo_members"
  by (simp add: demo_members_def atom_text_def structural_def json_ws_def json_open_def)

theorem codex_member_first_toplevel_witness:
  "map_option (\<lambda>(val, len). take len val) (codex_json_member (print_json (JObject demo_members)) ''id'') = Some ''12''"
  using codex_member_first_toplevel [OF demo_members_wf, of "[]" "[]" "''id''"]
  by (simp add: demo_members_def)

end
