(* ===== verification/Codex_Hid.thy ===== *)
theory Codex_Hid
  imports Codex_Json Http_Util
begin

text \<open>
  The HID transport of the macropad (\<open>codex_keys/src/codex_hid.c\<close> and \<open>codex_hid.h\<close>): a JSON text
  is sent as 63-byte reports of at most 61 payload bytes each, and reports from the host are
  reassembled until a top-level object is complete. The Bluetooth HID service is Zephyr's: its
  answer to each report is an input, the reports handed to it are an output. A text is a list of
  characters, one per byte.
\<close>

section \<open>Reports\<close>

definition REPORT_ID :: u8 where [const_simps]: "REPORT_ID = 6"
definition REPORT_BODY_LEN :: nat where [const_simps]: "REPORT_BODY_LEN = 63"
definition PAYLOAD_MAX :: nat where [const_simps]: "PAYLOAD_MAX = REPORT_BODY_LEN - 2"
definition MSG_TYPE_JSON :: u8 where [const_simps]: "MSG_TYPE_JSON = 2"
definition CODEX_JSON_MAX :: nat where [const_simps]: "CODEX_JSON_MAX = 512"

definition byte_char :: "u8 \<Rightarrow> char" where
  "byte_char b = char_of (unat b)"

section \<open>Reassembly\<close>

text \<open>The scan of \<open>rx_object_complete\<close> from a position, with its two locals.\<close>

fun complete_from :: "int \<Rightarrow> bool \<Rightarrow> string \<Rightarrow> bool" where
  "complete_from depth in_string [] = False"
| "complete_from depth in_string (c # cs) =
     (if in_string
      then if c = CHR 0x5C then complete_from depth True (tl cs)
           else complete_from depth (c \<noteq> CHR 0x22) cs
      else if c = CHR 0x22 then complete_from depth True cs
      else if c = CHR ''{'' then complete_from (depth + 1) False cs
      else if c = CHR ''}''
      then (if depth - 1 = 0 then True else complete_from (depth - 1) False cs)
      else complete_from depth False cs)"

definition rx_object_complete :: "string \<Rightarrow> bool" where
  "rx_object_complete rx_buf = complete_from 0 False rx_buf"

text \<open>A C string ends at its first NUL.\<close>

definition c_str :: "string \<Rightarrow> string" where
  "c_str s = takeWhile (\<lambda>c. c \<noteq> CHR 0x00) s"

text \<open>The output lists the texts handed to \<open>codex_rpc_handle\<close>; the state is the buffer's content.\<close>

definition rx_append :: "string \<Rightarrow> string \<Rightarrow> string list \<times> string" where
  "rx_append payload rx_buf =
     (let rx_buf = (if rx_buf \<noteq> [] \<and> 9 \<le> length payload \<and> take 9 payload = ''{\"method\"'' then [] else rx_buf);
          payload = (if rx_buf = [] then dropWhile (\<lambda>c. c \<noteq> CHR ''{'') payload else payload)
      in if payload = [] then ([], rx_buf)
         else if CODEX_JSON_MAX \<le> length rx_buf + length payload then ([], [])
         else (let rx_buf = rx_buf @ payload
               in if rx_object_complete rx_buf then ([c_str rx_buf], []) else ([], rx_buf)))"

datatype bt_hids_report_type =
  BT_HIDS_REPORT_TYPE_INPUT | BT_HIDS_REPORT_TYPE_OUTPUT | BT_HIDS_REPORT_TYPE_FEATURE

definition set_report :: "bt_hids_report_type \<Rightarrow> u8 \<Rightarrow> bytes \<Rightarrow> string \<Rightarrow> string list \<times> string" where
  "set_report ty rid data rx_buf =
     (if ty \<noteq> BT_HIDS_REPORT_TYPE_OUTPUT \<or> rid \<noteq> REPORT_ID then ([], rx_buf)
      else (let len = length data;
                body = (if 3 \<le> len \<and> data ! 0 = REPORT_ID then 1 else 0 :: nat)
            in if len < body + 2 \<or> data ! body \<noteq> MSG_TYPE_JSON then ([], rx_buf)
               else (let payload_len = min (unat (data ! (body + 1))) PAYLOAD_MAX
                     in if len < body + 2 + payload_len then ([], rx_buf)
                        else rx_append (map byte_char (take payload_len (drop (body + 2) data))) rx_buf)))"

section \<open>Sending\<close>

definition fragment :: "string \<Rightarrow> bytes" where
  "fragment chunk = [MSG_TYPE_JSON, of_nat (length chunk)] @ map char_byte chunk @
     replicate (REPORT_BODY_LEN - 2 - length chunk) 0"

text \<open>
  The loop over the offsets: \<open>answers\<close> are the return codes of \<open>bt_hids_send_report\<close> from here on,
  the output is the reports handed to it.
\<close>

fun hid_send_loop :: "(nat \<Rightarrow> int) \<Rightarrow> nat \<Rightarrow> string \<Rightarrow> bytes list \<times> int" where
  "hid_send_loop answers i [] = ([], 0)"
| "hid_send_loop answers i (c # cs) =
     (let chunk = take PAYLOAD_MAX (c # cs); ret = answers i
      in if ret \<noteq> 0 then ([fragment chunk], ret)
         else (case hid_send_loop answers (i + 1) (drop (PAYLOAD_MAX - 1) cs) of
                 (reports, ret) \<Rightarrow> (fragment chunk # reports, ret)))"

definition codex_hid_send :: "(nat \<Rightarrow> int) \<Rightarrow> string \<Rightarrow> bytes list \<times> int" where
  "codex_hid_send answers json =
     (let framed = json @ [CHR 0x0A]
      in if CODEX_JSON_MAX \<le> length framed then ([], - EMSGSIZE) else hid_send_loop answers 0 framed)"

section \<open>Completeness of an object\<close>

text \<open>Being complete is kept by whatever is received behind.\<close>

lemma complete_extends: "complete_from d ins p \<Longrightarrow> complete_from d ins (p @ q)"
proof (induction d ins p rule: complete_from.induct)
  case (2 d ins c cs)
  have tl: "tl (cs @ q) = tl cs @ q" if "cs \<noteq> []" using that by simp
  show ?case
  proof (cases "ins \<and> c = CHR 0x5C")
    case True
    with 2 show ?thesis by (cases cs) auto
  next
    case False
    with 2 show ?thesis by (auto split: if_splits)
  qed
qed simp

lemma complete_string: "string_text s \<Longrightarrow> complete_from d True (s @ CHR 0x22 # r) = complete_from d False r"
proof (induction s rule: string_text.induct)
  case (2 c s)
  then show ?case by (cases s) (auto split: if_splits)
qed simp

lemma complete_plain:
  "list_all (\<lambda>c. c \<noteq> CHR 0x22 \<and> \<not> json_open c \<and> \<not> json_close c) s \<Longrightarrow>
     complete_from d False (s @ p) = complete_from d False p"
  by (induction s) (auto simp: json_open_def json_close_def)

lemmas complete_skips = complete_plain [OF plain_ws] complete_plain [OF plain_atom] complete_string

lemma complete_json:
  fixes v :: json and es :: json_elems and ms :: json_members
  shows "0 < d \<Longrightarrow> json_wf v \<Longrightarrow> complete_from d False (print_json v @ r) = complete_from d False r"
    and "0 < d \<Longrightarrow> elems_wf es \<Longrightarrow> complete_from d False (print_elems es @ r) = complete_from d False r"
    and "0 < d \<Longrightarrow> members_wf ms \<Longrightarrow> complete_from d False (print_members ms @ r) = complete_from d False r"
proof (induction v and es and ms arbitrary: d r and d r and d r)
  case (ECons w v w' es)
  then show ?case by (cases es) (simp_all add: complete_skips)
next
  case (MCons w name w1 w2 v w3 ms)
  then show ?case by (cases ms) (simp_all add: complete_skips)
qed (simp_all add: complete_skips)

lemma object_complete: "members_wf ms \<Longrightarrow> rx_object_complete (print_json (JObject ms) @ r)"
  by (simp add: rx_object_complete_def complete_json)

lemma object_prefix_incomplete:
  assumes "members_wf ms" and "p @ q = print_json (JObject ms)" and "q \<noteq> []"
  shows "\<not> rx_object_complete p"
proof
  assume "rx_object_complete p"
  moreover obtain q' c where q: "q = q' @ [c]" using assms(3) by (cases q rule: rev_cases) auto
  with assms(2) have "p @ q' = CHR ''{'' # print_members ms" by (simp add: append_eq_Cons_conv append_assoc [symmetric] del: append_assoc)
  ultimately have "rx_object_complete (CHR ''{'' # print_members ms)"
    using complete_extends [of 0 False p q'] by (simp add: rx_object_complete_def)
  then show False
    using complete_json(3) [OF _ assms(1), of 1 "[]"] by (simp add: rx_object_complete_def)
qed

section \<open>Fragments back into a message\<close>

text \<open>The pieces of at most \<open>PAYLOAD_MAX\<close> bytes a text is sent in.\<close>

fun chunks :: "string \<Rightarrow> string list" where
  "chunks [] = []"
| "chunks (c # cs) = take PAYLOAD_MAX (c # cs) # chunks (drop (PAYLOAD_MAX - 1) cs)"

lemma payload_max [simp]: "PAYLOAD_MAX = 61"
  by (simp add: const_simps)

lemma chunks_step: "s \<noteq> [] \<Longrightarrow> chunks s = take 61 s # chunks (drop 61 s)"
  by (cases s) simp_all

lemma hid_send_loop_ok: "(\<And>k. answers k = 0) \<Longrightarrow> hid_send_loop answers i s = (map fragment (chunks s), 0)"
  by (induction answers i s rule: hid_send_loop.induct) simp_all

lemma chunks_short: "c \<in> set (chunks s) \<Longrightarrow> c \<noteq> [] \<and> length c \<le> 61"
  by (induction s rule: chunks.induct) auto

lemma length_fragment: "length c \<le> 61 \<Longrightarrow> length (fragment c) = 63"
  by (simp add: fragment_def const_simps)

lemma byte_char_byte [simp]: "byte_char (char_byte c) = c"
proof -
  have lt: "(of_char c :: nat) < 256" by simp
  then have "unat (of_nat (of_char c) :: u8) = of_char c" by (simp add: unat_of_nat)
  then show ?thesis by (simp add: byte_char_def char_byte_def)
qed

text \<open>A report made from a piece is read back as that piece.\<close>

lemma set_report_fragment:
  assumes "length c \<le> 61"
  shows "set_report BT_HIDS_REPORT_TYPE_OUTPUT REPORT_ID (fragment c) buf = rx_append c buf"
proof -
  have len: "unat (of_nat (length c) :: u8) = length c" using assms by (simp add: unat_of_nat)
  have "drop 2 (x # y # r) = r" for x y :: u8 and r by (simp add: numeral_2_eq_2)
  then show ?thesis
    using assms by (simp add: set_report_def fragment_def const_simps comp_def Let_def len)
qed

definition receive :: "bytes list \<Rightarrow> string \<Rightarrow> string list \<times> string" where
  "receive = mealy_run (set_report BT_HIDS_REPORT_TYPE_OUTPUT REPORT_ID)"

lemma receive_step:
  assumes "s \<noteq> []"
  shows "receive (map fragment (chunks s)) buf =
    (fst (rx_append (take 61 s) buf) @ fst (receive (map fragment (chunks (drop 61 s))) (snd (rx_append (take 61 s) buf))),
     snd (receive (map fragment (chunks (drop 61 s))) (snd (rx_append (take 61 s) buf))))"
  by (simp add: chunks_step [OF assms] receive_def set_report_fragment)

lemma receive_nil [simp]: "receive [] buf = ([], buf)"
  by (simp add: receive_def)

text \<open>A piece that does not restart the message is appended to it.\<close>

lemma rx_append_more:
  assumes "buf \<noteq> [] \<longrightarrow> take 9 c \<noteq> ''{\"method\"''" and "c \<noteq> []" and "buf @ c = CHR ''{'' # t"
    and "length (buf @ c) < 512"
  shows "rx_append c buf = (if rx_object_complete (buf @ c) then ([c_str (buf @ c)], []) else ([], buf @ c))"
proof (cases buf)
  case Nil
  with assms show ?thesis by (simp add: rx_append_def const_simps Let_def)
next
  case (Cons b bs)
  with assms show ?thesis by (auto simp: rx_append_def const_simps Let_def)
qed

definition no_resync :: "string list \<Rightarrow> bool" where
  "no_resync cs \<longleftrightarrow> list_all (\<lambda>c. take 9 c \<noteq> ''{\"method\"'') cs"

lemma receive_chunks:
  assumes "members_wf ms" and "p @ q = print_json (JObject ms)" and "q \<noteq> []"
    and "length (p @ q) < 511" and "CHR 0x00 \<notin> set (p @ q)"
    and "no_resync (if p = [] then tl (chunks (q @ [CHR 0x0A])) else chunks (q @ [CHR 0x0A]))"
  shows "receive (map fragment (chunks (q @ [CHR 0x0A]))) p =
    ([p @ q @ (if length q mod 61 = 0 then [] else [CHR 0x0A])], [])"
  using assms(2-)
proof (induction "length q" arbitrary: p q rule: less_induct)
  case less
  have open_brace: "p @ q = CHR ''{'' # print_members ms @ ''}''" using less.prems(1) by simp
  have keep: "p \<noteq> [] \<longrightarrow> take 9 (take 61 (q @ [CHR 0x0A])) \<noteq> ''{\"method\"''"
    using less.prems(5) by (auto simp: no_resync_def chunks_step)
  have str: "c_str s = s" if "set s \<subseteq> insert (CHR 0x0A) (set (p @ q))" for s
    using that less.prems(4) unfolding c_str_def takeWhile_eq_all_conv by fastforce
  have step: "rx_append (take 61 (q @ [CHR 0x0A])) p =
      (if rx_object_complete (p @ take 61 (q @ [CHR 0x0A]))
       then ([c_str (p @ take 61 (q @ [CHR 0x0A]))], []) else ([], p @ take 61 (q @ [CHR 0x0A])))"
  proof (rule rx_append_more [OF keep])
    show "p @ take 61 (q @ [CHR 0x0A]) =
        CHR ''{'' # tl (p @ take 61 (q @ [CHR 0x0A]))"
      using open_brace less.prems(2) by (cases p; cases q) auto
  qed (use less.prems(2,3) in simp_all)
  have strs: "c_str (p @ q) = p @ q" "c_str (p @ q @ [CHR 0x0A]) = p @ q @ [CHR 0x0A]"
    by (rule str, force)+
  have complete: "rx_object_complete (p @ q @ r)" for r
    using object_complete [OF assms(1), of r] unfolding append_assoc [symmetric] less.prems(1) .
  consider "61 < length q" | "length q = 61" | "length q < 61" by linarith
  then show ?case
  proof cases
    case 1
    then have part: "\<not> rx_object_complete (p @ take 61 q)"
      using less.prems(1) by (intro object_prefix_incomplete [OF assms(1), of _ "drop 61 q"]) simp_all
    have IH: "receive (map fragment (chunks (drop 61 q @ [CHR 0x0A]))) (p @ take 61 q) =
        ([(p @ take 61 q) @ drop 61 q @ (if length (drop 61 q) mod 61 = 0 then [] else [CHR 0x0A])], [])"
    proof (rule less.hyps)
      show "no_resync (if p @ take 61 q = [] then tl (chunks (drop 61 q @ [CHR 0x0A])) else chunks (drop 61 q @ [CHR 0x0A]))"
        using less.prems(2,5) 1 by (auto simp: no_resync_def chunks_step split: if_splits)
    qed (use 1 less.prems in simp_all)
    have m: "(length q - 61) mod 61 = length q mod 61" using 1 by (simp add: le_mod_geq)
    have whole: "take 61 q @ drop 61 q @ r = q @ r" for r by (simp flip: append_assoc)
    from 1 step part IH show ?thesis
      by (simp add: receive_step m whole)
  next
    case 2
    then have "rx_append (take 61 (q @ [CHR 0x0A])) p = ([p @ q], [])"
      using step complete [of "[]"] strs(1) by simp
    moreover have "receive [fragment [CHR 0x0A]] [] = ([], [])"
      using receive_step [of "[CHR 0x0A]" "[]"] by (simp add: rx_append_def Let_def)
    ultimately show ?thesis using 2 by (simp add: receive_step)
  next
    case 3
    then have "rx_append (take 61 (q @ [CHR 0x0A])) p = ([p @ q @ [CHR 0x0A]], [])"
      using step complete [of "[CHR 0x0A]"] strs(2) by simp
    moreover have "length q mod 61 \<noteq> 0" using 3 less.prems(2) by simp
    ultimately show ?thesis using 3 by (simp add: receive_step)
  qed
qed

lemma sent_received:
  assumes "members_wf ms" and "j = print_json (JObject ms)"
    and "length j + 1 < CODEX_JSON_MAX" and "CHR 0x00 \<notin> set j"
    and "no_resync (tl (chunks (j @ [CHR 0x0A])))"
  shows "codex_hid_send (\<lambda>_. 0) j = (map fragment (chunks (j @ [CHR 0x0A])), 0)"
    and "receive (map fragment (chunks (j @ [CHR 0x0A]))) [] =
      ([j @ (if length j mod 61 = 0 then [] else [CHR 0x0A])], [])"
proof -
  show "codex_hid_send (\<lambda>_. 0) j = (map fragment (chunks (j @ [CHR 0x0A])), 0)"
    using assms(3) by (simp add: codex_hid_send_def const_simps hid_send_loop_ok)
  show "receive (map fragment (chunks (j @ [CHR 0x0A]))) [] =
      ([j @ (if length j mod 61 = 0 then [] else [CHR 0x0A])], [])"
    using receive_chunks [OF assms(1), of "[]" j] assms(3-) unfolding assms(2)
    by (simp only: append_Nil if_True CODEX_JSON_MAX_def) simp
qed

section \<open>Properties of the transport\<close>

text \<open>
  Sending and reassembly are inverse. A JSON object that fits is sent as reports of exactly
  63 bytes, and those reports, received in order, hand over exactly one message, the object (with
  the newline of the framing unless that fell into a report of its own), and leave the buffer
  empty; the exception is an object one of whose later pieces happens to begin with the text that
  the receiver takes for a new request.
\<close>

lemma codex_fragments_reassemble:
  assumes "members_wf ms" and "j = print_json (JObject ms)"
    and "length j + 1 < CODEX_JSON_MAX" and "CHR 0x00 \<notin> set j"
    and "no_resync (tl (chunks (j @ [CHR 0x0A])))"
  shows "snd (codex_hid_send (\<lambda>_. 0) j) = 0 \<and>
    list_all (\<lambda>r. length r = REPORT_BODY_LEN) (fst (codex_hid_send (\<lambda>_. 0) j)) \<and>
    receive (fst (codex_hid_send (\<lambda>_. 0) j)) [] =
      ([j @ (if length j mod PAYLOAD_MAX = 0 then [] else [CHR 0x0A])], [])"
proof -
  note sent = sent_received(1) [OF assms] and received = sent_received(2) [OF assms]
  have "list_all (\<lambda>r. length r = REPORT_BODY_LEN) (map fragment (chunks (j @ [CHR 0x0A])))"
    using chunks_short [of _ "j @ [CHR 0x0A]"] by (auto simp: list_all_iff const_simps length_fragment)
  with received show ?thesis by (simp only: sent fst_conv snd_conv payload_max simp_thms)
qed



text \<open>A request of three reports.\<close>

definition demo_long :: json_members where
  "demo_long = MCons '''' ''method'' '''' '' '' (JString ''v.oai.thstatus'') ''''
     (MCons '' '' ''params'' '''' ''''
       (JArray (ECons '''' (JString ''a thread title that is long enough to be cut'') ''''
         (ECons '' '' (JString ''another title, with a closing } in it'') '''' (ENil ''''))))  ''''
       (MCons '''' ''id'' '''' '''' (JAtom ''12'') '' '' (MNil '''')))"

lemma demo_long_fits:
  "members_wf demo_long"
  "length (print_json (JObject demo_long)) + 1 < CODEX_JSON_MAX"
  "CHR 0x00 \<notin> set (print_json (JObject demo_long))"
  "no_resync (tl (chunks (print_json (JObject demo_long) @ [CHR 0x0A])))"
  by (simp add: demo_long_def atom_text_def structural_def json_ws_def json_open_def)
    (simp_all only: demo_long_def, code_simp+)

lemma codex_fragments_reassemble_instance:
  "receive (fst (codex_hid_send (\<lambda>_. 0) (print_json (JObject demo_long)))) [] =
     ([print_json (JObject demo_long) @ [CHR 0x0A]], []) \<and>
   length (fst (codex_hid_send (\<lambda>_. 0) (print_json (JObject demo_long)))) = 3"
proof -
  have "length (print_json (JObject demo_long)) mod PAYLOAD_MAX \<noteq> 0"
    and "length (fst (codex_hid_send (\<lambda>_. 0) (print_json (JObject demo_long)))) = 3"
    by (simp_all only: demo_long_def) code_simp+
  then show ?thesis
    using codex_fragments_reassemble [OF demo_long_fits(1) refl demo_long_fits(2-4)] by simp
qed

end
