(* ===== verification/Codex_Rpc.thy ===== *)
theory Codex_Rpc
  imports Codex_Hid
begin

text \<open>
  The message layer of the macropad (\<open>codex_keys/src/codex_rpc.c\<close> and \<open>codex_rpc.h\<close>): requests
  are parked in one buffer by the Bluetooth receive thread and answered from the system work
  queue, and key events are formatted. What is handed to \<open>codex_hid_send\<close> is an output.
\<close>

section \<open>Texts\<close>

text \<open>\<open>snprintf\<close> into a buffer of \<open>n\<close> bytes, with the formatted text given.\<close>

definition snprintf_buf :: "nat \<Rightarrow> string \<Rightarrow> string" where
  "snprintf_buf n s = take (n - 1) s"

definition FIRMWARE_VERSION :: string where [const_simps]: "FIRMWARE_VERSION = ''0.1.0-qtpy''"
definition BATTERY_PERCENT :: nat where [const_simps]: "BATTERY_PERCENT = 100"
definition ID_MAX :: nat where [const_simps]: "ID_MAX = 24"

definition CODEX_ACT_RELEASE :: u8 where [const_simps]: "CODEX_ACT_RELEASE = 0"
definition CODEX_ACT_PRESS :: u8 where [const_simps]: "CODEX_ACT_PRESS = 1"
definition CODEX_ACT_STEP :: u8 where [const_simps]: "CODEX_ACT_STEP = 2"

section \<open>Answering\<close>

definition send_result :: "string \<Rightarrow> string \<Rightarrow> string list" where
  "send_result ident result =
     (let response = ''{\"id\":'' @ ident @ '',\"result\":'' @ result @ ''}''
      in if 256 \<le> length response then [] else [snprintf_buf 256 response])"

definition version_result :: string where
  "version_result = ''{\"version\":\"'' @ FIRMWARE_VERSION @ ''\"}''"

definition status_result :: string where
  "status_result = snprintf_buf 128
     (''{\"version\":\"'' @ FIRMWARE_VERSION @ ''\",\"profile_index\":0,'' @
      ''\"layer_index\":1,\"battery\":'' @ dec_text BATTERY_PERCENT @ '',\"is_charging\":false}'')"

definition acknowledged :: "string list" where
  "acknowledged = [''v.oai.thstatus'', ''v.oai.rgbcfg'', ''lights.preview'', ''host.focused_app'']"

definition request_id :: "(string \<times> nat) option \<Rightarrow> string" where
  "request_id raw_id =
     (case raw_id of None \<Rightarrow> ''null''
      | Some (val, id_len) \<Rightarrow> if id_len < ID_MAX then take id_len val else ''null'')"

definition handle_request :: "string \<Rightarrow> string list" where
  "handle_request json =
     (let method = codex_json_member json ''method''; raw_id = codex_json_member json ''id''
      in if method = None then []
         else (let ident = request_id raw_id
               in if codex_json_str_eq method ''sys.version'' then send_result ident version_result
                  else if codex_json_str_eq method ''device.status'' then send_result ident status_result
                  else if list_ex (codex_json_str_eq method) acknowledged then send_result ident ''{\"ok\":true}''
                  else [snprintf_buf 128
                    (''{\"id\":'' @ ident @ '',\"error\":{\"code\":-32601,\"message\":\"Method not found\"}}'')]))"

section \<open>The parked request\<close>

text \<open>
  The buffer \<open>pending\<close> and whether the work item is on its queue; an empty buffer is one that
  begins with a NUL. Both run without being interrupted by one another: a request that comes in
  while the handler runs finds the buffer as it was.
\<close>

record codex_rpc =
  pending :: string
  pending_work :: bool

definition codex_rpc_handle :: "string \<Rightarrow> codex_rpc \<Rightarrow> codex_rpc" where
  "codex_rpc_handle json s =
     (if pending s \<noteq> [] then s
      else s\<lparr>pending := take (CODEX_JSON_MAX - 1) (c_str json), pending_work := True\<rparr>)"

definition pending_work_handler :: "codex_rpc \<Rightarrow> string list \<times> codex_rpc" where
  "pending_work_handler s = (handle_request (pending s), s\<lparr>pending := [], pending_work := False\<rparr>)"

section \<open>Key events\<close>

definition int_text :: "int \<Rightarrow> string" where
  "int_text i = (if i < 0 then ''-'' @ dec_text (nat (- i)) else dec_text (nat i))"

definition codex_rpc_send_key :: "string \<Rightarrow> u8 \<Rightarrow> int \<Rightarrow> string" where
  "codex_rpc_send_key key action agent =
     snprintf_buf 128
       (if 0 \<le> agent
        then ''{\"method\":\"v.oai.hid\",\"params\":{\"k\":\"'' @ key @ ''\",\"act\":'' @ dec_text (unat action) @
          '',\"ag\":'' @ int_text agent @ ''}}''
        else ''{\"method\":\"v.oai.hid\",\"params\":{\"k\":\"'' @ key @ ''\",\"act\":'' @ dec_text (unat action) @ ''}}'')"

section \<open>What a request is answered with\<close>

text \<open>A document without white space, from its names and values.\<close>

fun compact :: "(string \<times> json) list \<Rightarrow> json_members" where
  "compact [] = MNil ''''"
| "compact ((name, v) # ms) = MCons '''' name '''' '''' v '''' (compact ms)"

lemma compact_wf: "members_wf (compact ms) \<longleftrightarrow> list_all (\<lambda>(name, v). string_text name \<and> json_wf v) ms"
  by (induction ms rule: compact.induct) auto

lemma find_compact: "find_member key (compact ms) = map_of ms key"
  by (induction ms rule: compact.induct) auto

definition version_doc :: json where
  "version_doc = JObject (compact [(''version'', JString FIRMWARE_VERSION)])"

definition status_doc :: json where
  "status_doc = JObject (compact [(''version'', JString FIRMWARE_VERSION), (''profile_index'', JAtom ''0''),
     (''layer_index'', JAtom ''1''), (''battery'', JAtom ''100''), (''is_charging'', JAtom ''false'')])"

definition ok_doc :: json where
  "ok_doc = JObject (compact [(''ok'', JAtom ''true'')])"

definition error_doc :: json where
  "error_doc = JObject (compact [(''code'', JAtom ''-32601''), (''message'', JString ''Method not found'')])"

text \<open>The answer to a method: the name and the value of the member behind the id.\<close>

definition method_reply :: "json \<Rightarrow> string \<times> json" where
  "method_reply m =
     (if m = JString ''sys.version'' then (''result'', version_doc)
      else if m = JString ''device.status'' then (''result'', status_doc)
      else if m \<in> JString ` set acknowledged then (''result'', ok_doc)
      else (''error'', error_doc))"

definition echoed_id :: "json_members \<Rightarrow> json" where
  "echoed_id ms =
     (case find_member ''id'' ms of None \<Rightarrow> JAtom ''null''
      | Some v \<Rightarrow> if length (print_json v) < ID_MAX then v else JAtom ''null'')"

definition response_doc :: "json_members \<Rightarrow> json \<Rightarrow> json_members" where
  "response_doc ms m = compact [(''id'', echoed_id ms), method_reply m]"

lemma version_print: "print_json version_doc = version_result"
  by (simp add: version_doc_def version_result_def)

lemma status_print: "print_json status_doc = status_result"
  by code_simp

lemma find_member_wf: "members_wf ms \<Longrightarrow> find_member key ms = Some v \<Longrightarrow> json_wf v"
  by (induction ms rule: members_induct) (auto split: if_splits)

lemma null_wf: "json_wf (JAtom ''null'')"
  by (simp add: atom_text_def structural_def json_ws_def json_open_def)

lemma echoed_id_wf: "members_wf ms \<Longrightarrow> json_wf (echoed_id ms)"
  unfolding echoed_id_def using null_wf find_member_wf by (auto split: option.splits)

lemma echoed_id_short: "length (print_json (echoed_id ms)) < 24"
  by (simp add: echoed_id_def const_simps split: option.split)

lemma request_id_echo:
  assumes "members_wf ms"
  shows "request_id (codex_json_member (print_json (JObject ms) @ r) ''id'') = print_json (echoed_id ms)"
  using codex_member_json [OF assms, where w = "[]" and key = "''id''" and r = r]
  by (cases "find_member ''id'' ms") (auto simp: request_id_def echoed_id_def)

lemma reply_wf: "json_wf (snd (method_reply m)) \<and> string_text (fst (method_reply m))"
  by (simp add: method_reply_def version_doc_def status_doc_def ok_doc_def error_doc_def compact_wf
      atom_text_def structural_def json_ws_def json_open_def const_simps)

lemma send_result_short:
  assumes "length ident < 24" and "length result \<le> 200"
  shows "send_result ident result = [''{\"id\":'' @ ident @ '',\"result\":'' @ result @ ''}'']"
  using assms by (simp add: send_result_def snprintf_buf_def)

lemma error_short:
  assumes "length ident < 24"
  shows "snprintf_buf 128 (''{\"id\":'' @ ident @ '',\"error\":{\"code\":-32601,\"message\":\"Method not found\"}}'') =
    ''{\"id\":'' @ ident @ '',\"error\":'' @ print_json error_doc @ ''}''"
  using assms by (simp add: snprintf_buf_def error_doc_def)

lemma handle_request_answers:
  assumes "members_wf ms" and "find_member ''method'' ms = Some m"
  shows "handle_request (print_json (JObject ms) @ r) = [print_json (JObject (response_doc ms m))]"
proof -
  let ?j = "print_json (JObject ms) @ r"
  obtain rest where m: "codex_json_member ?j ''method'' = Some (print_json m @ rest, length (print_json m))"
    using codex_member_json [OF assms(1), where w = "[]" and key = "''method''" and r = r] assms(2) by auto
  note eq = str_eq_json [OF find_member_wf [OF assms]]
  have ident: "length (print_json (echoed_id ms)) < 24" by (rule echoed_id_short)
  have lens: "length version_result \<le> 200" "length status_result \<le> 200"
    by (simp_all add: version_result_def status_result_def snprintf_buf_def const_simps)
  have ack: "list_ex (codex_json_str_eq (Some (print_json m @ rest, length (print_json m)))) acknowledged \<longleftrightarrow>
      m \<in> JString ` set acknowledged"
    by (auto simp: list_ex_iff eq)
  show ?thesis
    unfolding handle_request_def Let_def m request_id_echo [OF assms(1)] eq ack
    unfolding error_short [OF ident]
    by (simp add: response_doc_def method_reply_def send_result_short [OF ident] lens version_print status_print
        ok_doc_def)
qed


section \<open>From the host's reports to the answer\<close>

text \<open>An output report from the host: a message it completes is parked.\<close>

definition codex_report :: "bytes \<Rightarrow> string \<times> codex_rpc \<Rightarrow> string \<times> codex_rpc" where
  "codex_report data s =
     (case set_report BT_HIDS_REPORT_TYPE_OUTPUT REPORT_ID data (fst s) of
        (messages, rx_buf) \<Rightarrow> (rx_buf, fold codex_rpc_handle messages (snd s)))"

lemma codex_reports:
  "fold codex_report rs s =
     (snd (receive rs (fst s)), fold codex_rpc_handle (fst (receive rs (fst s))) (snd s))"
  by (induction rs arbitrary: s) (simp_all add: receive_def codex_report_def split: prod.split)

lemma c_str_free: "CHR 0x00 \<notin> set s \<Longrightarrow> c_str s = s"
  unfolding c_str_def takeWhile_eq_all_conv by blast

lemma parked_whole:
  assumes "pending s = []" and "length j < 512" and "CHR 0x00 \<notin> set j" and "j \<noteq> []"
  shows "codex_rpc_handle j s = s\<lparr>pending := j, pending_work := True\<rparr>"
  using assms by (simp add: codex_rpc_handle_def c_str_free CODEX_JSON_MAX_def)

section \<open>Properties of the message layer\<close>

text \<open>
  The receiver drops what it has collected when a later fragment begins with the nine characters
  by which every request of the host application begins. A request in which they do not occur
  again from the second fragment on is safe, wherever it is cut; so is one of a single fragment.
\<close>

lemma no_resync_chunks:
  "(\<And>k. take 9 (drop k s) \<noteq> ''{\"method\"'') \<Longrightarrow> no_resync (chunks s)"
proof (induction s rule: length_induct)
  case (1 s)
  show ?case
  proof (cases "s = []")
    case True
    then show ?thesis by (simp add: no_resync_def chunks.simps)
  next
    case False
    have "take 9 (drop k (drop 61 s)) \<noteq> ''{\"method\"''" for k
      using 1(2) [of "k + 61"] by simp
    then have "no_resync (chunks (drop 61 s))" using 1(1) False by simp
    then show ?thesis using 1(2) [of 0] False by (simp add: no_resync_def chunks_step min_def)
  qed
qed

lemma no_resync_once:
  assumes "\<And>k. 61 \<le> k \<Longrightarrow> take 9 (drop k (j @ [CHR 0x0A])) \<noteq> ''{\"method\"''"
  shows "no_resync (tl (chunks (j @ [CHR 0x0A])))"
proof -
  have "no_resync (chunks (drop 61 (j @ [CHR 0x0A])))"
    by (rule no_resync_chunks) (use assms in \<open>simp only: drop_drop le_add2 not_False_eq_True\<close>)
  then show ?thesis by (simp add: chunks_step)
qed

lemma no_resync_single: "length j < 61 \<Longrightarrow> no_resync (tl (chunks (j @ [CHR 0x0A])))"
  by (rule no_resync_once) simp

text \<open>
  C24. A request is answered with its own id. When the host sends any JSON object that fits and
  has a method, cut into reports, to an idle device, and no fragment after the first begins with
  the characters of a new request (\<open>no_resync\<close>: the receiver would drop what it has collected),
  then the work item is queued, and running it sends exactly one response and leaves the device
  idle. The response is a JSON object whose id is the raw text of the request's id, or null if it
  has none or one of 24 bytes or more, and it has a result exactly for the six methods known and
  an error exactly for any other.
\<close>

theorem codex_request_answered:
  assumes "members_wf ms" and "j = print_json (JObject ms)" and "find_member ''method'' ms = Some m"
    and "length j + 1 < CODEX_JSON_MAX" and "CHR 0x00 \<notin> set j"
    and "no_resync (tl (chunks (j @ [CHR 0x0A])))" and "pending s = []"
  shows "(case fold codex_report (fst (codex_hid_send (\<lambda>_. 0) j)) ([], s) of (rx_buf, s') \<Rightarrow>
      rx_buf = [] \<and> pending_work s' \<and> snd (pending_work_handler s') = s\<lparr>pending := [], pending_work := False\<rparr> \<and>
      (\<exists>rs. fst (pending_work_handler s') = [print_json (JObject rs)] \<and> members_wf rs \<and>
        find_member ''id'' rs = Some (case find_member ''id'' ms of
            Some v \<Rightarrow> if length (print_json v) < ID_MAX then v else JAtom ''null''
          | None \<Rightarrow> JAtom ''null'') \<and>
        (find_member ''result'' rs \<noteq> None \<longleftrightarrow>
           m \<in> JString ` set (''sys.version'' # ''device.status'' # acknowledged)) \<and>
        (find_member ''error'' rs \<noteq> None \<longleftrightarrow> find_member ''result'' rs = None)))"
proof -
  let ?t = "if length j mod 61 = 0 then [] else [CHR 0x0A]"
  note sent = sent_received(1) [OF assms(1,2,4-6)] and received = sent_received(2) [OF assms(1,2,4-6)]
  have parked: "codex_rpc_handle (j @ ?t) s = s\<lparr>pending := j @ ?t, pending_work := True\<rparr>"
    using assms(4,5) by (intro parked_whole [OF assms(7)]) (simp_all add: const_simps assms(2))
  have one: "fold codex_report (fst (codex_hid_send (\<lambda>_. 0) j)) ([], s) =
      ([], s\<lparr>pending := j @ ?t, pending_work := True\<rparr>)"
    unfolding codex_reports sent fst_conv snd_conv received by (simp only: fold_simps parked)
  have answer: "handle_request (j @ ?t) = [print_json (JObject (response_doc ms m))]"
    unfolding assms(2) by (rule handle_request_answers [OF assms(1,3)])
  have wf: "members_wf (response_doc ms m)"
    using reply_wf [of m] echoed_id_wf [OF assms(1)]
    by (simp add: response_doc_def compact_wf split_beta)
  have ids: "find_member ''id'' (response_doc ms m) = Some (echoed_id ms)"
    by (simp add: response_doc_def find_compact)
  have kinds: "(find_member ''result'' (response_doc ms m) \<noteq> None \<longleftrightarrow>
      m \<in> JString ` set (''sys.version'' # ''device.status'' # acknowledged)) \<and>
    (find_member ''error'' (response_doc ms m) \<noteq> None \<longleftrightarrow> find_member ''result'' (response_doc ms m) = None)"
    by (simp add: response_doc_def find_compact method_reply_def)
  have state: "pending_work_handler (s\<lparr>pending := j @ ?t, pending_work := True\<rparr>) =
      ([print_json (JObject (response_doc ms m))], s\<lparr>pending := [], pending_work := False\<rparr>)"
    by (simp add: pending_work_handler_def answer)
  show ?thesis
    unfolding one case_prod_conv state fst_conv snd_conv
    using wf ids kinds by (auto simp: echoed_id_def split: option.splits)
qed


theorem codex_request_answered_witness:
  "\<exists>rs. fst (pending_work_handler (snd (fold codex_report
       (fst (codex_hid_send (\<lambda>_. 0) (print_json (JObject demo_long)))) ([], \<lparr>pending = [], pending_work = False\<rparr>)))) =
     [print_json (JObject rs)] \<and> find_member ''id'' rs = Some (JAtom ''12'') \<and> find_member ''result'' rs \<noteq> None"
proof -
  have m: "find_member ''method'' demo_long = Some (JString ''v.oai.thstatus'')"
    and i: "find_member ''id'' demo_long = Some (JAtom ''12'')"
    by (simp_all add: demo_long_def)
  show ?thesis
    using codex_request_answered [OF demo_long_fits(1) refl m demo_long_fits(2-4),
        of "\<lparr>pending = [], pending_work = False\<rparr>"]
    by (auto simp: i acknowledged_def const_simps split: prod.splits)
qed

end
