(* ===== verification/Codex_Keys.thy ===== *)
theory Codex_Keys
  imports Codex_Rpc
begin

text \<open>
  The scan loop of the macropad (\<open>codex_keys/src/main.c\<close>): three key strips, their pixels, the
  rotary encoder and its switch. The answers of the drivers in one pass are an input, the pixel
  writes and the calls of \<open>codex_rpc_send_key\<close> the output. An \<open>int\<close> of the source that holds a
  key mask is an integer, the encoder's position a 32-bit word,
  compared as signed.
\<close>

section \<open>The keys\<close>

definition KEYS_PER_PAD :: nat where [const_simps]: "KEYS_PER_PAD = 4"
definition NUM_PADS :: nat where [const_simps]: "NUM_PADS = 3"
definition NUM_KEYS :: nat where [const_simps]: "NUM_KEYS = NUM_PADS * KEYS_PER_PAD"
definition key_pin :: "nat list" where "key_pin = [4, 5, 6, 7]"

definition key_map :: "(string \<times> int) list" where
  "key_map = [(''AG00'', 0), (''AG01'', 1), (''AG02'', 2), (''AG03'', 3),
     (''AG04'', 4), (''AG05'', 5), (''ACT06'', -1), (''ACT07'', -1),
     (''ACT08'', -1), (''ACT09'', -1), (''ACT10'', -1), (''ACT12'', -1)]"

definition BIT :: "nat \<Rightarrow> int" where
  "BIT i = push_bit i 1"

record led_rgb =
  rgb_r :: u8
  rgb_g :: u8
  rgb_b :: u8

definition key_lit :: led_rgb where "key_lit = \<lparr>rgb_r = 0, rgb_g = 24, rgb_b = 24\<rparr>"
definition key_off :: led_rgb where "key_off = \<lparr>rgb_r = 0, rgb_g = 0, rgb_b = 0\<rparr>"

text \<open>An update of one strip, or a key event with its action and agent slot.\<close>

datatype codex_out = Pixels nat "led_rgb list" | Key string u8 int

section \<open>Scanning\<close>

text \<open>\<open>ports pad\<close> is the return code and the value of reading the pad's port.\<close>

definition pad_bits :: "nat \<Rightarrow> u32 \<Rightarrow> int \<Rightarrow> int" where
  "pad_bits pad raw pressed =
     fold (\<lambda>i pressed. if \<not> bit raw (key_pin ! i) then pressed OR BIT (pad * KEYS_PER_PAD + i) else pressed)
       [0..<KEYS_PER_PAD] pressed"

fun scan_pads :: "(nat \<Rightarrow> int \<times> u32) \<Rightarrow> nat list \<Rightarrow> int \<Rightarrow> int" where
  "scan_pads ports [] pressed = pressed"
| "scan_pads ports (pad # pads) pressed =
     (if fst (ports pad) \<noteq> 0 then fst (ports pad)
      else scan_pads ports pads (pad_bits pad (snd (ports pad)) pressed))"

definition keypads_scan :: "(nat \<Rightarrow> int \<times> u32) \<Rightarrow> int" where
  "keypads_scan ports = scan_pads ports [0..<NUM_PADS] 0"

definition leds_update :: "int \<Rightarrow> int \<Rightarrow> codex_out list" where
  "leds_update pressed_mask prev_mask =
     concat (map (\<lambda>pad.
       let shift = pad * KEYS_PER_PAD; mask = push_bit shift (BIT KEYS_PER_PAD - 1)
       in if pressed_mask AND mask = prev_mask AND mask then []
          else [Pixels pad (map (\<lambda>i. if pressed_mask AND BIT (shift + i) \<noteq> 0 then key_lit else key_off)
                  [0..<KEYS_PER_PAD])]) [0..<NUM_PADS])"

definition report_keys :: "int \<Rightarrow> int \<Rightarrow> codex_out list" where
  "report_keys pressed_mask prev_mask =
     concat (map (\<lambda>i.
       let now = pressed_mask AND BIT i
       in if now = prev_mask AND BIT i then []
          else [Key (fst (key_map ! i)) (if now \<noteq> 0 then CODEX_ACT_PRESS else CODEX_ACT_RELEASE)
                  (snd (key_map ! i))]) [0..<NUM_KEYS])"

section \<open>The encoder\<close>

record codex_keys =
  prev_mask :: int
  encoder_last :: u32
  encoder_synced :: bool
  was_pressed :: bool

definition ENCODER_CW_IS_NEGATIVE :: bool where [const_simps]: "ENCODER_CW_IS_NEGATIVE = True"
definition ENCODER_STEPS_PER_POLL :: u32 where [const_simps]: "ENCODER_STEPS_PER_POLL = 8"

text \<open>
  \<open>val\<close> is the reading, \<open>None\<close> when the sensor failed. The divisor of the source is one. The
  subtraction and the negation wrap, and the loop counts the bit pattern down to zero.
\<close>

definition encoder_poll :: "u32 option \<Rightarrow> codex_keys \<Rightarrow> codex_out list \<times> codex_keys" where
  "encoder_poll val s =
     (case val of None \<Rightarrow> ([], s)
      | Some val1 \<Rightarrow>
          if \<not> encoder_synced s then ([], s\<lparr>encoder_last := val1, encoder_synced := True\<rparr>)
          else (let steps = val1 - encoder_last s
                in if steps = 0 then ([], s)
                   else (let s = s\<lparr>encoder_last := encoder_last s + steps\<rparr>;
                             clockwise = (if ENCODER_CW_IS_NEGATIVE then steps <s 0 else 0 <s steps);
                             count = (if steps <s 0 then - steps else steps);
                             count = (if ENCODER_STEPS_PER_POLL <s count then ENCODER_STEPS_PER_POLL else count)
                         in (replicate (unat count)
                               (Key (if clockwise then ''ENC_CW'' else ''ENC_CC'') CODEX_ACT_STEP (-1)), s))))"

definition encoder_switch_poll :: "int \<Rightarrow> codex_keys \<Rightarrow> codex_out list \<times> codex_keys" where
  "encoder_switch_poll val s =
     (if val < 0 then ([], s)
      else (let pressed = (val = 0)
            in if pressed \<noteq> was_pressed s
               then ([Key ''ENC'' (if pressed then CODEX_ACT_PRESS else CODEX_ACT_RELEASE) (-1)], s\<lparr>was_pressed := pressed\<rparr>)
               else ([], s)))"

section \<open>The main loop\<close>

record pass =
  port_reads :: "nat \<Rightarrow> int \<times> u32"
  rotation :: "u32 option"
  switch_pin :: int

definition codex_pass :: "pass \<Rightarrow> codex_keys \<Rightarrow> codex_out list \<times> codex_keys" where
  "codex_pass p s =
     (let mask = keypads_scan (port_reads p);
          (keys, s) = (if mask < 0 then ([], s)
                       else if mask \<noteq> prev_mask s
                       then (leds_update mask (prev_mask s) @ report_keys mask (prev_mask s), s\<lparr>prev_mask := mask\<rparr>)
                       else ([], s));
          (steps, s) = encoder_poll (rotation p) s;
          (switch, s) = encoder_switch_poll (switch_pin p) s
      in (keys @ steps @ switch, s))"

text \<open>Before the loop: the answers of the start, and what the loop starts from if it does.\<close>

record startup =
  pad_ready :: "nat \<Rightarrow> bool \<times> bool"
  pin_configure :: "nat \<Rightarrow> nat \<Rightarrow> int"
  encoder_ready :: "bool \<times> bool"
  switch_configure :: int
  bt_enable :: int

fun first_error :: "int list \<Rightarrow> int" where
  "first_error [] = 0"
| "first_error (e # es) = (if e \<noteq> 0 then e else first_error es)"

definition keypads_init :: "startup \<Rightarrow> int" where
  "keypads_init b =
     first_error (concat (map (\<lambda>pad.
       (if \<not> fst (pad_ready b pad) \<or> \<not> snd (pad_ready b pad) then - ENODEV else 0) #
       map (\<lambda>i. pin_configure b pad (key_pin ! i)) [0..<KEYS_PER_PAD]) [0..<NUM_PADS]))"

definition encoder_init :: "startup \<Rightarrow> int" where
  "encoder_init b =
     (if \<not> fst (encoder_ready b) \<or> \<not> snd (encoder_ready b) then - ENODEV else switch_configure b)"

definition codex_init :: codex_keys where
  "codex_init = \<lparr>prev_mask = 0, encoder_last = 0, encoder_synced = False, was_pressed = False\<rparr>"

definition codex_main :: "startup \<Rightarrow> codex_out list \<times> codex_keys option" where
  "codex_main b =
     (if keypads_init b \<noteq> 0 \<or> encoder_init b \<noteq> 0 then ([], None)
      else (leds_update 0 (BIT NUM_KEYS - 1), if bt_enable b \<noteq> 0 then None else Some codex_init))"

section \<open>What the host sees\<close>

text \<open>
  The keys the host holds down: a press of a key that is down, or a release of one that is up,
  is a protocol error. The dial's steps and the pixels change no key.
\<close>

fun host_key :: "codex_out \<Rightarrow> string set option \<Rightarrow> string set option" where
  "host_key (Pixels pad px) v = v"
| "host_key (Key k act ag) v =
     (case v of None \<Rightarrow> None
      | Some down \<Rightarrow>
          if act = CODEX_ACT_PRESS then (if k \<in> down then None else Some (insert k down))
          else if act = CODEX_ACT_RELEASE then (if k \<in> down then Some (down - {k}) else None)
          else Some down)"

definition host_view :: "codex_out list \<Rightarrow> string set option \<Rightarrow> string set option" where
  "host_view outs v = fold host_key outs v"

lemma host_view_simps [simp]:
  "host_view [] v = v"
  "host_view (x # xs) v = host_view xs (host_key x v)"
  "host_view (xs @ ys) v = host_view ys (host_view xs v)"
  by (simp_all add: host_view_def)

definition key_names :: "string list" where
  "key_names = map fst key_map"

definition keys_down :: "int \<Rightarrow> string set" where
  "keys_down m = {key_names ! i | i. i < 12 \<and> bit m i}"

definition down_of :: "codex_keys \<Rightarrow> string set" where
  "down_of s = keys_down (prev_mask s) \<union> (if was_pressed s then {''ENC''} else {})"

lemma key_names_distinct: "distinct (''ENC'' # key_names)" "length key_names = 12"
  by code_simp+

lemma key_eq: "i < 12 \<Longrightarrow> j < 12 \<Longrightarrow> key_names ! i = key_names ! j \<longleftrightarrow> i = j"
  using key_names_distinct by (simp add: nth_eq_iff_index_eq)

lemma key_not_switch: "i < 12 \<Longrightarrow> key_names ! i \<noteq> ''ENC''"
  using key_names_distinct by (metis distinct.simps(2) nth_mem)

lemma switch_not_down: "''ENC'' \<notin> keys_down m"
  using key_not_switch by (fastforce simp: keys_down_def)

lemma names_nth: "i < 12 \<Longrightarrow> fst (key_map ! i) = key_names ! i"
  using key_names_distinct(2) by (simp add: key_names_def)

lemma bit_BIT: "bit (BIT i) n \<longleftrightarrow> n = i"
  by (auto simp: BIT_def bit_exp_iff)

lemma and_BIT: "m AND BIT i = (if bit m i then BIT i else 0)"
  by (rule bit_eqI) (auto simp: bit_and_iff bit_BIT)

lemma BIT_nonzero [simp]: "BIT i \<noteq> 0"
  using bit_BIT [of i i] by (metis bit_0_eq bot_apply bot_bool_def)

text \<open>Reporting the changes brings the host from the keys of one mask to those of the other.\<close>

lemma host_pixels [simp]: "host_view (leds_update m p) v = v"
proof -
  have "\<forall>x \<in> set xs. \<exists>pad px. x = Pixels pad px \<Longrightarrow> host_view xs v = v" for xs
    by (induction xs) auto
  then show ?thesis by (rule meta_mp) (auto simp: leds_update_def Let_def)
qed

definition report_key :: "int \<Rightarrow> int \<Rightarrow> nat \<Rightarrow> codex_out list" where
  "report_key m p i =
     (if bit m i = bit p i then []
      else [Key (key_names ! i) (if bit m i then CODEX_ACT_PRESS else CODEX_ACT_RELEASE) (snd (key_map ! i))])"

lemma report_keys_alt: "report_keys m p = concat (map (report_key m p) [0..<12])"
proof -
  have "NUM_KEYS = 12" by (simp add: const_simps)
  then show ?thesis
    unfolding report_keys_def
    by (intro arg_cong [where f = concat] map_cong) (auto simp: report_key_def Let_def and_BIT names_nth)
qed

text \<open>After the first \<open>n\<close> keys: those of the new mask below \<open>n\<close>, those of the old one from there.\<close>

definition mixed :: "int \<Rightarrow> int \<Rightarrow> nat \<Rightarrow> string set" where
  "mixed m p n = {key_names ! i | i. i < 12 \<and> bit (if i < n then m else p) i}"

lemma in_mixed: "i < 12 \<Longrightarrow> key_names ! i \<in> mixed m p n \<longleftrightarrow> bit (if i < n then m else p) i"
  by (auto simp: mixed_def key_eq)

lemma mixed_names: "k \<in> mixed m p n \<Longrightarrow> \<exists>i < 12. k = key_names ! i"
  by (auto simp: mixed_def)

lemma mixed_Suc:
  assumes "n < 12"
  shows "mixed m p (Suc n) = (if bit m n then insert (key_names ! n) (mixed m p n) else mixed m p n - {key_names ! n})"
    (is "?L = ?R")
proof -
  have "\<exists>i < 12. k = key_names ! i" if "k \<in> ?L \<or> k \<in> ?R" for k
    using that mixed_names assms by (auto split: if_splits)
  moreover have "key_names ! i \<in> ?L \<longleftrightarrow> key_names ! i \<in> ?R" if "i < 12" for i
    using that assms by (auto simp: in_mixed key_eq less_Suc_eq)
  ultimately show ?thesis by blast
qed

lemma report_prefix:
  assumes "n \<le> 12" and "E \<subseteq> {''ENC''}"
  shows "host_view (concat (map (report_key m p) [0..<n])) (Some (mixed m p 0 \<union> E)) = Some (mixed m p n \<union> E)"
  using assms(1)
proof (induction n)
  case (Suc n)
  have sw: "key_names ! n \<notin> E" using key_not_switch [of n] Suc.prems assms(2) by auto
  have "key_names ! n \<in> mixed m p n \<longleftrightarrow> bit p n" using in_mixed [of n] Suc.prems by simp
  with Suc sw show ?case
    by (auto simp: report_key_def mixed_Suc const_simps)
qed simp

lemma report_keys_view:
  assumes "E \<subseteq> {''ENC''}"
  shows "host_view (report_keys m p) (Some (keys_down p \<union> E)) = Some (keys_down m \<union> E)"
proof -
  have "mixed m p 0 = keys_down p" "mixed m p 12 = keys_down m" by (auto simp: mixed_def keys_down_def)
  with report_prefix [OF order_refl assms, of m p] show ?thesis by (simp add: report_keys_alt)
qed

lemma bit_fold:
  "bit (fold (\<lambda>j m. if \<not> bit raw (f j) then m OR BIT (k + j) else m) js m) i \<longleftrightarrow>
     bit m i \<or> (\<exists>j \<in> set js. i = k + j \<and> \<not> bit raw (f j))"
  by (induction js arbitrary: m) (auto simp: bit_or_iff bit_BIT)

lemma bit_pad:
  "bit (pad_bits pad raw m) i \<longleftrightarrow> bit m i \<or> i div 4 = pad \<and> \<not> bit raw (key_pin ! (i mod 4))"
proof -
  have "(\<exists>j \<in> set [0..<4]. i = pad * 4 + j \<and> \<not> bit raw (key_pin ! j)) \<longleftrightarrow>
      i div 4 = pad \<and> \<not> bit raw (key_pin ! (i mod 4))"
    by (auto intro!: bexI [of _ "i mod 4"])
  then show ?thesis by (simp add: pad_bits_def const_simps bit_fold)
qed

lemma pad_nonneg:
  assumes "0 \<le> m"
  shows "0 \<le> pad_bits pad raw m"
proof -
  have "0 \<le> fold (\<lambda>j m. if \<not> bit raw (key_pin ! j) then m OR BIT (k + j) else m) js m" for k js
    using assms by (induction js arbitrary: m) (simp_all add: BIT_def)
  then show ?thesis by (simp add: pad_bits_def)
qed

lemma scan_good:
  assumes "\<And>pad. pad < 3 \<Longrightarrow> fst (ports pad) = 0"
  shows "0 \<le> keypads_scan ports"
    and "i < 12 \<Longrightarrow> bit (keypads_scan ports) i \<longleftrightarrow> \<not> bit (snd (ports (i div 4))) (key_pin ! (i mod 4))"
proof -
  have scan: "keypads_scan ports =
      pad_bits 2 (snd (ports 2)) (pad_bits 1 (snd (ports 1)) (pad_bits 0 (snd (ports 0)) 0))"
    using assms by (simp add: keypads_scan_def const_simps upt_rec numeral_2_eq_2)
  show "0 \<le> keypads_scan ports" unfolding scan by (intro pad_nonneg order_refl)
  assume "i < 12"
  then have "i div 4 = 0 \<or> i div 4 = 1 \<or> i div 4 = 2" by linarith
  then show "bit (keypads_scan ports) i \<longleftrightarrow> \<not> bit (snd (ports (i div 4))) (key_pin ! (i mod 4))"
    unfolding scan bit_pad by (elim disjE) simp_all
qed

lemma steps_view [simp]: "host_view (replicate n (Key k CODEX_ACT_STEP ag)) (Some v) = Some v"
  by (induction n) (simp_all add: const_simps)

lemma encoder_view:
  "host_view (fst (encoder_poll val s)) (Some v) = Some v"
  "down_of (snd (encoder_poll val s)) = down_of s"
  by (simp_all add: encoder_poll_def Let_def down_of_def split: option.split)

lemma switch_view:
  "host_view (fst (encoder_switch_poll val s)) (Some (down_of s)) = Some (down_of (snd (encoder_switch_poll val s)))"
  by (auto simp: encoder_switch_poll_def Let_def down_of_def const_simps switch_not_down)

lemma pass_view:
  "host_view (fst (codex_pass p s)) (Some (down_of s)) = Some (down_of (snd (codex_pass p s)))"
proof -
  define m where "m = keypads_scan (port_reads p)"
  define s1 where "s1 = (if m < 0 then s else if m \<noteq> prev_mask s then s\<lparr>prev_mask := m\<rparr> else s)"
  define keys where "keys = (if m < 0 then [] else if m \<noteq> prev_mask s
      then leds_update m (prev_mask s) @ report_keys m (prev_mask s) else [])"
  have keys: "host_view keys (Some (down_of s)) = Some (down_of s1)"
    by (simp add: keys_def s1_def down_of_def report_keys_view)
  have pass: "fst (codex_pass p s) = keys @ fst (encoder_poll (rotation p) s1) @
        fst (encoder_switch_poll (switch_pin p) (snd (encoder_poll (rotation p) s1)))"
      "snd (codex_pass p s) = snd (encoder_switch_poll (switch_pin p) (snd (encoder_poll (rotation p) s1)))"
    by (simp_all add: codex_pass_def Let_def split_beta m_def [symmetric] s1_def keys_def)
  show ?thesis
    unfolding pass host_view_simps keys encoder_view(1)
    using switch_view [of _ "snd (encoder_poll (rotation p) s1)"] by (simp only: encoder_view(2))
qed

lemma run_view:
  "host_view (fst (mealy_run codex_pass ps s)) (Some (down_of s)) = Some (down_of (snd (mealy_run codex_pass ps s)))"
  by (induction ps arbitrary: s) (simp_all add: pass_view)


section \<open>The dial\<close>

text \<open>Steps against the clock minus steps with it.\<close>

fun net_step :: "codex_out \<Rightarrow> int" where
  "net_step (Pixels pad px) = 0"
| "net_step (Key k act ag) = (if k = ''ENC_CC'' then 1 else if k = ''ENC_CW'' then - 1 else 0)"

definition net_steps :: "codex_out list \<Rightarrow> int" where
  "net_steps outs = sum_list (map net_step outs)"

lemma net_steps_simps [simp]:
  "net_steps [] = 0" "net_steps (x # xs) = net_step x + net_steps xs" "net_steps (xs @ ys) = net_steps xs + net_steps ys"
  by (simp_all add: net_steps_def)

lemma net_replicate [simp]: "net_steps (replicate n x) = int n * net_step x"
  by (induction n) (simp_all add: algebra_simps)

lemma net_none: "list_all (\<lambda>x. net_step x = 0) xs \<Longrightarrow> net_steps xs = 0"
  by (induction xs) simp_all

text \<open>No two readings in a row are more than eight counts apart.\<close>

fun slow_turn :: "u32 \<Rightarrow> u32 option list \<Rightarrow> bool" where
  "slow_turn l [] \<longleftrightarrow> True"
| "slow_turn l (None # vs) \<longleftrightarrow> slow_turn l vs"
| "slow_turn l (Some v # vs) \<longleftrightarrow> \<bar>sint (v - l)\<bar> \<le> 8 \<and> slow_turn v vs"

fun last_reading :: "u32 \<Rightarrow> u32 option list \<Rightarrow> u32" where
  "last_reading l [] = l"
| "last_reading l (None # vs) = last_reading l vs"
| "last_reading l (Some v # vs) = last_reading v vs"

lemma small_sint: "\<bar>k\<bar> \<le> 8 \<Longrightarrow> sint (word_of_int k :: u32) = k"
  by (simp add: signed_of_int signed_take_bit_int_eq_self)

lemma small_unat: "0 \<le> k \<Longrightarrow> k \<le> 8 \<Longrightarrow> int (unat (word_of_int k :: u32)) = k"
  by (simp add: unsigned_of_int take_bit_int_eq_self)

lemma steps_word:
  fixes d :: u32
  assumes "\<bar>sint d\<bar> \<le> 8"
  shows "d <s 0 \<longleftrightarrow> sint d < 0" and "\<not> 8 <s d" and "\<not> 8 <s - d"
    and "d <s 0 \<Longrightarrow> int (unat (- d)) = - sint d" and "\<not> d <s 0 \<Longrightarrow> int (unat d) = sint d"
proof -
  have words: "word_of_int (sint d) = d" "word_of_int (- sint d) = - d" by simp_all
  have s: "sint (- d) = - sint d" "sint (8 :: u32) = 8"
    using assms small_sint [of "- sint d"] small_sint [of 8] unfolding words by simp_all
  show neg: "d <s 0 \<longleftrightarrow> sint d < 0" by (simp add: word_sless_alt)
  show "\<not> 8 <s d" and "\<not> 8 <s - d" unfolding word_sless_alt s using assms by simp_all
  show "int (unat (- d)) = - sint d" if "d <s 0"
    using small_unat [of "- sint d"] that assms unfolding neg words by simp
  show "int (unat d) = sint d" if "\<not> d <s 0"
    using small_unat [of "sint d"] that assms unfolding neg words by simp
qed

lemma encoder_slow:
  assumes "encoder_synced s" and "\<bar>sint (v - encoder_last s)\<bar> \<le> 8"
  shows "net_steps (fst (encoder_poll (Some v) s)) = sint (v - encoder_last s)"
    and "snd (encoder_poll (Some v) s) = s\<lparr>encoder_last := v\<rparr>"
proof -
  note w = steps_word [OF assms(2)]
  show "net_steps (fst (encoder_poll (Some v) s)) = sint (v - encoder_last s)"
    using assms(1) w by (simp add: encoder_poll_def const_simps Let_def)
  show "snd (encoder_poll (Some v) s) = s\<lparr>encoder_last := v\<rparr>"
    using assms(1) by (cases s) (simp add: encoder_poll_def const_simps Let_def)
qed

lemma key_names_no_dial: "''ENC_CC'' \<notin> set key_names" "''ENC_CW'' \<notin> set key_names"
  by code_simp+

lemma keys_no_step:
  "net_steps (leds_update m p) = 0" "net_steps (report_keys m p) = 0"
  "net_steps (fst (encoder_switch_poll v s)) = 0"
proof -
  show "net_steps (leds_update m p) = 0"
    by (rule net_none) (auto simp: leds_update_def list_all_iff Let_def)
  have "i < 12 \<Longrightarrow> key_names ! i \<in> set key_names" for i by (simp add: key_names_distinct(2))
  then show "net_steps (report_keys m p) = 0"
    unfolding report_keys_alt
    by (intro net_none) (use key_names_no_dial in \<open>force simp: report_key_def list_all_iff\<close>)
  show "net_steps (fst (encoder_switch_poll v s)) = 0"
    by (simp add: encoder_switch_poll_def Let_def)
qed

definition scanned :: "pass \<Rightarrow> codex_keys \<Rightarrow> codex_keys" where
  "scanned p s =
     (if keypads_scan (port_reads p) < 0 then s else s\<lparr>prev_mask := keypads_scan (port_reads p)\<rparr>)"

lemma switch_keeps [simp]:
  "encoder_last (snd (encoder_switch_poll v s)) = encoder_last s"
  "encoder_synced (snd (encoder_switch_poll v s)) = encoder_synced s"
  "prev_mask (snd (encoder_switch_poll v s)) = prev_mask s"
  by (simp_all add: encoder_switch_poll_def Let_def)

lemma scanned_keeps [simp]:
  "encoder_last (scanned p s) = encoder_last s" "encoder_synced (scanned p s) = encoder_synced s"
  "was_pressed (scanned p s) = was_pressed s"
  by (simp_all add: scanned_def)

lemma same_mask: "prev_mask s = m \<Longrightarrow> s\<lparr>prev_mask := m\<rparr> = s"
  by (cases s) simp

lemma pass_state:
  "snd (codex_pass p s) = snd (encoder_switch_poll (switch_pin p) (snd (encoder_poll (rotation p) (scanned p s))))"
  by (auto simp: codex_pass_def Let_def split_beta scanned_def same_mask)

lemma pass_net:
  "net_steps (fst (codex_pass p s)) = net_steps (fst (encoder_poll (rotation p) (scanned p s)))"
  by (auto simp: codex_pass_def Let_def split_beta scanned_def same_mask keys_no_step)

lemma dial_run:
  assumes "encoder_synced s" and "slow_turn (encoder_last s) (map rotation ps)"
  shows "word_of_int (net_steps (fst (mealy_run codex_pass ps s))) = last_reading (encoder_last s) (map rotation ps) - encoder_last s"
  using assms
proof (induction ps arbitrary: s)
  case (Cons p ps)
  define s' where "s' = snd (codex_pass p s)"
  show ?case
  proof (cases "rotation p")
    case None
    have "encoder_last s' = encoder_last s" "encoder_synced s'" "net_steps (fst (codex_pass p s)) = 0"
      using Cons.prems(1) by (simp_all add: s'_def pass_state pass_net encoder_poll_def None)
    then show ?thesis using Cons.IH [of s'] Cons.prems(2) by (simp add: s'_def [symmetric] None)
  next
    case (Some v)
    have sl: "\<bar>sint (v - encoder_last (scanned p s))\<bar> \<le> 8" using Cons.prems(2) Some by simp
    note e = encoder_slow [OF _ sl]
    have l: "encoder_last s' = v" "encoder_synced s'"
      using Cons.prems(1) e(2) by (simp_all add: s'_def pass_state Some)
    have n: "net_steps (fst (codex_pass p s)) = sint (v - encoder_last s)"
      using Cons.prems(1) e(1) by (simp add: pass_net Some)
    show ?thesis using Cons.IH [of s'] Cons.prems(2) l by (simp add: s'_def [symmetric] Some n)
  qed
qed simp

text \<open>
  The range of the negation: between two readings exactly half the range apart the count stays
  negative, passes the cap and is counted down from the top bit.
\<close>

lemma encoder_half_range_floods:
  assumes "encoder_synced s" and "v - encoder_last s = 0x80000000"
  shows "fst (encoder_poll (Some v) s) = replicate (2 ^ 31) (Key ''ENC_CW'' CODEX_ACT_STEP (-1))"
proof -
  have "(0x80000000 :: u32) <s 0" "\<not> 8 <s (0x80000000 :: u32)" by code_simp+
  with assms show ?thesis by (simp add: encoder_poll_def const_simps Let_def)
qed

section \<open>Properties of the scan loop\<close>

text \<open>
  The host's picture of the keys is the hardware's. From the start, through any run of
  passes in which drivers may fail at will, the events never press a key that is down or release
  one that is up; and after a pass that read all three ports and the switch, the keys the host
  holds down are exactly those whose active-low line was low in that pass, the switch included.
\<close>

lemma codex_host_view:
  assumes "codex_main b = (outs, Some s)" and "\<And>pad. pad < NUM_PADS \<Longrightarrow> fst (port_reads p pad) = 0"
    and "0 \<le> switch_pin p"
  shows "\<exists>down. host_view (outs @ fst (mealy_run codex_pass (ps @ [p]) s)) (Some {}) = Some down \<and>
    (\<forall>i < NUM_KEYS. fst (key_map ! i) \<in> down \<longleftrightarrow>
       \<not> bit (snd (port_reads p (i div KEYS_PER_PAD))) (key_pin ! (i mod KEYS_PER_PAD))) \<and>
    (''ENC'' \<in> down \<longleftrightarrow> switch_pin p = 0)"
proof -
  let ?t = "snd (mealy_run codex_pass ps s)" and ?u = "snd (mealy_run codex_pass (ps @ [p]) s)"
  have s: "s = codex_init" "outs = leds_update 0 (BIT NUM_KEYS - 1)"
    using assms(1) by (auto simp: codex_main_def split: if_splits)
  have none: "down_of s = {}" by (simp add: s down_of_def codex_init_def keys_down_def)
  have view: "host_view (outs @ fst (mealy_run codex_pass (ps @ [p]) s)) (Some {}) = Some (down_of ?u)"
    using run_view [of "ps @ [p]" s] unfolding none by (simp only: host_view_simps s(2) host_pixels)
  note good = scan_good [of "port_reads p", OF assms(2)]
  have u: "?u = snd (codex_pass p ?t)" by (simp add: mealy_run_append)
  have mask: "prev_mask ?u = keypads_scan (port_reads p)"
    unfolding u pass_state using good(1) by (simp add: encoder_poll_def Let_def scanned_def const_simps split: option.split)
  have sw: "was_pressed ?u \<longleftrightarrow> switch_pin p = 0"
    unfolding u pass_state using assms(3) by (simp add: encoder_switch_poll_def Let_def)
  have keys: "key_names ! i \<in> down_of ?u \<longleftrightarrow> \<not> bit (snd (port_reads p (i div 4))) (key_pin ! (i mod 4))" if "i < 12" for i
    using that good(2) [of i] key_not_switch [of i] by (auto simp: down_of_def keys_down_def mask key_eq const_simps)
  have enc: "''ENC'' \<in> down_of ?u \<longleftrightarrow> switch_pin p = 0"
    by (simp add: down_of_def switch_not_down sw)
  have "\<forall>i < NUM_KEYS. fst (key_map ! i) \<in> down_of ?u \<longleftrightarrow>
      \<not> bit (snd (port_reads p (i div KEYS_PER_PAD))) (key_pin ! (i mod KEYS_PER_PAD))"
    by (simp add: const_simps names_nth keys)
  with view enc show ?thesis by blast
qed

text \<open>
  The dial loses and invents no step. Once the position is known, over any run of passes in
  which no two readings in a row are more than eight counts apart, the steps reported against the
  clock minus those with it are the distance from the first position to the last reading, on the
  sensor's wrapping 32-bit scale.
\<close>

lemma codex_dial_conserves:
  assumes "encoder_synced s" and "slow_turn (encoder_last s) (map rotation ps)"
  shows "encoder_last s + word_of_int (net_steps (fst (mealy_run codex_pass ps s))) =
    last_reading (encoder_last s) (map rotation ps)"
  by (simp add: dial_run [OF assms])


text \<open>Two keys and the switch go down while the second strip fails for one pass, then one comes up.\<close>

definition demo_startup :: startup where
  "demo_startup = \<lparr>pad_ready = (\<lambda>_. (True, True)), pin_configure = (\<lambda>_ _. 0), encoder_ready = (True, True),
     switch_configure = 0, bt_enable = 0\<rparr>"

definition demo_pass :: "int \<Rightarrow> u32 \<Rightarrow> u32 option \<Rightarrow> int \<Rightarrow> pass" where
  "demo_pass err raw turn sw =
     \<lparr>port_reads = (\<lambda>pad. if pad = 1 then (err, 0xFF) else (0, raw)), rotation = turn, switch_pin = sw\<rparr>"

lemma codex_host_view_instance:
  "\<exists>down. host_view (fst (codex_main demo_startup) @
       fst (mealy_run codex_pass [demo_pass 0 0xCF (Some 5) 0, demo_pass (- 5) 0xFF None 0, demo_pass 0 0xDF (Some 6) 1]
         codex_init)) (Some {}) = Some down \<and> ''AG01'' \<in> down \<and> ''AG00'' \<notin> down \<and> ''ENC'' \<notin> down"
proof -
  have main: "codex_main demo_startup = (fst (codex_main demo_startup), Some codex_init)"
    by (simp add: codex_main_def demo_startup_def keypads_init_def encoder_init_def const_simps upt_rec)
  have ok: "pad < NUM_PADS \<Longrightarrow> fst (port_reads (demo_pass 0 0xDF (Some 6) 1) pad) = 0" for pad
    by (simp add: demo_pass_def)
  have sw: "0 \<le> switch_pin (demo_pass 0 0xDF (Some 6) 1)" by (simp add: demo_pass_def)
  have bits: "bit (0xDF :: u32) 4" "\<not> bit (0xDF :: u32) 5" by code_simp+
  obtain down where down: "host_view (fst (codex_main demo_startup) @ fst (mealy_run codex_pass
        ([demo_pass 0 0xCF (Some 5) 0, demo_pass (- 5) 0xFF None 0] @ [demo_pass 0 0xDF (Some 6) 1]) codex_init)) (Some {}) =
        Some down"
      and keys: "\<forall>i < NUM_KEYS. fst (key_map ! i) \<in> down \<longleftrightarrow>
        \<not> bit (snd (port_reads (demo_pass 0 0xDF (Some 6) 1) (i div KEYS_PER_PAD))) (key_pin ! (i mod KEYS_PER_PAD))"
      and enc: "''ENC'' \<in> down \<longleftrightarrow> switch_pin (demo_pass 0 0xDF (Some 6) 1) = 0"
    using codex_host_view [OF main ok sw] by blast
  have "''AG01'' \<in> down" "''AG00'' \<notin> down" "''ENC'' \<notin> down"
    using keys [rule_format, of 1] keys [rule_format, of 0] enc bits
    by (simp_all add: const_simps key_map_def key_pin_def demo_pass_def)
  with down show ?thesis by auto
qed

lemma codex_dial_conserves_instance:
  "0xFFFFFFFE + word_of_int (net_steps (fst (mealy_run codex_pass
     [demo_pass 0 0xFF (Some 4) 1, demo_pass 0 0xFF None 1, demo_pass 0 0xFF (Some 1) 1]
     (codex_init\<lparr>encoder_last := 0xFFFFFFFE, encoder_synced := True\<rparr>)))) = (1 :: u32)"
proof -
  let ?s = "codex_init\<lparr>encoder_last := 0xFFFFFFFE, encoder_synced := True\<rparr>"
  let ?ps = "[demo_pass 0 0xFF (Some 4) 1, demo_pass 0 0xFF None 1, demo_pass 0 0xFF (Some 1) 1]"
  have sy: "encoder_synced ?s" by simp
  have r: "map rotation ?ps = [Some 4, None, Some 1]" by (simp add: demo_pass_def)
  have "slow_turn 0xFFFFFFFE [Some 4, None, Some 1]" by code_simp
  then have sl: "slow_turn (encoder_last ?s) (map rotation ?ps)" unfolding r by simp
  show ?thesis using codex_dial_conserves [OF sy sl] unfolding r by simp
qed

end
