(* ===== verification/Teleop.thy ===== *)
theory Teleop
  imports Prelude Complex_Main
begin

text \<open>
  The joystick controller (\<open>joystick_controller/src/teleop.c\<close>, \<open>main.c\<close>, \<open>calibrate.c\<close>): a dead
  man's switch and a stick drive a robot over ROS. An \<open>int16_t\<close> is an integer with the conversion
  written out, a \<open>double\<close> a rational: its rounding is not modelled. What the switches, the stick
  drivers and the network answer are inputs of a pass, what is published is an output.
\<close>

section \<open>Values\<close>

definition to_i16 :: "int \<Rightarrow> int" where
  "to_i16 v = signed_take_bit 15 v"

definition i16 :: "int \<Rightarrow> bool" where
  "i16 v \<longleftrightarrow> - 32768 \<le> v \<and> v \<le> 32767"

definition TELEOP_AXIS_MAX :: int where [const_simps]: "TELEOP_AXIS_MAX = 1000"

record teleop_limits =
  max_linear :: rat
  max_angular :: rat

record teleop_input =
  enable :: bool
  in_mod :: bool
  in_grasp :: bool
  in_x :: int
  in_y :: int
  in_rz :: int

record teleop_twist =
  linear_x :: rat
  linear_y :: rat
  linear_z :: rat
  angular_x :: rat
  angular_y :: rat
  angular_z :: rat

record teleop_state =
  active :: bool
  blocked :: bool
  armed :: bool
  st_mod :: bool
  st_grasp :: bool

definition no_twist :: teleop_twist where
  "no_twist = \<lparr>linear_x = 0, linear_y = 0, linear_z = 0, angular_x = 0, angular_y = 0, angular_z = 0\<rparr>"

section \<open>One tick\<close>

definition scale :: "int \<Rightarrow> rat \<Rightarrow> rat" where
  "scale v limit =
     of_int (if v < - TELEOP_AXIS_MAX then - TELEOP_AXIS_MAX else if TELEOP_AXIS_MAX < v then TELEOP_AXIS_MAX else v)
       * limit / of_int TELEOP_AXIS_MAX"

definition centred :: "teleop_input \<Rightarrow> bool" where
  "centred inp \<longleftrightarrow> in_x inp = 0 \<and> in_y inp = 0 \<and> in_rz inp = 0"

definition stop :: "teleop_state \<Rightarrow> teleop_twist option \<times> teleop_state" where
  "stop s = (if \<not> active s then (None, s) else (Some no_twist, s\<lparr>active := False\<rparr>))"

definition drive :: "teleop_limits \<Rightarrow> teleop_input \<Rightarrow> teleop_twist" where
  "drive lims inp =
     (if in_mod inp
      then no_twist\<lparr>linear_z := scale (in_y inp) (max_linear lims), angular_y := scale (in_x inp) (max_angular lims),
             angular_x := scale (in_rz inp) (max_angular lims)\<rparr>
      else no_twist\<lparr>linear_x := scale (in_y inp) (max_linear lims), linear_y := scale (in_x inp) (max_linear lims),
             angular_z := scale (in_rz inp) (max_angular lims)\<rparr>)"

text \<open>The part behind the check of the switch, and the whole step; the twist is \<open>*out\<close> where it returns true.\<close>

definition armed_step :: "teleop_limits \<Rightarrow> teleop_input \<Rightarrow> teleop_state \<Rightarrow> teleop_twist option \<times> teleop_state" where
  "armed_step lims inp s =
     (if \<not> armed s then (None, s\<lparr>armed := centred inp\<rparr>)
      else if centred inp then stop s
      else (Some (drive lims inp), s\<lparr>active := True\<rparr>))"

definition teleop_step :: "teleop_limits \<Rightarrow> teleop_input \<Rightarrow> teleop_state \<Rightarrow> teleop_twist option \<times> teleop_state" where
  "teleop_step lims inp s =
     (if blocked s then (None, s\<lparr>blocked := enable inp\<rparr>)
      else if \<not> enable inp \<or> in_mod inp \<noteq> st_mod s
      then (let s = s\<lparr>armed := False, st_mod := in_mod inp\<rparr>; (out, s) = stop s
            in if out \<noteq> None then (out, s)
               else if \<not> enable inp then (None, s)
               else armed_step lims inp s)
      else armed_step lims inp s)"

definition teleop_grasp_step :: "teleop_input \<Rightarrow> teleop_state \<Rightarrow> bool option \<times> teleop_state" where
  "teleop_grasp_step inp s =
     (if blocked s \<or> \<not> enable inp \<or> in_grasp inp = st_grasp s then (None, s)
      else (Some (in_grasp inp), s\<lparr>st_grasp := in_grasp inp\<rparr>))"

definition teleop_reset :: teleop_state where
  "teleop_reset = \<lparr>active = False, blocked = True, armed = False, st_mod = False, st_grasp = False\<rparr>"

definition teleop_cal_symmetric :: "int \<Rightarrow> int \<Rightarrow> int \<Rightarrow> int \<Rightarrow> (int \<times> int) option" where
  "teleop_cal_symmetric rest seen_min seen_max min_span =
     (let span = to_i16 (min (rest - seen_min) (seen_max - rest))
      in if span < min_span then None else Some (to_i16 (rest - span), to_i16 (rest + span)))"

section \<open>The main loop\<close>

text \<open>
  The answers of one pass: the switches' pin reads (below zero for an error, \<open>None\<close> for a switch
  the board does not have), the three axis atomics, the link, and whether each call succeeded.
\<close>

record teleop_pass =
  l4_up :: bool
  connects :: bool
  interface_up :: bool
  enable_sw :: int
  mod_sw :: "int option"
  grasp_sw :: "int option"
  axis_x :: int
  axis_y :: int
  axis_rz :: int
  twist_sent :: bool
  grasp_sent :: bool

record teleop_main =
  teleop :: teleop_state
  connected :: bool

datatype teleop_out = Twist teleop_twist | Grasp bool | Disconnected

definition switch_on :: "int option \<Rightarrow> bool" where
  "switch_on sw \<longleftrightarrow> (case sw of None \<Rightarrow> False | Some v \<Rightarrow> 0 < v)"

definition pass_input :: "bool \<Rightarrow> teleop_pass \<Rightarrow> teleop_input" where
  "pass_input arm p =
     \<lparr>enable = switch_on (Some (enable_sw p)), in_mod = (arm \<and> switch_on (mod_sw p)),
      in_grasp = (arm \<and> switch_on (grasp_sw p)), in_x = to_i16 (axis_x p), in_y = to_i16 (axis_y p),
      in_rz = to_i16 (axis_rz p)\<rparr>"

definition teleop_loop :: "bool \<Rightarrow> teleop_limits \<Rightarrow> teleop_pass \<Rightarrow> teleop_main \<Rightarrow> teleop_out list \<times> teleop_main" where
  "teleop_loop arm lims p m =
     (if \<not> connected m
      then ([], m\<lparr>teleop := teleop_reset, connected := (l4_up p \<and> connects p)\<rparr>)
      else (let inp = pass_input arm p;
                ok = (l4_up p \<and> interface_up p);
                (out, s) = (if ok then teleop_step lims inp (teleop m) else (None, teleop m));
                ok = (case out of None \<Rightarrow> ok | Some t \<Rightarrow> twist_sent p);
                (grasp, s) = (if arm \<and> ok then teleop_grasp_step inp s else (None, s));
                ok = (case grasp of None \<Rightarrow> ok | Some g \<Rightarrow> grasp_sent p);
                outs = (case out of None \<Rightarrow> [] | Some t \<Rightarrow> [Twist t]) @ (case grasp of None \<Rightarrow> [] | Some g \<Rightarrow> [Grasp g])
            in if \<not> ok then (outs @ [Disconnected], m\<lparr>teleop := s, connected := False\<rparr>)
               else (outs, m\<lparr>teleop := s\<rparr>)))"

text \<open>The start: the switches' set-up, then the loop from a reset state without a link.\<close>

definition teleop_start :: "int list \<Rightarrow> teleop_main option" where
  "teleop_start switch_inits =
     (if list_ex (\<lambda>e. e \<noteq> 0) switch_inits then None else Some \<lparr>teleop = teleop_reset, connected = False\<rparr>)"

section \<open>Runs of the step\<close>

definition step_run :: "teleop_limits \<Rightarrow> teleop_input list \<Rightarrow> teleop_state \<Rightarrow> teleop_state" where
  "step_run lims ins s = fold (\<lambda>inp s. snd (teleop_step lims inp s)) ins s"

lemma step_run_simps [simp]:
  "step_run lims [] s = s"
  "step_run lims (ins @ [inp]) s = snd (teleop_step lims inp (step_run lims ins s))"
  by (simp_all add: step_run_def)

text \<open>
  What the armed state remembers: the switch has been seen off, and since a tick with a centred
  stick it has stayed on with the present level of the shift switch.
\<close>

definition cleared :: "teleop_input list \<Rightarrow> bool \<Rightarrow> bool" where
  "cleared ins m \<longleftrightarrow> (\<exists>pre held. ins = pre @ held \<and> held \<noteq> [] \<and> centred (hd held) \<and>
     (\<forall>i \<in> set held. enable i \<and> in_mod i = m) \<and> (\<exists>i \<in> set pre. \<not> enable i))"

definition history :: "teleop_input list \<Rightarrow> teleop_state \<Rightarrow> bool" where
  "history ins s \<longleftrightarrow> (\<not> blocked s \<longrightarrow> (\<exists>i \<in> set ins. \<not> enable i)) \<and>
     (armed s \<longrightarrow> \<not> blocked s \<and> cleared ins (st_mod s))"

lemma cleared_more: "cleared ins m \<Longrightarrow> enable inp \<Longrightarrow> in_mod inp = m \<Longrightarrow> cleared (ins @ [inp]) m"
  unfolding cleared_def by (elim exE conjE, rule_tac x = pre in exI, rule_tac x = "held @ [inp]" in exI) auto

lemma cleared_first:
  assumes "\<exists>i \<in> set ins. \<not> enable i" and "centred inp" and "enable inp"
  shows "cleared (ins @ [inp]) (in_mod inp)"
  unfolding cleared_def using assms by (intro exI [of _ ins] exI [of _ "[inp]"]) simp

lemma stop_fields [simp]:
  "blocked (snd (stop s)) = blocked s" "armed (snd (stop s)) = armed s" "st_mod (snd (stop s)) = st_mod s"
  "st_grasp (snd (stop s)) = st_grasp s" "active (snd (stop s)) \<longleftrightarrow> False"
  by (auto simp: stop_def)

lemma history_armed_step:
  assumes "history ins s" and "\<not> blocked s" and "enable inp" and "in_mod inp = st_mod s"
  shows "history (ins @ [inp]) (snd (armed_step lims inp s))"
  using assms cleared_more [of ins "st_mod s" inp] cleared_first [of ins inp]
  by (auto simp: history_def armed_step_def)

lemma history_step:
  assumes "history ins s"
  shows "history (ins @ [inp]) (snd (teleop_step lims inp s))"
proof (cases "blocked s \<or> enable inp \<and> in_mod inp = st_mod s")
  case True
  then show ?thesis
    using assms history_armed_step [OF assms, of inp lims] by (auto simp: teleop_step_def history_def)
next
  case False
  define s' where "s' = s\<lparr>armed := False, st_mod := in_mod inp\<rparr>"
  have h: "history ins (snd (stop s'))" "\<not> blocked (snd (stop s'))" "\<not> armed (snd (stop s'))"
    using assms False by (auto simp: history_def s'_def)
  have m: "in_mod inp = st_mod (snd (stop s'))" by (simp add: s'_def)
  have idle: "history (ins @ [inp]) (snd (stop s'))" using h by (auto simp: history_def)
  show ?thesis
    using False idle history_armed_step [OF h(1,2) _ m, of lims]
    by (auto simp: teleop_step_def Let_def split_beta s'_def [symmetric])
qed

lemma history_run: "history ins (step_run lims ins teleop_reset)"
  by (induction ins rule: rev_induct) (simp_all add: history_step, simp add: history_def teleop_reset_def)

lemma step_publishes:
  assumes "fst (teleop_step lims inp s) = Some t" and "t \<noteq> no_twist"
  shows "enable inp \<and> armed s \<and> \<not> blocked s \<and> in_mod inp = st_mod s \<and> \<not> centred inp \<and> t = drive lims inp"
  using assms by (auto simp: teleop_step_def armed_step_def stop_def Let_def split: if_splits)

section \<open>Grasping keeps the motion state\<close>

lemma grasp_keeps [simp]:
  "active (snd (teleop_grasp_step inp s)) = active s" "blocked (snd (teleop_grasp_step inp s)) = blocked s"
  "armed (snd (teleop_grasp_step inp s)) = armed s" "st_mod (snd (teleop_grasp_step inp s)) = st_mod s"
  by (simp_all add: teleop_grasp_step_def)

lemma history_grasp: "history ins (snd (teleop_grasp_step inp s)) \<longleftrightarrow> history ins s"
  by (simp add: history_def)

text \<open>
  The passes since the last reset: the ones of the present connection.
\<close>

definition since_reset :: "bool \<Rightarrow> teleop_pass list \<Rightarrow> teleop_main \<Rightarrow> bool" where
  "since_reset arm ps m \<longleftrightarrow> (connected m \<longrightarrow>
     (\<exists>before post. ps = before @ post \<and> (\<forall>p \<in> set post. l4_up p \<and> interface_up p) \<and>
        history (map (pass_input arm) post) (teleop m)))"

lemma history_reset: "history [] teleop_reset"
  by (simp add: history_def teleop_reset_def)

lemma since_step:
  assumes "since_reset arm ps m"
  shows "since_reset arm (ps @ [p]) (snd (teleop_loop arm lims p m))"
proof (cases "connected m")
  case False
  then show ?thesis
    using history_reset by (auto simp: since_reset_def teleop_loop_def intro: exI [of _ "ps @ [p]"] exI [of _ "[]"])
next
  case True
  then obtain before post where ps: "ps = before @ post" "\<forall>p \<in> set post. l4_up p \<and> interface_up p"
      and h: "history (map (pass_input arm) post) (teleop m)"
    using assms by (auto simp: since_reset_def)
  define s1 where "s1 = snd (teleop_step lims (pass_input arm p) (teleop m))"
  have h1: "history (map (pass_input arm) (post @ [p])) s1"
    using history_step [OF h, of "pass_input arm p" lims] by (simp add: s1_def)
  let ?m = "snd (teleop_loop arm lims p m)"
  show ?thesis
  proof (cases "connected ?m")
    case c: True
    then have up: "l4_up p \<and> interface_up p"
      using True by (auto simp: teleop_loop_def Let_def split_beta teleop_grasp_step_def split: if_splits option.splits)
    have "teleop ?m = s1 \<or> teleop ?m = snd (teleop_grasp_step (pass_input arm p) s1)"
      using True up by (auto simp: teleop_loop_def Let_def split_beta s1_def)
    then have "history (map (pass_input arm) (post @ [p])) (teleop ?m)"
      using h1 by (auto simp: history_grasp)
    then show ?thesis
      unfolding since_reset_def using ps up
      by (intro impI exI [of _ before] exI [of _ "post @ [p]"]) simp
  qed (simp add: since_reset_def)
qed

lemma since_run:
  "since_reset arm ps m \<Longrightarrow> since_reset arm (ps @ qs) (snd (mealy_run (teleop_loop arm lims) qs m))"
proof (induction qs arbitrary: ps m)
  case (Cons q qs)
  from Cons.IH [OF since_step [OF Cons.prems, of q lims]] show ?case by simp
qed simp


section \<open>Calibration\<close>

text \<open>
  The record of one axis (\<open>calibrate.c\<close>). A device is its index, \<open>None\<close> for one that is not a
  stick; the calibrations read and the results of saving are inputs.
\<close>

definition MAX_AXES_PER_DEV :: int where [const_simps]: "MAX_AXES_PER_DEV = 3"
definition MIN_SPAN :: int where [const_simps]: "MIN_SPAN = 100"

record axis_cal =
  seen :: bool
  cal_rest :: int
  cal_min :: int
  cal_max :: int

record calibrator =
  cal :: "nat \<Rightarrow> int \<Rightarrow> axis_cal"
  running :: bool

record axis_range =
  in_min :: int
  in_max :: int
  in_deadzone :: int

datatype cal_out = Set_axis nat int axis_range | Save_stick nat

definition axis_zero :: axis_cal where
  "axis_zero = \<lparr>seen = False, cal_rest = 0, cal_min = 0, cal_max = 0\<rparr>"

definition raw_sample :: "int \<Rightarrow> axis_cal \<Rightarrow> axis_cal" where
  "raw_sample raw a =
     (if \<not> seen a then \<lparr>seen = True, cal_rest = raw, cal_min = raw, cal_max = raw\<rparr>
      else a\<lparr>cal_min := min (cal_min a) raw, cal_max := max (cal_max a) raw\<rparr>)"

definition raw_cb :: "nat option \<Rightarrow> int \<Rightarrow> int \<Rightarrow> calibrator \<Rightarrow> calibrator" where
  "raw_cb dev channel raw k =
     (case dev of None \<Rightarrow> k
      | Some d \<Rightarrow> if channel < 0 \<or> MAX_AXES_PER_DEV \<le> channel then k
          else k\<lparr>cal := (cal k)(d := (cal k d)(channel := raw_sample raw (cal k d channel)))\<rparr>)"

definition cal_start :: "calibrator \<Rightarrow> calibrator" where
  "cal_start k = k\<lparr>cal := (\<lambda>_ _. axis_zero), running := True\<rparr>"

text \<open>One axis of the validation: its new range, or the refusal.\<close>

definition cal_axis :: "axis_cal \<Rightarrow> axis_range \<Rightarrow> axis_range option" where
  "cal_axis a c =
     (if \<not> seen a then None
      else (case teleop_cal_symmetric (cal_rest a) (cal_min a) (cal_max a) (to_i16 (in_deadzone c + MIN_SPAN)) of
              None \<Rightarrow> None | Some (lo, hi) \<Rightarrow> Some (c\<lparr>in_min := lo, in_max := hi\<rparr>)))"

definition stick_axes :: "(nat \<Rightarrow> int) \<Rightarrow> nat \<Rightarrow> int list" where
  "stick_axes axes d = [0..min (axes d) MAX_AXES_PER_DEV - 1]"

fun cal_store :: "(nat \<Rightarrow> int) \<Rightarrow> (nat \<Rightarrow> int) \<Rightarrow> (nat \<Rightarrow> int \<Rightarrow> axis_range) \<Rightarrow> nat list \<Rightarrow> cal_out list \<times> int" where
  "cal_store axes save c [] = ([], 0)"
| "cal_store axes save c (d # ds) =
     (let sets = map (\<lambda>i. Set_axis d i (c d i)) (stick_axes axes d) @ [Save_stick d]
      in if save d \<noteq> 0 then (sets, save d)
         else (case cal_store axes save c ds of (outs, ret) \<Rightarrow> (sets @ outs, ret)))"

definition cal_stop ::
  "nat \<Rightarrow> (nat \<Rightarrow> int) \<Rightarrow> (nat \<Rightarrow> int \<Rightarrow> axis_range) \<Rightarrow> (nat \<Rightarrow> int) \<Rightarrow> calibrator \<Rightarrow> (cal_out list \<times> int) \<times> calibrator" where
  "cal_stop sticks axes stored save k =
     (if \<not> running k then (([], - EINVAL), k)
      else (let k = k\<lparr>running := False\<rparr>;
                new = (\<lambda>d i. cal_axis (cal k d i) (stored d i))
            in if list_ex (\<lambda>d. list_ex (\<lambda>i. new d i = None) (stick_axes axes d)) [0..<sticks]
               then (([], - EINVAL), k)
               else (cal_store axes save (\<lambda>d i. the (new d i)) [0..<sticks], k)))"

section \<open>What a calibration stores\<close>

lemma to_i16_id: "i16 v \<Longrightarrow> to_i16 v = v"
  by (simp add: to_i16_def i16_def signed_take_bit_int_eq_self)

text \<open>The span cannot overflow: both sides of the rest position share the 16-bit range.\<close>

lemma cal_symmetric_exact:
  assumes "i16 rest" and "i16 lo" and "i16 hi" and "lo \<le> rest" and "rest \<le> hi"
  shows "teleop_cal_symmetric rest lo hi m =
    (let span = min (rest - lo) (hi - rest) in if span < m then None else Some (rest - span, rest + span))"
proof -
  have "i16 (min (rest - lo) (hi - rest))" using assms by (auto simp: i16_def min_def)
  moreover have "i16 (rest - min (rest - lo) (hi - rest))" "i16 (rest + min (rest - lo) (hi - rest))"
    using assms by (auto simp: i16_def min_def)
  ultimately show ?thesis by (simp add: teleop_cal_symmetric_def to_i16_id Let_def)
qed

text \<open>The samples of one axis, taken in order.\<close>

definition samples :: "int list \<Rightarrow> axis_cal" where
  "samples raws = fold raw_sample raws axis_zero"

lemma samples_snoc: "samples (raws @ [r]) = raw_sample r (samples raws)"
  by (simp add: samples_def)

lemma samples_range:
  assumes "raws \<noteq> []"
  shows "samples raws = \<lparr>seen = True, cal_rest = hd raws, cal_min = Min (set raws), cal_max = Max (set raws)\<rparr>"
  using assms
proof (induction raws rule: rev_nonempty_induct)
  case (single x)
  then show ?case by (simp add: samples_def raw_sample_def axis_zero_def)
next
  case (snoc x xs)
  then show ?case by (simp add: samples_snoc raw_sample_def Min_insert2 min.commute max.commute)
qed


text \<open>The driver's callbacks of one axis, and the state they lead to.\<close>

definition axis_samples :: "(nat option \<times> int \<times> int) list \<Rightarrow> nat \<Rightarrow> int \<Rightarrow> int list" where
  "axis_samples evs d i = map (snd \<circ> snd) (filter (\<lambda>(dev, ch, raw). dev = Some d \<and> ch = i) evs)"

definition sampled :: "(nat option \<times> int \<times> int) list \<Rightarrow> calibrator \<Rightarrow> calibrator" where
  "sampled evs k = fold (\<lambda>(dev, ch, raw). raw_cb dev ch raw) evs (cal_start k)"

lemma sampled_axis:
  "running (sampled evs k) \<and>
   (0 \<le> i \<longrightarrow> i < MAX_AXES_PER_DEV \<longrightarrow> cal (sampled evs k) d i = samples (axis_samples evs d i))"
proof (induction evs rule: rev_induct)
  case Nil
  show ?case by (simp add: sampled_def cal_start_def axis_samples_def samples_def)
next
  case (snoc e evs)
  then show ?case
    by (cases e) (auto simp: sampled_def axis_samples_def raw_cb_def samples_snoc split: option.splits)
qed

lemma stored_axes:
  "Set_axis d i c \<in> set (fst (cal_store axes save new ds)) \<Longrightarrow> d \<in> set ds \<and> i \<in> set (stick_axes axes d) \<and> c = new d i"
  by (induction ds) (auto simp: Let_def split_beta split: if_splits)

lemma cal_axis_samples:
  assumes "cal_axis (samples raws) c = Some r" and "\<forall>x \<in> set raws. i16 x"
  shows "raws \<noteq> [] \<and> (let span = min (hd raws - Min (set raws)) (Max (set raws) - hd raws) in
    to_i16 (in_deadzone c + MIN_SPAN) \<le> span \<and> r = c\<lparr>in_min := hd raws - span, in_max := hd raws + span\<rparr>)"
proof -
  have ne: "raws \<noteq> []" using assms(1) by (auto simp: cal_axis_def samples_def axis_zero_def)
  then have mem: "hd raws \<in> set raws" "Min (set raws) \<in> set raws" "Max (set raws) \<in> set raws" by simp_all
  have exact: "teleop_cal_symmetric (hd raws) (Min (set raws)) (Max (set raws)) m =
      (let span = min (hd raws - Min (set raws)) (Max (set raws) - hd raws)
       in if span < m then None else Some (hd raws - span, hd raws + span))" for m
    using mem assms(2) by (intro cal_symmetric_exact) simp_all
  show ?thesis
    using assms(1) ne by (auto simp: cal_axis_def samples_range [OF ne] exact Let_def split: if_splits)
qed

section \<open>Properties of the joystick\<close>

lemma scale_bound: "0 \<le> limit \<Longrightarrow> \<bar>scale v limit\<bar> \<le> limit"
proof -
  assume l: "0 \<le> limit"
  define w :: int where "w = (if v < - 1000 then - 1000 else if 1000 < v then 1000 else v)"
  have w: "scale v limit = of_int w * limit / 1000" "\<bar>w\<bar> \<le> 1000"
    unfolding scale_def w_def const_simps by (simp_all add: abs_le_iff)
  have "\<bar>of_int w :: rat\<bar> \<le> 1000" using w(2) by (metis of_int_abs of_int_le_iff of_int_numeral)
  then have "\<bar>of_int w * limit\<bar> \<le> 1000 * limit" using l by (simp add: abs_mult mult_right_mono)
  with w(1) show "\<bar>scale v limit\<bar> \<le> limit" by simp
qed

lemma cleared_map:
  assumes "cleared (map f post) m"
  obtains off held where "post = off @ held" and "held \<noteq> []" and "centred (f (hd held))"
    and "\<forall>q \<in> set held. enable (f q) \<and> in_mod (f q) = m" and "\<exists>q \<in> set off. \<not> enable (f q)"
proof -
  obtain pre hs where c: "map f post = pre @ hs" "hs \<noteq> []" "centred (hd hs)" "\<forall>i \<in> set hs. enable i \<and> in_mod i = m"
      "\<exists>i \<in> set pre. \<not> enable i"
    using assms unfolding cleared_def by blast
  then obtain off held where "post = off @ held" "pre = map f off" "hs = map f held"
    by (auto simp: map_eq_append_conv)
  with c show thesis by (intro that [of off held]) (simp_all add: hd_map)
qed

text \<open>
  C25. The robot moves only under a dead man's switch. From the start of the program, through any
  run of passes with lost links and reconnects, a pass publishes a twist other than the stop
  only if the enable switch reads on in that pass and, within the present connection, it had been
  seen off, then the stick had been seen centred, and ever since that tick the switch has stayed
  on with the shift switch where it is now; and each speed is within its limit.
\<close>

theorem teleop_motion_needs_deadman:
  assumes "teleop_start inits = Some m"
    and "Twist t \<in> set (fst (teleop_loop arm lims p (snd (mealy_run (teleop_loop arm lims) ps m))))"
    and "t \<noteq> no_twist" and "0 \<le> max_linear lims" and "0 \<le> max_angular lims"
  shows "0 < enable_sw p \<and>
    (\<exists>before off held. ps = before @ off @ held \<and> (\<forall>q \<in> set (off @ held). l4_up q \<and> interface_up q) \<and>
       (\<exists>q \<in> set off. enable_sw q \<le> 0) \<and> held \<noteq> [] \<and> centred (pass_input arm (hd held)) \<and>
       (\<forall>q \<in> set held. 0 < enable_sw q \<and> in_mod (pass_input arm q) = in_mod (pass_input arm p))) \<and>
    (\<forall>v \<in> {linear_x t, linear_y t, linear_z t}. \<bar>v\<bar> \<le> max_linear lims) \<and>
    (\<forall>v \<in> {angular_x t, angular_y t, angular_z t}. \<bar>v\<bar> \<le> max_angular lims)"
proof -
  let ?m = "snd (mealy_run (teleop_loop arm lims) ps m)"
  have m: "m = \<lparr>teleop = teleop_reset, connected = False\<rparr>"
    using assms(1) by (auto simp: teleop_start_def split: if_splits)
  have "since_reset arm [] m" by (simp add: since_reset_def m)
  from since_run [OF this, of ps lims] have since: "since_reset arm ps ?m" by simp
  have conn: "connected ?m" using assms(2) by (auto simp: teleop_loop_def split: if_splits)
  have "fst (teleop_step lims (pass_input arm p) (teleop ?m)) = Some t"
    using assms(2) conn by (auto simp: teleop_loop_def Let_def split_beta split: if_splits option.splits)
  note pub = step_publishes [OF this assms(3)]
  obtain before post where ps: "ps = before @ post" "\<forall>q \<in> set post. l4_up q \<and> interface_up q"
      and h: "history (map (pass_input arm) post) (teleop ?m)"
    using since conn by (auto simp: since_reset_def)
  from h pub have "cleared (map (pass_input arm) post) (in_mod (pass_input arm p))"
    by (simp add: history_def)
  then obtain off held where post: "post = off @ held" and held: "held \<noteq> []" "centred (pass_input arm (hd held))"
      "\<forall>q \<in> set held. enable (pass_input arm q) \<and> in_mod (pass_input arm q) = in_mod (pass_input arm p)"
      and off: "\<exists>q \<in> set off. \<not> enable (pass_input arm q)"
    by (rule cleared_map)
  have en: "enable (pass_input arm q) \<longleftrightarrow> 0 < enable_sw q" for q by (simp add: pass_input_def switch_on_def)
  have bound: "(\<forall>v \<in> {linear_x t, linear_y t, linear_z t}. \<bar>v\<bar> \<le> max_linear lims) \<and>
      (\<forall>v \<in> {angular_x t, angular_y t, angular_z t}. \<bar>v\<bar> \<le> max_angular lims)"
    using pub scale_bound [OF assms(4)] scale_bound [OF assms(5)] assms(4,5) by (simp add: drive_def no_twist_def)
  have "\<exists>q \<in> set off. enable_sw q \<le> 0" using off unfolding en by (simp add: not_less)
  moreover have "\<forall>q \<in> set held. 0 < enable_sw q \<and> in_mod (pass_input arm q) = in_mod (pass_input arm p)"
    using held(3) unfolding en .
  moreover have "\<forall>q \<in> set (off @ held). l4_up q \<and> interface_up q" using ps(2) post by simp
  ultimately have "\<exists>before off held. ps = before @ off @ held \<and> (\<forall>q \<in> set (off @ held). l4_up q \<and> interface_up q) \<and>
       (\<exists>q \<in> set off. enable_sw q \<le> 0) \<and> held \<noteq> [] \<and> centred (pass_input arm (hd held)) \<and>
       (\<forall>q \<in> set held. 0 < enable_sw q \<and> in_mod (pass_input arm q) = in_mod (pass_input arm p))"
    using ps(1) post held(1,2) by blast
  with pub bound show ?thesis unfolding en by simp
qed


text \<open>
  Motion is always stopped, and once. After a tick that published a motion, the first tick
  with the switch off, the stick centred or the shift switch changed publishes the all-zero
  twist, and from then on nothing is published while the switch is off or the stick centred.
\<close>

lemma teleop_stops_once:
  assumes "teleop_step lims i s = (Some t, s1)" and "t \<noteq> no_twist"
    and "\<not> enable j \<or> centred j \<or> in_mod j \<noteq> in_mod i" and "teleop_step lims j s1 = (out, s2)"
    and "\<forall>k \<in> set ks. \<not> enable k \<or> centred k"
  shows "out = Some no_twist \<and> fst (mealy_run (\<lambda>k s. (case teleop_step lims k s of (o', s') \<Rightarrow> ([o'], s'))) ks s2) =
    replicate (length ks) None"
proof -
  have pub: "enable i \<and> armed s \<and> \<not> blocked s \<and> in_mod i = st_mod s \<and> \<not> centred i"
    using step_publishes [of lims i s t] assms(1,2) by simp
  with assms(1) have s1: "s1 = s\<lparr>active := True\<rparr>" by (auto simp: teleop_step_def armed_step_def)
  have "out = Some no_twist \<and> \<not> active s2"
    using assms(3,4) pub by (auto simp: s1 teleop_step_def armed_step_def stop_def Let_def split: if_splits)
  moreover have "\<not> active s' \<Longrightarrow> \<not> enable k \<or> centred k \<Longrightarrow>
      fst (teleop_step lims k s') = None \<and> \<not> active (snd (teleop_step lims k s'))" for k s'
    by (auto simp: teleop_step_def armed_step_def stop_def Let_def)
  then have "\<not> active s' \<Longrightarrow> \<forall>k \<in> set ks. \<not> enable k \<or> centred k \<Longrightarrow>
      fst (mealy_run (\<lambda>k s. (case teleop_step lims k s of (o', s') \<Rightarrow> ([o'], s'))) ks s') = replicate (length ks) None" for s'
    by (induction ks arbitrary: s') (simp_all add: split_beta)
  ultimately show ?thesis using assms(5) by blast
qed

text \<open>
  A calibration stores what was measured. If stopping the calibration stores a range for an
  axis, the axis was sampled, and the range is the widest one symmetric about its first sample
  that was reached on both sides, which lies inside the measured extremes and is computed
  without overflow; and then every axis of every stick was sampled.
\<close>

lemma teleop_calibration_measured:
  assumes "\<forall>(dev, ch, raw) \<in> set evs. i16 raw"
    and "Set_axis d i c \<in> set (fst (fst (cal_stop sticks axes stored save (sampled evs k))))"
  shows "axis_samples evs d i \<noteq> [] \<and>
    (let raws = axis_samples evs d i; span = min (hd raws - Min (set raws)) (Max (set raws) - hd raws)
     in to_i16 (in_deadzone (stored d i) + MIN_SPAN) \<le> span \<and>
        c = stored d i\<lparr>in_min := hd raws - span, in_max := hd raws + span\<rparr>) \<and>
    (\<forall>e < sticks. \<forall>a \<in> set (stick_axes axes e). axis_samples evs e a \<noteq> [])"
proof -
  define new where "new = (\<lambda>d i. cal_axis (cal (sampled evs k) d i) (stored d i))"
  have valid: "\<not> list_ex (\<lambda>d. list_ex (\<lambda>i. new d i = None) (stick_axes axes d)) [0..<sticks]"
    and put: "Set_axis d i c \<in> set (fst (cal_store axes save (\<lambda>d i. the (new d i)) [0..<sticks]))"
    using assms(2) by (auto simp: cal_stop_def Let_def new_def split: if_splits)
  have ok: "\<exists>r. new e a = Some r" if "e < sticks" "a \<in> set (stick_axes axes e)" for e a
    using valid that by (auto simp: list_ex_iff)
  have range: "\<forall>x \<in> set (axis_samples evs e a). i16 x" for e a
    using assms(1) by (auto simp: axis_samples_def)
  have axis: "new e a = cal_axis (samples (axis_samples evs e a)) (stored e a)" if "a \<in> set (stick_axes axes e)" for e a
    using that sampled_axis [of evs k a e] by (auto simp: new_def stick_axes_def)
  from stored_axes [OF put] have at: "d < sticks" "i \<in> set (stick_axes axes d)" "c = the (new d i)" by auto
  obtain r where "new d i = Some r" using ok [OF at(1,2)] by blast
  then have "cal_axis (samples (axis_samples evs d i)) (stored d i) = Some c"
    using at(3) axis [OF at(2)] by simp
  note here = cal_axis_samples [OF this range]
  have "axis_samples evs e a \<noteq> []" if at: "e < sticks" "a \<in> set (stick_axes axes e)" for e a
  proof -
    obtain r where "cal_axis (samples (axis_samples evs e a)) (stored e a) = Some r"
      using ok [OF at] axis [OF at(2)] by auto
    from cal_axis_samples [OF this range] show ?thesis by blast
  qed
  with here show ?thesis by (simp add: Let_def)
qed


section \<open>Concrete runs\<close>

definition demo_tick :: "int \<Rightarrow> int \<Rightarrow> teleop_pass" where
  "demo_tick sw y = \<lparr>l4_up = True, connects = True, interface_up = True, enable_sw = sw, mod_sw = None,
     grasp_sw = None, axis_x = 0, axis_y = y, axis_rz = 0, twist_sent = True, grasp_sent = True\<rparr>"

definition demo_limits :: teleop_limits where
  "demo_limits = \<lparr>max_linear = 1 / 2, max_angular = 1\<rparr>"

definition demo_twist :: teleop_twist where
  "demo_twist = no_twist\<lparr>linear_x := 1 / 5\<rparr>"

text \<open>Link up, switch off, switch on with the stick centred, stick at 400.\<close>

theorem teleop_motion_needs_deadman_witness:
  "fst (teleop_loop False demo_limits (demo_tick 1 400) (snd (mealy_run (teleop_loop False demo_limits)
     [demo_tick 0 0, demo_tick 0 0, demo_tick 1 0] \<lparr>teleop = teleop_reset, connected = False\<rparr>))) = [Twist demo_twist] \<and>
   \<bar>linear_x demo_twist\<bar> \<le> 1 / 2"
proof -
  have start: "teleop_start [0, 0, 0] = Some \<lparr>teleop = teleop_reset, connected = False\<rparr>"
    by (simp add: teleop_start_def)
  have run: "fst (teleop_loop False demo_limits (demo_tick 1 400) (snd (mealy_run (teleop_loop False demo_limits)
     [demo_tick 0 0, demo_tick 0 0, demo_tick 1 0] \<lparr>teleop = teleop_reset, connected = False\<rparr>))) = [Twist demo_twist]"
    by (simp add: teleop_loop_def demo_tick_def teleop_reset_def Let_def pass_input_def switch_on_def to_i16_id i16_def
        teleop_step_def armed_step_def stop_def centred_def drive_def scale_def demo_limits_def demo_twist_def no_twist_def const_simps
        teleop_grasp_step_def)
  have t: "Twist demo_twist \<in> set (fst (teleop_loop False demo_limits (demo_tick 1 400) (snd (mealy_run (teleop_loop False demo_limits)
     [demo_tick 0 0, demo_tick 0 0, demo_tick 1 0] \<lparr>teleop = teleop_reset, connected = False\<rparr>))))"
    unfolding run by simp
  have ne: "demo_twist \<noteq> no_twist" by (simp add: demo_twist_def no_twist_def)
  have lims: "0 \<le> max_linear demo_limits" "0 \<le> max_angular demo_limits" "max_linear demo_limits = 1 / 2"
    by (simp_all add: demo_limits_def)
  show ?thesis using teleop_motion_needs_deadman [OF start t ne lims(1,2)] run lims(3) by simp
qed

definition demo_held :: teleop_input where
  "demo_held = \<lparr>enable = True, in_mod = False, in_grasp = False, in_x = 0, in_y = 400, in_rz = 0\<rparr>"

definition demo_armed :: teleop_state where
  "demo_armed = \<lparr>active = False, blocked = False, armed = True, st_mod = False, st_grasp = False\<rparr>"

lemma teleop_stops_once_instance:
  "fst (teleop_step demo_limits (demo_held\<lparr>enable := False\<rparr>) (demo_armed\<lparr>active := True\<rparr>)) = Some no_twist"
proof -
  have one: "teleop_step demo_limits demo_held demo_armed = (Some demo_twist, demo_armed\<lparr>active := True\<rparr>)"
    by (simp add: teleop_step_def armed_step_def demo_held_def demo_armed_def centred_def drive_def scale_def
        demo_limits_def demo_twist_def no_twist_def const_simps)
  have ne: "demo_twist \<noteq> no_twist" by (simp add: demo_twist_def no_twist_def)
  have off: "\<not> enable (demo_held\<lparr>enable := False\<rparr>) \<or> centred (demo_held\<lparr>enable := False\<rparr>) \<or>
      in_mod (demo_held\<lparr>enable := False\<rparr>) \<noteq> in_mod demo_held" by simp
  have rest: "\<forall>k \<in> set [demo_held\<lparr>enable := False\<rparr>]. \<not> enable k \<or> centred k" by simp
  show ?thesis
    using teleop_stops_once [OF one ne off prod.collapse [symmetric] rest] by blast
qed

definition demo_samples :: "(nat option \<times> int \<times> int) list" where
  "demo_samples = [(Some 0, 0, 100), (Some 0, 0, -700), (None, 0, 5), (Some 0, 0, 1000)]"

definition demo_range :: axis_range where
  "demo_range = \<lparr>in_min = 0, in_max = 4095, in_deadzone = 20\<rparr>"

lemma teleop_calibration_measured_instance:
  "Set_axis 0 0 (demo_range\<lparr>in_min := - 700, in_max := 900\<rparr>) \<in>
     set (fst (fst (cal_stop 1 (\<lambda>_. 1) (\<lambda>_ _. demo_range) (\<lambda>_. 0) (sampled demo_samples \<lparr>cal = (\<lambda>_ _. axis_zero), running = False\<rparr>))))"
proof -
  let ?k = "\<lparr>cal = (\<lambda>_ _. axis_zero), running = False\<rparr>"
  let ?outs = "fst (fst (cal_stop 1 (\<lambda>_. 1) (\<lambda>_ _. demo_range) (\<lambda>_. 0) (sampled demo_samples ?k)))"
  have range: "\<forall>(dev, ch, raw) \<in> set demo_samples. i16 raw" by (simp add: demo_samples_def i16_def)
  obtain c where c: "Set_axis 0 0 c \<in> set ?outs"
    by (simp add: cal_stop_def sampled_def demo_samples_def cal_start_def raw_cb_def raw_sample_def axis_zero_def
        stick_axes_def const_simps cal_axis_def Let_def teleop_cal_symmetric_def demo_range_def to_i16_id i16_def)
  have raws: "axis_samples demo_samples 0 0 = [100, -700, 1000]" by (simp add: axis_samples_def demo_samples_def)
  from teleop_calibration_measured [OF range c] have "c = demo_range\<lparr>in_min := - 700, in_max := 900\<rparr>"
    by (simp add: raws Let_def)
  with c show ?thesis by simp
qed


end
