(* ===== verification/Camera_Proto.thy ===== *)
theory Camera_Proto
  imports Http_Util
begin

text \<open>
  The client of the camera service (\<open>common/prusa_camera/prusa_camera_proto.c\<close>,
  \<open>prusa_camera.c\<close>, \<open>prusa_camera.h\<close>): the camera-info body, the meaning of an answer and the
  request over TLS. Zephyr's JSON encoder is a parameter; the network's answers are an input and
  the HTTP request handed to it an output. A nullable string is an option.
\<close>

section \<open>Constants\<close>

definition PRUSA_CAMERA_TOKEN_LEN :: nat where [const_simps]: "PRUSA_CAMERA_TOKEN_LEN = 20"
definition PRUSA_CAMERA_NAME_MAX :: nat where [const_simps]: "PRUSA_CAMERA_NAME_MAX = 32"
definition PRUSA_CAMERA_FINGERPRINT_MIN :: nat where [const_simps]: "PRUSA_CAMERA_FINGERPRINT_MIN = 16"
definition PRUSA_CAMERA_FINGERPRINT_MAX :: nat where [const_simps]: "PRUSA_CAMERA_FINGERPRINT_MAX = 64"
definition PRUSA_CAMERA_SNAPSHOT_MAX :: nat where [const_simps]: "PRUSA_CAMERA_SNAPSHOT_MAX = 1000000"

definition trigger_names :: "string list" where
  "trigger_names = [''TEN_SEC'', ''THIRTY_SEC'', ''SIXTY_SEC'', ''TEN_MIN'']"

definition trigger_secs :: "nat list" where
  "trigger_secs = [10, 30, 60, 600]"

definition PRUSA_CAMERA_THIRTY_SEC :: nat where [const_simps]: "PRUSA_CAMERA_THIRTY_SEC = 1"

record prusa_camera_auth =
  auth_token :: string
  auth_fingerprint :: string

text \<open>The trigger is the enumeration's number, which a caller may have out of range.\<close>

record prusa_camera_info =
  info_name :: "string option"
  info_trigger :: int
  info_rotation :: nat
  info_width :: nat
  info_height :: nat
  info_wifi_mac :: "string option"
  info_wifi_ipv4 :: "string option"
  info_wifi_ssid :: "string option"
  info_type :: "string option"
  info_firmware_version :: "string option"
  info_hardware_version :: "string option"
  info_manufacturer :: "string option"
  info_model :: "string option"

datatype prusa_camera_next_step =
  PRUSA_CAMERA_NEXT_OK | PRUSA_CAMERA_NEXT_RETRY | PRUSA_CAMERA_NEXT_WAIT | PRUSA_CAMERA_NEXT_STOP

section \<open>The camera-info body\<close>

text \<open>What the encoder is given: the fields of the chosen descriptors with their values.\<close>

datatype json_value =
    Text "string option" | Uint nat | Number int | Flag bool | Texts "string list"
  | Object "(string \<times> json_value) list"

definition is_set :: "string option \<Rightarrow> bool" where
  "is_set s \<longleftrightarrow> s \<noteq> None \<and> the s \<noteq> []"

fun picked :: "string \<times> json_value \<Rightarrow> bool" where
  "picked (name, Text s) = is_set s"
| "picked (name, v) = True"

definition pick_strings :: "(string \<times> json_value) list \<Rightarrow> (string \<times> json_value) list" where
  "pick_strings all = filter picked all"

definition info_valid :: "prusa_camera_info \<Rightarrow> bool" where
  "info_valid i \<longleftrightarrow> \<not> (\<not> is_set (info_name i) \<or> length (the (info_name i)) > PRUSA_CAMERA_NAME_MAX \<or>
     \<not> is_set (info_type i) \<or>
     \<not> is_set (info_firmware_version i) \<or> length (the (info_firmware_version i)) > 16 \<or>
     \<not> is_set (info_hardware_version i) \<or> length (the (info_hardware_version i)) > 32 \<or>
     \<not> (0 \<le> info_trigger i \<and> info_trigger i < int (length trigger_names)) \<or>
     (info_width i = 0) \<noteq> (info_height i = 0))"

definition info_body :: "prusa_camera_info \<Rightarrow> json_value" where
  "info_body i =
     (let net = pick_strings [(''wifi_mac'', Text (info_wifi_mac i)), (''wifi_ipv4'', Text (info_wifi_ipv4 i)),
                 (''wifi_ssid'', Text (info_wifi_ssid i))];
          cfg = [(''name'', Text (info_name i)), (''trigger_scheme'', Text (Some (trigger_names ! nat (info_trigger i)))),
                 (''rotation'', Uint (info_rotation i))];
          cfg = (if info_width i \<noteq> 0
                 then cfg @ [(''resolution'', Object [(''width'', Uint (info_width i)), (''height'', Uint (info_height i))])]
                 else cfg);
          cfg = (if net \<noteq> [] then cfg @ [(''network_info'', Object net)] else cfg);
          dev = pick_strings [(''type'', Text (info_type i)), (''firmware_version'', Text (info_firmware_version i)),
                 (''hardware_version'', Text (info_hardware_version i)), (''manufacturer'', Text (info_manufacturer i)),
                 (''model'', Text (info_model i))]
      in Object [(''config'', Object cfg), (''features'', Texts [''snapshot'']), (''device'', Object dev)])"

text \<open>
  \<open>json v n\<close> is the return code of \<open>json_obj_encode_buf\<close> for a buffer of \<open>n\<close> bytes, with the text.
\<close>

definition prusa_camera_info_encode ::
  "(json_value \<Rightarrow> nat \<Rightarrow> int \<times> string) \<Rightarrow> prusa_camera_info \<Rightarrow> nat \<Rightarrow> int \<times> string" where
  "prusa_camera_info_encode json i len =
     (if \<not> info_valid i then (- EINVAL, []) else json (info_body i) len)"

section \<open>Answers\<close>

definition prusa_camera_next :: "int \<Rightarrow> prusa_camera_next_step" where
  "prusa_camera_next result =
     (if 200 \<le> result \<and> result < 300 then PRUSA_CAMERA_NEXT_OK
      else if result = 429 \<or> result = 503 then PRUSA_CAMERA_NEXT_WAIT
      else if result = - EINVAL \<or> result = - EMSGSIZE then PRUSA_CAMERA_NEXT_STOP
      else if result < 0 \<or> 500 \<le> result then PRUSA_CAMERA_NEXT_RETRY
      else PRUSA_CAMERA_NEXT_STOP)"

definition prusa_camera_describe :: "int \<Rightarrow> string" where
  "prusa_camera_describe result =
     (if result = - EINVAL then ''token must be 20 letters/digits (or bad camera info)''
      else if result = - EMSGSIZE \<or> result = 413 then ''image over 1 MB''
      else if result = 400 then ''bad request''
      else if result = 401 then ''token or fingerprint missing''
      else if result = 403 then ''unknown token, fingerprint mismatch, or first call later than 15 min '' @ ''after creating the camera''
      else if result = 411 then ''Content-Length missing''
      else if result = 415 then ''not a JPEG''
      else if result = 422 then ''rejected (token must be 20 characters)''
      else if result = 429 \<or> result = 503 then ''rate limited''
      else if 200 \<le> result \<and> result < 300 then ''ok''
      else if 500 \<le> result then ''server error''
      else if result < 0 then ''network or TLS error'' else ''unexpected status'')"

definition is_alnum :: "char \<Rightarrow> bool" where
  "is_alnum c = (let n = of_char c :: nat in 48 \<le> n \<and> n \<le> 57 \<or> 65 \<le> n \<and> n \<le> 90 \<or> 97 \<le> n \<and> n \<le> 122)"

definition prusa_camera_token_valid :: "string \<Rightarrow> bool" where
  "prusa_camera_token_valid token \<longleftrightarrow> length token = PRUSA_CAMERA_TOKEN_LEN \<and> list_all is_alnum token"

definition prusa_camera_trigger_seconds :: "nat \<Rightarrow> nat" where
  "prusa_camera_trigger_seconds t =
     (if t < length trigger_secs then trigger_secs ! t else trigger_secs ! PRUSA_CAMERA_THIRTY_SEC)"

definition prusa_camera_trigger_from_seconds :: "nat \<Rightarrow> int" where
  "prusa_camera_trigger_from_seconds seconds =
     (case find (\<lambda>i. trigger_secs ! i = seconds) [0..<length trigger_secs] of
        Some i \<Rightarrow> int i | None \<Rightarrow> - EINVAL)"

section \<open>Requests\<close>

datatype http_method = HTTP_GET | HTTP_PUT

record http_sent =
  sent_method :: http_method
  sent_path :: string
  sent_headers :: "string list"
  sent_type :: "string option"
  sent_body :: bytes

text \<open>
  The network's answers to one request: the resolver's code, the socket or the negated \<open>errno\<close>,
  the negated \<open>errno\<close> of the first option or connect that failed (or 0), the client's return code,
  and the status of the final part of the response, if one came.
\<close>

record camera_net =
  net_resolve :: int
  net_socket :: int
  net_setup :: int
  net_request :: int
  net_status :: "int option"

definition tls_connect :: "camera_net \<Rightarrow> int" where
  "tls_connect net =
     (if net_resolve net \<noteq> 0 then - EHOSTUNREACH
      else if net_socket net < 0 then net_socket net
      else if net_setup net < 0 then net_setup net
      else net_socket net)"

definition auth_sendable :: "string \<Rightarrow> prusa_camera_auth \<Rightarrow> bool" where
  "auth_sendable ua_hdr auth \<longleftrightarrow> \<not> (ua_hdr = [] \<or> \<not> prusa_camera_token_valid (auth_token auth) \<or>
     length (auth_fingerprint auth) < PRUSA_CAMERA_FINGERPRINT_MIN \<or>
     length (auth_fingerprint auth) > PRUSA_CAMERA_FINGERPRINT_MAX)"

definition crlf :: string where
  "crlf = [CHR 0x0D, CHR 0x0A]"

definition request ::
  "string \<Rightarrow> camera_net \<Rightarrow> prusa_camera_auth \<Rightarrow> http_method \<Rightarrow> string \<Rightarrow> string option \<Rightarrow> bytes \<Rightarrow>
     http_sent list \<times> int" where
  "request ua_hdr net auth method path content_type body =
     (if \<not> auth_sendable ua_hdr auth then ([], - EINVAL)
      else (let token_hdr = take 29 (''Token: '' @ auth_token auth @ crlf);
                fp_hdr = take 79 (''Fingerprint: '' @ auth_fingerprint auth @ crlf);
                sock = tls_connect net
            in if sock < 0 then ([], sock)
               else ([\<lparr>sent_method = method, sent_path = path, sent_headers = [token_hdr, fp_hdr, ua_hdr],
                       sent_type = content_type, sent_body = body\<rparr>],
                     if net_request net \<ge> 0 then (case net_status net of Some st \<Rightarrow> st | None \<Rightarrow> - EIO)
                     else net_request net)))"

definition prusa_camera_get_info :: "string \<Rightarrow> camera_net \<Rightarrow> prusa_camera_auth \<Rightarrow> http_sent list \<times> int" where
  "prusa_camera_get_info ua_hdr net auth = request ua_hdr net auth HTTP_GET ''/v1/camera-info'' None []"

definition prusa_camera_put_info ::
  "(json_value \<Rightarrow> nat \<Rightarrow> int \<times> string) \<Rightarrow> string \<Rightarrow> camera_net \<Rightarrow> prusa_camera_auth \<Rightarrow> prusa_camera_info \<Rightarrow>
     http_sent list \<times> int" where
  "prusa_camera_put_info json ua_hdr net auth info =
     (case prusa_camera_info_encode json info 512 of (ret, text) \<Rightarrow>
        if ret < 0 then ([], ret)
        else request ua_hdr net auth HTTP_PUT ''/v1/camera-info'' (Some ''application/json'') (map char_byte text))"

definition prusa_camera_put_snapshot ::
  "string \<Rightarrow> camera_net \<Rightarrow> prusa_camera_auth \<Rightarrow> bytes \<Rightarrow> http_sent list \<times> int" where
  "prusa_camera_put_snapshot ua_hdr net auth jpeg =
     (if length jpeg = 0 \<or> length jpeg > PRUSA_CAMERA_SNAPSHOT_MAX then ([], - EMSGSIZE)
      else request ua_hdr net auth HTTP_PUT ''/v1/snapshot'' (Some ''image/jpeg'') jpeg)"

text \<open>The start: the user agent's header (kept cut off where it does not fit) and the certificates' codes.\<close>

fun first_negative :: "int list \<Rightarrow> int" where
  "first_negative [] = 0"
| "first_negative (e # es) = (if e < 0 then e else first_negative es)"

definition prusa_camera_init :: "string \<Rightarrow> int list \<Rightarrow> string \<times> int" where
  "prusa_camera_init user_agent creds =
     (let hdr = ''User-Agent: '' @ user_agent @ crlf
      in if 64 \<le> length hdr then (take 63 hdr, - EINVAL) else (hdr, first_negative (take 3 creds)))"

end
