(* ===== verification/Camera.thy ===== *)
theory Camera
  imports Camera_Proto Http_Server
begin

text \<open>
  The camera's configuration and its upload thread (\<open>prusa_cam/src/cfg.c\<close>, \<open>connect.c\<close>,
  \<open>exif.h\<close>). The stored blob is the image of the struct, or one of another size; the camera's and
  the network's answers are inputs. The thread is cut where it waits and where it calls out, so
  that address events and requests from the shell and the web page come between.
\<close>

section \<open>The configuration\<close>

definition CFG_TOKEN_MAX :: nat where [const_simps]: "CFG_TOKEN_MAX = 64"
definition CFG_PASSWORD_MAX :: nat where [const_simps]: "CFG_PASSWORD_MAX = 32"
definition CFG_NAME_MAX :: nat where [const_simps]: "CFG_NAME_MAX = 32"

record cfg_resolution =
  res_name :: string
  res_width :: nat
  res_height :: nat

definition cfg_resolutions :: "cfg_resolution list" where
  "cfg_resolutions =
     [\<lparr>res_name = ''QVGA'', res_width = 320, res_height = 240\<rparr>, \<lparr>res_name = ''VGA'', res_width = 640, res_height = 480\<rparr>,
      \<lparr>res_name = ''SVGA'', res_width = 800, res_height = 600\<rparr>, \<lparr>res_name = ''XGA'', res_width = 1024, res_height = 768\<rparr>,
      \<lparr>res_name = ''SXGA'', res_width = 1280, res_height = 1024\<rparr>, \<lparr>res_name = ''UXGA'', res_width = 1600, res_height = 1200\<rparr>]"

record cfg =
  cf_token :: string
  cf_password :: string
  cf_name :: string
  cf_interval_s :: nat
  cf_resolution :: nat
  cf_quality :: nat
  cf_hflip :: bool
  cf_vflip :: bool
  cf_flash :: bool
  cf_rotation :: nat
  cf_ip :: u32
  cf_netmask :: u32
  cf_gateway :: u32
  cf_dns :: u32
  cf_brightness :: int
  cf_contrast :: int
  cf_saturation :: int
  cf_auto_exposure :: bool
  cf_auto_wb :: bool
  cf_auto_gain :: bool

definition cfg_default :: "string \<Rightarrow> cfg" where
  "cfg_default hostname =
     \<lparr>cf_token = [], cf_password = [], cf_name = hostname, cf_interval_s = 30, cf_resolution = 5, cf_quality = 80,
      cf_hflip = False, cf_vflip = False, cf_flash = False, cf_rotation = 0, cf_ip = 0, cf_netmask = 0,
      cf_gateway = 0, cf_dns = 0, cf_brightness = 0, cf_contrast = 0, cf_saturation = 0, cf_auto_exposure = True,
      cf_auto_wb = True, cf_auto_gain = True\<rparr>"

datatype cfg_blob = Cfg_image cfg | Wrong_size

definition cfg_load :: "string \<Rightarrow> cfg_blob \<Rightarrow> cfg \<Rightarrow> cfg" where
  "cfg_load key blob c =
     (if key \<noteq> ''v1'' then c
      else (case blob of Wrong_size \<Rightarrow> c
            | Cfg_image tmp \<Rightarrow>
                tmp\<lparr>cf_token := take CFG_TOKEN_MAX (cf_token tmp), cf_password := take CFG_PASSWORD_MAX (cf_password tmp),
                    cf_name := take CFG_NAME_MAX (cf_name tmp)\<rparr>))"

definition cfg_valid :: "cfg \<Rightarrow> bool" where
  "cfg_valid c \<longleftrightarrow> \<not> (prusa_camera_trigger_from_seconds (cf_interval_s c) < 0 \<or>
     (cf_token c \<noteq> [] \<and> \<not> prusa_camera_token_valid (cf_token c)) \<or> cf_name c = [] \<or>
     length (cf_name c) > CFG_NAME_MAX \<or>
     \<not> (- 2 \<le> cf_brightness c \<and> cf_brightness c \<le> 2) \<or> \<not> (- 2 \<le> cf_contrast c \<and> cf_contrast c \<le> 2) \<or>
     \<not> (- 2 \<le> cf_saturation c \<and> cf_saturation c \<le> 2) \<or> cf_resolution c \<ge> length cfg_resolutions \<or>
     cf_quality c > 100 \<or> cf_rotation c > 3 \<or>
     (cf_ip c \<noteq> 0 \<and> (cf_netmask c = 0 \<or> cf_gateway c = 0)) \<or>
     length (cf_token c) > CFG_TOKEN_MAX \<or> length (cf_password c) > CFG_PASSWORD_MAX)"

text \<open>
  The configuration in RAM and in flash; \<open>save_ret\<close> is the return code of the settings subsystem.
  The third result tells whether \<open>cfg_changed\<close> is called.
\<close>

record cfg_state =
  cfg_ram :: cfg
  cfg_flash :: "cfg_blob option"

definition cfg_set :: "int \<Rightarrow> cfg \<Rightarrow> cfg_state \<Rightarrow> int \<times> cfg_state \<times> bool" where
  "cfg_set save_ret tmp s =
     (if \<not> cfg_valid tmp then (- EINVAL, s, False)
      else if save_ret = 0 then (0, s\<lparr>cfg_ram := tmp, cfg_flash := Some (Cfg_image tmp)\<rparr>, True)
      else (save_ret, s, False))"

definition cfg_resolution_find :: "string \<Rightarrow> int" where
  "cfg_resolution_find name =
     (case find (\<lambda>i. strcasecmp_eq name (res_name (cfg_resolutions ! i))) [0..<length cfg_resolutions] of
        Some i \<Rightarrow> int i | None \<Rightarrow> - 1)"

text \<open>The fingerprint: the device id in hexadecimal behind a prefix.\<close>

definition FP_PREFIX :: string where [const_simps]: "FP_PREFIX = ''zephyrcam''"
definition FP_ID_MAX :: nat where [const_simps]: "FP_ID_MAX = 15"

definition hex_char :: "nat \<Rightarrow> char" where
  "hex_char n = (if n < 10 then char_of (48 + n) else char_of (87 + n))"

definition bin2hex :: "bytes \<Rightarrow> string" where
  "bin2hex bs = concat (map (\<lambda>b. [hex_char (unat b div 16), hex_char (unat b mod 16)]) bs)"

text \<open>The id is what \<open>hwinfo_get_device_id\<close> returned with its length, or an error.\<close>

definition cfg_init :: "int \<Rightarrow> bytes \<Rightarrow> int \<Rightarrow> (cfg_state \<Rightarrow> int \<times> cfg_state) \<Rightarrow> cfg_state \<Rightarrow> int \<times> string \<times> cfg_state" where
  "cfg_init n ident subsys_ret load_subtree s =
     (if n \<le> 0 then (if n < 0 then n else - EIO, [], s)
      else (let fingerprint = FP_PREFIX @ bin2hex (take (nat n) ident)
            in if subsys_ret < 0 then (subsys_ret, fingerprint, s)
               else (case load_subtree s of (ret, s) \<Rightarrow> (ret, fingerprint, s))))"

text \<open>\<open>settings_load_subtree\<close> on the one key of this program.\<close>

definition load_prusa :: "int \<Rightarrow> cfg_state \<Rightarrow> int \<times> cfg_state" where
  "load_prusa ret s =
     (ret, case cfg_flash s of None \<Rightarrow> s | Some blob \<Rightarrow> s\<lparr>cfg_ram := cfg_load ''v1'' blob (cfg_ram s)\<rparr>)"

section \<open>The Exif header\<close>

definition EXIF_HDR_LEN :: nat where [const_simps]: "EXIF_HDR_LEN = 38"

definition exif_orientation :: "nat \<Rightarrow> u16" where
  "exif_orientation rotation = (if rotation < 4 then [1, 6, 3, 8] ! rotation else 1)"

definition exif_header :: "u16 \<Rightarrow> bytes" where
  "exif_header orientation =
     ([0xFF, 0xD8, 0xFF, 0xE1, 0x00, 0x22, 0x45, 0x78, 0x69, 0x66, 0x00, 0x00, 0x4D, 0x4D, 0x00, 0x2A,
       0x00, 0x00, 0x00, 0x08, 0x00, 0x01, 0x01, 0x12, 0x00, 0x03, 0x00, 0x00, 0x00, 0x01,
       0x00, 0x00, 0x00, 0x00, 0x00, 0x00, 0x00, 0x00] :: bytes)
       [30 := ucast (drop_bit 8 orientation), 31 := ucast (orientation AND 0xFF)]"

definition exif_wanted :: "bytes \<Rightarrow> nat \<Rightarrow> bool" where
  "exif_wanted jpeg rotation \<longleftrightarrow>
     rotation \<noteq> 0 \<and> rotation < 4 \<and> 2 \<le> length jpeg \<and> jpeg ! 0 = 0xFF \<and> jpeg ! 1 = 0xD8"

section \<open>The upload thread\<close>

definition BACKOFF_MAX_S :: nat where [const_simps]: "BACKOFF_MAX_S = 600"

datatype connect_kind = TEST | INFO | SNAPSHOT

record connect_status =
  last_ms :: int
  last_result :: int
  uploads :: u32
  status_stopped :: bool

text \<open>
  The two flags, the semaphore's count, the status and the thread's locals; \<open>in_call\<close> is the
  request it has called out for, with the configuration it read.
\<close>

record connect =
  info_stale :: bool
  test_requested :: bool
  kick :: bool
  status :: connect_status
  fails :: u32
  stopped :: bool
  in_call :: "(connect_kind \<times> cfg) option"

definition connect_boot :: connect where
  "connect_boot = \<lparr>info_stale = True, test_requested = False, kick = False,
     status = \<lparr>last_ms = 0, last_result = 0, uploads = 0, status_stopped = False\<rparr>,
     fails = 0, stopped = False, in_call = None\<rparr>"

definition addr_event :: "connect \<Rightarrow> connect" where
  "addr_event s = s\<lparr>info_stale := True, kick := True\<rparr>"

definition connect_kick :: "connect \<Rightarrow> connect" where
  "connect_kick s = s\<lparr>info_stale := True, kick := True\<rparr>"

definition connect_test :: "connect \<Rightarrow> connect" where
  "connect_test s = s\<lparr>test_requested := True, kick := True\<rparr>"

definition connect_wait :: "cfg \<Rightarrow> connect \<Rightarrow> nat" where
  "connect_wait c s =
     (let wait = min (cf_interval_s c * 2 ^ min (unat (fails s)) 6) BACKOFF_MAX_S
      in max wait (cf_interval_s c))"

text \<open>The semaphore was taken, or the wait has run out; what the thread then calls out for.\<close>

definition connect_wake :: "cfg \<Rightarrow> connect \<Rightarrow> connect" where
  "connect_wake c s =
     (let s = (if kick s then s\<lparr>kick := False, stopped := (test_requested s \<and> stopped s)\<rparr> else s)
      in if cf_token c = [] then s
         else if test_requested s then s\<lparr>test_requested := False, in_call := Some (TEST, c)\<rparr>
         else if stopped s then s
         else if info_stale s then s\<lparr>in_call := Some (INFO, c)\<rparr>
         else s\<lparr>in_call := Some (SNAPSHOT, c)\<rparr>)"

definition record_result :: "int \<Rightarrow> int \<Rightarrow> bool \<Rightarrow> bool \<Rightarrow> connect_status \<Rightarrow> connect_status" where
  "record_result now result uploaded refused st =
     st\<lparr>last_ms := now, last_result := result, uploads := uploads st + (if uploaded then 1 else 0),
        status_stopped := refused\<rparr>"

text \<open>The call returned \<open>ret\<close>: the rest of \<open>step\<close> and the switch in the thread.\<close>

definition connect_done :: "int \<Rightarrow> int \<Rightarrow> connect \<Rightarrow> connect" where
  "connect_done ret now s =
     (case in_call s of None \<Rightarrow> s
      | Some (kind, c) \<Rightarrow>
          (let next = prusa_camera_next ret;
               s = (if kind = INFO \<and> next = PRUSA_CAMERA_NEXT_OK then s\<lparr>info_stale := False\<rparr> else s);
               st = (next = PRUSA_CAMERA_NEXT_STOP)
           in s\<lparr>in_call := None, stopped := st,
                status := record_result now ret (kind = SNAPSHOT \<and> next = PRUSA_CAMERA_NEXT_OK) st (status s),
                fails := (case next of PRUSA_CAMERA_NEXT_RETRY \<Rightarrow> fails s + 1 | PRUSA_CAMERA_NEXT_OK \<Rightarrow> 0 | _ \<Rightarrow> fails s)\<rparr>))"

text \<open>
  What a call sends and returns. \<open>cam\<close> is the camera's answer, \<open>wifi\<close> the texts of
  \<open>net_info_update\<close>, empty where the interface had none.
\<close>

record camera_env =
  env_json :: "json_value \<Rightarrow> nat \<Rightarrow> int \<times> string"
  env_ua :: string
  env_version :: string
  env_fingerprint :: string

record camera_answers =
  ans_net :: camera_net
  ans_cam :: "int + bytes"
  ans_mac :: string
  ans_ipv4 :: string
  ans_ssid :: string

definition send_info :: "camera_env \<Rightarrow> camera_answers \<Rightarrow> prusa_camera_auth \<Rightarrow> cfg \<Rightarrow> http_sent list \<times> int" where
  "send_info E a auth c =
     (let info = \<lparr>info_name = Some (cf_name c), info_trigger = prusa_camera_trigger_from_seconds (cf_interval_s c),
            info_rotation = cf_rotation c * 90, info_width = res_width (cfg_resolutions ! cf_resolution c),
            info_height = res_height (cfg_resolutions ! cf_resolution c), info_wifi_mac = Some (ans_mac a),
            info_wifi_ipv4 = Some (ans_ipv4 a), info_wifi_ssid = Some (ans_ssid a), info_type = Some ''ESP32'',
            info_firmware_version = Some (env_version E), info_hardware_version = Some ''AI-Thinker ESP32-CAM'',
            info_manufacturer = Some ''AI-Thinker'', info_model = Some ''ESP32-CAM''\<rparr>
      in prusa_camera_put_info (env_json E) (env_ua E) (ans_net a) auth info)"

definition send_snapshot :: "camera_env \<Rightarrow> camera_answers \<Rightarrow> prusa_camera_auth \<Rightarrow> http_sent list \<times> int" where
  "send_snapshot E a auth =
     (case ans_cam a of Inl ret \<Rightarrow> ([], ret)
      | Inr jpeg \<Rightarrow> prusa_camera_put_snapshot (env_ua E) (ans_net a) auth jpeg)"

definition connect_call :: "camera_env \<Rightarrow> camera_answers \<Rightarrow> connect_kind \<Rightarrow> cfg \<Rightarrow> http_sent list \<times> int" where
  "connect_call E a kind c =
     (let auth = \<lparr>auth_token = cf_token c, auth_fingerprint = env_fingerprint E\<rparr>
      in case kind of TEST \<Rightarrow> prusa_camera_get_info (env_ua E) (ans_net a) auth
         | INFO \<Rightarrow> send_info E a auth c
         | SNAPSHOT \<Rightarrow> send_snapshot E a auth)"

end
