(* ===== verification/Camera_Run.thy ===== *)
theory Camera_Run
  imports Camera
begin

text \<open>
  The camera program over time: the configuration and the upload thread under every order of
  address events, requests from the shell and the web page, saved configurations, wake-ups and
  returns of calls, with the properties of what is sent.
\<close>

section \<open>The program as a machine\<close>

record camera =
  cam_cfg :: cfg_state
  cam_conn :: connect

datatype camera_event =
    Address | Snap | Ask_test | Save cfg int | Applied | Wake | Return camera_answers int

text \<open>
  A \<open>Save\<close> is \<open>cfg_set\<close> up to its call of \<open>cfg_changed\<close> (\<open>main.c\<close>), with the new configuration
  published when flash took it. \<open>cfg_changed\<close> then configures the camera, which blocks (mutex,
  bus, stop and start of the stream), and kicks the thread at its end: \<open>Applied\<close>. Anything may
  happen in between, so the two are events of their own; the machine lets the second come at any
  time after the first, or never, and with no save before it, where it is no more than a kick. A
  \<open>Wake\<close> is one event: the thread makes no call between the semaphore and its choice.
\<close>

fun camera_step :: "camera_env \<Rightarrow> camera_event \<Rightarrow> camera \<Rightarrow> http_sent list \<times> camera" where
  "camera_step E Address s = ([], s\<lparr>cam_conn := addr_event (cam_conn s)\<rparr>)"
| "camera_step E Snap s = ([], s\<lparr>cam_conn := connect_kick (cam_conn s)\<rparr>)"
| "camera_step E Ask_test s = ([], s\<lparr>cam_conn := connect_test (cam_conn s)\<rparr>)"
| "camera_step E (Save c save_ret) s =
     (case cfg_set save_ret c (cam_cfg s) of (ret, cs, changed) \<Rightarrow>
        ([], s\<lparr>cam_cfg := cs\<rparr>))"
| "camera_step E Applied s = ([], s\<lparr>cam_conn := connect_kick (cam_conn s)\<rparr>)"
| "camera_step E Wake s =
     (if in_call (cam_conn s) \<noteq> None then ([], s)
      else ([], s\<lparr>cam_conn := connect_wake (cfg_ram (cam_cfg s)) (cam_conn s)\<rparr>))"
| "camera_step E (Return a now) s =
     (case in_call (cam_conn s) of None \<Rightarrow> ([], s)
      | Some (kind, c) \<Rightarrow>
          (case connect_call E a kind c of (sent, ret) \<Rightarrow>
             (sent, s\<lparr>cam_conn := connect_done ret now (cam_conn s)\<rparr>)))"

definition camera_run :: "camera_env \<Rightarrow> camera_event list \<Rightarrow> camera \<Rightarrow> camera" where
  "camera_run E es s = snd (mealy_run (camera_step E) es s)"

lemma camera_run_simps [simp]:
  "camera_run E [] s = s"
  "camera_run E (e # es) s = camera_run E es (snd (camera_step E e s))"
  by (simp_all add: camera_run_def)

lemma camera_run_append: "camera_run E (es @ fs) s = camera_run E fs (camera_run E es s)"
  by (simp add: camera_run_def mealy_run_append)

text \<open>The start of the program with what flash holds.\<close>

definition camera_boot :: "string \<Rightarrow> cfg_blob option \<Rightarrow> camera" where
  "camera_boot hostname flash =
     \<lparr>cam_cfg = snd (load_prusa 0 \<lparr>cfg_ram = cfg_default hostname, cfg_flash = flash\<rparr>), cam_conn = connect_boot\<rparr>"

section \<open>What a request carries\<close>

lemma request_sends:
  assumes "r \<in> set (fst (request ua net auth method path ty body))"
  shows "prusa_camera_token_valid (auth_token auth) \<and>
    PRUSA_CAMERA_FINGERPRINT_MIN \<le> length (auth_fingerprint auth) \<and>
    length (auth_fingerprint auth) \<le> PRUSA_CAMERA_FINGERPRINT_MAX \<and>
    r = \<lparr>sent_method = method, sent_path = path,
         sent_headers = [''Token: '' @ auth_token auth @ crlf, ''Fingerprint: '' @ auth_fingerprint auth @ crlf, ua],
         sent_type = ty, sent_body = body\<rparr>"
proof -
  have v: "auth_sendable ua auth" and m: "r \<in> set (let token_hdr = take 29 (''Token: '' @ auth_token auth @ crlf);
                fp_hdr = take 79 (''Fingerprint: '' @ auth_fingerprint auth @ crlf);
                sock = tls_connect net
            in if sock < 0 then []
               else [\<lparr>sent_method = method, sent_path = path, sent_headers = [token_hdr, fp_hdr, ua],
                       sent_type = ty, sent_body = body\<rparr>])"
    using assms by (auto simp: request_def Let_def split: if_splits)
  have lens: "length (auth_token auth) = 20" "length (auth_fingerprint auth) \<le> 64" "length crlf = 2"
    using v by (simp_all add: auth_sendable_def prusa_camera_token_valid_def const_simps crlf_def)
  then have "take 29 (''Token: '' @ auth_token auth @ crlf) = ''Token: '' @ auth_token auth @ crlf"
    and "take 79 (''Fingerprint: '' @ auth_fingerprint auth @ crlf) = ''Fingerprint: '' @ auth_fingerprint auth @ crlf"
    by simp_all
  with m v show ?thesis by (auto simp: Let_def auth_sendable_def split: if_splits)
qed

text \<open>The method and path of each kind of call.\<close>

fun call_line :: "connect_kind \<Rightarrow> http_method \<times> string" where
  "call_line TEST = (HTTP_GET, ''/v1/camera-info'')"
| "call_line INFO = (HTTP_PUT, ''/v1/camera-info'')"
| "call_line SNAPSHOT = (HTTP_PUT, ''/v1/snapshot'')"

lemma call_sends:
  assumes "r \<in> set (fst (connect_call E a kind c))"
  shows "prusa_camera_token_valid (cf_token c) \<and> 16 \<le> length (env_fingerprint E) \<and> length (env_fingerprint E) \<le> 64 \<and>
    (sent_method r, sent_path r) = call_line kind \<and>
    sent_headers r = [''Token: '' @ cf_token c @ crlf, ''Fingerprint: '' @ env_fingerprint E @ crlf, env_ua E] \<and>
    (kind = SNAPSHOT \<longrightarrow> 0 < length (sent_body r) \<and> length (sent_body r) \<le> 1000000 \<and> ans_cam a = Inr (sent_body r))"
proof (cases kind)
  case TEST
  with assms request_sends [of r] show ?thesis
    by (fastforce simp: connect_call_def prusa_camera_get_info_def const_simps)
next
  case INFO
  with assms request_sends [of r] show ?thesis
    by (fastforce simp: connect_call_def send_info_def Let_def prusa_camera_put_info_def const_simps
        split: prod.splits if_splits)
next
  case SNAPSHOT
  with assms request_sends [of r] show ?thesis
    by (fastforce simp: connect_call_def send_snapshot_def prusa_camera_put_snapshot_def const_simps
        split: sum.splits if_splits)
qed

section \<open>The configuration\<close>

lemma trigger_valid: "\<not> prusa_camera_trigger_from_seconds n < 0 \<longleftrightarrow> n \<in> {10, 30, 60, 600}"
  by (simp add: prusa_camera_trigger_from_seconds_def trigger_secs_def const_simps upt_rec)

definition cfg_ok :: "cfg_state \<Rightarrow> bool" where
  "cfg_ok s \<longleftrightarrow> cfg_valid (cfg_ram s) \<and>
     (case cfg_flash s of Some (Cfg_image c) \<Rightarrow> c = cfg_ram s | _ \<Rightarrow> True)"

lemma load_image: "cfg_valid c \<Longrightarrow> cfg_load ''v1'' (Cfg_image c) d = c"
  by (cases c) (auto simp: cfg_load_def cfg_valid_def)

lemma cfg_set_ok: "cfg_ok s \<Longrightarrow> cfg_ok (fst (snd (cfg_set save_ret c s)))"
  by (simp add: cfg_set_def) (simp add: cfg_ok_def)

lemma camera_step_cfg_ok: "cfg_ok (cam_cfg s) \<Longrightarrow> cfg_ok (cam_cfg (snd (camera_step E e s)))"
  using cfg_set_ok by (cases e) (auto simp: split_beta split: option.splits)

lemma camera_run_cfg_ok: "cfg_ok (cam_cfg s) \<Longrightarrow> cfg_ok (cam_cfg (camera_run E es s))"
  by (induction es arbitrary: s) (simp_all add: camera_step_cfg_ok)

lemma boot_cfg_ok:
  assumes "hostname \<noteq> []" and "length hostname \<le> 32" and "\<forall>c. flash = Some (Cfg_image c) \<longrightarrow> cfg_valid c"
  shows "cfg_ok (cam_cfg (camera_boot hostname flash))"
proof -
  have d: "cfg_valid (cfg_default hostname)"
    using assms(1,2) by (simp add: cfg_valid_def cfg_default_def trigger_valid [simplified] cfg_resolutions_def const_simps)
  show ?thesis
    using d assms(3) load_image
    by (auto simp: camera_boot_def load_prusa_def cfg_ok_def cfg_load_def split: option.splits cfg_blob.splits)
qed

section \<open>What precedes a snapshot\<close>

text \<open>An event that makes the camera-info stale.\<close>

fun staling :: "camera_event \<Rightarrow> bool" where
  "staling Address = True"
| "staling Snap = True"
| "staling Applied = True"
| "staling e = False"

text \<open>The return of a camera-info call that the service accepted.\<close>

definition accepts_info :: "camera_env \<Rightarrow> camera_event \<Rightarrow> camera \<Rightarrow> bool" where
  "accepts_info E e s \<longleftrightarrow> (\<exists>a now c. e = Return a now \<and> in_call (cam_conn s) = Some (INFO, c) \<and>
     prusa_camera_next (snd (connect_call E a INFO c)) = PRUSA_CAMERA_NEXT_OK)"

definition described :: "camera_env \<Rightarrow> camera \<Rightarrow> camera_event list \<Rightarrow> bool" where
  "described E s0 es \<longleftrightarrow> (\<exists>pre e mid. es = pre @ e # mid \<and> accepts_info E e (camera_run E pre s0) \<and>
     list_all (\<lambda>e. \<not> staling e) mid)"

lemma described_snoc: "described E s0 es \<Longrightarrow> \<not> staling e \<Longrightarrow> described E s0 (es @ [e])"
  unfolding described_def by (elim exE conjE, rule_tac x = pre in exI, rule_tac x = ea in exI, rule_tac x = "mid @ [e]" in exI) simp

lemma described_now: "accepts_info E e (camera_run E es s0) \<Longrightarrow> described E s0 (es @ [e])"
  unfolding described_def by (intro exI [of _ es] exI [of _ e] exI [of _ "[]"]) simp

text \<open>A snapshot in flight was called out for by a wake-up at which the description stood.\<close>

fun is_return :: "camera_event \<Rightarrow> bool" where
  "is_return (Return a now) = True"
| "is_return e = False"

definition snap_called :: "camera_env \<Rightarrow> camera \<Rightarrow> camera_event list \<Rightarrow> bool" where
  "snap_called E s0 es \<longleftrightarrow>
     (\<exists>pre mid. es = pre @ Wake # mid \<and> described E s0 pre \<and> list_all (\<lambda>e. \<not> is_return e) mid)"

lemma snap_called_snoc: "snap_called E s0 es \<Longrightarrow> \<not> is_return e \<Longrightarrow> snap_called E s0 (es @ [e])"
  unfolding snap_called_def by (elim exE conjE, rule_tac x = pre in exI, rule_tac x = "mid @ [e]" in exI) simp

lemma snap_called_now: "described E s0 es \<Longrightarrow> snap_called E s0 (es @ [Wake])"
  unfolding snap_called_def by (intro exI [of _ es] exI [of _ "[]"]) simp

definition snap_inv :: "camera_env \<Rightarrow> camera \<Rightarrow> camera_event list \<Rightarrow> connect \<Rightarrow> bool" where
  "snap_inv E s0 es k \<longleftrightarrow> (\<not> info_stale k \<longrightarrow> described E s0 es) \<and>
     (\<forall>c. in_call k = Some (SNAPSHOT, c) \<longrightarrow> snap_called E s0 es)"

lemma snap_inv_keep:
  assumes "snap_inv E s0 es k" and "\<not> staling e" and "\<not> is_return e"
    and "info_stale k' = info_stale k" and "in_call k' = in_call k"
  shows "snap_inv E s0 (es @ [e]) k'"
  using assms described_snoc snap_called_snoc by (simp add: snap_inv_def)

lemma snap_inv_stale:
  assumes "snap_inv E s0 es k" and "\<not> is_return e" and "info_stale k'" and "in_call k' = in_call k"
  shows "snap_inv E s0 (es @ [e]) k'"
  using assms snap_called_snoc by (simp add: snap_inv_def)

lemma wake_calls:
  "info_stale (connect_wake c k) = info_stale k"
  "in_call k = None \<Longrightarrow> in_call (connect_wake c k) = Some (SNAPSHOT, d) \<Longrightarrow> \<not> info_stale k"
  by (auto simp: connect_wake_def Let_def split: if_splits)

lemma snap_inv_wake:
  assumes "snap_inv E s0 es k" and "in_call k = None"
  shows "snap_inv E s0 (es @ [Wake]) (connect_wake c k)"
proof -
  have "\<not> info_stale k \<Longrightarrow> described E s0 es" using assms(1) by (simp add: snap_inv_def)
  then show ?thesis
    using wake_calls(2) [OF assms(2)] described_snoc [of E s0 es Wake] snap_called_now [of E s0 es]
    by (auto simp: snap_inv_def wake_calls(1))
qed

lemma done_fields:
  assumes "in_call k = Some (kind, c)"
  shows "in_call (connect_done ret now k) = None"
    and "\<not> info_stale (connect_done ret now k) \<longleftrightarrow>
      \<not> info_stale k \<or> kind = INFO \<and> prusa_camera_next ret = PRUSA_CAMERA_NEXT_OK"
  using assms by (auto simp: connect_done_def Let_def)

lemma snap_inv_return:
  assumes "snap_inv E s0 es (cam_conn s)" and "s = camera_run E es s0" and "in_call (cam_conn s) = Some (kind, c)"
  shows "snap_inv E s0 (es @ [Return a now]) (connect_done (snd (connect_call E a kind c)) now (cam_conn s))"
proof -
  have "described E s0 (es @ [Return a now])"
    if "\<not> info_stale (connect_done (snd (connect_call E a kind c)) now (cam_conn s))"
  proof (cases "info_stale (cam_conn s)")
    case True
    with that done_fields(2) [OF assms(3)] have "accepts_info E (Return a now) s"
      using assms(3) by (auto simp: accepts_info_def)
    then show ?thesis using assms(2) by (intro described_now) simp
  next
    case False
    then show ?thesis using assms(1) described_snoc [of E s0 es "Return a now"] by (simp add: snap_inv_def)
  qed
  then show ?thesis by (simp add: snap_inv_def done_fields(1) [OF assms(3)])
qed

lemma snap_inv_step:
  assumes "snap_inv E s0 es (cam_conn s)" and "s = camera_run E es s0"
  shows "snap_inv E s0 (es @ [e]) (cam_conn (snd (camera_step E e s)))"
proof (cases e)
  case Address
  then show ?thesis using assms(1) by (simp add: addr_event_def) (rule snap_inv_stale, simp_all)
next
  case Snap
  then show ?thesis using assms(1) by (simp add: connect_kick_def) (rule snap_inv_stale, simp_all)
next
  case Ask_test
  then show ?thesis using assms(1) by (simp add: connect_test_def) (rule snap_inv_keep, simp_all)
next
  case (Save c save_ret)
  then have "cam_conn (snd (camera_step E e s)) = cam_conn s" by (simp add: split_beta)
  with Save assms(1) show ?thesis by (simp only:) (rule snap_inv_keep, simp_all)
next
  case Applied
  then show ?thesis using assms(1) by (simp add: connect_kick_def) (rule snap_inv_stale, simp_all)
next
  case Wake
  show ?thesis
  proof (cases "in_call (cam_conn s)")
    case None
    with Wake assms(1) show ?thesis by (simp add: snap_inv_wake)
  next
    case (Some x)
    with Wake snap_inv_keep [OF assms(1), of Wake "cam_conn s"] show ?thesis by simp
  qed
next
  case (Return a now)
  show ?thesis
  proof (cases "in_call (cam_conn s)")
    case None
    with Return assms(1) described_snoc [of E s0 es e] show ?thesis by (simp add: snap_inv_def)
  next
    case (Some x)
    obtain kind c where x: "x = (kind, c)" by (cases x)
    from snap_inv_return [OF assms, of kind c a now] Some x Return show ?thesis by (simp add: split_beta)
  qed
qed

lemma snap_inv_run:
  assumes "snap_inv E s0 [] (cam_conn s0)"
  shows "snap_inv E s0 es (cam_conn (camera_run E es s0))"
proof (induction es rule: rev_induct)
  case (snoc e es)
  from snap_inv_step [OF snoc refl] show ?case by (simp add: camera_run_append)
qed (use assms in simp)

lemma snap_inv_boot: "snap_inv E (camera_boot h f) [] (cam_conn (camera_boot h f))"
  by (simp add: snap_inv_def camera_boot_def connect_boot_def)


section \<open>Refusals and the backoff\<close>

text \<open>Stopped, with nothing to wake it.\<close>

definition silent :: "connect \<Rightarrow> bool" where
  "silent k \<longleftrightarrow> stopped k \<and> \<not> kick k \<and> \<not> test_requested k \<and> in_call k = None"

lemma silent_step:
  assumes "silent (cam_conn s)" and "e = Wake \<or> is_return e"
  shows "fst (camera_step E e s) = [] \<and> silent (cam_conn (snd (camera_step E e s))) \<and>
    cam_cfg (snd (camera_step E e s)) = cam_cfg s"
  using assms by (cases e) (auto simp: silent_def connect_wake_def Let_def)

lemma silent_run:
  "silent (cam_conn s) \<Longrightarrow> list_all (\<lambda>e. e = Wake \<or> is_return e) es \<Longrightarrow>
     fst (mealy_run (camera_step E) es s) = [] \<and> silent (cam_conn (camera_run E es s)) \<and>
     cam_cfg (camera_run E es s) = cam_cfg s"
proof (induction es arbitrary: s)
  case (Cons e es)
  note step = silent_step [OF Cons.prems(1), of e E]
  from Cons.IH [of "snd (camera_step E e s)"] step Cons.prems(2) show ?case by simp
qed simp

lemma refused_silent:
  assumes "in_call (cam_conn s) = Some (kind, c)" and "\<not> kick (cam_conn s)" and "\<not> test_requested (cam_conn s)"
    and "prusa_camera_next (snd (connect_call E a kind c)) = PRUSA_CAMERA_NEXT_STOP"
  shows "silent (cam_conn (snd (camera_step E (Return a now) s)))"
  using assms by (simp add: split_beta silent_def connect_done_def Let_def)

section \<open>Properties of the camera\<close>

text \<open>
  What leaves the camera is authorised and bounded. From any start, after any history, a
  request that is sent belongs to the call in flight, carries a token of exactly 20 letters and
  digits, which is the one of the configuration the thread had read, and a fingerprint of 16 to 64
  characters, none of them cut off, and a snapshot is the camera's frame with at most a million bytes.
\<close>

lemma camera_sends_authorised:
  assumes "r \<in> set (fst (camera_step E e (camera_run E es (camera_boot hostname flash))))"
  shows "\<exists>kind c a now. e = Return a now \<and>
    in_call (cam_conn (camera_run E es (camera_boot hostname flash))) = Some (kind, c) \<and>
    length (cf_token c) = 20 \<and> list_all is_alnum (cf_token c) \<and>
    (sent_method r, sent_path r) = call_line kind \<and>
    sent_headers r = [''Token: '' @ cf_token c @ crlf, ''Fingerprint: '' @ env_fingerprint E @ crlf, env_ua E] \<and>
    length (env_fingerprint E) \<in> {16..64} \<and>
    (kind = SNAPSHOT \<longrightarrow> ans_cam a = Inr (sent_body r) \<and> length (sent_body r) \<in> {1..1000000})"
proof -
  let ?s = "camera_run E es (camera_boot hostname flash)"
  obtain a now kind c where e: "e = Return a now" "in_call (cam_conn ?s) = Some (kind, c)"
    using assms by (cases e) (auto simp: split_beta split: if_splits option.splits)
  with assms have "r \<in> set (fst (connect_call E a kind c))" by (simp add: split_beta)
  note sends = call_sends [OF this]
  show ?thesis
    by (intro exI [of _ kind] exI [of _ c] exI [of _ a] exI [of _ now])
      (use e sends in \<open>auto simp: prusa_camera_token_valid_def const_simps Suc_le_eq\<close>)
qed

text \<open>
  C26. No snapshot without a description. From the start, when a snapshot is sent, the wake-up that
  called for it came after the service had accepted a camera-info call, and between the return of
  that call and the wake-up no address event and no kick occurred: neither one asked for nor the
  one that ends the application of a saved configuration. (Between the save and that kick a
  snapshot can still go out: \<open>snapshot_before_kick\<close>.)
\<close>

theorem camera_snapshot_needs_info:
  assumes "s0 = camera_boot hostname flash" and "r \<in> set (fst (camera_step E e (camera_run E es s0)))"
    and "sent_path r = ''/v1/snapshot''"
  shows "\<exists>pre acc mid post. es = pre @ acc # mid @ Wake # post \<and> accepts_info E acc (camera_run E pre s0) \<and>
    list_all (\<lambda>e. \<not> staling e) mid \<and> list_all (\<lambda>e. \<not> is_return e) post"
proof -
  let ?s = "camera_run E es s0"
  obtain a now kind c where e: "e = Return a now" "in_call (cam_conn ?s) = Some (kind, c)"
    using assms(2) by (cases e) (auto simp: split_beta split: if_splits option.splits)
  with assms(2) have "r \<in> set (fst (connect_call E a kind c))" by (simp add: split_beta)
  from call_sends [OF this] assms(3) have "kind = SNAPSHOT" by (cases kind) auto
  with e snap_inv_run [OF snap_inv_boot, of E hostname flash es] have "snap_called E s0 es"
    by (simp add: snap_inv_def assms(1))
  then show ?thesis unfolding snap_called_def described_def by force
qed

text \<open>
  A refusal silences the camera until someone acts. When a call returns a result that cannot
  be helped by repeating it and nobody has kicked the thread meanwhile, every further wake-up
  sends nothing; and a configuration with a token saved and applied after that makes the next
  wake-up call out with the camera-info.
\<close>

lemma camera_refusal_silences:
  assumes "in_call (cam_conn s) = Some (kind, c)" and "\<not> kick (cam_conn s)" and "\<not> test_requested (cam_conn s)"
    and "prusa_camera_next (snd (connect_call E a kind c)) = PRUSA_CAMERA_NEXT_STOP"
    and "list_all (\<lambda>e. e = Wake \<or> is_return e) es"
  shows "fst (mealy_run (camera_step E) es (snd (camera_step E (Return a now) s))) = [] \<and>
    (cfg_valid d \<and> cf_token d \<noteq> [] \<longrightarrow>
      in_call (cam_conn (camera_run E ([Return a now] @ es @ [Save d 0, Applied, Wake]) s)) = Some (INFO, d))"
proof -
  note quiet = silent_run [OF refused_silent [OF assms(1-4), of now] assms(5)]
  let ?t = "camera_run E es (snd (camera_step E (Return a now) s))"
  have "silent (cam_conn ?t)" using quiet by simp
  then have "cfg_valid d \<and> cf_token d \<noteq> [] \<longrightarrow>
      in_call (cam_conn (camera_run E [Save d 0, Applied, Wake] ?t)) = Some (INFO, d)"
    by (auto simp: cfg_set_def connect_kick_def connect_wake_def silent_def Let_def)
  with quiet show ?thesis by (simp only: camera_run_append camera_run_simps)
qed

text \<open>
  The stored configuration is always valid and always the one in use. From a start with
  nothing stored, a blob of another size, or a valid image, after any history, the configuration
  in RAM passes the checks, the next start loads it if one was stored, and the wait before the
  next call is between the configured interval and ten minutes.
\<close>

lemma camera_config_valid:
  assumes "hostname \<noteq> []" and "length hostname \<le> 32" and "\<forall>c. flash = Some (Cfg_image c) \<longrightarrow> cfg_valid c"
    and "s = camera_run E es (camera_boot hostname flash)"
  shows "cfg_valid (cfg_ram (cam_cfg s)) \<and>
    (\<forall>c. cfg_flash (cam_cfg s) = Some (Cfg_image c) \<longrightarrow>
       cfg_ram (cam_cfg (camera_boot hostname (cfg_flash (cam_cfg s)))) = cfg_ram (cam_cfg s)) \<and>
    cf_interval_s (cfg_ram (cam_cfg s)) \<le> connect_wait (cfg_ram (cam_cfg s)) (cam_conn s) \<and>
    connect_wait (cfg_ram (cam_cfg s)) (cam_conn s) \<le> BACKOFF_MAX_S \<and>
    10 \<le> cf_interval_s (cfg_ram (cam_cfg s))"
proof -
  have ok: "cfg_ok (cam_cfg s)"
    unfolding assms(4) by (rule camera_run_cfg_ok [OF boot_cfg_ok [OF assms(1-3)]])
  then have v: "cfg_valid (cfg_ram (cam_cfg s))" by (simp add: cfg_ok_def)
  have same: "cfg_ram (cam_cfg (camera_boot hostname (cfg_flash (cam_cfg s)))) = cfg_ram (cam_cfg s)"
    if f: "cfg_flash (cam_cfg s) = Some (Cfg_image c)" for c
  proof -
    have "c = cfg_ram (cam_cfg s)" using ok f by (simp add: cfg_ok_def)
    with load_image [OF v] f show ?thesis by (simp add: camera_boot_def load_prusa_def)
  qed
  have int: "cf_interval_s (cfg_ram (cam_cfg s)) \<in> {10, 30, 60, 600}"
    using v unfolding cfg_valid_def trigger_valid [symmetric] by blast
  then have "connect_wait (cfg_ram (cam_cfg s)) (cam_conn s) \<le> BACKOFF_MAX_S"
    by (auto simp: connect_wait_def Let_def const_simps)
  moreover have "cf_interval_s (cfg_ram (cam_cfg s)) \<le> connect_wait (cfg_ram (cam_cfg s)) (cam_conn s)"
    by (simp add: connect_wait_def Let_def)
  ultimately show ?thesis using v same int by auto
qed


section \<open>Corners\<close>

text \<open>
  A kick does not upload a snapshot: the next call is the camera-info, and the snapshot waits for
  another interval. An address event during the camera-info call is forgotten when it is accepted.
  A test that fails for another reason than a refusal clears a stop. A stored image is not checked.
\<close>

lemma kick_sends_info:
  assumes "in_call k = None" and "\<not> test_requested k" and "cf_token c \<noteq> []"
  shows "in_call (connect_wake c (connect_kick k)) = Some (INFO, c)"
  using assms by (simp add: connect_kick_def connect_wake_def Let_def)

lemma address_during_info_lost:
  assumes "in_call k = Some (INFO, c)"
  shows "\<not> info_stale (connect_done 200 now (addr_event k))"
  using assms by (simp add: connect_done_def addr_event_def prusa_camera_next_def Let_def)

lemma failing_test_clears_stop:
  assumes "in_call k = Some (TEST, c)" and "stopped k"
  shows "\<not> stopped (connect_done (- EHOSTUNREACH) now k)"
  using assms by (simp add: connect_done_def prusa_camera_next_def Let_def const_simps)

lemma stored_image_unchecked:
  "cf_resolution (cfg_load ''v1'' (Cfg_image (c\<lparr>cf_resolution := 200\<rparr>)) d) = 200"
  by (simp add: cfg_load_def)

section \<open>A concrete run\<close>

definition cam_demo_env :: camera_env where
  "cam_demo_env = \<lparr>env_json = (\<lambda>v n. (0, ''{}'')), env_ua = ''User-Agent: cam'' @ crlf, env_version = ''0.1.0'',
     env_fingerprint = ''zephyrcam0123456789''\<rparr>"

definition cam_demo_cfg :: cfg where
  "cam_demo_cfg = (cfg_default ''cam'')\<lparr>cf_token := ''abcdefghij0123456789''\<rparr>"

definition cam_demo_answers :: "int \<Rightarrow> camera_answers" where
  "cam_demo_answers st = \<lparr>ans_net = \<lparr>net_resolve = 0, net_socket = 3, net_setup = 0, net_request = 0, net_status = Some st\<rparr>,
     ans_cam = Inr [0xFF, 0xD8, 0xFF, 0xD9], ans_mac = [], ans_ipv4 = ''192.0.2.1'', ans_ssid = []\<rparr>"

definition cam_demo_events :: "camera_event list" where
  "cam_demo_events = [Save cam_demo_cfg 0, Applied, Wake, Return (cam_demo_answers 200) 5, Wake]"

lemma cam_demo_token: "prusa_camera_token_valid ''abcdefghij0123456789''"
  by (simp add: prusa_camera_token_valid_def const_simps is_alnum_def)

lemma cam_demo_cfg_valid: "cfg_valid cam_demo_cfg" "cf_token cam_demo_cfg = ''abcdefghij0123456789''"
  using cam_demo_token
  by (simp_all add: cam_demo_cfg_def cfg_valid_def cfg_default_def trigger_valid [simplified] cfg_resolutions_def const_simps)

lemma cam_demo_sendable: "auth_sendable (env_ua cam_demo_env) \<lparr>auth_token = cf_token cam_demo_cfg, auth_fingerprint = env_fingerprint cam_demo_env\<rparr>"
  using cam_demo_token by (simp add: auth_sendable_def crlf_def cam_demo_env_def cam_demo_cfg_valid(2) const_simps)

lemma cam_demo_call:
  "snd (connect_call cam_demo_env (cam_demo_answers st) INFO cam_demo_cfg) = st"
  "fst (connect_call cam_demo_env (cam_demo_answers st) SNAPSHOT cam_demo_cfg) =
     [\<lparr>sent_method = HTTP_PUT, sent_path = ''/v1/snapshot'',
       sent_headers = [''Token: abcdefghij0123456789'' @ crlf, ''Fingerprint: zephyrcam0123456789'' @ crlf,
         ''User-Agent: cam'' @ crlf], sent_type = Some ''image/jpeg'', sent_body = [0xFF, 0xD8, 0xFF, 0xD9]\<rparr>]"
proof -
  have t: "prusa_camera_trigger_from_seconds 30 = 1"
    by (simp add: prusa_camera_trigger_from_seconds_def trigger_secs_def upt_rec)
  have valid: "info_valid \<lparr>info_name = Some ''cam'', info_trigger = 1, info_rotation = 0, info_width = 1600,
      info_height = 1200, info_wifi_mac = Some [], info_wifi_ipv4 = Some ''192.0.2.1'', info_wifi_ssid = Some [],
      info_type = Some ''ESP32'', info_firmware_version = Some ''0.1.0'', info_hardware_version = Some ''AI-Thinker ESP32-CAM'',
      info_manufacturer = Some ''AI-Thinker'', info_model = Some ''ESP32-CAM''\<rparr>"
    by (simp add: info_valid_def is_set_def trigger_names_def const_simps)
  have c: "cf_name cam_demo_cfg = ''cam''" "cf_interval_s cam_demo_cfg = 30" "cf_rotation cam_demo_cfg = 0" "cf_resolution cam_demo_cfg = 5"
    by (simp_all add: cam_demo_cfg_def cfg_default_def)
  have env: "env_json cam_demo_env = (\<lambda>v n. (0, ''{}''))" "env_version cam_demo_env = ''0.1.0''"
      "ans_cam (cam_demo_answers st) = Inr [0xFF, 0xD8, 0xFF, 0xD9]" "ans_mac (cam_demo_answers st) = []"
      "ans_ipv4 (cam_demo_answers st) = ''192.0.2.1''" "ans_ssid (cam_demo_answers st) = []"
    by (simp_all add: cam_demo_env_def cam_demo_answers_def)
  have sent: "request (env_ua cam_demo_env) (ans_net (cam_demo_answers st))
        \<lparr>auth_token = cf_token cam_demo_cfg, auth_fingerprint = env_fingerprint cam_demo_env\<rparr> m p ty b =
      ([\<lparr>sent_method = m, sent_path = p, sent_headers = [take 29 (''Token: abcdefghij0123456789'' @ crlf),
         take 79 (''Fingerprint: zephyrcam0123456789'' @ crlf), ''User-Agent: cam'' @ crlf],
         sent_type = ty, sent_body = b\<rparr>], st)" for m p ty b
    using cam_demo_sendable by (simp add: request_def cam_demo_answers_def tls_connect_def cam_demo_env_def cam_demo_cfg_valid(2))
  show "snd (connect_call cam_demo_env (cam_demo_answers st) INFO cam_demo_cfg) = st"
    using valid
    by (simp add: connect_call_def send_info_def prusa_camera_put_info_def prusa_camera_info_encode_def c t
        cfg_resolutions_def env sent)
  show "fst (connect_call cam_demo_env (cam_demo_answers st) SNAPSHOT cam_demo_cfg) =
     [\<lparr>sent_method = HTTP_PUT, sent_path = ''/v1/snapshot'',
       sent_headers = [''Token: abcdefghij0123456789'' @ crlf, ''Fingerprint: zephyrcam0123456789'' @ crlf,
         ''User-Agent: cam'' @ crlf], sent_type = Some ''image/jpeg'', sent_body = [0xFF, 0xD8, 0xFF, 0xD9]\<rparr>]"
    by (simp add: connect_call_def send_snapshot_def prusa_camera_put_snapshot_def const_simps env sent)
      (simp add: crlf_def)
qed


lemma cam_demo_run:
  "in_call (cam_conn (camera_run cam_demo_env cam_demo_events (camera_boot ''cam'' None))) = Some (SNAPSHOT, cam_demo_cfg)"
  using cam_demo_cfg_valid
  by (simp add: cam_demo_events_def camera_boot_def load_prusa_def cfg_set_def connect_kick_def connect_wake_def
      connect_boot_def Let_def split_beta connect_done_def cam_demo_call prusa_camera_next_def)

definition cam_demo_sent :: "http_sent list" where
  "cam_demo_sent = fst (camera_step cam_demo_env (Return (cam_demo_answers 200) 6)
     (camera_run cam_demo_env cam_demo_events (camera_boot ''cam'' None)))"

lemma cam_demo_sent_eq: "cam_demo_sent = fst (connect_call cam_demo_env (cam_demo_answers 200) SNAPSHOT cam_demo_cfg)"
  by (simp add: cam_demo_sent_def cam_demo_run split_beta)

lemma camera_sends_authorised_instance:
  "cam_demo_sent \<noteq> [] \<and> length (sent_headers (hd cam_demo_sent)) = 3 \<and> sent_path (hd cam_demo_sent) = ''/v1/snapshot''"
proof -
  have ne: "cam_demo_sent \<noteq> []" by (simp add: cam_demo_sent_eq cam_demo_call)
  then have "hd cam_demo_sent \<in> set cam_demo_sent" by simp
  from camera_sends_authorised [OF this [unfolded cam_demo_sent_def]] ne cam_demo_run
  show ?thesis by (auto simp: cam_demo_sent_def)
qed

text \<open>
  While a saved configuration is being applied, the description still counts: a wake-up then
  calls for a snapshot under the new configuration, which the service has not been told of.
\<close>

lemma snapshot_before_kick:
  assumes "cfg_valid d" and "cf_token d \<noteq> []"
  shows "in_call (cam_conn (camera_run cam_demo_env
    [Save cam_demo_cfg 0, Applied, Wake, Return (cam_demo_answers 200) 5, Save d 0, Wake]
    (camera_boot ''cam'' None))) = Some (SNAPSHOT, d)"
  using cam_demo_cfg_valid assms
  by (simp add: camera_boot_def load_prusa_def cfg_set_def connect_kick_def connect_wake_def
      connect_boot_def Let_def split_beta connect_done_def cam_demo_call prusa_camera_next_def)

theorem camera_snapshot_needs_info_witness:
  "\<exists>pre acc mid post. cam_demo_events = pre @ acc # mid @ Wake # post \<and>
     accepts_info cam_demo_env acc (camera_run cam_demo_env pre (camera_boot ''cam'' None))"
proof -
  have ne: "hd cam_demo_sent \<in> set cam_demo_sent" and path: "sent_path (hd cam_demo_sent) = ''/v1/snapshot''"
    by (simp_all add: cam_demo_sent_eq cam_demo_call)
  from camera_snapshot_needs_info [OF refl ne [unfolded cam_demo_sent_def] path [unfolded cam_demo_sent_def]]
  show ?thesis by blast
qed

lemma camera_refusal_silences_instance:
  "fst (mealy_run (camera_step cam_demo_env) [Wake, Wake]
     (snd (camera_step cam_demo_env (Return (cam_demo_answers 403) 6)
       (camera_run cam_demo_env [Save cam_demo_cfg 0, Applied, Wake] (camera_boot ''cam'' None))))) = []"
proof -
  let ?s = "camera_run cam_demo_env [Save cam_demo_cfg 0, Applied, Wake] (camera_boot ''cam'' None)"
  have s: "in_call (cam_conn ?s) = Some (INFO, cam_demo_cfg)" "\<not> kick (cam_conn ?s)" "\<not> test_requested (cam_conn ?s)"
    using cam_demo_cfg_valid
    by (simp_all add: camera_boot_def load_prusa_def cfg_set_def connect_kick_def connect_wake_def
      connect_boot_def Let_def)
  have stop: "prusa_camera_next (snd (connect_call cam_demo_env (cam_demo_answers 403) INFO cam_demo_cfg)) = PRUSA_CAMERA_NEXT_STOP"
    by (simp add: cam_demo_call prusa_camera_next_def const_simps)
  have wakes: "list_all (\<lambda>e. e = Wake \<or> is_return e) [Wake, Wake]" by simp
  show ?thesis using camera_refusal_silences [OF s stop wakes] by blast
qed

lemma camera_config_valid_instance:
  "cfg_valid (cfg_ram (cam_cfg (camera_run cam_demo_env cam_demo_events (camera_boot ''cam'' (Some Wrong_size)))))"
  using camera_config_valid [of "''cam''" "Some Wrong_size", OF _ _ _ refl] by simp


end
