(* ===== verification/Camera_Web.thy ===== *)
theory Camera_Web
  imports Camera_Run
begin

text \<open>
  The camera's web interface (\<open>prusa_cam/src/web.c\<close>): per-resource request state, credentials, the
  configuration as JSON in both directions, the status, the connection test and the snapshot with
  its Exif header. Zephyr's server, its JSON library and the base64 decoder are parameters; each
  resource is served to one client at a time by the server.
\<close>

section \<open>Requests\<close>

definition BODY_MAX :: nat where [const_simps]: "BODY_MAX = 512"

record cam_route =
  ro_auth :: string
  ro_body :: string
  ro_overflow :: bool
  ro_cam_held :: bool
  ro_exif_sent :: bool
  ro_jpeg :: bytes

definition route_zero :: cam_route where
  "route_zero = \<lparr>ro_auth = [], ro_body = [], ro_overflow = False, ro_cam_held = False, ro_exif_sent = False, ro_jpeg = []\<rparr>"

definition capture_headers :: "nat \<Rightarrow> (string \<times> string) list option \<Rightarrow> string \<Rightarrow> string" where
  "capture_headers cap headers auth =
     (case headers of None \<Rightarrow> auth
      | Some hs \<Rightarrow> fold (\<lambda>(name, v) auth. if strcasecmp_eq name ''Authorization'' then take (cap - 1) v else auth) hs auth)"

definition capture :: "nat \<Rightarrow> http_request_ctx \<Rightarrow> cam_route \<Rightarrow> cam_route" where
  "capture cap req r =
     (let r = r\<lparr>ro_auth := capture_headers cap (hr_headers req) (ro_auth r)\<rparr>
      in case hr_data req of None \<Rightarrow> r
         | Some data \<Rightarrow>
             if data = [] then r
             else if length (ro_body r) + length data > BODY_MAX then r\<lparr>ro_overflow := True\<rparr>
             else r\<lparr>ro_body := ro_body r @ data\<rparr>)"

definition cam_reply :: "int \<Rightarrow> string \<Rightarrow> http_response_ctx" where
  "cam_reply st body = rsp_ctx_init\<lparr>hs_status := st, hs_body := map char_byte body, hs_final_chunk := True\<rparr>"

text \<open>The outside of the interface: the decoder, both directions of JSON, the header's buffer size.\<close>

record cfg_post =
  po_token :: string
  po_password :: string
  po_interval :: int
  po_resolution :: string
  po_quality :: int
  po_hflip :: bool
  po_vflip :: bool
  po_flash :: bool
  po_rotation :: int
  po_ip :: string
  po_netmask :: string
  po_gateway :: string
  po_dns :: string
  po_name :: string
  po_brightness :: int
  po_contrast :: int
  po_saturation :: int
  po_auto_exposure :: bool
  po_auto_wb :: bool
  po_auto_gain :: bool

record web_env =
  we_b64 :: "nat \<Rightarrow> string \<Rightarrow> int \<times> bytes"
  we_parse :: "string \<Rightarrow> int \<times> cfg_post"
  we_json :: "json_value \<Rightarrow> nat \<Rightarrow> int \<times> string"
  we_header_size :: nat
  we_index :: bytes
  we_fingerprint :: string

text \<open>\<open>None\<close> for authorised, otherwise the response that is filled in.\<close>

definition authorised :: "web_env \<Rightarrow> cfg \<Rightarrow> cam_route \<Rightarrow> http_response_ctx option" where
  "authorised W c r =
     (if cf_password c = [] then Some (cam_reply 403 ''{\"error\":\"set a password: prusa set password\"}'')
      else if \<not> http_basic_auth_ok (we_b64 W) (Some (ro_auth r)) (Some ''admin'') (Some (cf_password c))
      then Some ((cam_reply 401 ''{\"error\":\"unauthorised\"}'')\<lparr>hs_headers := AuthChallenge\<rparr>)
      else None)"

section \<open>The configuration page\<close>

definition ip_str :: "u32 \<Rightarrow> string" where
  "ip_str ip =
     (if ip = 0 then []
      else dec_text (unat (drop_bit 24 ip)) @ ''.'' @ dec_text (unat (drop_bit 16 ip AND 0xFF)) @ ''.'' @
        dec_text (unat (drop_bit 8 ip AND 0xFF)) @ ''.'' @ dec_text (unat (ip AND 0xFF)))"

definition reply_json :: "web_env \<Rightarrow> json_value \<Rightarrow> http_response_ctx" where
  "reply_json W v =
     (case we_json W v 640 of (ret, text) \<Rightarrow>
        if ret < 0 then cam_reply 500 ''{\"error\":\"encode\"}'' else cam_reply 200 text)"

definition config_out :: "string \<Rightarrow> cfg \<Rightarrow> json_value" where
  "config_out fingerprint c = Object
     [(''name'', Text (Some (cf_name c))), (''token_set'', Flag (cf_token c \<noteq> [])),
      (''fingerprint'', Text (Some fingerprint)), (''interval'', Uint (cf_interval_s c)),
      (''resolution'', Text (Some (res_name (cfg_resolutions ! cf_resolution c)))), (''quality'', Uint (cf_quality c)),
      (''hflip'', Flag (cf_hflip c)), (''vflip'', Flag (cf_vflip c)), (''flash'', Flag (cf_flash c)),
      (''rotation'', Uint (cf_rotation c * 90)), (''ip'', Text (Some (ip_str (cf_ip c)))),
      (''netmask'', Text (Some (ip_str (cf_netmask c)))), (''gateway'', Text (Some (ip_str (cf_gateway c)))),
      (''dns'', Text (Some (ip_str (cf_dns c)))), (''brightness'', Number (cf_brightness c)),
      (''contrast'', Number (cf_contrast c)), (''saturation'', Number (cf_saturation c)),
      (''auto_exposure'', Flag (cf_auto_exposure c)), (''auto_wb'', Flag (cf_auto_wb c)),
      (''auto_gain'', Flag (cf_auto_gain c))]"

definition reply_config :: "web_env \<Rightarrow> cfg \<Rightarrow> http_response_ctx" where
  "reply_config W c = reply_json W (config_out (we_fingerprint W) c)"

definition parse_ip :: "string \<Rightarrow> u32 option" where
  "parse_ip s = (if s = [] then Some 0 else case http_parse_ipv4 (Some s) of Inl _ \<Rightarrow> None | Inr ip \<Rightarrow> Some ip)"

definition clamp :: "int \<Rightarrow> int \<Rightarrow> int \<Rightarrow> int" where
  "clamp v lo hi = (if v < lo then lo else if hi < v then hi else v)"

text \<open>One field of a posted configuration: left alone, refused or stored.\<close>

definition field :: "int \<Rightarrow> nat \<Rightarrow> bool \<Rightarrow> (cfg \<Rightarrow> cfg) \<Rightarrow> cfg \<Rightarrow> cfg option" where
  "field got k ok upd c = (if \<not> bit got k then Some c else if ok then Some (upd c) else None)"

definition post_fields :: "int \<Rightarrow> cfg_post \<Rightarrow> (cfg \<Rightarrow> cfg option) list" where
  "post_fields got p =
     [field got 0 (length (po_token p) \<le> CFG_TOKEN_MAX) (\<lambda>c. c\<lparr>cf_token := po_token p\<rparr>),
      field got 1 (length (po_password p) \<le> CFG_PASSWORD_MAX) (\<lambda>c. c\<lparr>cf_password := po_password p\<rparr>),
      field got 2 True (\<lambda>c. c\<lparr>cf_interval_s := nat (clamp (po_interval p) 0 65535)\<rparr>),
      field got 3 (0 \<le> cfg_resolution_find (po_resolution p))
        (\<lambda>c. c\<lparr>cf_resolution := nat (cfg_resolution_find (po_resolution p))\<rparr>),
      field got 4 True (\<lambda>c. c\<lparr>cf_quality := nat (clamp (po_quality p) 0 255)\<rparr>),
      field got 5 True (\<lambda>c. c\<lparr>cf_hflip := po_hflip p\<rparr>),
      field got 6 True (\<lambda>c. c\<lparr>cf_vflip := po_vflip p\<rparr>),
      field got 7 True (\<lambda>c. c\<lparr>cf_flash := po_flash p\<rparr>),
      field got 8 (po_rotation p mod 90 = 0 \<and> 0 \<le> po_rotation p \<and> po_rotation p \<le> 270)
        (\<lambda>c. c\<lparr>cf_rotation := nat (po_rotation p div 90)\<rparr>),
      field got 9 (parse_ip (po_ip p) \<noteq> None) (\<lambda>c. c\<lparr>cf_ip := the (parse_ip (po_ip p))\<rparr>),
      field got 10 (parse_ip (po_netmask p) \<noteq> None) (\<lambda>c. c\<lparr>cf_netmask := the (parse_ip (po_netmask p))\<rparr>),
      field got 11 (parse_ip (po_gateway p) \<noteq> None) (\<lambda>c. c\<lparr>cf_gateway := the (parse_ip (po_gateway p))\<rparr>),
      field got 12 (parse_ip (po_dns p) \<noteq> None) (\<lambda>c. c\<lparr>cf_dns := the (parse_ip (po_dns p))\<rparr>),
      field got 13 (length (po_name p) \<le> CFG_NAME_MAX) (\<lambda>c. c\<lparr>cf_name := po_name p\<rparr>),
      field got 14 True (\<lambda>c. c\<lparr>cf_brightness := clamp (po_brightness p) (- 128) 127\<rparr>),
      field got 15 True (\<lambda>c. c\<lparr>cf_contrast := clamp (po_contrast p) (- 128) 127\<rparr>),
      field got 16 True (\<lambda>c. c\<lparr>cf_saturation := clamp (po_saturation p) (- 128) 127\<rparr>),
      field got 17 True (\<lambda>c. c\<lparr>cf_auto_exposure := po_auto_exposure p\<rparr>),
      field got 18 True (\<lambda>c. c\<lparr>cf_auto_wb := po_auto_wb p\<rparr>),
      field got 19 True (\<lambda>c. c\<lparr>cf_auto_gain := po_auto_gain p\<rparr>)]"

fun apply_fields :: "(cfg \<Rightarrow> cfg option) list \<Rightarrow> cfg \<Rightarrow> cfg option" where
  "apply_fields [] c = Some c"
| "apply_fields (f # fs) c = (case f c of None \<Rightarrow> None | Some c \<Rightarrow> apply_fields fs c)"

text \<open>\<open>save_ret\<close> answers a save; the configuration that was saved is given back for \<open>cfg_changed\<close>.\<close>

definition apply_post :: "web_env \<Rightarrow> int \<Rightarrow> string \<Rightarrow> camera \<Rightarrow> int \<times> camera" where
  "apply_post W save_ret body s =
     (case we_parse W body of (got, p) \<Rightarrow>
        if got < 0 then (- EINVAL, s)
        else (case apply_fields (post_fields got p) (cfg_ram (cam_cfg s)) of
                None \<Rightarrow> (- EINVAL, s)
              | Some c \<Rightarrow>
                  (case cfg_set save_ret c (cam_cfg s) of (ret, cs, changed) \<Rightarrow>
                     (ret, s\<lparr>cam_cfg := cs, cam_conn := (if changed then connect_kick (cam_conn s) else cam_conn s)\<rparr>))))"

section \<open>Callbacks\<close>

datatype cam_resource = INDEX_RES | CONFIG_RES | STATUS_RES | TEST_RES | SNAPSHOT_RES

text \<open>One callback of the server, with the answers of the settings, the camera and the clock.\<close>

record cam_callback =
  cc_resource :: cam_resource
  cc_status :: http_transaction_status
  cc_post :: bool
  cc_req :: http_request_ctx
  cc_save :: int
  cc_frame :: "int + bytes"
  cc_now :: int

record cam_web =
  wb_camera :: camera
  wb_routes :: "cam_resource \<Rightarrow> cam_route"
  wb_released :: nat

definition transaction_over :: "http_transaction_status \<Rightarrow> bool" where
  "transaction_over st \<longleftrightarrow> st = HTTP_SERVER_TRANSACTION_ABORTED \<or> st = HTTP_SERVER_TRANSACTION_COMPLETE"

definition index_cb :: "web_env \<Rightarrow> cam_callback \<Rightarrow> cam_web \<Rightarrow> http_response_ctx option \<times> cam_web" where
  "index_cb W b w =
     (if cc_status b \<noteq> HTTP_SERVER_REQUEST_DATA_FINAL then (None, w)
      else (Some (rsp_ctx_init\<lparr>hs_headers := GzipEncoding, hs_body := we_index W, hs_final_chunk := True\<rparr>), w))"

definition status_out :: "int \<Rightarrow> connect_status \<Rightarrow> json_value" where
  "status_out now st = Object
     [(''uptime_s'', Number (now div 1000)), (''last_upload_s'', Number (last_ms st div 1000)),
      (''last_result'', Number (last_result st)),
      (''result'', Text (Some (if last_ms st \<noteq> 0 then prusa_camera_describe (last_result st) else []))),
      (''uploads'', Uint (unat (uploads st))), (''stopped'', Flag (status_stopped st))]"

text \<open>
  The four guarded callbacks share their frame: a finished transaction clears the state, the
  request is gathered, and with its last part the credentials are checked.
\<close>

definition config_final :: "web_env \<Rightarrow> cam_callback \<Rightarrow> cam_route \<Rightarrow> camera \<Rightarrow> http_response_ctx \<times> camera" where
  "config_final W b r s =
     (let (ret, s) = (if \<not> cc_post b then (0, s)
                      else if ro_overflow r then (- E2BIG, s) else apply_post W (cc_save b) (ro_body r) s)
      in if ret < 0 then (cam_reply 400 ''{\"error\":\"invalid config\"}'', s)
         else (reply_config W (cfg_ram (cam_cfg s)), s))"

definition config_cb :: "web_env \<Rightarrow> cam_callback \<Rightarrow> cam_web \<Rightarrow> http_response_ctx option \<times> cam_web" where
  "config_cb W b w =
     (let r = wb_routes w CONFIG_RES in
      if transaction_over (cc_status b) then (None, w\<lparr>wb_routes := (wb_routes w)(CONFIG_RES := route_zero)\<rparr>)
      else (let r = capture (we_header_size W) (cc_req b) r;
                w = w\<lparr>wb_routes := (wb_routes w)(CONFIG_RES := r)\<rparr>
            in if cc_status b \<noteq> HTTP_SERVER_REQUEST_DATA_FINAL then (None, w)
               else (case authorised W (cfg_ram (cam_cfg (wb_camera w))) r of Some denied \<Rightarrow> (Some denied, w)
                     | None \<Rightarrow> (case config_final W b r (wb_camera w) of (rsp, s) \<Rightarrow> (Some rsp, w\<lparr>wb_camera := s\<rparr>)))))"

definition status_cb :: "web_env \<Rightarrow> cam_callback \<Rightarrow> cam_web \<Rightarrow> http_response_ctx option \<times> cam_web" where
  "status_cb W b w =
     (let r = wb_routes w STATUS_RES in
      if transaction_over (cc_status b) then (None, w\<lparr>wb_routes := (wb_routes w)(STATUS_RES := route_zero)\<rparr>)
      else (let r = capture (we_header_size W) (cc_req b) r;
                w = w\<lparr>wb_routes := (wb_routes w)(STATUS_RES := r)\<rparr>
            in if cc_status b \<noteq> HTTP_SERVER_REQUEST_DATA_FINAL then (None, w)
               else (case authorised W (cfg_ram (cam_cfg (wb_camera w))) r of Some denied \<Rightarrow> (Some denied, w)
                     | None \<Rightarrow> (Some (reply_json W (status_out (cc_now b) (status (cam_conn (wb_camera w))))), w))))"

definition test_cb :: "web_env \<Rightarrow> cam_callback \<Rightarrow> cam_web \<Rightarrow> http_response_ctx option \<times> cam_web" where
  "test_cb W b w =
     (let r = wb_routes w TEST_RES in
      if transaction_over (cc_status b) then (None, w\<lparr>wb_routes := (wb_routes w)(TEST_RES := route_zero)\<rparr>)
      else (let r = capture (we_header_size W) (cc_req b) r;
                w = w\<lparr>wb_routes := (wb_routes w)(TEST_RES := r)\<rparr>
            in if cc_status b \<noteq> HTTP_SERVER_REQUEST_DATA_FINAL then (None, w)
               else (case authorised W (cfg_ram (cam_cfg (wb_camera w))) r of Some denied \<Rightarrow> (Some denied, w)
                     | None \<Rightarrow>
                         (let s = wb_camera w
                          in (Some (cam_reply 202 ''{\"queued\":true}''),
                              w\<lparr>wb_camera := s\<lparr>cam_conn := connect_test (cam_conn s)\<rparr>\<rparr>)))))"

definition snapshot_cb :: "web_env \<Rightarrow> cam_callback \<Rightarrow> cam_web \<Rightarrow> http_response_ctx option \<times> cam_web" where
  "snapshot_cb W b w =
     (let r = wb_routes w SNAPSHOT_RES in
      if transaction_over (cc_status b)
      then (None, w\<lparr>wb_routes := (wb_routes w)(SNAPSHOT_RES := route_zero),
                    wb_released := wb_released w + (if ro_cam_held r then 1 else 0)\<rparr>)
      else if ro_exif_sent r
      then (Some (rsp_ctx_init\<lparr>hs_body := drop 2 (ro_jpeg r), hs_final_chunk := True\<rparr>), w)
      else (let r = capture (we_header_size W) (cc_req b) r;
                w = w\<lparr>wb_routes := (wb_routes w)(SNAPSHOT_RES := r)\<rparr>
            in if cc_status b \<noteq> HTTP_SERVER_REQUEST_DATA_FINAL then (None, w)
               else (case authorised W (cfg_ram (cam_cfg (wb_camera w))) r of Some denied \<Rightarrow> (Some denied, w)
                     | None \<Rightarrow>
                         (case cc_frame b of Inl _ \<Rightarrow> (Some (cam_reply 503 ''no frame''), w)
                          | Inr jpeg \<Rightarrow>
                              (let r = r\<lparr>ro_jpeg := jpeg, ro_cam_held := True\<rparr>;
                                   rot = cf_rotation (cfg_ram (cam_cfg (wb_camera w)))
                               in if exif_wanted jpeg rot
                                  then (Some (rsp_ctx_init\<lparr>hs_body := exif_header (exif_orientation rot)\<rparr>),
                                        w\<lparr>wb_routes := (wb_routes w)(SNAPSHOT_RES := r\<lparr>ro_exif_sent := True\<rparr>)\<rparr>)
                                  else (Some (rsp_ctx_init\<lparr>hs_body := jpeg, hs_final_chunk := True\<rparr>),
                                        w\<lparr>wb_routes := (wb_routes w)(SNAPSHOT_RES := r)\<rparr>))))))"

definition cam_cb :: "web_env \<Rightarrow> cam_callback \<Rightarrow> cam_web \<Rightarrow> http_response_ctx option \<times> cam_web" where
  "cam_cb W b w =
     (case cc_resource b of INDEX_RES \<Rightarrow> index_cb W b w | CONFIG_RES \<Rightarrow> config_cb W b w | STATUS_RES \<Rightarrow> status_cb W b w
      | TEST_RES \<Rightarrow> test_cb W b w | SNAPSHOT_RES \<Rightarrow> snapshot_cb W b w)"

section \<open>Without credentials\<close>

definition web_start :: "camera \<Rightarrow> cam_web" where
  "web_start s = \<lparr>wb_camera = s, wb_routes = (\<lambda>_. route_zero), wb_released = 0\<rparr>"

definition cred_ok :: "web_env \<Rightarrow> cfg \<Rightarrow> string \<Rightarrow> bool" where
  "cred_ok W c auth \<longleftrightarrow> cf_password c \<noteq> [] \<and>
     http_basic_auth_ok (we_b64 W) (Some auth) (Some ''admin'') (Some (cf_password c))"

lemma authorised_cred: "authorised W c r = None \<longleftrightarrow> cred_ok W c (ro_auth r)"
  by (simp add: authorised_def cred_ok_def)

lemma refused_status: "authorised W c r = Some rsp \<Longrightarrow> hs_status rsp = 401 \<or> hs_status rsp = 403"
  by (auto simp: authorised_def cam_reply_def rsp_ctx_init_def split: if_splits)

lemma no_cred_empty: "\<not> cred_ok W c []"
  by (simp add: cred_ok_def http_basic_auth_ok_def)

text \<open>No header of the callback would be accepted.\<close>

definition no_cred :: "web_env \<Rightarrow> cfg \<Rightarrow> cam_callback \<Rightarrow> bool" where
  "no_cred W c b \<longleftrightarrow> (case hr_headers (cc_req b) of None \<Rightarrow> True
     | Some hs \<Rightarrow> list_all (\<lambda>(name, v). \<not> cred_ok W c (take (we_header_size W - 1) v)) hs)"

lemma capture_headers_no_cred:
  assumes "no_cred W c b" and "\<not> cred_ok W c auth"
  shows "\<not> cred_ok W c (capture_headers (we_header_size W) (hr_headers (cc_req b)) auth)"
proof -
  have "list_all (\<lambda>(name, v). \<not> cred_ok W c (take n v)) hs \<Longrightarrow> \<not> cred_ok W c auth \<Longrightarrow>
      \<not> cred_ok W c (fold (\<lambda>(name, v) auth. if strcasecmp_eq name ''Authorization'' then take n v else auth) hs auth)"
    for n hs
  proof (induction hs arbitrary: auth)
    case (Cons h hs)
    then show ?case by (cases h) (simp split del: if_split, simp)
  qed simp
  then show ?thesis
    using assms by (cases "hr_headers (cc_req b)") (simp_all add: capture_headers_def no_cred_def)
qed

lemma capture_fields:
  "ro_auth (capture cap req r) = capture_headers cap (hr_headers req) (ro_auth r)"
  "ro_exif_sent (capture cap req r) = ro_exif_sent r" "ro_cam_held (capture cap req r) = ro_cam_held r"
  "ro_jpeg (capture cap req r) = ro_jpeg r"
  by (simp_all add: capture_def Let_def split: option.split)

definition shut :: "web_env \<Rightarrow> cam_web \<Rightarrow> bool" where
  "shut W w \<longleftrightarrow> (\<forall>res. \<not> cred_ok W (cfg_ram (cam_cfg (wb_camera w))) (ro_auth (wb_routes w res)) \<and>
     \<not> ro_exif_sent (wb_routes w res))"

lemma shut_update:
  assumes "shut W w" and "\<not> cred_ok W (cfg_ram (cam_cfg (wb_camera w))) (ro_auth r)" and "\<not> ro_exif_sent r"
  shows "shut W (w\<lparr>wb_routes := (wb_routes w)(res := r)\<rparr>)"
  using assms by (simp add: shut_def)

text \<open>A guarded callback on a shut interface.\<close>

lemma route_refuses:
  assumes "shut W w" and "no_cred W (cfg_ram (cam_cfg (wb_camera w))) b"
    and "r = capture (we_header_size W) (cc_req b) (wb_routes w res)"
  obtains d where "authorised W (cfg_ram (cam_cfg (wb_camera w))) r = Some d" and "hs_status d = 401 \<or> hs_status d = 403"
    and "shut W (w\<lparr>wb_routes := (wb_routes w)(res := r)\<rparr>)"
    and "shut W (w\<lparr>wb_routes := (wb_routes w)(res := route_zero)\<rparr>)" and "\<not> ro_exif_sent (wb_routes w res)"
proof -
  let ?c = "cfg_ram (cam_cfg (wb_camera w))"
  have bad: "\<not> cred_ok W ?c (ro_auth r)" and ex: "\<not> ro_exif_sent r" "\<not> ro_exif_sent (wb_routes w res)"
    using assms(1) capture_headers_no_cred [OF assms(2)] by (simp_all add: assms(3) capture_fields shut_def)
  obtain d where d: "authorised W ?c r = Some d"
    using bad authorised_cred [of W ?c r] by (cases "authorised W ?c r") auto
  show thesis
    by (rule that [OF d refused_status [OF d] shut_update [OF assms(1) bad ex(1)] shut_update [OF assms(1)] ex(2)])
      (simp_all add: route_zero_def no_cred_empty)
qed

definition refuses :: "web_env \<Rightarrow> cam_web \<Rightarrow> http_response_ctx option \<times> cam_web \<Rightarrow> bool" where
  "refuses W w x \<longleftrightarrow> wb_camera (snd x) = wb_camera w \<and> shut W (snd x) \<and>
     (case fst x of None \<Rightarrow> True | Some rsp \<Rightarrow> hs_status rsp = 401 \<or> hs_status rsp = 403)"

lemma guarded_refuses:
  assumes "shut W w" and "no_cred W (cfg_ram (cam_cfg (wb_camera w))) b"
  shows "refuses W w (config_cb W b w)" and "refuses W w (status_cb W b w)" and "refuses W w (test_cb W b w)"
    and "refuses W w (snapshot_cb W b w)"
proof -
  show "refuses W w (config_cb W b w)"
    by (rule route_refuses [OF assms refl, of CONFIG_RES]) (simp add: refuses_def config_cb_def Let_def)
  show "refuses W w (status_cb W b w)"
    by (rule route_refuses [OF assms refl, of STATUS_RES]) (simp add: refuses_def status_cb_def Let_def)
  show "refuses W w (test_cb W b w)"
    by (rule route_refuses [OF assms refl, of TEST_RES]) (simp add: refuses_def test_cb_def Let_def)
  have released: "shut W (w\<lparr>wb_routes := f, wb_released := n\<rparr>) \<longleftrightarrow> shut W (w\<lparr>wb_routes := f\<rparr>)" for f n
    by (simp add: shut_def)
  show "refuses W w (snapshot_cb W b w)"
    by (rule route_refuses [OF assms refl, of SNAPSHOT_RES]) (simp add: refuses_def snapshot_cb_def Let_def released)
qed

section \<open>A posted configuration\<close>

text \<open>The configuration a post asks for, field by field.\<close>

definition posted :: "int \<Rightarrow> cfg_post \<Rightarrow> cfg \<Rightarrow> cfg" where
  "posted got p c =
     \<lparr>cf_token = if bit got 0 then po_token p else cf_token c,
      cf_password = if bit got 1 then po_password p else cf_password c,
      cf_name = if bit got 13 then po_name p else cf_name c,
      cf_interval_s = if bit got 2 then nat (clamp (po_interval p) 0 65535) else cf_interval_s c,
      cf_resolution = if bit got 3 then nat (cfg_resolution_find (po_resolution p)) else cf_resolution c,
      cf_quality = if bit got 4 then nat (clamp (po_quality p) 0 255) else cf_quality c,
      cf_hflip = if bit got 5 then po_hflip p else cf_hflip c,
      cf_vflip = if bit got 6 then po_vflip p else cf_vflip c,
      cf_flash = if bit got 7 then po_flash p else cf_flash c,
      cf_rotation = if bit got 8 then nat (po_rotation p div 90) else cf_rotation c,
      cf_ip = if bit got 9 then the (parse_ip (po_ip p)) else cf_ip c,
      cf_netmask = if bit got 10 then the (parse_ip (po_netmask p)) else cf_netmask c,
      cf_gateway = if bit got 11 then the (parse_ip (po_gateway p)) else cf_gateway c,
      cf_dns = if bit got 12 then the (parse_ip (po_dns p)) else cf_dns c,
      cf_brightness = if bit got 14 then clamp (po_brightness p) (- 128) 127 else cf_brightness c,
      cf_contrast = if bit got 15 then clamp (po_contrast p) (- 128) 127 else cf_contrast c,
      cf_saturation = if bit got 16 then clamp (po_saturation p) (- 128) 127 else cf_saturation c,
      cf_auto_exposure = if bit got 17 then po_auto_exposure p else cf_auto_exposure c,
      cf_auto_wb = if bit got 18 then po_auto_wb p else cf_auto_wb c,
      cf_auto_gain = if bit got 19 then po_auto_gain p else cf_auto_gain c\<rparr>"

lemma apply_field_ok:
  "(bit got k \<longrightarrow> ok) \<Longrightarrow> apply_fields (field got k ok upd # fs) c = apply_fields fs (if bit got k then upd c else c)"
  by (simp add: field_def)

text \<open>An update under a condition is an update by a conditional value.\<close>

lemma conditional_update:
  "(if b then c\<lparr>cf_token := x_token\<rparr> else c) = c\<lparr>cf_token := if b then x_token else cf_token c\<rparr>"
  "(if b then c\<lparr>cf_password := x_password\<rparr> else c) = c\<lparr>cf_password := if b then x_password else cf_password c\<rparr>"
  "(if b then c\<lparr>cf_name := x_name\<rparr> else c) = c\<lparr>cf_name := if b then x_name else cf_name c\<rparr>"
  "(if b then c\<lparr>cf_interval_s := x_interval_s\<rparr> else c) = c\<lparr>cf_interval_s := if b then x_interval_s else cf_interval_s c\<rparr>"
  "(if b then c\<lparr>cf_resolution := x_resolution\<rparr> else c) = c\<lparr>cf_resolution := if b then x_resolution else cf_resolution c\<rparr>"
  "(if b then c\<lparr>cf_quality := x_quality\<rparr> else c) = c\<lparr>cf_quality := if b then x_quality else cf_quality c\<rparr>"
  "(if b then c\<lparr>cf_hflip := x_hflip\<rparr> else c) = c\<lparr>cf_hflip := if b then x_hflip else cf_hflip c\<rparr>"
  "(if b then c\<lparr>cf_vflip := x_vflip\<rparr> else c) = c\<lparr>cf_vflip := if b then x_vflip else cf_vflip c\<rparr>"
  "(if b then c\<lparr>cf_flash := x_flash\<rparr> else c) = c\<lparr>cf_flash := if b then x_flash else cf_flash c\<rparr>"
  "(if b then c\<lparr>cf_rotation := x_rotation\<rparr> else c) = c\<lparr>cf_rotation := if b then x_rotation else cf_rotation c\<rparr>"
  "(if b then c\<lparr>cf_ip := x_ip\<rparr> else c) = c\<lparr>cf_ip := if b then x_ip else cf_ip c\<rparr>"
  "(if b then c\<lparr>cf_netmask := x_netmask\<rparr> else c) = c\<lparr>cf_netmask := if b then x_netmask else cf_netmask c\<rparr>"
  "(if b then c\<lparr>cf_gateway := x_gateway\<rparr> else c) = c\<lparr>cf_gateway := if b then x_gateway else cf_gateway c\<rparr>"
  "(if b then c\<lparr>cf_dns := x_dns\<rparr> else c) = c\<lparr>cf_dns := if b then x_dns else cf_dns c\<rparr>"
  "(if b then c\<lparr>cf_brightness := x_brightness\<rparr> else c) = c\<lparr>cf_brightness := if b then x_brightness else cf_brightness c\<rparr>"
  "(if b then c\<lparr>cf_contrast := x_contrast\<rparr> else c) = c\<lparr>cf_contrast := if b then x_contrast else cf_contrast c\<rparr>"
  "(if b then c\<lparr>cf_saturation := x_saturation\<rparr> else c) = c\<lparr>cf_saturation := if b then x_saturation else cf_saturation c\<rparr>"
  "(if b then c\<lparr>cf_auto_exposure := x_auto_exposure\<rparr> else c) = c\<lparr>cf_auto_exposure := if b then x_auto_exposure else cf_auto_exposure c\<rparr>"
  "(if b then c\<lparr>cf_auto_wb := x_auto_wb\<rparr> else c) = c\<lparr>cf_auto_wb := if b then x_auto_wb else cf_auto_wb c\<rparr>"
  "(if b then c\<lparr>cf_auto_gain := x_auto_gain\<rparr> else c) = c\<lparr>cf_auto_gain := if b then x_auto_gain else cf_auto_gain c\<rparr>"
  by simp_all

definition posted_ok :: "int \<Rightarrow> cfg_post \<Rightarrow> bool" where
  "posted_ok got p \<longleftrightarrow>
     \<not> (bit got 0 \<and> \<not> length (po_token p) \<le> CFG_TOKEN_MAX) \<and>
     \<not> (bit got 1 \<and> \<not> length (po_password p) \<le> CFG_PASSWORD_MAX) \<and>
     \<not> (bit got 3 \<and> \<not> 0 \<le> cfg_resolution_find (po_resolution p)) \<and>
     \<not> (bit got 8 \<and> \<not> (po_rotation p mod 90 = 0 \<and> 0 \<le> po_rotation p \<and> po_rotation p \<le> 270)) \<and>
     \<not> (bit got 9 \<and> \<not> parse_ip (po_ip p) \<noteq> None) \<and> \<not> (bit got 10 \<and> \<not> parse_ip (po_netmask p) \<noteq> None) \<and>
     \<not> (bit got 11 \<and> \<not> parse_ip (po_gateway p) \<noteq> None) \<and> \<not> (bit got 12 \<and> \<not> parse_ip (po_dns p) \<noteq> None) \<and>
     \<not> (bit got 13 \<and> \<not> length (po_name p) \<le> CFG_NAME_MAX)"

lemma refusing_field: "list_ex (\<lambda>f. \<forall>c. f c = None) fs \<Longrightarrow> apply_fields fs c = None"
  by (induction fs arbitrary: c) (auto split: option.split)

lemma applied: "apply_fields (post_fields got p) c = (if posted_ok got p then Some (posted got p c) else None)"
proof (cases "posted_ok got p")
  case True
  have "apply_fields (post_fields got p) c = Some (posted got p c)"
    using True unfolding post_fields_def posted_ok_def
    by (simp add: apply_field_ok conditional_update del: apply_fields.simps(2) split del: if_split cong: if_cong)
      (rule cfg.equality, simp_all add: posted_def)
  with True show ?thesis by simp
next
  case False
  have "apply_fields (post_fields got p) c = None"
    by (rule refusing_field) (use False in \<open>auto simp: post_fields_def posted_ok_def field_def\<close>)
  with False show ?thesis by simp
qed

section \<open>Reading an Exif header\<close>

text \<open>
  A reader of the orientation, by the Exif format: the APP1 segment behind the start of image, the
  big-endian TIFF header, and the tag 0x0112 among the entries of the first directory.
\<close>

definition be16 :: "bytes \<Rightarrow> nat \<Rightarrow> nat" where
  "be16 b i = unat (b ! i) * 256 + unat (b ! (i + 1))"

definition be32 :: "bytes \<Rightarrow> nat \<Rightarrow> nat" where
  "be32 b i = be16 b i * 65536 + be16 b (i + 2)"

definition exif_tiff :: "bytes \<Rightarrow> nat option" where
  "exif_tiff b =
     (if 20 \<le> length b \<and> be16 b 0 = 0xFFD8 \<and> be16 b 2 = 0xFFE1 \<and>
         take 6 (drop 6 b) = map char_byte ''Exif'' @ [0, 0] \<and> be16 b 12 = 0x4D4D \<and> be16 b 14 = 42
      then Some 12 else None)"

definition exif_read :: "bytes \<Rightarrow> nat option" where
  "exif_read b =
     (case exif_tiff b of None \<Rightarrow> None
      | Some tiff \<Rightarrow>
          (let ifd = tiff + be32 b (tiff + 4)
           in map_option (\<lambda>i. be16 b (ifd + 2 + 12 * i + 8))
                (find (\<lambda>i. be16 b (ifd + 2 + 12 * i) = 0x0112) [0..<be16 b ifd])))"

text \<open>Where the segment behind the start of image ends, by its length field.\<close>

definition app1_end :: "bytes \<Rightarrow> nat" where
  "app1_end b = 4 + be16 b 4"

lemma exif_header_bytes:
  "exif_header w = [0xFF, 0xD8, 0xFF, 0xE1, 0x00, 0x22, 0x45, 0x78, 0x69, 0x66, 0x00, 0x00, 0x4D, 0x4D, 0x00, 0x2A,
     0x00, 0x00, 0x00, 0x08, 0x00, 0x01, 0x01, 0x12, 0x00, 0x03, 0x00, 0x00, 0x00, 0x01,
     ucast (drop_bit 8 w), ucast (w AND 0xFF), 0x00, 0x00, 0x00, 0x00, 0x00, 0x00]"
  by (simp add: exif_header_def)

lemma exif_header_read:
  assumes "1 \<le> rotation" and "rotation < 4"
  shows "exif_read (exif_header (exif_orientation rotation) @ rest) = Some ([1, 6, 3, 8] ! rotation)"
    and "app1_end (exif_header w @ rest) = EXIF_HDR_LEN" and "length (exif_header w) = EXIF_HDR_LEN"
    and "take 2 (exif_header w @ rest) = [0xFF, 0xD8]"
proof -
  have tiff: "exif_tiff (exif_header w @ rest) = Some 12" for w
    by (simp add: exif_tiff_def exif_header_bytes be16_def char_byte_def)
  have ifd: "be32 (exif_header w @ rest) 16 = 8" "be16 (exif_header w @ rest) 20 = 1"
      "be16 (exif_header w @ rest) 22 = 0x0112" for w
    by (simp_all add: be32_def be16_def exif_header_bytes)
  have val: "be16 (exif_header w @ rest) 30 = unat (ucast (drop_bit 8 w) :: u8) * 256 + unat (ucast (w AND 0xFF) :: u8)" for w
    by (simp add: be16_def exif_header_bytes)
  have read: "exif_read (exif_header w @ rest) = Some (be16 (exif_header w @ rest) 30)" for w
    by (simp add: exif_read_def tiff Let_def ifd)
  from assms have "rotation = 1 \<or> rotation = 2 \<or> rotation = 3" by linarith
  then show "exif_read (exif_header (exif_orientation rotation) @ rest) = Some ([1, 6, 3, 8] ! rotation)"
    unfolding read val by (elim disjE) (simp_all add: exif_orientation_def)
  show "app1_end (exif_header w @ rest) = EXIF_HDR_LEN" "length (exif_header w) = EXIF_HDR_LEN"
      "take 2 (exif_header w @ rest) = [0xFF, 0xD8]"
    by (simp_all add: app1_end_def be16_def exif_header_bytes const_simps)
qed

section \<open>Properties of the web interface\<close>

text \<open>A run of callbacks, with what each was answered.\<close>

definition web_run ::
  "web_env \<Rightarrow> cam_callback list \<Rightarrow> cam_web \<Rightarrow> (cam_callback \<times> http_response_ctx option) list \<times> cam_web" where
  "web_run W = mealy_run (\<lambda>b w. ([(b, fst (cam_cb W b w))], snd (cam_cb W b w)))"

lemma cb_refuses:
  assumes "shut W w" and "no_cred W (cfg_ram (cam_cfg (wb_camera w))) b"
  shows "wb_camera (snd (cam_cb W b w)) = wb_camera w \<and> shut W (snd (cam_cb W b w)) \<and>
    (cc_resource b = INDEX_RES \<or> fst (cam_cb W b w) = None \<or> hs_status (the (fst (cam_cb W b w))) \<in> {401, 403})"
proof (cases "cc_resource b")
  case INDEX_RES
  then show ?thesis using assms(1) by (simp add: cam_cb_def index_cb_def)
qed (use guarded_refuses [OF assms] in \<open>auto simp: cam_cb_def refuses_def split: option.splits\<close>)

lemma run_refuses:
  "shut W w \<Longrightarrow> list_all (no_cred W (cfg_ram (cam_cfg (wb_camera w)))) bs \<Longrightarrow>
     wb_camera (snd (web_run W bs w)) = wb_camera w \<and>
     (\<forall>(b, rsp) \<in> set (fst (web_run W bs w)). cc_resource b = INDEX_RES \<or> rsp = None \<or> hs_status (the rsp) \<in> {401, 403})"
proof (induction bs arbitrary: w)
  case (Cons b bs)
  note step = cb_refuses [OF Cons.prems(1), of b]
  have "list_all (no_cred W (cfg_ram (cam_cfg (wb_camera (snd (cam_cb W b w)))))) bs"
    using Cons.prems(2) step by simp
  from Cons.IH [OF _ this] step Cons.prems show ?case by (simp add: web_run_def)
qed (simp add: web_run_def)

text \<open>
  Without the password nothing happens. Over any run of callbacks of which none carries an
  Authorization header that decodes to the administrator's name and the configured password (and
  over any run at all when no password is set), the camera's configuration and upload thread
  stay as they are, and every answer but the public page is a refusal.
\<close>

lemma camera_web_gate:
  assumes "list_all (no_cred W (cfg_ram (cam_cfg s))) bs"
  shows "wb_camera (snd (web_run W bs (web_start s))) = s \<and>
    (\<forall>(b, rsp) \<in> set (fst (web_run W bs (web_start s))).
       cc_resource b = INDEX_RES \<or> rsp = None \<or> hs_status (the rsp) \<in> {401, 403})"
proof -
  have "shut W (web_start s)" by (simp add: shut_def web_start_def route_zero_def no_cred_empty)
  from run_refuses [OF this, of bs] assms show ?thesis by (simp add: web_start_def)
qed

text \<open>
  C27. A posted configuration takes effect as a whole or not at all. It is accepted exactly if the
  body fitted and parsed, every present field is well-formed, the result passes the checks and the
  save succeeds; then the configuration in RAM and in flash is the old one with exactly the
  present fields replaced, and the thread is kicked to announce it. Otherwise the answer is 400
  and nothing has changed.
\<close>

theorem camera_post_all_or_nothing:
  assumes "cc_post b" and "we_parse W (ro_body r) = (got, p)" and "cc_save b \<le> 0"
    and "c = posted got p (cfg_ram (cam_cfg s))"
  shows "config_final W b r s =
    (if \<not> ro_overflow r \<and> 0 \<le> got \<and> posted_ok got p \<and> cfg_valid c \<and> cc_save b = 0
     then (reply_config W c, \<lparr>cam_cfg = \<lparr>cfg_ram = c, cfg_flash = Some (Cfg_image c)\<rparr>, cam_conn = connect_kick (cam_conn s)\<rparr>)
     else (cam_reply 400 ''{\"error\":\"invalid config\"}'', s))"
proof -
  consider "ro_overflow r" | "got < 0" | "\<not> posted_ok got p" | "\<not> cfg_valid c" | "cc_save b < 0"
    | "\<not> ro_overflow r" "0 \<le> got" "posted_ok got p" "cfg_valid c" "cc_save b = 0"
    using assms(3) by linarith
  then show ?thesis
    by cases (use assms in \<open>simp_all add: config_final_def apply_post_def applied cfg_set_def Let_def const_simps\<close>)
qed

text \<open>
  Secrets do not leave. Two devices whose configurations differ only in the password and in
  the text of the token answer every callback that posts nothing alike, if they accept the same
  credentials: no page depends on the password, and on the token only as far as one is set.
\<close>

lemma camera_web_hides:
  assumes "\<not> cc_post b" and "wb_camera w = s" and "cfg_ram (cam_cfg s) = c"
    and "d = c\<lparr>cf_token := t, cf_password := pw\<rparr>" and "t = [] \<longleftrightarrow> cf_token c = []"
    and "w' = w\<lparr>wb_camera := s\<lparr>cam_cfg := (cam_cfg s)\<lparr>cfg_ram := d\<rparr>\<rparr>\<rparr>"
    and "\<And>r. authorised W c r = authorised W d r"
  shows "fst (cam_cb W b w') = fst (cam_cb W b w)"
proof -
  have page: "reply_config W d = reply_config W c"
    using assms(5) by (simp add: reply_config_def config_out_def assms(4))
  have rot: "cf_rotation d = cf_rotation c" by (simp add: assms(4))
  have cfgs: "cfg_ram (cam_cfg (wb_camera w')) = d" "cfg_ram (cam_cfg (wb_camera w)) = c"
    "cam_conn (wb_camera w') = cam_conn (wb_camera w)" "wb_routes w' = wb_routes w"
    by (simp_all add: assms(2,3,6))
  have auth: "authorised W d r = authorised W c r" for r by (simp add: assms(7))
  show ?thesis
    by (cases "cc_resource b")
      (simp_all add: cam_cb_def index_cb_def config_cb_def status_cb_def test_cb_def snapshot_cb_def config_final_def
        Let_def split_beta cfgs auth page rot assms(1) split: option.split sum.split)
qed

text \<open>A download: the callbacks until the last chunk, then the end of the transaction.\<close>

definition download ::
  "web_env \<Rightarrow> cam_callback \<Rightarrow> cam_callback \<Rightarrow> cam_callback \<Rightarrow> cam_web \<Rightarrow> bytes \<times> cam_web" where
  "download W b1 b2 b3 w =
     (case snapshot_cb W b1 w of (None, w1) \<Rightarrow> ([], w1)
      | (Some rsp, w1) \<Rightarrow>
          if hs_final_chunk rsp then (hs_body rsp, snd (snapshot_cb W b3 w1))
          else (case snapshot_cb W b2 w1 of (rsp2, w2) \<Rightarrow>
                  (hs_body rsp @ (case rsp2 of None \<Rightarrow> [] | Some rsp2 \<Rightarrow> hs_body rsp2), snd (snapshot_cb W b3 w2))))"

text \<open>
  A rotated picture arrives upright and whole. An authorised download delivers the camera's
  frame byte for byte if the camera is not rotated (or the frame is no JPEG); otherwise it delivers
  a JPEG in which an Exif reader finds the orientation of that rotation and whose bytes behind the
  Exif segment are exactly the frame's behind its start of image. Either way the frame is handed
  back to the camera once, and the request state is cleared.
\<close>

lemma camera_snapshot_upright:
  assumes "wb_routes w SNAPSHOT_RES = route_zero" and "cc_status b1 = HTTP_SERVER_REQUEST_DATA_FINAL"
    and "\<not> transaction_over (cc_status b2)" and "transaction_over (cc_status b3)" and "cc_frame b1 = Inr jpeg"
    and "authorised W c (capture (we_header_size W) (cc_req b1) route_zero) = None"
    and "c = cfg_ram (cam_cfg (wb_camera w))" and "cf_rotation c < 4" and "download W b1 b2 b3 w = (photo, w')"
  shows "(if cf_rotation c = 0 \<or> take 2 jpeg \<noteq> [0xFF, 0xD8] then photo = jpeg
     else exif_read photo = Some ([1, 6, 3, 8] ! cf_rotation c) \<and> take 2 photo = take 2 jpeg \<and>
       drop (app1_end photo) photo = drop 2 jpeg) \<and>
    wb_camera w' = wb_camera w \<and> wb_released w' = wb_released w + 1 \<and> wb_routes w' SNAPSHOT_RES = route_zero"
proof -
  define r where "r = capture (we_header_size W) (cc_req b1) route_zero"
  have nf: "\<not> transaction_over HTTP_SERVER_REQUEST_DATA_FINAL" by (simp add: transaction_over_def)
  have zero: "ro_exif_sent route_zero = False" by (simp add: route_zero_def)
  have r: "ro_exif_sent r = False" by (simp add: r_def capture_fields zero)
  have soi: "exif_wanted jpeg (cf_rotation c) \<longleftrightarrow> cf_rotation c \<noteq> 0 \<and> take 2 jpeg = [0xFF, 0xD8]"
  proof (cases jpeg)
    case (Cons x xs)
    then show ?thesis using assms(8) by (cases xs) (auto simp: exif_wanted_def)
  qed (simp add: exif_wanted_def)
  note auth = assms(6) [unfolded r_def [symmetric]]
  have first: "snapshot_cb W b1 w =
      (if exif_wanted jpeg (cf_rotation c)
       then (Some (rsp_ctx_init\<lparr>hs_body := exif_header (exif_orientation (cf_rotation c))\<rparr>),
             w\<lparr>wb_routes := (wb_routes w)(SNAPSHOT_RES := r\<lparr>ro_jpeg := jpeg, ro_cam_held := True, ro_exif_sent := True\<rparr>)\<rparr>)
       else (Some (rsp_ctx_init\<lparr>hs_body := jpeg, hs_final_chunk := True\<rparr>),
             w\<lparr>wb_routes := (wb_routes w)(SNAPSHOT_RES := r\<lparr>ro_jpeg := jpeg, ro_cam_held := True\<rparr>)\<rparr>))"
    by (simp add: snapshot_cb_def nf assms(1,2,5) zero r_def [symmetric] Let_def auth assms(7) [symmetric])
  show ?thesis
  proof (cases "exif_wanted jpeg (cf_rotation c)")
    case False
    with assms(9) first have "photo = jpeg" "wb_camera w' = wb_camera w" "wb_released w' = wb_released w + 1"
        "wb_routes w' SNAPSHOT_RES = route_zero"
      by (simp_all add: download_def snapshot_cb_def [of W b3] assms(4) Let_def) (auto simp: rsp_ctx_init_def)
    with False soi show ?thesis by auto
  next
    case True
    with assms(9) first have photo: "photo = exif_header (exif_orientation (cf_rotation c)) @ drop 2 jpeg"
      and rest: "wb_camera w' = wb_camera w" "wb_released w' = wb_released w + 1" "wb_routes w' SNAPSHOT_RES = route_zero"
      by (simp_all add: download_def snapshot_cb_def [of W b2] snapshot_cb_def [of W b3] assms(3,4) Let_def
          rsp_ctx_init_def) auto
    have rot: "1 \<le> cf_rotation c" "take 2 jpeg = [0xFF, 0xD8]" using True soi by auto
    have "drop (app1_end photo) photo = drop 2 jpeg"
      unfolding photo by (simp add: exif_header_read(2,3) [OF rot(1) assms(8)])
    with exif_header_read(1,4) [OF rot(1) assms(8), where rest = "drop 2 jpeg"] rot rest show ?thesis
      by (simp add: photo)
  qed
qed


section \<open>Concrete requests\<close>

definition cam_demo_post :: cfg_post where
  "cam_demo_post = \<lparr>po_token = [], po_password = [], po_interval = 600, po_resolution = [], po_quality = 0,
     po_hflip = False, po_vflip = False, po_flash = False, po_rotation = 0, po_ip = [], po_netmask = [],
     po_gateway = [], po_dns = [], po_name = [], po_brightness = 0, po_contrast = 0, po_saturation = 0,
     po_auto_exposure = False, po_auto_wb = False, po_auto_gain = False\<rparr>"

definition cam_demo_web :: web_env where
  "cam_demo_web = \<lparr>we_b64 = (\<lambda>cap s. (0, map char_byte s)), we_parse = (\<lambda>s. (4, cam_demo_post)),
     we_json = (\<lambda>v n. (0, ''{}'')), we_header_size = 64, we_index = [0x1F, 0x8B], we_fingerprint = ''zephyrcam0123456789''\<rparr>"

definition cam_demo_cb :: "cam_resource \<Rightarrow> http_transaction_status \<Rightarrow> bool \<Rightarrow> cam_callback" where
  "cam_demo_cb res st post = \<lparr>cc_resource = res, cc_status = st, cc_post = post,
     cc_req = \<lparr>hr_data = None, hr_headers = Some [(''authorization'', ''Basic admin:secret'')]\<rparr>,
     cc_save = 0, cc_frame = Inr [0xFF, 0xD8, 0xFF, 0xD9], cc_now = 5\<rparr>"

definition cam_demo_secret :: "nat \<Rightarrow> camera" where
  "cam_demo_secret rot = \<lparr>cam_cfg = \<lparr>cfg_ram = cam_demo_cfg\<lparr>cf_password := ''secret'', cf_rotation := rot\<rparr>, cfg_flash = None\<rparr>,
     cam_conn = connect_boot\<rparr>"

lemma authorised_password: "cf_password c = cf_password d \<Longrightarrow> authorised W c r = authorised W d r"
  by (simp add: authorised_def)

lemma cam_demo_header: "strcasecmp_eq ''authorization'' ''Authorization''"
  by code_simp

lemma cam_demo_auth:
  "authorised cam_demo_web (cam_demo_cfg\<lparr>cf_password := ''secret'', cf_rotation := rot\<rparr>)
     (capture (we_header_size cam_demo_web) (cc_req (cam_demo_cb res st post)) route_zero) = None"
proof -
  have auth: "ro_auth (capture (we_header_size cam_demo_web) (cc_req (cam_demo_cb res st post)) route_zero) = ''Basic admin:secret''"
    by (simp add: capture_fields capture_headers_def cam_demo_cb_def cam_demo_header cam_demo_web_def)
  have "http_basic_auth_ok (\<lambda>cap s. (0, map char_byte s)) (Some ''Basic admin:secret'') (Some ''admin'') (Some ''secret'')"
    by code_simp
  then show ?thesis by (simp add: authorised_cred cred_ok_def auth) (simp add: cam_demo_web_def)
qed

lemma camera_web_gate_instance:
  "wb_camera (snd (web_run cam_demo_web
     [cam_demo_cb CONFIG_RES HTTP_SERVER_REQUEST_DATA_FINAL True, cam_demo_cb TEST_RES HTTP_SERVER_REQUEST_DATA_FINAL True]
     (web_start (camera_boot ''cam'' None)))) = camera_boot ''cam'' None"
proof -
  have "list_all (no_cred cam_demo_web (cfg_ram (cam_cfg (camera_boot ''cam'' None))))
      [cam_demo_cb CONFIG_RES HTTP_SERVER_REQUEST_DATA_FINAL True, cam_demo_cb TEST_RES HTTP_SERVER_REQUEST_DATA_FINAL True]"
    by (simp add: no_cred_def cam_demo_cb_def cred_ok_def camera_boot_def load_prusa_def cfg_default_def)
  from camera_web_gate [OF this] show ?thesis by blast
qed

theorem camera_post_all_or_nothing_witness:
  "cf_interval_s (cfg_ram (cam_cfg (snd (config_final cam_demo_web (cam_demo_cb CONFIG_RES HTTP_SERVER_REQUEST_DATA_FINAL True)
     route_zero (cam_demo_secret 0))))) = 600"
proof -
  let ?b = "cam_demo_cb CONFIG_RES HTTP_SERVER_REQUEST_DATA_FINAL True" and ?s = "cam_demo_secret 0"
  have post: "cc_post ?b" "cc_save ?b \<le> 0" "cc_save ?b = 0" by (simp_all add: cam_demo_cb_def)
  have parse: "we_parse cam_demo_web (ro_body route_zero) = (4, cam_demo_post)" by (simp add: cam_demo_web_def)
  have bits: "bit (4 :: int) 2" "\<not> bit (4 :: int) 0" "\<not> bit (4 :: int) 1" "\<not> bit (4 :: int) 3" "\<not> bit (4 :: int) 8"
      "\<not> bit (4 :: int) 9" "\<not> bit (4 :: int) 10" "\<not> bit (4 :: int) 11" "\<not> bit (4 :: int) 12" "\<not> bit (4 :: int) 13"
      "\<not> bit (4 :: int) 4" "\<not> bit (4 :: int) 14" "\<not> bit (4 :: int) 15" "\<not> bit (4 :: int) 16"
    by code_simp+
  have ok: "posted_ok 4 cam_demo_post" by (simp add: posted_ok_def bits)
  have int: "cf_interval_s (posted 4 cam_demo_post (cfg_ram (cam_cfg ?s))) = 600"
    by (simp add: posted_def bits clamp_def cam_demo_post_def)
  have valid: "cfg_valid (posted 4 cam_demo_post (cfg_ram (cam_cfg ?s)))"
    using cam_demo_cfg_valid(1)
    unfolding cfg_valid_def by (simp add: posted_def bits clamp_def cam_demo_post_def cam_demo_secret_def
      trigger_valid [simplified] const_simps)
  show ?thesis
    using camera_post_all_or_nothing [OF post(1) parse post(2) refl, of ?s] ok valid post(3) int
    by (simp add: route_zero_def)
qed

lemma camera_web_hides_instance:
  "fst (cam_cb cam_demo_web (cam_demo_cb CONFIG_RES HTTP_SERVER_REQUEST_DATA_FINAL False) (web_start
     (cam_demo_secret 0\<lparr>cam_cfg := (cam_cfg (cam_demo_secret 0))\<lparr>cfg_ram :=
        (cfg_ram (cam_cfg (cam_demo_secret 0)))\<lparr>cf_token := ''98765432109876543210'', cf_password := ''secret''\<rparr>\<rparr>\<rparr>))) =
   fst (cam_cb cam_demo_web (cam_demo_cb CONFIG_RES HTTP_SERVER_REQUEST_DATA_FINAL False) (web_start (cam_demo_secret 0)))"
proof (rule camera_web_hides [OF _ refl refl refl, where w = "web_start (cam_demo_secret 0)"])
  show "\<not> cc_post (cam_demo_cb CONFIG_RES HTTP_SERVER_REQUEST_DATA_FINAL False)" by (simp add: cam_demo_cb_def)
  show "''98765432109876543210'' = [] \<longleftrightarrow> cf_token (cfg_ram (cam_cfg (wb_camera (web_start (cam_demo_secret 0))))) = []"
    by (simp add: web_start_def cam_demo_secret_def cam_demo_cfg_valid(2))
  show "authorised cam_demo_web (cfg_ram (cam_cfg (wb_camera (web_start (cam_demo_secret 0))))) r =
      authorised cam_demo_web (cfg_ram (cam_cfg (wb_camera (web_start (cam_demo_secret 0))))
        \<lparr>cf_token := ''98765432109876543210'', cf_password := ''secret''\<rparr>) r" for r
    by (rule authorised_password) (simp add: web_start_def cam_demo_secret_def)
qed (simp add: web_start_def)

lemma camera_snapshot_upright_instance:
  "exif_read (fst (download cam_demo_web (cam_demo_cb SNAPSHOT_RES HTTP_SERVER_REQUEST_DATA_FINAL False)
     (cam_demo_cb SNAPSHOT_RES HTTP_SERVER_REQUEST_DATA_FINAL False)
     (cam_demo_cb SNAPSHOT_RES HTTP_SERVER_TRANSACTION_COMPLETE False) (web_start (cam_demo_secret 1)))) = Some 6"
proof -
  let ?b = "cam_demo_cb SNAPSHOT_RES HTTP_SERVER_REQUEST_DATA_FINAL False"
  let ?e = "cam_demo_cb SNAPSHOT_RES HTTP_SERVER_TRANSACTION_COMPLETE False"
  let ?w = "web_start (cam_demo_secret 1)" and ?c = "cam_demo_cfg\<lparr>cf_password := ''secret'', cf_rotation := 1\<rparr>"
  have w: "wb_routes ?w SNAPSHOT_RES = route_zero" by (simp add: web_start_def)
  have b: "cc_status ?b = HTTP_SERVER_REQUEST_DATA_FINAL" "\<not> transaction_over (cc_status ?b)"
      "transaction_over (cc_status ?e)" "cc_frame ?b = Inr [0xFF, 0xD8, 0xFF, 0xD9]"
    by (simp_all add: cam_demo_cb_def transaction_over_def)
  have c: "?c = cfg_ram (cam_cfg (wb_camera ?w))" by (simp add: web_start_def cam_demo_secret_def)
  have rot: "cf_rotation ?c < 4" by simp
  from camera_snapshot_upright [OF w b cam_demo_auth c rot prod.collapse [symmetric]] show ?thesis by simp
qed


end
