(* ===== verification/C_Text.thy ===== *)
theory C_Text
  imports Main
begin

text \<open>
  The C library's search for a text in a text, specified by its first position, with the facts its
  users share. The strings are without their terminating NUL.
\<close>

section \<open>C string search\<close>

fun strstr :: "string \<Rightarrow> string \<Rightarrow> nat option" where
  "strstr s pat =
     (if take (length pat) s = pat then Some 0
      else (case s of [] \<Rightarrow> None | _ # s' \<Rightarrow> map_option Suc (strstr s' pat)))"

declare strstr.simps [simp del]

lemma strstr_spec:
  "strstr s pat = Some i \<longleftrightarrow> take (length pat) (drop i s) = pat \<and> i \<le> length s \<and>
     (\<forall>j < i. take (length pat) (drop j s) \<noteq> pat)"
proof (induction s arbitrary: i)
  case Nil
  show ?case by (subst strstr.simps) auto
next
  case (Cons c s)
  show ?case
  proof (cases "take (length pat) (c # s) = pat")
    case True
    then show ?thesis by (subst strstr.simps) (auto intro: gr0I)
  next
    case False
    then have "strstr (c # s) pat = Some i \<longleftrightarrow> (\<exists>k. i = Suc k \<and> strstr s pat = Some k)"
      by (subst strstr.simps) auto
    also have "\<dots> \<longleftrightarrow> take (length pat) (drop i (c # s)) = pat \<and> i \<le> length (c # s) \<and>
        (\<forall>j < i. take (length pat) (drop j (c # s)) \<noteq> pat)"
      using False by (cases i) (auto simp: Cons.IH less_Suc_eq_0_disj)
    finally show ?thesis .
  qed
qed

lemma strstr_append: "strstr s pat = Some i \<Longrightarrow> i + length pat \<le> length s \<Longrightarrow> strstr (s @ x) pat = Some i"
  by (auto simp: strstr_spec)

lemma strstr_None: "strstr s pat = None \<longleftrightarrow> (\<forall>i \<le> length s. take (length pat) (drop i s) \<noteq> pat)"
proof (induction s)
  case Nil
  show ?case by (subst strstr.simps) auto
next
  case (Cons c s)
  have "(\<forall>i \<le> length (c # s). take (length pat) (drop i (c # s)) \<noteq> pat) \<longleftrightarrow>
      take (length pat) (c # s) \<noteq> pat \<and> (\<forall>i \<le> length s. take (length pat) (drop i s) \<noteq> pat)"
    by (simp add: less_Suc_eq_le [symmetric] All_less_Suc2)
  then show ?case by (subst strstr.simps) (simp add: Cons.IH)
qed


text \<open>Characters other than the pattern's first are passed over.\<close>

lemma strstr_skip: "c \<notin> set x \<Longrightarrow> strstr (x @ s) (c # pat) = map_option (\<lambda>i. i + length x) (strstr s (c # pat))"
proof (induction x)
  case (Cons d x)
  then have "strstr ((d # x) @ s) (c # pat) = map_option Suc (strstr (x @ s) (c # pat))"
    by (subst strstr.simps) auto
  with Cons show ?case by (auto simp: option.map_comp comp_def)
qed (simp add: option.map_ident)

end
