(* ===== verification/Camera_Stream.thy ===== *)
theory Camera_Stream
  imports Camera_Web Codex_Hid C_Text "HOL-Library.Sublist"
begin

text \<open>
  The camera's live stream (\<open>prusa_cam/src/stream.c\<close>): its own little server on a second port, one
  viewer at a time. What a socket receives is the list of its segments, ended by the close, error
  or timeout after them; what it makes of each send is a list of answers, after which the peer is
  gone; the frames are the answers of \<open>cam_frame\<close>.
\<close>

lemma crlf_found: "strstr s crlf = Some i \<Longrightarrow> 2 + i \<le> length s"
proof -
  assume "strstr s crlf = Some i"
  then have "take (length crlf) (drop i s) = crlf" and "i \<le> length s" by (simp_all add: strstr_spec)
  then have "length (take (length crlf) (drop i s)) = length crlf" by simp
  with \<open>i \<le> length s\<close> show ?thesis by (simp add: crlf_def)
qed

section \<open>The request\<close>

definition STREAM_REQ_MAX :: nat where [const_simps]: "STREAM_REQ_MAX = 768"

definition AUTH_PREFIX :: string where [const_simps]: "AUTH_PREFIX = ''Authorization:''"

definition head_end :: string where "head_end = crlf @ crlf"

text \<open>The state is the first \<open>len\<close> bytes of the buffer; the result is its content as a C string.\<close>

fun read_head :: "string \<Rightarrow> string list \<Rightarrow> int + string" where
  "read_head buf [] = (if length buf < STREAM_REQ_MAX - 1 then Inl (- EIO) else Inl (- E2BIG))"
| "read_head buf (seg # segs) =
     (if length buf < STREAM_REQ_MAX - 1
      then if seg = [] then Inl (- EIO)
           else (let buf = buf @ take (STREAM_REQ_MAX - 1 - length buf) seg
                 in case strstr (c_str buf) head_end of
                      Some i \<Rightarrow> Inr (take (i + 2) buf)
                    | None \<Rightarrow> read_head buf segs)
      else Inl (- E2BIG))"

text \<open>\<open>None\<close> stands for the write through a null \<open>end\<close>; it is shown not to happen.\<close>

function auth_header :: "string \<Rightarrow> string option" where
  "auth_header line =
     (case strstr line crlf of
        None \<Rightarrow> Some []
      | Some i \<Rightarrow>
          (let line = drop (i + 2) line
           in if strcasecmp_eq (take (length AUTH_PREFIX) line) AUTH_PREFIX
              then (let v = drop (length AUTH_PREFIX) line
                    in case strstr v crlf of None \<Rightarrow> None
                       | Some e \<Rightarrow> Some (dropWhile (\<lambda>c. c = CHR '' '') (take e v)))
              else auth_header line))"
  by pat_completeness auto
termination
  by (relation "measure length") (auto dest: crlf_found)

declare auth_header.simps [simp del]

text \<open>What is sent when the request is refused, and \<open>None\<close> when it is granted.\<close>

definition request_ok :: "(nat \<Rightarrow> string \<Rightarrow> int \<times> bytes) \<Rightarrow> cfg \<Rightarrow> string \<Rightarrow> string option" where
  "request_ok b64 c req =
     (if take 6 req \<noteq> ''GET / '' \<and> take 12 req \<noteq> ''GET /stream ''
      then Some (''HTTP/1.1 404 Not Found'' @ crlf @ ''Connection: close'' @ head_end)
      else if cf_password c = []
      then Some (''HTTP/1.1 403 Forbidden'' @ crlf @ ''Connection: close'' @ head_end @
                 ''set a password: prusa set password'' @ [CHR 0x0A])
      else if \<not> http_basic_auth_ok b64 (auth_header req) (Some ''admin'') (Some (cf_password c))
      then Some (''HTTP/1.1 401 Unauthorized'' @ crlf @
                 ''WWW-Authenticate: Basic realm=\"prusa_cam\"'' @ crlf @ ''Connection: close'' @ head_end)
      else None)"

section \<open>The viewer\<close>

text \<open>
  One call of \<open>zsock_send\<close> takes a first part of what is offered, or fails. The result has the
  bytes that left, the return code and the answers still to come.
\<close>

fun send_all :: "bytes \<Rightarrow> int list \<Rightarrow> bytes \<times> int \<times> int list" where
  "send_all p answers =
     (if p = [] then ([], 0, answers)
      else case answers of
             [] \<Rightarrow> ([], - EPIPE, [])
           | n # answers \<Rightarrow>
               if n < 0 then ([], n, answers)
               else (case send_all (drop (nat n) p) answers of (sent, r) \<Rightarrow> (take (nat n) p @ sent, r)))"

declare send_all.simps [simp del]

definition send_str :: "string \<Rightarrow> int list \<Rightarrow> bytes \<times> int \<times> int list" where
  "send_str s answers = send_all (map char_byte s) answers"

text \<open>The \<open>snprintf\<close> of a part's header into 96 bytes.\<close>

definition part_header :: "nat \<Rightarrow> string" where
  "part_header len = take 95 (''--frame'' @ crlf @ ''Content-Type: image/jpeg'' @ crlf @ ''Content-Length: '' @
     dec_text (unat (word_of_nat len :: u32)) @ head_end)"

definition stream_header :: string where
  "stream_header = ''HTTP/1.1 200 OK'' @ crlf @ ''Content-Type: multipart/x-mixed-replace; boundary=frame'' @ crlf @
     ''Cache-Control: no-store'' @ crlf @ ''Connection: close'' @ head_end"

datatype viewed = Sent bytes | Taken bytes | Released

text \<open>One frame, and the loop over the camera's answers; the last component is \<open>ret\<close>.\<close>

definition send_frame :: "bytes \<Rightarrow> int list \<Rightarrow> viewed list \<times> int \<times> int list" where
  "send_frame jpeg answers =
     (case send_str (part_header (length jpeg)) answers of (s1, ret, answers) \<Rightarrow>
        (case (if ret = 0 then send_all jpeg answers else ([], ret, answers)) of (s2, ret, answers) \<Rightarrow>
           (case (if ret = 0 then send_str crlf answers else ([], ret, answers)) of (s3, ret, answers) \<Rightarrow>
              ([Taken jpeg, Sent s1, Sent s2, Released, Sent s3], ret, answers))))"

fun stream_loop :: "(int + bytes) list \<Rightarrow> int list \<Rightarrow> viewed list" where
  "stream_loop [] answers = []"
| "stream_loop (Inl err # shots) answers = stream_loop shots answers"
| "stream_loop (Inr jpeg # shots) answers =
     (case send_frame jpeg answers of (out, ret, answers) \<Rightarrow>
        out @ (if ret = 0 then stream_loop shots answers else []))"

record viewer =
  vw_segments :: "string list"
  vw_answers :: "int list"
  vw_frames :: "(int + bytes) list"

definition stream_serve :: "(nat \<Rightarrow> string \<Rightarrow> int \<times> bytes) \<Rightarrow> cfg \<Rightarrow> viewer \<Rightarrow> viewed list" where
  "stream_serve b64 c v =
     (case read_head [] (vw_segments v) of
        Inl _ \<Rightarrow> []
      | Inr req \<Rightarrow>
          (case request_ok b64 c req of
             Some refused \<Rightarrow> [Sent (fst (send_str refused (vw_answers v)))]
           | None \<Rightarrow>
               (case send_str stream_header (vw_answers v) of (sent, ret, answers) \<Rightarrow>
                  Sent sent # (if ret < 0 then [] else stream_loop (vw_frames v) answers))))"

text \<open>
  The thread: without its socket it ends; otherwise it serves the accepted connections one after
  the other, each under the configuration of that moment. A failed accept (\<open>None\<close>) is retried.
\<close>

definition stream_thread ::
  "(nat \<Rightarrow> string \<Rightarrow> int \<times> bytes) \<Rightarrow> int list \<Rightarrow> (cfg \<times> viewer) option list \<Rightarrow> viewed list list" where
  "stream_thread b64 setup accepts =
     (if list_ex (\<lambda>ret. ret < 0) setup then []
      else concat (map (\<lambda>a. case a of None \<Rightarrow> [] | Some (c, v) \<Rightarrow> [stream_serve b64 c v]) accepts))"

section \<open>The head, however it arrives\<close>

lemma c_str_clean: "CHR 0x00 \<notin> set t \<Longrightarrow> c_str (t @ x) = t @ c_str x"
  unfolding c_str_def by (subst takeWhile_append2) auto

lemma c_str_clean': "CHR 0x00 \<notin> set t \<Longrightarrow> c_str t = t"
  using c_str_clean [of t "[]"] by (simp add: c_str_def)

lemma read_head_whole:
  assumes "strstr t head_end = Some i" and "length t = i + 4" and "CHR 0x00 \<notin> set t" and "length t < STREAM_REQ_MAX"
    and "buf @ concat segs = t @ rest" and "length buf < length t" and "[] \<notin> set segs"
  shows "read_head buf segs = Inr (take (i + 2) t)"
  using assms(5-7)
proof (induction segs arbitrary: buf)
  case Nil
  then have "length buf = length t + length rest" by (metis append_Nil2 concat.simps(1) length_append)
  with Nil.prems(2) show ?case by simp
next
  case (Cons seg segs)
  define buf' where "buf' = buf @ take (STREAM_REQ_MAX - 1 - length buf) seg"
  have len: "length head_end = 4" by (simp add: head_end_def crlf_def)
  have room: "length buf < STREAM_REQ_MAX - 1" using Cons.prems(2) assms(4) by linarith
  have nonempty: "seg \<noteq> []" using Cons.prems(3) by auto
  have prefixes: "take (length buf') (t @ rest) = buf'"
    unfolding Cons.prems(1) [symmetric] buf'_def by (simp add: min_def)
  show ?case
  proof (cases "length t \<le> length buf'")
    case True
    then obtain x where x: "buf' = t @ x" using prefixes by (metis append_take_drop_id take_append take_all)
    then have "strstr (c_str buf') head_end = Some i"
      using assms(1,2,3) len by (simp add: c_str_clean strstr_append)
    with room nonempty x assms(2) show ?thesis by (simp add: buf'_def Let_def)
  next
    case False
    then have buf': "buf' = take (length buf') t" using prefixes by simp
    then have "CHR 0x00 \<notin> set buf'" using assms(3) by (metis in_set_takeD)
    then have c: "c_str buf' = buf'" by (rule c_str_clean')
    have "strstr buf' head_end = None"
    proof (rule ccontr)
      assume "strstr buf' head_end \<noteq> None"
      then obtain j where j: "strstr buf' head_end = Some j" by auto
      then have at: "take 4 (drop j buf') = head_end" by (simp add: strstr_spec len)
      then have "length (take 4 (drop j buf')) = 4" using len by simp
      then have bound: "j + 4 \<le> length buf'" by simp
      have "take 4 (drop j (take n t)) = take 4 (drop j t)" if "j + 4 \<le> n" for n
        using that by (simp add: drop_take take_take min_def)
      with at bound buf' have "take 4 (drop j t) = head_end" by metis
      moreover have "j < i" using bound False assms(2) by simp
      ultimately show False using assms(1) by (simp add: strstr_spec len)
    qed
    moreover have whole: "take (STREAM_REQ_MAX - 1 - length buf) seg = seg"
      using False assms(4) room unfolding buf'_def by (auto simp: min_def split: if_splits)
    ultimately show ?thesis
      using Cons.prems room nonempty c False Cons.IH [of buf'] by (simp add: buf'_def Let_def)
  qed
qed


text \<open>A request as it goes over the wire: lines without CR and NUL, none of them empty.\<close>

definition http_line :: "string \<Rightarrow> bool" where
  "http_line l \<longleftrightarrow> l \<noteq> [] \<and> CHR 0x0D \<notin> set l \<and> CHR 0x00 \<notin> set l"

definition head_lines :: "string list \<Rightarrow> string" where
  "head_lines ls = concat (map (\<lambda>l. l @ crlf) ls)"

lemma head_lines_simps [simp]: "head_lines [] = []" "head_lines (l # ls) = l @ crlf @ head_lines ls"
  by (simp_all add: head_lines_def)

text \<open>The value that counts: that of the first Authorization line.\<close>

definition auth_line :: "string \<Rightarrow> bool" where
  "auth_line h \<longleftrightarrow> strcasecmp_eq (take (length AUTH_PREFIX) h) AUTH_PREFIX"

definition auth_value :: "string list \<Rightarrow> string" where
  "auth_value hs =
     (case find auth_line hs of None \<Rightarrow> []
      | Some h \<Rightarrow> dropWhile (\<lambda>c. c = CHR '' '') (drop (length AUTH_PREFIX) h))"

lemma strstr_crlf: "strstr (crlf @ s) crlf = Some 0"
  by (simp add: strstr_spec crlf_def)

lemma strstr_line: "CHR 0x0D \<notin> set l \<Longrightarrow> strstr (l @ crlf @ s) crlf = Some (length l)"
  using strstr_skip [of "CHR 0x0D" l "crlf @ s" "[CHR 0x0A]"] strstr_crlf [of s] by (simp add: crlf_def)

lemma head_end_found:
  "list_all http_line ls \<Longrightarrow> ls \<noteq> [] \<Longrightarrow> strstr (head_lines ls @ crlf) head_end = Some (length (head_lines ls) - 2)"
proof (induction ls)
  case (Cons l ls)
  have pat: "head_end = CHR 0x0D # [CHR 0x0A, CHR 0x0D, CHR 0x0A]" by (simp add: head_end_def crlf_def)
  have skip: "strstr (head_lines (l # ls) @ crlf) head_end = map_option (\<lambda>i. i + length l) (strstr (crlf @ head_lines ls @ crlf) head_end)"
    using Cons.prems(1) strstr_skip [of "CHR 0x0D" l "crlf @ head_lines ls @ crlf"] unfolding pat by (simp add: http_line_def)
  show ?case
  proof (cases ls)
    case Nil
    have "strstr (crlf @ crlf) head_end = Some 0" by (simp add: strstr_spec head_end_def)
    with skip show ?thesis by (simp add: Nil crlf_def)
  next
    case (Cons m ms)
    with Cons.prems(1) obtain c m' where m: "m = c # m'" "c \<noteq> CHR 0x0D" by (cases m) (auto simp: http_line_def)
    define s where "s = m' @ crlf @ head_lines ms @ crlf"
    have "strstr (crlf @ head_lines ls @ crlf) head_end = map_option (\<lambda>i. 2 + i) (strstr (head_lines ls @ crlf) head_end)"
      using m(2) unfolding pat by (simp add: Cons m(1) crlf_def strstr.simps [of "CHR 0x0D # _"] strstr.simps [of "CHR 0x0A # _"]
          option.map_comp comp_def)
    moreover have "2 \<le> length (head_lines ls)" by (simp add: Cons crlf_def)
    ultimately show ?thesis using skip Cons.IH Cons.prems Cons by (simp add: crlf_def)
  qed
qed simp


lemma auth_line_prefix: "http_line h \<Longrightarrow> strcasecmp_eq (take (length AUTH_PREFIX) (h @ crlf @ s)) AUTH_PREFIX \<longleftrightarrow> auth_line h"
proof (cases "length AUTH_PREFIX \<le> length h")
  case False
  assume "http_line h"
  have short: "\<not> strcasecmp_eq (take (length AUTH_PREFIX) h) AUTH_PREFIX"
    using False by (auto simp: strcasecmp_eq_def dest: arg_cong [of _ _ length])
  have "map lower_char (take (length AUTH_PREFIX) (h @ crlf @ s)) ! length h = CHR 0x0D"
    using False by (simp add: crlf_def lower_char_def nth_append)
  moreover have "CHR 0x0D \<notin> set (map lower_char AUTH_PREFIX)" unfolding AUTH_PREFIX_def by code_simp
  then have "map lower_char AUTH_PREFIX ! length h \<noteq> CHR 0x0D" using False by (metis leI length_map nth_mem)
  ultimately have "\<not> strcasecmp_eq (take (length AUTH_PREFIX) (h @ crlf @ s)) AUTH_PREFIX"
    by (auto simp: strcasecmp_eq_def)
  with short show ?thesis by (simp add: auth_line_def)
qed (simp add: auth_line_def)

lemma auth_line_long: "auth_line h \<Longrightarrow> length AUTH_PREFIX \<le> length h"
  by (auto simp: auth_line_def strcasecmp_eq_def dest: arg_cong [of _ _ length])

text \<open>The search behind the first line: the write through a null \<open>end\<close> does not happen.\<close>

lemma auth_header_lines:
  "CHR 0x0D \<notin> set l \<Longrightarrow> list_all http_line hs \<Longrightarrow> auth_header (l @ crlf @ head_lines hs) = Some (auth_value hs)"
proof (induction hs arbitrary: l)
  case Nil
  then show ?case
    by (subst auth_header.simps, subst strstr_line, simp)
       (simp add: crlf_def auth_value_def strcasecmp_eq_def AUTH_PREFIX_def auth_header.simps [of "[]"] strstr.simps)
next
  case (Cons h hs)
  have clean: "CHR 0x0D \<notin> set h" "http_line h" using Cons.prems(2) by (simp_all add: http_line_def)
  have first: "strstr (l @ crlf @ head_lines (h # hs)) crlf = Some (length l)" using Cons.prems(1) by (rule strstr_line)
  have rest: "drop (length l + 2) (l @ crlf @ head_lines (h # hs)) = h @ crlf @ head_lines hs" by (simp add: crlf_def)
  show ?case
  proof (cases "auth_line h")
    case True
    have v: "drop (length AUTH_PREFIX) (h @ crlf @ head_lines hs) = drop (length AUTH_PREFIX) h @ crlf @ head_lines hs"
      using auth_line_long [OF True] by simp
    have "CHR 0x0D \<notin> set (drop (length AUTH_PREFIX) h)" using clean(1) by (meson in_set_dropD)
    from strstr_line [OF this, of "head_lines hs"]
    show ?thesis
      using True
      by (subst auth_header.simps, subst first)
         (simp only: option.case Let_def rest auth_line_prefix [OF clean(2)] v if_True, simp add: auth_value_def)
  next
    case False
    then show ?thesis
      using Cons.IH [OF clean(1)] Cons.prems(2)
      by (subst auth_header.simps, subst first)
         (simp only: option.case Let_def rest auth_line_prefix [OF clean(2)], simp add: auth_value_def)
  qed
qed

lemma first_line: "CHR 0x0D \<notin> set pat \<Longrightarrow> take (length pat) (l @ crlf @ s) = pat \<longleftrightarrow> take (length pat) l = pat"
proof
  assume clean: "CHR 0x0D \<notin> set pat" and eq: "take (length pat) (l @ crlf @ s) = pat"
  have "length pat \<le> length l"
  proof (rule ccontr)
    assume short: "\<not> length pat \<le> length l"
    then have "take (length pat) (l @ crlf @ s) ! length l = CHR 0x0D" by (simp add: nth_append crlf_def)
    with eq short have "pat ! length l = CHR 0x0D" by simp
    with clean short show False by (metis leI nth_mem)
  qed
  with eq show "take (length pat) l = pat" by simp
next
  assume "take (length pat) l = pat"
  then have "length pat \<le> length l" by (metis length_take min_def nat_le_linear order_refl)
  then show "take (length pat) (l @ crlf @ s) = pat" using \<open>take (length pat) l = pat\<close> by simp
qed


lemma request_path:
  "take 6 (l @ crlf @ s) = ''GET / '' \<longleftrightarrow> take 6 l = ''GET / ''"
  "take 12 (l @ crlf @ s) = ''GET /stream '' \<longleftrightarrow> take 12 l = ''GET /stream ''"
proof -
  have len: "length ''GET / '' = 6" "length ''GET /stream '' = 12" by simp_all
  show "take 6 (l @ crlf @ s) = ''GET / '' \<longleftrightarrow> take 6 l = ''GET / ''"
    by (rule first_line [of "''GET / ''", unfolded len]) simp
  show "take 12 (l @ crlf @ s) = ''GET /stream '' \<longleftrightarrow> take 12 l = ''GET /stream ''"
    by (rule first_line [of "''GET /stream ''", unfolded len]) simp
qed

section \<open>What the viewer gets\<close>

lemma send_all_prefix:
  "send_all p answers = (s, ret, rest) \<Longrightarrow> prefix s p \<and> (ret = 0 \<longrightarrow> s = p) \<and> ret \<le> 0"
proof (induction p answers arbitrary: s ret rest rule: send_all.induct)
  case (1 p answers)
  show ?case
  proof (cases "p = [] \<or> answers = [] \<or> hd answers < 0")
    case True
    with "1.prems" show ?thesis
      by (subst (asm) send_all.simps) (auto simp: EPIPE_def split: if_splits list.splits)
  next
    case False
    then obtain n as where n: "answers = n # as" "0 \<le> n" "p \<noteq> []" by (cases answers) auto
    obtain s' ret' rest' where sent: "send_all (drop (nat n) p) as = (s', ret', rest')" by (metis prod_cases3)
    have "s = take (nat n) p @ s'" "ret = ret'"
      using "1.prems" n sent by (auto simp: send_all.simps [of p])
    with "1.IH" [OF n(3,1) _ sent] n(2) show ?thesis
      by (metis append_take_drop_id linorder_not_less same_prefix_prefix)
  qed
qed

fun view_bytes :: "viewed list \<Rightarrow> bytes" where
  "view_bytes [] = []"
| "view_bytes (Sent s # out) = s @ view_bytes out"
| "view_bytes (_ # out) = view_bytes out"

fun frames_taken :: "viewed list \<Rightarrow> bytes list" where
  "frames_taken [] = []"
| "frames_taken (Taken j # out) = j # frames_taken out"
| "frames_taken (_ # out) = frames_taken out"

text \<open>Taken frames are handed back before the next is taken and before the viewer is left.\<close>

fun handed_back :: "bool \<Rightarrow> viewed list \<Rightarrow> bool" where
  "handed_back held [] \<longleftrightarrow> \<not> held"
| "handed_back held (Taken j # out) \<longleftrightarrow> \<not> held \<and> handed_back True out"
| "handed_back held (Released # out) \<longleftrightarrow> held \<and> handed_back False out"
| "handed_back held (Sent s # out) \<longleftrightarrow> handed_back held out"

definition stream_part :: "bytes \<Rightarrow> bytes" where
  "stream_part j = map char_byte (''--frame'' @ crlf @ ''Content-Type: image/jpeg'' @ crlf @
     ''Content-Length: '' @ dec_text (length j) @ head_end) @ j @ map char_byte crlf"

definition multipart :: "bytes list \<Rightarrow> bytes" where
  "multipart js = concat (map stream_part js)"

lemma multipart_simps [simp]: "multipart [] = []" "multipart (j # js) = stream_part j @ multipart js"
  by (simp_all add: multipart_def)

lemma view_append [simp]: "view_bytes (a @ b) = view_bytes a @ view_bytes b"
  by (induction a rule: view_bytes.induct) auto

lemma taken_append [simp]: "frames_taken (a @ b) = frames_taken a @ frames_taken b"
  by (induction a rule: frames_taken.induct) auto

text \<open>The part's header fits its buffer and states the length of the frame.\<close>

lemma part_header_whole:
  assumes "len < 2 ^ 32"
  shows "part_header len = ''--frame'' @ crlf @ ''Content-Type: image/jpeg'' @ crlf @ ''Content-Length: '' @ dec_text len @ head_end"
proof -
  have "unat (word_of_nat len :: u32) = len" using assms by (simp add: unat_of_nat)
  moreover have "length (dec_text len) \<le> 10" using dec_text_length [of len 10] assms by simp
  ultimately show ?thesis by (simp add: part_header_def crlf_def head_end_def)
qed

lemma part_bytes:
  "length j < 2 ^ 32 \<Longrightarrow> stream_part j = map char_byte (part_header (length j)) @ j @ map char_byte crlf"
  by (simp add: part_header_whole stream_part_def)

lemma send_frame_result:
  assumes "send_frame j answers = (out, ret, rest)" and "length j < 2 ^ 32"
  shows "prefix (view_bytes out) (stream_part j)" and "ret = 0 \<Longrightarrow> view_bytes out = stream_part j"
    and "frames_taken out = [j]" and "handed_back False (out @ out2) = handed_back False out2" and "ret \<le> 0"
proof -
  obtain s1 r1 a1 where 1: "send_all (map char_byte (part_header (length j))) answers = (s1, r1, a1)" by (metis prod_cases3)
  obtain s2 r2 a2 where 2: "(if r1 = 0 then send_all j a1 else ([], r1, a1)) = (s2, r2, a2)" by (metis prod_cases3)
  obtain s3 r3 a3 where 3: "(if r2 = 0 then send_all (map char_byte crlf) a2 else ([], r2, a2)) = (s3, r3, a3)"
    by (metis prod_cases3)
  have out: "out = [Taken j, Sent s1, Sent s2, Released, Sent s3]" "ret = r3"
    using assms(1) unfolding send_frame_def send_str_def 1 prod.case 2 3 by simp_all
  note p1 = send_all_prefix [OF 1]
  have p2: "prefix s2 j \<and> (r2 = 0 \<longrightarrow> r1 = 0 \<and> s2 = j) \<and> (r1 \<noteq> 0 \<longrightarrow> s2 = []) \<and> r2 \<le> 0"
    using 2 send_all_prefix [of j a1 s2 r2 a2] p1 by (auto split: if_splits)
  have p3: "prefix s3 (map char_byte crlf) \<and> (r3 = 0 \<longrightarrow> r2 = 0 \<and> s3 = map char_byte crlf) \<and> (r2 \<noteq> 0 \<longrightarrow> s3 = []) \<and> r3 \<le> 0"
    using 3 send_all_prefix [of "map char_byte crlf" a2 s3 r3 a3] p2 by (auto split: if_splits)
  show "prefix (view_bytes out) (stream_part j)"
    unfolding part_bytes [OF assms(2)] using out p1 p2 p3
    by (cases "r1 = 0"; cases "r2 = 0") (auto simp: prefix_def)
  show "view_bytes out = stream_part j" if "ret = 0"
    unfolding part_bytes [OF assms(2)] using out p1 p2 p3 that by auto
  show "frames_taken out = [j]" "handed_back False (out @ out2) = handed_back False out2" "ret \<le> 0"
    using out p3 by simp_all
qed

fun frames_given :: "(int + bytes) list \<Rightarrow> bytes list" where
  "frames_given [] = []"
| "frames_given (Inl err # shots) = frames_given shots"
| "frames_given (Inr jpeg # shots) = jpeg # frames_given shots"

lemma stream_loop_result:
  "\<forall>j. Inr j \<in> set shots \<longrightarrow> length j < 2 ^ 32 \<Longrightarrow>
   prefix (view_bytes (stream_loop shots answers)) (multipart (frames_taken (stream_loop shots answers))) \<and>
   prefix (multipart (butlast (frames_taken (stream_loop shots answers)))) (view_bytes (stream_loop shots answers)) \<and>
   handed_back False (stream_loop shots answers) \<and>
   prefix (frames_taken (stream_loop shots answers)) (frames_given shots)"
proof (induction shots answers rule: stream_loop.induct)
  case (3 j shots answers)
  obtain out ret rest where f: "send_frame j answers = (out, ret, rest)" by (metis prod_cases3)
  have "length j < 2 ^ 32" using "3.prems" by simp
  note r = send_frame_result [OF f this]
  show ?case
  proof (cases "ret = 0")
    case False
    then show ?thesis using f r(1,3) r(4) [of "[]"] by simp
  next
    case True
    with "3.IH" [OF f [symmetric] refl True] "3.prems" f r(2,3) r(4) [of "stream_loop shots rest"]
    show ?thesis by (cases "frames_taken (stream_loop shots rest)") auto
  qed
qed auto


section \<open>The stream as a whole\<close>

text \<open>
  C28. Only a viewer with the password sees a picture, however TCP cuts its request. For every
  well-formed request of at most 767 bytes: if it asks for / or /stream and its first
  Authorization line carries the base64 of admin and the non-empty password, it is answered with
  the stream; in every other case with one refusal (404, 403 or 401), and no frame is taken from
  the camera.
\<close>

theorem camera_stream_gate:
  assumes "list_all http_line (l # hs)" and "concat (vw_segments v) = head_lines (l # hs) @ crlf @ rest"
    and "[] \<notin> set (vw_segments v)" and "length (head_lines (l # hs) @ crlf) < STREAM_REQ_MAX"
  shows "if (take 6 l = ''GET / '' \<or> take 12 l = ''GET /stream '') \<and> cf_password c \<noteq> [] \<and>
       (\<exists>enc. auth_value hs = ''Basic '' @ enc \<and> b64 127 enc = (0, map char_byte (''admin:'' @ cf_password c)))
     then \<exists>sent ret answers. send_str stream_header (vw_answers v) = (sent, ret, answers) \<and>
       stream_serve b64 c v = Sent sent # (if ret < 0 then [] else stream_loop (vw_frames v) answers)
     else \<exists>refused. stream_serve b64 c v = [Sent (fst (send_str refused (vw_answers v)))] \<and>
       take 12 refused \<in> {''HTTP/1.1 404'', ''HTTP/1.1 403'', ''HTTP/1.1 401''}"
proof -
  let ?t = "head_lines (l # hs) @ crlf"
  have nul: "CHR 0x00 \<notin> set (head_lines ls)" if "list_all http_line ls" for ls
    using that by (induction ls) (auto simp: http_line_def crlf_def)
  have len: "2 \<le> length (head_lines (l # hs))" by (simp add: crlf_def)
  have "read_head [] (vw_segments v) = Inr (take (length (head_lines (l # hs)) - 2 + 2) ?t)"
  proof (rule read_head_whole)
    show "strstr ?t head_end = Some (length (head_lines (l # hs)) - 2)" by (rule head_end_found [OF assms(1)]) simp
    show "length ?t = length (head_lines (l # hs)) - 2 + 4" using len by (simp add: crlf_def)
    show "CHR 0x00 \<notin> set ?t" using nul [OF assms(1)] by (simp add: crlf_def)
    show "[] @ concat (vw_segments v) = ?t @ rest" using assms(2) by simp
    show "length [] < length ?t" by (simp add: crlf_def)
  qed (use assms in simp_all)
  then have head: "read_head [] (vw_segments v) = Inr (l @ crlf @ head_lines hs)" using len by simp
  have l: "CHR 0x0D \<notin> set l" "list_all http_line hs" using assms(1) by (simp_all add: http_line_def)
  have path: "take 6 (l @ crlf @ head_lines hs) = ''GET / '' \<longleftrightarrow> take 6 l = ''GET / ''"
      "take 12 (l @ crlf @ head_lines hs) = ''GET /stream '' \<longleftrightarrow> take 12 l = ''GET /stream ''"
    by (rule request_path)+
  note auth = auth_header_lines [OF l] http_basic_auth_exact
  obtain sent ret answers where send: "send_str stream_header (vw_answers v) = (sent, ret, answers)" by (metis prod_cases3)
  show ?thesis
    unfolding stream_serve_def head sum.case request_ok_def path auth send
    by (auto simp: crlf_def)
qed

text \<open>
  C29. A granted viewer receives the well-formed multipart stream of the camera's frames, in the
  order the camera gave them: what leaves is the header and, for each frame taken, one part that
  states its length and holds it whole; only the last part may be cut off, by the send that fails.
  Every frame is handed back to the camera before the next is taken and before the viewer is left.
\<close>

theorem camera_stream_whole:
  assumes "read_head [] (vw_segments v) = Inr req" and "request_ok b64 c req = None"
    and "\<forall>jpeg. Inr jpeg \<in> set (vw_frames v) \<longrightarrow> length jpeg < 2 ^ 32" and "out = stream_serve b64 c v"
  shows "prefix (view_bytes out) (map char_byte stream_header @ multipart (frames_taken out)) \<and>
    (frames_taken out \<noteq> [] \<longrightarrow> prefix (map char_byte stream_header @ multipart (butlast (frames_taken out))) (view_bytes out)) \<and>
    prefix (frames_taken out) (frames_given (vw_frames v)) \<and> handed_back False out"
proof -
  obtain sent ret answers where send: "send_all (map char_byte stream_header) (vw_answers v) = (sent, ret, answers)"
    by (metis prod_cases3)
  have out: "out = Sent sent # (if ret < 0 then [] else stream_loop (vw_frames v) answers)"
    unfolding assms(4) stream_serve_def assms(1) sum.case assms(2) send_str_def by (simp add: send)
  note r = send_all_prefix [OF send] stream_loop_result [OF assms(3), of answers]
  show ?thesis
  proof (cases "ret < 0")
    case True
    then show ?thesis using out r by (simp add: prefix_prefix)
  next
    case False
    then have "sent = map char_byte stream_header" using r by simp
    then show ?thesis using False out r by simp
  qed
qed

section \<open>A concrete viewer\<close>

definition stream_demo :: viewer where
  "stream_demo = \<lparr>vw_segments = [''GET /stre'', ''am HTTP/1.1'' @ [CHR 0x0D],
       [CHR 0x0A] @ ''authorization:  Basic eA=='' @ crlf @ [CHR 0x0D], [CHR 0x0A]],
     vw_answers = [1000, 1000, 1, 1000, 1000, -5], vw_frames = [Inl (- 5), Inr [1, 2, 3], Inr [4]]\<rparr>"

definition stream_demo_b64 :: "nat \<Rightarrow> string \<Rightarrow> int \<times> bytes" where
  "stream_demo_b64 cap enc = (0, map char_byte ''admin:pw'')"

theorem camera_stream_gate_witness:
  "\<exists>jpeg. Taken jpeg \<in> set (stream_serve stream_demo_b64 ((cfg_default ''cam'')\<lparr>cf_password := ''pw''\<rparr>) stream_demo)"
proof -
  have authv: "auth_value [''authorization:  Basic eA==''] = ''Basic eA==''" by code_simp
  have "\<exists>sent ret answers. send_str stream_header (vw_answers stream_demo) = (sent, ret, answers) \<and>
       stream_serve stream_demo_b64 ((cfg_default ''cam'')\<lparr>cf_password := ''pw''\<rparr>) stream_demo =
         Sent sent # (if ret < 0 then [] else stream_loop (vw_frames stream_demo) answers)"
    using camera_stream_gate [where l = "''GET /stream HTTP/1.1''" and hs = "[''authorization:  Basic eA=='']" and
        v = stream_demo and rest = "[]" and ?b64.0 = stream_demo_b64 and c = "(cfg_default ''cam'')\<lparr>cf_password := ''pw''\<rparr>"]
    unfolding authv by (simp add: stream_demo_def stream_demo_b64_def http_line_def crlf_def STREAM_REQ_MAX_def)
  moreover have "send_str stream_header (vw_answers stream_demo) = (map char_byte stream_header, 0, [1000, 1, 1000, 1000, -5])"
    by code_simp
  moreover have "Taken [1, 2, 3] \<in> set (stream_loop (vw_frames stream_demo) [1000, 1, 1000, 1000, -5])" by code_simp
  ultimately show ?thesis by auto
qed

theorem camera_stream_whole_witness:
  "prefix (map char_byte stream_header @ multipart [[1, 2, 3]])
     (view_bytes (stream_serve stream_demo_b64 ((cfg_default ''cam'')\<lparr>cf_password := ''pw''\<rparr>) stream_demo))"
proof -
  have head: "read_head [] (vw_segments stream_demo) =
      Inr (''GET /stream HTTP/1.1'' @ crlf @ ''authorization:  Basic eA=='' @ crlf)" by code_simp
  have ok: "request_ok stream_demo_b64 ((cfg_default ''cam'')\<lparr>cf_password := ''pw''\<rparr>)
      (''GET /stream HTTP/1.1'' @ crlf @ ''authorization:  Basic eA=='' @ crlf) = None" by code_simp
  have taken: "frames_taken (stream_serve stream_demo_b64 ((cfg_default ''cam'')\<lparr>cf_password := ''pw''\<rparr>) stream_demo) = [[1, 2, 3], [4]]"
    by code_simp
  show ?thesis
    using camera_stream_whole [OF head ok _ refl] unfolding taken by (simp add: stream_demo_def)
qed

end
