(* ===== verification/App_Recovery.thy ===== *)
theory App_Recovery
  imports Prelude
begin

text \<open>
  What the applications share to recover from a hang (\<open>common/watchdog\<close>, \<open>common/img_confirm\<close>,
  \<open>common/reset_reason\<close>): named watchdog channels, the deadline of an image on trial, and the
  record of why the board last reset, which lives in memory that survives a reset. The task
  watchdog, the boot loader, the reset-cause driver and the retention area answer through inputs;
  the set of armed channels is what the calls of the task watchdog leave behind.
\<close>

section \<open>The watchdog\<close>

record app_wdt =
  wdt_ready :: bool
  wdt_hw :: bool
  wdt_channels :: "int \<Rightarrow> (string \<times> nat) option"

definition wdt_off :: app_wdt where
  "wdt_off = \<lparr>wdt_ready = False, wdt_hw = False, wdt_channels = (\<lambda>_. None)\<rparr>"

text \<open>\<open>init hw\<close> is what \<open>task_wdt_init\<close> returns with and without the hardware watchdog.\<close>

definition app_watchdog_init :: "bool \<Rightarrow> bool \<Rightarrow> (bool \<Rightarrow> int) \<Rightarrow> app_wdt \<Rightarrow> int \<times> app_wdt" where
  "app_watchdog_init aliased hw_ready init s =
     (let hw_wdt = aliased \<and> hw_ready;
          ret = init hw_wdt;
          (hw_wdt, ret) = (if ret \<noteq> 0 \<and> hw_wdt then (False, init False) else (hw_wdt, ret))
      in if ret \<noteq> 0 then (ret, s) else (0, s\<lparr>wdt_ready := True, wdt_hw := hw_wdt\<rparr>))"

definition EBUSY :: int where [const_simps]: "EBUSY = 16"

text \<open>\<open>ch\<close> is the answer of \<open>task_wdt_add\<close>.\<close>

definition app_watchdog_register :: "int \<Rightarrow> string \<Rightarrow> nat \<Rightarrow> app_wdt \<Rightarrow> int \<times> app_wdt" where
  "app_watchdog_register ch name timeout_ms s =
     (if \<not> wdt_ready s then (- EBUSY, s)
      else if ch < 0 then (ch, s)
      else (ch, s\<lparr>wdt_channels := (wdt_channels s)(ch \<mapsto> (name, timeout_ms))\<rparr>))"

definition app_watchdog_unregister :: "int \<Rightarrow> app_wdt \<Rightarrow> app_wdt" where
  "app_watchdog_unregister channel s =
     (if wdt_ready s \<and> 0 \<le> channel then s\<lparr>wdt_channels := (wdt_channels s)(channel := None)\<rparr> else s)"

text \<open>Whether the call reaches \<open>task_wdt_feed\<close>.\<close>

definition app_watchdog_feed :: "int \<Rightarrow> app_wdt \<Rightarrow> bool" where
  "app_watchdog_feed channel s \<longleftrightarrow> wdt_ready s \<and> 0 \<le> channel"

lemma register_unregister:
  assumes "app_watchdog_register ch name t s = (c, s')" and "wdt_channels s ch = None"
  shows "app_watchdog_unregister c s' = s"
  using assms by (auto simp: app_watchdog_register_def app_watchdog_unregister_def EBUSY_def fun_upd_idem split: if_splits)

lemma unregister_ready [simp]: "wdt_ready (app_watchdog_unregister c s) = wdt_ready s"
  by (simp add: app_watchdog_unregister_def)

section \<open>The reset record\<close>

definition RR_VERSION :: u8 where [const_simps]: "RR_VERSION = 1"

datatype rr_mark = RR_NONE | RR_WATCHDOG | RR_FATAL

definition mark_byte :: "rr_mark \<Rightarrow> u8" where
  "mark_byte m = (case m of RR_NONE \<Rightarrow> 0 | RR_WATCHDOG \<Rightarrow> 1 | RR_FATAL \<Rightarrow> 2)"

record rr_record =
  rr_version :: u8
  rr_marked :: u8
  rr_wdt_channel :: u8
  rr_crash_count :: u16
  rr_fatal_reason :: u16
  rr_wdt_name :: string

definition rr_zero :: rr_record where
  "rr_zero = \<lparr>rr_version = 0, rr_marked = 0, rr_wdt_channel = 0, rr_crash_count = 0, rr_fatal_reason = 0, rr_wdt_name = []\<rparr>"

text \<open>The counter in RAM and the retained area: \<open>None\<close> where its prefix or CRC does not match.\<close>

record rr_state =
  crash_count :: u16
  area :: "rr_record option"

definition rr_write :: "bool \<Rightarrow> rr_mark \<Rightarrow> u8 \<Rightarrow> u16 \<Rightarrow> string option \<Rightarrow> rr_state \<Rightarrow> rr_state" where
  "rr_write ready m wdt_channel fatal_reason name s =
     (if ready
      then s\<lparr>area := Some \<lparr>rr_version = RR_VERSION, rr_marked = mark_byte m, rr_wdt_channel = wdt_channel,
               rr_crash_count = crash_count s, rr_fatal_reason = fatal_reason,
               rr_wdt_name = (case name of None \<Rightarrow> [] | Some n \<Rightarrow> take 15 n)\<rparr>\<rparr>
      else s)"

definition app_reset_reason_watchdog :: "bool \<Rightarrow> int \<Rightarrow> string option \<Rightarrow> rr_state \<Rightarrow> rr_state" where
  "app_reset_reason_watchdog ready channel name s = rr_write ready RR_WATCHDOG (word_of_int channel) 0 name s"

text \<open>The two handlers end in a reboot, or in a halt.\<close>

datatype fate = Reboot_cold | Reboot_warm | Halted

definition wdt_timeout_cb :: "bool \<Rightarrow> int \<Rightarrow> string option \<Rightarrow> rr_state \<Rightarrow> fate \<times> rr_state" where
  "wdt_timeout_cb ready channel_id user_data s = (Reboot_cold, app_reset_reason_watchdog ready channel_id user_data s)"

definition k_sys_fatal_error_handler :: "bool \<Rightarrow> bool \<Rightarrow> u32 \<Rightarrow> rr_state \<Rightarrow> fate \<times> rr_state" where
  "k_sys_fatal_error_handler ready reset_on_fatal reason s =
     (if reset_on_fatal then Reboot_warm else Halted, rr_write ready RR_FATAL 0 (ucast reason) None s)"

text \<open>The driver's reset causes, as far as the code tells them apart.\<close>

datatype reset_flag = RESET_POR | RESET_PIN | RESET_SOFTWARE | RESET_LOW_POWER_WAKE | RESET_OTHER nat

definition RR_EXPECTED_CAUSES :: "reset_flag list" where
  "RR_EXPECTED_CAUSES = [RESET_POR, RESET_PIN, RESET_SOFTWARE, RESET_LOW_POWER_WAKE]"

datatype rr_report =
  Not_recorded
| Stalled string u8
| Fatal_error u16 bool
| Cause_unknown int
| Power_on
| Not_requested "reset_flag list"
| Requested "reset_flag list"

record reset_env =
  be_ready :: bool
  be_ret :: int
  be_cause :: "reset_flag list"
  be_read_ok :: bool
  be_dump :: bool

text \<open>What the boot logs; the second result tells whether the total is logged too.\<close>

definition app_reset_reason_boot :: "reset_env \<Rightarrow> rr_state \<Rightarrow> rr_report \<times> bool \<times> rr_state" where
  "app_reset_reason_boot e s =
     (if \<not> be_ready e then (Not_recorded, False, s)
      else
        (let cause = be_cause e;
             rec = (case area s of Some rec \<Rightarrow> if be_read_ok e then rec else rr_zero | None \<Rightarrow> rr_zero);
             trusted = RESET_POR \<notin> set cause \<and> area s \<noteq> None \<and> be_read_ok e \<and> rr_version rec = RR_VERSION;
             (s, rec) = (if trusted then (s\<lparr>crash_count := rr_crash_count rec\<rparr>, rec)
                         else (s, rec\<lparr>rr_marked := mark_byte RR_NONE\<rparr>));
             (report, s) =
               (if rr_marked rec = mark_byte RR_WATCHDOG
                then (Stalled (take 15 (rr_wdt_name rec)) (rr_wdt_channel rec), s\<lparr>crash_count := crash_count s + 1\<rparr>)
                else if rr_marked rec = mark_byte RR_FATAL
                then (Fatal_error (rr_fatal_reason rec) (be_dump e), s\<lparr>crash_count := crash_count s + 1\<rparr>)
                else if be_ret e < 0 \<or> cause = [] then (Cause_unknown (be_ret e), s)
                else if RESET_POR \<in> set cause then (Power_on, s)
                else if \<not> set cause \<subseteq> set RR_EXPECTED_CAUSES
                then (Not_requested cause, s\<lparr>crash_count := crash_count s + 1\<rparr>)
                else (Requested cause, s))
         in (report, 0 < crash_count s, rr_write (be_ready e) RR_NONE 0 0 None s)))"

section \<open>From reset to reset\<close>

text \<open>
  How a life of the program ends, and the boot that follows. The counter in RAM starts at 0. After
  a loss of power the area holds anything; after any other reset it holds what was written last.
\<close>

datatype outage =
  Power_loss "rr_record option" "reset_flag list"
| Stall int string "reset_flag list"
| Fault u32 "reset_flag list"
| Other_reset "reset_flag list"

fun outage_cause :: "outage \<Rightarrow> reset_flag list" where
  "outage_cause (Power_loss garbage cause) = cause"
| "outage_cause (Stall ch name cause) = cause"
| "outage_cause (Fault reason cause) = cause"
| "outage_cause (Other_reset cause) = cause"

fun end_of_life :: "outage \<Rightarrow> rr_state \<Rightarrow> rr_state" where
  "end_of_life (Power_loss garbage cause) s = s\<lparr>area := garbage\<rparr>"
| "end_of_life (Stall ch name cause) s = snd (wdt_timeout_cb True ch (Some name) s)"
| "end_of_life (Fault reason cause) s = snd (k_sys_fatal_error_handler True True reason s)"
| "end_of_life (Other_reset cause) s = s"

definition next_life :: "outage \<Rightarrow> rr_state \<Rightarrow> rr_report \<times> rr_state" where
  "next_life x s =
     (let e = \<lparr>be_ready = True, be_ret = 0, be_cause = outage_cause x, be_read_ok = True, be_dump = False\<rparr>;
          (report, _, s) = app_reset_reason_boot e ((end_of_life x s)\<lparr>crash_count := 0\<rparr>)
      in (report, s))"

fun lives :: "outage list \<Rightarrow> rr_state \<Rightarrow> rr_state" where
  "lives [] s = s"
| "lives (x # xs) s = lives xs (snd (next_life x s))"

text \<open>A loss of power is reported as such by the driver, and nothing else is.\<close>

fun cause_told :: "outage \<Rightarrow> bool" where
  "cause_told (Power_loss garbage cause) \<longleftrightarrow> RESET_POR \<in> set cause"
| "cause_told x \<longleftrightarrow> RESET_POR \<notin> set (outage_cause x)"

text \<open>The specification: unexpected resets since the last loss of power.\<close>

fun unexpected :: "outage \<Rightarrow> bool" where
  "unexpected (Power_loss garbage cause) \<longleftrightarrow> False"
| "unexpected (Stall ch name cause) \<longleftrightarrow> True"
| "unexpected (Fault reason cause) \<longleftrightarrow> True"
| "unexpected (Other_reset cause) \<longleftrightarrow> \<not> set cause \<subseteq> set RR_EXPECTED_CAUSES"

fun is_power_loss :: "outage \<Rightarrow> bool" where
  "is_power_loss (Power_loss garbage cause) = True"
| "is_power_loss x = False"

definition since_power :: "outage list \<Rightarrow> outage list" where
  "since_power xs = rev (takeWhile (\<lambda>x. \<not> is_power_loss x) (rev xs))"


lemma since_power_snoc: "since_power (xs @ [x]) = (if is_power_loss x then [] else since_power xs @ [x])"
  by (simp add: since_power_def)

lemma lives_snoc: "lives (xs @ [x]) s = snd (next_life x (lives xs s))"
  by (induction xs arbitrary: s) simp_all

text \<open>Between two resets the area holds the counter without a mark.\<close>

definition rr_settled :: "rr_state \<Rightarrow> bool" where
  "rr_settled s \<longleftrightarrow> (\<exists>rec. area s = Some rec \<and> rr_version rec = RR_VERSION \<and> rr_marked rec = mark_byte RR_NONE \<and>
     rr_crash_count rec = crash_count s)"

fun report_of :: "outage \<Rightarrow> rr_report" where
  "report_of (Power_loss garbage cause) = Power_on"
| "report_of (Stall ch name cause) = Stalled (take 15 name) (word_of_int ch)"
| "report_of (Fault reason cause) = Fatal_error (ucast reason) False"
| "report_of (Other_reset cause) =
     (if cause = [] then Cause_unknown 0 else if set cause \<subseteq> set RR_EXPECTED_CAUSES then Requested cause
      else Not_requested cause)"

lemma mark_bytes [simp]: "mark_byte RR_NONE = 0" "mark_byte RR_WATCHDOG = 1" "mark_byte RR_FATAL = 2"
  by (simp_all add: mark_byte_def)

lemmas rr_defs = next_life_def app_reset_reason_boot_def rr_write_def rr_settled_def wdt_timeout_cb_def
  app_reset_reason_watchdog_def k_sys_fatal_error_handler_def

lemma next_life_power:
  "RESET_POR \<in> set cause \<Longrightarrow> rr_settled (snd (next_life (Power_loss g cause) s)) \<and>
     crash_count (snd (next_life (Power_loss g cause) s)) = 0 \<and> fst (next_life (Power_loss g cause) s) = Power_on"
  by (cases cause) (auto simp: rr_defs)

lemma next_life_step:
  assumes "rr_settled s" and "cause_told x" and "\<not> is_power_loss x"
  shows "rr_settled (snd (next_life x s)) \<and> fst (next_life x s) = report_of x \<and>
    crash_count (snd (next_life x s)) = crash_count s + (if unexpected x then 1 else 0)"
  using assms by (cases x) (auto simp: rr_defs)

text \<open>
  C30. The count of unexpected resets is right, and every reset is reported for what it was. Over
  any sequence of lives that begins with a loss of power, whatever the retained memory came up
  with and whatever resets (stalls, faults, others) follow in whatever order, the counter is the
  number of unexpected resets since the last loss of power modulo 2^16, and the next boot reports
  the outage it follows: a stall with the channel and the first 15 characters of its name, a fault
  with its reason, and none of them a second time.
\<close>

theorem recovery_counts_resets:
  assumes "list_all cause_told (Power_loss g c # xs)" and "cause_told x"
  shows "crash_count (lives (Power_loss g c # xs) s) =
      of_nat (length (filter unexpected (since_power (Power_loss g c # xs)))) \<and>
    fst (next_life x (lives (Power_loss g c # xs) s)) = report_of x"
proof -
  have run: "rr_settled (lives (Power_loss g c # xs) s) \<and> crash_count (lives (Power_loss g c # xs) s) =
      of_nat (length (filter unexpected (since_power (Power_loss g c # xs))))"
    using assms(1)
  proof (induction xs rule: rev_induct)
    case Nil
    then show ?case using next_life_power [of c g s] by (simp add: since_power_def)
  next
    case (snoc y ys)
    let ?s = "lives (Power_loss g c # ys) s"
    have life: "lives (Power_loss g c # (ys @ [y])) s = snd (next_life y ?s)"
      using lives_snoc [of "Power_loss g c # ys"] by simp
    have power: "since_power (Power_loss g c # (ys @ [y])) =
        (if is_power_loss y then [] else since_power (Power_loss g c # ys) @ [y])"
      using since_power_snoc [of "Power_loss g c # ys"] by simp
    show ?case
    proof (cases "is_power_loss y")
      case True
      then obtain g' c' where "y = Power_loss g' c'" by (cases y) auto
      with snoc.prems show ?thesis unfolding life power using next_life_power [of c' g' ?s] by simp
    next
      case False
      with snoc show ?thesis unfolding life power using next_life_step [of ?s y] by simp
    qed
  qed
  then show ?thesis
    using assms(2) next_life_step [of _ x] next_life_power by (cases x) fastforce+
qed

section \<open>An image on trial\<close>

text \<open>
  The confirmation flag and the channel of the deadline; \<open>deadline_ms\<close> is its configured length.
  \<open>app_img_confirm\<close> is cut between its compare-and-set, the write of the boot loader's flag and what
  follows, because several threads call it.
\<close>

record img_confirm =
  confirmed :: bool
  wdt_channel :: int

definition img_confirm_boot :: img_confirm where
  "img_confirm_boot = \<lparr>confirmed = False, wdt_channel = - 1\<rparr>"

definition app_img_confirm_arm :: "nat \<Rightarrow> bool \<Rightarrow> int \<Rightarrow> app_wdt \<Rightarrow> img_confirm \<Rightarrow> app_wdt \<times> img_confirm" where
  "app_img_confirm_arm deadline_ms img_confirmed ch w s =
     (if img_confirmed then (w, s\<lparr>confirmed := True\<rparr>)
      else (case app_watchdog_register ch ''img_confirm'' deadline_ms w of
              (channel, w) \<Rightarrow> (w, s\<lparr>wdt_channel := channel\<rparr>)))"

text \<open>Whether the caller goes on to write.\<close>

definition confirm_claim :: "img_confirm \<Rightarrow> bool \<times> img_confirm" where
  "confirm_claim s = (if confirmed s then (False, s) else (True, s\<lparr>confirmed := True\<rparr>))"

definition confirm_written :: "int \<Rightarrow> app_wdt \<Rightarrow> img_confirm \<Rightarrow> app_wdt \<times> img_confirm" where
  "confirm_written ret w s =
     (if ret \<noteq> 0 then (w, s\<lparr>confirmed := False\<rparr>) else (app_watchdog_unregister (wdt_channel s) w, s))"

definition app_img_confirm :: "int \<Rightarrow> app_wdt \<Rightarrow> img_confirm \<Rightarrow> app_wdt \<times> img_confirm" where
  "app_img_confirm ret w s = (case confirm_claim s of (go, s) \<Rightarrow> if go then confirm_written ret w s else (w, s))"

text \<open>
  The threads: each turn is one thread's claim, the end of its write, or somebody's use of another
  watchdog channel. \<open>writers\<close> are the threads between the two.
\<close>

record trial =
  tr_wdt :: app_wdt
  tr_img :: img_confirm
  writers :: "nat list"
  good_writes :: nat

datatype trial_turn = Claim nat | Write_done nat int | Other_register int string nat | Other_unregister int

fun trial_step :: "trial_turn \<Rightarrow> trial \<Rightarrow> trial" where
  "trial_step (Claim t) s =
     (if t \<in> set (writers s) then s
      else (case confirm_claim (tr_img s) of (go, img) \<Rightarrow>
              s\<lparr>tr_img := img, writers := (if go then t # writers s else writers s)\<rparr>))"
| "trial_step (Write_done t ret) s =
     (if t \<notin> set (writers s) then s
      else (case confirm_written ret (tr_wdt s) (tr_img s) of (w, img) \<Rightarrow>
              s\<lparr>tr_wdt := w, tr_img := img, writers := remove1 t (writers s),
                good_writes := good_writes s + (if ret = 0 then 1 else 0)\<rparr>))"
| "trial_step (Other_register ch name t) s =
     (if ch = wdt_channel (tr_img s) then s else s\<lparr>tr_wdt := snd (app_watchdog_register ch name t (tr_wdt s))\<rparr>)"
| "trial_step (Other_unregister ch) s =
     (if ch = wdt_channel (tr_img s) then s else s\<lparr>tr_wdt := app_watchdog_unregister ch (tr_wdt s)\<rparr>)"

definition trial_run :: "trial_turn list \<Rightarrow> trial \<Rightarrow> trial" where
  "trial_run turns s = fold trial_step turns s"

definition on_trial :: "nat \<Rightarrow> trial \<Rightarrow> bool" where
  "on_trial deadline s \<longleftrightarrow> wdt_ready (tr_wdt s) \<and> 0 \<le> wdt_channel (tr_img s) \<and> good_writes s \<le> 1 \<and> length (writers s) \<le> 1 \<and>
     (confirmed (tr_img s) \<longleftrightarrow> good_writes s = 1 \<or> writers s \<noteq> []) \<and> (good_writes s = 1 \<longrightarrow> writers s = []) \<and>
     wdt_channels (tr_wdt s) (wdt_channel (tr_img s)) = (if good_writes s = 0 then Some (''img_confirm'', deadline) else None)"

lemma on_trial_step: "on_trial d s \<Longrightarrow> on_trial d (trial_step turn s)"
proof (cases turn)
  case (Write_done t ret)
  assume inv: "on_trial d s"
  show ?thesis
  proof (cases "t \<in> set (writers s)")
    case True
    with inv have "writers s = [t]" by (cases "writers s") (auto simp: on_trial_def)
    with inv show ?thesis
      by (auto simp: Write_done on_trial_def confirm_written_def app_watchdog_unregister_def)
  qed (use inv in \<open>simp add: Write_done\<close>)
qed (auto simp: on_trial_def confirm_claim_def app_watchdog_register_def app_watchdog_unregister_def split: if_splits)

text \<open>
  C31. An image on trial keeps its deadline until it is confirmed, and is confirmed once. Armed with a
  channel, through any interleaving of threads that report health, of failing and succeeding
  writes and of other users of the watchdog: while no write has succeeded, the deadline's channel
  is armed and a further report can still confirm; the first write that succeeds disarms it, and
  none follows.
\<close>

theorem trial_image_keeps_deadline:
  assumes "wdt_ready w" and "0 \<le> ch" and "app_img_confirm_arm d False ch w img_confirm_boot = (w', img)"
    and "s = trial_run turns \<lparr>tr_wdt = w', tr_img = img, writers = [], good_writes = 0\<rparr>"
  shows "good_writes s \<le> 1 \<and> length (writers s) \<le> 1 \<and>
    wdt_channels (tr_wdt s) ch = (if good_writes s = 0 then Some (''img_confirm'', d) else None) \<and>
    (writers s = [] \<longrightarrow> (good_writes s = 0 \<longleftrightarrow> fst (confirm_claim (tr_img s))))"
proof -
  have "on_trial d \<lparr>tr_wdt = w', tr_img = img, writers = [], good_writes = 0\<rparr>"
    using assms(1-3) by (auto simp: app_img_confirm_arm_def img_confirm_boot_def app_watchdog_register_def on_trial_def)
  then have inv: "on_trial d s"
    unfolding assms(4) trial_run_def by (induction turns rule: rev_induct) (simp_all add: on_trial_step)
  have "wdt_channel (tr_img (trial_step turn t)) = wdt_channel (tr_img t)" for turn t
    by (cases turn) (auto simp: confirm_claim_def confirm_written_def)
  then have "wdt_channel (tr_img s) = wdt_channel img"
    unfolding assms(4) trial_run_def by (induction turns rule: rev_induct) simp_all
  also have "\<dots> = ch" using assms(1-3) by (auto simp: app_img_confirm_arm_def app_watchdog_register_def)
  finally show ?thesis using inv by (auto simp: on_trial_def confirm_claim_def)
qed

text \<open>A write that fails is retried by the next report of health.\<close>

lemma confirm_retry:
  "\<not> confirmed s \<Longrightarrow> ret \<noteq> 0 \<Longrightarrow> app_img_confirm 0 w (snd (app_img_confirm ret w s)) =
     (app_watchdog_unregister (wdt_channel s) w, s\<lparr>confirmed := True\<rparr>)"
  by (simp add: app_img_confirm_def confirm_claim_def confirm_written_def)

text \<open>Losing the hardware watchdog does not cost stall detection.\<close>

lemma watchdog_falls_back:
  "app_watchdog_init aliased hw_ready init wdt_off = (ret, s) \<Longrightarrow> (wdt_ready s \<longleftrightarrow> ret = 0) \<and>
     (init False = 0 \<longrightarrow> ret = 0) \<and> (wdt_hw s \<longrightarrow> aliased \<and> hw_ready \<and> init True = 0)"
  by (cases aliased; cases hw_ready) (auto simp: app_watchdog_init_def wdt_off_def Let_def split: if_splits)

section \<open>Concrete lives\<close>

theorem recovery_counts_resets_witness:
  "crash_count (lives [Power_loss None [RESET_POR], Stall 3 ''img_confirm'' [RESET_SOFTWARE], Other_reset [RESET_PIN],
       Fault 4 []] \<lparr>crash_count = 0, area = None\<rparr>) = 2"
proof -
  have "length (filter unexpected (since_power [Power_loss None [RESET_POR], Stall 3 ''img_confirm'' [RESET_SOFTWARE],
      Other_reset [RESET_PIN], Fault 4 []])) = 2" by (simp add: since_power_def RR_EXPECTED_CAUSES_def)
  with recovery_counts_resets [of None "[RESET_POR]" "[Stall 3 ''img_confirm'' [RESET_SOFTWARE], Other_reset [RESET_PIN],
       Fault 4 []]" "Other_reset [RESET_PIN]" "\<lparr>crash_count = 0, area = None\<rparr>"]
  show ?thesis by simp
qed

theorem trial_image_keeps_deadline_witness:
  "wdt_channels (tr_wdt (trial_run [Claim 1, Claim 2, Write_done 1 (- 5), Claim 2, Write_done 2 0]
     \<lparr>tr_wdt = (wdt_off\<lparr>wdt_ready := True, wdt_channels := [0 \<mapsto> (''img_confirm'', 300000)]\<rparr>),
      tr_img = \<lparr>confirmed = False, wdt_channel = 0\<rparr>, writers = [], good_writes = 0\<rparr>)) 0 = None"
proof -
  let ?s = "\<lparr>tr_wdt = (wdt_off\<lparr>wdt_ready := True, wdt_channels := [0 \<mapsto> (''img_confirm'', 300000)]\<rparr>),
      tr_img = \<lparr>confirmed = False, wdt_channel = 0\<rparr>, writers = [], good_writes = 0\<rparr>"
  have "good_writes (trial_run [Claim 1, Claim 2, Write_done 1 (- 5), Claim 2, Write_done 2 0] ?s) = 1"
    by (simp add: trial_run_def confirm_claim_def confirm_written_def)
  moreover have "app_img_confirm_arm 300000 False 0 (wdt_off\<lparr>wdt_ready := True\<rparr>) img_confirm_boot =
      (wdt_off\<lparr>wdt_ready := True, wdt_channels := [0 \<mapsto> (''img_confirm'', 300000)]\<rparr>, \<lparr>confirmed = False, wdt_channel = 0\<rparr>)"
    by (simp add: app_img_confirm_arm_def app_watchdog_register_def wdt_off_def img_confirm_boot_def)
  ultimately show ?thesis
    using trial_image_keeps_deadline [of "wdt_off\<lparr>wdt_ready := True\<rparr>" 0 300000] by (simp add: wdt_off_def)
qed

end
