(* ===== verification/Camera_Driver.thy ===== *)
theory Camera_Driver
  imports Camera_Run App_Recovery "HOL-Library.Multiset"
begin

text \<open>
  The camera's use of the video driver (\<open>prusa_cam/src/cam.c\<close>): its two buffers, a fresh frame for
  a caller that then holds the camera, and a new configuration; with the shell and the start
  (\<open>main.c\<close>). The driver is its two queues as Zephyr documents them: buffers to be filled, buffers
  done with the number of their frame; stopping moves the first to the second. It completes frames
  at any time, also during the loops over its queues, and any call to it may return an error: the
  code discards those of \<open>video_enqueue\<close> and \<open>video_stream_stop\<close>, and goes on.
\<close>

section \<open>The driver's queues\<close>

text \<open>\<open>vq_refused\<close> is no state of the driver: it keeps for the proofs the buffers whose last \<open>video_enqueue\<close> was refused.\<close>

record video_queues =
  vq_in :: "nat list"
  vq_out :: "(nat \<times> nat) list"
  vq_on :: bool
  vq_frames :: nat
  vq_refused :: "nat list"

definition frame_done :: "video_queues \<Rightarrow> video_queues" where
  "frame_done d =
     (if \<not> vq_on d then d
      else case vq_in d of [] \<Rightarrow> d
           | b # bs \<Rightarrow> d\<lparr>vq_in := bs, vq_out := vq_out d @ [(b, vq_frames d)], vq_frames := vq_frames d + 1\<rparr>)"

text \<open>A buffer is taken only where the call succeeds; a stop that fails leaves the stream and its queues as they are.\<close>

definition video_enqueue :: "bool \<Rightarrow> nat \<Rightarrow> video_queues \<Rightarrow> video_queues" where
  "video_enqueue ok b d =
     (if ok then d\<lparr>vq_in := vq_in d @ [b], vq_refused := removeAll b (vq_refused d)\<rparr> else d\<lparr>vq_refused := b # vq_refused d\<rparr>)"

definition video_stream_stop :: "int \<Rightarrow> video_queues \<Rightarrow> video_queues" where
  "video_stream_stop ret d =
     (if ret = 0 then d\<lparr>vq_on := False, vq_in := [], vq_out := vq_out d @ map (\<lambda>b. (b, 0)) (vq_in d)\<rparr> else d)"

section \<open>The camera\<close>

definition NBUF :: nat where [const_simps]: "NBUF = 2"
definition FLASH_PERCENT :: nat where [const_simps]: "FLASH_PERCENT = 80"

text \<open>A buffer of the pool is its number; a slot has a buffer and its size. \<open>pool_next\<close> is the number of the next one.\<close>

record cam =
  cam_video :: video_queues
  cam_bufs :: "(nat \<times> nat) option list"
  cam_held :: "nat option"
  cam_use_flash :: bool
  cam_locked :: bool
  pool_next :: nat
  pool_released :: "nat list"

definition cam_boot :: cam where
  "cam_boot = \<lparr>cam_video = \<lparr>vq_in = [], vq_out = [], vq_on = False, vq_frames = 0, vq_refused = []\<rparr>, cam_bufs = replicate NBUF None, cam_held = None,
     cam_use_flash = False, cam_locked = False, pool_next = 0, pool_released = []\<rparr>"

text \<open>
  A turn of the loop is whether the buffer is taken back, with the number of frames the driver completes
  after it. Where the list ends before the loop does, the rest is taken back.
\<close>

fun requeue_all :: "(bool \<times> nat) list \<Rightarrow> video_queues \<Rightarrow> video_queues" where
  "requeue_all [] d = fold (video_enqueue True) (map fst (vq_out d)) (d\<lparr>vq_out := []\<rparr>)"
| "requeue_all ((ok, n) # again) d =
     (case vq_out d of [] \<Rightarrow> d
      | (b, _) # r \<Rightarrow> requeue_all again ((frame_done ^^ n) (video_enqueue ok b (d\<lparr>vq_out := r\<rparr>))))"

datatype cam_control = JPEG_QUALITY | HFLIP | VFLIP | BRIGHTNESS | CONTRAST | SATURATION | EXPOSURE | WHITE_BALANCE | GAIN

definition cam_controls :: "cfg \<Rightarrow> (cam_control \<times> int) list" where
  "cam_controls c =
     [(JPEG_QUALITY, int (cf_quality c)), (HFLIP, of_bool (cf_hflip c)), (VFLIP, of_bool (cf_vflip c)),
      (BRIGHTNESS, cf_brightness c), (CONTRAST, cf_contrast c), (SATURATION, cf_saturation c),
      (EXPOSURE, of_bool (cf_auto_exposure c)), (WHITE_BALANCE, of_bool (cf_auto_wb c)), (GAIN, of_bool (cf_auto_gain c))]"

text \<open>The loop over the slots: a buffer too small is released, a missing one allocated, each is offered to the driver.\<close>

fun place_buffers :: "nat \<Rightarrow> (nat \<Rightarrow> bool) \<Rightarrow> (nat \<Rightarrow> bool) \<Rightarrow> nat list \<Rightarrow> cam \<Rightarrow> bool \<times> cam" where
  "place_buffers need alloc enq [] s = (True, s)"
| "place_buffers need alloc enq (i # is) s =
     (let s = (case cam_bufs s ! i of
                 Some (b, sz) \<Rightarrow> if sz < need then s\<lparr>cam_bufs := (cam_bufs s)[i := None], pool_released := b # pool_released s\<rparr> else s
               | None \<Rightarrow> s)
      in case cam_bufs s ! i of
           Some (b, _) \<Rightarrow> place_buffers need alloc enq is (s\<lparr>cam_video := video_enqueue (enq i) b (cam_video s)\<rparr>)
         | None \<Rightarrow>
             if alloc i
             then place_buffers need alloc enq is
                    (s\<lparr>cam_bufs := (cam_bufs s)[i := Some (pool_next s, need)], cam_video := video_enqueue (enq i) (pool_next s) (cam_video s),
                       pool_next := pool_next s + 1\<rparr>)
             else (False, s))"

record apply_env =
  ae_ready :: bool
  ae_stop :: int
  ae_format :: int
  ae_size :: nat
  ae_alloc :: "nat \<Rightarrow> bool"
  ae_enq :: "nat \<Rightarrow> bool"
  ae_start :: int

definition cam_apply :: "apply_env \<Rightarrow> cfg \<Rightarrow> cam \<Rightarrow> int \<times> (cam_control \<times> int) list \<times> cam" where
  "cam_apply e c s =
     (if \<not> ae_ready e then (- ENODEV, [], s)
      else (let s = s\<lparr>cam_video := (video_stream_stop (ae_stop e) (cam_video s))\<lparr>vq_out := []\<rparr>\<rparr>
            in if ae_format e < 0 then (ae_format e, [], s)
               else case place_buffers (ae_size e) (ae_alloc e) (ae_enq e) [0..<NBUF] s of
                 (False, s) \<Rightarrow> (- ENOMEM, [], s)
               | (True, s) \<Rightarrow>
                   (ae_start e, cam_controls c,
                    s\<lparr>cam_use_flash := cf_flash c, cam_video := (cam_video s)\<lparr>vq_on := (ae_start e = 0)\<rparr>\<rparr>)))"

definition cam_init :: "bool \<Rightarrow> apply_env \<Rightarrow> cfg \<Rightarrow> cam \<Rightarrow> int \<times> (cam_control \<times> int) list \<times> cam" where
  "cam_init led_ready e c s = (if \<not> ae_ready e then (- ENODEV, [], s) else if \<not> led_ready then (- ENODEV, [], s) else cam_apply e c s)"

text \<open>
  A grab: the frames completed while the flash settles, the turns of the loop, the frames until the timeout, and
  the error of a wait in vain. A frame is its buffer and its number.
\<close>

record grab_env =
  ge_ready :: bool
  ge_settle :: nat
  ge_turns :: "(bool \<times> nat) list"
  ge_wait :: nat
  ge_ret :: int

definition grab :: "grab_env \<Rightarrow> bool \<Rightarrow> cam \<Rightarrow> (int + nat \<times> nat) \<times> nat list \<times> cam" where
  "grab e flash s =
     (if \<not> ge_ready e then (Inl (- ENODEV), [], s)
      else (let d = (if flash then (frame_done ^^ ge_settle e) (cam_video s) else cam_video s);
                d = (frame_done ^^ ge_wait e) (requeue_all (ge_turns e) d);
                led = (if flash then [FLASH_PERCENT, 0] else [])
            in case vq_out d of
                 [] \<Rightarrow> (Inl (ge_ret e), led, s\<lparr>cam_video := d\<rparr>)
               | (b, n) # r \<Rightarrow> (Inr (b, n), led, s\<lparr>cam_video := d\<lparr>vq_out := r\<rparr>, cam_held := Some b, cam_locked := True\<rparr>)))"

definition cam_snapshot :: "grab_env \<Rightarrow> cam \<Rightarrow> (int + nat \<times> nat) \<times> nat list \<times> cam" where
  "cam_snapshot e s = grab e (cam_use_flash s) s"

definition cam_frame :: "grab_env \<Rightarrow> cam \<Rightarrow> (int + nat \<times> nat) \<times> nat list \<times> cam" where
  "cam_frame e s = grab e False s"

definition cam_release :: "bool \<Rightarrow> cam \<Rightarrow> cam" where
  "cam_release ok s = (case cam_held s of None \<Rightarrow> s
     | Some b \<Rightarrow> s\<lparr>cam_video := video_enqueue ok b (cam_video s), cam_held := None, cam_locked := False\<rparr>)"

section \<open>Runs\<close>

text \<open>
  The lock makes a new configuration and other callers wait while a frame is held. Any call to the
  driver may fail, except that a stop succeeds where there is something to stop: a stream that runs,
  or buffers to be filled.
\<close>

definition stop_works :: "apply_env \<Rightarrow> cam \<Rightarrow> bool" where
  "stop_works e s \<longleftrightarrow> ae_stop e = 0 \<or> \<not> vq_on (cam_video s) \<and> vq_in (cam_video s) = []"

inductive cam_reached :: "cam \<Rightarrow> bool" where
  boot: "cam_reached cam_boot"
| frame: "cam_reached s \<Longrightarrow> cam_reached (s\<lparr>cam_video := frame_done (cam_video s)\<rparr>)"
| applied: "cam_reached s \<Longrightarrow> \<not> cam_locked s \<Longrightarrow> stop_works e s \<Longrightarrow> cam_reached (snd (snd (cam_apply e c s)))"
| snapshot: "cam_reached s \<Longrightarrow> \<not> cam_locked s \<Longrightarrow> cam_reached (snd (snd (cam_snapshot g s)))"
| stream: "cam_reached s \<Longrightarrow> \<not> cam_locked s \<Longrightarrow> cam_reached (snd (snd (cam_frame g s)))"
| release: "cam_reached s \<Longrightarrow> cam_locked s \<Longrightarrow> cam_reached (cam_release ok s)"

section \<open>Every buffer in one place\<close>

definition with_driver :: "video_queues \<Rightarrow> nat multiset" where
  "with_driver d = mset (vq_in d) + mset (map fst (vq_out d))"

definition held_buffer :: "cam \<Rightarrow> nat multiset" where
  "held_buffer s = (case cam_held s of None \<Rightarrow> {#} | Some b \<Rightarrow> {#b#})"

definition cam_owned :: "cam \<Rightarrow> nat list" where
  "cam_owned s = concat (map (\<lambda>x. case x of None \<Rightarrow> [] | Some (b, _) \<Rightarrow> [b]) (cam_bufs s))"

lemma queued_frame_done [simp]: "with_driver (frame_done d) = with_driver d"
  by (auto simp: with_driver_def frame_done_def split: list.splits)

lemma frame_done_on [simp]: "vq_on (frame_done d) = vq_on d"
  by (simp add: frame_done_def split: list.splits)

lemma frames_done [simp]: "with_driver ((frame_done ^^ n) d) = with_driver d" "vq_on ((frame_done ^^ n) d) = vq_on d"
  by (induction n) simp_all

lemma refused_frame_done [simp]: "vq_refused (frame_done d) = vq_refused d"
  by (simp add: frame_done_def split: list.splits)

lemma refused_frames [simp]: "vq_refused ((frame_done ^^ n) d) = vq_refused d"
  by (induction n) simp_all

lemma enqueue_parts [simp]:
  "with_driver (video_enqueue ok b d) = (if ok then add_mset b (with_driver d) else with_driver d)"
  "vq_refused (video_enqueue ok b d) = (if ok then removeAll b (vq_refused d) else b # vq_refused d)"
  "vq_on (video_enqueue ok b d) = vq_on d" "vq_out (video_enqueue ok b d) = vq_out d" "vq_frames (video_enqueue ok b d) = vq_frames d"
  by (simp_all add: with_driver_def video_enqueue_def)

text \<open>
  The buffers the driver has or has refused, each once. Dequeueing one and offering it again, taken or
  not, keeps them.
\<close>

definition tidy :: "video_queues \<Rightarrow> bool" where
  "tidy d \<longleftrightarrow> (\<forall>b. count (with_driver d) b \<le> 1) \<and> set_mset (with_driver d) \<inter> set (vq_refused d) = {}"

definition accounted :: "video_queues \<Rightarrow> nat set" where
  "accounted d = set_mset (with_driver d) \<union> set (vq_refused d)"

definition keeps_buffers :: "video_queues \<Rightarrow> video_queues \<Rightarrow> bool" where
  "keeps_buffers d d' \<longleftrightarrow> tidy d' \<and> accounted d' = accounted d \<and> with_driver d' \<subseteq># with_driver d \<and> vq_on d' = vq_on d"

lemma keeps_refl: "tidy d \<Longrightarrow> keeps_buffers d d"
  by (simp add: keeps_buffers_def)

lemma keeps_trans: "keeps_buffers d d' \<Longrightarrow> keeps_buffers d' d'' \<Longrightarrow> keeps_buffers d d''"
  by (auto simp: keeps_buffers_def)

lemma keeps_frames: "tidy d \<Longrightarrow> keeps_buffers d ((frame_done ^^ n) d)"
  by (simp add: keeps_buffers_def tidy_def accounted_def)

lemma offered_again:
  assumes "tidy d" and "vq_out d = (b, k) # r"
  shows "keeps_buffers d (video_enqueue ok b (d\<lparr>vq_out := r\<rparr>))"
proof -
  have w: "with_driver d = add_mset b (with_driver (d\<lparr>vq_out := r\<rparr>))" using assms(2) by (simp add: with_driver_def)
  have "count (with_driver d) b \<le> 1" using assms(1) by (simp add: tidy_def)
  then have "b \<notin># with_driver (d\<lparr>vq_out := r\<rparr>)" unfolding w by (simp add: not_in_iff)
  moreover have "count (with_driver (d\<lparr>vq_out := r\<rparr>)) x \<le> 1" for x
  proof -
    have "count (with_driver (d\<lparr>vq_out := r\<rparr>)) x \<le> count (with_driver d) x" unfolding w by simp
    also have "\<dots> \<le> 1" using assms(1) by (simp add: tidy_def)
    finally show ?thesis .
  qed
  ultimately show ?thesis using assms(1) by (auto simp: keeps_buffers_def tidy_def accounted_def w)
qed

lemma requeue_rest: "tidy d \<Longrightarrow> keeps_buffers d (fold (video_enqueue True) (map fst (vq_out d)) (d\<lparr>vq_out := []\<rparr>))"
proof (induction "vq_out d" arbitrary: d)
  case Nil
  then show ?case by (cases d) (simp add: keeps_refl)
next
  case (Cons x r)
  define d' where "d' = video_enqueue True (fst x) (d\<lparr>vq_out := r\<rparr>)"
  have k: "keeps_buffers d d'" using offered_again [OF Cons.prems, of "fst x" "snd x" r True] Cons.hyps(2) by (simp add: d'_def)
  have "keeps_buffers d' (fold (video_enqueue True) (map fst (vq_out d')) (d'\<lparr>vq_out := []\<rparr>))"
    using Cons.hyps(1) [of d'] k by (simp add: d'_def keeps_buffers_def)
  moreover have "d'\<lparr>vq_out := []\<rparr> = video_enqueue True (fst x) (d\<lparr>vq_out := []\<rparr>)" by (simp add: d'_def video_enqueue_def)
  moreover have "vq_out d' = r" by (simp add: d'_def)
  ultimately show ?case using keeps_trans [OF k] by (simp add: Cons.hyps(2) [symmetric])
qed

lemma requeue_keeps: "tidy d \<Longrightarrow> keeps_buffers d (requeue_all again d)"
proof (induction again d rule: requeue_all.induct)
  case (1 d)
  then show ?case by (simp add: requeue_rest)
next
  case (2 ok n again d)
  show ?case
  proof (cases "vq_out d")
    case Nil
    with 2(2) show ?thesis by (simp add: keeps_refl)
  next
    case (Cons x r)
    define d' where "d' = (frame_done ^^ n) (video_enqueue ok (fst x) (d\<lparr>vq_out := r\<rparr>))"
    have k: "keeps_buffers d (video_enqueue ok (fst x) (d\<lparr>vq_out := r\<rparr>))"
      using offered_again [OF 2(2), of "fst x" "snd x" r ok] Cons by simp
    then have k': "keeps_buffers d d'" using keeps_trans [OF k keeps_frames] by (simp add: d'_def keeps_buffers_def)
    then have "keeps_buffers d' (requeue_all again d')" using 2(1) [OF Cons, of "fst x" "snd x"] by (simp add: d'_def keeps_buffers_def)
    from keeps_trans [OF k' this] show ?thesis by (cases x) (simp add: Cons d'_def)
  qed
qed








definition cam_inv :: "cam \<Rightarrow> bool" where
  "cam_inv s \<longleftrightarrow> length (cam_bufs s) = NBUF \<and> distinct (cam_owned s @ pool_released s) \<and>
     (\<forall>b \<in> set (cam_owned s) \<union> set (pool_released s). b < pool_next s) \<and>
     with_driver (cam_video s) + held_buffer s \<subseteq># mset (cam_owned s) \<and>
     set_mset (with_driver (cam_video s) + held_buffer s) \<inter> set (vq_refused (cam_video s)) = {} \<and>
     (vq_on (cam_video s) \<longrightarrow> set (cam_owned s) \<subseteq> accounted (cam_video s) \<union> set_mset (held_buffer s)) \<and>
     (cam_locked s \<longleftrightarrow> cam_held s \<noteq> None)"

lemma inv_fields [simp]:
  "cam_owned (s\<lparr>cam_video := d\<rparr>) = cam_owned s" "held_buffer (s\<lparr>cam_video := d\<rparr>) = held_buffer s"
  "cam_owned (s\<lparr>cam_held := h\<rparr>) = cam_owned s" "cam_owned (s\<lparr>cam_locked := l\<rparr>) = cam_owned s"
  "cam_owned (s\<lparr>cam_use_flash := f\<rparr>) = cam_owned s" "held_buffer (s\<lparr>cam_use_flash := f\<rparr>) = held_buffer s"
  "held_buffer (s\<lparr>cam_locked := l\<rparr>) = held_buffer s" "held_buffer (s\<lparr>cam_held := h\<rparr>) = (case h of None \<Rightarrow> {#} | Some b \<Rightarrow> {#b#})"
  "with_driver (d\<lparr>vq_on := b\<rparr>) = with_driver d" "accounted (d\<lparr>vq_on := b\<rparr>) = accounted d"
  by (simp_all add: cam_owned_def held_buffer_def with_driver_def accounted_def)

text \<open>The loop over the slots, with the first \<open>i\<close> done.\<close>

definition slot_ids :: "(nat \<times> nat) option list \<Rightarrow> nat list" where
  "slot_ids bufs = concat (map (\<lambda>x. case x of None \<Rightarrow> [] | Some (b, _) \<Rightarrow> [b]) bufs)"

lemma slot_ids_simps [simp]:
  "slot_ids [] = []" "slot_ids (None # xs) = slot_ids xs" "slot_ids (Some (b, n) # xs) = b # slot_ids xs" "slot_ids (xs @ ys) = slot_ids xs @ slot_ids ys"
  by (simp_all add: slot_ids_def)

lemma owned_slots: "cam_owned s = slot_ids (cam_bufs s)"
  by (simp add: cam_owned_def slot_ids_def)

definition placed :: "(nat \<times> nat) option list \<Rightarrow> (nat \<times> nat) option list \<Rightarrow> cam \<Rightarrow> bool" where
  "placed xs ys s \<longleftrightarrow> cam_bufs s = xs @ ys \<and> distinct (slot_ids xs @ slot_ids ys @ pool_released s) \<and>
     (\<forall>b \<in> set (slot_ids xs) \<union> set (slot_ids ys) \<union> set (pool_released s). b < pool_next s) \<and>
     with_driver (cam_video s) \<subseteq># mset (slot_ids xs) \<and> set_mset (with_driver (cam_video s)) \<inter> set (vq_refused (cam_video s)) = {} \<and>
     set (slot_ids xs) \<subseteq> accounted (cam_video s) \<and> \<not> vq_on (cam_video s) \<and> cam_held s = None \<and> \<not> cam_locked s"

lemma placed_kept:
  assumes "placed xs (Some (b, n) # ys) s"
  shows "placed (xs @ [Some (b, n)]) ys (s\<lparr>cam_video := video_enqueue ok b (cam_video s)\<rparr>)"
proof -
  have sub: "with_driver (cam_video s) \<subseteq># mset (slot_ids xs)" and new: "b \<notin> set (slot_ids xs)" using assms by (auto simp: placed_def)
  then have "b \<notin># with_driver (cam_video s)" by (auto dest: mset_subset_eqD)
  moreover have "with_driver (cam_video s) \<subseteq># add_mset b (mset (slot_ids xs))"
    using sub by (rule subset_mset.order_trans) simp
  ultimately show ?thesis using assms sub by (auto simp: placed_def accounted_def)
qed

lemma placed_new:
  assumes "placed xs (None # ys) s"
  shows "placed (xs @ [Some (pool_next s, n)]) ys
    (s\<lparr>cam_bufs := (cam_bufs s)[length xs := Some (pool_next s, n)], cam_video := video_enqueue ok (pool_next s) (cam_video s), pool_next := pool_next s + 1\<rparr>)"
proof -
  define t where "t = s\<lparr>cam_bufs := (cam_bufs s)[length xs := Some (pool_next s, n)], pool_next := pool_next s + 1\<rparr>"
  have "placed xs (Some (pool_next s, n) # ys) t"
    using assms by (auto simp: t_def placed_def intro: less_SucI)
  from placed_kept [OF this, of ok] show ?thesis by (cases s) (simp add: t_def)
qed

lemma place_loop:
  "placed xs ys s \<Longrightarrow> place_buffers need alloc enq [length xs..<length xs + length ys] s = (ok, s') \<Longrightarrow>
     \<exists>xs' ys'. placed xs' ys' s' \<and> length xs' + length ys' = length xs + length ys \<and> (ok \<longrightarrow> ys' = [])"
proof (induction ys arbitrary: xs s)
  case Nil
  then show ?case by auto
next
  case (Cons y ys)
  have slots: "[length xs..<length xs + length (y # ys)] = length xs # [length (xs @ [z])..<length (xs @ [z]) + length ys]" for z :: "(nat \<times> nat) option"
    using upt_conv_Cons [of "length xs" "length xs + length (y # ys)"] by (simp del: upt_Suc)
  have at: "cam_bufs s ! length xs = y" "(cam_bufs s)[length xs := z] = xs @ z # ys" for z using Cons.prems(1) by (simp_all add: placed_def)
  have step: ?case if "placed (xs @ [z]) ys t" "place_buffers need alloc enq [length (xs @ [z])..<length (xs @ [z]) + length ys] t = (ok, s')" for z t
    using Cons.IH [OF that] by auto
  have stop: ?case if "placed xs (None # ys) s'" "\<not> ok"
    using that by (intro exI [of _ xs] exI [of _ "None # ys"]) simp
  define u where "u = (case cam_bufs s ! length xs of Some (b, sz) \<Rightarrow> if sz < need then s\<lparr>cam_bufs := (cam_bufs s)[length xs := None], pool_released := b # pool_released s\<rparr> else s | None \<Rightarrow> s)"
  have unfold: "place_buffers need alloc enq [length xs..<length xs + length (y # ys)] s =
      (case cam_bufs u ! length xs of
         Some (b, _) \<Rightarrow> place_buffers need alloc enq [length (xs @ [None])..<length (xs @ [None]) + length ys] (u\<lparr>cam_video := video_enqueue (enq (length xs)) b (cam_video u)\<rparr>)
       | None \<Rightarrow>
           if alloc (length xs)
           then place_buffers need alloc enq [length (xs @ [None])..<length (xs @ [None]) + length ys]
                  (u\<lparr>cam_bufs := (cam_bufs u)[length xs := Some (pool_next u, need)], cam_video := video_enqueue (enq (length xs)) (pool_next u) (cam_video u),
                     pool_next := pool_next u + 1\<rparr>)
           else (False, u))"
    unfolding slots [of None] place_buffers.simps Let_def u_def ..
  show ?case
  proof (cases "cam_bufs u ! length xs")
    case None
    then have u: "placed xs (None # ys) u" using Cons.prems(1) at
      by (auto simp: u_def placed_def split: option.splits if_splits)
    show ?thesis
    proof (cases "alloc (length xs)")
      case False
      with None Cons.prems(2) have "s' = u" "\<not> ok" unfolding unfold by simp_all
      with u stop show ?thesis by simp
    next
      case True
      define t where "t = u\<lparr>cam_bufs := (cam_bufs u)[length xs := Some (pool_next u, need)], cam_video := video_enqueue (enq (length xs)) (pool_next u) (cam_video u), pool_next := pool_next u + 1\<rparr>"
      have "placed (xs @ [Some (pool_next u, need)]) ys t"
        unfolding t_def using u by (rule placed_new)
      moreover from True None Cons.prems(2) have "place_buffers need alloc enq [length (xs @ [Some (pool_next u, need)])..<length (xs @ [Some (pool_next u, need)]) + length ys] t = (ok, s')"
        unfolding unfold by (simp add: t_def)
      ultimately show ?thesis by (rule step)
    qed
  next
    case (Some p)
    then obtain b n where p: "p = (b, n)" by (cases p)
    have u: "u = s" "y = Some (b, n)" using Some p at Cons.prems(1)
      by (auto simp: u_def placed_def nth_append split: option.splits if_splits)
    define t where "t = s\<lparr>cam_video := video_enqueue (enq (length xs)) b (cam_video s)\<rparr>"
    have "placed (xs @ [y]) ys t" unfolding t_def u(2) using Cons.prems(1) [unfolded u(2)] by (rule placed_kept)
    moreover from Some Cons.prems(2) have "place_buffers need alloc enq [length (xs @ [y])..<length (xs @ [y]) + length ys] t = (ok, s')"
      unfolding unfold by (simp add: p t_def u(1))
    ultimately show ?thesis by (rule step)
  qed
qed

lemma place_inv:
  assumes "place_buffers need alloc enq [0..<NBUF] s = (ok, s')" and "cam_inv s" and "\<not> cam_locked s"
    and "with_driver (cam_video s) = {#}" and "\<not> vq_on (cam_video s)"
  shows "cam_inv s' \<and> \<not> cam_locked s' \<and> \<not> vq_on (cam_video s') \<and> (ok \<longrightarrow> set (cam_owned s') \<subseteq> accounted (cam_video s'))"
proof -
  have start: "placed [] (cam_bufs s) s" "length (cam_bufs s) = NBUF"
    using assms(2-5) by (simp_all add: placed_def cam_inv_def owned_slots)
  from place_loop [OF start(1), of need alloc enq ok s'] assms(1) start(2) obtain xs ys where
    p: "placed xs ys s'" "length xs + length ys = NBUF" "ok \<longrightarrow> ys = []" by auto
  have "with_driver (cam_video s') \<subseteq># mset (slot_ids xs) + mset (slot_ids ys)"
    using p(1) unfolding placed_def by (auto intro: subset_mset.order_trans)
  with p(1,2) have "cam_inv s'" by (auto simp: placed_def cam_inv_def owned_slots held_buffer_def)
  with p show ?thesis by (auto simp: placed_def owned_slots)
qed

lemma stopped_queue:
  assumes "ret = 0 \<or> \<not> vq_on d \<and> vq_in d = []"
  shows "with_driver ((video_stream_stop ret d)\<lparr>vq_out := []\<rparr>) = {#} \<and> \<not> vq_on ((video_stream_stop ret d)\<lparr>vq_out := []\<rparr>)"
  using assms by (auto simp: video_stream_stop_def with_driver_def)

lemma apply_inv:
  assumes "cam_inv s" and "\<not> cam_locked s" and "stop_works e s"
  shows "cam_inv (snd (snd (cam_apply e c s)))"
proof -
  define t where "t = s\<lparr>cam_video := (video_stream_stop (ae_stop e) (cam_video s))\<lparr>vq_out := []\<rparr>\<rparr>"
  have t: "cam_inv t" "\<not> cam_locked t" "with_driver (cam_video t) = {#}" "\<not> vq_on (cam_video t)"
    using assms(1,2) stopped_queue [OF assms(3) [unfolded stop_works_def]] by (simp_all add: t_def cam_inv_def held_buffer_def)
  obtain ok u where p: "place_buffers (ae_size e) (ae_alloc e) (ae_enq e) [0..<NBUF] t = (ok, u)" by fastforce
  from place_inv [OF p t] have u: "cam_inv u" "\<not> cam_locked u" "ok \<longrightarrow> set (cam_owned u) \<subseteq> accounted (cam_video u)" by simp_all
  have "cam_inv (u\<lparr>cam_use_flash := f, cam_video := (cam_video u)\<lparr>vq_on := b\<rparr>\<rparr>)" if ok for f b
    using u that by (auto simp: cam_inv_def held_buffer_def)
  with t(1) u(1) assms(1) show ?thesis by (auto simp: cam_apply_def Let_def t_def [symmetric] p split: bool.splits)
qed

lemma part_below: "A + B \<subseteq># C \<Longrightarrow> A \<subseteq># C"
  by (rule subset_mset.order_trans [OF mset_subset_eq_add_left])

text \<open>A frame or none: what the driver keeps, and what the caller then holds.\<close>

lemma inv_tidy:
  assumes "cam_inv s"
  shows "tidy (cam_video s)"
proof -
  have "with_driver (cam_video s) \<subseteq># mset (cam_owned s)" "distinct (cam_owned s)"
    using assms by (simp_all add: cam_inv_def part_below [of _ "held_buffer s"])
  then have "count (with_driver (cam_video s)) b \<le> 1" for b
    using mset_subset_eq_count [of "with_driver (cam_video s)" "mset (cam_owned s)" b] by (auto simp: distinct_count_atmost_1 split: if_splits)
  with assms show ?thesis by (auto simp: tidy_def cam_inv_def)
qed

lemma keeps_inv:
  assumes "cam_inv s" and "\<not> cam_locked s" and "keeps_buffers (cam_video s) d"
  shows "cam_inv (s\<lparr>cam_video := d\<rparr>)"
  using assms by (auto simp: cam_inv_def held_buffer_def keeps_buffers_def tidy_def intro: subset_mset.order_trans)

lemma hold_inv:
  assumes "cam_inv (s\<lparr>cam_video := d\<rparr>)" and "\<not> cam_locked s" and "vq_out d = (b, k) # r"
  shows "cam_inv (s\<lparr>cam_video := d\<lparr>vq_out := r\<rparr>, cam_held := Some b, cam_locked := True\<rparr>)"
proof -
  have w: "with_driver d = add_mset b (with_driver (d\<lparr>vq_out := r\<rparr>))" using assms(3) by (simp add: with_driver_def)
  have "cam_held s = None" using assms(1,2) by (simp add: cam_inv_def)
  with assms(1) show ?thesis by (auto simp: cam_inv_def held_buffer_def accounted_def w)
qed

lemma grab_inv:
  assumes "cam_inv s" and "\<not> cam_locked s"
  shows "cam_inv (snd (snd (grab e flash s)))"
proof -
  define d0 where "d0 = (if flash then (frame_done ^^ ge_settle e) (cam_video s) else cam_video s)"
  define d where "d = (frame_done ^^ ge_wait e) (requeue_all (ge_turns e) d0)"
  have k0: "keeps_buffers (cam_video s) d0" using inv_tidy [OF assms(1)] by (simp add: d0_def keeps_refl keeps_frames)
  then have k1: "keeps_buffers (cam_video s) (requeue_all (ge_turns e) d0)"
    by (rule keeps_trans) (rule requeue_keeps, use k0 in \<open>simp add: keeps_buffers_def\<close>)
  then have "keeps_buffers (cam_video s) d"
    unfolding d_def by (rule keeps_trans) (rule keeps_frames, use k1 in \<open>simp add: keeps_buffers_def\<close>)
  from keeps_inv [OF assms this] have i: "cam_inv (s\<lparr>cam_video := d\<rparr>)" .
  show ?thesis
  proof (cases "vq_out d")
    case Nil
    with assms(1) i show ?thesis by (simp add: grab_def Let_def d0_def [symmetric] d_def [symmetric])
  next
    case (Cons x r)
    with hold_inv [OF i assms(2), of "fst x" "snd x" r] assms(1) show ?thesis
      by (cases x) (simp add: grab_def Let_def d0_def [symmetric] d_def [symmetric])
  qed
qed

lemma release_inv:
  assumes "cam_inv s" and "cam_locked s"
  shows "cam_inv (cam_release ok s)"
proof -
  from assms obtain b where b: "cam_held s = Some b" by (auto simp: cam_inv_def)
  have i: "with_driver (cam_video s) + {#b#} \<subseteq># mset (cam_owned s)" "distinct (cam_owned s)" using assms(1) b by (auto simp: cam_inv_def held_buffer_def)
  then have "count (with_driver (cam_video s) + {#b#}) b \<le> 1"
    using mset_subset_eq_count [OF i(1), of b] by (auto simp: distinct_count_atmost_1 split: if_splits)
  then have "b \<notin># with_driver (cam_video s)" by (simp add: not_in_iff)
  moreover have "with_driver (cam_video s) \<subseteq># mset (cam_owned s)" using part_below [OF i(1)] .
  ultimately show ?thesis using assms(1) b by (auto simp: cam_release_def cam_inv_def held_buffer_def accounted_def)
qed

lemma frame_inv: "cam_inv s \<Longrightarrow> cam_inv (s\<lparr>cam_video := frame_done (cam_video s)\<rparr>)"
  by (simp add: cam_inv_def accounted_def)

lemma cam_reached_inv: "cam_reached s \<Longrightarrow> cam_inv s"
proof (induction rule: cam_reached.induct)
  case boot
  show ?case by (simp add: cam_boot_def cam_inv_def cam_owned_def held_buffer_def with_driver_def NBUF_def)
qed (simp_all add: cam_snapshot_def cam_frame_def apply_inv grab_inv release_inv frame_inv)







text \<open>
  What the discarded errors cost. When both buffers have been refused, no grab gives a frame again
  until a new configuration; and a stop that fails while the stream runs lets a new configuration
  give the driver buffers that it still has.
\<close>

lemma refused_buffers_end_frames:
  assumes "cam_reached s" and "\<not> cam_locked s" and "ge_ready g" and "set (cam_owned s) \<subseteq> set (vq_refused (cam_video s))"
  shows "\<exists>led s'. grab g flash s = (Inl (ge_ret g), led, s') \<and> with_driver (cam_video s') = {#}"
proof -
  have inv: "cam_inv s" using cam_reached_inv [OF assms(1)] .
  define d0 where "d0 = (if flash then (frame_done ^^ ge_settle g) (cam_video s) else cam_video s)"
  define d where "d = (frame_done ^^ ge_wait g) (requeue_all (ge_turns g) d0)"
  have "with_driver (cam_video s) + held_buffer s \<subseteq># mset (cam_owned s)" using inv by (simp add: cam_inv_def)
  from mset_subset_eqD [OF part_below [OF this]] have "set_mset (with_driver (cam_video s)) \<subseteq> set (cam_owned s)" by auto
  moreover have "set_mset (with_driver (cam_video s)) \<inter> set (vq_refused (cam_video s)) = {}" using inv_tidy [OF inv] by (simp add: tidy_def)
  ultimately have "set_mset (with_driver (cam_video s)) = {}" using assms(4) by blast
  then have "with_driver d0 = {#}" by (simp add: d0_def)
  moreover have "tidy d0" using keeps_frames [OF inv_tidy [OF inv]] inv_tidy [OF inv] by (simp add: d0_def keeps_buffers_def)
  ultimately have none: "with_driver d = {#}" using requeue_keeps [of d0 "ge_turns g"] by (simp add: d_def keeps_buffers_def)
  then have "vq_out d = []" by (simp add: with_driver_def)
  with assms(3) none show ?thesis by (simp add: grab_def Let_def d0_def [symmetric] d_def [symmetric])
qed

section \<open>Shell and start\<close>

text \<open>\<open>None\<close> where the text is refused; otherwise the address, 0 for DHCP.\<close>

definition shell_parse_ip :: "string \<Rightarrow> u32 option" where
  "shell_parse_ip v =
     (if v = ''dhcp'' \<or> v = ''0'' then Some 0
      else case http_parse_ipv4 (Some v) of Inr ip \<Rightarrow> Some ip | Inl _ \<Rightarrow> None)"

definition clamp_int :: "int \<Rightarrow> int \<Rightarrow> int \<Rightarrow> int" where
  "clamp_int v low high = (if v \<le> low then low else if v < high then v else high)"

definition trunc_div90 :: "int \<Rightarrow> int" where
  "trunc_div90 v = (if v < 0 then - ((- v) div 90) else v div 90)"

text \<open>The configuration a key and a text make of another, or nothing; \<open>strtol\<close> reads decimal numbers.\<close>

definition shell_field :: "(string \<Rightarrow> int) \<Rightarrow> string \<Rightarrow> string \<Rightarrow> cfg \<Rightarrow> cfg option" where
  "shell_field strtol key v c =
     (if key = ''name'' \<and> length v \<le> CFG_NAME_MAX then Some (c\<lparr>cf_name := v\<rparr>)
      else if key = ''token'' \<and> length v \<le> CFG_TOKEN_MAX then Some (c\<lparr>cf_token := v\<rparr>)
      else if key = ''password'' \<and> length v \<le> CFG_PASSWORD_MAX then Some (c\<lparr>cf_password := v\<rparr>)
      else if key = ''interval'' then Some (c\<lparr>cf_interval_s := nat (clamp_int (strtol v) 0 65535)\<rparr>)
      else if key = ''resolution'' \<and> 0 \<le> cfg_resolution_find v then Some (c\<lparr>cf_resolution := nat (cfg_resolution_find v)\<rparr>)
      else if key = ''quality'' then Some (c\<lparr>cf_quality := nat (clamp_int (strtol v) 0 255)\<rparr>)
      else if key = ''hflip'' then Some (c\<lparr>cf_hflip := (strtol v \<noteq> 0)\<rparr>)
      else if key = ''vflip'' then Some (c\<lparr>cf_vflip := (strtol v \<noteq> 0)\<rparr>)
      else if key = ''flash'' then Some (c\<lparr>cf_flash := (strtol v \<noteq> 0)\<rparr>)
      else if key = ''rotation'' \<and> 90 dvd strtol v then Some (c\<lparr>cf_rotation := nat (clamp_int (trunc_div90 (strtol v)) 0 255)\<rparr>)
      else if key = ''brightness'' then Some (c\<lparr>cf_brightness := clamp_int (strtol v) (- 128) 127\<rparr>)
      else if key = ''contrast'' then Some (c\<lparr>cf_contrast := clamp_int (strtol v) (- 128) 127\<rparr>)
      else if key = ''saturation'' then Some (c\<lparr>cf_saturation := clamp_int (strtol v) (- 128) 127\<rparr>)
      else if key = ''auto_exposure'' then Some (c\<lparr>cf_auto_exposure := (strtol v \<noteq> 0)\<rparr>)
      else if key = ''auto_wb'' then Some (c\<lparr>cf_auto_wb := (strtol v \<noteq> 0)\<rparr>)
      else if key = ''auto_gain'' then Some (c\<lparr>cf_auto_gain := (strtol v \<noteq> 0)\<rparr>)
      else if key = ''ip'' then map_option (\<lambda>a. c\<lparr>cf_ip := a\<rparr>) (shell_parse_ip v)
      else if key = ''netmask'' then map_option (\<lambda>a. c\<lparr>cf_netmask := a\<rparr>) (shell_parse_ip v)
      else if key = ''gateway'' then map_option (\<lambda>a. c\<lparr>cf_gateway := a\<rparr>) (shell_parse_ip v)
      else if key = ''dns'' then map_option (\<lambda>a. c\<lparr>cf_dns := a\<rparr>) (shell_parse_ip v)
      else None)"

definition prusa_cmd_set :: "(string \<Rightarrow> int) \<Rightarrow> int \<Rightarrow> string \<Rightarrow> string \<Rightarrow> cfg_state \<Rightarrow> int \<times> cfg_state \<times> bool" where
  "prusa_cmd_set strtol save_ret key v s =
     (case shell_field strtol key v (cfg_ram s) of None \<Rightarrow> (- EINVAL, s, False) | Some c \<Rightarrow> cfg_set save_ret c s)"

text \<open>After a save the camera is set up anew and the upload thread woken.\<close>

definition cfg_changed :: "apply_env \<Rightarrow> cfg_state \<Rightarrow> cam \<Rightarrow> connect \<Rightarrow> cam \<times> connect" where
  "cfg_changed e f s k = (snd (snd (cam_apply e (cfg_ram f) s)), connect_kick k)"

definition cam_check :: "bool \<Rightarrow> grab_env \<Rightarrow> cam \<Rightarrow> bool \<times> cam" where
  "cam_check ok g s = (case cam_frame g s of (Inl _, _, s) \<Rightarrow> (False, s) | (Inr _, _, s) \<Rightarrow> (True, cam_release ok s))"

text \<open>The work that starts the update client, once, on a confirmed image: whether it is \<open>started\<close>, and whether its handler is.\<close>

definition hawkbit_start_fn :: "bool \<Rightarrow> bool \<Rightarrow> int \<Rightarrow> bool \<Rightarrow> bool \<times> bool" where
  "hawkbit_start_fn enabled img_ok init_ret started =
     (if \<not> enabled \<or> started \<or> \<not> img_ok then (started, False)
      else if init_ret < 0 then (started, False) else (True, True))"

text \<open>A new address: whether the image is confirmed; the update client's work is submitted in any case.\<close>

definition ipv4_added :: "bool \<Rightarrow> bool" where
  "ipv4_added cam_ok = cam_ok"

datatype cam_start_step = Check_frame | Connect_init | Web_init | Watch_addresses | Wifi_init

text \<open>The start: the answers of its steps; the result, whether the camera gave a frame, and the steps taken.\<close>

record cam_start_env =
  ce_cfg :: int
  ce_cam :: int
  ce_frame :: bool
  ce_connect :: int
  ce_wifi :: int

definition camera_main :: "cam_start_env \<Rightarrow> int \<times> bool \<times> cam_start_step list" where
  "camera_main e =
     (if ce_cfg e < 0 then (ce_cfg e, False, [])
      else (let cam_ok = (0 \<le> ce_cam e \<and> ce_frame e); steps = (if ce_cam e < 0 then [] else [Check_frame])
            in if ce_connect e < 0 then (ce_connect e, cam_ok, steps @ [Connect_init])
               else (ce_wifi e, cam_ok, steps @ [Connect_init, Web_init, Watch_addresses, Wifi_init])))"

text \<open>The shell cannot store what the web page could not: an accepted value leaves a valid configuration.\<close>

lemma shell_set_valid:
  assumes "prusa_cmd_set strtol save_ret key v s = (0, s', changed)"
  shows "changed \<and> cfg_valid (cfg_ram s') \<and> shell_field strtol key v (cfg_ram s) = Some (cfg_ram s') \<and> cfg_flash s' = Some (Cfg_image (cfg_ram s'))"
  using assms by (auto simp: prusa_cmd_set_def cfg_set_def EINVAL_def split: option.splits if_splits)

text \<open>The image is confirmed only if the camera gave a frame, also when the address comes first.\<close>

lemma confirms_working_camera: "camera_main e = (ret, ok, steps) \<Longrightarrow> ipv4_added ok \<Longrightarrow> ce_frame e \<and> Check_frame \<in> set steps"
  by (auto simp: camera_main_def ipv4_added_def Let_def split: if_splits)

section \<open>A concrete grab\<close>

definition demo_apply :: "int \<Rightarrow> apply_env" where
  "demo_apply stop = \<lparr>ae_ready = True, ae_stop = stop, ae_format = 0, ae_size = 100, ae_alloc = (\<lambda>_. True), ae_enq = (\<lambda>_. True), ae_start = 0\<rparr>"


definition demo_streaming :: cam where
  "demo_streaming = snd (snd (cam_apply (demo_apply 0) (cfg_default ''cam'') cam_boot))"

lemma demo_streaming_value:
  "demo_streaming = \<lparr>cam_video = \<lparr>vq_in = [0, 1], vq_out = [], vq_on = True, vq_frames = 0, vq_refused = []\<rparr>, cam_bufs = [Some (0, 100), Some (1, 100)],
     cam_held = None, cam_use_flash = False, cam_locked = False, pool_next = 2, pool_released = []\<rparr>"
  by (simp add: demo_streaming_def cam_apply_def demo_apply_def cam_boot_def NBUF_def numeral_2_eq_2 video_stream_stop_def video_enqueue_def cfg_default_def)

lemma failed_stop_queues_twice:
  "vq_in (cam_video (snd (snd (cam_apply (demo_apply (- 5)) (cfg_default ''cam'') demo_streaming)))) = [0, 1, 0, 1]"
  by (simp add: demo_streaming_value cam_apply_def demo_apply_def NBUF_def numeral_2_eq_2 video_stream_stop_def video_enqueue_def)



end
