(* ===== verification/Frame_Capture.thy ===== *)
theory Frame_Capture
  imports App_Recovery
begin

text \<open>
  The camera of the data-collection application (\<open>data_collection/src/cam_mgmt.c\<close>): one captured
  frame is kept in its video buffer and served in pieces to a management client. Buffers are named
  by their address; the video subsystem's answers are inputs, with what its documentation promises
  of them in \<open>driver_lawful\<close>; CBOR is a parameter, whose decoding hands over the three numbers.
\<close>

section \<open>Formats\<close>

record video_format =
  vf_pixelformat :: u32
  vf_width :: u32
  vf_height :: u32
  vf_pitch :: u32

record video_format_cap =
  fc_pixelformat :: u32
  fc_width_max :: u32
  fc_height_max :: u32

definition CAPTURE_MAX_WIDTH :: u32 where [const_simps]: "CAPTURE_MAX_WIDTH = 1640"
definition CAPTURE_MAX_HEIGHT :: u32 where [const_simps]: "CAPTURE_MAX_HEIGHT = 1232"
definition CAM_MGMT_READ_MAX :: u32 where [const_simps]: "CAM_MGMT_READ_MAX = 1024"
definition CAPTURE_NBUFS :: nat where [const_simps]: "CAPTURE_NBUFS = 2"
definition CAPTURE_WDT_TIMEOUT_MS :: nat where [const_simps]: "CAPTURE_WDT_TIMEOUT_MS = 10000"
definition CAM_MGMT_GROUP_VERSION :: u32 where [const_simps]: "CAM_MGMT_GROUP_VERSION = 1"

text \<open>The loop over the capabilities before their terminator; \<open>bpp\<close> is \<open>video_bits_per_pixel\<close>.\<close>

fun pick_loop :: "(u32 \<Rightarrow> nat) \<Rightarrow> video_format_cap list \<Rightarrow> nat \<Rightarrow> video_format \<Rightarrow> nat \<times> video_format" where
  "pick_loop bpp [] best fmt = (best, fmt)"
| "pick_loop bpp (cap # caps) best fmt =
     (if bpp (fc_pixelformat cap) \<le> best then pick_loop bpp caps best fmt
      else pick_loop bpp caps (bpp (fc_pixelformat cap))
             (fmt\<lparr>vf_pixelformat := fc_pixelformat cap, vf_width := min (fc_width_max cap) CAPTURE_MAX_WIDTH,
                 vf_height := min (fc_height_max cap) CAPTURE_MAX_HEIGHT\<rparr>))"

text \<open>\<open>fmt\<close> is the uninitialised variable of the caller.\<close>

definition cam_pick_format :: "(u32 \<Rightarrow> nat) \<Rightarrow> int \<times> video_format_cap list \<Rightarrow> video_format \<Rightarrow> int + video_format" where
  "cam_pick_format bpp caps fmt =
     (case caps of (ret, caps) \<Rightarrow>
        if ret < 0 then Inl ret
        else
          (case pick_loop bpp (takeWhile (\<lambda>cap. fc_pixelformat cap \<noteq> 0) caps) 0 fmt of (best, fmt) \<Rightarrow>
             if best = 0 then Inl (- ENOTSUP) else Inr fmt))"

section \<open>Buffers\<close>

text \<open>
  The unit's variables, and which buffers are allocated and which are queued at the driver.
  \<open>double_free\<close> records a release of a buffer that is not allocated.
\<close>

record cam_store =
  frame_fmt :: video_format
  frame_vbuf :: "(nat \<times> bytes) option"
  frame_seq :: u32
  pool :: "nat list"
  queued :: "nat list"
  double_free :: bool

definition fmt_zero :: video_format where
  "fmt_zero = \<lparr>vf_pixelformat = 0, vf_width = 0, vf_height = 0, vf_pitch = 0\<rparr>"

definition cam_store_boot :: cam_store where
  "cam_store_boot = \<lparr>frame_fmt = fmt_zero, frame_vbuf = None, frame_seq = 0, pool = [], queued = [], double_free = False\<rparr>"

definition video_buffer_release :: "nat \<Rightarrow> cam_store \<Rightarrow> cam_store" where
  "video_buffer_release b s = s\<lparr>pool := remove1 b (pool s), double_free := double_free s \<or> b \<notin> set (pool s)\<rparr>"

record capture_env =
  ce_junk :: video_format
  ce_bpp :: "u32 \<Rightarrow> nat"
  ce_caps :: "int \<times> video_format_cap list"
  ce_set :: "video_format \<Rightarrow> int"
  ce_get :: "video_format \<Rightarrow> int \<times> video_format"
  ce_line :: u32
  ce_alloc :: "nat list \<Rightarrow> u32 \<Rightarrow> nat option"
  ce_enqueue :: "nat \<Rightarrow> int"
  ce_start :: int
  ce_dequeue :: "nat list \<Rightarrow> int \<times> nat \<times> bytes"
  ce_drain :: "nat list \<Rightarrow> nat option \<Rightarrow> nat list"
  ce_wdt :: int

text \<open>
  What is relied on: an allocated buffer was free, a dequeued buffer was queued and its length fits
  \<open>bytesused\<close>, and after a stop every queued buffer can be dequeued, once. A driver that hands back
  the buffer just dequeued is allowed, since the code guards against it.
\<close>

definition driver_lawful :: "capture_env \<Rightarrow> bool" where
  "driver_lawful E \<longleftrightarrow>
     (\<forall>p n b. ce_alloc E p n = Some b \<longrightarrow> b \<notin> set p) \<and>
     (\<forall>q ret b d. ce_dequeue E q = (ret, b, d) \<longrightarrow> 0 \<le> ret \<longrightarrow> b \<in> set q \<and> length d < 2 ^ 32) \<and>
     (\<forall>q k. distinct (ce_drain E q k) \<and> set q \<subseteq> set (ce_drain E q k) \<and>
        set (ce_drain E q k) \<subseteq> set q \<union> (case k of None \<Rightarrow> {} | Some b \<Rightarrow> {b}))"

definition round_up :: "u32 \<Rightarrow> u32 \<Rightarrow> u32" where
  "round_up x align = ((x + (align - 1)) div align) * align"

text \<open>The allocation loop: one iteration per element.\<close>

fun queue_loop :: "capture_env \<Rightarrow> video_format \<Rightarrow> nat list \<Rightarrow> cam_store \<Rightarrow> int \<times> cam_store" where
  "queue_loop E fmt [] s = (0, s)"
| "queue_loop E fmt (i # is) s =
     (case ce_alloc E (pool s) (round_up (vf_pitch fmt * vf_height fmt) (ce_line E)) of
        None \<Rightarrow> (- ENOMEM, s)
      | Some b \<Rightarrow>
          (let s = s\<lparr>pool := b # pool s\<rparr>; ret = ce_enqueue E i
           in if ret < 0 then (ret, video_buffer_release b s)
              else queue_loop E fmt is (s\<lparr>queued := queued s @ [b]\<rparr>)))"

text \<open>The part under the label \<open>drain\<close>, after the stream was stopped.\<close>

definition drain_one :: "nat \<Rightarrow> cam_store \<Rightarrow> cam_store" where
  "drain_one b s =
     (let s = s\<lparr>queued := removeAll b (queued s)\<rparr>
      in if frame_vbuf s \<noteq> None \<and> fst (the (frame_vbuf s)) = b then s else video_buffer_release b s)"

definition drain_all :: "capture_env \<Rightarrow> cam_store \<Rightarrow> cam_store" where
  "drain_all E s = fold drain_one (ce_drain E (queued s) (map_option fst (frame_vbuf s))) s"

definition capture_stream :: "capture_env \<Rightarrow> video_format \<Rightarrow> cam_store \<Rightarrow> int \<times> cam_store" where
  "capture_stream E fmt s =
     (case queue_loop E fmt [0..<CAPTURE_NBUFS] s of (ret, s) \<Rightarrow>
        if ret < 0 then (ret, s)
        else if ce_start E < 0 then (ce_start E, s)
        else (case ce_dequeue E (queued s) of
                (ret, b, d) \<Rightarrow>
                  if ret < 0 then (ret, s)
                  else (ret, s\<lparr>frame_vbuf := Some (b, d), frame_seq := frame_seq s + 1, queued := remove1 b (queued s)\<rparr>)))"

definition capture_locked :: "capture_env \<Rightarrow> cam_store \<Rightarrow> int \<times> cam_store" where
  "capture_locked E s =
     (let s = (case frame_vbuf s of None \<Rightarrow> s | Some (b, _) \<Rightarrow> (video_buffer_release b s)\<lparr>frame_vbuf := None\<rparr>)
      in case cam_pick_format (ce_bpp E) (ce_caps E) (ce_junk E) of
           Inl ret \<Rightarrow> (ret, s)
         | Inr fmt \<Rightarrow>
             if ce_set E fmt < 0 then (ce_set E fmt, s)
             else (case ce_get E fmt of
                     (ret, fmt) \<Rightarrow>
                       if ret < 0 then (ret, s)
                       else (case capture_stream E fmt (s\<lparr>frame_fmt := fmt\<rparr>) of (ret, s) \<Rightarrow> (ret, drain_all E s))))"

definition cam_mgmt_capture :: "capture_env \<Rightarrow> cam_store \<times> app_wdt \<Rightarrow> int \<times> cam_store \<times> app_wdt" where
  "cam_mgmt_capture E s =
     (case app_watchdog_register (ce_wdt E) ''capture'' CAPTURE_WDT_TIMEOUT_MS (snd s) of (ch, w) \<Rightarrow>
        (case capture_locked E (fst s) of (ret, s) \<Rightarrow> (ret, s, app_watchdog_unregister ch w)))"

section \<open>The management group\<close>

datatype mgmt_err = MGMT_ERR_EOK | MGMT_ERR_EUNKNOWN | MGMT_ERR_EINVAL | MGMT_ERR_ENOENT | MGMT_ERR_EMSGSIZE

text \<open>\<open>fits\<close> tells whether the encoder found room for the answer.\<close>

datatype cam_answer =
  Info_answer u32 string u32 u32 u32 bool
| Capture_answer u32 nat u32 u32 u32
| Read_answer u32 u32 bytes bool

definition mgmt_answer :: "bool \<Rightarrow> cam_answer \<Rightarrow> mgmt_err \<times> cam_answer option" where
  "mgmt_answer fits a = (if fits then (MGMT_ERR_EOK, Some a) else (MGMT_ERR_EMSGSIZE, None))"

definition cam_h_info :: "string \<Rightarrow> bool \<Rightarrow> bool \<Rightarrow> cam_store \<Rightarrow> mgmt_err \<times> cam_answer option" where
  "cam_h_info name ready fits s =
     mgmt_answer fits (Info_answer CAM_MGMT_GROUP_VERSION (take 32 name) (vf_pixelformat (frame_fmt s)) (vf_width (frame_fmt s))
                    (vf_height (frame_fmt s)) ready)"

text \<open>The two critical sections of CAPTURE, between which another capture may come.\<close>

definition cam_h_capture :: "capture_env \<Rightarrow> cam_store \<times> app_wdt \<Rightarrow> mgmt_err option \<times> cam_store \<times> app_wdt" where
  "cam_h_capture E s =
     (case cam_mgmt_capture E s of (ret, s) \<Rightarrow> (if ret < 0 then Some MGMT_ERR_EUNKNOWN else None, s))"

definition cam_h_capture_report :: "bool \<Rightarrow> cam_store \<Rightarrow> mgmt_err \<times> cam_answer option" where
  "cam_h_capture_report fits s =
     (case frame_vbuf s of None \<Rightarrow> (MGMT_ERR_ENOENT, None)
      | Some (_, d) \<Rightarrow> mgmt_answer fits (Capture_answer (frame_seq s) (length d) (vf_width (frame_fmt s))
                                    (vf_height (frame_fmt s)) (vf_pixelformat (frame_fmt s))))"

definition read_limit :: "u32 \<Rightarrow> u32" where
  "read_limit want = (if want = 0 \<or> want > CAM_MGMT_READ_MAX then CAM_MGMT_READ_MAX else want)"

text \<open>The offset answered, the bytes and whether they are the last.\<close>

definition read_at :: "bytes \<Rightarrow> u32 \<Rightarrow> u32 \<Rightarrow> u32 \<times> bytes \<times> bool" where
  "read_at buffer off want =
     (let bytesused = of_nat (length buffer);
          off = min off bytesused;
          want = min want (bytesused - off)
      in (off, take (unat want) (drop (unat off) buffer), off + want \<ge> bytesused))"

text \<open>\<open>dk\<close> holds the decoded \<open>seq\<close>, \<open>off\<close> and \<open>len\<close>, where given; \<open>None\<close> is a failed decoding.\<close>

definition cam_h_read ::
  "(u32 option \<times> u32 option \<times> u32 option) option \<Rightarrow> bool \<Rightarrow> cam_store \<Rightarrow> mgmt_err \<times> cam_answer option" where
  "cam_h_read dk fits s =
     (case dk of None \<Rightarrow> (MGMT_ERR_EINVAL, None)
      | Some (dseq, doff, dlen) \<Rightarrow>
          (let seq = (case dseq of None \<Rightarrow> 0 | Some x \<Rightarrow> x);
               off = (case doff of None \<Rightarrow> 0 | Some x \<Rightarrow> x);
               want = read_limit (case dlen of None \<Rightarrow> CAM_MGMT_READ_MAX | Some x \<Rightarrow> x)
           in case frame_vbuf s of None \<Rightarrow> (MGMT_ERR_ENOENT, None)
              | Some (_, d) \<Rightarrow>
                  if seq \<noteq> frame_seq s then (MGMT_ERR_ENOENT, None)
                  else (case read_at d off want of (off, data, eof) \<Rightarrow> mgmt_answer fits (Read_answer seq off data eof))))"

section \<open>Where the buffers are\<close>

definition kept_buffers :: "cam_store \<Rightarrow> nat set" where
  "kept_buffers s = (case frame_vbuf s of None \<Rightarrow> {} | Some (b, _) \<Rightarrow> {b})"

definition buffers_ok :: "cam_store \<Rightarrow> bool" where
  "buffers_ok s \<longleftrightarrow> distinct (pool s) \<and> distinct (queued s) \<and> \<not> double_free s \<and>
     set (pool s) = set (queued s) \<union> kept_buffers s \<and> kept_buffers s \<inter> set (queued s) = {}"

text \<open>At rest only the kept frame is allocated, and nothing is queued.\<close>

definition at_rest :: "cam_store \<Rightarrow> bool" where
  "at_rest s \<longleftrightarrow> buffers_ok s \<and> queued s = []"

lemma at_rest_pool: "at_rest s \<longleftrightarrow> queued s = [] \<and> \<not> double_free s \<and>
    pool s = (case frame_vbuf s of None \<Rightarrow> [] | Some (b, _) \<Rightarrow> [b])"
proof -
  have one: "distinct xs \<and> set xs = {b} \<longleftrightarrow> xs = [b]" for xs and b :: nat
  proof
    assume xs: "distinct xs \<and> set xs = {b}"
    then obtain x ys where "xs = x # ys" by (cases xs) auto
    with xs show "xs = [b]" by (cases ys) auto
  qed simp
  show ?thesis
  proof (cases "frame_vbuf s")
    case None
    then show ?thesis by (cases "queued s = []") (auto simp: at_rest_def buffers_ok_def kept_buffers_def)
  next
    case (Some f)
    then obtain b d where f: "frame_vbuf s = Some (b, d)" by (cases f) auto
    then have k: "kept_buffers s = {b}" by (simp add: kept_buffers_def)
    have "at_rest s \<longleftrightarrow> queued s = [] \<and> \<not> double_free s \<and> (distinct (pool s) \<and> set (pool s) = {b})"
      unfolding at_rest_def buffers_ok_def k by (cases "queued s = []") (simp_all add: conj_ac)
    then show ?thesis unfolding one by (simp add: f)
  qed
qed

lemma queue_loop_ok:
  assumes "driver_lawful E" and "buffers_ok s" and "queue_loop E fmt is s = (ret, t)"
  shows "buffers_ok t" "frame_vbuf t = frame_vbuf s" "frame_seq t = frame_seq s" "frame_fmt t = frame_fmt s"
    "length (pool t) \<le> length (pool s) + length is"
proof -
  have "buffers_ok t \<and> frame_vbuf t = frame_vbuf s \<and> frame_seq t = frame_seq s \<and> frame_fmt t = frame_fmt s \<and>
      length (pool t) \<le> length (pool s) + length is"
    using assms(2,3)
  proof (induction "is" arbitrary: s)
    case (Cons i js)
    show ?case
    proof (cases "ce_alloc E (pool s) (round_up (vf_pitch fmt * vf_height fmt) (ce_line E))")
      case None
      with Cons.prems show ?thesis by auto
    next
      case (Some b)
      have new: "b \<notin> set (pool s)" using assms(1) Some by (simp add: driver_lawful_def)
      show ?thesis
      proof (cases "ce_enqueue E i < 0")
        case True
        have "video_buffer_release b (s\<lparr>pool := b # pool s\<rparr>) = s" by (simp add: video_buffer_release_def)
        with True Some Cons.prems have "t = s" by (simp add: Let_def)
        with Cons.prems(1) show ?thesis by simp
      next
        case False
        let ?u = "s\<lparr>pool := b # pool s, queued := queued s @ [b]\<rparr>"
        have "buffers_ok ?u" using Cons.prems(1) new by (auto simp: buffers_ok_def kept_buffers_def split: option.splits)
        moreover have "queue_loop E fmt js ?u = (ret, t)" using Some False Cons.prems(2) by (simp add: Let_def)
        ultimately show ?thesis using Cons.IH [of ?u] by auto
      qed
    qed
  qed auto
  then show "buffers_ok t" "frame_vbuf t = frame_vbuf s" "frame_seq t = frame_seq s" "frame_fmt t = frame_fmt s"
    "length (pool t) \<le> length (pool s) + length is" by simp_all
qed

lemma drain_one_ok:
  "buffers_ok s \<Longrightarrow> b \<in> set (queued s) \<union> kept_buffers s \<Longrightarrow> buffers_ok (drain_one b s) \<and>
     set (queued (drain_one b s)) = set (queued s) - {b} \<and> frame_vbuf (drain_one b s) = frame_vbuf s \<and>
     frame_seq (drain_one b s) = frame_seq s"
proof -
  assume ok: "buffers_ok s" and b: "b \<in> set (queued s) \<union> kept_buffers s"
  have one: "drain_one b s = (if b \<in> kept_buffers s then s\<lparr>queued := removeAll b (queued s)\<rparr>
      else video_buffer_release b (s\<lparr>queued := removeAll b (queued s)\<rparr>))"
    by (auto simp: drain_one_def Let_def kept_buffers_def split: option.splits)
  show ?thesis
  proof (cases "b \<in> kept_buffers s")
    case True
    then have "b \<notin> set (queued s)" using ok unfolding buffers_ok_def by blast
    then have "drain_one b s = s" using True by (simp add: one)
    with ok \<open>b \<notin> set (queued s)\<close> show ?thesis by simp
  next
    case False
    then have d: "drain_one b s = s\<lparr>queued := removeAll b (queued s), pool := remove1 b (pool s), double_free := double_free s \<or> b \<notin> set (pool s)\<rparr>"
      by (simp add: one video_buffer_release_def)
    have k: "kept_buffers (s\<lparr>queued := q, pool := p, double_free := f\<rparr>) = kept_buffers s" for q p f by (simp add: kept_buffers_def)
    have "b \<in> set (pool s)" using b False ok unfolding buffers_ok_def by blast
    with ok False show ?thesis unfolding d buffers_ok_def k by (simp add: distinct_removeAll) blast
  qed
qed

lemma drain_fold_ok:
  "buffers_ok s \<Longrightarrow> distinct ds \<Longrightarrow> set (queued s) \<subseteq> set ds \<Longrightarrow> set ds \<subseteq> set (queued s) \<union> kept_buffers s \<Longrightarrow>
     at_rest (fold drain_one ds s) \<and> frame_vbuf (fold drain_one ds s) = frame_vbuf s \<and>
     frame_seq (fold drain_one ds s) = frame_seq s"
proof (induction ds arbitrary: s)
  case (Cons b ds)
  then have one: "buffers_ok (drain_one b s)" "set (queued (drain_one b s)) = set (queued s) - {b}"
      "frame_vbuf (drain_one b s) = frame_vbuf s" "frame_seq (drain_one b s) = frame_seq s"
    using drain_one_ok [of s b] by auto
  then have "kept_buffers (drain_one b s) = kept_buffers s" by (simp add: kept_buffers_def)
  with one Cons show ?case by fastforce
qed (simp add: at_rest_def)

lemma drain_all_ok:
  assumes "driver_lawful E" and "buffers_ok s"
  shows "at_rest (drain_all E s) \<and> frame_vbuf (drain_all E s) = frame_vbuf s \<and> frame_seq (drain_all E s) = frame_seq s"
  unfolding drain_all_def
proof (rule drain_fold_ok [OF assms(2)])
  let ?ds = "ce_drain E (queued s) (map_option fst (frame_vbuf s))"
  have "(case map_option fst (frame_vbuf s) of None \<Rightarrow> {} | Some b \<Rightarrow> {b}) = kept_buffers s"
    by (auto simp: kept_buffers_def split: option.splits)
  with assms(1) show "distinct ?ds" "set (queued s) \<subseteq> set ?ds" "set ?ds \<subseteq> set (queued s) \<union> kept_buffers s"
    unfolding driver_lawful_def by metis+
qed

lemma capture_stream_ok:
  assumes "driver_lawful E" and "buffers_ok s" and "frame_vbuf s = None" and "capture_stream E fmt s = (ret, t)"
  shows "buffers_ok t \<and> (if ret < 0 then frame_vbuf t = None \<and> frame_seq t = frame_seq s
     else \<exists>b d. frame_vbuf t = Some (b, d) \<and> frame_seq t = frame_seq s + 1 \<and> length d < 2 ^ 32)"
proof -
  obtain ret1 u where u: "queue_loop E fmt [0..<CAPTURE_NBUFS] s = (ret1, u)" by fastforce
  note q = queue_loop_ok [OF assms(1,2) u]
  obtain ret2 b d where deq: "ce_dequeue E (queued u) = (ret2, b, d)" by (metis prod_cases3)
  show ?thesis
  proof (cases "ret1 < 0 \<or> ce_start E < 0 \<or> ret2 < 0")
    case True
    with assms(4) u deq have "t = u" "ret < 0" by (auto simp: capture_stream_def split: if_splits)
    with assms(3) q show ?thesis by simp
  next
    case False
    then have t: "t = u\<lparr>frame_vbuf := Some (b, d), frame_seq := frame_seq u + 1, queued := remove1 b (queued u)\<rparr>" "ret = ret2"
      using assms(4) u deq by (auto simp: capture_stream_def)
    have "b \<in> set (queued u)" "length d < 2 ^ 32" using assms(1) deq False unfolding driver_lawful_def by fastforce+
    with q assms(3) False show ?thesis by (auto simp: t buffers_ok_def kept_buffers_def)
  qed
qed

text \<open>A capture, whatever fails in it.\<close>

lemma capture_locked_ok:
  assumes "driver_lawful E" and "at_rest s" and "capture_locked E s = (ret, t)"
  shows "at_rest t \<and> (if ret < 0 then frame_vbuf t = None \<and> frame_seq t = frame_seq s
     else \<exists>b d. frame_vbuf t = Some (b, d) \<and> frame_seq t = frame_seq s + 1 \<and> length d < 2 ^ 32)"
proof -
  define s1 where "s1 = (case frame_vbuf s of None \<Rightarrow> s | Some (b, _) \<Rightarrow> (video_buffer_release b s)\<lparr>frame_vbuf := None\<rparr>)"
  have s1: "at_rest s1" "frame_vbuf s1 = None" "frame_seq s1 = frame_seq s"
    using assms(2) by (auto simp: s1_def at_rest_pool video_buffer_release_def split: option.splits)
  show ?thesis
  proof (cases "cam_pick_format (ce_bpp E) (ce_caps E) (ce_junk E)")
    case (Inl r)
    have "r < 0" using Inl by (auto simp: cam_pick_format_def ENOTSUP_def split: prod.splits if_splits)
    with Inl assms(3) s1 show ?thesis by (auto simp: capture_locked_def Let_def s1_def [symmetric])
  next
    case (Inr fmt)
    obtain r f where get: "ce_get E fmt = (r, f)" by fastforce
    obtain ret' u where u: "capture_stream E f (s1\<lparr>frame_fmt := f\<rparr>) = (ret', u)" by fastforce
    have ok: "buffers_ok (s1\<lparr>frame_fmt := f\<rparr>)" using s1(1) by (auto simp: at_rest_def buffers_ok_def kept_buffers_def)
    show ?thesis
    proof (cases "ce_set E fmt < 0 \<or> r < 0")
      case True
      with Inr get assms(3) have "t = s1" "ret < 0"
        by (auto simp: capture_locked_def Let_def s1_def [symmetric] split: if_splits)
      with s1 show ?thesis by simp
    next
      case False
      then have "t = drain_all E u" "ret = ret'"
        using Inr get u assms(3) by (auto simp: capture_locked_def Let_def s1_def [symmetric])
      with capture_stream_ok [OF assms(1) ok _ u] s1 drain_all_ok [OF assms(1), of u] show ?thesis by auto
    qed
  qed
qed


text \<open>A capture never has more than its two buffers allocated: the kept frame is released first.\<close>

lemma capture_needs_two:
  assumes "driver_lawful E" and "at_rest s" and "frame_vbuf s = None"
  shows "length (pool (snd (queue_loop E fmt [0..<CAPTURE_NBUFS] s))) \<le> CAPTURE_NBUFS"
proof -
  obtain ret t where t: "queue_loop E fmt [0..<CAPTURE_NBUFS] s = (ret, t)" by fastforce
  have "buffers_ok s" "pool s = []" using assms(2,3) at_rest_pool [of s] by (simp_all add: at_rest_def)
  with queue_loop_ok(5) [OF assms(1) _ t] show ?thesis by (simp add: t)
qed

section \<open>Captures and clients in any order\<close>

datatype frame_event =
  Capture capture_env
| Report bool
| Info string bool bool
| Read "(u32 option \<times> u32 option \<times> u32 option) option" bool

datatype frame_out = Captured bytes | Lost int | Answered mgmt_err "cam_answer option"

fun frame_step :: "frame_event \<Rightarrow> cam_store \<times> app_wdt \<Rightarrow> frame_out list \<times> cam_store \<times> app_wdt" where
  "frame_step (Capture E) s =
     (case cam_mgmt_capture E s of (ret, s) \<Rightarrow>
        ([case frame_vbuf (fst s) of None \<Rightarrow> Lost ret | Some (_, d) \<Rightarrow> if ret < 0 then Lost ret else Captured d], s))"
| "frame_step (Report fits) s = (case cam_h_capture_report fits (fst s) of (err, a) \<Rightarrow> ([Answered err a], s))"
| "frame_step (Info name ready fits) s = (case cam_h_info name ready fits (fst s) of (err, a) \<Rightarrow> ([Answered err a], s))"
| "frame_step (Read dk fits) s = (case cam_h_read dk fits (fst s) of (err, a) \<Rightarrow> ([Answered err a], s))"

fun captures :: "frame_out list \<Rightarrow> bytes list" where
  "captures [] = []"
| "captures (Captured d # outs) = d # captures outs"
| "captures (out # outs) = captures outs"

lemma captures_append [simp]: "captures (a @ b) = captures a @ captures b"
  by (induction a rule: captures.induct) auto

text \<open>The drivers of a run are lawful, and the watchdog hands out channels that are free.\<close>

definition lawful_events :: "app_wdt \<Rightarrow> frame_event list \<Rightarrow> bool" where
  "lawful_events w es \<longleftrightarrow> (\<forall>E. Capture E \<in> set es \<longrightarrow> driver_lawful E \<and> wdt_channels w (ce_wdt E) = None)"

text \<open>What a chunk of frame number \<open>seq\<close> is.\<close>

definition chunk_of :: "bytes list \<Rightarrow> u32 \<Rightarrow> u32 \<Rightarrow> bytes \<Rightarrow> bool \<Rightarrow> bool" where
  "chunk_of fs seq off data eof \<longleftrightarrow> 1 \<le> unat seq \<and> unat seq \<le> length fs \<and>
     (let f = fs ! (unat seq - 1)
      in length f < 2 ^ 32 \<and> unat off \<le> length f \<and> data = take (length data) (drop (unat off) f) \<and>
         length data \<le> length f - unat off \<and> (eof \<longleftrightarrow> unat off + length data = length f) \<and> (data = [] \<longrightarrow> eof))"

lemma chunk_of_append: "chunk_of fs seq off data eof \<Longrightarrow> chunk_of (fs @ gs) seq off data eof"
  by (auto simp: chunk_of_def nth_append Let_def)

definition frame_inv :: "app_wdt \<Rightarrow> bytes list \<Rightarrow> cam_store \<times> app_wdt \<Rightarrow> bool" where
  "frame_inv w fs s \<longleftrightarrow> snd s = w \<and> at_rest (fst s) \<and> frame_seq (fst s) = of_nat (length fs) \<and>
     (\<forall>b d. frame_vbuf (fst s) = Some (b, d) \<longrightarrow> fs \<noteq> [] \<and> last fs = d \<and> length d < 2 ^ 32)"

lemma capture_step:
  assumes "frame_inv w fs s" and "driver_lawful E" and "wdt_channels w (ce_wdt E) = None" and "frame_step (Capture E) s = (outs, t)"
  shows "frame_inv w (fs @ captures outs) t" and "\<forall>err a. Answered err a \<notin> set outs"
proof -
  obtain st wd where s: "s = (st, wd)" by (cases s)
  obtain ret st' where c: "capture_locked E st = (ret, st')" by fastforce
  obtain ch w' where r: "app_watchdog_register (ce_wdt E) ''capture'' CAPTURE_WDT_TIMEOUT_MS wd = (ch, w')" by fastforce
  have wd: "wd = w" "at_rest st" "frame_seq st = of_nat (length fs)" using assms(1) by (simp_all add: s frame_inv_def)
  have "app_watchdog_unregister ch w' = w" using register_unregister [OF r] assms(3) wd(1) by simp
  with c r have m: "cam_mgmt_capture E s = (ret, st', w)" by (simp add: s cam_mgmt_capture_def)
  note ok = capture_locked_ok [OF assms(2) wd(2) c]
  show "frame_inv w (fs @ captures outs) t"
  proof (cases "ret < 0")
    case True
    with ok m assms(4) wd(3) show ?thesis by (auto simp: frame_inv_def)
  next
    case False
    with ok m assms(4) wd(3) show ?thesis by (auto simp: frame_inv_def)
  qed
  show "\<forall>err a. Answered err a \<notin> set outs" using m assms(4) by (auto split: option.splits if_splits)
qed

lemma read_limit_pos: "0 < unat (read_limit w)"
  by (auto simp: read_limit_def CAM_MGMT_READ_MAX_def unat_gt_0)

lemma read_chunk:
  assumes "frame_inv w fs s" and "length fs < 2 ^ 32"
    and "cam_h_read dk fits (fst s) = (err, Some (Read_answer seq off data eof))"
  shows "chunk_of fs seq off data eof"
proof -
  from assms(3) obtain dseq doff dlen b d where dk: "dk = Some (dseq, doff, dlen)" "frame_vbuf (fst s) = Some (b, d)"
    by (auto simp: cam_h_read_def Let_def mgmt_answer_def split: option.splits if_splits)
  obtain off0 want1 where at: "read_at d off0 want1 = (off, data, eof)" "0 < unat want1" "seq = frame_seq (fst s)"
    using assms(3) read_limit_pos
    by (auto simp: dk cam_h_read_def Let_def mgmt_answer_def split: if_splits prod.splits)
  define n :: u32 where "n = of_nat (length d)"
  define o1 where "o1 = min off0 n"
  define want where "want = min want1 (n - o1)"
  have r: "seq = frame_seq (fst s)" "off = o1" "data = take (unat want) (drop (unat o1) d)" "eof \<longleftrightarrow> o1 + want \<ge> n"
    using at by (auto simp: read_at_def Let_def n_def o1_def want_def)
  have inv: "frame_seq (fst s) = of_nat (length fs)" "fs \<noteq> []" "last fs = d" "length d < 2 ^ 32"
    using assms(1) dk(2) by (auto simp: frame_inv_def)
  have n: "unat n = length d" using inv(4) by (simp add: n_def unat_of_nat)
  have seq: "unat seq = length fs" using assms(2) r(1) inv(1) by (simp add: unat_of_nat)
  have o1: "unat o1 \<le> length d" unfolding o1_def n [symmetric] by (simp add: min_def word_le_nat_alt)
  then have rest: "unat (n - o1) = length d - unat o1" by (simp add: unat_sub word_le_nat_alt n)
  then have want: "unat want \<le> length d - unat o1" unfolding want_def by (metis min.cobounded2 word_le_nat_alt)
  then have len: "length data = unat want" by (simp add: r(3))
  have sum: "unat (o1 + want) = unat o1 + unat want"
    using want o1 inv(4) by (simp add: unat_word_ariths)
  have some: "Suc 0 \<le> length fs" using inv(2) by (simp add: Suc_le_eq)
  have "unat want = 0 \<Longrightarrow> unat o1 = length d"
    using at(2) rest o1 unfolding want_def by (auto simp: min_def split: if_splits)
  have f: "fs ! (unat seq - 1) = d" using seq inv(2,3) by (simp add: last_conv_nth)
  have "data = take (length data) (drop (unat off) d)" using r(2,3) len by simp
  moreover have eof: "eof \<longleftrightarrow> unat off + length data = length d"
    using r(2,4) sum n len want o1 by (auto simp: word_le_nat_alt)
  moreover have "eof" if "data = []"
  proof -
    from that len have "unat want = 0" by simp
    with \<open>unat want = 0 \<Longrightarrow> unat o1 = length d\<close> len r(2) eof show ?thesis by simp
  qed
  ultimately show ?thesis
    unfolding chunk_of_def f Let_def using some seq inv(4) o1 r(2) want len by simp
qed


lemma frame_run_inv:
  assumes "lawful_events w es" and "length (captures (fst (mealy_run frame_step es (cam_store_boot, w)))) < 2 ^ 32"
  shows "frame_inv w (captures (fst (mealy_run frame_step es (cam_store_boot, w)))) (snd (mealy_run frame_step es (cam_store_boot, w)))"
    and "\<forall>err seq off data eof. Answered err (Some (Read_answer seq off data eof)) \<in> set (fst (mealy_run frame_step es (cam_store_boot, w))) \<longrightarrow>
      chunk_of (captures (fst (mealy_run frame_step es (cam_store_boot, w)))) seq off data eof"
proof -
  let ?r = "\<lambda>es. mealy_run frame_step es (cam_store_boot, w)"
  have "frame_inv w (captures (fst (?r es))) (snd (?r es)) \<and>
      (\<forall>err seq off data eof. Answered err (Some (Read_answer seq off data eof)) \<in> set (fst (?r es)) \<longrightarrow>
        chunk_of (captures (fst (?r es))) seq off data eof)"
    using assms
  proof (induction es rule: rev_induct)
    case Nil
    show ?case by (simp add: frame_inv_def at_rest_pool cam_store_boot_def)
  next
    case (snoc e es)
    let ?fs = "captures (fst (?r es))" and ?s = "snd (?r es)"
    obtain outs t where st: "frame_step e ?s = (outs, t)" by (cases "frame_step e ?s")
    have run: "?r (es @ [e]) = (fst (?r es) @ outs, t)" by (simp add: mealy_run_append st)
    have few: "length ?fs < 2 ^ 32" and "lawful_events w es" using snoc.prems by (auto simp: run lawful_events_def)
    with snoc.IH have IH: "frame_inv w ?fs ?s" "\<And>err seq off data eof.
        Answered err (Some (Read_answer seq off data eof)) \<in> set (fst (?r es)) \<Longrightarrow> chunk_of ?fs seq off data eof" by auto
    show ?case
    proof (cases e)
      case (Capture E)
      have "driver_lawful E" "wdt_channels w (ce_wdt E) = None" using snoc.prems(1) Capture by (auto simp: lawful_events_def)
      from capture_step [OF IH(1) this st [unfolded Capture]] IH(2) show ?thesis
        unfolding run by (auto intro: chunk_of_append)
    next
      case (Read dk fits)
      then obtain err a where a: "cam_h_read dk fits (fst ?s) = (err, a)" "outs = [Answered err a]" "t = ?s"
        using st by (auto split: prod.splits)
      with IH read_chunk [OF IH(1) few] show ?thesis unfolding run by auto
    next
      case (Report fits)
      then show ?thesis using st IH unfolding run
        by (auto simp: cam_h_capture_report_def mgmt_answer_def split: option.splits if_splits)
    next
      case (Info name ready fits)
      then show ?thesis using st IH unfolding run by (auto simp: cam_h_info_def mgmt_answer_def split: if_splits)
    qed
  qed
  then show "frame_inv w (captures (fst (?r es))) (snd (?r es))"
    and "\<forall>err seq off data eof. Answered err (Some (Read_answer seq off data eof)) \<in> set (fst (?r es)) \<longrightarrow>
      chunk_of (captures (fst (?r es))) seq off data eof" by blast+
qed

text \<open>
  C34. No capture leaks or loses a buffer, whatever fails in it. Over any sequence of captures (by the
  boot, by clients), reports and reads, with every call of the video subsystem free to fail:
  afterwards the only buffer allocated is that of the frame kept, if there is one, none is left at
  the driver, none was ever released twice, and the watchdog has the channels it had.
\<close>

theorem captures_leak_nothing:
  assumes "lawful_events w es" and "mealy_run frame_step es (cam_store_boot, w) = (outs, s, w')"
    and "length (captures outs) < 2 ^ 32"
  shows "pool s = (case frame_vbuf s of None \<Rightarrow> [] | Some (b, d) \<Rightarrow> [b]) \<and> queued s = [] \<and> \<not> double_free s \<and> w' = w"
  using frame_run_inv(1) [OF assms(1)] assms(2,3) by (simp add: frame_inv_def at_rest_pool)

text \<open>A client that pages through a frame: each piece begins where the one before it ended.\<close>

fun pulled :: "nat \<Rightarrow> (u32 \<times> bytes \<times> bool) list \<Rightarrow> bool" where
  "pulled at [] \<longleftrightarrow> False"
| "pulled at ((off, data, eof) # pieces) \<longleftrightarrow>
     unat off = at \<and> (if pieces = [] then eof else pulled (at + length data) pieces)"

lemma pulled_frame:
  assumes "pulled at pieces" and "at \<le> length f"
    and "\<forall>(off, data, eof) \<in> set pieces. chunk_of fs seq off data eof" and "f = fs ! (unat seq - 1)"
  shows "concat (map (\<lambda>(off, data, eof). data) pieces) = drop at f"
  using assms(1-3)
proof (induction pieces arbitrary: at)
  case (Cons p pieces)
  obtain off data eof where p: "p = (off, data, eof)" by (metis prod_cases3)
  have c: "data = take (length data) (drop at f)" "length data \<le> length f - at" "eof \<longleftrightarrow> at + length data = length f" "unat off = at"
    using Cons.prems(1,3) assms(4) by (auto simp: p chunk_of_def Let_def)
  show ?case
  proof (cases "pieces = []")
    case True
    with Cons.prems(1) c have "length data = length (drop at f)" by (simp add: p)
    with c(1) True show ?thesis by (simp add: p)
  next
    case False
    with Cons.IH [of "at + length data"] Cons.prems c have
      "concat (map (\<lambda>(off, data, eof). data) pieces) = drop (at + length data) f" by (simp add: p)
    with c(1) show ?thesis by (simp add: p) (metis append_take_drop_id drop_drop add.commute)
  qed
qed simp

text \<open>
  C35. A frame pulled in pieces is that frame, never a mixture. Whatever captures and other requests
  come between its reads, if a client's answers for one sequence number run from offset 0 without
  a gap to an end of file, the bytes put together are exactly the frame captured under that number;
  and a piece that is not the last is never empty, so paging ends.
\<close>

theorem frame_pull_exact:
  assumes "lawful_events w es" and "fst (mealy_run frame_step es (cam_store_boot, w)) = outs"
    and "length (captures outs) < 2 ^ 32" and "pulled 0 pieces"
    and "\<forall>(off, data, eof) \<in> set pieces. Answered MGMT_ERR_EOK (Some (Read_answer seq off data eof)) \<in> set outs"
  shows "1 \<le> unat seq \<and> unat seq \<le> length (captures outs) \<and>
    concat (map (\<lambda>(off, data, eof). data) pieces) = captures outs ! (unat seq - 1) \<and>
    (\<forall>(off, data, eof) \<in> set pieces. eof \<or> data \<noteq> [])"
proof -
  have chunks: "\<forall>(off, data, eof) \<in> set pieces. chunk_of (captures outs) seq off data eof"
    using frame_run_inv(2) [OF assms(1)] assms(2,3,5) by fastforce
  have "pieces \<noteq> []" using assms(4) by auto
  then obtain off data eof where "(off, data, eof) \<in> set pieces" by (metis list.set_intros(1) neq_Nil_conv prod_cases3)
  with chunks have "chunk_of (captures outs) seq off data eof" by auto
  moreover have "concat (map (\<lambda>(off, data, eof). data) pieces) = captures outs ! (unat seq - 1)"
    using pulled_frame [OF assms(4) _ chunks refl] by simp
  moreover have "\<forall>(off, data, eof) \<in> set pieces. eof \<or> data \<noteq> []"
    using chunks by (auto simp: chunk_of_def Let_def)
  ultimately show ?thesis unfolding chunk_of_def by blast
qed

text \<open>The format: the first of the deepest, within the ceiling.\<close>

lemma pick_loop_deepest:
  "pick_loop bpp caps best fmt = (d, f) \<Longrightarrow> best \<le> d \<and> (\<forall>cap \<in> set caps. bpp (fc_pixelformat cap) \<le> d) \<and>
     (d = best \<and> f = fmt \<or> (\<exists>cap \<in> set caps. bpp (fc_pixelformat cap) = d \<and> vf_pixelformat f = fc_pixelformat cap \<and>
        vf_width f = min (fc_width_max cap) CAPTURE_MAX_WIDTH \<and> vf_height f = min (fc_height_max cap) CAPTURE_MAX_HEIGHT))"
proof (induction bpp caps best fmt rule: pick_loop.induct)
  case (2 bpp cap caps best fmt)
  show ?case
  proof (cases "bpp (fc_pixelformat cap) \<le> best")
    case True
    with 2 show ?thesis by auto
  next
    case False
    with "2.IH"(2) "2.prems" show ?thesis by auto
  qed
qed auto

section \<open>A concrete camera\<close>

definition demo_camera :: "bytes \<Rightarrow> int \<Rightarrow> capture_env" where
  "demo_camera frame start =
     \<lparr>ce_junk = fmt_zero, ce_bpp = (\<lambda>p. 8), ce_caps = (0, [\<lparr>fc_pixelformat = 7, fc_width_max = 4000, fc_height_max = 300\<rparr>]),
      ce_set = (\<lambda>f. 0), ce_get = (\<lambda>f. (0, f)), ce_line = 32, ce_alloc = (\<lambda>p n. Some (Suc (sum_list p))), ce_enqueue = (\<lambda>i. 0),
      ce_start = start, ce_dequeue = (\<lambda>q. if q = [] then (- 11, 0, []) else (0, hd q, frame)),
      ce_drain = (\<lambda>q k. remdups q), ce_wdt = 0\<rparr>"

lemma demo_camera_lawful: "length frame < 2 ^ 32 \<Longrightarrow> driver_lawful (demo_camera frame start)"
proof -
  have "b \<in> set p \<Longrightarrow> b \<le> sum_list p" for b :: nat and p by (induction p) auto
  then have "Suc (sum_list p) \<notin> set p" for p by (metis Suc_n_not_le_n)
  then show "length frame < 2 ^ 32 \<Longrightarrow> driver_lawful (demo_camera frame start)"
    by (auto simp: driver_lawful_def demo_camera_def split: if_splits)
qed

definition demo_frame_events :: "frame_event list" where
  "demo_frame_events = [Capture (demo_camera [1, 2, 3] 0), Read (Some (Some 1, None, Some 2)) True,
     Read (Some (Some 1, Some 2, Some 2)) True, Capture (demo_camera [9] (- 5)), Read (Some (Some 1, Some 2, Some 2)) True]"

lemma demo_frame_lawful: "lawful_events wdt_off demo_frame_events"
  by (auto simp: lawful_events_def demo_frame_events_def wdt_off_def demo_camera_def [of _ _, THEN arg_cong, of ce_wdt]
      intro: demo_camera_lawful)

text \<open>For the evaluation, one that runs each step once.\<close>

lemma mealy_run_once [code]:
  "mealy_run step [] s = ([], s)"
  "mealy_run step (e # es) s = (case step e s of (out, t) \<Rightarrow> (case mealy_run step es t of (outs, u) \<Rightarrow> (out @ outs, u)))"
  by (simp_all split: prod.splits)

lemma demo_frame_run:
  "fst (mealy_run frame_step demo_frame_events (cam_store_boot, wdt_off)) =
     [Captured [1, 2, 3], Answered MGMT_ERR_EOK (Some (Read_answer 1 0 [1, 2] False)),
      Answered MGMT_ERR_EOK (Some (Read_answer 1 2 [3] True)), Lost (- 5), Answered MGMT_ERR_ENOENT None]"
  by code_simp

theorem captures_leak_nothing_witness:
  "pool (fst (snd (mealy_run frame_step demo_frame_events (cam_store_boot, wdt_off)))) =
     (case frame_vbuf (fst (snd (mealy_run frame_step demo_frame_events (cam_store_boot, wdt_off)))) of
        None \<Rightarrow> [] | Some (b, d) \<Rightarrow> [b])"
proof -
  obtain outs s w' where r: "mealy_run frame_step demo_frame_events (cam_store_boot, wdt_off) = (outs, s, w')"
    by (metis prod_cases3)
  then have "length (captures outs) < 2 ^ 32" using demo_frame_run by simp
  from captures_leak_nothing [OF demo_frame_lawful r this] show ?thesis by (simp add: r)
qed

theorem frame_pull_exact_witness:
  "captures (fst (mealy_run frame_step demo_frame_events (cam_store_boot, wdt_off))) ! 0 = [1, 2, 3]"
  using frame_pull_exact [OF demo_frame_lawful demo_frame_run, of "[(0, [1, 2], False), (2, [3], True)]" 1]
  by (simp add: demo_frame_run)

end
