(* ===== verification/Bt_Keys.thy ===== *)
theory Bt_Keys
  imports Prelude
begin

text \<open>
  The Bluetooth keypad (\<open>applications/bt_keys\<close>): the scan loop and its reports (\<open>main.c\<close>), the
  key bindings (\<open>keys.c\<close>) and the bytes of the two transports (\<open>hog.c\<close>, \<open>usb_hid.c\<close>). The port
  reads and the answers of settings and drivers are inputs; a report is what is handed to the
  transports.
\<close>

section \<open>Bindings\<close>

definition BT_KEYS_NUM_KEYS :: nat where [const_simps]: "BT_KEYS_NUM_KEYS = 4"
definition HID_KEYBOARD_KEYS :: nat where [const_simps]: "HID_KEYBOARD_KEYS = 6"
definition REPORT_ID_KEYBOARD :: u8 where [const_simps]: "REPORT_ID_KEYBOARD = 1"
definition REPORT_ID_CONSUMER :: u8 where [const_simps]: "REPORT_ID_CONSUMER = 2"

datatype bt_keys_type = BT_KEYS_TYPE_KEYBOARD | BT_KEYS_TYPE_CONSUMER

text \<open>The type is stored as a byte; every value but 0 and 1 is neither.\<close>

definition type_byte :: "bt_keys_type \<Rightarrow> u8" where
  "type_byte t = (case t of BT_KEYS_TYPE_KEYBOARD \<Rightarrow> 0 | BT_KEYS_TYPE_CONSUMER \<Rightarrow> 1)"

record bt_keys_binding =
  kb_type :: u8
  kb_usage :: u16

definition bt_keys_map :: "bt_keys_binding list" where
  "bt_keys_map = [\<lparr>kb_type = 1, kb_usage = 0x00B6\<rparr>, \<lparr>kb_type = 1, kb_usage = 0x00CD\<rparr>, \<lparr>kb_type = 1, kb_usage = 0x00B5\<rparr>,
     \<lparr>kb_type = 1, kb_usage = 0x00E2\<rparr>]"

text \<open>A stored image of the right size, or one of another.\<close>

definition keys_settings_set :: "string \<Rightarrow> bt_keys_binding list option \<Rightarrow> int \<Rightarrow> bt_keys_binding list \<Rightarrow> int \<times> bt_keys_binding list" where
  "keys_settings_set name stored rc bindings =
     (if name = ''map''
      then (case stored of None \<Rightarrow> (- EINVAL, bindings)
            | Some blob \<Rightarrow> if rc < 0 then (rc, bindings) else (0, blob))
      else (- ENOENT, bindings))"

definition bt_keys_set :: "nat \<Rightarrow> bt_keys_type \<Rightarrow> u16 \<Rightarrow> int \<Rightarrow> bt_keys_binding list \<Rightarrow> int \<times> bt_keys_binding list" where
  "bt_keys_set index t usage save_ret bindings =
     (if index \<ge> BT_KEYS_NUM_KEYS then (- EINVAL, bindings)
      else (save_ret, bindings[index := \<lparr>kb_type = type_byte t, kb_usage = usage\<rparr>]))"

text \<open>The shell command; the two numbers are what \<open>strtoul\<close> makes of their arguments.\<close>

definition cmd_keys_set :: "nat \<Rightarrow> string \<Rightarrow> nat \<Rightarrow> int \<Rightarrow> bt_keys_binding list \<Rightarrow> int \<times> bt_keys_binding list" where
  "cmd_keys_set index kind usage save_ret bindings =
     (if kind \<noteq> ''keyboard'' \<and> kind \<noteq> ''kbd'' \<and> kind \<noteq> ''consumer'' \<and> kind \<noteq> ''cons'' then (- EINVAL, bindings)
      else if index \<ge> BT_KEYS_NUM_KEYS \<or> usage > 0xFFFF then (- EINVAL, bindings)
      else bt_keys_set index (if kind = ''keyboard'' \<or> kind = ''kbd'' then BT_KEYS_TYPE_KEYBOARD else BT_KEYS_TYPE_CONSUMER)
             (of_nat usage) save_ret bindings)"

section \<open>Reports\<close>

datatype hid_report = Keyboard "u8 list" | Consumer u16

text \<open>The bytes of a report on either transport.\<close>

definition hog_notify :: "hid_report \<Rightarrow> u8 \<times> bytes" where
  "hog_notify r = (case r of Keyboard keycodes \<Rightarrow> (REPORT_ID_KEYBOARD, [0, 0] @ keycodes)
                    | Consumer usage \<Rightarrow> (REPORT_ID_CONSUMER, le16 usage))"

definition usb_hid_notify :: "bool \<Rightarrow> hid_report \<Rightarrow> bytes option" where
  "usb_hid_notify hid_ready r =
     (if \<not> hid_ready then None
      else Some (case r of Keyboard keycodes \<Rightarrow> [REPORT_ID_KEYBOARD, 0, 0] @ keycodes
                 | Consumer usage \<Rightarrow> REPORT_ID_CONSUMER # le16 usage))"

record bt_report =
  prev_kbd :: "u8 list"
  prev_consumer :: u16
  bt_prev_mask :: u32
  active_consumer_key :: "nat option"

definition bt_report_boot :: bt_report where
  "bt_report_boot = \<lparr>prev_kbd = replicate HID_KEYBOARD_KEYS 0, prev_consumer = 0, bt_prev_mask = 0, active_consumer_key = None\<rparr>"

definition is_consumer :: "bt_keys_binding list \<Rightarrow> nat \<Rightarrow> bool" where
  "is_consumer bindings i \<longleftrightarrow> kb_type (bindings ! i) = type_byte BT_KEYS_TYPE_CONSUMER"

definition is_keyboard :: "bt_keys_binding list \<Rightarrow> nat \<Rightarrow> bool" where
  "is_keyboard bindings i \<longleftrightarrow> kb_type (bindings ! i) = type_byte BT_KEYS_TYPE_KEYBOARD"

text \<open>The consumer key reported: a newly pressed one, else the one so far, else the first held.\<close>

definition choose_consumer :: "bt_keys_binding list \<Rightarrow> u32 \<Rightarrow> u32 \<Rightarrow> nat option \<Rightarrow> nat option" where
  "choose_consumer bindings pressed_mask prev active =
     (let active = (case active of Some i \<Rightarrow> if bit pressed_mask i then Some i else None | None \<Rightarrow> None);
          active = fold (\<lambda>i active. if bit pressed_mask i \<and> \<not> bit prev i \<and> is_consumer bindings i then Some i else active)
                     [0..<BT_KEYS_NUM_KEYS] active
      in if active = None then find (\<lambda>i. bit pressed_mask i \<and> is_consumer bindings i) [0..<BT_KEYS_NUM_KEYS] else active)"

definition keyboard_codes :: "bt_keys_binding list \<Rightarrow> u32 \<Rightarrow> u8 list" where
  "keyboard_codes bindings pressed_mask =
     snd (fold (\<lambda>i (idx, kbd). if bit pressed_mask i \<and> is_keyboard bindings i \<and> idx < HID_KEYBOARD_KEYS
                               then (idx + 1, kbd[idx := ucast (kb_usage (bindings ! i))]) else (idx, kbd))
            [0..<BT_KEYS_NUM_KEYS] (0, replicate HID_KEYBOARD_KEYS 0))"

definition bt_report_keys :: "bt_keys_binding list \<Rightarrow> u32 \<Rightarrow> bt_report \<Rightarrow> hid_report list \<times> bt_report" where
  "bt_report_keys bindings pressed_mask s =
     (let active = choose_consumer bindings pressed_mask (bt_prev_mask s) (active_consumer_key s);
          consumer = (case active of None \<Rightarrow> 0 | Some i \<Rightarrow> kb_usage (bindings ! i));
          kbd = keyboard_codes bindings pressed_mask
      in ((if kbd \<noteq> prev_kbd s then [Keyboard kbd] else []) @ (if consumer \<noteq> prev_consumer s then [Consumer consumer] else []),
          \<lparr>prev_kbd = kbd, prev_consumer = consumer, bt_prev_mask = pressed_mask, active_consumer_key = active\<rparr>))"

section \<open>The scan loop\<close>

definition bt_key_pin :: "nat list" where "bt_key_pin = [4, 5, 6, 7]"

text \<open>The port's value, or the error of the read.\<close>

definition keypad_scan :: "int + u32 \<Rightarrow> int + u32" where
  "keypad_scan raw =
     (case raw of Inl err \<Rightarrow> Inl err
      | Inr raw \<Rightarrow> Inr (fold (\<lambda>i pressed. if \<not> bit raw (bt_key_pin ! i) then pressed OR push_bit i 1 else pressed)
                          [0..<BT_KEYS_NUM_KEYS] 0))"

record bt_led_rgb =
  lr_r :: u8
  lr_g :: u8
  lr_b :: u8

definition bt_key_lit :: bt_led_rgb where "bt_key_lit = \<lparr>lr_r = 0, lr_g = 24, lr_b = 24\<rparr>"
definition bt_key_off :: bt_led_rgb where "bt_key_off = \<lparr>lr_r = 0, lr_g = 0, lr_b = 0\<rparr>"

definition bt_leds_update :: "u32 \<Rightarrow> bt_led_rgb list" where
  "bt_leds_update pressed_mask = map (\<lambda>i. if bit pressed_mask i then bt_key_lit else bt_key_off) [0..<BT_KEYS_NUM_KEYS]"

record bt_keys =
  bk_map :: "bt_keys_binding list"
  bk_report :: bt_report
  bk_mask :: u32
  bk_leds :: "bt_led_rgb list"

definition bt_keys_boot :: "bt_keys_binding list \<Rightarrow> bt_keys" where
  "bt_keys_boot bindings = \<lparr>bk_map = bindings, bk_report = bt_report_boot, bk_mask = 0, bk_leds = bt_leds_update 0\<rparr>"

definition scan_pass :: "int + u32 \<Rightarrow> bt_keys \<Rightarrow> hid_report list \<times> bt_keys" where
  "scan_pass raw s =
     (case keypad_scan raw of Inl err \<Rightarrow> ([], s)
      | Inr pressed \<Rightarrow>
          if pressed = bk_mask s then ([], s)
          else (case bt_report_keys (bk_map s) pressed (bk_report s) of (out, rep) \<Rightarrow>
                  (out, s\<lparr>bk_report := rep, bk_leds := bt_leds_update pressed, bk_mask := pressed\<rparr>)))"

text \<open>Pins configured one after the other; the start ends with the first failure.\<close>

fun pins_configure :: "int list \<Rightarrow> int" where
  "pins_configure [] = 0"
| "pins_configure (err # errs) = (if err \<noteq> 0 then err else pins_configure errs)"

definition keypad_init :: "bool \<Rightarrow> int list \<Rightarrow> int" where
  "keypad_init ready errs = (if \<not> ready then - ENODEV else pins_configure errs)"

text \<open>Whether the start reaches the scan loop.\<close>

definition bt_keys_start :: "bool \<Rightarrow> int list \<Rightarrow> bool \<Rightarrow> int option \<Rightarrow> int \<Rightarrow> bool" where
  "bt_keys_start keypad_ready pin_errs strip_ready usb_init bt_enable \<longleftrightarrow>
     keypad_init keypad_ready pin_errs = 0 \<and> strip_ready \<and> (case usb_init of None \<Rightarrow> True | Some err \<Rightarrow> err = 0) \<and> bt_enable = 0"

section \<open>Passes and remappings\<close>

datatype bt_event = Scan "int + u32" | Remap nat string nat int | Reload string "bt_keys_binding list option" int

fun bt_step :: "bt_event \<Rightarrow> bt_keys \<Rightarrow> hid_report list \<times> bt_keys" where
  "bt_step (Scan raw) s = scan_pass raw s"
| "bt_step (Remap index kind usage save_ret) s = ([], s\<lparr>bk_map := snd (cmd_keys_set index kind usage save_ret (bk_map s))\<rparr>)"
| "bt_step (Reload name stored rc) s = ([], s\<lparr>bk_map := snd (keys_settings_set name stored rc (bk_map s))\<rparr>)"

text \<open>What a host that receives the reports takes to be held.\<close>

fun host_sees :: "hid_report list \<Rightarrow> u8 list \<times> u16 \<Rightarrow> u8 list \<times> u16" where
  "host_sees [] h = h"
| "host_sees (Keyboard k # outs) h = host_sees outs (k, snd h)"
| "host_sees (Consumer u # outs) h = host_sees outs (fst h, u)"

abbreviation bt_run :: "bt_event list \<Rightarrow> bt_keys_binding list \<Rightarrow> hid_report list \<times> bt_keys" where
  "bt_run es bindings \<equiv> mealy_run bt_step es (bt_keys_boot bindings)"

definition bt_host_view :: "bt_event list \<Rightarrow> bt_keys_binding list \<Rightarrow> u8 list \<times> u16" where
  "bt_host_view es bindings = host_sees (fst (bt_run es bindings)) (replicate HID_KEYBOARD_KEYS 0, 0)"

lemma host_sees_append: "host_sees (a @ b) h = host_sees b (host_sees a h)"
  by (induction a h rule: host_sees.induct) auto

lemma bt_run_snoc: "bt_run (es @ [e]) m = (fst (bt_run es m) @ fst (bt_step e (snd (bt_run es m))), snd (bt_step e (snd (bt_run es m))))"
  by (simp add: mealy_run_append)

lemma bt_report_seen:
  "bt_report_keys m p s = (out, s') \<Longrightarrow> host_sees out (prev_kbd s, prev_consumer s) = (prev_kbd s', prev_consumer s') \<and>
     prev_kbd s' = keyboard_codes m p \<and> bt_prev_mask s' = p \<and>
     active_consumer_key s' = choose_consumer m p (bt_prev_mask s) (active_consumer_key s) \<and>
     prev_consumer s' = (case active_consumer_key s' of None \<Rightarrow> 0 | Some i \<Rightarrow> kb_usage (m ! i))"
  by (auto simp: bt_report_keys_def Let_def)

text \<open>The host always has the last reports, and the loop's mask is the reports' mask.\<close>

lemma view_invariant:
  "bt_host_view es m = (prev_kbd (bk_report (snd (bt_run es m))), prev_consumer (bk_report (snd (bt_run es m)))) \<and>
     bt_prev_mask (bk_report (snd (bt_run es m))) = bk_mask (snd (bt_run es m))"
proof (induction es rule: rev_induct)
  case Nil
  show ?case by (simp add: bt_host_view_def bt_keys_boot_def bt_report_boot_def)
next
  case (snoc e es)
  let ?s = "snd (bt_run es m)"
  have view: "bt_host_view (es @ [e]) m = host_sees (fst (bt_step e ?s)) (bt_host_view es m)"
    by (simp add: bt_host_view_def bt_run_snoc host_sees_append)
  show ?case
  proof (cases "\<exists>raw p. e = Scan raw \<and> keypad_scan raw = Inr p \<and> p \<noteq> bk_mask ?s")
    case False
    then have "fst (bt_step e ?s) = []" "bk_report (snd (bt_step e ?s)) = bk_report ?s" "bk_mask (snd (bt_step e ?s)) = bk_mask ?s"
      by (cases e; auto simp: scan_pass_def split: sum.splits)+
    with snoc show ?thesis unfolding view bt_run_snoc by simp
  next
    case True
    then obtain raw p where e: "e = Scan raw" "keypad_scan raw = Inr p" "p \<noteq> bk_mask ?s" by blast
    obtain out rep where r: "bt_report_keys (bk_map ?s) p (bk_report ?s) = (out, rep)" by fastforce
    with e bt_report_seen [OF r] snoc show ?thesis unfolding view bt_run_snoc by (simp add: scan_pass_def)
  qed
qed

section \<open>What the host sees\<close>

lemma fold_newest:
  "fold (\<lambda>i a. if P i then Some i else a) xs a = (if \<exists>i \<in> set xs. P i then Some (last (filter P xs)) else a)"
  by (induction xs arbitrary: a) (auto simp: filter_empty_conv)

lemma newly_last: "\<exists>i \<in> set xs. P i \<Longrightarrow> last (filter P xs) \<in> set xs \<and> P (last (filter P xs))"
proof -
  assume "\<exists>i \<in> set xs. P i"
  then have "filter P xs \<noteq> []" by (auto simp: filter_empty_conv)
  from last_in_set [OF this] show ?thesis by simp
qed

text \<open>The consumer key chosen is held; it is a newly pressed one where there is one, and none only if none is held.\<close>

lemma choose_consumer_held:
  assumes "choose_consumer m p prev act = a"
  shows "a = Some i \<Longrightarrow> bit p i" and "a = None \<Longrightarrow> i < 4 \<Longrightarrow> \<not> (bit p i \<and> is_consumer m i)"
    and "i < 4 \<Longrightarrow> bit p i \<Longrightarrow> \<not> bit prev i \<Longrightarrow> is_consumer m i \<Longrightarrow>
      \<exists>j < 4. a = Some j \<and> bit p j \<and> \<not> bit prev j \<and> is_consumer m j"
    and "(\<forall>j. act = Some j \<longrightarrow> bit p j \<longrightarrow> j < 4 \<and> is_consumer m j) \<Longrightarrow> a = Some i \<Longrightarrow> i < 4 \<and> is_consumer m i"
proof -
  let ?P = "\<lambda>i. bit p i \<and> \<not> bit prev i \<and> is_consumer m i" and ?xs = "[0..<BT_KEYS_NUM_KEYS]"
  define a1 where "a1 = (case act of Some i \<Rightarrow> if bit p i then Some i else None | None \<Rightarrow> None)"
  have n: "set ?xs = {..<4}" by (auto simp: BT_KEYS_NUM_KEYS_def)
  have a: "a = (if \<exists>i < 4. ?P i then Some (last (filter ?P ?xs))
      else if a1 = None then find (\<lambda>i. bit p i \<and> is_consumer m i) ?xs else a1)"
    using assms fold_newest [of ?P ?xs a1] unfolding choose_consumer_def Let_def a1_def [symmetric] n by auto
  define l where "l = last (filter ?P ?xs)"
  have newly: "\<exists>i < 4. ?P i \<Longrightarrow> l < 4 \<and> ?P l" using newly_last [of ?xs ?P] unfolding n l_def by auto
  define E where "E \<longleftrightarrow> (\<exists>i < 4. ?P i)"
  note a = a [folded l_def E_def] and newly = newly [folded E_def]
  note found = find_Some_iff [of "\<lambda>i. bit p i \<and> is_consumer m i" ?xs]
  have none: "find (\<lambda>i. bit p i \<and> is_consumer m i) ?xs = None \<longleftrightarrow> (\<forall>i < 4. \<not> (bit p i \<and> is_consumer m i))"
    unfolding find_None_iff n by auto
  have some: "find (\<lambda>i. bit p i \<and> is_consumer m i) ?xs = Some i \<Longrightarrow> i < 4 \<and> bit p i \<and> is_consumer m i" for i
    unfolding found by (auto simp: BT_KEYS_NUM_KEYS_def)
  have held: "a1 = Some i \<Longrightarrow> bit p i \<and> act = Some i" for i by (auto simp: a1_def split: option.splits if_splits)
  consider (new) E "a = Some l" | (kept) j where "\<not> E" "a = Some j" "a1 = Some j"
    | (first) "\<not> E" "a = find (\<lambda>i. bit p i \<and> is_consumer m i) ?xs"
  proof (cases E)
    case True
    with a that(1) show ?thesis by simp
  next
    case False
    show ?thesis
    proof (cases a1)
      case None
      with False a that(3) show ?thesis by simp
    next
      case (Some j)
      with False a that(2) [of j] show ?thesis by simp
    qed
  qed
  note cases = this
  show "bit p i" if "a = Some i"
    using cases
  proof cases
    case new
    with that newly show ?thesis by simp
  next
    case (kept j)
    with that held show ?thesis by simp
  next
    case first
    with that have "find (\<lambda>i. bit p i \<and> is_consumer m i) ?xs = Some i" by (simp only:)
    then show ?thesis using some by blast
  qed
  show "\<not> (bit p i \<and> is_consumer m i)" if "a = None" "i < 4"
    using cases
  proof cases
    case first
    with that(1) have "find (\<lambda>i. bit p i \<and> is_consumer m i) ?xs = None" by (simp only:)
    with none that(2) show ?thesis by blast
  qed (use that(1) in simp_all)
  show "\<exists>j < 4. a = Some j \<and> bit p j \<and> \<not> bit prev j \<and> is_consumer m j"
    if "i < 4" "bit p i" "\<not> bit prev i" "is_consumer m i"
    using cases
  proof cases
    case new
    with newly show ?thesis by (intro exI [of _ l]) simp
  qed (use that E_def in blast)+
  show "i < 4 \<and> is_consumer m i" if act: "\<forall>j. act = Some j \<longrightarrow> bit p j \<longrightarrow> j < 4 \<and> is_consumer m j" and "a = Some i"
    using cases
  proof cases
    case new
    with that newly show ?thesis by simp
  next
    case (kept j)
    with that held show ?thesis by simp
  next
    case first
    with that have "find (\<lambda>i. bit p i \<and> is_consumer m i) ?xs = Some i" by (simp only:)
    then show ?thesis using some by blast
  qed
qed

text \<open>The codes of the held keyboard keys, in the order of the keys, padded with zeros.\<close>

definition held_codes :: "bt_keys_binding list \<Rightarrow> u32 \<Rightarrow> u8 list" where
  "held_codes m p = (let codes = map (\<lambda>i. ucast (kb_usage (m ! i))) (filter (\<lambda>i. bit p i \<and> is_keyboard m i) [0, 1, 2, 3])
     in codes @ replicate (6 - length codes) 0)"

lemma collect_codes:
  assumes "idx + length xs \<le> length kbd" and "length kbd = k"
  shows "snd (fold (\<lambda>i (idx, kbd). if P i \<and> idx < k then (idx + 1, kbd[idx := g i]) else (idx, kbd)) xs (idx, kbd)) =
    take idx kbd @ map g (filter P xs) @ drop (idx + length (filter P xs)) kbd"
  using assms
proof (induction xs arbitrary: idx kbd)
  case (Cons i xs)
  show ?case
  proof (cases "P i")
    case True
    with Cons.prems Cons.IH [of "Suc idx" "kbd[idx := g i]"] show ?thesis
      by (simp add: take_Suc_conv_app_nth)
  next
    case False
    with Cons.prems Cons.IH [of idx kbd] show ?thesis by simp
  qed
qed simp

lemma keyboard_codes_held: "keyboard_codes m p = held_codes m p"
proof -
  have keys: "[0..<BT_KEYS_NUM_KEYS] = [0, 1, 2, 3]" by (simp add: BT_KEYS_NUM_KEYS_def upt_rec)
  show ?thesis
    unfolding keyboard_codes_def keys held_codes_def conj_assoc [symmetric] Let_def
    by (subst collect_codes [where P = "\<lambda>i. bit p i \<and> is_keyboard m i"]) (simp_all add: HID_KEYBOARD_KEYS_def del: filter.simps)
qed


text \<open>A scan: a key is held when its pin is low.\<close>

definition key_held :: "u32 \<Rightarrow> nat \<Rightarrow> bool" where
  "key_held raw i \<longleftrightarrow> i < 4 \<and> \<not> bit raw (4 + i)"

lemma keypad_scan_held: "keypad_scan (Inr raw) = Inr p \<Longrightarrow> bit p i \<longleftrightarrow> key_held raw i"
proof -
  assume "keypad_scan (Inr raw) = Inr p"
  moreover have "[0..<BT_KEYS_NUM_KEYS] = [0, 1, 2, 3]" by (simp add: BT_KEYS_NUM_KEYS_def upt_rec)
  ultimately have p: "p = fold (\<lambda>i pressed. if \<not> bit raw (bt_key_pin ! i) then pressed OR push_bit i 1 else pressed) [0, 1, 2, 3] 0"
    by (simp add: keypad_scan_def)
  have or: "bit (if c then w OR push_bit k 1 else w) i \<longleftrightarrow> bit w i \<or> c \<and> i = k" if "k < 32" for c and w :: u32 and k
    using that by (auto simp: bit_or_iff bit_exp_iff)
  have pins: "bt_key_pin ! 0 = 4" "bt_key_pin ! 1 = 5" "bt_key_pin ! 2 = 6" "bt_key_pin ! 3 = 7" by (simp_all add: bt_key_pin_def)
  have "bit p i \<longleftrightarrow> i = 0 \<and> \<not> bit raw 4 \<or> i = 1 \<and> \<not> bit raw 5 \<or> i = 2 \<and> \<not> bit raw 6 \<or> i = 3 \<and> \<not> bit raw 7"
    unfolding p fold_simps pins by (subst or, simp)+ auto
  also have "\<dots> \<longleftrightarrow> key_held raw i"
    by (cases "i = 0"; cases "i = 1"; cases "i = 2"; cases "i = 3") (auto simp: key_held_def)
  finally show ?thesis .
qed

lemma scan_pass_result:
  assumes "keypad_scan raw = Inr p" and "scan_pass raw s = (out, t)"
  shows "bk_mask t = p" and "bk_map t = bk_map s" and "p = bk_mask s \<Longrightarrow> t = s"
    and "p \<noteq> bk_mask s \<Longrightarrow> bt_report_keys (bk_map s) p (bk_report s) = (out, bk_report t)"
  using assms by (auto simp: scan_pass_def split: if_splits prod.splits)

lemma choose_consumer_none: "choose_consumer m 0 prev act = None"
  using choose_consumer_held(1) [of m 0 prev act] by (cases "choose_consumer m 0 prev act") auto

lemma held_codes_none: "held_codes m 0 = replicate HID_KEYBOARD_KEYS 0"
  by (simp add: held_codes_def HID_KEYBOARD_KEYS_def Let_def)

lemma idle_invariant:
  "bk_mask (snd (bt_run es m)) = 0 \<Longrightarrow> bt_host_view es m = (replicate HID_KEYBOARD_KEYS 0, 0)"
proof (induction es rule: rev_induct)
  case Nil
  show ?case by (simp add: bt_host_view_def)
next
  case (snoc e es)
  let ?s = "snd (bt_run es m)" and ?t = "snd (bt_run (es @ [e]) m)"
  have t: "?t = snd (bt_step e ?s)" by (simp add: bt_run_snoc)
  show ?case
  proof (cases "\<exists>raw p. e = Scan raw \<and> keypad_scan raw = Inr p \<and> p \<noteq> bk_mask ?s")
    case False
    then have "bk_report ?t = bk_report ?s" "bk_mask ?t = bk_mask ?s"
      unfolding t by (cases e; auto simp: scan_pass_def split: sum.splits)+
    with snoc view_invariant [of es m] view_invariant [of "es @ [e]" m] show ?thesis by simp
  next
    case True
    then obtain raw p where e: "e = Scan raw" "keypad_scan raw = Inr p" "p \<noteq> bk_mask ?s" by blast
    obtain out u where u: "scan_pass raw ?s = (out, u)" by fastforce
    note r = scan_pass_result [OF e(2) u]
    have "p = 0" using snoc.prems r(1) u e(1) t by simp
    with bt_report_seen [OF r(4) [OF e(3)]] u e(1) t view_invariant [of "es @ [e]" m] show ?thesis
      by (simp add: keyboard_codes_held held_codes_none choose_consumer_none)
  qed
qed

text \<open>
  No key sticks. Whatever was pressed, however the port reads failed, and however keys were remapped
  or reloaded while held: once a scan finds the four keys released, the host sees no key held on
  either report.
\<close>

lemma bt_keys_none_stuck:
  assumes "\<forall>i < 4. \<not> key_held raw i"
  shows "bt_host_view (es @ [Scan (Inr raw)]) bindings = (replicate HID_KEYBOARD_KEYS 0, 0)"
proof (rule idle_invariant)
  let ?s = "snd (bt_run es bindings)"
  obtain p where p: "keypad_scan (Inr raw) = Inr p" by (simp add: keypad_scan_def)
  obtain out t where t: "scan_pass (Inr raw) ?s = (out, t)" by fastforce
  have "\<not> bit p i" for i using keypad_scan_held [OF p, of i] assms by (auto simp: key_held_def)
  then have "p = 0" by (simp add: bit_eq_iff)
  then show "bk_mask (snd (bt_run (es @ [Scan (Inr raw)]) bindings)) = 0"
    using scan_pass_result(1) [OF p t] by (simp add: bt_run_snoc t)
qed

definition steady :: "bt_keys_binding list \<Rightarrow> bt_keys \<Rightarrow> bool" where
  "steady m s \<longleftrightarrow> bk_map s = m \<and> bt_prev_mask (bk_report s) = bk_mask s \<and> prev_kbd (bk_report s) = held_codes m (bk_mask s) \<and>
     prev_consumer (bk_report s) = (case active_consumer_key (bk_report s) of None \<Rightarrow> 0 | Some i \<Rightarrow> kb_usage (m ! i)) \<and>
     (\<forall>i. active_consumer_key (bk_report s) = Some i \<longrightarrow> i < 4 \<and> is_consumer m i \<and> bit (bk_mask s) i) \<and>
     (active_consumer_key (bk_report s) = None \<longrightarrow> (\<forall>i < 4. \<not> (bit (bk_mask s) i \<and> is_consumer m i)))"

lemma steady_scan:
  assumes "steady m s" and "keypad_scan raw = Inr p" and "scan_pass raw s = (out, t)"
  shows "steady m t"
proof (cases "p = bk_mask s")
  case True
  with scan_pass_result(3) [OF assms(2,3)] assms(1) show ?thesis by simp
next
  case False
  note r = scan_pass_result(1,2,4) [OF assms(2,3)]
  have m: "bk_map s = m" using assms(1) by (simp add: steady_def)
  note seen = bt_report_seen [OF r(3) [OF False], unfolded m]
  note held = choose_consumer_held [OF conjunct1 [OF conjunct2 [OF conjunct2 [OF conjunct2 [OF seen]]], symmetric]]
  have "\<forall>j. active_consumer_key (bk_report s) = Some j \<longrightarrow> bit p j \<longrightarrow> j < 4 \<and> is_consumer m j"
    using assms(1) by (simp add: steady_def)
  note kind = held(4) [OF this]
  show ?thesis
    unfolding steady_def using seen r(1,2) m held(1,2) kind by (auto simp: keyboard_codes_held)
qed

lemma steady_run: "\<forall>e \<in> set es. \<exists>raw. e = Scan raw \<Longrightarrow> steady m (snd (bt_run es m))"
proof (induction es rule: rev_induct)
  case Nil
  show ?case by (simp add: steady_def bt_keys_boot_def bt_report_boot_def held_codes_none)
next
  case (snoc e es)
  then obtain raw where e: "e = Scan raw" by auto
  obtain out t where t: "scan_pass raw (snd (bt_run es m)) = (out, t)" by fastforce
  show ?case
  proof (cases "keypad_scan raw")
    case (Inl err)
    with snoc t e show ?thesis by (auto simp: bt_run_snoc scan_pass_def)
  next
    case (Inr p)
    with steady_scan [OF _ Inr t] snoc t e show ?thesis by (simp add: bt_run_snoc)
  qed
qed

section \<open>The rule of the consumer report\<close>

text \<open>
  Which consumer key is reported, said over the history of the readable scans (newest first, each
  the set of keys held) and without the loop's variables: a consumer key pressed since the scan
  before takes over, the last in the order of the keys if there are several; otherwise the key
  reported before stays as long as it is held; otherwise the first held consumer key is taken.
\<close>

definition takeover :: "bt_keys_binding list \<Rightarrow> (nat \<Rightarrow> bool) \<Rightarrow> (nat \<Rightarrow> bool) \<Rightarrow> nat option \<Rightarrow> nat option" where
  "takeover m before now reported =
     (let pressed = filter (\<lambda>i. now i \<and> \<not> before i \<and> is_consumer m i) [0, 1, 2, 3];
          held = filter (\<lambda>i. now i \<and> is_consumer m i) [0, 1, 2, 3]
      in if pressed \<noteq> [] then Some (last pressed)
         else if \<exists>i. reported = Some i \<and> now i then reported
         else if held \<noteq> [] then Some (hd held) else None)"

fun reported_key :: "bt_keys_binding list \<Rightarrow> (nat \<Rightarrow> bool) list \<Rightarrow> nat option" where
  "reported_key m [] = None"
| "reported_key m (now # past) = takeover m (if past = [] then (\<lambda>_. False) else hd past) now (reported_key m past)"

fun held_keys :: "bt_event \<Rightarrow> (nat \<Rightarrow> bool) list" where
  "held_keys (Scan (Inr raw)) = [key_held raw]"
| "held_keys _ = []"

definition held_history :: "bt_event list \<Rightarrow> (nat \<Rightarrow> bool) list" where
  "held_history es = rev (concat (map held_keys es))"

lemma held_history_snoc: "held_history (es @ [e]) = rev (held_keys e) @ held_history es"
  by (simp add: held_history_def)

lemma find_hd: "find P xs = (if filter P xs = [] then None else Some (hd (filter P xs)))"
  by (induction xs) auto

lemma choose_takeover:
  "choose_consumer m p prev act = takeover m (bit prev) (bit p) act"
proof -
  let ?P = "\<lambda>i. bit p i \<and> \<not> bit prev i \<and> is_consumer m i" and ?Q = "\<lambda>i. bit p i \<and> is_consumer m i"
  have keys: "[0..<BT_KEYS_NUM_KEYS] = [0, 1, 2, 3]" by (simp add: BT_KEYS_NUM_KEYS_def upt_rec)
  have new: "(\<exists>i \<in> set [0, 1, 2, 3]. ?P i) \<longleftrightarrow> filter ?P [0, 1, 2, 3] \<noteq> []" by (auto simp: filter_empty_conv)
  have old: "(case act of Some i \<Rightarrow> if bit p i then Some i else None | None \<Rightarrow> None) =
      (if \<exists>i. act = Some i \<and> bit p i then act else None)" by (cases act) simp_all
  show ?thesis
    unfolding choose_consumer_def keys Let_def fold_newest new old takeover_def find_hd [of ?Q]
    by (cases "filter ?P [0, 1, 2, 3] = []"; cases "filter ?Q [0, 1, 2, 3] = []";
        cases "\<exists>i. act = Some i \<and> bit p i") (auto simp del: filter.simps)
qed

lemma takeover_cong:
  assumes "\<And>i. i < 4 \<Longrightarrow> before i = before' i" and "\<And>i. i < 4 \<Longrightarrow> now i = now' i" and "\<And>i. reported = Some i \<Longrightarrow> i < 4"
  shows "takeover m before now reported = takeover m before' now' reported"
proof -
  have "filter (\<lambda>i. now i \<and> \<not> before i \<and> is_consumer m i) [0, 1, 2, 3] = filter (\<lambda>i. now' i \<and> \<not> before' i \<and> is_consumer m i) [0, 1, 2, 3]"
    "filter (\<lambda>i. now i \<and> is_consumer m i) [0, 1, 2, 3] = filter (\<lambda>i. now' i \<and> is_consumer m i) [0, 1, 2, 3]"
    using assms(1,2) by (auto intro!: filter_cong simp del: filter.simps)
  moreover have "(\<exists>i. reported = Some i \<and> now i) = (\<exists>i. reported = Some i \<and> now' i)" using assms(2,3) by blast
  ultimately show ?thesis unfolding takeover_def by presburger
qed

text \<open>Scanning the same keys again changes nothing.\<close>

lemma takeover_same:
  assumes "\<And>i. reported = Some i \<Longrightarrow> now i" and "reported = None \<Longrightarrow> \<forall>i < 4. \<not> (now i \<and> is_consumer m i)"
  shows "takeover m now now reported = reported"
proof -
  have no: "filter (\<lambda>i. now i \<and> \<not> now i \<and> is_consumer m i) xs = []" for xs by (induction xs) simp_all
  have "filter (\<lambda>i. now i \<and> is_consumer m i) [0, 1, 2, 3] = []" if "reported = None"
    using assms(2) [OF that] by (auto simp: filter_empty_conv simp del: filter.simps)
  with assms(1) show ?thesis unfolding takeover_def no by (cases reported) (auto simp: Let_def simp del: filter.simps)
qed

lemma reported_run:
  assumes "\<forall>e \<in> set es. \<exists>raw. e = Scan raw"
  shows "active_consumer_key (bk_report (snd (bt_run es m))) = reported_key m (held_history es) \<and>
    bit (bk_mask (snd (bt_run es m))) = (if held_history es = [] then (\<lambda>_. False) else hd (held_history es))"
  using assms
proof (induction es rule: rev_induct)
  case Nil
  show ?case by (simp add: held_history_def bt_keys_boot_def bt_report_boot_def fun_eq_iff)
next
  case (snoc e es)
  let ?s = "snd (bt_run es m)"
  obtain raw where e: "e = Scan raw" using snoc.prems by auto
  obtain out t where t: "scan_pass raw ?s = (out, t)" by fastforce
  have after: "snd (bt_run (es @ [e]) m) = t" by (simp add: bt_run_snoc e t)
  have s: "steady m ?s" by (rule steady_run) (use snoc.prems in simp)
  have IH: "active_consumer_key (bk_report ?s) = reported_key m (held_history es)"
    "bit (bk_mask ?s) = (if held_history es = [] then (\<lambda>_. False) else hd (held_history es))"
    using snoc by simp_all
  show ?case
  proof (cases raw)
    case (Inl err)
    with t have "t = ?s" by (simp add: scan_pass_def keypad_scan_def)
    with IH Inl show ?thesis unfolding after by (simp add: held_history_snoc e)
  next
    case (Inr w)
    obtain p where p: "keypad_scan raw = Inr p" by (simp add: keypad_scan_def Inr)
    have now: "bit p = key_held w" using keypad_scan_held [OF p [unfolded Inr]] by (simp add: fun_eq_iff)
    note r = scan_pass_result [OF p t]
    have hist: "held_history (es @ [e]) = key_held w # held_history es" by (simp add: held_history_snoc e Inr)
    have "active_consumer_key (bk_report t) = takeover m (bit (bk_mask ?s)) (bit p) (active_consumer_key (bk_report ?s))"
    proof (cases "p = bk_mask ?s")
      case True
      have "takeover m (bit (bk_mask ?s)) (bit (bk_mask ?s)) (active_consumer_key (bk_report ?s)) = active_consumer_key (bk_report ?s)"
        by (rule takeover_same) (use s in \<open>auto simp: steady_def\<close>)
      with r(3) [OF True] True show ?thesis by simp
    next
      case False
      with bt_report_seen [OF r(4)] s show ?thesis by (simp add: steady_def choose_takeover)
    qed
    then show ?thesis unfolding after hist reported_key.simps IH r(1) now by (simp add: fun_eq_iff)
  qed
qed

text \<open>
  C36. The host sees what is held. With a fixed keymap and through any run of scans, failing reads
  included, after a scan the keyboard report lists exactly the held keyboard keys in order, padded
  with zeros. The consumer report is empty if no consumer key is held; otherwise it is that of one
  held consumer key, chosen by the rule of \<open>reported_key\<close> over the history of the readable scans: a
  newly pressed one takes over, else the key so far stays while it is held, else the first held.
\<close>

theorem bt_keys_reports_held:
  assumes "\<forall>e \<in> set es. \<exists>raw. e = Scan raw" and "bt_host_view (es @ [Scan (Inr raw)]) m = (kbd, usage)"
    and "before = bk_mask (snd (bt_run es m))"
  shows "kbd = (let codes = map (\<lambda>i. ucast (kb_usage (m ! i))) (filter (\<lambda>i. key_held raw i \<and> is_keyboard m i) [0, 1, 2, 3])
      in codes @ replicate (6 - length codes) 0) \<and>
    (if \<exists>i. key_held raw i \<and> is_consumer m i
     then \<exists>i. key_held raw i \<and> is_consumer m i \<and> usage = kb_usage (m ! i) \<and>
       ((\<exists>j. key_held raw j \<and> is_consumer m j \<and> \<not> bit before j) \<longrightarrow> \<not> bit before i)
     else usage = 0) \<and>
    usage = (case reported_key m (key_held raw # held_history es) of None \<Rightarrow> 0 | Some i \<Rightarrow> kb_usage (m ! i))"
proof -
  let ?s = "snd (bt_run es m)"
  obtain p where p: "keypad_scan (Inr raw) = Inr p" by (simp add: keypad_scan_def)
  obtain out t where t: "scan_pass (Inr raw) ?s = (out, t)" by fastforce
  note held = keypad_scan_held [OF p]
  have s: "steady m ?s" by (rule steady_run [OF assms(1)])
  have st: "steady m t" by (rule steady_scan [OF s p t])
  note r = scan_pass_result [OF p t]
  have view: "kbd = prev_kbd (bk_report t)" "usage = prev_consumer (bk_report t)"
    using view_invariant [of "es @ [Scan (Inr raw)]" m] assms(2) t by (simp_all add: bt_run_snoc)
  have kbd: "kbd = held_codes m p" using st view(1) r(1) by (simp add: steady_def)
  show ?thesis
  proof (intro conjI)
    show "kbd = (let codes = map (\<lambda>i. ucast (kb_usage (m ! i))) (filter (\<lambda>i. key_held raw i \<and> is_keyboard m i) [0, 1, 2, 3])
      in codes @ replicate (6 - length codes) 0)"
      unfolding kbd held_codes_def held ..
    let ?a = "active_consumer_key (bk_report t)"
    have four: "key_held raw i \<Longrightarrow> i < 4" for i by (simp add: key_held_def)
    have "\<exists>i. key_held raw i \<and> is_consumer m i \<and> usage = kb_usage (m ! i) \<and>
        ((\<exists>j. key_held raw j \<and> is_consumer m j \<and> \<not> bit before j) \<longrightarrow> \<not> bit before i)"
      if some: "\<exists>i. key_held raw i \<and> is_consumer m i"
    proof -
      obtain i where a: "?a = Some i" using st some four held r(1) by (cases ?a) (auto simp: steady_def)
      then have i: "key_held raw i" "is_consumer m i" "usage = kb_usage (m ! i)"
        using st held r(1) view(2) by (auto simp: steady_def)
      have "\<not> bit before i" if new: "\<exists>j. key_held raw j \<and> is_consumer m j \<and> \<not> bit before j"
      proof -
        obtain j where j: "j < 4" "bit p j" "is_consumer m j" "\<not> bit before j" using new four held by auto
        then have "p \<noteq> bk_mask ?s" using assms(3) by auto
        with bt_report_seen [OF r(4)] s have "?a = choose_consumer m p before (active_consumer_key (bk_report ?s))"
          using assms(3) by (simp add: steady_def)
        from choose_consumer_held(3) [OF this [symmetric] j(1,2,4,3)] a show ?thesis by auto
      qed
      with i show ?thesis by blast
    qed
    moreover have "usage = 0" if "\<not> (\<exists>i. key_held raw i \<and> is_consumer m i)"
      using st that held r(1) view(2) by (cases ?a) (auto simp: steady_def)
    ultimately show "if \<exists>i. key_held raw i \<and> is_consumer m i
     then \<exists>i. key_held raw i \<and> is_consumer m i \<and> usage = kb_usage (m ! i) \<and>
       ((\<exists>j. key_held raw j \<and> is_consumer m j \<and> \<not> bit before j) \<longrightarrow> \<not> bit before i)
     else usage = 0" by simp
    have "\<forall>e \<in> set (es @ [Scan (Inr raw)]). \<exists>raw. e = Scan raw" using assms(1) by simp
    from reported_run [OF this, of m] have "?a = reported_key m (key_held raw # held_history es)"
      by (simp add: bt_run_snoc t held_history_snoc)
    then show "usage = (case reported_key m (key_held raw # held_history es) of None \<Rightarrow> 0 | Some i \<Rightarrow> kb_usage (m ! i))"
      using st view(2) by (simp add: steady_def)
  qed
qed

text \<open>A usage beyond the consumer collection's logical maximum is accepted and sent.\<close>

lemma usage_beyond_descriptor:
  "fst (cmd_keys_set 0 ''consumer'' 0x400 0 bt_keys_map) = 0 \<and> kb_usage (snd (cmd_keys_set 0 ''consumer'' 0x400 0 bt_keys_map) ! 0) = 0x400"
  by (simp add: cmd_keys_set_def bt_keys_set_def bt_keys_map_def const_simps)

text \<open>Both transports carry the same report, USB behind its identifier.\<close>

lemma transports_agree: "usb_hid_notify True r = Some (fst (hog_notify r) # snd (hog_notify r))"
  by (cases r) (simp_all add: usb_hid_notify_def hog_notify_def)

lemma bt_keys_none_stuck_instance:
  "bt_host_view ([Scan (Inr 0xE0), Remap 0 ''kbd'' 4 0, Scan (Inl (- 5))] @ [Scan (Inr 0xF0)]) bt_keys_map =
     (replicate HID_KEYBOARD_KEYS 0, 0)"
proof -
  have "\<forall>i < 4. \<not> key_held 0xF0 i"
  proof (intro allI impI)
    fix i :: nat assume "i < 4"
    then consider "i = 0" | "i = 1" | "i = 2" | "i = 3" by linarith
    then show "\<not> key_held 0xF0 i" by cases (simp_all add: key_held_def bit_iff_odd drop_bit_eq_div)
  qed
  then show ?thesis by (rule bt_keys_none_stuck)
qed

text \<open>Keys 0, 1 and 2 are pressed in turn, with a failing read; the last stays when 1 is let go.\<close>

theorem bt_keys_reports_held_witness:
  "snd (bt_host_view ([Scan (Inr 0xE0), Scan (Inr 0xC0), Scan (Inl (- 5)), Scan (Inr 0x80)] @ [Scan (Inr 0xA0)]) bt_keys_map) = 0x00B5"
proof -
  let ?es = "[Scan (Inr 0xE0), Scan (Inr 0xC0), Scan (Inl (- 5)), Scan (Inr 0x80)]"
  obtain kbd usage where v: "bt_host_view (?es @ [Scan (Inr 0xA0)]) bt_keys_map = (kbd, usage)" by fastforce
  have all: "\<forall>e \<in> set ?es. \<exists>raw. e = Scan raw" by simp
  have held: "key_held 0xE0 0" "\<not> key_held 0xE0 1" "\<not> key_held 0xE0 2" "\<not> key_held 0xE0 3"
    "key_held 0xC0 0" "key_held 0xC0 1" "\<not> key_held 0xC0 2" "\<not> key_held 0xC0 3"
    "key_held 0x80 0" "key_held 0x80 1" "key_held 0x80 2" "\<not> key_held 0x80 3"
    "key_held 0xA0 0" "\<not> key_held 0xA0 1" "key_held 0xA0 2" "\<not> key_held 0xA0 3"
    by (simp_all add: key_held_def bit_iff_odd drop_bit_eq_div)
  have kinds: "is_consumer bt_keys_map 0" "is_consumer bt_keys_map 1" "is_consumer bt_keys_map 2" "is_consumer bt_keys_map 3"
    by (simp_all add: is_consumer_def bt_keys_map_def type_byte_def numeral_3_eq_3)
  have "reported_key bt_keys_map (key_held 0xA0 # held_history ?es) = Some 2"
    using held [unfolded One_nat_def] kinds by (simp add: held_history_def takeover_def)
  with bt_keys_reports_held [OF all v refl] show ?thesis unfolding v by (simp add: bt_keys_map_def)
qed

end
