(* ===== verification/App_Time.thy ===== *)
theory App_Time
  imports Prelude
begin

text \<open>
  The clock the applications stamp their messages with (\<open>common/time/app_time.c\<close>): a loop of SNTP
  queries, driven by the network's events, two delayed work items, the DNS resolver and a socket
  service. Each handler runs to its end; the answers of Zephyr's subsystems are inputs, and a work
  item is pending or not, with the delay it was given.
\<close>

section \<open>State\<close>

datatype sync_delay = No_wait | Resync | Retry

record timespec =
  tv_sec :: int
  tv_nsec :: int

record app_time =
  started :: bool
  synced :: bool
  ipv4_up :: bool
  sync_work :: "sync_delay option"
  sntp_timeout_work :: bool
  sntp_service :: bool
  dns_queries :: nat
  sntp_addr :: "string option"
  realtime :: timespec

definition time_boot :: "timespec \<Rightarrow> app_time" where
  "time_boot clock = \<lparr>started = False, synced = False, ipv4_up = False, sync_work = None, sntp_timeout_work = False,
     sntp_service = False, dns_queries = 0, sntp_addr = None, realtime = clock\<rparr>"

text \<open>
  The kernel's work items: scheduling leaves a pending item alone, rescheduling does not.
\<close>

definition sync_schedule :: "sync_delay \<Rightarrow> app_time \<Rightarrow> app_time" where
  "sync_schedule d s = (if sync_work s = None then s\<lparr>sync_work := Some d\<rparr> else s)"

definition schedule_next :: "bool \<Rightarrow> app_time \<Rightarrow> app_time" where
  "schedule_next success s = s\<lparr>sync_work := Some (if success then Resync else Retry)\<rparr>"

definition l4_handler :: "bool \<Rightarrow> app_time \<Rightarrow> app_time" where
  "l4_handler connected s =
     (let s = s\<lparr>ipv4_up := connected\<rparr> in if connected then sync_schedule No_wait s else s)"

section \<open>The clock\<close>

definition NSEC_PER_SEC :: nat where [const_simps]: "NSEC_PER_SEC = 1000000000"

definition sntp_fraction_to_nsec :: "u32 \<Rightarrow> u32" where
  "sntp_fraction_to_nsec fraction =
     (ucast (drop_bit 32 ((ucast fraction :: u64) * of_nat NSEC_PER_SEC)) :: u32)"

record sntp_time =
  ts_seconds :: u64
  ts_fraction :: u32

text \<open>\<open>long_max\<close> is the target's \<open>LONG_MAX\<close>; \<open>settime_ret\<close> the answer of \<open>sys_clock_settime\<close>.\<close>

definition set_clock_from_sntp :: "nat \<Rightarrow> int \<Rightarrow> sntp_time \<Rightarrow> app_time \<Rightarrow> bool \<times> app_time" where
  "set_clock_from_sntp long_max settime_ret ts s =
     (if unat (ts_seconds ts) > long_max then (False, s)
      else if settime_ret < 0 then (False, s)
      else (True, s\<lparr>realtime := \<lparr>tv_sec = int (unat (ts_seconds ts)),
                                tv_nsec = int (unat (sntp_fraction_to_nsec (ts_fraction ts)))\<rparr>, synced := True\<rparr>))"

definition app_time_synced :: "app_time \<Rightarrow> bool" where
  "app_time_synced s = synced s"

record app_ros_time =
  sec :: u32
  nanosec :: u32

definition ros_zero :: app_ros_time where
  "ros_zero = \<lparr>sec = 0, nanosec = 0\<rparr>"

text \<open>\<open>tspec\<close> is what \<open>sys_clock_gettime\<close> reads, \<open>None\<close> when it fails.\<close>

definition app_time_now :: "timespec option \<Rightarrow> app_time \<Rightarrow> app_ros_time" where
  "app_time_now tspec s =
     (if \<not> app_time_synced s then ros_zero
      else (case tspec of None \<Rightarrow> ros_zero
            | Some t \<Rightarrow>
                if tv_sec t < 0 \<or> tv_sec t > 2 ^ 32 - 1 \<or> tv_nsec t < 0 \<or> tv_nsec t \<ge> int NSEC_PER_SEC then ros_zero
                else \<lparr>sec = word_of_int (tv_sec t), nanosec = word_of_int (tv_nsec t)\<rparr>))"

section \<open>A query\<close>

record query_rets =
  init_ret :: int
  send_ret :: int

definition start_sntp_query :: "query_rets \<Rightarrow> app_time \<Rightarrow> int \<times> app_time" where
  "start_sntp_query q s =
     (if init_ret q < 0 then (init_ret q, s)
      else if send_ret q < 0 then (send_ret q, s\<lparr>sntp_service := False\<rparr>)
      else (0, s\<lparr>sntp_service := True, sntp_timeout_work := True\<rparr>))"

definition query_or_retry :: "query_rets \<Rightarrow> app_time \<Rightarrow> app_time" where
  "query_or_retry q s = (case start_sntp_query q s of (ret, s) \<Rightarrow> if ret < 0 then schedule_next False s else s)"

text \<open>The configured server as a literal address, if it is one of an enabled family.\<close>

definition parse_sntp_server_addr :: "string option \<Rightarrow> app_time \<Rightarrow> bool \<times> app_time" where
  "parse_sntp_server_addr literal s = (literal \<noteq> None, s\<lparr>sntp_addr := literal\<rparr>)"

datatype dns_status = DNS_EAI_CANCELED | DNS_EAI_FAIL | DNS_EAI_ALLDONE | DNS_EAI_INPROGRESS | Dns_other nat

text \<open>\<open>info\<close> is an IPv4 address; an entry of another family changes nothing.\<close>

definition dns_result_cb :: "dns_status \<Rightarrow> string option \<Rightarrow> query_rets \<Rightarrow> app_time \<Rightarrow> app_time" where
  "dns_result_cb status info q s =
     (if status = DNS_EAI_CANCELED \<or> status = DNS_EAI_FAIL then schedule_next False s
      else if status = DNS_EAI_ALLDONE
      then if sntp_addr s = None then schedule_next False s else query_or_retry q s
      else if status \<noteq> DNS_EAI_INPROGRESS \<or> info = None \<or> sntp_addr s \<noteq> None then s
      else s\<lparr>sntp_addr := info\<rparr>)"

definition sync_work_handler :: "string option \<Rightarrow> int \<Rightarrow> query_rets \<Rightarrow> app_time \<Rightarrow> app_time" where
  "sync_work_handler literal dns_ret q s =
     (if \<not> ipv4_up s then schedule_next False s
      else (case parse_sntp_server_addr literal s of (parsed, s) \<Rightarrow>
              if parsed then query_or_retry q s
              else (let s = s\<lparr>sntp_addr := None\<rparr>
                    in if dns_ret < 0 then schedule_next False s else s\<lparr>dns_queries := dns_queries s + 1\<rparr>)))"

definition sntp_timeout_handler :: "app_time \<Rightarrow> app_time" where
  "sntp_timeout_handler s = schedule_next False (s\<lparr>sntp_service := False\<rparr>)"

definition sntp_service_handler :: "nat \<Rightarrow> int \<Rightarrow> sntp_time \<Rightarrow> int \<Rightarrow> app_time \<Rightarrow> app_time" where
  "sntp_service_handler long_max read_ret ts settime_ret s =
     (let (success, s) = (if read_ret < 0 then (False, s) else set_clock_from_sntp long_max settime_ret ts s)
      in schedule_next success (s\<lparr>sntp_service := False, sntp_timeout_work := False\<rparr>))"

definition app_time_start :: "app_time \<Rightarrow> bool \<times> app_time" where
  "app_time_start s = (if started s then (False, s) else (True, s\<lparr>started := True\<rparr>))"

section \<open>The loop\<close>

text \<open>
  The events: a work item or a callback happens only while it is pending, a query of the resolver
  ends with any status but \<open>DNS_EAI_INPROGRESS\<close>, which reports one address.
\<close>

datatype time_event = Link bool | Sync_run | Address_found | Query_end dns_status | Timed_out | Reply

inductive time_step :: "nat \<Rightarrow> app_time \<Rightarrow> time_event \<Rightarrow> app_time \<Rightarrow> bool" for long_max where
  link: "time_step long_max s (Link connected) (l4_handler connected s)"
| sync: "sync_work s \<noteq> None \<Longrightarrow>
    time_step long_max s Sync_run (sync_work_handler literal dns_ret q (s\<lparr>sync_work := None\<rparr>))"
| address: "0 < dns_queries s \<Longrightarrow> time_step long_max s Address_found (dns_result_cb DNS_EAI_INPROGRESS info q s)"
| resolved: "0 < dns_queries s \<Longrightarrow> status \<noteq> DNS_EAI_INPROGRESS \<Longrightarrow>
    time_step long_max s (Query_end status) (dns_result_cb status None q (s\<lparr>dns_queries := dns_queries s - 1\<rparr>))"
| timeout: "sntp_timeout_work s \<Longrightarrow>
    time_step long_max s Timed_out (sntp_timeout_handler (s\<lparr>sntp_timeout_work := False\<rparr>))"
| reply: "sntp_service s \<Longrightarrow>
    time_step long_max s Reply (sntp_service_handler long_max read_ret ts settime_ret s)"

inductive time_run :: "nat \<Rightarrow> app_time \<Rightarrow> time_event list \<Rightarrow> app_time \<Rightarrow> bool" for long_max s where
  none: "time_run long_max s [] s"
| more: "time_run long_max s es t \<Longrightarrow> time_step long_max t e u \<Longrightarrow> time_run long_max s (es @ [e]) u"

definition time_pending :: "app_time \<Rightarrow> bool" where
  "time_pending s \<longleftrightarrow> sync_work s \<noteq> None \<or> 0 < dns_queries s \<or> sntp_timeout_work s"

definition time_timed :: "app_time \<Rightarrow> bool" where
  "time_timed s \<longleftrightarrow> (sntp_service s \<longrightarrow> sntp_timeout_work s)"

text \<open>The ends of a name query that the callback returns from without another thought.\<close>

definition unhandled :: "time_event \<Rightarrow> bool" where
  "unhandled e \<longleftrightarrow> (\<exists>n. e = Query_end (Dns_other n))"

lemmas time_defs = l4_handler_def sync_schedule_def sync_work_handler_def parse_sntp_server_addr_def query_or_retry_def
  start_sntp_query_def dns_result_cb_def sntp_timeout_handler_def sntp_service_handler_def set_clock_from_sntp_def
  schedule_next_def Let_def

lemma timed_step: "time_step m s e t \<Longrightarrow> time_timed s \<Longrightarrow> time_timed t"
  by (induction rule: time_step.induct) (auto simp: time_defs time_timed_def split: option.splits if_splits)

lemma pending_step: "time_step m s e t \<Longrightarrow> time_pending s \<Longrightarrow> \<not> unhandled e \<Longrightarrow> time_pending t"
proof (induction rule: time_step.induct)
  case (resolved s status q)
  then show ?case by (cases status) (auto simp: time_defs time_pending_def unhandled_def split: if_splits)
qed (auto simp: time_defs time_pending_def unhandled_def split: option.splits if_splits)

lemma pending_connected: "time_pending (l4_handler True s)"
  by (simp add: time_defs time_pending_def)

text \<open>With nothing pending, only the link can change.\<close>

lemma idle_step:
  assumes "time_step m s e t" and "\<not> time_pending s" and "time_timed s"
  shows "\<exists>connected. e = Link connected \<and> t = l4_handler connected s"
  using assms by (cases rule: time_step.cases) (auto simp: time_pending_def time_timed_def)

section \<open>It never stops trying\<close>

lemma timed_run: "time_run m s es t \<Longrightarrow> time_timed s \<Longrightarrow> time_timed t"
  by (induction rule: time_run.induct) (auto intro: timed_step)

lemma time_run_append: "time_run m t fs u \<Longrightarrow> time_run m s es t \<Longrightarrow> time_run m s (es @ fs) u"
  by (induction rule: time_run.induct) (auto simp flip: append_assoc intro: time_run.more)

lemma one_step: "time_step m s e t \<Longrightarrow> time_run m s [e] t"
  using time_run.more [OF time_run.none] by fastforce

text \<open>
  Nothing is pending only after an unhandled end of a name query, and while nothing but the
  loss of the link has been seen since.
\<close>

lemma pending_run:
  assumes "time_run m s es t" and "time_pending s" and "time_timed s"
  shows "time_pending t \<or> (\<exists>pre e post. es = pre @ e # post \<and> unhandled e \<and> list_all (\<lambda>e. e = Link False) post)"
  using assms
proof (induction rule: time_run.induct)
  case (more es t e u)
  show ?case
  proof (cases "time_pending t")
    case True
    then show ?thesis
    proof (cases "unhandled e")
      case True
      then have "es @ [e] = es @ e # [] \<and> unhandled e \<and> list_all (\<lambda>e. e = Link False) []" by simp
      then show ?thesis by blast
    next
      case False
      with pending_step [OF more.hyps(2) True] show ?thesis by blast
    qed
  next
    case False
    have "time_timed t" using timed_run [OF more.hyps(1)] more.prems by blast
    from idle_step [OF more.hyps(2) False this] obtain c where e: "e = Link c" "u = l4_handler c t" by blast
    from False more.IH more.prems obtain pre x post where
      "es = pre @ x # post" "unhandled x" "list_all (\<lambda>e. e = Link False) post" by blast
    note cut = this
    show ?thesis
    proof (cases c)
      case True
      then show ?thesis using pending_connected e by simp
    next
      case False
      have "es @ [e] = pre @ x # (post @ [e])" "list_all (\<lambda>e. e = Link False) (post @ [e])"
        using cut(1,3) e(1) False by simp_all
      with cut(2) show ?thesis by blast
    qed
  qed
qed simp

text \<open>One round that succeeds: link, work item, address, end of the query, reply.\<close>

lemma sync_succeeds:
  "\<exists>es t. time_run m s es t \<and> synced t \<and> sync_work t = Some Resync"
proof -
  let ?q = "\<lparr>init_ret = 0, send_ret = 0\<rparr>" and ?ts = "\<lparr>ts_seconds = 0, ts_fraction = 0\<rparr>"
  define s1 where "s1 = l4_handler True s"
  have s1: "sync_work s1 \<noteq> None" "ipv4_up s1" by (auto simp: s1_def time_defs)
  define s2 where "s2 = sync_work_handler None 0 ?q (s1\<lparr>sync_work := None\<rparr>)"
  have s2: "0 < dns_queries s2" "sntp_addr s2 = None" using s1(2) by (simp_all add: s2_def time_defs)
  define s3 where "s3 = dns_result_cb DNS_EAI_INPROGRESS (Some ''a'') ?q s2"
  have s3: "0 < dns_queries s3" "sntp_addr s3 \<noteq> None" using s2 by (simp_all add: s3_def time_defs)
  define s4 where "s4 = dns_result_cb DNS_EAI_ALLDONE None ?q (s3\<lparr>dns_queries := dns_queries s3 - 1\<rparr>)"
  have s4: "sntp_service s4" using s3(2) by (auto simp: s4_def time_defs)
  define s5 where "s5 = sntp_service_handler m 0 ?ts 0 s4"
  have "time_run m s [Link True] s1" unfolding s1_def by (rule one_step [OF link])
  from time_run_append [OF one_step [OF sync [OF s1(1)]] this]
  have "time_run m s ([Link True] @ [Sync_run]) s2" unfolding s2_def .
  from time_run_append [OF one_step [OF address [OF s2(1)]] this]
  have "time_run m s (([Link True] @ [Sync_run]) @ [Address_found]) s3" unfolding s3_def .
  from time_run_append [OF one_step [OF resolved [OF s3(1)]] this]
  have "time_run m s ((([Link True] @ [Sync_run]) @ [Address_found]) @ [Query_end DNS_EAI_ALLDONE]) s4"
    unfolding s4_def by blast
  from time_run_append [OF one_step [OF reply [OF s4]] this]
  have "\<exists>es. time_run m s es s5" unfolding s5_def by blast
  moreover have "synced s5" "sync_work s5 = Some Resync" by (simp_all add: s5_def time_defs)
  ultimately show ?thesis by blast
qed

text \<open>
  C32. Once connected, the clock stops trying in one case only. From the first connection on,
  through any order of link events, work items, resolver results (addresses, and an end with any
  status at all), replies and failures of any call: a synchronisation is scheduled, or a name
  query or a time query is in flight, unless the last thing that happened, but for the loss of
  the link, is the end of a name query with a status that \<open>dns_result_cb\<close> does not handle
  (neither done nor failed nor cancelled). The next connection schedules a synchronisation in
  any case; a query's socket is never open without its timeout armed; and from every such state
  the clock can still become synchronised.
\<close>

theorem time_keeps_trying:
  assumes "time_run m (time_boot clock) es0 s0" and "time_run m (l4_handler True s0) es s"
  shows "(time_pending s \<or>
      (\<exists>pre n post. es = pre @ Query_end (Dns_other n) # post \<and> list_all (\<lambda>e. e = Link False) post)) \<and>
    time_pending (l4_handler True s) \<and> (sntp_service s \<longrightarrow> sntp_timeout_work s) \<and>
    (\<exists>fs t. time_run m s fs t \<and> synced t)"
proof -
  have "time_timed s0" using timed_run [OF assms(1)] by (simp add: time_boot_def time_timed_def)
  then have timed: "time_timed (l4_handler True s0)" by (simp add: time_defs time_timed_def)
  show ?thesis
    using pending_run [OF assms(2) pending_connected timed] timed_run [OF assms(2) timed] sync_succeeds [of m s]
      pending_connected
    unfolding unhandled_def time_timed_def by blast
qed

section \<open>The stamp\<close>

lemma fraction_scaled:
  "unat (sntp_fraction_to_nsec f) = unat f * 1000000000 div 2 ^ 32"
proof -
  have f: "unat f < 2 ^ 32" using unsigned_less [of f] by simp
  have "unat ((ucast f :: u64) * of_nat 1000000000) = unat f * 1000000000"
    using f by (simp add: unat_word_ariths unsigned_ucast_eq take_bit_nat_eq_self)
  moreover have "unat f * 1000000000 div 2 ^ 32 < 2 ^ 32" using f by (simp add: less_mult_imp_div_less)
  ultimately show ?thesis
    by (simp add: sntp_fraction_to_nsec_def NSEC_PER_SEC_def unsigned_ucast_eq unsigned_drop_bit_eq drop_bit_eq_div take_bit_nat_eq_self unat_div)
qed

text \<open>
  C33. A stamp is the server's time to the nanosecond. When a reply is accepted, the clock is synced,
  and a stamp taken from the clock as it was set has the reply's seconds (below 2^32) and the
  nanoseconds of its binary fraction, rounded down: less than 10^9, and off by less than one.
\<close>

theorem time_stamp_exact:
  assumes "set_clock_from_sntp long_max settime_ret ts s = (True, s')" and "unat (ts_seconds ts) < 2 ^ 32"
    and "r = app_time_now (Some (realtime s')) s'"
  shows "unat (sec r) = unat (ts_seconds ts) \<and> unat (nanosec r) < 1000000000 \<and>
    unat (nanosec r) * 2 ^ 32 \<le> unat (ts_fraction ts) * 1000000000 \<and>
    unat (ts_fraction ts) * 1000000000 < (unat (nanosec r) + 1) * 2 ^ 32"
proof -
  define n where "n = unat (sntp_fraction_to_nsec (ts_fraction ts))"
  have "unat (ts_fraction ts) < 2 ^ 32" using unsigned_less [of "ts_fraction ts"] by simp
  then have n: "n < 1000000000" "n * 2 ^ 32 \<le> unat (ts_fraction ts) * 1000000000"
      "unat (ts_fraction ts) * 1000000000 < (n + 1) * 2 ^ 32"
    unfolding n_def fraction_scaled by (simp_all add: less_mult_imp_div_less)
  have s': "synced s'" "realtime s' = \<lparr>tv_sec = int (unat (ts_seconds ts)), tv_nsec = int n\<rparr>"
    using assms(1) by (auto simp: set_clock_from_sntp_def n_def split: if_splits)
  have "int (unat (ts_seconds ts)) < int (2 ^ 32)" using assms(2) by (rule iffD2 [OF of_nat_less_iff])
  then have low: "uint (ts_seconds ts) \<le> 4294967295" by simp
  have "r = \<lparr>sec = word_of_int (int (unat (ts_seconds ts))), nanosec = word_of_int (int n)\<rparr>"
    using assms(3) low n(1) s' by (simp add: app_time_now_def app_time_synced_def NSEC_PER_SEC_def)
  then have "unat (sec r) = unat (ts_seconds ts)" "unat (nanosec r) = n"
    using assms(2) n(1) by (simp_all add: unat_of_nat unsigned_ucast_eq take_bit_nat_eq_self)
  with n show ?thesis by simp
qed

text \<open>Whatever the clock reads, a stamp is that reading or zero; before the first sync it is zero.\<close>

lemma time_stamp_or_zero:
  "app_time_now tspec s = ros_zero \<or> (\<exists>t. tspec = Some t \<and> synced s \<and> uint (sec (app_time_now tspec s)) = tv_sec t \<and>
     uint (nanosec (app_time_now tspec s)) = tv_nsec t \<and> tv_nsec t < 1000000000)"
  by (auto simp: app_time_now_def app_time_synced_def NSEC_PER_SEC_def uint_word_of_int split: option.splits)

section \<open>Corners\<close>

text \<open>A reconnect while a query is in flight does start a second one on top of it.\<close>

lemma reconnect_starts_second:
  assumes "sntp_service s" and "sntp_timeout_work s" and "sync_work s = None"
  shows "\<exists>t. time_run m s [Link False, Link True] t \<and> sntp_service t \<and> sntp_timeout_work t \<and> sync_work t = Some No_wait"
proof -
  have "time_run m s ([Link False] @ [Link True]) (l4_handler True (l4_handler False s))"
    by (rule time_run_append [OF one_step [OF link] one_step [OF link]])
  with assms show ?thesis by (intro exI [of _ "l4_handler True (l4_handler False s)"]) (simp add: time_defs)
qed

text \<open>A name query that ends with any other status leaves nothing scheduled.\<close>

lemma other_dns_end_stops:
  assumes "sync_work s = None" and "\<not> sntp_timeout_work s" and "dns_queries s = 1"
  shows "\<not> time_pending (dns_result_cb (Dns_other n) None q (s\<lparr>dns_queries := dns_queries s - 1\<rparr>))"
  using assms by (simp add: time_defs time_pending_def)

text \<open>With a 32-bit \<open>long\<close>, times from 2038 on are refused.\<close>

lemma refused_from_2038:
  "2147483648 \<le> unat (ts_seconds ts) \<Longrightarrow> set_clock_from_sntp (2 ^ 31 - 1) ret ts s = (False, s)"
  by (simp add: set_clock_from_sntp_def)

theorem time_keeps_trying_witness:
  "time_pending (sync_work_handler None (- 5) \<lparr>init_ret = 0, send_ret = 0\<rparr>
     ((l4_handler True (time_boot \<lparr>tv_sec = 0, tv_nsec = 0\<rparr>))\<lparr>sync_work := None\<rparr>))"
proof -
  let ?b = "time_boot \<lparr>tv_sec = 0, tv_nsec = 0\<rparr>"
  have "sync_work (l4_handler True ?b) \<noteq> None" by (simp add: time_defs time_boot_def)
  from one_step [OF sync [OF this, of 0 None "- 5" "\<lparr>init_ret = 0, send_ret = 0\<rparr>"]]
  have "time_run 0 (l4_handler True ?b) [Sync_run]
      (sync_work_handler None (- 5) \<lparr>init_ret = 0, send_ret = 0\<rparr> ((l4_handler True ?b)\<lparr>sync_work := None\<rparr>))" .
  from time_keeps_trying [OF time_run.none this, THEN conjunct1]
  have "time_pending (sync_work_handler None (- 5) \<lparr>init_ret = 0, send_ret = 0\<rparr> ((l4_handler True ?b)\<lparr>sync_work := None\<rparr>)) \<or>
      (\<exists>pre n post. [Sync_run] = pre @ Query_end (Dns_other n) # post \<and> list_all (\<lambda>e. e = Link False) post)" .
  then show ?thesis by (auto simp: Cons_eq_append_conv)
qed

theorem time_stamp_exact_witness:
  "unat (nanosec (app_time_now (Some \<lparr>tv_sec = 1700000000, tv_nsec = 500000000\<rparr>)
     ((time_boot \<lparr>tv_sec = 1700000000, tv_nsec = 500000000\<rparr>)\<lparr>synced := True\<rparr>))) * 2 ^ 32 \<le> 2147483648 * 1000000000"
proof -
  let ?ts = "\<lparr>ts_seconds = 1700000000, ts_fraction = 2147483648\<rparr>"
  have "unat (sntp_fraction_to_nsec (ts_fraction ?ts)) = 500000000" unfolding fraction_scaled by simp
  then have "set_clock_from_sntp (2 ^ 31 - 1) 0 ?ts (time_boot \<lparr>tv_sec = 0, tv_nsec = 0\<rparr>) =
      (True, (time_boot \<lparr>tv_sec = 1700000000, tv_nsec = 500000000\<rparr>)\<lparr>synced := True\<rparr>)"
    by (simp add: set_clock_from_sntp_def time_boot_def)
  from time_stamp_exact [OF this _ refl] show ?thesis by (simp add: time_boot_def)
qed

end
