(* ===== verification/Rover.thy ===== *)
theory Rover
  imports App_Time App_Recovery Complex_Main
begin

text \<open>
  The rover (\<open>applications/rasprover\<close>): the wheel motors with their stop on silence
  (\<open>app_motors.c\<close>), the gimbal (\<open>app_gimbal.c\<close>), and the ROS commands and messages
  (\<open>app_picoros.c\<close>). A float is a rational; not-a-number, infinities and rounding are not
  modelled. The actuators, the serialiser and the ROS session answer through inputs.
\<close>

section \<open>The wheels\<close>

record rover_config =
  WHEEL_SEPARATION_MM :: nat
  MAX_SPEED_MM_S :: nat
  CMD_TIMEOUT_MS :: nat

definition clamp_rat :: "rat \<Rightarrow> rat \<Rightarrow> rat \<Rightarrow> rat" where
  "clamp_rat v low high = (if v \<le> low then low else if v < high then v else high)"

text \<open>The duties \<open>app_motors_cmd_vel\<close> computes, left and right.\<close>

definition wheel_duties :: "rover_config \<Rightarrow> rat \<Rightarrow> rat \<Rightarrow> rat \<times> rat" where
  "wheel_duties C linear_x angular_z =
     (let half_track_m = of_nat (WHEEL_SEPARATION_MM C) / 2000;
          max_speed_m_s = of_nat (MAX_SPEED_MM_S C) / 1000;
          v_left = linear_x - angular_z * half_track_m;
          v_right = linear_x + angular_z * half_track_m
      in (clamp_rat (v_left / max_speed_m_s) (- 1) 1, clamp_rat (v_right / max_speed_m_s) (- 1) 1))"

text \<open>
  The commands come from the ROS read task, the watchdog runs in the system work queue. Both write
  one actuator after the other, so each is cut between its calls; \<open>cmd_watchdog\<close> is the time the
  work item is due at. The flag given with a write tells whether the driver took it; the code
  ignores it.
\<close>

datatype cmd_pc = Cmd_idle | Cmd_right rat | Cmd_arm
datatype wdg_pc = Wdg_idle | Wdg_stop_right | Wdg_coast_left | Wdg_coast_right

record rover_motors =
  rm_ready :: bool
  duty_left :: rat
  duty_right :: rat
  coast_left :: bool
  coast_right :: bool
  cmd_watchdog :: "nat option"
  cmd_at :: cmd_pc
  wdg_at :: wdg_pc

definition motors_boot :: rover_motors where
  "motors_boot = \<lparr>rm_ready = False, duty_left = 0, duty_right = 0, coast_left = False, coast_right = False, cmd_watchdog = None,
     cmd_at = Cmd_idle, wdg_at = Wdg_idle\<rparr>"

definition app_motors_init :: "bool \<Rightarrow> bool \<Rightarrow> rover_motors \<Rightarrow> bool \<times> rover_motors" where
  "app_motors_init devices_ready enabled s =
     (if devices_ready \<and> enabled then (True, s\<lparr>rm_ready := True\<rparr>) else (False, s))"

text \<open>A setpoint takes the stage out of coasting.\<close>

definition set_left :: "bool \<Rightarrow> rat \<Rightarrow> rover_motors \<Rightarrow> rover_motors" where
  "set_left ok d s = (if ok then s\<lparr>duty_left := d, coast_left := False\<rparr> else s)"

definition set_right :: "bool \<Rightarrow> rat \<Rightarrow> rover_motors \<Rightarrow> rover_motors" where
  "set_right ok d s = (if ok then s\<lparr>duty_right := d, coast_right := False\<rparr> else s)"

definition app_motors_cmd_vel :: "rover_config \<Rightarrow> bool \<Rightarrow> rat \<Rightarrow> rat \<Rightarrow> rover_motors \<Rightarrow> rover_motors" where
  "app_motors_cmd_vel C ok linear_x angular_z s =
     (if \<not> rm_ready s then s
      else (case wheel_duties C linear_x angular_z of (l, r) \<Rightarrow> set_left ok l (s\<lparr>cmd_at := Cmd_right r\<rparr>)))"

definition cmd_vel_continue :: "rover_config \<Rightarrow> bool \<Rightarrow> nat \<Rightarrow> rover_motors \<Rightarrow> rover_motors" where
  "cmd_vel_continue C ok now s =
     (case cmd_at s of
        Cmd_idle \<Rightarrow> s
      | Cmd_right r \<Rightarrow> set_right ok r (s\<lparr>cmd_at := Cmd_arm\<rparr>)
      | Cmd_arm \<Rightarrow> s\<lparr>cmd_watchdog := Some (now + CMD_TIMEOUT_MS C), cmd_at := Cmd_idle\<rparr>)"

definition cmd_watchdog_handler :: "bool \<Rightarrow> rover_motors \<Rightarrow> rover_motors" where
  "cmd_watchdog_handler ok s =
     (case wdg_at s of
        Wdg_idle \<Rightarrow> set_left ok 0 (s\<lparr>cmd_watchdog := None, wdg_at := Wdg_stop_right\<rparr>)
      | Wdg_stop_right \<Rightarrow> set_right ok 0 (s\<lparr>wdg_at := Wdg_coast_left\<rparr>)
      | Wdg_coast_left \<Rightarrow> (if ok then s\<lparr>coast_left := True\<rparr> else s)\<lparr>wdg_at := Wdg_coast_right\<rparr>
      | Wdg_coast_right \<Rightarrow> (if ok then s\<lparr>coast_right := True\<rparr> else s)\<lparr>wdg_at := Wdg_idle\<rparr>)"

text \<open>
  The turns, each with the time and the driver's answer. The watchdog starts when it is due; a
  command starts when the one before has ended.
\<close>

datatype rover_turn = Init bool bool | Twist rat rat bool | Twist_more bool nat | Wdg_turn bool nat

fun rover_enabled :: "rover_turn \<Rightarrow> rover_motors \<Rightarrow> bool" where
  "rover_enabled (Init d e) s \<longleftrightarrow> \<not> rm_ready s"
| "rover_enabled (Twist x z ok) s \<longleftrightarrow> cmd_at s = Cmd_idle"
| "rover_enabled (Twist_more ok now) s \<longleftrightarrow> cmd_at s \<noteq> Cmd_idle"
| "rover_enabled (Wdg_turn ok now) s \<longleftrightarrow> wdg_at s \<noteq> Wdg_idle \<or> (\<exists>d. cmd_watchdog s = Some d \<and> d \<le> now)"

fun rover_step :: "rover_config \<Rightarrow> rover_turn \<Rightarrow> rover_motors \<Rightarrow> rover_motors" where
  "rover_step C (Init d e) s = snd (app_motors_init d e s)"
| "rover_step C (Twist x z ok) s = app_motors_cmd_vel C ok x z s"
| "rover_step C (Twist_more ok now) s = cmd_vel_continue C ok now s"
| "rover_step C (Wdg_turn ok now) s = cmd_watchdog_handler ok s"

definition rover_run :: "rover_config \<Rightarrow> rover_turn list \<Rightarrow> rover_motors" where
  "rover_run C ts = fold (\<lambda>t s. if rover_enabled t s then rover_step C t s else s) ts motors_boot"

lemma rover_run_Nil: "rover_run C [] = motors_boot"
  by (simp add: rover_run_def)

lemma rover_run_snoc:
  "rover_run C (ts @ [t]) = (if rover_enabled t (rover_run C ts) then rover_step C t (rover_run C ts) else rover_run C ts)"
  by (simp add: rover_run_def)

text \<open>
  What the history says. A command is complete when it arms the watchdog; \<open>completes\<close> is that one is
  complete among the later turns. A stop of a wheel was refused when the watchdog's write of zero to
  it (its first step for the left wheel, its second for the right one) was not taken by the driver,
  and no command has been completed since.
\<close>

definition completes :: "rover_config \<Rightarrow> rover_turn list \<Rightarrow> rover_turn list \<Rightarrow> bool" where
  "completes C pre post \<longleftrightarrow>
     (\<exists>p1 ok t p2. post = p1 @ Twist_more ok t # p2 \<and> cmd_at (rover_run C (pre @ p1)) = Cmd_arm)"

definition stop_refused :: "rover_config \<Rightarrow> wdg_pc \<Rightarrow> rover_turn list \<Rightarrow> bool" where
  "stop_refused C at_pc ts \<longleftrightarrow> (\<exists>pre now post. ts = pre @ Wdg_turn False now # post \<and>
     rover_enabled (Wdg_turn False now) (rover_run C pre) \<and> wdg_at (rover_run C pre) = at_pc \<and>
     \<not> completes C (pre @ [Wdg_turn False now]) post)"

lemma completes_Nil [simp]: "\<not> completes C pre []"
  by (simp add: completes_def)

lemma completes_snoc:
  "completes C pre (post @ [t]) \<longleftrightarrow>
     completes C pre post \<or> (\<exists>ok now. t = Twist_more ok now) \<and> cmd_at (rover_run C (pre @ post)) = Cmd_arm"
proof
  assume "completes C pre (post @ [t])"
  then obtain p1 ok u p2 where c: "post @ [t] = p1 @ Twist_more ok u # p2" "cmd_at (rover_run C (pre @ p1)) = Cmd_arm"
    unfolding completes_def by blast
  show "completes C pre post \<or> (\<exists>ok now. t = Twist_more ok now) \<and> cmd_at (rover_run C (pre @ post)) = Cmd_arm"
  proof (cases p2 rule: rev_cases)
    case Nil
    with c show ?thesis by auto
  next
    case (snoc q x)
    with c(1) have "post = p1 @ Twist_more ok u # q" by simp
    with c(2) show ?thesis unfolding completes_def by blast
  qed
next
  assume "completes C pre post \<or> (\<exists>ok now. t = Twist_more ok now) \<and> cmd_at (rover_run C (pre @ post)) = Cmd_arm"
  then show "completes C pre (post @ [t])" unfolding completes_def by fastforce
qed

lemma stop_refused_now:
  assumes "rover_enabled (Wdg_turn False now) (rover_run C ts)" and "wdg_at (rover_run C ts) = at_pc"
  shows "stop_refused C at_pc (ts @ [Wdg_turn False now])"
proof -
  have "ts @ [Wdg_turn False now] = ts @ Wdg_turn False now # [] \<and> \<not> completes C (ts @ [Wdg_turn False now]) []" by simp
  with assms show ?thesis unfolding stop_refused_def by blast
qed

lemma stop_refused_snoc:
  assumes "stop_refused C at_pc ts" and "\<not> ((\<exists>ok now. t = Twist_more ok now) \<and> cmd_at (rover_run C ts) = Cmd_arm)"
  shows "stop_refused C at_pc (ts @ [t])"
proof -
  obtain pre now post where c: "ts = pre @ Wdg_turn False now # post" "rover_enabled (Wdg_turn False now) (rover_run C pre)"
    "wdg_at (rover_run C pre) = at_pc" "\<not> completes C (pre @ [Wdg_turn False now]) post"
    using assms(1) unfolding stop_refused_def by blast
  have "ts @ [t] = pre @ Wdg_turn False now # (post @ [t])" by (simp add: c(1))
  moreover have "\<not> completes C (pre @ [Wdg_turn False now]) (post @ [t])"
    using c(4) assms(2) by (auto simp: completes_snoc c(1))
  ultimately show ?thesis using c(2,3) unfolding stop_refused_def by blast
qed

definition wheels_inv :: "rover_config \<Rightarrow> rover_turn list \<Rightarrow> rover_motors \<Rightarrow> bool" where
  "wheels_inv C ts s \<longleftrightarrow>
     (duty_left s \<noteq> 0 \<longrightarrow> cmd_watchdog s \<noteq> None \<or> cmd_at s \<noteq> Cmd_idle \<or> stop_refused C Wdg_idle ts) \<and>
     (duty_right s \<noteq> 0 \<longrightarrow> cmd_watchdog s \<noteq> None \<or> cmd_at s \<noteq> Cmd_idle \<or> wdg_at s = Wdg_stop_right \<or>
        stop_refused C Wdg_stop_right ts) \<and>
     \<bar>duty_left s\<bar> \<le> 1 \<and> \<bar>duty_right s\<bar> \<le> 1 \<and> (\<forall>r. cmd_at s = Cmd_right r \<longrightarrow> \<bar>r\<bar> \<le> 1)"

lemma clamp_unit: "\<bar>clamp_rat v (- 1) 1\<bar> \<le> 1"
  by (auto simp: clamp_rat_def abs_if)

lemma duties_unit: "wheel_duties C x z = (l, r) \<Longrightarrow> \<bar>l\<bar> \<le> 1 \<and> \<bar>r\<bar> \<le> 1"
  using clamp_unit by (auto simp: wheel_duties_def Let_def)

lemma wheels_step:
  assumes "wheels_inv C ts s" and "s = rover_run C ts" and "rover_enabled t s"
  shows "wheels_inv C (ts @ [t]) (rover_step C t s)"
proof -
  have keep: "stop_refused C pc ts \<Longrightarrow> stop_refused C pc (ts @ [t]) \<or> cmd_watchdog (rover_step C t s) \<noteq> None" for pc
    using stop_refused_snoc [of C pc ts t] assms(2)
    by (cases t; cases "cmd_at s") (auto simp: cmd_vel_continue_def)
  note keep = keep [of Wdg_idle] keep [of Wdg_stop_right]
  show ?thesis
  proof (cases t)
    case (Twist x z ok)
    obtain l r where d: "wheel_duties C x z = (l, r)" by fastforce
    show ?thesis using assms(1) keep duties_unit [OF d]
      by (auto simp: Twist d wheels_inv_def app_motors_cmd_vel_def set_left_def)
  next
    case (Twist_more ok now)
    show ?thesis using assms(1,3) keep
      by (cases "cmd_at s") (auto simp: Twist_more wheels_inv_def cmd_vel_continue_def set_right_def)
  next
    case (Wdg_turn ok now)
    have now: "\<not> ok \<Longrightarrow> stop_refused C (wdg_at s) (ts @ [t])"
      using stop_refused_now [of now C ts "wdg_at s", folded assms(2)] assms(3) by (simp add: Wdg_turn)
    have L: "duty_left s \<noteq> 0 \<Longrightarrow> cmd_watchdog s \<noteq> None \<or> cmd_at s \<noteq> Cmd_idle \<or> stop_refused C Wdg_idle ts"
      and R: "duty_right s \<noteq> 0 \<Longrightarrow> cmd_watchdog s \<noteq> None \<or> cmd_at s \<noteq> Cmd_idle \<or> wdg_at s = Wdg_stop_right \<or>
        stop_refused C Wdg_stop_right ts"
      and bounds: "\<bar>duty_left s\<bar> \<le> 1" "\<bar>duty_right s\<bar> \<le> 1" "\<forall>r. cmd_at s = Cmd_right r \<longrightarrow> \<bar>r\<bar> \<le> 1"
      using assms(1) by (simp_all add: wheels_inv_def)
    show ?thesis
      using bounds now L R keep
      by (cases ok; cases "wdg_at s")
        (simp_all add: Wdg_turn wheels_inv_def cmd_watchdog_handler_def set_left_def set_right_def, (blast | argo)+)
  qed (use assms(1) keep in \<open>auto simp: wheels_inv_def app_motors_init_def\<close>)
qed

lemma wheels_run: "wheels_inv C ts (rover_run C ts)"
proof (induction ts rule: rev_induct)
  case Nil
  show ?case by (simp add: rover_run_Nil motors_boot_def wheels_inv_def)
next
  case (snoc t ts)
  show ?case
  proof (cases "rover_enabled t (rover_run C ts)")
    case True
    with wheels_step [OF snoc refl] show ?thesis by (simp add: rover_run_snoc)
  next
    case False
    then have "stop_refused C pc ts \<Longrightarrow> stop_refused C pc (ts @ [t])" for pc
      by (rule_tac stop_refused_snoc) auto
    with snoc False show ?thesis unfolding rover_run_snoc wheels_inv_def by auto
  qed
qed

text \<open>A pending watchdog is due the timeout after the last completed command.\<close>

definition last_command :: "rover_config \<Rightarrow> rover_turn list \<Rightarrow> nat \<Rightarrow> bool" where
  "last_command C ts t \<longleftrightarrow> (\<exists>pre ok post. ts = pre @ Twist_more ok t # post \<and> cmd_at (rover_run C pre) = Cmd_arm \<and>
     \<not> completes C (pre @ [Twist_more ok t]) post)"

lemma last_command_snoc:
  assumes "last_command C ts now" and "\<not> ((\<exists>ok now. t = Twist_more ok now) \<and> cmd_at (rover_run C ts) = Cmd_arm)"
  shows "last_command C (ts @ [t]) now"
proof -
  obtain pre ok post where c: "ts = pre @ Twist_more ok now # post" "cmd_at (rover_run C pre) = Cmd_arm"
    "\<not> completes C (pre @ [Twist_more ok now]) post" using assms(1) unfolding last_command_def by blast
  have "ts @ [t] = pre @ Twist_more ok now # (post @ [t])" by (simp add: c(1))
  moreover have "\<not> completes C (pre @ [Twist_more ok now]) (post @ [t])"
    using c(3) assms(2) by (auto simp: completes_snoc c(1))
  ultimately show ?thesis using c(2) unfolding last_command_def by blast
qed

lemma due_run:
  "cmd_watchdog (rover_run C ts) = Some d \<Longrightarrow> \<exists>t. last_command C ts t \<and> d = t + CMD_TIMEOUT_MS C"
proof (induction ts arbitrary: d rule: rev_induct)
  case Nil
  then show ?case by (simp add: rover_run_Nil motors_boot_def)
next
  case (snoc t ts)
  let ?s = "rover_run C ts"
  show ?case
  proof (cases "(\<exists>ok now. t = Twist_more ok now) \<and> cmd_at ?s = Cmd_arm")
    case True
    then obtain ok now where t: "t = Twist_more ok now" "cmd_at ?s = Cmd_arm" by blast
    then have "d = now + CMD_TIMEOUT_MS C" using snoc.prems by (simp add: rover_run_snoc cmd_vel_continue_def)
    moreover have "ts @ [t] = ts @ Twist_more ok now # [] \<and> \<not> completes C (ts @ [Twist_more ok now]) []" by (simp add: t(1))
    then have "last_command C (ts @ [t]) now" unfolding last_command_def using t(2) by blast
    ultimately show ?thesis by blast
  next
    case False
    have "cmd_watchdog ?s = Some d"
      using snoc.prems False
      by (cases t; cases "cmd_at ?s"; cases "wdg_at ?s")
        (auto simp: rover_run_snoc app_motors_init_def app_motors_cmd_vel_def cmd_vel_continue_def
          cmd_watchdog_handler_def set_left_def set_right_def split: if_splits prod.splits)
    from snoc.IH [OF this] last_command_snoc [OF _ False] show ?thesis by blast
  qed
qed

text \<open>
  C37. Silence stops the wheels. Through any interleaving of twists and of the watchdog, down to the
  single writes to the actuators, whatever speeds are asked for and whichever writes the drivers
  refuse: the duties stay within full duty, and when a wheel is driven while no command and no stop
  is under way, then either the stop is scheduled, at exactly the timeout after the last completed
  command (from that time on the watchdog's turn is enabled, and once the drivers take its writes
  both wheels are without drive and coasting), or the driver refused that wheel's zero in a
  watchdog's turn and no command has been completed since.
\<close>

theorem rover_silence_stops:
  assumes "s = rover_run C ts" and "cmd_at s = Cmd_idle" and "wdg_at s = Wdg_idle"
  shows "\<bar>duty_left s\<bar> \<le> 1 \<and> \<bar>duty_right s\<bar> \<le> 1 \<and>
    (let scheduled = (\<exists>t. last_command C ts t \<and> cmd_watchdog s = Some (t + CMD_TIMEOUT_MS C) \<and>
           (\<forall>ok now. t + CMD_TIMEOUT_MS C \<le> now \<longrightarrow> rover_enabled (Wdg_turn ok now) s) \<and>
           (let u = (cmd_watchdog_handler True ^^ 4) s
            in duty_left u = 0 \<and> duty_right u = 0 \<and> coast_left u \<and> coast_right u))
     in (duty_left s \<noteq> 0 \<longrightarrow> scheduled \<or> stop_refused C Wdg_idle ts) \<and>
        (duty_right s \<noteq> 0 \<longrightarrow> scheduled \<or> stop_refused C Wdg_stop_right ts))"
proof -
  have inv: "wheels_inv C ts s" unfolding assms(1) by (rule wheels_run)
  have coast: "let u = (cmd_watchdog_handler True ^^ 4) s
      in duty_left u = 0 \<and> duty_right u = 0 \<and> coast_left u \<and> coast_right u"
    using assms(3) by (simp add: numeral_eq_Suc cmd_watchdog_handler_def set_left_def set_right_def)
  have "\<exists>t. last_command C ts t \<and> cmd_watchdog s = Some (t + CMD_TIMEOUT_MS C) \<and>
      (\<forall>ok now. t + CMD_TIMEOUT_MS C \<le> now \<longrightarrow> rover_enabled (Wdg_turn ok now) s)" if some: "cmd_watchdog s \<noteq> None"
  proof -
    obtain d where d: "cmd_watchdog s = Some d" using some by blast
    with due_run [of C ts d] assms(1) obtain t where "last_command C ts t" "d = t + CMD_TIMEOUT_MS C" by blast
    with d show ?thesis by auto
  qed
  with inv coast assms(2,3) show ?thesis unfolding wheels_inv_def Let_def by auto
qed

text \<open>Left alone, the watchdog leaves both wheels without drive and coasting.\<close>

lemma watchdog_coasts:
  assumes "wdg_at s = Wdg_idle" and "t = (cmd_watchdog_handler True ^^ 4) s"
  shows "duty_left t = 0 \<and> duty_right t = 0 \<and> coast_left t \<and> coast_right t \<and> wdg_at t = Wdg_idle \<and> cmd_watchdog t = None"
  using assms by (simp add: numeral_eq_Suc cmd_watchdog_handler_def set_left_def set_right_def)

text \<open>A zero that the driver refuses is not tried again: the wheel goes on until the next command.\<close>

lemma refused_stop_is_final:
  "duty_left ((cmd_watchdog_handler False ^^ 4) s) = duty_left s \<and> (wdg_at s = Wdg_idle \<longrightarrow>
     cmd_watchdog ((cmd_watchdog_handler False ^^ 4) s) = None)"
  by (cases "wdg_at s") (simp_all add: numeral_eq_Suc cmd_watchdog_handler_def set_left_def set_right_def)

text \<open>Within the wheels' speed the two duties carry the twist.\<close>

lemma duties_carry_twist:
  assumes "0 < MAX_SPEED_MM_S C" and "m = of_nat (MAX_SPEED_MM_S C) / 1000" and "h = of_nat (WHEEL_SEPARATION_MM C) / 2000"
    and "\<bar>x - z * h\<bar> \<le> m" and "\<bar>x + z * h\<bar> \<le> m" and "wheel_duties C x z = (l, r)"
  shows "(l + r) / 2 * m = x \<and> (r - l) / 2 * m = z * h"
proof -
  have m: "0 < m" using assms(1,2) by simp
  have same: "clamp_rat (v / m) (- 1) 1 = v / m" if "\<bar>v\<bar> \<le> m" for v
  proof -
    have "- 1 \<le> v / m" "v / m \<le> 1" using that m by (simp_all add: field_simps)
    then show ?thesis by (auto simp: clamp_rat_def)
  qed
  have "l = (x - z * h) / m" "r = (x + z * h) / m"
    using assms(6) unfolding wheel_duties_def Let_def assms(2,3) [symmetric] same [OF assms(4)] same [OF assms(5)] by simp_all
  with m show ?thesis by (simp add: field_simps)
qed

section \<open>The gimbal\<close>

definition GIMBAL_CMD_MAX_JOINTS :: nat where [const_simps]: "GIMBAL_CMD_MAX_JOINTS = 8"

text \<open>A decoded message: names (a null name is \<open>None\<close>) and positions, up to the capacity.\<close>

definition gimbal_match :: "string option list \<Rightarrow> rat list \<Rightarrow> rat option \<times> rat option" where
  "gimbal_match names positions =
     fold (\<lambda>(name, position) (pan, tilt).
             if name = Some ''pan_joint'' then (Some position, tilt)
             else if name = Some ''tilt_joint'' then (pan, Some position) else (pan, tilt))
       (zip (take GIMBAL_CMD_MAX_JOINTS names) (take GIMBAL_CMD_MAX_JOINTS positions)) (None, None)"

datatype gimbal_axis = Pan | Tilt

definition app_gimbal_set_positions :: "bool \<Rightarrow> rat \<Rightarrow> rat \<Rightarrow> (gimbal_axis \<times> rat) list" where
  "app_gimbal_set_positions ready pan_rad tilt_rad = (if \<not> ready then [] else [(Pan, pan_rad), (Tilt, tilt_rad)])"

definition gimbal_cmd_handler :: "bool \<Rightarrow> (string option list \<times> rat list) option \<Rightarrow> (gimbal_axis \<times> rat) list" where
  "gimbal_cmd_handler ready cmd =
     (case cmd of None \<Rightarrow> []
      | Some (names, positions) \<Rightarrow>
          (case gimbal_match names positions of
             (Some pan, Some tilt) \<Rightarrow> app_gimbal_set_positions ready pan tilt
           | _ \<Rightarrow> []))"

definition app_gimbal_init :: "bool \<Rightarrow> bool \<Rightarrow> bool \<Rightarrow> bool" where
  "app_gimbal_init bus_ok devices_ready enabled \<longleftrightarrow> bus_ok \<and> devices_ready \<and> enabled"

text \<open>The last entry of a name counts.\<close>

definition last_position :: "string \<Rightarrow> string option list \<Rightarrow> rat list \<Rightarrow> rat option" where
  "last_position joint names positions =
     map_of (rev (zip (take GIMBAL_CMD_MAX_JOINTS names) (take GIMBAL_CMD_MAX_JOINTS positions))) (Some joint)"

lemma gimbal_match_last: "gimbal_match names positions = (last_position ''pan_joint'' names positions, last_position ''tilt_joint'' names positions)"
proof -
  have "fold (\<lambda>(name, position) (pan, tilt).
             if name = Some ''pan_joint'' then (Some position, tilt)
             else if name = Some ''tilt_joint'' then (pan, Some position) else (pan, tilt)) xs (None, None) =
      (map_of (rev xs) (Some ''pan_joint''), map_of (rev xs) (Some ''tilt_joint''))" for xs :: "(string option \<times> rat) list"
    by (induction xs rule: rev_induct) (auto split: prod.splits)
  then show ?thesis by (simp add: gimbal_match_def last_position_def)
qed

text \<open>
  A gimbal command moves both axes or neither. Whatever the order, the number and the repetition
  of the joints in a message: if both joints are named with a position and the gimbal is ready, each
  axis gets the last position given for its name; in every other case no setpoint is written.
\<close>

lemma gimbal_moves_both_or_neither:
  "gimbal_cmd_handler ready (Some (names, positions)) =
     (case (last_position ''pan_joint'' names positions, last_position ''tilt_joint'' names positions) of
        (Some pan, Some tilt) \<Rightarrow> if ready then [(Pan, pan), (Tilt, tilt)] else []
      | _ \<Rightarrow> [])"
  by (auto simp: gimbal_cmd_handler_def gimbal_match_last app_gimbal_set_positions_def split: option.splits)

section \<open>Publishing\<close>

record joint =
  joint_name :: string
  joint_position :: rat
  joint_velocity :: rat

text \<open>The feedback of one actuator: its position and velocity, where valid, or a failed read.\<close>

definition read_joint :: "(rat option \<times> rat option) option \<Rightarrow> string \<Rightarrow> joint option" where
  "read_joint fb name =
     (case fb of None \<Rightarrow> None
      | Some (None, _) \<Rightarrow> None
      | Some (Some p, v) \<Rightarrow> Some \<lparr>joint_name = name, joint_position = p, joint_velocity = (case v of None \<Rightarrow> 0 | Some v \<Rightarrow> v)\<rparr>)"

definition read_two :: "bool \<Rightarrow> (rat option \<times> rat option) option \<Rightarrow> (rat option \<times> rat option) option \<Rightarrow> string \<Rightarrow> string \<Rightarrow> joint list option" where
  "read_two ready fb1 fb2 name1 name2 =
     (if \<not> ready then None
      else case read_joint fb1 name1 of None \<Rightarrow> None
           | Some j1 \<Rightarrow> (case read_joint fb2 name2 of None \<Rightarrow> None | Some j2 \<Rightarrow> Some [j1, j2]))"

definition app_motors_read_joint_state where
  "app_motors_read_joint_state ready fb1 fb2 = read_two ready fb1 fb2 ''left_wheel_joint'' ''right_wheel_joint''"

definition app_gimbal_read_joint_state where
  "app_gimbal_read_joint_state ready fb1 fb2 = read_two ready fb1 fb2 ''pan_joint'' ''tilt_joint''"

record joint_state_msg =
  js_stamp :: app_ros_time
  js_name :: "string list"
  js_position :: "rat list"
  js_velocity :: "rat list"

record picoros_state =
  pr_ready :: bool
  joint_state_ready :: bool

datatype ros_out = Published joint_state_msg | Confirmed | Rescheduled

text \<open>
  The joint-state work item: \<open>len\<close> is the length the serialiser returns, \<open>pub_ok\<close> the answer of the
  publisher. A wheel or gimbal that cannot be read is \<open>None\<close>; \<open>with_gimbal\<close> is the build option.
\<close>

definition joint_state_work_handler ::
  "bool \<Rightarrow> joint list option \<Rightarrow> joint list option \<Rightarrow> app_ros_time \<Rightarrow> (joint_state_msg \<Rightarrow> nat) \<Rightarrow> bool \<Rightarrow> picoros_state \<Rightarrow> ros_out list" where
  "joint_state_work_handler with_gimbal wheels gimbal stamp len pub_ok s =
     (if \<not> pr_ready s \<or> \<not> joint_state_ready s then [Rescheduled]
      else case wheels of None \<Rightarrow> [Rescheduled]
           | Some ws \<Rightarrow>
               (case (if with_gimbal then gimbal else Some []) of None \<Rightarrow> [Rescheduled]
                | Some gs \<Rightarrow>
                    (let joints = ws @ gs;
                         msg = \<lparr>js_stamp = stamp, js_name = map joint_name joints, js_position = map joint_position joints,
                                js_velocity = map joint_velocity joints\<rparr>
                     in (if len msg = 0 then [] else Published msg # (if pub_ok then [Confirmed] else [])) @ [Rescheduled])))"

text \<open>
  The start of the session: the answers of the interface, the node, the battery publisher and the
  joint-state publisher. A failed subscription only warns.
\<close>

definition app_picoros_init :: "bool \<Rightarrow> bool \<Rightarrow> bool \<Rightarrow> bool \<Rightarrow> picoros_state \<Rightarrow> bool \<times> picoros_state" where
  "app_picoros_init interface_ok node_ok battery_ok joints_ok s =
     (if \<not> interface_ok then (False, s)
      else if \<not> node_ok then (False, s)
      else if \<not> battery_ok then (False, s)
      else (True, s\<lparr>joint_state_ready := joint_state_ready s \<or> joints_ok, pr_ready := True\<rparr>))"

text \<open>Whether a battery state is published, and whether the image is confirmed by it.\<close>

definition app_picoros_publish_power :: "nat \<Rightarrow> bool \<Rightarrow> picoros_state \<Rightarrow> bool \<times> bool" where
  "app_picoros_publish_power len pub_ok s =
     (if \<not> pr_ready s \<or> len = 0 then (False, False) else (True, pub_ok))"

text \<open>A message lists wheels before gimbal, its three sequences in step, and is the only ground for a confirmation.\<close>

lemma joint_state_in_step:
  assumes "out = joint_state_work_handler g wheels gimbal stamp len ok s"
  shows "last out = Rescheduled \<and> (Confirmed \<in> set out \<longrightarrow> ok \<and> (\<exists>msg. Published msg \<in> set out)) \<and>
    (Published msg \<in> set out \<longrightarrow> length (js_position msg) = length (js_name msg) \<and> length (js_velocity msg) = length (js_name msg))"
  using assms by (auto simp: joint_state_work_handler_def Let_def split: option.splits if_splits)

section \<open>A concrete drive\<close>

definition demo_rover :: rover_config where
  "demo_rover = \<lparr>WHEEL_SEPARATION_MM = 125, MAX_SPEED_MM_S = 500, CMD_TIMEOUT_MS = 500\<rparr>"

text \<open>A stop that the left driver refuses, at 508, and one that is still to come.\<close>

theorem rover_silence_stops_witness:
  "(let s = rover_run demo_rover [Init True True, Twist 1 0 True, Twist_more True 7, Twist_more True 8]
    in duty_left s = 1 \<and> (\<exists>t. last_command demo_rover [Init True True, Twist 1 0 True, Twist_more True 7, Twist_more True 8] t \<and>
         cmd_watchdog s = Some (t + 500))) \<and>
   stop_refused demo_rover Wdg_idle ([Init True True, Twist 1 0 True, Twist_more True 7, Twist_more True 8] @
     [Wdg_turn False 508, Wdg_turn True 508, Wdg_turn True 508, Wdg_turn True 508])"
proof -
  let ?ts = "[Init True True, Twist 1 0 True, Twist_more True 7, Twist_more True 8]"
  let ?us = "[Wdg_turn False 508, Wdg_turn True 508, Wdg_turn True 508, Wdg_turn True 508]"
  have run: "rover_run demo_rover ?ts = \<lparr>rm_ready = True, duty_left = 1, duty_right = 1, coast_left = False, coast_right = False,
      cmd_watchdog = Some 508, cmd_at = Cmd_idle, wdg_at = Wdg_idle\<rparr>"
    "rover_run demo_rover (?ts @ ?us) = \<lparr>rm_ready = True, duty_left = 1, duty_right = 0, coast_left = True, coast_right = True,
      cmd_watchdog = None, cmd_at = Cmd_idle, wdg_at = Wdg_idle\<rparr>"
    by (simp_all add: rover_run_def motors_boot_def app_motors_init_def app_motors_cmd_vel_def cmd_vel_continue_def
        wheel_duties_def cmd_watchdog_handler_def demo_rover_def clamp_rat_def set_left_def set_right_def)
  have limit: "CMD_TIMEOUT_MS demo_rover = 500" by (simp add: demo_rover_def)
  have first: "\<not> stop_refused demo_rover Wdg_idle ?ts" by (auto simp: stop_refused_def Cons_eq_append_conv)
  from rover_silence_stops [OF run(1) [symmetric], unfolded Let_def limit] first
  have "\<exists>t. last_command demo_rover ?ts t \<and> cmd_watchdog (rover_run demo_rover ?ts) = Some (t + 500)"
    unfolding run(1) by auto
  moreover from rover_silence_stops [OF run(2) [symmetric], unfolded Let_def limit]
  have "stop_refused demo_rover Wdg_idle (?ts @ ?us)" by simp
  ultimately show ?thesis unfolding Let_def by (simp only: run(1)) simp
qed

end
