(* ===== verification/C_Number.thy ===== *)
theory C_Number
  imports Complex_Main
begin

text \<open>
  What the programs that compute with floats share: a float or double is a rational, and C converts
  it to an integer by dropping the fraction.
\<close>

section \<open>Conversion\<close>

definition trunc_rat :: "rat \<Rightarrow> int" where
  "trunc_rat x = (if x < 0 then \<lceil>x\<rceil> else \<lfloor>x\<rfloor>)"

lemma trunc_rat_abs: "\<bar>of_int (trunc_rat x)\<bar> \<le> \<bar>x\<bar>"
proof (cases "x < 0")
  case True
  have "of_int \<lceil>x\<rceil> \<le> (0 :: rat)" using True by (simp add: ceiling_le_iff)
  with True le_of_int_ceiling [of x] show ?thesis by (simp add: trunc_rat_def)
next
  case False
  have "(0 :: rat) \<le> of_int \<lfloor>x\<rfloor>" using False by simp
  with False of_int_floor_le [of x] show ?thesis by (simp add: trunc_rat_def)
qed

lemma trunc_rat_bound: "\<bar>x\<bar> \<le> of_int n \<Longrightarrow> \<bar>trunc_rat x\<bar> \<le> n"
  using trunc_rat_abs [of x] by (metis of_int_abs of_int_le_iff order_trans)

end
