(* ===== verification/Rover_Status.thy ===== *)
theory Rover_Status
  imports Rover C_Number Http_Reply
begin

text \<open>
  The rover's sensors, its status page and its start (\<open>app_sensors.c\<close>, \<open>app_network.c\<close>,
  \<open>app_http.c\<close>, \<open>main.c\<close> of \<open>applications/rasprover\<close>).
\<close>

section \<open>Power and network\<close>

record app_power =
  voltage_mv :: int
  current_ma :: int
  power_mw :: int
  uptime_ms :: int

text \<open>The last reading, \<open>None\<close> before the first.\<close>

type_synonym rover_sensors = "app_power option"

definition sensors_publish :: "int \<Rightarrow> rat \<Rightarrow> rat \<Rightarrow> rat \<Rightarrow> rover_sensors" where
  "sensors_publish now v i p =
     Some \<lparr>voltage_mv = trunc_rat (v * 1000), current_ma = trunc_rat (i * 1000), power_mw = trunc_rat (p * 1000), uptime_ms = now\<rparr>"

text \<open>The readings with the result of the fetch; the second result is what is published to ROS.\<close>

definition app_sensors_read_and_stream ::
  "bool \<Rightarrow> int \<Rightarrow> rat \<times> rat \<times> rat \<Rightarrow> int \<Rightarrow> rover_sensors \<Rightarrow> rover_sensors \<times> (rat \<times> rat \<times> rat) option" where
  "app_sensors_read_and_stream ready fetch r now s =
     (if \<not> ready then (s, None)
      else if fetch \<noteq> 0 then (s, None)
      else (case r of (v, i, p) \<Rightarrow> (sensors_publish now v i p, Some r)))"

definition app_sensors_last_power :: "rover_sensors \<Rightarrow> app_power option" where
  "app_sensors_last_power s = s"

text \<open>The network: whether IPv4 is up, and the semaphore the start waits for.\<close>

record rover_net =
  l4_connected :: bool
  l4_connected_sem :: bool

definition l4_event_handler :: "bool \<Rightarrow> rover_net \<Rightarrow> rover_net" where
  "l4_event_handler up s = (if up then s\<lparr>l4_connected := True, l4_connected_sem := True\<rparr> else s\<lparr>l4_connected := False\<rparr>)"

text \<open>The wait of the start: it goes on when the semaphore is given, or after its timeout.\<close>

definition app_net_connect :: "bool list \<Rightarrow> rover_net \<Rightarrow> rover_net" where
  "app_net_connect events s = (fold l4_event_handler events s)\<lparr>l4_connected_sem := False\<rparr>"

definition app_net_ipv4_ready :: "rover_net \<Rightarrow> bool" where
  "app_net_ipv4_ready s = l4_connected s"

section \<open>The status page\<close>

definition STATUS_BODY :: nat where [const_simps]: "STATUS_BODY = 640"

text \<open>The buffer: the length asked for so far, and the text that fitted, without its NUL.\<close>

definition status_append :: "string \<Rightarrow> nat \<times> string \<Rightarrow> nat \<times> string" where
  "status_append s b =
     (case b of (len, body) \<Rightarrow>
        if STATUS_BODY \<le> len then (len, body) else (len + length s, take (STATUS_BODY - 1) (body @ s)))"

abbreviation qt :: "string \<Rightarrow> string" where "qt s \<equiv> CHR 0x22 # s @ [CHR 0x22]"

definition milli :: "rat \<Rightarrow> int" where
  "milli x = trunc_rat (x * 1000)"

definition append_joints :: "string \<Rightarrow> joint list option \<Rightarrow> string list" where
  "append_joints key joints =
     (case joints of None \<Rightarrow> ['','' @ qt key @ '':null'']
      | Some js \<Rightarrow>
          ['','' @ qt key @ '':['']
          @ map (\<lambda>j. (if j \<noteq> 0 then '','' else []) @ ''{'' @ qt ''name'' @ '':'' @ qt (joint_name (js ! j)) @ '','' @
                  qt ''position_mrad'' @ '':'' @ fmt_d (milli (joint_position (js ! j))) @ '','' @
                  qt ''velocity_mrad_s'' @ '':'' @ fmt_d (milli (joint_velocity (js ! j))) @ ''}'') [0..<length js]
          @ ['']''])"

record status_input =
  si_version :: string
  si_uptime :: int
  si_net :: bool
  si_synced :: bool
  si_power :: rover_sensors
  si_age_uptime :: int
  si_wheels :: "joint list option option"
  si_gimbal :: "joint list option option"

text \<open>The pieces in the order they are appended; a part the build leaves out is \<open>None\<close>.\<close>

definition status_pieces :: "status_input \<Rightarrow> string list" where
  "status_pieces i =
     [''{'' @ qt ''version'' @ '':'' @ qt (si_version i) @ '','' @ qt ''uptime_ms'' @ '':'' @ fmt_d (si_uptime i) @ '','' @
        qt ''net'' @ '':'' @ fmt_bool (si_net i) @ '','' @ qt ''time_synced'' @ '':'' @ fmt_bool (si_synced i)]
     @ [case app_sensors_last_power (si_power i) of
          None \<Rightarrow> '','' @ qt ''power'' @ '':null''
        | Some pw \<Rightarrow> '','' @ qt ''power'' @ '':{'' @ qt ''voltage_mv'' @ '':'' @ fmt_d (voltage_mv pw) @ '','' @
            qt ''current_ma'' @ '':'' @ fmt_d (current_ma pw) @ '','' @ qt ''power_mw'' @ '':'' @ fmt_d (power_mw pw) @ '','' @
            qt ''age_ms'' @ '':'' @ fmt_d (si_age_uptime i - uptime_ms pw) @ ''}'']
     @ (case si_wheels i of None \<Rightarrow> [] | Some js \<Rightarrow> append_joints ''wheels'' js)
     @ (case si_gimbal i of None \<Rightarrow> [] | Some js \<Rightarrow> append_joints ''gimbal'' js)
     @ [''}'']"

definition build_status :: "status_input \<Rightarrow> nat \<times> string" where
  "build_status i = fold status_append (status_pieces i) (0, [])"

text \<open>Nothing before the request is whole; then the body, or an error.\<close>

definition status_handler :: "bool \<Rightarrow> status_input \<Rightarrow> (int + string) option" where
  "status_handler final i =
     (if \<not> final then None
      else case build_status i of
        (len, body) \<Rightarrow> if STATUS_BODY \<le> len then Some (Inl (- ENOMEM)) else Some (Inr (take len body)))"

lemma append_run:
  "fold status_append ps (0, []) = (len, body) \<Longrightarrow>
     (if length (concat ps) < STATUS_BODY then len = length (concat ps) \<and> body = concat ps else STATUS_BODY \<le> len)"
proof (induction ps arbitrary: len body rule: rev_induct)
  case (snoc p ps)
  obtain l b where r: "fold status_append ps (0, []) = (l, b)" by fastforce
  have "status_append p (l, b) = (len, body)" using snoc.prems r by simp
  with snoc.IH [OF r] show ?case by (auto simp: status_append_def STATUS_BODY_def split: if_splits)
qed (simp add: STATUS_BODY_def)

text \<open>A page is sent whole or not at all.\<close>

lemma status_whole_or_error:
  "status_handler True i = Some (if length (concat (status_pieces i)) < STATUS_BODY then Inr (concat (status_pieces i)) else Inl (- ENOMEM))"
proof -
  obtain l b where r: "build_status i = (l, b)" by fastforce
  then have "fold status_append (status_pieces i) (0, []) = (l, b)" by (simp add: build_status_def)
  from append_run [OF this] show ?thesis by (auto simp: status_handler_def r split: if_splits)
qed

definition int32 :: "int \<Rightarrow> bool" where "int32 x \<longleftrightarrow> - (2 ^ 31) \<le> x \<and> x < 2 ^ 31"

text \<open>Two joints at most, their names as the motors and the gimbal give them, and values of an \<open>int32_t\<close>.\<close>

definition joints_small :: "joint list option option \<Rightarrow> bool" where
  "joints_small x \<longleftrightarrow> (\<forall>js. x = Some (Some js) \<longrightarrow> length js \<le> 2 \<and>
     (\<forall>j \<in> set js. length (joint_name j) \<le> 17 \<and> int32 (milli (joint_position j)) \<and> int32 (milli (joint_velocity j))))"

lemma joints_length:
  assumes "joints_small (Some x)" and "length key = 6"
  shows "length (concat (append_joints key x)) \<le> 194"
proof (cases x)
  case (Some js)
  have js: "length js \<le> 2" "\<And>j. j \<in> set js \<Longrightarrow> length (joint_name j) \<le> 17 \<and> length (fmt_d (milli (joint_position j))) \<le> 11 \<and> length (fmt_d (milli (joint_velocity j))) \<le> 11"
    using assms(1) Some by (auto simp: joints_small_def int32_def intro!: fmt_d_length)
  define piece where "piece = (\<lambda>j. (if j \<noteq> 0 then '','' else []) @ ''{'' @ qt ''name'' @ '':'' @ qt (joint_name (js ! j)) @ '','' @
                  qt ''position_mrad'' @ '':'' @ fmt_d (milli (joint_position (js ! j))) @ '','' @
                  qt ''velocity_mrad_s'' @ '':'' @ fmt_d (milli (joint_velocity (js ! j))) @ ''}'')"
  have piece: "length (piece j) \<le> 91" if "j < length js" for j
    using js(2) [OF nth_mem [OF that]] by (cases "j = 0") (simp_all add: piece_def)
  from js(1) consider "length js = 0" | "length js = 1" | "length js = 2" by linarith
  then have "length (concat (map piece [0..<length js])) \<le> 182"
    using piece [of 0] piece [of 1] by cases (simp_all add: numeral_2_eq_2)
  then show ?thesis using assms(2) unfolding Some append_joints_def option.case piece_def [symmetric] by simp
qed (use assms(2) in \<open>simp add: append_joints_def\<close>)


text \<open>
  With values of 32 bits, times of 64 bits, a version of up to 32 characters and the names of the
  code, the page always fits.
\<close>

definition status_small :: "status_input \<Rightarrow> bool" where
  "status_small i \<longleftrightarrow> length (si_version i) \<le> 32 \<and> 0 \<le> si_uptime i \<and> si_uptime i < 2 ^ 63 \<and>
     (\<forall>pw. si_power i = Some pw \<longrightarrow> int32 (voltage_mv pw) \<and> int32 (current_ma pw) \<and> int32 (power_mw pw) \<and>
        uptime_ms pw \<le> si_age_uptime i \<and> si_age_uptime i < 2 ^ 63 \<and> 0 \<le> uptime_ms pw) \<and>
     joints_small (si_wheels i) \<and> joints_small (si_gimbal i)"

lemma fmt_64: "0 \<le> i \<Longrightarrow> i < 2 ^ 63 \<Longrightarrow> length (fmt_d i) \<le> 19"
  using dec_text_bound [of "nat i" 19] by (simp add: fmt_d_def nat_less_iff)

lemma joints_part:
  assumes "joints_small x" and "length key = 6"
  shows "length (concat (case x of None \<Rightarrow> [] | Some js \<Rightarrow> append_joints key js)) \<le> 194"
  using assms joints_length by (cases x) auto

lemma status_fits:
  assumes "status_small i"
  shows "status_handler True i = Some (Inr (concat (status_pieces i)))"
proof -
  have parts: "length (concat (case si_wheels i of None \<Rightarrow> [] | Some js \<Rightarrow> append_joints ''wheels'' js)) \<le> 194"
    "length (concat (case si_gimbal i of None \<Rightarrow> [] | Some js \<Rightarrow> append_joints ''gimbal'' js)) \<le> 194"
    using assms by (auto simp: status_small_def intro!: joints_part)
  have up: "length (fmt_d (si_uptime i)) \<le> 19" using assms fmt_64 by (simp add: status_small_def)
  have bools: "length (fmt_bool b) \<le> 5" for b by (simp add: fmt_bool_def)
  define power where "power = (case app_sensors_last_power (si_power i) of
          None \<Rightarrow> '','' @ qt ''power'' @ '':null''
        | Some pw \<Rightarrow> '','' @ qt ''power'' @ '':{'' @ qt ''voltage_mv'' @ '':'' @ fmt_d (voltage_mv pw) @ '','' @
            qt ''current_ma'' @ '':'' @ fmt_d (current_ma pw) @ '','' @ qt ''power_mw'' @ '':'' @ fmt_d (power_mw pw) @ '','' @
            qt ''age_ms'' @ '':'' @ fmt_d (si_age_uptime i - uptime_ms pw) @ ''}'')"
  have power: "length power \<le> 118"
  proof (cases "si_power i")
    case (Some pw)
    then have "length (fmt_d (voltage_mv pw)) \<le> 11" "length (fmt_d (current_ma pw)) \<le> 11" "length (fmt_d (power_mw pw)) \<le> 11"
      "length (fmt_d (si_age_uptime i - uptime_ms pw)) \<le> 19"
      using assms by (auto simp: status_small_def int32_def intro!: fmt_d_length fmt_64)
    then show ?thesis by (simp add: power_def Some app_sensors_last_power_def)
  qed (simp add: power_def app_sensors_last_power_def)
  have "length (concat (status_pieces i)) < STATUS_BODY"
    using parts up bools [of "si_net i"] bools [of "si_synced i"] power assms
    unfolding status_pieces_def power_def [symmetric] concat_append length_append STATUS_BODY_def by (simp add: status_small_def)
  then show ?thesis by (simp add: status_whole_or_error)
qed

section \<open>The start\<close>

text \<open>The loop's delay in seconds; nothing in the program changes it.\<close>

definition LOOP_DELAY_S :: nat where [const_simps]: "LOOP_DELAY_S = 60"

definition get_loop_delay_s :: nat where
  "get_loop_delay_s = LOOP_DELAY_S"

datatype rover_init = Sensors_init | Motors_init | Gimbal_init | Net_connect | Http_start_page | Time_start | Picoros_init | Display_init

text \<open>The steps of the start; \<open>fed\<close> marks where the boot channel is fed before one.\<close>

definition rover_steps :: "bool \<Rightarrow> bool \<Rightarrow> bool \<Rightarrow> bool \<Rightarrow> (bool \<times> rover_init) list" where
  "rover_steps motors gimbal display ipv4_ready =
     [(False, Sensors_init)] @ (if motors then [(False, Motors_init)] else []) @ (if gimbal then [(False, Gimbal_init)] else [])
     @ [(True, Net_connect), (False, Http_start_page)]
     @ (if ipv4_ready then [(True, Time_start), (False, Picoros_init)] else [])
     @ (if display then [(True, Display_init)] else [])"

text \<open>
  The start up to the loop: the steps, the loop's channel and the watchdog; \<open>ch\<close> and \<open>ch'\<close> are the
  channels handed out. The deadline of an image on trial is armed beside it (\<open>App_Recovery\<close>).
\<close>

definition rover_main ::
  "bool \<Rightarrow> bool \<Rightarrow> (bool \<Rightarrow> int) \<Rightarrow> int \<Rightarrow> int \<Rightarrow> (bool \<times> rover_init) list \<Rightarrow> app_wdt \<Rightarrow> (bool \<times> rover_init) list \<times> int \<times> app_wdt" where
  "rover_main aliased hw_ready init ch ch' steps w =
     (let w = snd (app_watchdog_init aliased hw_ready init w);
          (c, w) = app_watchdog_register ch ''boot'' 60000 w;
          w = app_watchdog_unregister c w
      in (steps, app_watchdog_register ch' ''main'' (get_loop_delay_s * 3000 + 10000) w))"

text \<open>In the loop one channel is armed, and it outlasts a round with its sleep.\<close>

lemma rover_main_channel:
  assumes "init False = 0" and "0 \<le> ch" and "0 \<le> ch'" and "rover_main aliased hw_ready init ch ch' steps wdt_off = (steps', c, w)"
  shows "c = ch' \<and> wdt_channels w = [ch' \<mapsto> (''main'', 190000)] \<and> get_loop_delay_s * 1000 < 190000"
  using assms by (cases aliased; cases hw_ready) (auto simp: rover_main_def app_watchdog_init_def app_watchdog_register_def app_watchdog_unregister_def wdt_off_def
      get_loop_delay_s_def LOOP_DELAY_S_def Let_def split: if_splits)

end
