(* ===== verification/Pt_Mcp.thy ===== *)
theory Pt_Mcp
  imports C_Text App_Recovery Http_Reply Complex_Main
begin

text \<open>
  The pan-tilt tool server (\<open>applications/pt_mcp\<close>): the extractors it reads a tool's arguments
  with, the tool \<open>motor_control\<close> and the start. A float is a rational; the actuators, the
  server library and \<open>%.3f\<close> answer through inputs. \<open>strtof\<close> is its decimal syntax: hexadecimal
  numbers, infinities, not-a-number and rounding are not modelled.
\<close>

section \<open>The arguments\<close>

abbreviation quote :: char where "quote \<equiv> CHR 0x22"

abbreviation mcp_ws :: "char \<Rightarrow> bool" where
  "mcp_ws c \<equiv> c = CHR '' '' \<or> c = CHR 0x09 \<or> c = CHR 0x0A \<or> c = CHR 0x0D"

text \<open>A pointer into the text is the text from there on.\<close>

definition json_value_start :: "string option \<Rightarrow> string \<Rightarrow> string option" where
  "json_value_start json key =
     (case json of None \<Rightarrow> None
      | Some json \<Rightarrow>
          (let pattern = take 15 (quote # key @ [quote])
           in case strstr json pattern of None \<Rightarrow> None
              | Some i \<Rightarrow>
                  (case dropWhile (\<lambda>c. c \<noteq> CHR '':'') (drop (i + length pattern) json) of
                     [] \<Rightarrow> None
                   | _ # pos \<Rightarrow> Some (dropWhile mcp_ws pos))))"

definition num_char :: "char \<Rightarrow> bool" where
  "num_char c \<longleftrightarrow> decimal_char c \<or> c \<in> set ''+-.eE''"

definition signed :: "string \<Rightarrow> bool \<times> string" where
  "signed s = (case s of [] \<Rightarrow> (False, []) | c # r \<Rightarrow>
     if c = CHR ''-'' then (True, r) else if c = CHR ''+'' then (False, r) else (False, s))"

definition exponent :: "string \<Rightarrow> int" where
  "exponent s =
     (case s of [] \<Rightarrow> 0 | c # r \<Rightarrow>
        if c \<noteq> CHR ''e'' \<and> c \<noteq> CHR ''E'' then 0
        else (case signed r of (neg, r) \<Rightarrow>
                (let n = int (decimal_from 0 (takeWhile decimal_char r)) in if neg then - n else n)))"

text \<open>The value, or nothing where no number begins.\<close>

definition strtof :: "string \<Rightarrow> rat option" where
  "strtof s =
     (case signed (takeWhile num_char s) of (neg, r) \<Rightarrow>
        (let ip = takeWhile decimal_char r; r = dropWhile decimal_char r;
             (fp, r) = (case r of [] \<Rightarrow> ([], []) | c # r' \<Rightarrow>
                          if c = CHR ''.'' then (takeWhile decimal_char r', dropWhile decimal_char r') else ([], r));
             m = of_nat (decimal_from 0 (ip @ fp)) / 10 ^ length fp
         in if ip = [] \<and> fp = [] then None
            else Some ((if neg then - m else m) * 10 powi exponent r)))"

definition json_get_number :: "string option \<Rightarrow> string \<Rightarrow> rat option" where
  "json_get_number json key = (case json_value_start json key of None \<Rightarrow> None | Some start \<Rightarrow> strtof start)"

definition json_string_equals :: "string option \<Rightarrow> string \<Rightarrow> string \<Rightarrow> bool" where
  "json_string_equals json key expected =
     (case json_value_start json key of
        Some (c # start) \<Rightarrow> c = quote \<and> take (length expected) start = expected \<and>
          take 1 (drop (length expected) start) = [quote]
      | _ \<Rightarrow> False)"

section \<open>The tool\<close>

datatype mcp_event = Tool_call | Tool_cancel

datatype servo = Pan_servo | Tilt_servo

datatype mcp_out =
  Cancel_ack string
| Tool_text string string
| Group_setpoint rat rat
| Servo_setpoint servo rat

text \<open>
  What the outside answers: the feedback of a servo (its result, whether the position is valid, the
  position), the result of the setpoint, that of submitting the answer, and \<open>%.3f\<close>.
\<close>

record mcp_env =
  pan_fb :: "int \<times> bool \<times> rat"
  tilt_fb :: "int \<times> bool \<times> rat"
  setpoint_ret :: int
  submit_ret :: int
  fmt_3f :: "rat \<Rightarrow> string"

definition position_read :: "int \<times> bool \<times> rat \<Rightarrow> bool" where
  "position_read fb = (case fb of (ret, valid, _) \<Rightarrow> ret = 0 \<and> valid)"

text \<open>\<open>snprintk\<close> into the 128 bytes of \<open>buf\<close>.\<close>

definition mcp_buf :: "string \<Rightarrow> string" where
  "mcp_buf s = take 127 s"

definition mcp_set :: "mcp_env \<Rightarrow> string option \<Rightarrow> string \<Rightarrow> int \<times> mcp_out list" where
  "mcp_set e arguments tok =
     (let have_pan = json_get_number arguments ''pan''; have_tilt = json_get_number arguments ''tilt''
      in if have_pan = None \<and> have_tilt = None
         then (- EINVAL, [Tool_text (''Set requires '' @ [quote] @ ''pan'' @ [quote] @ '' and/or '' @ [quote] @ ''tilt'' @ [quote] @ '' (radians)'') tok])
         else
           (let move = (case (have_pan, have_tilt) of
                          (Some p, Some t) \<Rightarrow> Group_setpoint p t
                        | (Some p, None) \<Rightarrow> Servo_setpoint Pan_servo p
                        | (None, t) \<Rightarrow> Servo_setpoint Tilt_servo (the t));
                ret = setpoint_ret e
            in if ret \<noteq> 0
               then (ret, [move, Tool_text (mcp_buf (''Motor setpoint failed: '' @ fmt_d ret)) tok])
               else (submit_ret e,
                     [move, Tool_text (mcp_buf (''Moving:'' @
                        (case have_pan of None \<Rightarrow> [] | Some p \<Rightarrow> '' pan='' @ fmt_3f e p) @
                        (case have_tilt of None \<Rightarrow> [] | Some t \<Rightarrow> '' tilt='' @ fmt_3f e t))) tok])))"

definition motor_control :: "mcp_env \<Rightarrow> bool \<Rightarrow> mcp_event \<Rightarrow> string option \<Rightarrow> string \<Rightarrow> int \<times> mcp_out list" where
  "motor_control e motors_ready event arguments tok =
     (if event = Tool_cancel then (0, [Cancel_ack tok])
      else if \<not> motors_ready then (- ENODEV, [Tool_text ''Motors not initialized'' tok])
      else if json_string_equals arguments ''action'' ''get''
      then (if \<not> position_read (pan_fb e) \<or> \<not> position_read (tilt_fb e)
            then (- EIO, [Tool_text ''Failed to read motor positions'' tok])
            else (submit_ret e, [Tool_text (mcp_buf (''{'' @ [quote] @ ''pan'' @ [quote] @ '':'' @ fmt_3f e (snd (snd (pan_fb e))) @
                    '','' @ [quote] @ ''tilt'' @ [quote] @ '':'' @ fmt_3f e (snd (snd (tilt_fb e))) @ ''}'')) tok]))
      else if json_string_equals arguments ''action'' ''set'' then mcp_set e arguments tok
      else (- EINVAL, [Tool_text ''Invalid action. Use: get or set'' tok]))"

definition TOOL_WDT_TIMEOUT_MS :: nat where [const_simps]: "TOOL_WDT_TIMEOUT_MS = 5000"

definition BOOT_WDT_TIMEOUT_MS :: nat where [const_simps]: "BOOT_WDT_TIMEOUT_MS = 30000"

text \<open>\<open>ch\<close> is the channel the task watchdog hands out.\<close>

definition motor_control_tool_callback ::
  "mcp_env \<Rightarrow> int \<Rightarrow> bool \<Rightarrow> mcp_event \<Rightarrow> string option \<Rightarrow> string \<Rightarrow> app_wdt \<Rightarrow> (int \<times> mcp_out list) \<times> app_wdt" where
  "motor_control_tool_callback e ch motors_ready event arguments tok w =
     (case app_watchdog_register ch ''tool'' TOOL_WDT_TIMEOUT_MS w of
        (c, w) \<Rightarrow> (motor_control e motors_ready event arguments tok, app_watchdog_unregister c w))"

section \<open>The start\<close>

text \<open>
  The answers of the servo bus, the devices and the server library; what is called is listed.
\<close>

record mcp_boot =
  mb_iface :: int
  mb_bus_init :: int
  mb_pan_ready :: bool
  mb_tilt_ready :: bool
  mb_pan_enable :: int
  mb_tilt_enable :: int
  mb_server :: bool
  mb_http_init :: int
  mb_add_tool :: int
  mb_start :: int
  mb_http_start :: int

datatype mcp_call = Enable_servo servo | Server_init | Http_init | Add_tool | Server_start | Http_start

definition motors_init :: "mcp_boot \<Rightarrow> bool \<times> mcp_call list" where
  "motors_init b =
     (if mb_iface b < 0 \<or> mb_bus_init b \<noteq> 0 then (False, [])
      else if \<not> mb_pan_ready b \<or> \<not> mb_tilt_ready b then (False, [])
      else if mb_pan_enable b \<noteq> 0 then (False, [Enable_servo Pan_servo])
      else (mb_tilt_enable b = 0, [Enable_servo Pan_servo, Enable_servo Tilt_servo]))"

text \<open>The result, whether the motors are ready, and the calls in order.\<close>

definition mcp_app_start :: "mcp_boot \<Rightarrow> int \<times> bool \<times> mcp_call list" where
  "mcp_app_start b =
     (case motors_init b of (motors_ready, calls) \<Rightarrow>
        if \<not> mb_server b then (- ENOMEM, motors_ready, calls @ [Server_init])
        else if mb_http_init b \<noteq> 0 then (mb_http_init b, motors_ready, calls @ [Server_init, Http_init])
        else if mb_add_tool b \<noteq> 0 then (mb_add_tool b, motors_ready, calls @ [Server_init, Http_init, Add_tool])
        else if mb_start b \<noteq> 0 then (mb_start b, motors_ready, calls @ [Server_init, Http_init, Add_tool, Server_start])
        else (mb_http_start b, motors_ready, calls @ [Server_init, Http_init, Add_tool, Server_start, Http_start]))"

definition mcp_main :: "mcp_boot \<Rightarrow> bool \<Rightarrow> bool \<Rightarrow> (bool \<Rightarrow> int) \<Rightarrow> int \<Rightarrow> app_wdt \<Rightarrow> (int \<times> bool \<times> mcp_call list) \<times> app_wdt" where
  "mcp_main b aliased hw_ready init ch w =
     (case app_watchdog_init aliased hw_ready init w of (_, w) \<Rightarrow>
        (case app_watchdog_register ch ''boot'' BOOT_WDT_TIMEOUT_MS w of
           (c, w) \<Rightarrow> (mcp_app_start b, app_watchdog_unregister c w)))"

section \<open>Finding a member\<close>







section \<open>Flat argument objects\<close>

































section \<open>Properties\<close>

definition mcp_moves :: "mcp_out list \<Rightarrow> mcp_out list" where
  "mcp_moves out = filter (\<lambda>x. case x of Group_setpoint p t \<Rightarrow> True | Servo_setpoint s p \<Rightarrow> True | _ \<Rightarrow> False) out"


lemma set_moves:
  "mcp_moves (snd (mcp_set e arguments tok)) =
     (case (json_get_number arguments ''pan'', json_get_number arguments ''tilt'') of
        (Some p, Some t) \<Rightarrow> [Group_setpoint p t]
      | (Some p, None) \<Rightarrow> [Servo_setpoint Pan_servo p]
      | (None, Some t) \<Rightarrow> [Servo_setpoint Tilt_servo t]
      | (None, None) \<Rightarrow> [])"
  by (simp add: mcp_set_def mcp_moves_def Let_def split: option.splits)

lemma control_moves:
  "mcp_moves (snd (motor_control e ready event arguments tok)) =
     (if event = Tool_call \<and> ready \<and> \<not> json_string_equals arguments ''action'' ''get'' \<and> json_string_equals arguments ''action'' ''set''
      then mcp_moves (snd (mcp_set e arguments tok)) else [])"
  by (cases event) (auto simp: motor_control_def mcp_moves_def)


text \<open>Every call is answered once, under its token, and leaves the watchdog as it found it.\<close>

definition mcp_answers :: "mcp_out list \<Rightarrow> string list" where
  "mcp_answers out = concat (map (\<lambda>x. case x of Tool_text _ tok \<Rightarrow> [tok] | Cancel_ack tok \<Rightarrow> [tok] | _ \<Rightarrow> []) out)"

lemma tool_answers_once:
  assumes "wdt_channels w ch = None"
  shows "mcp_answers (snd (fst (motor_control_tool_callback e ch ready event arguments tok w))) = [tok] \<and>
    snd (motor_control_tool_callback e ch ready event arguments tok w) = w"
proof -
  obtain c w' where r: "app_watchdog_register ch ''tool'' TOOL_WDT_TIMEOUT_MS w = (c, w')" by fastforce
  have "mcp_answers (snd (mcp_set e arguments tok)) = [tok]"
    by (simp add: mcp_set_def mcp_answers_def Let_def split: option.splits)
  then have "mcp_answers (snd (motor_control e ready event arguments tok)) = [tok]"
    by (auto simp: motor_control_def) (simp_all add: mcp_answers_def)
  with register_unregister [OF r assms] show ?thesis by (simp add: motor_control_tool_callback_def r)
qed

text \<open>The server is started in order and only when every step before it has succeeded.\<close>

lemma mcp_start_in_order:
  assumes "mcp_app_start b = (ret, ready, calls)"
  shows "(Http_start \<in> set calls \<longrightarrow> mb_server b \<and> mb_http_init b = 0 \<and> mb_add_tool b = 0 \<and> mb_start b = 0) \<and>
    (ret = 0 \<longrightarrow> Http_start \<in> set calls) \<and> (ready \<longrightarrow> mb_pan_enable b = 0 \<and> mb_tilt_enable b = 0)"
  using assms by (auto simp: mcp_app_start_def motors_init_def ENOMEM_def split: if_splits)

section \<open>Concrete calls\<close>


definition demo_mcp :: mcp_env where
  "demo_mcp = \<lparr>pan_fb = (0, True, 0), tilt_fb = (0, True, 0), setpoint_ret = 0, submit_ret = 0, fmt_3f = (\<lambda>_. ''0.000'')\<rparr>"


text \<open>A string value that is the name of a setpoint is taken for the member: here the pan moves too.\<close>

definition demo_misread :: string where
  "demo_misread = [CHR ''{'', quote] @ ''action'' @ [quote, CHR '':'', quote] @ ''set'' @ [quote, CHR '','', quote] @ ''why'' @
     [quote, CHR '':'', quote] @ ''pan'' @ [quote, CHR '','', quote] @ ''tilt'' @ [quote, CHR '':''] @ ''1}''"

lemma string_value_moves_pan:
  "mcp_moves (snd (motor_control demo_mcp True Tool_call (Some demo_misread) ''t'')) = [Group_setpoint 1 1]"
proof -
  have num: "strtof ''1}'' = Some 1"
    by (simp add: strtof_def signed_def exponent_def num_char_def decimal_char_def decimal_value_def)
  have start: "json_value_start (Some demo_misread) ''pan'' = Some ''1}''" "json_value_start (Some demo_misread) ''tilt'' = Some ''1}''"
    by (simp_all add: json_value_start_def demo_misread_def strstr.simps)
  have act: "json_string_equals (Some demo_misread) ''action'' ''set''" "\<not> json_string_equals (Some demo_misread) ''action'' ''get''"
    by (simp_all add: json_string_equals_def json_value_start_def demo_misread_def strstr.simps)
  show ?thesis unfolding control_moves set_moves json_get_number_def start option.case num using act by simp
qed

end
