(* ===== verification/Power_Meter.thy ===== *)
theory Power_Meter
  imports C_Number Http_Reply
begin

text \<open>
  The power meter (\<open>applications/powerbread\<close>): the sampling thread with its statistics, energy counters
  and chart (\<open>sampler.c\<close>), the numbers on the display and the page shown (\<open>ui.c\<close>), the dial
  (\<open>input.c\<close>) and the shell (\<open>shell.c\<close>). Floats and doubles are rationals: rounding, infinities and
  not-a-number are not modelled. The sensor and the clock answer through inputs.
\<close>

section \<open>Sampling\<close>

definition PB_NUM_CH :: nat where [const_simps]: "PB_NUM_CH = 2"
definition PB_CHART_POINTS :: nat where [const_simps]: "PB_CHART_POINTS = 160"
definition SAMPLE_PERIOD_MS :: int where [const_simps]: "SAMPLE_PERIOD_MS = 10"
definition CHART_DECIMATION :: nat where [const_simps]: "CHART_DECIMATION = 5"

record pb_reading =
  rd_v :: rat
  rd_ma :: rat
  rd_mw :: rat

record channel_acc =
  ch_v :: rat
  ch_ma :: rat
  ch_mw :: rat
  v_min :: rat
  v_max :: rat
  ma_min :: rat
  ma_max :: rat
  ma_sum :: rat
  ch_n :: u32
  ch_mah :: rat
  ch_mwh :: rat
  ch_chart :: "int list"
  ch_head :: nat

record pb_sampler =
  pb_acc :: "channel_acc list"
  pb_sensor_ok :: bool
  stream_on :: bool

definition pb_zero :: pb_sampler where
  "pb_zero = \<lparr>pb_acc = replicate PB_NUM_CH
      \<lparr>ch_v = 0, ch_ma = 0, ch_mw = 0, v_min = 0, v_max = 0, ma_min = 0, ma_max = 0, ma_sum = 0, ch_n = 0, ch_mah = 0, ch_mwh = 0,
        ch_chart = replicate PB_CHART_POINTS 0, ch_head = 0\<rparr>,
     pb_sensor_ok = False, stream_on = False\<rparr>"

definition reset_channel :: "channel_acc \<Rightarrow> channel_acc" where
  "reset_channel c = c\<lparr>v_min := 10 ^ 9, ma_min := 10 ^ 9, v_max := - (10 ^ 9), ma_max := - (10 ^ 9), ma_sum := 0, ch_n := 0,
     ch_mah := 0, ch_mwh := 0\<rparr>"

definition sampler_reset_stats :: "pb_sampler \<Rightarrow> pb_sampler" where
  "sampler_reset_stats s = s\<lparr>pb_acc := map reset_channel (pb_acc s)\<rparr>"

definition sampler_stream_set :: "bool \<Rightarrow> pb_sampler \<Rightarrow> pb_sampler" where
  "sampler_stream_set enable s = s\<lparr>stream_on := enable\<rparr>"

definition sampler_stream_get :: "pb_sampler \<Rightarrow> bool" where
  "sampler_stream_get s = stream_on s"

record pb_channel_stats =
  st_v :: rat
  st_ma :: rat
  st_mw :: rat
  st_v_min :: rat
  st_v_max :: rat
  st_ma_min :: rat
  st_ma_max :: rat
  st_ma_avg :: rat
  st_mah :: rat
  st_mwh :: rat
  st_chart :: "int list"

record pb_snapshot =
  sn_sensor_ok :: bool
  sn_t_ms :: u32
  sn_ch :: "pb_channel_stats list"

definition channel_stats :: "channel_acc \<Rightarrow> pb_channel_stats" where
  "channel_stats c =
     \<lparr>st_v = ch_v c, st_ma = ch_ma c, st_mw = ch_mw c,
      st_v_min = (if 0 < ch_n c then v_min c else 0), st_v_max = (if 0 < ch_n c then v_max c else 0),
      st_ma_min = (if 0 < ch_n c then ma_min c else 0), st_ma_max = (if 0 < ch_n c then ma_max c else 0),
      st_ma_avg = (if 0 < ch_n c then ma_sum c / of_nat (unat (ch_n c)) else 0),
      st_mah = ch_mah c, st_mwh = ch_mwh c,
      st_chart = map (\<lambda>p. ch_chart c ! ((ch_head c + p) mod PB_CHART_POINTS)) [0..<PB_CHART_POINTS]\<rparr>"

definition sampler_get :: "u32 \<Rightarrow> pb_sampler \<Rightarrow> pb_snapshot" where
  "sampler_get uptime s = \<lparr>sn_sensor_ok = pb_sensor_ok s, sn_t_ms = uptime, sn_ch = map channel_stats (pb_acc s)\<rparr>"

text \<open>
  The sensor: a fetch, then for each channel its selection and three readings, each with the driver's
  result; the first failure ends the read.
\<close>

definition read_channels :: "int \<Rightarrow> (int \<times> (int \<times> rat) \<times> (int \<times> rat) \<times> (int \<times> rat)) list \<Rightarrow> int + pb_reading list" where
  "read_channels fetch chans =
     (if fetch \<noteq> 0 then Inl fetch
      else fold (\<lambda>(sel, (rv, v), (ri, i), (rp, p)) r.
             case r of Inl e \<Rightarrow> Inl e
             | Inr rs \<Rightarrow> if sel \<noteq> 0 then Inl sel else if rv \<noteq> 0 then Inl rv else if ri \<noteq> 0 then Inl ri else if rp \<noteq> 0 then Inl rp
                 else Inr (rs @ [\<lparr>rd_v = v, rd_ma = i * 1000, rd_mw = p * 1000\<rparr>]))
           (take PB_NUM_CH chans) (Inr []))"

text \<open>One channel's share of a good sample, after \<open>dt_h\<close> hours, \<open>push\<close> telling that the chart takes it.\<close>

definition accumulate :: "rat \<Rightarrow> bool \<Rightarrow> pb_reading \<Rightarrow> channel_acc \<Rightarrow> channel_acc" where
  "accumulate dt_h push r c =
     (let c = c\<lparr>ch_v := rd_v r, ch_ma := rd_ma r, ch_mw := rd_mw r,
                v_min := min (v_min c) (rd_v r), v_max := max (v_max c) (rd_v r),
                ma_min := min (ma_min c) (rd_ma r), ma_max := max (ma_max c) (rd_ma r),
                ma_sum := ma_sum c + rd_ma r, ch_n := ch_n c + 1,
                ch_mah := ch_mah c + rd_ma r * dt_h, ch_mwh := ch_mwh c + rd_mw r * dt_h\<rparr>
      in if push then c\<lparr>ch_chart := (ch_chart c)[ch_head c := trunc_rat (rd_ma r)], ch_head := (ch_head c + 1) mod PB_CHART_POINTS\<rparr>
         else c)"

text \<open>The thread's own variables.\<close>

record pb_thread =
  th_decim :: nat
  th_last_t :: int
  th_errs :: u32

text \<open>
  One round of the loop: \<open>now\<close> is the time after the read. The results tell the error number that is
  logged, and the readings that are streamed with their time.
\<close>

definition sampler_round :: "int + pb_reading list \<Rightarrow> int \<Rightarrow> pb_thread \<Rightarrow> pb_sampler \<Rightarrow> int option \<times> (u32 \<times> pb_reading list) option \<times> pb_thread \<times> pb_sampler" where
  "sampler_round res now th s =
     (case res of
        Inr rs \<Rightarrow>
          (let dt_h = of_int (now - th_last_t th) / 3600000;
               decim = th_decim th + 1;
               push = CHART_DECIMATION \<le> decim;
               s = s\<lparr>pb_sensor_ok := True, pb_acc := map2 (accumulate dt_h push) rs (pb_acc s)\<rparr>
           in (None, if stream_on s then Some (word_of_int now, rs) else None,
               th\<lparr>th_last_t := now, th_decim := (if push then 0 else decim), th_errs := 0\<rparr>, s))
      | Inl ret \<Rightarrow>
          (let errs = th_errs th + 1
           in (if errs = 1 \<or> errs mod 500 = 0 then Some ret else None, None, th\<lparr>th_errs := errs\<rparr>, s\<lparr>pb_sensor_ok := False\<rparr>)))"

text \<open>How long the round sleeps, none when it took the whole period.\<close>

definition sampler_sleep :: "int \<Rightarrow> int option" where
  "sampler_sleep elapsed = (if elapsed < SAMPLE_PERIOD_MS then Some (SAMPLE_PERIOD_MS - elapsed) else None)"

text \<open>Without a sensor the thread ends at once.\<close>

definition sampler_start :: "bool \<Rightarrow> int \<Rightarrow> pb_sampler \<Rightarrow> pb_thread option \<times> pb_sampler" where
  "sampler_start ready uptime s =
     (if ready then Some \<lparr>th_decim = 0, th_last_t = uptime, th_errs = 0\<rparr> else None, sampler_reset_stats s)"

section \<open>Runs\<close>

text \<open>Rounds of the thread, and resets (with their time) and switches of the stream from the dial and the shell.\<close>

datatype pb_event = Round "int + pb_reading list" int | Reset_stats int | Stream bool

fun pb_step :: "pb_event \<Rightarrow> pb_thread \<times> pb_sampler \<Rightarrow> pb_thread \<times> pb_sampler" where
  "pb_step (Round res now) (th, s) = snd (snd (sampler_round res now th s))"
| "pb_step (Reset_stats t) (th, s) = (th, sampler_reset_stats s)"
| "pb_step (Stream on) (th, s) = (th, sampler_stream_set on s)"

definition pb_run :: "int \<Rightarrow> pb_event list \<Rightarrow> pb_thread \<times> pb_sampler" where
  "pb_run uptime es = fold pb_step es (the (fst (sampler_start True uptime pb_zero)), snd (sampler_start True uptime pb_zero))"

text \<open>
  What the statistics are about: the good samples since the last reset, each with the hours since the
  good sample, the reset or the start before it; the hours from the last good sample before the reset
  to the reset itself; and for the chart all good samples.
\<close>

record pb_history =
  hist_last :: int
  hist_mark :: int
  hist_gap :: rat
  hist_since :: "(rat \<times> pb_reading list) list"
  hist_all :: "pb_reading list list"

definition hours :: "int \<Rightarrow> int \<Rightarrow> rat" where
  "hours from to = of_int (to - from) / 3600000"

lemma hours_add: "hours a b + hours b c = hours a c"
  by (simp add: hours_def add_divide_distrib [symmetric])

fun hist_step :: "pb_event \<Rightarrow> pb_history \<Rightarrow> pb_history" where
  "hist_step (Round res now) h =
     (case res of Inl _ \<Rightarrow> h
      | Inr rs \<Rightarrow> h\<lparr>hist_last := now, hist_mark := now, hist_since := hist_since h @ [(hours (hist_mark h) now, rs)], hist_all := hist_all h @ [rs]\<rparr>)"
| "hist_step (Reset_stats t) h = h\<lparr>hist_since := [], hist_mark := t, hist_gap := hours (hist_last h) t\<rparr>"
| "hist_step (Stream on) h = h"

definition pb_history_of :: "int \<Rightarrow> pb_event list \<Rightarrow> pb_history" where
  "pb_history_of uptime es = fold hist_step es \<lparr>hist_last = uptime, hist_mark = uptime, hist_gap = 0, hist_since = [], hist_all = []\<rparr>"

text \<open>A quantity \<open>q\<close> added up over the samples since the reset, and what the code counts besides: the first of them over the gap before the reset.\<close>

definition since_sum :: "(pb_reading \<Rightarrow> rat) \<Rightarrow> nat \<Rightarrow> pb_history \<Rightarrow> rat" where
  "since_sum q i h = (\<Sum>(dt, rs) \<leftarrow> hist_since h. q (rs ! i) * dt)"

definition before_sum :: "(pb_reading \<Rightarrow> rat) \<Rightarrow> nat \<Rightarrow> pb_history \<Rightarrow> rat" where
  "before_sum q i h = (case hist_since h of [] \<Rightarrow> 0 | x # _ \<Rightarrow> q (snd x ! i) * hist_gap h)"

definition every_fifth :: "'a list \<Rightarrow> 'a list" where
  "every_fifth xs = map (\<lambda>k. xs ! (5 * k + 4)) [0..<length xs div 5]"

definition last_n :: "nat \<Rightarrow> 'a list \<Rightarrow> 'a list" where
  "last_n n xs = drop (length xs - n) xs"

lemma every_fifth_snoc: "every_fifth (xs @ [x]) = every_fifth xs @ (if length xs mod 5 = 4 then [x] else [])"
proof -
  have old: "map (\<lambda>k. (xs @ [x]) ! (5 * k + 4)) [0..<length xs div 5] = every_fifth xs"
    unfolding every_fifth_def by (rule map_cong) (auto simp: nth_append)
  show ?thesis
  proof (cases "length xs mod 5 = 4")
    case True
    then have "5 * (length xs div 5) + 4 = length xs" "Suc (length xs) div 5 = Suc (length xs div 5)" by presburger+
    with True old show ?thesis by (simp add: every_fifth_def [of "xs @ [x]"] nth_append)
  next
    case False
    then have "Suc (length xs) div 5 = length xs div 5" by presburger
    with False old show ?thesis by (simp add: every_fifth_def [of "xs @ [x]"])
  qed
qed

lemma last_n_snoc: "n \<le> length xs \<Longrightarrow> 0 < n \<Longrightarrow> tl (last_n n xs) @ [x] = last_n n (xs @ [x])"
  by (simp add: last_n_def drop_tl [symmetric] tl_drop drop_Suc [symmetric] Suc_diff_le)

lemma ring_push:
  assumes "h < length c"
  shows "rotate (Suc h mod length c) (c[h := x]) = tl (rotate h c) @ [x]"
proof (rule nth_equalityI)
  fix i assume "i < length (rotate (Suc h mod length c) (c[h := x]))"
  then have i: "i < length c" by simp
  show "rotate (Suc h mod length c) (c[h := x]) ! i = (tl (rotate h c) @ [x]) ! i"
  proof (cases "i = length c - 1")
    case True
    have "(Suc h mod length c + i) mod length c = h" using assms i True
      by (metis Suc_pred' add_Suc_shift length_pos_if_in_set list.size(3) mod_add_left_eq mod_add_self2 mod_less not_less_zero zero_less_iff_neq_zero)
    with i True assms show ?thesis by (simp add: nth_rotate nth_append)
  next
    case False
    have "(Suc h mod length c + i) mod length c = (h + Suc i) mod length c" by (simp add: mod_add_left_eq)
    moreover have "(h + Suc i) mod length c \<noteq> h"
    proof
      assume "(h + Suc i) mod length c = h"
      then have "(h + Suc i) mod length c = h mod length c" using assms by simp
      then have "length c dvd Suc i" by (simp add: mod_eq_dvd_iff_nat)
      with i False show False by (auto dest: dvd_imp_le)
    qed
    moreover have "i < length c - 1" using i False by simp
    ultimately show ?thesis using i by (simp add: nth_rotate nth_append nth_tl)
  qed
qed (use assms in auto)


text \<open>What a channel should hold after a history.\<close>

definition chart_of :: "nat \<Rightarrow> pb_reading list list \<Rightarrow> int list" where
  "chart_of i all = last_n PB_CHART_POINTS (replicate PB_CHART_POINTS 0 @ every_fifth (map (\<lambda>rs. trunc_rat (rd_ma (rs ! i))) all))"

definition chan_inv :: "nat \<Rightarrow> pb_history \<Rightarrow> channel_acc \<Rightarrow> bool" where
  "chan_inv i h c \<longleftrightarrow>
     (let vs = map (\<lambda>x. rd_v (snd x ! i)) (hist_since h); is = map (\<lambda>x. rd_ma (snd x ! i)) (hist_since h) in
      v_min c = Min (insert (10 ^ 9) (set vs)) \<and> v_max c = Max (insert (- (10 ^ 9)) (set vs)) \<and>
      ma_min c = Min (insert (10 ^ 9) (set is)) \<and> ma_max c = Max (insert (- (10 ^ 9)) (set is)) \<and>
      ma_sum c = sum_list is \<and> ch_n c = of_nat (length (hist_since h)) \<and>
      ch_mah c = since_sum rd_ma i h + before_sum rd_ma i h \<and> ch_mwh c = since_sum rd_mw i h + before_sum rd_mw i h) \<and>
     length (ch_chart c) = PB_CHART_POINTS \<and> ch_head c < PB_CHART_POINTS \<and> rotate (ch_head c) (ch_chart c) = chart_of i (hist_all h)"

text \<open>The mark is the last good sample, or the reset that came after it.\<close>

definition mark_inv :: "pb_history \<Rightarrow> bool" where
  "mark_inv h \<longleftrightarrow> (if hist_since h = [] then hours (hist_last h) (hist_mark h) = hist_gap h else hist_mark h = hist_last h)"

lemma mark_step: "mark_inv h \<Longrightarrow> mark_inv (hist_step e h)"
  by (cases "(e, h)" rule: hist_step.cases) (auto simp: mark_inv_def split: sum.splits)

lemma sums_snoc:
  assumes "mark_inv h" and "h' = h\<lparr>hist_last := now, hist_mark := now, hist_since := hist_since h @ [(hours (hist_mark h) now, rs)], hist_all := hist_all h @ [rs]\<rparr>"
  shows "since_sum q i h' + before_sum q i h' = since_sum q i h + before_sum q i h + q (rs ! i) * hours (hist_last h) now"
proof (cases "hist_since h")
  case Nil
  with assms(1) have "hours (hist_last h) now = hist_gap h + hours (hist_mark h) now"
    using hours_add [of "hist_last h" "hist_mark h" now] by (simp add: mark_inv_def)
  with Nil show ?thesis by (simp add: assms(2) since_sum_def before_sum_def algebra_simps)
next
  case (Cons x xs)
  with assms(1) have "hist_mark h = hist_last h" by (simp add: mark_inv_def)
  with Cons show ?thesis by (simp add: assms(2) since_sum_def before_sum_def)
qed

definition pb_inv :: "pb_history \<Rightarrow> pb_thread \<times> pb_sampler \<Rightarrow> bool" where
  "pb_inv h x \<longleftrightarrow> (case x of (th, s) \<Rightarrow>
     th_last_t th = hist_last h \<and> mark_inv h \<and> th_decim th = length (hist_all h) mod 5 \<and> length (pb_acc s) = PB_NUM_CH \<and>
     (\<forall>i < PB_NUM_CH. chan_inv i h (pb_acc s ! i)))"

fun pb_event_ok :: "pb_event \<Rightarrow> bool" where
  "pb_event_ok (Round (Inr rs) now) \<longleftrightarrow> length rs = PB_NUM_CH"
| "pb_event_ok e \<longleftrightarrow> True"

lemma chart_step:
  assumes "rotate (ch_head c) (ch_chart c) = chart_of i all" and "length (ch_chart c) = PB_CHART_POINTS" and "ch_head c < PB_CHART_POINTS"
    and "push \<longleftrightarrow> length all mod 5 = 4" and "c' = accumulate dt push (rs ! i) c"
  shows "length (ch_chart c') = PB_CHART_POINTS \<and> ch_head c' < PB_CHART_POINTS \<and> rotate (ch_head c') (ch_chart c') = chart_of i (all @ [rs])"
proof (cases push)
  case False
  with assms show ?thesis by (simp add: accumulate_def Let_def chart_of_def every_fifth_snoc)
next
  case True
  have "rotate (Suc (ch_head c) mod PB_CHART_POINTS) ((ch_chart c)[ch_head c := trunc_rat (rd_ma (rs ! i))]) = tl (chart_of i all) @ [trunc_rat (rd_ma (rs ! i))]"
    using ring_push [of "ch_head c" "ch_chart c"] assms(1-3) by simp
  also have "\<dots> = chart_of i (all @ [rs])"
    using True assms(4) unfolding chart_of_def by (subst last_n_snoc) (simp_all add: PB_CHART_POINTS_def every_fifth_snoc)
  finally show ?thesis using True assms(2,5) by (simp add: accumulate_def Let_def PB_CHART_POINTS_def)
qed

lemma extremes_snoc:
  "min (Min (insert x (set xs))) y = Min (insert x (set (xs @ [y])))" "max (Max (insert x (set xs))) y = Max (insert x (set (xs @ [y])))"
  for y :: "'a::linorder"
proof -
  have "insert x (set (xs @ [y])) = insert y (insert x (set xs))" by auto
  then show "min (Min (insert x (set xs))) y = Min (insert x (set (xs @ [y])))" "max (Max (insert x (set xs))) y = Max (insert x (set (xs @ [y])))"
    by (simp_all add: Min_insert Max_insert min.commute max.commute del: set_append)
qed

lemma accumulate_inv:
  assumes "chan_inv i h c" and "push \<longleftrightarrow> length (hist_all h) mod 5 = 4"
    and "mark_inv h" and "dt = hours (hist_last h) now"
    and "h' = h\<lparr>hist_last := now, hist_mark := now, hist_since := hist_since h @ [(hours (hist_mark h) now, rs)], hist_all := hist_all h @ [rs]\<rparr>"
  shows "chan_inv i h' (accumulate dt push (rs ! i) c)"
proof -
  define c' where "c' = accumulate dt push (rs ! i) c"
  have chart: "length (ch_chart c') = PB_CHART_POINTS \<and> ch_head c' < PB_CHART_POINTS \<and> rotate (ch_head c') (ch_chart c') = chart_of i (hist_all h @ [rs])"
    using assms(1) by (intro chart_step [OF _ _ _ assms(2) c'_def]) (simp_all add: chan_inv_def Let_def)
  have "v_min c' = min (v_min c) (rd_v (rs ! i))" "v_max c' = max (v_max c) (rd_v (rs ! i))"
    "ma_min c' = min (ma_min c) (rd_ma (rs ! i))" "ma_max c' = max (ma_max c) (rd_ma (rs ! i))"
    "ma_sum c' = ma_sum c + rd_ma (rs ! i)" "ch_n c' = ch_n c + 1"
    "ch_mah c' = ch_mah c + rd_ma (rs ! i) * dt" "ch_mwh c' = ch_mwh c + rd_mw (rs ! i) * dt"
    by (simp_all add: c'_def accumulate_def Let_def)
  moreover have "since_sum q i h' + before_sum q i h' = since_sum q i h + before_sum q i h + q (rs ! i) * dt" for q
    using sums_snoc [OF assms(3,5), of q i] by (simp add: assms(4))
  ultimately show ?thesis using assms(1) chart
    unfolding c'_def [symmetric] by (simp add: chan_inv_def Let_def assms(5) extremes_snoc del: set_append set_map)
qed


lemma pb_inv_step:
  assumes "pb_inv h (th, s)" and "pb_event_ok e"
  shows "pb_inv (hist_step e h) (pb_step e (th, s))"
proof (cases e)
  case (Round res now)
  show ?thesis
  proof (cases res)
    case (Inl ret)
    with assms(1) show ?thesis by (simp add: Round sampler_round_def Let_def pb_inv_def)
  next
    case (Inr rs)
    define dt push where "dt = hours (hist_last h) now" and "push \<longleftrightarrow> CHART_DECIMATION \<le> th_decim th + 1"
    have inv: "th_last_t th = hist_last h" "mark_inv h" "th_decim th = length (hist_all h) mod 5" "length (pb_acc s) = PB_NUM_CH"
      "\<And>i. i < PB_NUM_CH \<Longrightarrow> chan_inv i h (pb_acc s ! i)" using assms(1) by (simp_all add: pb_inv_def)
    have push: "push \<longleftrightarrow> length (hist_all h) mod 5 = 4" unfolding push_def inv(3) CHART_DECIMATION_def by presburger
    define h' where "h' = h\<lparr>hist_last := now, hist_mark := now, hist_since := hist_since h @ [(hours (hist_mark h) now, rs)], hist_all := hist_all h @ [rs]\<rparr>"
    have hist: "hist_step e h = h'" by (simp add: Round Inr h'_def)
    have post: "pb_step e (th, s) = (th\<lparr>th_last_t := now, th_decim := (if push then 0 else th_decim th + 1), th_errs := 0\<rparr>,
        s\<lparr>pb_sensor_ok := True, pb_acc := map2 (accumulate dt push) rs (pb_acc s)\<rparr>)"
      by (simp add: Round Inr sampler_round_def Let_def dt_def push_def hours_def inv(1))
    have "(if push then 0 else th_decim th + 1) = length (hist_all h') mod 5"
      using push by (simp add: h'_def inv(3)) presburger
    moreover have "chan_inv i h' (map2 (accumulate dt push) rs (pb_acc s) ! i)" if "i < PB_NUM_CH" for i
      using accumulate_inv [OF inv(5) [OF that] push inv(2) dt_def h'_def] that assms(2) inv(4) by (simp add: Round Inr)
    moreover have "mark_inv h'" using mark_step [OF inv(2), of e] by (simp add: hist)
    ultimately show ?thesis using assms(2) inv(4) unfolding hist post pb_inv_def by (simp add: h'_def Round Inr)
  qed
next
  case (Reset_stats t)
  with assms(1) mark_step [of h e] show ?thesis
    by (simp add: pb_inv_def sampler_reset_stats_def chan_inv_def Let_def reset_channel_def since_sum_def before_sum_def)
next
  case (Stream on)
  with assms(1) show ?thesis by (simp add: pb_inv_def sampler_stream_set_def)
qed

lemma pb_inv_run: "list_all pb_event_ok es \<Longrightarrow> pb_inv (pb_history_of uptime es) (pb_run uptime es)"
proof (induction es rule: rev_induct)
  case Nil
  have "rotate 0 (replicate PB_CHART_POINTS 0) = chart_of i []" for i
    by (simp add: chart_of_def every_fifth_def last_n_def)
  then show ?case
    by (simp add: pb_run_def pb_history_of_def sampler_start_def pb_inv_def sampler_reset_stats_def pb_zero_def chan_inv_def Let_def
        reset_channel_def mark_inv_def hours_def since_sum_def before_sum_def) (simp add: PB_CHART_POINTS_def)
next
  case (snoc e es)
  then have "pb_inv (pb_history_of uptime es) (pb_run uptime es)" by simp
  with snoc.prems pb_inv_step [of "pb_history_of uptime es" "fst (pb_run uptime es)" "snd (pb_run uptime es)" e]
  show ?case by (simp add: pb_run_def pb_history_of_def)
qed

text \<open>Readings are within the sentinels the extremes start from.\<close>

definition pb_sane :: "pb_reading \<Rightarrow> bool" where
  "pb_sane r \<longleftrightarrow> \<bar>rd_v r\<bar> \<le> 10 ^ 9 \<and> \<bar>rd_ma r\<bar> \<le> 10 ^ 9"

lemma min_sentinel: "xs \<noteq> [] \<Longrightarrow> \<forall>x \<in> set xs. \<bar>x\<bar> \<le> b \<Longrightarrow> Min (insert b (set xs)) = Min (set xs)" for b :: "'a::linordered_idom"
  by (simp add: Min_insert) (metis List.finite_set Min_in abs_le_D1 min.absorb2 set_empty)

lemma max_sentinel: "xs \<noteq> [] \<Longrightarrow> \<forall>x \<in> set xs. \<bar>x\<bar> \<le> b \<Longrightarrow> Max (insert (- b) (set xs)) = Max (set xs)" for b :: "'a::linordered_idom"
  by (simp add: Max_insert) (metis List.finite_set Max_in abs_le_D2 max.absorb2 minus_le_iff set_empty)

lemma ring_read: "length c = n \<Longrightarrow> h < n \<Longrightarrow> map (\<lambda>p. c ! ((h + p) mod n)) [0..<n] = rotate h c"
  by (rule nth_equalityI) (simp_all add: nth_rotate)

text \<open>
  C39. The figures shown are those of the samples. After any sequence of rounds, read failures, resets
  and switches of the stream, a channel's extremes and mean are those of the good samples since the
  last reset, zero when there is none; and the chart is the last 160 of every fifth good sample,
  oldest first, over resets too. Charge and energy are those of the time since the reset, each good
  sample weighted with the time since the good sample before it or the reset, so that nothing is lost
  over failures; plus one term that the header's \<open>since reset\<close> does not name: a reset leaves the
  thread's \<open>last_t\<close>, so the first good sample after it also counts for the time from the last good
  sample before the reset (or the start) to the reset. At the start that term is zero. The samples are
  within a milliard and fewer than 2^32.
\<close>

theorem power_statistics_exact:
  assumes "list_all pb_event_ok es" and "h = pb_history_of uptime es" and "i < PB_NUM_CH"
    and "vs = map (\<lambda>x. rd_v (snd x ! i)) (hist_since h)" and "ms = map (\<lambda>x. rd_ma (snd x ! i)) (hist_since h)"
    and "\<forall>x \<in> set (hist_since h). pb_sane (snd x ! i)" and "length (hist_since h) < 2 ^ 32"
    and "st = sn_ch (sampler_get now (snd (pb_run uptime es))) ! i"
  shows "st_v_min st = (if vs = [] then 0 else Min (set vs)) \<and> st_v_max st = (if vs = [] then 0 else Max (set vs)) \<and>
    st_ma_min st = (if ms = [] then 0 else Min (set ms)) \<and> st_ma_max st = (if ms = [] then 0 else Max (set ms)) \<and>
    st_ma_avg st = (if ms = [] then 0 else sum_list ms / of_nat (length ms)) \<and>
    st_mah st = since_sum rd_ma i h + before_sum rd_ma i h \<and> st_mwh st = since_sum rd_mw i h + before_sum rd_mw i h \<and>
    st_chart st = chart_of i (hist_all h)"
proof -
  define c where "c = pb_acc (snd (pb_run uptime es)) ! i"
  have inv: "chan_inv i h c" and len: "length (pb_acc (snd (pb_run uptime es))) = PB_NUM_CH"
    using pb_inv_run [OF assms(1), of uptime] assms(2,3) by (auto simp: pb_inv_def c_def split: prod.splits)
  have st: "st = channel_stats c" using assms(3,8) len by (simp add: sampler_get_def c_def)
  have n: "unat (ch_n c) = length ms" "0 < ch_n c \<longleftrightarrow> ms \<noteq> []"
    using inv assms(7) by (simp_all add: chan_inv_def Let_def assms(5) unat_of_nat take_bit_nat_eq_self word_gt_0 unat_eq_0 [symmetric] del: unat_eq_0)
  have empty: "vs = [] \<longleftrightarrow> ms = []" by (simp add: assms(4,5))
  have sane: "\<forall>x \<in> set vs. \<bar>x\<bar> \<le> 10 ^ 9" "\<forall>x \<in> set ms. \<bar>x\<bar> \<le> 10 ^ 9" using assms(6) by (auto simp: assms(4,5) pb_sane_def)
  have ext: "v_min c = Min (insert (10 ^ 9) (set vs))" "v_max c = Max (insert (- (10 ^ 9)) (set vs))"
    "ma_min c = Min (insert (10 ^ 9) (set ms))" "ma_max c = Max (insert (- (10 ^ 9)) (set ms))" "ma_sum c = sum_list ms"
    "ch_mah c = since_sum rd_ma i h + before_sum rd_ma i h" "ch_mwh c = since_sum rd_mw i h + before_sum rd_mw i h"
    using inv unfolding chan_inv_def Let_def assms(4,5) by - (elim conjE, assumption)+
  have chart: "st_chart st = chart_of i (hist_all h)"
    using inv unfolding st chan_inv_def by (simp add: channel_stats_def ring_read)
  have "st_v_min st = (if vs = [] then 0 else Min (set vs))" "st_v_max st = (if vs = [] then 0 else Max (set vs))"
    "st_ma_min st = (if ms = [] then 0 else Min (set ms))" "st_ma_max st = (if ms = [] then 0 else Max (set ms))"
    using min_sentinel [OF _ sane(1)] max_sentinel [OF _ sane(1)] min_sentinel [OF _ sane(2)] max_sentinel [OF _ sane(2)]
    unfolding st channel_stats_def by (simp_all only: pb_channel_stats.simps n(2) empty ext if_not_P if_P split: if_split) simp_all
  moreover have "st_ma_avg st = (if ms = [] then 0 else sum_list ms / of_nat (length ms))" "st_mah st = ch_mah c" "st_mwh st = ch_mwh c"
    unfolding st channel_stats_def by (simp_all add: n ext)
  ultimately show ?thesis using chart ext by simp
qed


text \<open>
  That term can be all that is counted: after an hour without a sensor and a reset at its end, the
  next good sample counts as an hour of its current.
\<close>

lemma reset_counts_earlier_gap:
  "st_mah (sn_ch (sampler_get now (snd (pb_run 0 [Round (Inl 5) 10, Reset_stats 3600000,
      Round (Inr [\<lparr>rd_v = 5, rd_ma = 1000, rd_mw = 5000\<rparr>, \<lparr>rd_v = 5, rd_ma = 0, rd_mw = 0\<rparr>]) 3600000]))) ! 0) = 1000"
  by (simp add: pb_run_def sampler_start_def sampler_round_def Let_def sampler_reset_stats_def sampler_get_def pb_zero_def channel_stats_def
      accumulate_def reset_channel_def PB_NUM_CH_def CHART_DECIMATION_def numeral_2_eq_2)

section \<open>The display\<close>

text \<open>C's division, towards zero, with its remainder.\<close>

definition c_div :: "int \<Rightarrow> int \<Rightarrow> int" where
  "c_div a b = (if a < 0 then - ((- a) div b) else a div b)"

definition c_rem :: "int \<Rightarrow> int \<Rightarrow> int" where
  "c_rem a b = a - c_div a b * b"

text \<open>\<open>%02d\<close> of a number below 100.\<close>

definition fmt_02 :: "nat \<Rightarrow> string" where
  "fmt_02 n = [digit_of (n div 10), digit_of (n mod 10)]"

definition fmt_x100 :: "int \<Rightarrow> string" where
  "fmt_x100 x = (if x < 0 \<and> - 100 < x then ''-'' else []) @ fmt_d (c_div x 100) @ ''.'' @ fmt_02 (nat \<bar>c_rem x 100\<bar>)"

definition fmt_x10 :: "int \<Rightarrow> string" where
  "fmt_x10 x = (if x < 0 \<and> - 10 < x then ''-'' else []) @ fmt_d (c_div x 10) @ ''.'' @ dec_text (nat \<bar>c_rem x 10\<bar>)"

datatype pb_mode = PB_MODE_DASH | PB_MODE_CHART | PB_MODE_STATS

definition mode_index :: "pb_mode \<Rightarrow> nat" where
  "mode_index m = (case m of PB_MODE_DASH \<Rightarrow> 0 | PB_MODE_CHART \<Rightarrow> 1 | PB_MODE_STATS \<Rightarrow> 2)"

definition mode_at :: "int \<Rightarrow> pb_mode" where
  "mode_at n = (if n = 0 then PB_MODE_DASH else if n = 1 then PB_MODE_CHART else PB_MODE_STATS)"

text \<open>
  The requests of the other threads, the page shown (\<open>None\<close> before the first update), which pages are
  hidden, and the texts of the labels.
\<close>

record pb_ui =
  req_mode :: pb_mode
  req_channel :: nat
  shown_mode :: "pb_mode option"
  hidden :: "pb_mode \<Rightarrow> bool"
  dash_val :: "(string \<times> string \<times> string \<times> string) list"
  chart_shown :: "nat \<times> int list \<times> int \<times> int \<times> string"
  stats_label :: string

definition pb_ui_zero :: pb_ui where
  "pb_ui_zero = \<lparr>req_mode = PB_MODE_DASH, req_channel = 0, shown_mode = None, hidden = (\<lambda>_. True),
     dash_val = replicate PB_NUM_CH (''--'', ''--'', ''--'', ''mW''), chart_shown = (0, [], 0, 0, ''--''), stats_label = ''--''\<rparr>"

definition pb_ui_set_mode :: "pb_mode \<Rightarrow> pb_ui \<Rightarrow> pb_ui" where
  "pb_ui_set_mode m u = u\<lparr>req_mode := m\<rparr>"

definition pb_ui_step_mode :: "int \<Rightarrow> pb_ui \<Rightarrow> pb_ui" where
  "pb_ui_step_mode dir u = u\<lparr>req_mode := mode_at (c_rem (int (mode_index (req_mode u)) + dir + 3) 3)\<rparr>"

definition pb_ui_set_channel :: "nat \<Rightarrow> pb_ui \<Rightarrow> pb_ui" where
  "pb_ui_set_channel ch u = (if ch < PB_NUM_CH then u\<lparr>req_channel := ch\<rparr> else u)"

definition update_dash :: "pb_snapshot \<Rightarrow> pb_ui \<Rightarrow> pb_ui" where
  "update_dash snap u = u\<lparr>dash_val := map (\<lambda>c.
     (fmt_x100 (trunc_rat (st_v c * 100)), fmt_x10 (trunc_rat (st_ma c * 10)),
      if 1000 \<le> st_mw c then fmt_x100 (trunc_rat (st_mw c / 10)) else fmt_x10 (trunc_rat (st_mw c * 10)),
      if 1000 \<le> st_mw c then ''W'' else ''mW'')) (sn_ch snap)\<rparr>"

definition chart_range :: "int list \<Rightarrow> int \<times> int" where
  "chart_range buf =
     (case fold (\<lambda>x (lo, hi). (min lo x, max hi x)) buf (2 ^ 31 - 1, - (2 ^ 31)) of
        (lo, hi) \<Rightarrow> (lo, if hi - lo < 10 then lo + 10 else hi))"

definition update_chart :: "pb_snapshot \<Rightarrow> pb_ui \<Rightarrow> pb_ui" where
  "update_chart snap u =
     (let ch = req_channel u; c = sn_ch snap ! ch
      in case chart_range (st_chart c) of
           (lo, hi) \<Rightarrow> u\<lparr>chart_shown := (ch, st_chart c, lo, hi, fmt_x100 (trunc_rat (st_ma c * 100)) @ '' mA'')\<rparr>)"

definition update_stats :: "pb_snapshot \<Rightarrow> pb_ui \<Rightarrow> pb_ui" where
  "update_stats snap u =
     (let c = sn_ch snap ! req_channel u; x = (\<lambda>q. fmt_x100 (trunc_rat (q * 100)))
      in u\<lparr>stats_label := ''V '' @ x (st_v c) @ [CHR 0x0A] @ ''min '' @ x (st_ma_min c) @ [CHR 0x0A] @ ''max '' @ x (st_ma_max c) @
         [CHR 0x0A] @ ''avg '' @ x (st_ma_avg c) @ [CHR 0x0A] @ ''mAh '' @ x (st_mah c) @ [CHR 0x0A] @ ''mWh '' @ x (st_mwh c)\<rparr>)"

definition refresh_cb :: "pb_snapshot \<Rightarrow> pb_ui \<Rightarrow> pb_ui" where
  "refresh_cb snap u =
     (let m = req_mode u;
          u = (if shown_mode u \<noteq> Some m then u\<lparr>hidden := (\<lambda>i. i \<noteq> m), shown_mode := Some m\<rparr> else u)
      in case m of PB_MODE_DASH \<Rightarrow> update_dash snap u | PB_MODE_CHART \<Rightarrow> update_chart snap u | PB_MODE_STATS \<Rightarrow> update_stats snap u)"

section \<open>Dial and shell\<close>

datatype dial_key = KEY_UP | KEY_DOWN | KEY_A | KEY_B | KEY_OTHER nat

definition dial_cb :: "bool \<Rightarrow> int \<Rightarrow> dial_key \<Rightarrow> pb_ui \<times> pb_sampler \<Rightarrow> pb_ui \<times> pb_sampler" where
  "dial_cb is_key v code x =
     (case x of (u, s) \<Rightarrow>
        if \<not> is_key \<or> v \<noteq> 1 then (u, s)
        else (case code of
                KEY_UP \<Rightarrow> (pb_ui_step_mode 1 u, s)
              | KEY_DOWN \<Rightarrow> (pb_ui_step_mode (- 1) u, s)
              | KEY_A \<Rightarrow> (pb_ui_set_channel ((req_channel u + 1) mod PB_NUM_CH) u, s)
              | KEY_B \<Rightarrow> (u, sampler_reset_stats s)
              | KEY_OTHER _ \<Rightarrow> (u, s)))"

text \<open>The shell's commands: the result with the lines printed.\<close>

definition pb_cmd_read :: "pb_snapshot \<Rightarrow> int \<times> string list" where
  "pb_cmd_read snap =
     (if \<not> sn_sensor_ok snap then (- EIO, [''sensor not available''])
      else (0, map (\<lambda>i. let c = sn_ch snap ! i; x = (\<lambda>q. fmt_x100 (trunc_rat (q * 100))) in
                 ''CH'' @ fmt_d (int i + 1) @ '': '' @ x (st_v c) @ '' V  '' @ x (st_ma c) @ '' mA  '' @ x (st_mw c) @ '' mW'') [0..<PB_NUM_CH]))"

definition pb_cmd_reset :: "pb_sampler \<Rightarrow> pb_sampler" where
  "pb_cmd_reset s = sampler_reset_stats s"

definition pb_cmd_stream :: "string \<Rightarrow> pb_sampler \<Rightarrow> int \<times> pb_sampler" where
  "pb_cmd_stream arg s =
     (if arg = ''on'' then (0, sampler_stream_set True s) else if arg = ''off'' then (0, sampler_stream_set False s) else (- EINVAL, s))"

definition pb_cmd_mode :: "string \<Rightarrow> pb_ui \<Rightarrow> int \<times> pb_ui" where
  "pb_cmd_mode arg u =
     (if arg = ''dash'' then (0, pb_ui_set_mode PB_MODE_DASH u)
      else if arg = ''chart'' then (0, pb_ui_set_mode PB_MODE_CHART u)
      else if arg = ''stats'' then (0, pb_ui_set_mode PB_MODE_STATS u)
      else (- EINVAL, u))"

text \<open>\<open>ch\<close> is what \<open>atoi\<close> makes of the argument.\<close>

definition pb_cmd_channel :: "int \<Rightarrow> pb_ui \<Rightarrow> int \<times> pb_ui" where
  "pb_cmd_channel ch u =
     (if ch < 1 \<or> int PB_NUM_CH < ch then (- EINVAL, u) else (0, pb_ui_set_channel (nat (ch - 1)) u))"

text \<open>The lines the thread streams: time, channel, millivolts, and current and power with a decimal.\<close>

definition stream_csv :: "u32 \<Rightarrow> pb_reading list \<Rightarrow> string list" where
  "stream_csv t_ms rs = map (\<lambda>i. let r = rs ! i in
     fmt_u t_ms @ '','' @ fmt_d (int i + 1) @ '','' @ fmt_d (trunc_rat (rd_v r * 1000)) @ '','' @
     fmt_x10 (trunc_rat (rd_ma r * 10)) @ '','' @ fmt_x10 (trunc_rat (rd_mw r * 10)) @ [CHR 0x0A]) [0..<PB_NUM_CH]"


section \<open>Readings on the display\<close>

text \<open>What a reader makes of a decimal text: its sign, and its digits around the point.\<close>

definition read_decimal :: "string \<Rightarrow> rat" where
  "read_decimal s =
     (let neg = (s \<noteq> [] \<and> hd s = CHR ''-''); r = (if neg then tl s else s);
          ip = takeWhile decimal_char r; fp = drop (length ip + 1) r;
          m = of_nat (decimal_from 0 (ip @ fp)) / 10 ^ length fp
      in if neg then - m else m)"

lemma digits_decimal: "\<forall>c \<in> set (dec_text n). decimal_char c"
  using dec_text_value [of n] by simp

lemma read_parts:
  assumes "\<forall>c \<in> set fp. decimal_char c"
  shows "read_decimal ((if neg then ''-'' else []) @ dec_text n @ CHR ''.'' # fp) =
    (if neg then - 1 else 1) * (of_nat (decimal_from n fp) / 10 ^ length fp)"
proof -
  have run: "takeWhile decimal_char (dec_text n @ CHR ''.'' # fp) = dec_text n"
    using digits_decimal [of n] dot_not_decimal by (simp add: takeWhile_append)
  have "dec_text n \<noteq> []" by (subst dec_text.simps) simp
  then obtain c r where c: "dec_text n = c # r" by (cases "dec_text n") auto
  then have "c \<noteq> CHR ''-''" using digits_decimal [of n] by (auto simp: decimal_char_def)
  moreover have "decimal_from (decimal_value c) r = n" using dec_text_value [of n] by (simp add: c)
  ultimately show ?thesis using run by (simp add: read_decimal_def Let_def c)
qed


lemma c_rem_abs: "0 < b \<Longrightarrow> nat \<bar>c_rem x b\<bar> = nat \<bar>x\<bar> mod nat b"
proof -
  assume b: "0 < b"
  have "\<bar>c_rem x b\<bar> = \<bar>x\<bar> mod b"
  proof (cases "x < 0")
    case True
    have "c_rem x b = - ((- x) mod b)" using True minus_div_mult_eq_mod [of "- x" b] by (simp add: c_rem_def c_div_def)
    with True b show ?thesis by simp
  next
    case False
    have "c_rem x b = x mod b" using False minus_div_mult_eq_mod [of x b] by (simp add: c_rem_def c_div_def)
    with False b show ?thesis by simp
  qed
  then show ?thesis using b by (simp add: nat_mod_distrib)
qed

lemma sign_and_quotient:
  assumes "0 < b"
  shows "(if x < 0 \<and> - b < x then ''-'' else []) @ fmt_d (c_div x b) = (if x < 0 then ''-'' else []) @ dec_text (nat \<bar>x\<bar> div nat b)"
proof -
  have q: "c_div x b = (if x < 0 then - (\<bar>x\<bar> div b) else \<bar>x\<bar> div b)" by (simp add: c_div_def)
  have n: "nat (\<bar>x\<bar> div b) = nat \<bar>x\<bar> div nat b" using assms by (simp add: nat_div_distrib)
  have small: "\<bar>x\<bar> div b = 0 \<longleftrightarrow> \<bar>x\<bar> < b" using assms by (auto simp: zdiv_eq_0_iff)
  have pos: "0 \<le> \<bar>x\<bar> div b" using assms by (simp add: pos_imp_zdiv_nonneg_iff)
  show ?thesis
  proof (cases "x < 0")
    case False
    with pos n show ?thesis by (simp add: q fmt_d_def)
  next
    case True
    show ?thesis
    proof (cases "- b < x")
      case True
      with \<open>x < 0\<close> have "\<bar>x\<bar> div b = 0" using small by simp
      with True \<open>x < 0\<close> n show ?thesis by (simp add: q fmt_d_def)
    next
      case False
      with \<open>x < 0\<close> small pos have "0 < \<bar>x\<bar> div b" by (simp add: order_le_less)
      with False \<open>x < 0\<close> n show ?thesis by (simp add: q fmt_d_def)
    qed
  qed
qed

lemma fmt_02_value: "n < 100 \<Longrightarrow> (\<forall>c \<in> set (fmt_02 n). decimal_char c) \<and> decimal_from m (fmt_02 n) = m * 100 + n"
  using digit_of_decimal [of "n div 10"] digit_of_decimal [of "n mod 10"] by (simp add: fmt_02_def algebra_simps)

lemma dec_digit: "n < 10 \<Longrightarrow> (\<forall>c \<in> set (dec_text n). decimal_char c) \<and> decimal_from m (dec_text n) = m * 10 + n \<and> length (dec_text n) = 1"
  using digit_of_decimal [of n] by (subst (1 2 3) dec_text.simps) simp

lemma nat_parts: "of_nat (n div k * k + n mod k) = (of_nat n :: rat)"
  by simp

text \<open>
  A reading keeps its value and its sign on the display. The text of a number in hundredths, or in
  tenths, reads back as that number, also where its whole part is zero and negative, and fits the
  buffers of 16 bytes.
\<close>

lemma power_reading_roundtrip:
  assumes "\<bar>x\<bar> \<le> 2 ^ 31"
  shows "read_decimal (fmt_x100 x) = of_int x / 100 \<and> read_decimal (fmt_x10 x) = of_int x / 10 \<and>
    length (fmt_x100 x) < 16 \<and> length (fmt_x10 x) < 16"
proof -
  define n where "n = nat \<bar>x\<bar>"
  have text100: "fmt_x100 x = (if x < 0 then ''-'' else []) @ dec_text (n div 100) @ CHR ''.'' # fmt_02 (n mod 100)"
    using sign_and_quotient [of 100 x] c_rem_abs [of 100 x] by (simp add: fmt_x100_def n_def)
  have text10: "fmt_x10 x = (if x < 0 then ''-'' else []) @ dec_text (n div 10) @ CHR ''.'' # dec_text (n mod 10)"
    using sign_and_quotient [of 10 x] c_rem_abs [of 10 x] by (simp add: fmt_x10_def n_def)
  have sign: "(if x < 0 then - 1 else 1) * of_nat n = (of_int x :: rat)" by (simp add: n_def)
  have "read_decimal (fmt_x100 x) = (if x < 0 then - 1 else 1) * (of_nat n / 100)"
    unfolding text100 using fmt_02_value [of "n mod 100" "n div 100"] by (subst read_parts) (simp_all add: fmt_02_def nat_parts)
  moreover have "read_decimal (fmt_x10 x) = (if x < 0 then - 1 else 1) * (of_nat n / 10)"
    unfolding text10 using dec_digit [of "n mod 10" "n div 10"] by (subst read_parts) (simp_all add: nat_parts)
  moreover have "length (dec_text (n div 100)) \<le> 8" "length (dec_text (n div 10)) \<le> 9"
    using dec_text_length [of "n div 100" 8] dec_text_length [of "n div 10" 9] assms by (simp_all add: n_def)
  ultimately show ?thesis using sign dec_digit [of "n mod 10"]
    by (simp add: text100 text10 fmt_02_def times_divide_eq_right [symmetric] del: times_divide_eq_right)
qed


section \<open>Pages and lines\<close>

text \<open>After a refresh the requested page is shown and no other, whatever was requested before.\<close>

inductive ui_reached :: "pb_ui \<Rightarrow> bool" where
  start: "ui_reached pb_ui_zero"
| set_mode: "ui_reached u \<Longrightarrow> ui_reached (pb_ui_set_mode m u)"
| step_mode: "ui_reached u \<Longrightarrow> ui_reached (pb_ui_step_mode d u)"
| set_channel: "ui_reached u \<Longrightarrow> ui_reached (pb_ui_set_channel ch u)"
| refresh: "ui_reached u \<Longrightarrow> ui_reached (refresh_cb snap u)"

lemmas ui_defs = pb_ui_set_mode_def pb_ui_step_mode_def pb_ui_set_channel_def refresh_cb_def update_dash_def update_chart_def update_stats_def

lemma ui_pages:
  "ui_reached u \<Longrightarrow> req_channel u < PB_NUM_CH \<and> (\<forall>m. shown_mode u = Some m \<longrightarrow> hidden u = (\<lambda>i. i \<noteq> m))"
  by (induction rule: ui_reached.induct)
    (auto simp: ui_defs pb_ui_zero_def PB_NUM_CH_def Let_def split: pb_mode.splits prod.splits)

lemma refresh_shows_requested:
  assumes "ui_reached u"
  shows "hidden (refresh_cb snap u) = (\<lambda>i. i \<noteq> req_mode u) \<and> req_channel u < PB_NUM_CH"
  using ui_pages [OF assms] by (auto simp: ui_defs Let_def split: pb_mode.splits prod.splits)

text \<open>The dial goes round the pages: a step back undoes a step, and three steps are none.\<close>

lemma dial_cycles:
  "pb_ui_step_mode (- 1) (pb_ui_step_mode 1 u) = u \<and> pb_ui_step_mode 1 (pb_ui_step_mode 1 (pb_ui_step_mode 1 u)) = u"
  by (cases "req_mode u") (simp_all add: pb_ui_step_mode_def mode_index_def mode_at_def c_rem_def c_div_def)

text \<open>The chart's range holds every point and is at least ten wide.\<close>

lemma range_fold:
  "fold (\<lambda>x (lo, hi). (min lo x, max hi x)) xs (a, b) = (l, r) \<Longrightarrow> l \<le> a \<and> b \<le> r \<and> (\<forall>x \<in> set xs. l \<le> x \<and> x \<le> r)" for a :: int
  by (induction xs arbitrary: a b) fastforce+

lemma chart_range_holds:
  assumes "chart_range buf = (lo, hi)" and "x \<in> set buf"
  shows "lo \<le> x \<and> x \<le> hi \<and> lo + 10 \<le> hi"
proof -
  obtain l r where f: "fold (\<lambda>x (lo, hi). (min lo x, max hi x)) buf (2 ^ 31 - 1, - (2 ^ 31)) = (l, r)" by fastforce
  from assms(1) have "lo = l" "hi = (if r - l < 10 then l + 10 else r)" unfolding chart_range_def f by auto
  with range_fold [OF f] assms(2) show ?thesis by (auto split: if_splits)
qed

section \<open>Concrete figures\<close>

definition demo_reading :: "rat \<Rightarrow> pb_reading" where
  "demo_reading a = \<lparr>rd_v = 5, rd_ma = a, rd_mw = 5 * a\<rparr>"

definition demo_rounds :: "pb_event list" where
  "demo_rounds = [Round (Inr [demo_reading 100, demo_reading 0]) 10, Reset_stats 3610, Round (Inl 5) 20,
     Round (Inr [demo_reading 300, demo_reading 0]) 3603610, Round (Inr [demo_reading 100, demo_reading 0]) 3603610]"

theorem power_statistics_exact_witness:
  "st_ma_avg (sn_ch (sampler_get 0 (snd (pb_run 0 demo_rounds))) ! 0) = 200 \<and>
   st_mah (sn_ch (sampler_get 0 (snd (pb_run 0 demo_rounds))) ! 0) = 300 * 1 + 300 * (1 / 1000)"
proof -
  have ok: "list_all pb_event_ok demo_rounds" by (simp add: demo_rounds_def PB_NUM_CH_def)
  have since: "hist_since (pb_history_of 0 demo_rounds) = [(1, [demo_reading 300, demo_reading 0]), (0, [demo_reading 100, demo_reading 0])]"
    and gap: "hist_gap (pb_history_of 0 demo_rounds) = 1 / 1000"
    by (simp_all add: pb_history_of_def demo_rounds_def hours_def)
  have sane: "\<forall>x \<in> set (hist_since (pb_history_of 0 demo_rounds)). pb_sane (snd x ! 0)"
    "length (hist_since (pb_history_of 0 demo_rounds)) < 2 ^ 32" by (simp_all add: since pb_sane_def demo_reading_def)
  have i: "(0 :: nat) < PB_NUM_CH" by (simp add: PB_NUM_CH_def)
  from power_statistics_exact [OF ok refl i refl refl sane refl, of 0] show ?thesis by (simp add: since gap since_sum_def before_sum_def demo_reading_def)
qed

lemma power_reading_roundtrip_instance: "read_decimal (fmt_x100 (- 50)) = - 1 / 2"
  using power_reading_roundtrip [of "- 50"] by simp

end
