(* ===== verification/Spec2Isabelle.thy ===== *)
theory Spec2Isabelle
  imports Remote_Run Http_Secrets Codex_Keys Teleop Camera_Stream Camera_Driver Frame_Capture Bt_Keys Rover_Status Pt_Mcp Power_Meter
begin

text \<open>
  The verification development of the firmware under \<open>applications\<close>. Its core is the
  \<open>protective_stop\<close> remote (\<open>applications/protective_stop\<close>, with the shared
  \<open>applications/common/http_util\<close>): a wireless emergency stop on Zephyr.
  Two redundant channels sample a stop switch, a comparator transmits to up to four machines
  only what both channels encoded alike, and everything around it (settings, HTTP control plane,
  WiFi, LEDs, wear counters) must not get in its way.

  \<^bold>\<open>How the program is represented.\<close> A C struct or a unit's static variables are a record, an
  enum is a datatype, a fixed-width integer is a word of that width, an \<open>int\<close> is an integer with
  the conversions written out, a C string is the list of its characters. An operation takes the
  state and returns its result with the new state; a return code below zero is the negated
  \<open>errno\<close>. What a component hands to the outside (frames, driver requests, log lines that carry
  state, HTTP answers) is an output list; what the outside hands in (pin reads, datagrams, socket
  results, uptimes, the answers of Zephyr's subsystems) is an input of the operation that reads it.
  The vendored codec \<open>pstop_c\<close>, the settings backend, the base64 and JSON decoders are
  parameters; what is relied on is named where it is used (\<open>lib_codes_distinct\<close>,
  \<open>lib_codec_faithful\<close>, \<open>lib_frame_sized\<close>, \<open>backend_lawful\<close>, \<open>opens_report\<close>,
  \<open>dump_bounded\<close>) and is shown satisfiable on a concrete instance (\<open>Wire_Layout\<close>,
  \<open>demo_backend\<close>).

  \<^bold>\<open>Theories and the files under \<open>src/\<close> they model.\<close>
  \<^item> \<open>Prelude\<close>: error numbers, byte codecs, text formatting, runs of machines with outputs
    (\<open>mealy_run\<close>), the collections \<open>const_simps\<close> and \<open>frame_simps\<close>.
  \<^item> \<open>Estop_Verdict\<close> (\<open>estop_verdict.c\<close>, \<open>estop_gpio.c\<close>): the debounced verdict of a channel, by
    way of the locale \<open>debounced_channel\<close>.
  \<^item> \<open>Session\<close> (\<open>session.c\<close>): bond state, pacing, counters and watchdog of one machine;
    \<open>Wire_Layout\<close> is a concrete codec for the witnesses.
  \<^item> \<open>App_Settings\<close> (\<open>app_settings.c\<close>): load, setters and write-through, by way of the locales
    \<open>write_through\<close> and \<open>persistent_setting\<close>, interpreted for every setting.
  \<^item> \<open>Lockstep\<close>, \<open>Lockstep_Safety\<close> (\<open>lockstep.c\<close>): samplers and comparator, as the synchronous tick
    and as threads cut at their blocking points (\<open>lk_step\<close>), with the invariant \<open>lk_inv\<close>; the
    locale \<open>verdict_carrier\<close> states what a frame says of the verdict.
  \<^item> \<open>Health_Logic\<close>, \<open>Health\<close> (\<open>health_logic.c\<close>, \<open>health.c\<close>): wear counters, warning board, flushes.
  \<^item> \<open>Log_Ring\<close> (\<open>log_ring.c\<close>, \<open>last_log.c\<close>): the log that survives a reset.
  \<^item> \<open>Ring\<close>, \<open>Leds\<close> (\<open>ring.c\<close>, \<open>leds.c\<close>): what the LEDs show; \<open>Uplink\<close>, \<open>Wifi\<close>
    (\<open>uplink.c\<close>, \<open>wifi.c\<close>): which network is used and the station's supervisor.
  \<^item> \<open>Http_Util\<close> (\<open>common/http_util\<close>), \<open>Http_Reply\<close>, \<open>Diagnostics\<close>, \<open>Api\<close>, \<open>Api_Safety\<close>
    (\<open>api.c\<close>, \<open>verbose.c\<close>, \<open>crash.c\<close>): query and credential parsing, answers and every route; the
    locale \<open>admin_route\<close> is the gate, interpreted for each guarded route.
  \<^item> \<open>Http_Server\<close>, \<open>Http_Sessions\<close> (\<open>http_server.c\<close>): the request table, reassembly, dispatch, the
    streamed dump and the restart; the locale \<open>per_client\<close> isolates clients.
    \<open>Http_Secrets\<close> runs two servers that differ only in their stored passwords side by side: no answer
    of any route tells them apart.
  \<^item> \<open>Api_Effects\<close>: what any request can do to settings and comparator (\<open>effect\<close>).
  \<^item> \<open>Boot\<close> (\<open>main.c\<close>): the start and the main loop. \<open>Remote\<close>, \<open>Remote_Peers\<close>, \<open>Remote_Run\<close>: all
    threads over the shared state (\<open>sys_step\<close>), their invariants and a concrete run.

  \<^bold>\<open>What is shown.\<close> This theory holds the properties that span components, over every run of
  the remote from a start: an OK is only sent over closed loops, to the peer the settings name; a
  waiting reconfiguration is served; RAM and flash agree; other threads only raise requests; the
  buffers hold. Each component's theory ends with its own properties: functional behaviour on
  every branch, round trips of its encodings, bounds of its buffers and arithmetic, liveness of its
  loops, and the errors it reports.

  \<^bold>\<open>Granularity, bounds and fuel.\<close> A turn of a thread between two blocking points is one step,
  and an operation under a mutex is one step; a read of a word another thread may be writing is not
  torn. No definition has fuel: loops over arrays are folds over their indices, and the others
  recurse structurally or with a measure that is proved to decrease.

  \<^bold>\<open>The other programs.\<close> Each is separate firmware with its own start; they share the modules
  under \<open>applications/common\<close>. \<open>C_Text\<close> is the C library's search in a text.
  \<^item> The macropad (\<open>applications/codex_keys\<close>), a keypad that speaks JSON with a host: \<open>Codex_Json\<close>
    (\<open>codex_json.c\<close>) has its scanner and a grammar of documents it is compared with; \<open>Codex_Hid\<close>
    (\<open>codex_hid.c\<close>) the cutting into reports and the reassembly, shown inverse; \<open>Codex_Rpc\<close>
    (\<open>codex_rpc.c\<close>) the parked request and its one answer; \<open>Codex_Keys\<close> (\<open>main.c\<close>) the scan loop,
    whose events keep the host's picture equal to the hardware's.
  \<^item> The joystick (\<open>applications/joystick_controller\<close>): \<open>Teleop\<close> (\<open>teleop.c\<close>, \<open>calibrate.c\<close>, \<open>main.c\<close>),
    the dead man's switch, the twists and the calibration; its doubles are rationals.
  \<^item> The camera (\<open>applications/prusa_cam\<close>, \<open>common/prusa_camera\<close>): \<open>Camera_Proto\<close> the requests to the
    service, \<open>Camera\<close> the configuration and the upload thread, \<open>Camera_Run\<close> its runs (a save and the end
    of its application are two events, with the blocking set-up of the camera between them), \<open>Camera_Web\<close>
    the web page (\<open>web.c\<close>), \<open>Camera_Stream\<close> the live stream (\<open>stream.c\<close>) over any cutting of the request
    by TCP, \<open>Camera_Driver\<close> the frame buffers (\<open>cam.c\<close>) over a driver any call of which may fail, the shell and the start (\<open>main.c\<close>).
  \<^item> \<open>App_Recovery\<close> (\<open>common/watchdog\<close>, \<open>common/img_confirm\<close>, \<open>common/reset_reason\<close>): watchdog
    channels, the deadline of an image on trial, the count of resets; \<open>App_Time\<close> (\<open>common/time\<close>): the
    clock, which goes on trying until it is synchronised, but for one end of a name query.
  \<^item> \<open>Frame_Capture\<close> (\<open>data_collection/src/cam_mgmt.c\<close>): a frame for a host, captured without leaking
    a buffer whatever fails, and pulled in pieces.
  \<^item> \<open>Bt_Keys\<close> (\<open>applications/bt_keys\<close>): a Bluetooth and USB keypad and the reports it sends.
  \<^item> \<open>Rover\<close> (\<open>applications/rasprover\<close>: \<open>app_motors.c\<close>, \<open>app_gimbal.c\<close>, \<open>app_picoros.c\<close>): wheels that
    stop on silence, the gimbal, and the ROS messages; \<open>Rover_Status\<close> the sensors, the status page,
    which fits its buffer or is refused, and the start. \<open>C_Number\<close> is C's conversion of a float.
    \<open>Pt_Mcp\<close> (\<open>applications/pt_mcp\<close>): the pan-tilt
    tool and how it reads its JSON arguments. \<open>Power_Meter\<close> (\<open>applications/powerbread\<close>): statistics
    (and what they count from before a reset), chart and display of a power meter. Their floats are rationals: rounding, infinities and
    not-a-number are not modelled.

  \<^bold>\<open>Not modelled.\<close> The text of log lines (a call inside a log macro's argument is modelled with
  a switch for the macro), thread priorities and stack sizes, the registration of HTTP resources,
  which is data, the web page, and test hooks under \<open>CONFIG_ZTEST\<close>. Of the other programs:
  the creation of widgets, HID and USB descriptors and the registration of Bluetooth services,
  which are data and calls; the rover's display and message types, the starts of the data
  collection and of the camera's WiFi, the motor controller, the embedded vision, the force sensor,
  the Bluetooth proxy and the Pico program, which pass readings and events between Zephyr's drivers
  and libraries and keep hardly a state of their own; the build identity, which the linker decides.
  The vendored \<open>pstop_c\<close>, the boards, the tests and the scripts are not part of the model.
\<close>

section \<open>Properties of the whole remote\<close>

text \<open>
  C1. The safety property of the remote as a whole. From every start of the firmware that
  reaches its loop, under every interleaving of the comparator, the samplers, HTTP callbacks
  of any number of clients, the main loop, the WiFi supervisor, the LEDs and the restart work,
  and whatever the pins, the network, the store and the clients deliver: if a frame of type OK
  is handed to a socket, each of the two stop-switch loops was read closed on at least its
  last three samples.
\<close>

theorem remote_ok_needs_closed_loops:
  fixes F :: "('m, 'f) firmware"
  assumes "lib_codes_distinct (fw_lib F)" and "lib_codec_faithful (fw_lib F)" and "lib_frame_sized (fw_lib F)"
    and "main_init (im_api (fw_image F)) E f = (outs, Inr rm)"
    and "OfLockstep (Tx slot frame) \<in> set (fst (sys_step F e (snd (mealy_run (sys_step F) es rm))))"
    and "msg_message (fw_lib F) (message_decode (fw_lib F) frame) = MSG_OK (fw_lib F)"
  shows "3 \<le> trailing loop_closed (sys_reads F 0 es rm) \<and> 3 \<le> trailing loop_closed (sys_reads F 1 es rm)"
proof -
  let ?rm = "snd (mealy_run (sys_step F) es rm)"
  have inv: "lk_inv (fw_lib F) (\<lambda>c. sys_reads F c es rm) (remote_lockstep ?rm)"
    using sys_run_inv [OF booted_sys_inv [OF assms(4)], of es] by simp
  obtain le where "lk_of e ?rm = Some le"
    using assms(5) sys_step_quiet [of e ?rm "Tx slot frame" F] by (cases "lk_of e ?rm") auto
  with assms(5) have "Tx slot frame \<in> set (fst (lk_step (fw_lib F) le (remote_lockstep ?rm)))"
    by (simp add: sys_step_lockstep lockstep_turn_device)
  from tx_ok_histories [OF assms(1-3) inv this assms(6)] show ?thesis by simp
qed

theorem remote_ok_needs_closed_loops_witness:
  "3 \<le> trailing loop_closed (sys_reads demo_firmware 0 demo_run demo_remote) \<and>
   3 \<le> trailing loop_closed (sys_reads demo_firmware 1 demo_run demo_remote)"
proof -
  obtain outs where "main_init (im_api (fw_image demo_firmware)) demo_start [] = (outs, Inr demo_remote)"
    using demo_boots by blast
  from remote_ok_needs_closed_loops [OF _ _ _ this demo_remote_sends] show ?thesis
    by (simp add: wire_lib_codes_distinct wire_lib_codec_faithful wire_lib_frame_sized demo_ok_kind)
qed

text \<open>
  C2. A machine is only ever talked to because the settings say so. In every run from a start,
  a frame that is handed to a slot's socket goes to the address and port, and carries the
  machine id, of the peer that the settings hold for that slot at that moment, unless a
  reconfiguration of the slot is waiting for the next tick. The comparator serves requests with
  its INF lines compiled in and let through, and a failing socket call sets \<open>errno\<close>.
\<close>

theorem remote_sends_to_configured_peer:
  fixes F :: "('m, 'f) firmware"
  assumes "main_init (im_api (fw_image F)) E f = (outs, Inr rm)" and "opens_report (be_tick E)"
    and "\<forall>e \<in> set es. turn_ok e"
    and "OfLockstep (Tx slot frame) \<in> set (fst (sys_step F e (snd (mealy_run (sys_step F) es rm))))"
  defines "rm' \<equiv> snd (mealy_run (sys_step F) es rm)"
  shows "bit (reconfigure_requests (remote_lockstep rm')) slot \<or>
    (let peer = cfg_peers (d_cfg (remote_device rm')) slot; s = sessions (remote_lockstep rm') slot
     in configured peer \<and> s_peer_addr s = peer_addr peer \<and> s_peer_id s = peer_id peer)"
proof -
  have "remote_followed rm'"
    unfolding rm'_def by (rule sys_run_followed [OF assms(3) booted_sys_inv(2) [OF assms(1)] booted_followed [OF assms(1,2)]])
  moreover obtain le where "lk_of e rm' = Some le"
    using assms(4) sys_step_quiet [of e rm' "Tx slot frame" F] by (cases "lk_of e rm'") (auto simp: rm'_def)
  with assms(4) have "Tx slot frame \<in> set (fst (lk_step (fw_lib F) le (remote_lockstep rm')))"
    by (simp add: sys_step_lockstep lockstep_turn_device rm'_def [symmetric])
  from sent_by_active [OF this] have "slot < 4" "slot_active (remote_lockstep rm') slot" by simp_all
  ultimately show ?thesis
    by (auto simp: remote_followed_def followed_def slot_follows_def target_def Let_def)
qed

theorem remote_sends_to_configured_peer_witness:
  "let rm' = snd (mealy_run (sys_step demo_firmware) demo_run demo_remote)
   in bit (reconfigure_requests (remote_lockstep rm')) 0 \<or>
      (let peer = cfg_peers (d_cfg (remote_device rm')) 0; s = sessions (remote_lockstep rm') 0
       in configured peer \<and> s_peer_addr s = peer_addr peer \<and> s_peer_id s = peer_id peer)"
proof -
  obtain outs where boot: "main_init (im_api (fw_image demo_firmware)) demo_start [] = (outs, Inr demo_remote)"
    using demo_boots by blast
  have "opens_report (be_tick demo_start)"
    by (simp add: demo_start_def opens_report_def demo_tick_env_def demo_env_def)
  moreover have "\<forall>e \<in> set demo_run. turn_ok e"
    by (simp add: demo_run_def demo_events_def demo_turn_def Let_def turn_ok_def demo_tick_env_def
        opens_report_def demo_env_def)
  ultimately show ?thesis
    using remote_sends_to_configured_peer [OF boot _ _ demo_remote_sends] by (simp add: Let_def)
qed

text \<open>
  C3. A request to take up a slot is served by the next tick. When the comparator is at the top
  of its loop, a reconfiguration of the slot is waiting, the settings hold a peer for it and the
  socket opens, then after that one turn the slot is live and its session is addressed to exactly
  that peer, whatever it talked to before and whatever else was asked for.
\<close>

theorem remote_serves_reconfigure:
  fixes F :: "('m, 'f) firmware" and rm :: "'f remote"
  assumes "cmp_at (remote_lockstep rm) = AtTop" and "bit (reconfigure_requests (remote_lockstep rm)) slot"
    and "slot < 4" and "configured (cfg_peers (d_cfg (remote_device rm)) slot)"
    and "opens E slot" and "te_log_inf E"
  shows "let ls = remote_lockstep (snd (sys_step F (ComparatorTurn E) rm));
             peer = cfg_peers (d_cfg (remote_device rm)) slot
         in slot_active ls slot \<and> s_peer_addr (sessions ls slot) = peer_addr peer \<and>
            s_peer_id (sessions ls slot) = peer_id peer"
  using comparator_turn_live [OF assms(1-6), of F] by (simp add: target_def live_for_def Let_def)

theorem remote_serves_reconfigure_witness:
  "let d = booted_device demo_build demo_start [];
       rm = put_device (d\<lparr>d_lockstep := (d_lockstep d)\<lparr>reconfigure_requests := 1\<rparr>\<rparr>) demo_remote
   in slot_active (remote_lockstep (snd (sys_step demo_firmware (ComparatorTurn (demo_tick_env 100)) rm))) 0"
proof -
  let ?d = "booted_device demo_build demo_start []"
  let ?rm = "put_device (?d\<lparr>d_lockstep := (d_lockstep ?d)\<lparr>reconfigure_requests := 1\<rparr>\<rparr>) demo_remote"
  have "cmp_at (remote_lockstep ?rm) = AtTop"
    using demo_remote_at by (simp add: demo_at_def demo_remote_fields)
  moreover have "d_cfg ?d = demo_cfg" using demo_remote_fields by simp
  moreover have "opens (demo_tick_env 100) 0" "te_log_inf (demo_tick_env 100)"
    by (simp_all add: opens_def demo_tick_env_def demo_env_def)
  ultimately show ?thesis
    using remote_serves_reconfigure [of ?rm 0 "demo_tick_env 100" demo_firmware]
    by (simp add: demo_cfg_def demo_peer_def Let_def)
qed

text \<open>
  C4. RAM and flash agree for as long as the remote runs. Whatever requests, interleavings and
  failing writes a run from a start consists of, the settings in RAM are at every point exactly
  what the next boot would load from the store.
\<close>

theorem remote_settings_survive:
  fixes F :: "('m, 'f) firmware"
  assumes "main_init (im_api (fw_image F)) E f = (outs, Inr rm)"
    and "backend_lawful (ab_backend (im_api (fw_image F)))" and "store_sane (ab_backend (im_api (fw_image F))) f"
  shows "let d = remote_device (snd (mealy_run (sys_step F) es rm))
         in reload_settings (ab_backend (im_api (fw_image F))) (derive_device_id (be_hwinfo E)) (d_store d) = d_cfg d"
  using sys_run_stored [OF assms(2) booted_stored [OF assms], of es] by (simp add: stored_inv_def Let_def)

theorem remote_settings_survive_witness:
  "let d = remote_device (snd (mealy_run (sys_step demo_firmware) demo_run demo_remote))
   in reload_settings demo_backend FALLBACK_ID (d_store d) = d_cfg d"
proof -
  obtain outs where boot: "main_init (im_api (fw_image demo_firmware)) demo_start [] = (outs, Inr demo_remote)"
    using demo_boots by blast
  have "store_sane demo_backend []" by (simp add: store_sane_def demo_backend_def)
  moreover have "derive_device_id (be_hwinfo demo_start) = FALLBACK_ID"
    by (simp add: demo_start_def derive_device_id_def)
  ultimately show ?thesis
    using remote_settings_survive [OF boot, of demo_run] by (simp add: demo_backend_lawful)
qed

text \<open>
  C5. The control plane reaches the stop path through two doors only. In every run from a start,
  a turn that is not one of the comparator's or the samplers' refines this abstract step: the
  settings and their store change by a sequence of setter calls with representable arguments,
  nothing of the comparator is written but its two request words, no waiting request is
  withdrawn, and every slot whose peer changed has a request waiting.
\<close>

theorem remote_confines_other_threads:
  fixes F :: "('m, 'f) firmware" and es :: "sys_event list" and rm :: "'f remote" and e :: sys_event
  assumes "main_init (im_api (fw_image F)) E f = (outs, Inr rm)"
    and "\<And>env. e \<noteq> ComparatorTurn env" and "\<And>c env. e \<noteq> SamplerTurn c env"
  defines "d \<equiv> remote_device (snd (mealy_run (sys_step F) es rm))"
    and "d' \<equiv> remote_device (snd (mealy_run (sys_step F) (es @ [e]) rm))"
  shows "by_setters (ab_backend (im_api (fw_image F))) (d_store d, d_cfg d) (d_store d', d_cfg d') \<and>
    asked (d_lockstep d) (d_lockstep d') \<and>
    (\<forall>slot. cfg_peers (d_cfg d') slot = cfg_peers (d_cfg d) slot \<or> bit (reconfigure_requests (d_lockstep d')) slot)"
proof -
  let ?rm = "snd (mealy_run (sys_step F) es rm)"
  have "lk_of e ?rm = None" using assms(2,3) by (cases e) (auto simp: lk_of_def)
  moreover have "nets_ok (d_cfg (remote_device ?rm))"
    using sys_run_inv [OF booted_sys_inv [OF assms(1)], of es] by simp
  ultimately have "effect (im_api (fw_image F)) d d'"
    using sys_step_effect [of e ?rm F] by (simp add: d_def d'_def mealy_run_append)
  then show ?thesis by (simp add: effect_def)
qed

theorem remote_confines_other_threads_witness:
  "asked (remote_lockstep (snd (mealy_run (sys_step demo_firmware) demo_run demo_remote)))
     (remote_lockstep (snd (mealy_run (sys_step demo_firmware) (demo_run @ [MainPass 500 0]) demo_remote)))"
proof -
  obtain outs where boot: "main_init (im_api (fw_image demo_firmware)) demo_start [] = (outs, Inr demo_remote)"
    using demo_boots by blast
  show ?thesis using remote_confines_other_threads [OF boot, of "MainPass 500 0" demo_run] by simp
qed

text \<open>
  C6. What a client sends always fits the arrays it is kept in. In every run from a start the
  request table has its configured number of entries, each with credentials that leave room for
  their terminator, a body of at most \<open>REQ_BODY_MAX\<close> bytes and a stream that has not run past
  its end; the stored networks fit their fields and the ring offset names an LED.
\<close>

theorem remote_state_wellformed:
  fixes F :: "('m, 'f) firmware"
  assumes "main_init (im_api (fw_image F)) E f = (outs, Inr rm)" and "dump_bounded (im_dump (fw_image F))"
  shows "let rm' = snd (mealy_run (sys_step F) es rm)
         in server_wf F (be_max_clients E) rm' \<and> settings_wf (d_cfg (remote_device rm'))"
  using sys_run_server_wf [OF assms(2) booted_server_wf [OF assms(1)], of es]
    sys_run_settings_wf [OF booted_settings_wf [OF assms(1)], of F es] by (simp add: Let_def)

theorem remote_state_wellformed_witness:
  "server_wf demo_firmware 2 (snd (mealy_run (sys_step demo_firmware) demo_run demo_remote))"
proof -
  obtain outs where boot: "main_init (im_api (fw_image demo_firmware)) demo_start [] = (outs, Inr demo_remote)"
    using demo_boots by blast
  have "dump_bounded (im_dump (fw_image demo_firmware))"
    by (simp add: dump_bounded_def crash_read_def demo_firmware_def demo_image_def const_simps)
  moreover have "be_max_clients demo_start = 2" by (simp add: demo_start_def)
  ultimately show ?thesis
    using remote_state_wellformed [OF boot, of demo_run] by (simp add: Let_def)
qed

end
